(* ===== verification/Prelude.thy ===== *)
theory Prelude
  imports Complex_Main "HOL-Library.AList" "HOL-Library.List_Lexorder" "HOL-Library.Char_ord"
begin

text \<open>
  What every component shares: Python dictionaries as association lists that keep the
  insertion order, the string operations the modelled code uses (on code points below 256),
  results that carry the raised exception, and the lemma collections of the development.
\<close>

section \<open>Lemma collections\<close>

named_theorems dict_simps "lookup, insertion and removal on insertion-ordered dictionaries"
named_theorems inv_intros "every operation of a component keeps its invariant"

section \<open>Time and exact arithmetic\<close>

text \<open>
  Python floats that are durations, clock readings, rates and weights are exact rationals
  here: rounding of the binary representation is not modelled.
\<close>

type_synonym secs = rat

text \<open>Python's \<open>round\<close>: ties go to the even neighbour.\<close>

definition py_round :: "rat \<Rightarrow> int" where
  "py_round x =
     (let n = \<lfloor>x\<rfloor>; d = x - of_int n
      in if d < 1 / 2 then n else if 1 / 2 < d then n + 1 else if even n then n else n + 1)"

lemma py_round_mono_bounds:
  assumes "of_int a \<le> x" and "x \<le> of_int b"
  shows "a \<le> py_round x \<and> py_round x \<le> b"
proof -
  have lo: "a \<le> \<lfloor>x\<rfloor>" using assms(1) by (simp add: le_floor_iff)
  have up: "\<lfloor>x\<rfloor> \<le> b" using assms(2) by (metis floor_mono floor_of_int)
  have "\<lfloor>x\<rfloor> + 1 \<le> b" if "1 / 2 \<le> x - of_int \<lfloor>x\<rfloor>"
  proof (rule ccontr)
    assume "\<not> \<lfloor>x\<rfloor> + 1 \<le> b"
    then have "\<lfloor>x\<rfloor> = b" using up by simp
    with that assms(2) show False by simp
  qed
  with lo up show ?thesis by (auto simp: py_round_def Let_def)
qed

section \<open>Results\<close>

text \<open>One computation after another, and a computation on each element; both stop at the first failure.\<close>

definition and_then :: "'e + 'a \<Rightarrow> ('a \<Rightarrow> 'e + 'b) \<Rightarrow> 'e + 'b" where
  "and_then r f = (case r of Inl e \<Rightarrow> Inl e | Inr x \<Rightarrow> f x)"

lemma and_then_simps [simp]: "and_then (Inl e) f = Inl e" "and_then (Inr x) f = f x"
  by (simp_all add: and_then_def)

lemma and_then_Inr [simp]:
  "and_then r f = Inr y \<longleftrightarrow> (\<exists>x. r = Inr x \<and> f x = Inr y)"
  "Inr y = and_then r f \<longleftrightarrow> (\<exists>x. r = Inr x \<and> f x = Inr y)"
  by (cases r; auto)+

lemma if_Inl [simp]: "(if b then Inl e else r) = Inr y \<longleftrightarrow> \<not> b \<and> r = Inr y"
  by simp

fun traverse :: "('a \<Rightarrow> 'e + 'b) \<Rightarrow> 'a list \<Rightarrow> 'e + 'b list" where
  "traverse f [] = Inr []"
| "traverse f (x # xs) = and_then (f x) (\<lambda>y. and_then (traverse f xs) (\<lambda>ys. Inr (y # ys)))"

lemma traverse_Inr: "traverse f xs = Inr ys \<Longrightarrow> y \<in> set ys \<Longrightarrow> \<exists>x\<in>set xs. f x = Inr y"
  by (induction xs arbitrary: ys) auto

section \<open>Python dictionaries\<close>

text \<open>
  A Python \<open>dict\<close> keeps its keys in insertion order; assigning to a present key keeps the
  position, assigning to a new key appends. \<^const>\<open>AList.update\<close> does both, and
  \<^const>\<open>AList.delete\<close> is \<open>pop(k, None)\<close>.
\<close>

type_synonym ('k, 'v) dict = "('k \<times> 'v) list"

abbreviation dict_get :: "('k, 'v) dict \<Rightarrow> 'k \<Rightarrow> 'v option" where
  "dict_get d k \<equiv> map_of d k"

abbreviation dict_set :: "'k \<Rightarrow> 'v \<Rightarrow> ('k, 'v) dict \<Rightarrow> ('k, 'v) dict" where
  "dict_set k v d \<equiv> AList.update k v d"

abbreviation dict_pop :: "'k \<Rightarrow> ('k, 'v) dict \<Rightarrow> ('k, 'v) dict" where
  "dict_pop k d \<equiv> AList.delete k d"

definition dict_has :: "('k, 'v) dict \<Rightarrow> 'k \<Rightarrow> bool" where
  "dict_has d k = (map_of d k \<noteq> None)"

abbreviation dict_keys :: "('k, 'v) dict \<Rightarrow> 'k list" where
  "dict_keys d \<equiv> map fst d"

abbreviation dict_values :: "('k, 'v) dict \<Rightarrow> 'v list" where
  "dict_values d \<equiv> map snd d"

text \<open>
  Reads stay reads: the library would turn a lookup in a dictionary without duplicates into
  membership of a pair.
\<close>

declare map_of_eq_Some_iff [simp del] Some_eq_map_of_iff [simp del]

text \<open>The representation invariant of a dictionary: no key occurs twice.\<close>

abbreviation dict_ok :: "('k, 'v) dict \<Rightarrow> bool" where
  "dict_ok d \<equiv> distinct (map fst d)"

lemma dict_get_set [dict_simps]: "dict_get (dict_set k v d) = (dict_get d)(k \<mapsto> v)"
  by (rule update_conv')

lemma dict_get_pop [dict_simps]: "dict_get (dict_pop k d) = (dict_get d)(k := None)"
  by (rule delete_conv')

lemma dict_has_iff: "dict_has d k \<longleftrightarrow> k \<in> set (dict_keys d)"
  unfolding dict_has_def by (metis map_of_eq_None_iff image_set)

lemma not_dict_has: "\<not> dict_has d k \<longleftrightarrow> dict_get d k = None"
  by (simp add: dict_has_def)

lemma dict_hasI: "dict_get d k = Some v \<Longrightarrow> dict_has d k"
  by (simp add: dict_has_def)

lemma dict_has_set [simp]: "dict_has (dict_set k v d) j \<longleftrightarrow> j = k \<or> dict_has d j"
  by (simp add: dict_has_def dict_simps)

lemma dict_has_pop [simp]: "dict_has (dict_pop k d) j \<longleftrightarrow> j \<noteq> k \<and> dict_has d j"
  by (simp add: dict_has_def dict_simps)

lemma dict_has_Nil [simp]: "\<not> dict_has [] k"
  by (simp add: dict_has_def)

lemma dict_ok_set [simp, intro]: "dict_ok d \<Longrightarrow> dict_ok (dict_set k v d)"
  by (rule distinct_update)

lemma dict_ok_pop [simp, intro]: "dict_ok d \<Longrightarrow> dict_ok (dict_pop k d)"
  by (rule distinct_delete)

lemma dict_set_new: "\<not> dict_has d k \<Longrightarrow> dict_set k v d = d @ [(k, v)]"
  by (induction d) (auto simp: dict_has_def split: if_splits)

lemma dict_keys_set_old: "dict_has d k \<Longrightarrow> dict_keys (dict_set k v d) = dict_keys d"
  by (induction d) (auto simp: dict_has_def split: if_splits)

lemma dict_keys_set:
  "dict_keys (dict_set k v d) = (if dict_has d k then dict_keys d else dict_keys d @ [k])"
  by (simp add: dict_keys_set_old dict_set_new)

lemma set_dict_keys_set [simp]: "set (dict_keys (dict_set k v d)) = insert k (set (dict_keys d))"
  by (auto simp: dict_keys_set dict_has_iff simp del: set_map)

lemma dict_keys_pop: "dict_keys (dict_pop k d) = filter (\<lambda>j. j \<noteq> k) (dict_keys d)"
  by (induction d) (auto simp: AList.delete_eq)

lemma length_dict_set:
  "length (dict_set k v d) = (if dict_has d k then length d else Suc (length d))"
  using dict_keys_set [of k v d] by (metis length_append_singleton length_map)

lemma length_dict_pop:
  assumes "dict_ok d" and "dict_has d k"
  shows "Suc (length (dict_pop k d)) = length d"
  using assms by (induction d) (auto simp: dict_has_def delete_notin_dom split: if_splits)

lemma dict_pop_absent [simp]: "\<not> dict_has d k \<Longrightarrow> dict_pop k d = d"
  by (simp add: dict_has_iff delete_notin_dom)

lemma dict_get_Some_mem: "dict_get d k = Some v \<Longrightarrow> (k, v) \<in> set d"
  by (rule map_of_SomeD)

lemma dict_get_iff: "dict_ok d \<Longrightarrow> dict_get d k = Some v \<longleftrightarrow> (k, v) \<in> set d"
  by (rule map_of_eq_Some_iff)

lemma dict_values_iff: "dict_ok d \<Longrightarrow> v \<in> set (dict_values d) \<longleftrightarrow> (\<exists>k. dict_get d k = Some v)"
  by (force simp: dict_get_iff)

lemma dict_get_rev: "dict_ok d \<Longrightarrow> dict_get (rev d) = dict_get d"
proof (rule ext)
  fix k
  assume ok: "dict_ok d"
  then have "dict_ok (rev d)" by (simp flip: rev_map)
  then have "\<And>v. dict_get (rev d) k = Some v \<longleftrightarrow> dict_get d k = Some v"
    using ok by (simp add: dict_get_iff)
  then show "dict_get (rev d) k = dict_get d k"
    by (metis option.exhaust)
qed

text \<open>How a dictionary update changes the number of values with some property.\<close>

lemma count_values_set_new:
  "\<not> dict_has d k \<Longrightarrow>
   length (filter P (dict_values (dict_set k v d))) =
   length (filter P (dict_values d)) + (if P v then 1 else 0)"
  by (simp add: dict_set_new)

lemma count_values_pop:
  assumes "dict_ok d" and "dict_get d k = Some v"
  shows "length (filter P (dict_values d)) =
         length (filter P (dict_values (dict_pop k d))) + (if P v then 1 else 0)"
  using assms by (induction d) (auto simp: delete_notin_dom split: if_splits)

end
