(* ===== verification/Ordered_Map.thy ===== *)
theory Ordered_Map
  imports Prelude
begin

text \<open>
  The insertion-ordered hash map of \<open>data_structures/ordered_hashmap.py\<close> and its entry
  API, and the contract of a keyed store that the graph library and the breaker registries
  rely on. The class has one slot, the backing \<open>dict\<close>; a map here is that dictionary.
\<close>

section \<open>The contract of a keyed store\<close>

locale keyed_store =
  fixes lookup :: "'m \<Rightarrow> 'k \<Rightarrow> 'v option"
    and store :: "'m \<Rightarrow> 'k \<Rightarrow> 'v \<Rightarrow> 'm"
    and erase :: "'m \<Rightarrow> 'k \<Rightarrow> 'm"
  assumes lookup_store: "lookup (store m k v) = (lookup m)(k := Some v)"
    and lookup_erase: "lookup (erase m k) = (lookup m)(k := None)"
begin

lemma store_same: "lookup (store m k v) k = Some v"
  by (simp add: lookup_store)

lemma store_other: "j \<noteq> k \<Longrightarrow> lookup (store m k v) j = lookup m j"
  by (simp add: lookup_store)

text \<open>The get-or-create idiom: the first call fixes the value, later ones return it.\<close>

lemma get_or_create_stable:
  assumes "m' = (case lookup m k of None \<Rightarrow> store m k v | Some _ \<Rightarrow> m)"
  shows "lookup m' k = Some (case lookup m k of None \<Rightarrow> v | Some w \<Rightarrow> w)"
    and "j \<noteq> k \<Longrightarrow> lookup m' j = lookup m j"
  using assms by (auto simp: lookup_store split: option.splits)

lemma store_erase: "lookup (erase (store m k v) k) = (lookup m)(k := None)"
  by (simp add: lookup_store lookup_erase)

end

text \<open>
  An ordered store also fixes the order in which the keys are listed: a new key goes last, a
  present key keeps its place, erasing keeps the order of the rest.
\<close>

locale ordered_store = keyed_store lookup store erase
  for lookup :: "'m \<Rightarrow> 'k \<Rightarrow> 'v option"
    and store :: "'m \<Rightarrow> 'k \<Rightarrow> 'v \<Rightarrow> 'm"
    and erase :: "'m \<Rightarrow> 'k \<Rightarrow> 'm" +
  fixes keys :: "'m \<Rightarrow> 'k list"
  assumes keys_lookup: "k \<in> set (keys m) \<longleftrightarrow> lookup m k \<noteq> None"
    and keys_store: "keys (store m k v) =
      (if lookup m k = None then keys m @ [k] else keys m)"
    and keys_erase: "keys (erase m k) = filter (\<lambda>j. j \<noteq> k) (keys m)"
begin

lemma keys_store_set: "set (keys (store m k v)) = insert k (set (keys m))"
  by (auto simp: keys_store keys_lookup)

lemma distinct_store: "distinct (keys m) \<Longrightarrow> distinct (keys (store m k v))"
  by (simp add: keys_store keys_lookup)

lemma distinct_erase: "distinct (keys m) \<Longrightarrow> distinct (keys (erase m k))"
  by (simp add: keys_erase)

text \<open>Absorbing a list of bindings, one store after the other.\<close>

lemma keys_fold_store:
  "distinct (map fst kvs) \<Longrightarrow>
   keys (fold (\<lambda>(k, v) m. store m k v) kvs m) =
   keys m @ filter (\<lambda>k. k \<notin> set (keys m)) (map fst kvs)"
proof (induction kvs arbitrary: m)
  case Nil
  then show ?case by simp
next
  case (Cons kv kvs)
  obtain k v where kv: "kv = (k, v)" by (cases kv)
  from Cons.prems have d: "distinct (map fst kvs)" and k: "k \<notin> set (map fst kvs)"
    by (auto simp: kv)
  have "filter (\<lambda>j. j \<noteq> k \<and> j \<notin> set (keys m)) (map fst kvs) =
        filter (\<lambda>j. j \<notin> set (keys m)) (map fst kvs)"
    using k by (intro filter_cong) auto
  then show ?case
    using Cons.IH [OF d, of "store m k v"] k
    by (auto simp: kv keys_store_set keys_store keys_lookup)
qed

lemma lookup_fold_store:
  "lookup (fold (\<lambda>(k, v) m. store m k v) kvs m) = lookup m ++ map_of (rev kvs)"
proof (induction kvs arbitrary: m)
  case Nil
  then show ?case by simp
next
  case (Cons kv kvs)
  then show ?case
    by (cases kv) (auto simp: lookup_store map_add_def fun_eq_iff split: option.splits)
qed

end

section \<open>The map\<close>

type_synonym ('k, 'v) ordered_hashmap = "('k, 'v) dict"

definition ohm_new :: "('k, 'v) ordered_hashmap" where
  "ohm_new = []"

definition ohm_len :: "('k, 'v) ordered_hashmap \<Rightarrow> nat" where
  "ohm_len m = length m"

definition ohm_contains_key :: "('k, 'v) ordered_hashmap \<Rightarrow> 'k \<Rightarrow> bool" where
  "ohm_contains_key m k = dict_has m k"

definition ohm_get :: "('k, 'v) ordered_hashmap \<Rightarrow> 'k \<Rightarrow> 'v option" where
  "ohm_get m k = dict_get m k"

text \<open>\<open>insert\<close> and \<open>remove\<close> return the previous value together with the new map.\<close>

definition ohm_insert ::
  "('k, 'v) ordered_hashmap \<Rightarrow> 'k \<Rightarrow> 'v \<Rightarrow> 'v option \<times> ('k, 'v) ordered_hashmap" where
  "ohm_insert m k v = (dict_get m k, dict_set k v m)"

definition ohm_remove ::
  "('k, 'v) ordered_hashmap \<Rightarrow> 'k \<Rightarrow> 'v option \<times> ('k, 'v) ordered_hashmap" where
  "ohm_remove m k = (dict_get m k, dict_pop k m)"

abbreviation ohm_put :: "('k, 'v) ordered_hashmap \<Rightarrow> 'k \<Rightarrow> 'v \<Rightarrow> ('k, 'v) ordered_hashmap" where
  "ohm_put m k v \<equiv> snd (ohm_insert m k v)"

abbreviation ohm_del :: "('k, 'v) ordered_hashmap \<Rightarrow> 'k \<Rightarrow> ('k, 'v) ordered_hashmap" where
  "ohm_del m k \<equiv> snd (ohm_remove m k)"

definition ohm_extend ::
  "('k, 'v) ordered_hashmap \<Rightarrow> ('k, 'v) ordered_hashmap \<Rightarrow> ('k, 'v) ordered_hashmap" where
  "ohm_extend m other = fold (\<lambda>(k, v) d. dict_set k v d) other m"

definition ohm_keys :: "('k, 'v) ordered_hashmap \<Rightarrow> 'k list" where
  "ohm_keys m = dict_keys m"

definition ohm_values :: "('k, 'v) ordered_hashmap \<Rightarrow> 'v list" where
  "ohm_values m = dict_values m"

definition ohm_iter :: "('k, 'v) ordered_hashmap \<Rightarrow> ('k \<times> 'v) list" where
  "ohm_iter m = m"

definition ohm_into_values :: "('k, 'v) ordered_hashmap \<Rightarrow> 'v list" where
  "ohm_into_values m = dict_values m"

definition ohm_eq :: "('k, 'v) ordered_hashmap \<Rightarrow> ('k, 'v) ordered_hashmap \<Rightarrow> bool" where
  "ohm_eq a b = (ohm_iter a = ohm_iter b)"

section \<open>Entries\<close>

text \<open>
  An entry remembers whether its key was present when the entry was made and holds the live
  dictionary. The dictionary is passed to the operation, so an entry used after another
  mutation sees the mutated dictionary, as the shared reference does; indexing a key that has
  meanwhile been removed is the \<open>KeyError\<close> of \<open>self._data[self._key]\<close>.
\<close>

record 'k entry =
  entry_key :: 'k
  entry_occupied :: bool

datatype 'k map_error = KeyError 'k

definition ohm_entry :: "('k, 'v) ordered_hashmap \<Rightarrow> 'k \<Rightarrow> 'k entry" where
  "ohm_entry m k = \<lparr>entry_key = k, entry_occupied = dict_has m k\<rparr>"

definition or_insert ::
  "'k entry \<Rightarrow> 'v \<Rightarrow> ('k, 'v) ordered_hashmap \<Rightarrow> 'k map_error + 'v \<times> ('k, 'v) ordered_hashmap" where
  "or_insert e v m =
     (if entry_occupied e
      then (case dict_get m (entry_key e) of
              None \<Rightarrow> Inl (KeyError (entry_key e))
            | Some w \<Rightarrow> Inr (w, m))
      else Inr (v, dict_set (entry_key e) v m))"

definition or_insert_with ::
  "'k entry \<Rightarrow> (unit \<Rightarrow> 'v) \<Rightarrow> ('k, 'v) ordered_hashmap \<Rightarrow> 'k map_error + 'v \<times> ('k, 'v) ordered_hashmap" where
  "or_insert_with e f m =
     (if entry_occupied e
      then (case dict_get m (entry_key e) of
              None \<Rightarrow> Inl (KeyError (entry_key e))
            | Some w \<Rightarrow> Inr (w, m))
      else (let v = f () in Inr (v, dict_set (entry_key e) v m)))"

section \<open>The map keeps the contract\<close>

lemma ohm_put_eq [simp]: "ohm_put m k v = dict_set k v m"
  by (simp add: ohm_insert_def)

lemma ohm_del_eq [simp]: "ohm_del m k = dict_pop k m"
  by (simp add: ohm_remove_def)

lemmas ohm_reads = ohm_get_def ohm_contains_key_def ohm_len_def ohm_keys_def ohm_values_def
  ohm_iter_def ohm_new_def

interpretation ohm: ordered_store
  "dict_get :: ('k, 'v) ordered_hashmap \<Rightarrow> _"
  "\<lambda>m k v. ohm_put m k v" "\<lambda>m k. ohm_del m k" "ohm_keys"
proof (unfold_locales, goal_cases)
  case (3 k m)
  then show ?case by (simp add: ohm_keys_def map_of_eq_None_iff)
next
  case (4 m k v)
  then show ?case by (simp add: ohm_keys_def dict_keys_set dict_has_def)
next
  case (5 m k)
  then show ?case by (simp add: ohm_keys_def dict_keys_pop)
qed (simp_all add: fun_eq_iff dict_simps)

lemma ohm_extend_fold:
  "ohm_extend m other = fold (\<lambda>(k, v) d. ohm_put d k v) other m"
  by (simp add: ohm_extend_def)

text \<open>
  Absorbing another map: the other map's values win, its new keys follow in its own order,
  the keys already there do not move.
\<close>

lemma ohm_extend_keys:
  "dict_ok other \<Longrightarrow>
   ohm_keys (ohm_extend m other) =
   ohm_keys m @ filter (\<lambda>k. \<not> ohm_contains_key m k) (ohm_keys other)"
  unfolding ohm_extend_fold
  by (subst ohm.keys_fold_store)
     (simp_all add: ohm_keys_def ohm_contains_key_def dict_has_iff)

lemma ohm_extend_get:
  "dict_ok other \<Longrightarrow> dict_get (ohm_extend m other) = dict_get m ++ dict_get other"
  unfolding ohm_extend_fold
  by (subst ohm.lookup_fold_store) (simp add: dict_get_rev)

end
