(* ===== verification/Graphlib.thy ===== *)
theory Graphlib
  imports Ordered_Map
begin

text \<open>
  The graph of \<open>data_structures/graphlib.py\<close>: edge identities, the graph object with its
  redundant adjacency tables, node, edge and parent operations. A node or edge label is an
  option (\<^term>\<open>None\<close> is Python's \<open>None\<close>, a legal label); the label factories are
  functions given by the caller. A method that raises returns \<^term>\<open>Inl\<close>; one that may not
  return has an option result. The inner maps of the adjacency tables are each owned by one
  outer slot, so writing an inner map in place is storing the new inner map in its slot.
\<close>

section \<open>Edge identity\<close>

type_synonym node_id = string
type_synonym edge_id = string

definition DEFAULT_EDGE_NAME :: string where
  "DEFAULT_EDGE_NAME = [CHR 0x00]"

definition GRAPH_NODE :: node_id where
  "GRAPH_NODE = [CHR 0x00]"

definition EDGE_KEY_DELIM :: string where
  "EDGE_KEY_DELIM = [CHR 0x01]"

record edge =
  edge_v :: node_id
  edge_w :: node_id
  edge_name :: "string option"

record graph_option =
  opt_directed :: "bool option"
  opt_multigraph :: "bool option"
  opt_compound :: "bool option"

definition edge_args_to_id :: "bool \<Rightarrow> node_id \<Rightarrow> node_id \<Rightarrow> string option \<Rightarrow> edge_id" where
  "edge_args_to_id is_directed v w name =
     (let (v, w) = (if \<not> is_directed \<and> v > w then (w, v) else (v, w));
          name_part = (case name of Some n \<Rightarrow> n | None \<Rightarrow> DEFAULT_EDGE_NAME)
      in v @ EDGE_KEY_DELIM @ w @ EDGE_KEY_DELIM @ name_part)"

definition edge_args_to_obj :: "bool \<Rightarrow> node_id \<Rightarrow> node_id \<Rightarrow> string option \<Rightarrow> edge" where
  "edge_args_to_obj is_directed v w name =
     (let (v, w) = (if \<not> is_directed \<and> v > w then (w, v) else (v, w))
      in \<lparr>edge_v = v, edge_w = w, edge_name = name\<rparr>)"

definition edge_obj_to_id :: "bool \<Rightarrow> edge \<Rightarrow> edge_id" where
  "edge_obj_to_id is_directed e = edge_args_to_id is_directed (edge_v e) (edge_w e) (edge_name e)"

section \<open>The graph object\<close>

datatype 'n node_label_default =
    NodeLabelValue "'n option"
  | NodeLabelFactory "node_id \<Rightarrow> 'n option"

datatype 'e edge_label_default =
    EdgeLabelValue "'e option"
  | EdgeLabelFactory "edge_id \<Rightarrow> 'e option"

record ('gl, 'n, 'e) graph =
  is_directed :: bool
  is_multigraph :: bool
  is_compound :: bool
  glabel :: "'gl option"
  default_node_label_fn :: "'n node_label_default"
  node_default_factory :: "unit \<Rightarrow> 'n option"
  default_edge_label_fn :: "'e edge_label_default"
  edge_default_factory :: "unit \<Rightarrow> 'e option"
  nodes_map :: "(node_id, 'n option) ordered_hashmap"
  in_map :: "(node_id, (edge_id, edge) ordered_hashmap) ordered_hashmap"
  preds_map :: "(node_id, (node_id, int) ordered_hashmap) ordered_hashmap"
  out_map :: "(node_id, (edge_id, edge) ordered_hashmap) ordered_hashmap"
  sucs_map :: "(node_id, (node_id, int) ordered_hashmap) ordered_hashmap"
  edge_objs :: "(edge_id, edge) ordered_hashmap"
  edge_labels :: "(edge_id, 'e option) ordered_hashmap"
  gnode_count :: int
  gedge_count :: int
  parent_map :: "(node_id, node_id) ordered_hashmap"
  children_map :: "(node_id, (node_id, bool) ordered_hashmap) ordered_hashmap"

datatype graph_error =
    NamedEdgeOnSimpleGraph
  | ParentOnNonCompound
  | ParentCycle node_id node_id

definition new_graph ::
  "graph_option option \<Rightarrow> (unit \<Rightarrow> 'n option) option \<Rightarrow> (unit \<Rightarrow> 'e option) option \<Rightarrow>
   ('gl, 'n, 'e) graph" where
  "new_graph opts node_factory edge_factory =
     (let flag = (\<lambda>sel dflt. case opts of None \<Rightarrow> dflt
                    | Some opt \<Rightarrow> (case sel opt of Some b \<Rightarrow> b | None \<Rightarrow> dflt));
          compound = flag opt_compound False
      in \<lparr>is_directed = flag opt_directed True,
          is_multigraph = flag opt_multigraph False,
          is_compound = compound,
          glabel = None,
          default_node_label_fn = NodeLabelValue None,
          node_default_factory = (case node_factory of Some f \<Rightarrow> f | None \<Rightarrow> (\<lambda>_. None)),
          default_edge_label_fn = EdgeLabelValue None,
          edge_default_factory = (case edge_factory of Some f \<Rightarrow> f | None \<Rightarrow> (\<lambda>_. None)),
          nodes_map = ohm_new, in_map = ohm_new, preds_map = ohm_new,
          out_map = ohm_new, sucs_map = ohm_new,
          edge_objs = ohm_new, edge_labels = ohm_new,
          gnode_count = 0, gedge_count = 0,
          parent_map = ohm_new,
          children_map = (if compound then ohm_put ohm_new GRAPH_NODE ohm_new else ohm_new)\<rparr>)"

section \<open>Node operations\<close>

definition default_node_label :: "('gl, 'n, 'e) graph \<Rightarrow> node_id \<Rightarrow> 'n option" where
  "default_node_label g v =
     (case default_node_label_fn g of
        NodeLabelFactory f \<Rightarrow>
          (case f v of Some l \<Rightarrow> Some l | None \<Rightarrow> node_default_factory g ())
      | NodeLabelValue (Some l) \<Rightarrow> Some l
      | NodeLabelValue None \<Rightarrow> node_default_factory g ())"

definition set_default_node_label ::
  "('gl, 'n, 'e) graph \<Rightarrow> 'n node_label_default \<Rightarrow> ('gl, 'n, 'e) graph" where
  "set_default_node_label g d = g\<lparr>default_node_label_fn := d\<rparr>"

definition has_node :: "('gl, 'n, 'e) graph \<Rightarrow> node_id \<Rightarrow> bool" where
  "has_node g v = dict_has (nodes_map g) v"

text \<open>\<open>node(v)\<close> is \<open>None\<close> both for an absent node and for one labelled \<open>None\<close>.\<close>

definition node_label :: "('gl, 'n, 'e) graph \<Rightarrow> node_id \<Rightarrow> 'n option" where
  "node_label g v = (case dict_get (nodes_map g) v of None \<Rightarrow> None | Some l \<Rightarrow> l)"

definition graph_nodes :: "('gl, 'n, 'e) graph \<Rightarrow> node_id list" where
  "graph_nodes g = ohm_keys (nodes_map g)"

text \<open>The compound branch of \<open>set_node\<close>: a new node hangs below the synthetic root.\<close>

definition seed_forest :: "('gl, 'n, 'e) graph \<Rightarrow> node_id \<Rightarrow> ('gl, 'n, 'e) graph" where
  "seed_forest g v =
     (let g = g\<lparr>parent_map := ohm_put (parent_map g) v GRAPH_NODE,
                children_map := ohm_put (children_map g) v ohm_new\<rparr>;
          root = (case dict_get (children_map g) GRAPH_NODE of None \<Rightarrow> ohm_new | Some m \<Rightarrow> m)
      in g\<lparr>children_map := ohm_put (children_map g) GRAPH_NODE (ohm_put root v True)\<rparr>)"

definition set_node ::
  "('gl, 'n, 'e) graph \<Rightarrow> node_id \<Rightarrow> 'n option \<Rightarrow> ('gl, 'n, 'e) graph" where
  "set_node g v value =
     (if dict_has (nodes_map g) v
      then (case value of
              None \<Rightarrow> g
            | Some _ \<Rightarrow> g\<lparr>nodes_map := ohm_put (nodes_map g) v value\<rparr>)
      else
        (let label = (case value of Some _ \<Rightarrow> value | None \<Rightarrow> default_node_label g v);
             g = g\<lparr>nodes_map := ohm_put (nodes_map g) v label\<rparr>;
             g = (if is_compound g then seed_forest g v else g)
         in g\<lparr>in_map := ohm_put (in_map g) v ohm_new,
              preds_map := ohm_put (preds_map g) v ohm_new,
              out_map := ohm_put (out_map g) v ohm_new,
              sucs_map := ohm_put (sucs_map g) v ohm_new,
              gnode_count := gnode_count g + 1\<rparr>))"

definition set_nodes ::
  "('gl, 'n, 'e) graph \<Rightarrow> node_id list \<Rightarrow> 'n option \<Rightarrow> ('gl, 'n, 'e) graph" where
  "set_nodes g vs value = foldl (\<lambda>g v. set_node g v value) g vs"

section \<open>Adjacency queries\<close>

definition sources :: "('gl, 'n, 'e) graph \<Rightarrow> node_id list" where
  "sources g = filter (\<lambda>v. case dict_get (in_map g) v of None \<Rightarrow> True | Some m \<Rightarrow> ohm_len m = 0)
                 (graph_nodes g)"

definition sinks :: "('gl, 'n, 'e) graph \<Rightarrow> node_id list" where
  "sinks g = filter (\<lambda>v. case dict_get (out_map g) v of None \<Rightarrow> True | Some m \<Rightarrow> ohm_len m = 0)
                 (graph_nodes g)"

definition predecessors :: "('gl, 'n, 'e) graph \<Rightarrow> node_id \<Rightarrow> node_id list option" where
  "predecessors g v = map_option ohm_keys (dict_get (preds_map g) v)"

definition successors :: "('gl, 'n, 'e) graph \<Rightarrow> node_id \<Rightarrow> node_id list option" where
  "successors g v = map_option ohm_keys (dict_get (sucs_map g) v)"

text \<open>Predecessors first, then the successors not seen yet (\<open>dict.fromkeys\<close>, \<open>setdefault\<close>).\<close>

definition setdefault :: "('k, 'v) dict \<Rightarrow> 'k \<Rightarrow> 'v \<Rightarrow> ('k, 'v) dict" where
  "setdefault d k v = (if dict_has d k then d else dict_set k v d)"

definition neighbors :: "('gl, 'n, 'e) graph \<Rightarrow> node_id \<Rightarrow> node_id list option" where
  "neighbors g v =
     (case predecessors g v of
        None \<Rightarrow> None
      | Some ps \<Rightarrow>
          (let seen = foldl (\<lambda>d p. dict_set p () d) [] ps;
               seen = (case successors g v of
                         None \<Rightarrow> seen
                       | Some ss \<Rightarrow> foldl (\<lambda>d s. setdefault d s ()) seen ss)
           in Some (dict_keys seen)))"

definition is_leaf :: "('gl, 'n, 'e) graph \<Rightarrow> node_id \<Rightarrow> bool" where
  "is_leaf g v =
     (case (if is_directed g then successors g v else neighbors g v) of
        None \<Rightarrow> True | Some adjacent \<Rightarrow> adjacent = [])"

definition graph_in_edges ::
  "('gl, 'n, 'e) graph \<Rightarrow> node_id \<Rightarrow> node_id option \<Rightarrow> edge list option" where
  "graph_in_edges g v u =
     (case dict_get (in_map g) v of
        None \<Rightarrow> None
      | Some m \<Rightarrow> (case u of
            None \<Rightarrow> Some (ohm_values m)
          | Some u \<Rightarrow> Some (filter (\<lambda>e. edge_v e = u) (ohm_values m))))"

definition graph_out_edges ::
  "('gl, 'n, 'e) graph \<Rightarrow> node_id \<Rightarrow> node_id option \<Rightarrow> edge list option" where
  "graph_out_edges g v w =
     (case dict_get (out_map g) v of
        None \<Rightarrow> None
      | Some m \<Rightarrow> (case w of
            None \<Rightarrow> Some (ohm_values m)
          | Some w \<Rightarrow> Some (filter (\<lambda>e. edge_w e = w) (ohm_values m))))"

definition graph_node_edges ::
  "('gl, 'n, 'e) graph \<Rightarrow> node_id \<Rightarrow> node_id option \<Rightarrow> edge list option" where
  "graph_node_edges g v w =
     (case graph_in_edges g v w of
        None \<Rightarrow> None
      | Some ins \<Rightarrow> (case graph_out_edges g v w of
            None \<Rightarrow> Some ins
          | Some outs \<Rightarrow> Some (ins @ outs)))"

section \<open>Edge operations\<close>

definition increment_or_init_entry ::
  "(node_id, int) ordered_hashmap \<Rightarrow> node_id \<Rightarrow> (node_id, int) ordered_hashmap" where
  "increment_or_init_entry m k =
     (case dict_get m k of Some n \<Rightarrow> ohm_put m k (n + 1) | None \<Rightarrow> ohm_put m k 1)"

definition decrement_or_remove_entry ::
  "(node_id, int) ordered_hashmap \<Rightarrow> node_id \<Rightarrow> (node_id, int) ordered_hashmap" where
  "decrement_or_remove_entry m k =
     (case dict_get m k of
        None \<Rightarrow> m
      | Some n \<Rightarrow> (if n - 1 \<le> 0 then ohm_del m k else ohm_put m k (n - 1)))"

definition default_edge_label :: "('gl, 'n, 'e) graph \<Rightarrow> edge_id \<Rightarrow> 'e option" where
  "default_edge_label g e =
     (case default_edge_label_fn g of
        EdgeLabelFactory f \<Rightarrow>
          (case f e of Some l \<Rightarrow> Some l | None \<Rightarrow> edge_default_factory g ())
      | EdgeLabelValue (Some l) \<Rightarrow> Some l
      | EdgeLabelValue None \<Rightarrow> edge_default_factory g ())"

definition set_default_edge_label ::
  "('gl, 'n, 'e) graph \<Rightarrow> 'e edge_label_default \<Rightarrow> ('gl, 'n, 'e) graph" where
  "set_default_edge_label g d = g\<lparr>default_edge_label_fn := d\<rparr>"

definition graph_edges :: "('gl, 'n, 'e) graph \<Rightarrow> edge list" where
  "graph_edges g = ohm_values (edge_objs g)"

definition has_edge :: "('gl, 'n, 'e) graph \<Rightarrow> node_id \<Rightarrow> node_id \<Rightarrow> string option \<Rightarrow> bool" where
  "has_edge g v w name = dict_has (edge_labels g) (edge_args_to_id (is_directed g) v w name)"

definition edge_label ::
  "('gl, 'n, 'e) graph \<Rightarrow> node_id \<Rightarrow> node_id \<Rightarrow> string option \<Rightarrow> 'e option" where
  "edge_label g v w name =
     (case dict_get (edge_labels g) (edge_args_to_id (is_directed g) v w name) of
        None \<Rightarrow> None | Some l \<Rightarrow> l)"

definition edge_label_with_obj :: "('gl, 'n, 'e) graph \<Rightarrow> edge \<Rightarrow> 'e option" where
  "edge_label_with_obj g e =
     (case dict_get (edge_labels g) (edge_obj_to_id (is_directed g) e) of
        None \<Rightarrow> None | Some l \<Rightarrow> l)"

text \<open>
  The creation half of \<open>set_edge\<close>. The adjacency tables are indexed by the arguments as they
  were given, the stored edge object carries the canonical orientation.
\<close>

definition link_edge ::
  "('gl, 'n, 'e) graph \<Rightarrow> node_id \<Rightarrow> node_id \<Rightarrow> 'e option \<Rightarrow> string option \<Rightarrow> ('gl, 'n, 'e) graph" where
  "link_edge g v w label name =
     (let e = edge_args_to_id (is_directed g) v w name;
          g = set_node g v None;
          g = set_node g w None;
          g = g\<lparr>edge_labels := ohm_put (edge_labels g) e
                  (case label of Some _ \<Rightarrow> label | None \<Rightarrow> default_edge_label g e)\<rparr>;
          obj = edge_args_to_obj (is_directed g) v w name;
          g = g\<lparr>edge_objs := ohm_put (edge_objs g) e obj\<rparr>;
          g = (case dict_get (preds_map g) w of None \<Rightarrow> g
               | Some m \<Rightarrow> g\<lparr>preds_map := ohm_put (preds_map g) w (increment_or_init_entry m v)\<rparr>);
          g = (case dict_get (sucs_map g) v of None \<Rightarrow> g
               | Some m \<Rightarrow> g\<lparr>sucs_map := ohm_put (sucs_map g) v (increment_or_init_entry m w)\<rparr>);
          ins = (case dict_get (in_map g) w of None \<Rightarrow> ohm_new | Some m \<Rightarrow> m);
          g = g\<lparr>in_map := ohm_put (in_map g) w (ohm_put ins e obj)\<rparr>;
          outs = (case dict_get (out_map g) v of None \<Rightarrow> ohm_new | Some m \<Rightarrow> m);
          g = g\<lparr>out_map := ohm_put (out_map g) v (ohm_put outs e obj)\<rparr>
      in g\<lparr>gedge_count := gedge_count g + 1\<rparr>)"

definition set_edge ::
  "('gl, 'n, 'e) graph \<Rightarrow> node_id \<Rightarrow> node_id \<Rightarrow> 'e option \<Rightarrow> string option \<Rightarrow>
   graph_error + ('gl, 'n, 'e) graph" where
  "set_edge g v w label name =
     (let e = edge_args_to_id (is_directed g) v w name
      in if dict_has (edge_labels g) e
         then Inr (case label of None \<Rightarrow> g
                   | Some _ \<Rightarrow> g\<lparr>edge_labels := ohm_put (edge_labels g) e label\<rparr>)
         else if name \<noteq> None \<and> \<not> is_multigraph g then Inl NamedEdgeOnSimpleGraph
         else Inr (link_edge g v w label name))"

text \<open>The edge-object overloads drop the name of the edge.\<close>

definition set_edge_with_obj ::
  "('gl, 'n, 'e) graph \<Rightarrow> edge \<Rightarrow> 'e option \<Rightarrow> graph_error + ('gl, 'n, 'e) graph" where
  "set_edge_with_obj g e label = set_edge g (edge_v e) (edge_w e) label None"

fun set_path ::
  "('gl, 'n, 'e) graph \<Rightarrow> node_id list \<Rightarrow> 'e option \<Rightarrow> graph_error + ('gl, 'n, 'e) graph" where
  "set_path g (v # w # vs) value =
     (case set_edge g v w value None of
        Inl err \<Rightarrow> Inl err | Inr g' \<Rightarrow> set_path g' (w # vs) value)"
| "set_path g _ value = Inr g"

definition remove_edge ::
  "('gl, 'n, 'e) graph \<Rightarrow> node_id \<Rightarrow> node_id \<Rightarrow> string option \<Rightarrow> ('gl, 'n, 'e) graph" where
  "remove_edge g v w name =
     (let e = edge_args_to_id (is_directed g) v w name
      in case dict_get (edge_objs g) e of
           None \<Rightarrow> g
         | Some obj \<Rightarrow>
             (let v = edge_v obj; w = edge_w obj;
                  g = g\<lparr>edge_labels := ohm_del (edge_labels g) e,
                        edge_objs := ohm_del (edge_objs g) e\<rparr>;
                  g = (case dict_get (preds_map g) w of None \<Rightarrow> g
                       | Some m \<Rightarrow> g\<lparr>preds_map := ohm_put (preds_map g) w (decrement_or_remove_entry m v)\<rparr>);
                  g = (case dict_get (sucs_map g) v of None \<Rightarrow> g
                       | Some m \<Rightarrow> g\<lparr>sucs_map := ohm_put (sucs_map g) v (decrement_or_remove_entry m w)\<rparr>);
                  g = (case dict_get (in_map g) w of None \<Rightarrow> g
                       | Some m \<Rightarrow> g\<lparr>in_map := ohm_put (in_map g) w (ohm_del m e)\<rparr>);
                  g = (case dict_get (out_map g) v of None \<Rightarrow> g
                       | Some m \<Rightarrow> g\<lparr>out_map := ohm_put (out_map g) v (ohm_del m e)\<rparr>)
              in g\<lparr>gedge_count := gedge_count g - 1\<rparr>))"

definition remove_edge_with_obj :: "('gl, 'n, 'e) graph \<Rightarrow> edge \<Rightarrow> ('gl, 'n, 'e) graph" where
  "remove_edge_with_obj g e = remove_edge g (edge_v e) (edge_w e) None"

section \<open>The compound forest\<close>

definition graph_parent :: "('gl, 'n, 'e) graph \<Rightarrow> node_id \<Rightarrow> node_id option" where
  "graph_parent g v =
     (if is_compound g
      then (case dict_get (parent_map g) v of
              Some p \<Rightarrow> (if p \<noteq> GRAPH_NODE then Some p else None)
            | None \<Rightarrow> None)
      else None)"

definition graph_children :: "('gl, 'n, 'e) graph \<Rightarrow> node_id \<Rightarrow> node_id list" where
  "graph_children g v =
     (if is_compound g
      then (case dict_get (children_map g) v of None \<Rightarrow> [] | Some m \<Rightarrow> ohm_keys m)
      else if v = GRAPH_NODE then graph_nodes g
      else [])"

definition remove_from_parents_child_list ::
  "('gl, 'n, 'e) graph \<Rightarrow> node_id \<Rightarrow> ('gl, 'n, 'e) graph" where
  "remove_from_parents_child_list g v =
     (case dict_get (parent_map g) v of
        None \<Rightarrow> g
      | Some p \<Rightarrow>
          (case dict_get (children_map g) p of
             None \<Rightarrow> g
           | Some m \<Rightarrow> g\<lparr>children_map := ohm_put (children_map g) p (ohm_del m v)\<rparr>))"

text \<open>The part of \<open>set_parent\<close> after the cycle check.\<close>

definition reparent :: "('gl, 'n, 'e) graph \<Rightarrow> node_id \<Rightarrow> node_id \<Rightarrow> ('gl, 'n, 'e) graph" where
  "reparent g v new_parent =
     (let g = set_node g v None;
          g = remove_from_parents_child_list g v;
          g = g\<lparr>parent_map := ohm_put (parent_map g) v new_parent\<rparr>;
          siblings = (case dict_get (children_map g) new_parent of None \<Rightarrow> ohm_new | Some m \<Rightarrow> m)
      in g\<lparr>children_map := ohm_put (children_map g) new_parent (ohm_put siblings v True)\<rparr>)"

text \<open>
  The \<open>while True\<close> walk of the cycle check: does the ancestor chain that starts at \<open>a\<close>
  (exclusive) meet \<open>v\<close>? \<^term>\<open>None\<close> is a walk that never ends.
\<close>

partial_function (option) ancestor_meets ::
  "('gl, 'n, 'e) graph \<Rightarrow> node_id \<Rightarrow> node_id \<Rightarrow> bool option" where
  "ancestor_meets g v a =
     (case graph_parent g a of
        None \<Rightarrow> Some False
      | Some p \<Rightarrow> (if p = v then Some True else ancestor_meets g v p))"

declare ancestor_meets.simps [code]

definition set_parent ::
  "('gl, 'n, 'e) graph \<Rightarrow> node_id \<Rightarrow> node_id option \<Rightarrow>
   (graph_error + ('gl, 'n, 'e) graph) option" where
  "set_parent g v parent =
     (if \<not> is_compound g then Some (Inl ParentOnNonCompound)
      else case parent of
             None \<Rightarrow> Some (Inr (reparent g v GRAPH_NODE))
           | Some p \<Rightarrow>
               (case ancestor_meets g v p of
                  None \<Rightarrow> None
                | Some True \<Rightarrow> Some (Inl (ParentCycle p v))
                | Some False \<Rightarrow> Some (Inr (reparent (set_node g p None) v p))))"

section \<open>Removing a node\<close>

definition remove_listed_edges ::
  "('gl, 'n, 'e) graph \<Rightarrow> edge_id list \<Rightarrow> ('gl, 'n, 'e) graph" where
  "remove_listed_edges g ids =
     foldl (\<lambda>g eid. case dict_get (edge_objs g) eid of
                      None \<Rightarrow> g | Some e \<Rightarrow> remove_edge_with_obj g e) g ids"

definition detach_from_forest :: "('gl, 'n, 'e) graph \<Rightarrow> node_id \<Rightarrow> ('gl, 'n, 'e) graph" where
  "detach_from_forest g v =
     (let g = remove_from_parents_child_list g v;
          g = g\<lparr>parent_map := ohm_del (parent_map g) v\<rparr>;
          g = foldl (\<lambda>g c. reparent g c GRAPH_NODE) g (graph_children g v)
      in g\<lparr>children_map := ohm_del (children_map g) v\<rparr>)"

definition remove_node :: "('gl, 'n, 'e) graph \<Rightarrow> node_id \<Rightarrow> ('gl, 'n, 'e) graph" where
  "remove_node g v =
     (if \<not> dict_has (nodes_map g) v then g
      else
        (let g = g\<lparr>nodes_map := ohm_del (nodes_map g) v\<rparr>;
             g = (if is_compound g then detach_from_forest g v else g);
             g = (case dict_get (in_map g) v of None \<Rightarrow> g
                  | Some m \<Rightarrow> (let g = remove_listed_edges g (ohm_keys m)
                               in g\<lparr>in_map := ohm_del (in_map g) v\<rparr>));
             g = g\<lparr>preds_map := ohm_del (preds_map g) v\<rparr>;
             g = (case dict_get (out_map g) v of None \<Rightarrow> g
                  | Some m \<Rightarrow> (let g = remove_listed_edges g (ohm_keys m)
                               in g\<lparr>out_map := ohm_del (out_map g) v\<rparr>));
             g = g\<lparr>sucs_map := ohm_del (sucs_map g) v\<rparr>
         in g\<lparr>gnode_count := gnode_count g - 1\<rparr>))"

section \<open>The graph label and filtered copies\<close>

definition set_graph :: "('gl, 'n, 'e) graph \<Rightarrow> 'gl option \<Rightarrow> ('gl, 'n, 'e) graph" where
  "set_graph g label = g\<lparr>glabel := label\<rparr>"

definition has_edge_with_obj :: "('gl, 'n, 'e) graph \<Rightarrow> edge \<Rightarrow> bool" where
  "has_edge_with_obj g e = dict_has (edge_labels g) (edge_obj_to_id (is_directed g) e)"

text \<open>
  The recursion up the parents of the original graph, with the memo of resolved parents;
  \<^term>\<open>None\<close> is a recursion that does not end.
\<close>

partial_function (option) find_parent ::
  "node_id \<Rightarrow> (node_id, node_id) ordered_hashmap \<Rightarrow> ('gl, 'n, 'e) graph \<Rightarrow> ('gl, 'n, 'e) graph \<Rightarrow>
   ((node_id, node_id) ordered_hashmap \<times> node_id option) option" where
  "find_parent v parents copy graph =
     (case graph_parent graph v of
        None \<Rightarrow> Some (parents, None)
      | Some parent \<Rightarrow>
          (if has_node copy parent then Some (ohm_put parents v parent, Some parent)
           else (case dict_get parents parent of
                   Some memoized \<Rightarrow> Some (parents, Some memoized)
                 | None \<Rightarrow> find_parent parent parents copy graph)))"

fun rethread_parents ::
  "node_id list \<Rightarrow> (node_id, node_id) ordered_hashmap \<Rightarrow> ('gl, 'n, 'e) graph \<Rightarrow>
   ('gl, 'n, 'e) graph \<Rightarrow> (graph_error + ('gl, 'n, 'e) graph) option" where
  "rethread_parents [] parents copy graph = Some (Inr copy)"
| "rethread_parents (v # vs) parents copy graph =
     (case find_parent v parents copy graph of
        None \<Rightarrow> None
      | Some (parents', parent) \<Rightarrow>
          (case set_parent copy v parent of
             None \<Rightarrow> None
           | Some (Inl err) \<Rightarrow> Some (Inl err)
           | Some (Inr copy') \<Rightarrow> rethread_parents vs parents' copy' graph))"

text \<open>
  A surviving edge is copied by its object; as no name is passed on, the copy cannot raise.
\<close>

definition copy_edge :: "('gl, 'n, 'e) graph \<Rightarrow> ('gl, 'n, 'e) graph \<Rightarrow> edge \<Rightarrow> ('gl, 'n, 'e) graph" where
  "copy_edge graph copy e =
     (if has_node copy (edge_v e) \<and> has_node copy (edge_w e) \<and> has_edge_with_obj graph e
      then (case set_edge_with_obj copy e (edge_label_with_obj graph e) of
              Inr copy' \<Rightarrow> copy' | Inl _ \<Rightarrow> copy)
      else copy)"

definition filter_nodes ::
  "(node_id \<Rightarrow> bool) \<Rightarrow> ('gl, 'n, 'e) graph \<Rightarrow> (graph_error + ('gl, 'n, 'e) graph) option" where
  "filter_nodes P g =
     (let copy = new_graph (Some \<lparr>opt_directed = Some (is_directed g),
                               opt_multigraph = Some (is_multigraph g),
                               opt_compound = Some (is_compound g)\<rparr>)
                   (Some (node_default_factory g)) (Some (edge_default_factory g));
          copy = foldl (\<lambda>c (v, value). if P v then set_node c v value else c) copy (ohm_iter (nodes_map g));
          copy = foldl (copy_edge g) copy (graph_edges g)
      in if is_compound g then rethread_parents (graph_nodes copy) ohm_new copy g
         else Some (Inr copy))"

lemma set_edge_with_obj_total: "\<exists>g'. set_edge_with_obj g e l = Inr g'"
  by (simp add: set_edge_with_obj_def set_edge_def Let_def)

end
