(* ===== verification/Graph_Invariant.thy ===== *)
theory Graph_Invariant
  imports Graphlib
begin

text \<open>
  The representation invariant of a directed graph: the edge table is the truth, the four
  adjacency tables and the two counters are redundant views of it. Every operation that
  changes nodes or edges keeps the invariant, and the adjacency queries read the edge table.
\<close>

section \<open>The invariant\<close>

text \<open>Edges of a table that satisfy a property, and how many run between two nodes.\<close>

definition count_edges :: "(edge \<Rightarrow> bool) \<Rightarrow> (edge_id, edge) dict \<Rightarrow> nat" where
  "count_edges P objs = length (filter P (dict_values objs))"

text \<open>An incidence table lists, for each node, exactly the edges whose \<open>sel\<close> end it is.\<close>

definition incidence_ok ::
  "(node_id, (edge_id, edge) dict) dict \<Rightarrow> (edge \<Rightarrow> node_id) \<Rightarrow> (edge_id, edge) dict \<Rightarrow> bool" where
  "incidence_ok tbl sel objs =
     (\<forall>w m. dict_get tbl w = Some m \<longrightarrow>
        dict_ok m \<and> (\<forall>k e. dict_get m k = Some e \<longleftrightarrow> dict_get objs k = Some e \<and> sel e = w))"

text \<open>A multiplicity table counts, for each node, the edges to or from each other node.\<close>

definition multiplicity_ok ::
  "(node_id, (node_id, int) dict) dict \<Rightarrow> (edge \<Rightarrow> node_id) \<Rightarrow> (edge \<Rightarrow> node_id) \<Rightarrow>
   (edge_id, edge) dict \<Rightarrow> bool" where
  "multiplicity_ok tbl sel other objs =
     (\<forall>w m. dict_get tbl w = Some m \<longrightarrow>
        dict_ok m \<and>
        (\<forall>v. dict_get m v =
           (let n = count_edges (\<lambda>e. sel e = w \<and> other e = v) objs
            in if n = 0 then None else Some (int n))))"

definition edges_ok ::
  "bool \<Rightarrow> (node_id, 'n) dict \<Rightarrow> (edge_id, edge) dict \<Rightarrow> bool" where
  "edges_ok multi ns objs =
     (dict_ok objs \<and>
      (\<forall>k e. dict_get objs k = Some e \<longrightarrow>
         edge_obj_to_id True e = k \<and> dict_has ns (edge_v e) \<and> dict_has ns (edge_w e) \<and>
         (\<not> multi \<longrightarrow> edge_name e = None)))"

definition same_keys :: "('k, 'a) dict \<Rightarrow> ('k, 'b) dict \<Rightarrow> bool" where
  "same_keys a b = (\<forall>k. dict_has a k = dict_has b k)"

definition graph_ok :: "('gl, 'n, 'e) graph \<Rightarrow> bool" where
  "graph_ok g =
     (is_directed g \<and>
      dict_ok (nodes_map g) \<and>
      edges_ok (is_multigraph g) (nodes_map g) (edge_objs g) \<and>
      same_keys (edge_labels g) (edge_objs g) \<and>
      same_keys (in_map g) (nodes_map g) \<and> same_keys (out_map g) (nodes_map g) \<and>
      same_keys (preds_map g) (nodes_map g) \<and> same_keys (sucs_map g) (nodes_map g) \<and>
      incidence_ok (in_map g) edge_w (edge_objs g) \<and>
      incidence_ok (out_map g) edge_v (edge_objs g) \<and>
      multiplicity_ok (preds_map g) edge_w edge_v (edge_objs g) \<and>
      multiplicity_ok (sucs_map g) edge_v edge_w (edge_objs g) \<and>
      gnode_count g = int (length (nodes_map g)) \<and>
      gedge_count g = int (length (edge_objs g)))"

lemmas graph_ok_parts = graph_ok_def same_keys_def

section \<open>How the views follow the edge table\<close>

lemma count_edges_Nil [simp]: "count_edges P [] = 0"
  by (simp add: count_edges_def)

lemma count_edges_set_new:
  "\<not> dict_has objs k \<Longrightarrow>
   count_edges P (dict_set k e objs) = count_edges P objs + (if P e then 1 else 0)"
  unfolding count_edges_def by (rule count_values_set_new)

lemma count_edges_pop:
  "dict_ok objs \<Longrightarrow> dict_get objs k = Some e \<Longrightarrow>
   count_edges P objs = count_edges P (dict_pop k objs) + (if P e then 1 else 0)"
  unfolding count_edges_def by (rule count_values_pop)

lemma count_edges_zero:
  "dict_ok objs \<Longrightarrow> count_edges P objs = 0 \<longleftrightarrow> (\<forall>k e. dict_get objs k = Some e \<longrightarrow> \<not> P e)"
  unfolding count_edges_def by (auto simp: filter_empty_conv dict_get_iff)

lemma incidence_new_node:
  assumes "incidence_ok tbl sel objs" and "\<And>k e. dict_get objs k = Some e \<Longrightarrow> sel e \<noteq> v"
  shows "incidence_ok (dict_set v [] tbl) sel objs"
  using assms by (auto simp: incidence_ok_def dict_simps)

lemma incidence_link:
  assumes "incidence_ok tbl sel objs" and "dict_get objs k = None"
    and "dict_get tbl (sel e) = Some m"
  shows "incidence_ok (dict_set (sel e) (dict_set k e m) tbl) sel (dict_set k e objs)"
  using assms unfolding incidence_ok_def
  by (auto simp: dict_simps split: if_splits)

lemma incidence_unlink:
  assumes "incidence_ok tbl sel objs" and "dict_get objs k = Some e"
    and "dict_get tbl (sel e) = Some m"
  shows "incidence_ok (dict_set (sel e) (dict_pop k m) tbl) sel (dict_pop k objs)"
  using assms unfolding incidence_ok_def
  by (auto simp: dict_simps split: if_splits)

lemma incidence_erase_node:
  "incidence_ok tbl sel objs \<Longrightarrow> incidence_ok (dict_pop v tbl) sel objs"
  by (auto simp: incidence_ok_def dict_simps split: if_splits)

lemma multiplicity_new_node:
  assumes "multiplicity_ok tbl sel other objs" and "dict_ok objs"
    and "\<And>k e. dict_get objs k = Some e \<Longrightarrow> sel e \<noteq> v"
  shows "multiplicity_ok (dict_set v [] tbl) sel other objs"
proof -
  have "count_edges (\<lambda>e. sel e = v \<and> other e = u) objs = 0" for u
    using assms(2,3) by (auto simp: count_edges_zero)
  then show ?thesis
    using assms(1) by (auto simp: multiplicity_ok_def dict_simps)
qed

lemma dict_get_increment:
  "dict_get (increment_or_init_entry m k) =
   (dict_get m)(k \<mapsto> (case dict_get m k of None \<Rightarrow> 1 | Some n \<Rightarrow> n + 1))"
  by (auto simp: increment_or_init_entry_def dict_simps split: option.splits)

lemma dict_get_decrement:
  "dict_get (decrement_or_remove_entry m k) =
   (case dict_get m k of None \<Rightarrow> dict_get m
    | Some n \<Rightarrow> (dict_get m)(k := (if n \<le> 1 then None else Some (n - 1))))"
  by (auto simp: decrement_or_remove_entry_def dict_simps fun_eq_iff split: option.splits)

lemma dict_ok_counters [simp]:
  "dict_ok m \<Longrightarrow> dict_ok (increment_or_init_entry m k)"
  "dict_ok m \<Longrightarrow> dict_ok (decrement_or_remove_entry m k)"
  by (auto simp: increment_or_init_entry_def decrement_or_remove_entry_def split: option.splits)

lemma multiplicity_link:
  assumes ok: "multiplicity_ok tbl sel other objs" and new: "dict_get objs k = None"
    and m: "dict_get tbl (sel e) = Some m"
  shows "multiplicity_ok (dict_set (sel e) (increment_or_init_entry m (other e)) tbl)
           sel other (dict_set k e objs)"
proof -
  have "\<not> dict_has objs k" using new by (simp add: dict_has_def)
  then have cnt: "count_edges P (dict_set k e objs) = count_edges P objs + (if P e then 1 else 0)"
    for P by (rule count_edges_set_new)
  show ?thesis
    using ok m unfolding multiplicity_ok_def
    by (auto simp: dict_simps dict_get_increment cnt Let_def)
qed

lemma multiplicity_unlink:
  assumes ok: "multiplicity_ok tbl sel other objs" and objs: "dict_ok objs"
    and e: "dict_get objs k = Some e" and m: "dict_get tbl (sel e) = Some m"
  shows "multiplicity_ok (dict_set (sel e) (decrement_or_remove_entry m (other e)) tbl)
           sel other (dict_pop k objs)"
proof -
  have cnt: "count_edges P objs = count_edges P (dict_pop k objs) + (if P e then 1 else 0)" for P
    using objs e by (rule count_edges_pop)
  show ?thesis
    using ok m unfolding multiplicity_ok_def
    by (auto simp: dict_simps dict_get_decrement cnt Let_def split: option.splits)
qed

lemma multiplicity_erase_node:
  "multiplicity_ok tbl sel other objs \<Longrightarrow> multiplicity_ok (dict_pop v tbl) sel other objs"
  by (auto simp: multiplicity_ok_def dict_simps split: if_splits)

section \<open>Creating nodes and edges\<close>

lemma graph_ok_frame [simp]:
  "graph_ok (g\<lparr>parent_map := p\<rparr>) = graph_ok g"
  "graph_ok (g\<lparr>children_map := c\<rparr>) = graph_ok g"
  "graph_ok (g\<lparr>glabel := l\<rparr>) = graph_ok g"
  "graph_ok (g\<lparr>default_node_label_fn := f\<rparr>) = graph_ok g"
  "graph_ok (g\<lparr>default_edge_label_fn := f'\<rparr>) = graph_ok g"
  by (simp_all add: graph_ok_def)

lemma graph_ok_edge:
  assumes "graph_ok g" and "dict_get (edge_objs g) k = Some e"
  shows "edge_obj_to_id True e = k" and "dict_has (nodes_map g) (edge_v e)"
    and "dict_has (nodes_map g) (edge_w e)" and "\<not> is_multigraph g \<Longrightarrow> edge_name e = None"
  using assms by (auto simp: graph_ok_def edges_ok_def)

lemma same_keys_set [simp]: "same_keys a b \<Longrightarrow> same_keys (dict_set k x a) (dict_set k y b)"
  by (simp add: same_keys_def)

lemma same_keys_set_left: "same_keys a b \<Longrightarrow> dict_has b k \<Longrightarrow> same_keys (dict_set k x a) b"
  by (auto simp: same_keys_def)

lemma same_keys_set_right: "same_keys a b \<Longrightarrow> dict_has b k \<Longrightarrow> same_keys a (dict_set k x b)"
  by (auto simp: same_keys_def)

lemma same_keys_pop [simp]: "same_keys a b \<Longrightarrow> same_keys (dict_pop k a) (dict_pop k b)"
  by (simp add: same_keys_def)

lemma seed_forest_frame [simp]:
  "nodes_map (seed_forest g v) = nodes_map g" "in_map (seed_forest g v) = in_map g"
  "out_map (seed_forest g v) = out_map g" "preds_map (seed_forest g v) = preds_map g"
  "sucs_map (seed_forest g v) = sucs_map g" "edge_objs (seed_forest g v) = edge_objs g"
  "edge_labels (seed_forest g v) = edge_labels g" "gnode_count (seed_forest g v) = gnode_count g"
  "gedge_count (seed_forest g v) = gedge_count g" "is_directed (seed_forest g v) = is_directed g"
  "is_multigraph (seed_forest g v) = is_multigraph g" "is_compound (seed_forest g v) = is_compound g"
  "default_edge_label_fn (seed_forest g v) = default_edge_label_fn g"
  "edge_default_factory (seed_forest g v) = edge_default_factory g"
  by (simp_all add: seed_forest_def Let_def)

lemma set_node_frame [simp]:
  "edge_objs (set_node g v l) = edge_objs g" "edge_labels (set_node g v l) = edge_labels g"
  "gedge_count (set_node g v l) = gedge_count g" "is_directed (set_node g v l) = is_directed g"
  "is_multigraph (set_node g v l) = is_multigraph g" "is_compound (set_node g v l) = is_compound g"
  "default_edge_label_fn (set_node g v l) = default_edge_label_fn g"
  "edge_default_factory (set_node g v l) = edge_default_factory g"
  by (simp_all add: set_node_def Let_def split: option.splits)

lemma set_node_has [simp]: "dict_has (nodes_map (set_node g v l)) u \<longleftrightarrow> u = v \<or> dict_has (nodes_map g) u"
  by (auto simp: set_node_def Let_def split: option.splits)

text \<open>The tables of a node that is created.\<close>

lemma set_node_new:
  assumes "\<not> dict_has (nodes_map g) v"
  shows "nodes_map (set_node g v l) =
           dict_set v (case l of Some _ \<Rightarrow> l | None \<Rightarrow> default_node_label g v) (nodes_map g)"
    and "in_map (set_node g v l) = dict_set v [] (in_map g)"
    and "out_map (set_node g v l) = dict_set v [] (out_map g)"
    and "preds_map (set_node g v l) = dict_set v [] (preds_map g)"
    and "sucs_map (set_node g v l) = dict_set v [] (sucs_map g)"
    and "gnode_count (set_node g v l) = gnode_count g + 1"
  using assms by (simp_all add: set_node_def Let_def ohm_new_def)

lemma graph_ok_set_node_new:
  assumes ok: "graph_ok g" and new: "\<not> dict_has (nodes_map g) v"
  shows "graph_ok (set_node g v l)"
proof -
  have objs: "dict_ok (edge_objs g)"
    using ok by (simp add: graph_ok_def edges_ok_def)
  have ends: "edge_v e \<noteq> v" "edge_w e \<noteq> v" if "dict_get (edge_objs g) k = Some e" for k e
    using graph_ok_edge(2,3) [OF ok that] new by auto
  have edges: "edges_ok (is_multigraph g) (nodes_map (set_node g v l)) (edge_objs g)"
    using ok by (auto simp: graph_ok_def edges_ok_def)
  show ?thesis
    using ok edges new
    by (simp add: graph_ok_def set_node_new [OF new] length_dict_set
          incidence_new_node ends multiplicity_new_node objs)
qed

lemma graph_ok_set_node [inv_intros]: "graph_ok g \<Longrightarrow> graph_ok (set_node g v l)"
proof (cases "dict_has (nodes_map g) v")
  case True
  assume ok: "graph_ok g"
  have "edges_ok (is_multigraph g) (dict_set v l (nodes_map g)) (edge_objs g)"
    using ok by (auto simp: graph_ok_def edges_ok_def)
  with ok True show ?thesis
    by (auto simp: set_node_def graph_ok_def same_keys_set_right length_dict_set split: option.splits)
qed (rule graph_ok_set_node_new)

lemma graph_ok_lookup:
  assumes "graph_ok g" and "dict_has (nodes_map g) v"
  obtains mi mo mp ms where "dict_get (in_map g) v = Some mi" "dict_get (out_map g) v = Some mo"
    "dict_get (preds_map g) v = Some mp" "dict_get (sucs_map g) v = Some ms"
proof -
  have "dict_has (in_map g) v" "dict_has (out_map g) v" "dict_has (preds_map g) v"
    "dict_has (sucs_map g) v"
    using assms by (simp_all add: graph_ok_def same_keys_def)
  then show ?thesis using that by (auto simp: dict_has_def)
qed

lemma edge_args_to_obj_directed [simp]:
  "edge_args_to_obj True v w n = \<lparr>edge_v = v, edge_w = w, edge_name = n\<rparr>"
  by (simp add: edge_args_to_obj_def)

lemma edge_obj_to_id_obj [simp]:
  "edge_obj_to_id True \<lparr>edge_v = v, edge_w = w, edge_name = n\<rparr> = edge_args_to_id True v w n"
  by (simp add: edge_obj_to_id_def)

lemma graph_ok_link_edge:
  assumes ok0: "graph_ok g0" and new0: "\<not> dict_has (edge_objs g0) (edge_args_to_id True v w n)"
    and simple: "\<not> is_multigraph g0 \<Longrightarrow> n = None"
  shows "graph_ok (link_edge g0 v w l n)"
proof -
  define g where "g = set_node (set_node g0 v None) w None"
  define k where "k = edge_args_to_id True v w n"
  define obj where "obj = \<lparr>edge_v = v, edge_w = w, edge_name = n\<rparr>"
  have ok: "graph_ok g" unfolding g_def by (intro inv_intros ok0)
  have dir: "is_directed g0" "is_directed g" using ok0 ok by (simp_all add: graph_ok_def)
  have has: "dict_has (nodes_map g) v" "dict_has (nodes_map g) w" by (auto simp: g_def)
  have new: "dict_get (edge_objs g) k = None" using new0 by (simp add: g_def k_def dict_has_def)
  have multi: "is_multigraph g0 = is_multigraph g" by (simp add: g_def)
  from graph_ok_lookup [OF ok has(1)] obtain mo ms where
    v: "dict_get (out_map g) v = Some mo" "dict_get (sucs_map g) v = Some ms" by metis
  from graph_ok_lookup [OF ok has(2)] obtain mi mp where
    w: "dict_get (in_map g) w = Some mi" "dict_get (preds_map g) w = Some mp" by metis
  have sel: "edge_v obj = v" "edge_w obj = w" "edge_name obj = n" "edge_obj_to_id True obj = k"
    by (simp_all add: obj_def k_def)
  have edges: "edges_ok (is_multigraph g) (nodes_map g) (dict_set k obj (edge_objs g))"
    using ok has simple by (auto simp: graph_ok_def edges_ok_def dict_simps sel multi)
  have views: "incidence_ok (dict_set w (dict_set k obj mi) (in_map g)) edge_w (dict_set k obj (edge_objs g))"
    "incidence_ok (dict_set v (dict_set k obj mo) (out_map g)) edge_v (dict_set k obj (edge_objs g))"
    "multiplicity_ok (dict_set w (increment_or_init_entry mp v) (preds_map g)) edge_w edge_v
       (dict_set k obj (edge_objs g))"
    "multiplicity_ok (dict_set v (increment_or_init_entry ms w) (sucs_map g)) edge_v edge_w
       (dict_set k obj (edge_objs g))"
    using ok v w new
      incidence_link [of "in_map g" edge_w "edge_objs g" k obj mi]
      incidence_link [of "out_map g" edge_v "edge_objs g" k obj mo]
      multiplicity_link [of "preds_map g" edge_w edge_v "edge_objs g" k obj mp]
      multiplicity_link [of "sucs_map g" edge_v edge_w "edge_objs g" k obj ms]
    by (simp_all add: graph_ok_def sel)
  show ?thesis
    using ok edges views has v w new dir
    unfolding link_edge_def Let_def dir if_True
    by (simp flip: g_def k_def obj_def
          add: graph_ok_def same_keys_set_left length_dict_set dict_has_def)
qed

lemma graph_ok_set_edge [inv_intros]:
  assumes "graph_ok g" and "set_edge g v w l n = Inr g'"
  shows "graph_ok g'"
proof -
  have dir: "is_directed g" and keys: "same_keys (edge_labels g) (edge_objs g)"
    using assms(1) by (simp_all add: graph_ok_def)
  show ?thesis
  proof (cases "dict_has (edge_labels g) (edge_args_to_id True v w n)")
    case True
    with assms dir keys show ?thesis
      by (auto simp: set_edge_def graph_ok_def same_keys_def split: option.splits)
  next
    case False
    with keys have "\<not> dict_has (edge_objs g) (edge_args_to_id True v w n)"
      by (simp add: same_keys_def)
    with assms dir False show ?thesis
      by (auto simp: set_edge_def intro!: graph_ok_link_edge split: if_splits)
  qed
qed

lemma graph_ok_set_path: "graph_ok g \<Longrightarrow> set_path g vs l = Inr g' \<Longrightarrow> graph_ok g'"
  by (induction g vs l rule: set_path.induct) (auto split: sum.splits dest: graph_ok_set_edge)

section \<open>Removing edges\<close>

text \<open>
  The part of the invariant that does not mention the node table: it also holds in the middle
  of \<open>remove_node\<close>, where the node is already gone and its edges are not.
\<close>

definition graph_core :: "('gl, 'n, 'e) graph \<Rightarrow> bool" where
  "graph_core g =
     (is_directed g \<and>
      dict_ok (edge_objs g) \<and>
      (\<forall>k e. dict_get (edge_objs g) k = Some e \<longrightarrow>
         edge_obj_to_id True e = k \<and> (\<not> is_multigraph g \<longrightarrow> edge_name e = None)) \<and>
      same_keys (edge_labels g) (edge_objs g) \<and>
      incidence_ok (in_map g) edge_w (edge_objs g) \<and>
      incidence_ok (out_map g) edge_v (edge_objs g) \<and>
      multiplicity_ok (preds_map g) edge_w edge_v (edge_objs g) \<and>
      multiplicity_ok (sucs_map g) edge_v edge_w (edge_objs g) \<and>
      gedge_count g = int (length (edge_objs g)))"

definition node_tables_ok :: "('gl, 'n, 'e) graph \<Rightarrow> bool" where
  "node_tables_ok g =
     (dict_ok (nodes_map g) \<and> gnode_count g = int (length (nodes_map g)) \<and>
      same_keys (in_map g) (nodes_map g) \<and> same_keys (out_map g) (nodes_map g) \<and>
      same_keys (preds_map g) (nodes_map g) \<and> same_keys (sucs_map g) (nodes_map g))"

definition ends_ok :: "(node_id, 'a) dict \<Rightarrow> (edge_id, edge) dict \<Rightarrow> bool" where
  "ends_ok ns objs =
     (\<forall>k e. dict_get objs k = Some e \<longrightarrow> dict_has ns (edge_v e) \<and> dict_has ns (edge_w e))"

lemma graph_ok_split:
  "graph_ok g \<longleftrightarrow> graph_core g \<and> node_tables_ok g \<and> ends_ok (nodes_map g) (edge_objs g)"
  by (auto simp: graph_ok_def graph_core_def node_tables_ok_def edges_ok_def ends_ok_def)

lemma incidence_unlink_absent:
  assumes "incidence_ok tbl sel objs" and "dict_get objs k = Some e" and "dict_get tbl (sel e) = None"
  shows "incidence_ok tbl sel (dict_pop k objs)"
  using assms unfolding incidence_ok_def by (auto simp: dict_simps)

lemma multiplicity_unlink_absent:
  assumes ok: "multiplicity_ok tbl sel other objs" and objs: "dict_ok objs"
    and e: "dict_get objs k = Some e" and absent: "dict_get tbl (sel e) = None"
  shows "multiplicity_ok tbl sel other (dict_pop k objs)"
proof -
  have "count_edges (\<lambda>e. sel e = w \<and> other e = v) objs =
        count_edges (\<lambda>e. sel e = w \<and> other e = v) (dict_pop k objs)"
    if "dict_get tbl w = Some m" for w v m
    using count_edges_pop [OF objs e] that absent by auto
  then show ?thesis
    using ok unfolding multiplicity_ok_def by simp
qed

text \<open>The fields after the removal of a stored edge.\<close>

definition unlink_in :: "(node_id, (edge_id, edge) dict) dict \<Rightarrow> node_id \<Rightarrow> edge_id \<Rightarrow>
    (node_id, (edge_id, edge) dict) dict" where
  "unlink_in tbl w k = (case dict_get tbl w of None \<Rightarrow> tbl | Some m \<Rightarrow> dict_set w (dict_pop k m) tbl)"

definition uncount_in :: "(node_id, (node_id, int) dict) dict \<Rightarrow> node_id \<Rightarrow> node_id \<Rightarrow>
    (node_id, (node_id, int) dict) dict" where
  "uncount_in tbl w v =
     (case dict_get tbl w of None \<Rightarrow> tbl | Some m \<Rightarrow> dict_set w (decrement_or_remove_entry m v) tbl)"

lemma remove_edge_absent:
  "dict_get (edge_objs g) (edge_args_to_id (is_directed g) v w n) = None \<Longrightarrow> remove_edge g v w n = g"
  by (simp add: remove_edge_def)

lemma remove_edge_present:
  assumes "dict_get (edge_objs g) (edge_args_to_id (is_directed g) v w n) = Some e"
    and "k = edge_args_to_id (is_directed g) v w n"
  shows "remove_edge g v w n =
    g\<lparr>edge_labels := dict_pop k (edge_labels g), edge_objs := dict_pop k (edge_objs g),
      preds_map := uncount_in (preds_map g) (edge_w e) (edge_v e),
      sucs_map := uncount_in (sucs_map g) (edge_v e) (edge_w e),
      in_map := unlink_in (in_map g) (edge_w e) k,
      out_map := unlink_in (out_map g) (edge_v e) k,
      gedge_count := gedge_count g - 1\<rparr>"
  using assms
  by (cases "dict_get (preds_map g) (edge_w e)"; cases "dict_get (sucs_map g) (edge_v e)";
      cases "dict_get (in_map g) (edge_w e)"; cases "dict_get (out_map g) (edge_v e)")
     (simp_all add: remove_edge_def Let_def uncount_in_def unlink_in_def)

lemma same_keys_unlink [simp]:
  "same_keys (unlink_in tbl w k) b = same_keys tbl b"
  "same_keys (uncount_in tbl' w v) b = same_keys tbl' b"
  by (auto simp: unlink_in_def uncount_in_def same_keys_def dict_has_def dict_simps
      split: option.splits)

lemma incidence_unlink_in:
  "incidence_ok tbl sel objs \<Longrightarrow> dict_get objs k = Some e \<Longrightarrow>
   incidence_ok (unlink_in tbl (sel e) k) sel (dict_pop k objs)"
  by (auto simp: unlink_in_def incidence_unlink incidence_unlink_absent split: option.splits)

lemma multiplicity_uncount_in:
  "multiplicity_ok tbl sel other objs \<Longrightarrow> dict_ok objs \<Longrightarrow> dict_get objs k = Some e \<Longrightarrow>
   multiplicity_ok (uncount_in tbl (sel e) (other e)) sel other (dict_pop k objs)"
  by (auto simp: uncount_in_def multiplicity_unlink multiplicity_unlink_absent split: option.splits)

lemma remove_edge_frame [simp]:
  "nodes_map (remove_edge g v w n) = nodes_map g" "gnode_count (remove_edge g v w n) = gnode_count g"
  "is_directed (remove_edge g v w n) = is_directed g"
  "is_multigraph (remove_edge g v w n) = is_multigraph g"
  "is_compound (remove_edge g v w n) = is_compound g"
  "parent_map (remove_edge g v w n) = parent_map g"
  "children_map (remove_edge g v w n) = children_map g"
  "glabel (remove_edge g v w n) = glabel g"
  by (cases "dict_get (edge_objs g) (edge_args_to_id (is_directed g) v w n)";
      simp add: remove_edge_absent remove_edge_present)+

lemma node_tables_ok_remove_edge [simp]:
  "node_tables_ok (remove_edge g v w n) = node_tables_ok g"
  by (cases "dict_get (edge_objs g) (edge_args_to_id (is_directed g) v w n)")
     (simp_all add: remove_edge_absent remove_edge_present node_tables_ok_def)

lemma same_keys_remove_edge [simp]:
  "same_keys (in_map (remove_edge g v w n)) b = same_keys (in_map g) b"
  "same_keys (out_map (remove_edge g v w n)) b = same_keys (out_map g) b"
  "same_keys (preds_map (remove_edge g v w n)) b = same_keys (preds_map g) b"
  "same_keys (sucs_map (remove_edge g v w n)) b = same_keys (sucs_map g) b"
  by (cases "dict_get (edge_objs g) (edge_args_to_id (is_directed g) v w n)";
      simp add: remove_edge_absent remove_edge_present)+

lemma graph_core_remove_edge:
  assumes core: "graph_core g"
  shows "graph_core (remove_edge g v w n)"
proof (cases "dict_get (edge_objs g) (edge_args_to_id (is_directed g) v w n)")
  case None
  then show ?thesis using core by (simp add: remove_edge_absent)
next
  case (Some e)
  define k where "k = edge_args_to_id (is_directed g) v w n"
  have k: "dict_get (edge_objs g) k = Some e" using Some by (simp add: k_def)
  then have "Suc (length (dict_pop k (edge_objs g))) = length (edge_objs g)"
    using core by (intro length_dict_pop) (auto simp: graph_core_def dict_has_def)
  with core k show ?thesis
    by (auto simp: remove_edge_present [OF Some k_def] graph_core_def dict_simps
        incidence_unlink_in multiplicity_uncount_in)
qed

lemma edge_objs_remove_edge:
  "dict_get (edge_objs (remove_edge g v w n)) =
   (dict_get (edge_objs g))(edge_args_to_id (is_directed g) v w n := None)"
  by (cases "dict_get (edge_objs g) (edge_args_to_id (is_directed g) v w n)")
     (auto simp: remove_edge_absent remove_edge_present dict_simps fun_eq_iff)

lemma graph_ok_remove_edge [inv_intros]: "graph_ok g \<Longrightarrow> graph_ok (remove_edge g v w n)"
  by (auto simp: graph_ok_split graph_core_remove_edge ends_ok_def edge_objs_remove_edge
      split: if_splits)

section \<open>Removing nodes\<close>

lemma remove_listed_edges_simps [simp]:
  "remove_listed_edges g [] = g"
  "remove_listed_edges g (k # ks) =
   remove_listed_edges (case dict_get (edge_objs g) k of
      None \<Rightarrow> g | Some e \<Rightarrow> remove_edge_with_obj g e) ks"
  by (simp_all add: remove_listed_edges_def)

text \<open>Removing the object of an edge without a name removes the edge stored there.\<close>

lemma remove_stored_edge:
  assumes "graph_core g" and "edge_name e = None" and "dict_get (edge_objs g) k = Some e"
  shows "dict_get (edge_objs (remove_edge_with_obj g e)) = (dict_get (edge_objs g))(k := None)"
    and "dict_get (edge_labels (remove_edge_with_obj g e)) = (dict_get (edge_labels g))(k := None)"
proof -
  have "edge_obj_to_id True e = k" "is_directed g"
    using assms by (auto simp: graph_core_def)
  then have "edge_args_to_id (is_directed g) (edge_v e) (edge_w e) None = k"
    using assms(2) by (simp add: edge_obj_to_id_def)
  then show "dict_get (edge_objs (remove_edge_with_obj g e)) = (dict_get (edge_objs g))(k := None)"
    "dict_get (edge_labels (remove_edge_with_obj g e)) = (dict_get (edge_labels g))(k := None)"
    using assms(3)
    by (simp_all add: remove_edge_with_obj_def edge_objs_remove_edge remove_edge_present fun_eq_iff dict_simps)
qed

lemma remove_listed_edges_core:
  "graph_core g \<Longrightarrow> \<forall>k\<in>set ks. \<forall>e. dict_get (edge_objs g) k = Some e \<longrightarrow> edge_name e = None \<Longrightarrow>
   graph_core (remove_listed_edges g ks) \<and>
   dict_get (edge_objs (remove_listed_edges g ks)) =
     (\<lambda>k. if k \<in> set ks then None else dict_get (edge_objs g) k) \<and>
   (\<forall>k. k \<notin> set ks \<longrightarrow> dict_get (edge_labels (remove_listed_edges g ks)) k = dict_get (edge_labels g) k)"
proof (induction ks arbitrary: g)
  case Nil
  then show ?case by simp
next
  case (Cons k ks)
  show ?case
  proof (cases "dict_get (edge_objs g) k")
    case None
    then show ?thesis using Cons.IH [of g] Cons.prems by (auto simp: fun_eq_iff)
  next
    case (Some e)
    have name: "edge_name e = None" using Cons.prems(2) Some by simp
    note gone = remove_stored_edge [OF Cons.prems(1) name Some]
    have "graph_core (remove_edge_with_obj g e)"
      using Cons.prems(1) by (simp add: remove_edge_with_obj_def graph_core_remove_edge)
    moreover have "\<forall>k'\<in>set ks. \<forall>d. dict_get (edge_objs (remove_edge_with_obj g e)) k' = Some d \<longrightarrow> edge_name d = None"
      using Cons.prems(2) by (simp add: gone(1))
    ultimately show ?thesis
      using Cons.IH [of "remove_edge_with_obj g e"] Some by (auto simp: fun_eq_iff gone)
  qed
qed

lemma remove_listed_edges_frame [simp]:
  "nodes_map (remove_listed_edges g ks) = nodes_map g \<and>
   gnode_count (remove_listed_edges g ks) = gnode_count g \<and>
   is_multigraph (remove_listed_edges g ks) = is_multigraph g \<and>
   is_compound (remove_listed_edges g ks) = is_compound g \<and> glabel (remove_listed_edges g ks) = glabel g \<and>
   parent_map (remove_listed_edges g ks) = parent_map g \<and>
   children_map (remove_listed_edges g ks) = children_map g \<and>
   same_keys (in_map (remove_listed_edges g ks)) b = same_keys (in_map g) b \<and>
   same_keys (out_map (remove_listed_edges g ks)) b = same_keys (out_map g) b \<and>
   same_keys (preds_map (remove_listed_edges g ks)) b = same_keys (preds_map g) b \<and>
   same_keys (sucs_map (remove_listed_edges g ks)) b = same_keys (sucs_map g) b"
  by (induction ks arbitrary: g) (auto simp: remove_edge_with_obj_def split: option.splits)

text \<open>Moving known nodes within the compound forest leaves every other table alone.\<close>

lemma set_node_known: "dict_has (nodes_map g) v \<Longrightarrow> set_node g v None = g"
  by (simp add: set_node_def)

lemma remove_from_list_frame:
  "\<exists>c. remove_from_parents_child_list g v = g\<lparr>children_map := c\<rparr>"
  by (auto simp: remove_from_parents_child_list_def split: option.splits
      intro: exI [of _ "children_map g"])

lemma reparent_frame:
  assumes "dict_has (nodes_map g) v"
  shows "\<exists>p c. reparent g v q = g\<lparr>parent_map := p, children_map := c\<rparr>"
proof -
  obtain c where "remove_from_parents_child_list g v = g\<lparr>children_map := c\<rparr>"
    using remove_from_list_frame by blast
  then show ?thesis
    by (auto simp: reparent_def Let_def set_node_known [OF assms] intro!: exI)
qed

lemma reparent_all_frame:
  "\<forall>c\<in>set cs. dict_has (nodes_map g) c \<Longrightarrow>
   \<exists>p c. foldl (\<lambda>g c. reparent g c q) g cs = g\<lparr>parent_map := p, children_map := c\<rparr>"
proof (induction cs arbitrary: g)
  case Nil
  have "g = g\<lparr>parent_map := parent_map g, children_map := children_map g\<rparr>" by simp
  then show ?case by (metis foldl_Nil)
next
  case (Cons x xs)
  obtain p c where step: "reparent g x q = g\<lparr>parent_map := p, children_map := c\<rparr>"
    using reparent_frame [of g x q] Cons.prems by auto
  obtain p' c' where "foldl (\<lambda>g c. reparent g c q) (reparent g x q) xs =
      (reparent g x q)\<lparr>parent_map := p', children_map := c'\<rparr>"
    using Cons.IH [of "reparent g x q"] Cons.prems by (auto simp: step)
  then show ?case by (auto simp: step)
qed

lemma detach_frame:
  assumes "\<forall>c\<in>set (graph_children (remove_from_parents_child_list g v) v). dict_has (nodes_map g) c"
  shows "\<exists>p c. detach_from_forest g v = g\<lparr>parent_map := p, children_map := c\<rparr>"
proof -
  obtain c0 where c0: "remove_from_parents_child_list g v = g\<lparr>children_map := c0\<rparr>"
    using remove_from_list_frame by blast
  define g1 where "g1 = g\<lparr>children_map := c0, parent_map := dict_pop v (parent_map g)\<rparr>"
  have "graph_children g1 v = graph_children (remove_from_parents_child_list g v) v"
    by (simp add: g1_def c0 graph_children_def graph_nodes_def)
  with assms obtain p c where
    "foldl (\<lambda>g c. reparent g c GRAPH_NODE) g1 (graph_children g1 v) =
     g1\<lparr>parent_map := p, children_map := c\<rparr>"
    using reparent_all_frame [of "graph_children g1 v" g1 GRAPH_NODE] by (auto simp: g1_def)
  then show ?thesis
    unfolding detach_from_forest_def c0 Let_def by (auto simp: g1_def)
qed

text \<open>
  Removing a node of a graph without named edges. The hypothesis on the children is what the
  compound forest guarantees: the children of a node are other nodes of the graph.
\<close>

definition children_known :: "('gl, 'n, 'e) graph \<Rightarrow> node_id \<Rightarrow> bool" where
  "children_known g v =
     (is_compound g \<longrightarrow>
      (\<forall>c\<in>set (graph_children (remove_from_parents_child_list g v) v).
         c \<noteq> v \<and> dict_has (nodes_map g) c))"

lemma graph_core_frame [simp]:
  "graph_core (g\<lparr>nodes_map := n\<rparr>) = graph_core g"
  "graph_core (g\<lparr>parent_map := p\<rparr>) = graph_core g"
  "graph_core (g\<lparr>children_map := c\<rparr>) = graph_core g"
  "graph_core (g\<lparr>gnode_count := i\<rparr>) = graph_core g"
  by (simp_all add: graph_core_def)

lemma graph_core_erase_node:
  assumes "graph_core g"
  shows "graph_core (g\<lparr>in_map := dict_pop v (in_map g)\<rparr>)"
    and "graph_core (g\<lparr>out_map := dict_pop v (out_map g)\<rparr>)"
    and "graph_core (g\<lparr>preds_map := dict_pop v (preds_map g)\<rparr>)"
    and "graph_core (g\<lparr>sucs_map := dict_pop v (sucs_map g)\<rparr>)"
  using assms by (simp_all add: graph_core_def incidence_erase_node multiplicity_erase_node)

text \<open>The edges listed in an incidence table of a node are its incident edges.\<close>

lemma incidence_keys:
  assumes "incidence_ok tbl sel objs" and "dict_get tbl v = Some m"
  shows "k \<in> set (ohm_keys m) \<longleftrightarrow> (\<exists>e. dict_get objs k = Some e \<and> sel e = v)"
proof -
  have "k \<in> set (ohm_keys m) \<longleftrightarrow> (\<exists>e. dict_get m k = Some e)"
    using ohm.keys_lookup [of k m] by auto
  with assms show ?thesis by (simp add: incidence_ok_def)
qed

text \<open>One cascade of \<open>remove_node\<close>: the edges of a table entry go, then the entry.\<close>

lemma cascade:
  assumes core: "graph_core g" and plain: "\<forall>k e. dict_get (edge_objs g) k = Some e \<longrightarrow> sel e = v \<longrightarrow> edge_name e = None"
    and inc: "incidence_ok tbl sel (edge_objs g)" and m: "dict_get tbl v = Some m"
    and g': "g' = remove_listed_edges g (ohm_keys m)"
  shows "graph_core g'"
    and "dict_get (edge_objs g') k =
         (case dict_get (edge_objs g) k of None \<Rightarrow> None | Some e \<Rightarrow> if sel e = v then None else Some e)"
    and "dict_get (edge_objs g') k = Some e \<Longrightarrow> dict_get (edge_labels g') k = dict_get (edge_labels g) k"
proof -
  have "\<forall>k\<in>set (ohm_keys m). \<forall>e. dict_get (edge_objs g) k = Some e \<longrightarrow> edge_name e = None"
    using plain incidence_keys [OF inc m] by auto
  note gone = remove_listed_edges_core [OF core this]
  show "graph_core g'" using gone by (simp add: g')
  show "dict_get (edge_objs g') k =
      (case dict_get (edge_objs g) k of None \<Rightarrow> None | Some e \<Rightarrow> if sel e = v then None else Some e)" for k
    using gone incidence_keys [OF inc m, of k] by (auto simp: g' split: option.splits)
  show "dict_get (edge_labels g') k = dict_get (edge_labels g) k" if "dict_get (edge_objs g') k = Some e"
    using gone that by (simp add: g' split: if_splits)
qed

lemma remove_node_unfold:
  assumes "dict_has (nodes_map g) v"
    and "g2 = (let g1 = g\<lparr>nodes_map := dict_pop v (nodes_map g)\<rparr>
               in if is_compound g then detach_from_forest g1 v else g1)"
    and "dict_get (in_map g2) v = Some mi"
    and "g3 = remove_listed_edges g2 (ohm_keys mi)"
    and "g5 = g3\<lparr>in_map := dict_pop v (in_map g3), preds_map := dict_pop v (preds_map g3)\<rparr>"
    and "dict_get (out_map g5) v = Some mo"
    and "g6 = remove_listed_edges g5 (ohm_keys mo)"
  shows "remove_node g v = g6\<lparr>out_map := dict_pop v (out_map g6),
           sucs_map := dict_pop v (sucs_map g6), gnode_count := gnode_count g6 - 1\<rparr>"
  using assms by (simp add: remove_node_def Let_def)

text \<open>No edge at the node has a name; in a simple graph this holds of every node.\<close>

definition plain_at :: "('gl, 'n, 'e) graph \<Rightarrow> node_id \<Rightarrow> bool" where
  "plain_at g v =
     (\<forall>k e. dict_get (edge_objs g) k = Some e \<longrightarrow> edge_v e = v \<or> edge_w e = v \<longrightarrow> edge_name e = None)"

lemma plain_at_simple: "graph_ok g \<Longrightarrow> \<not> is_multigraph g \<Longrightarrow> plain_at g v"
  by (auto simp: plain_at_def graph_ok_def edges_ok_def)

lemma remove_node_correct:
  assumes ok: "graph_ok g" and plain: "plain_at g v" and known: "children_known g v"
    and v: "dict_has (nodes_map g) v"
  shows "graph_ok (remove_node g v) \<and>
         nodes_map (remove_node g v) = dict_pop v (nodes_map g) \<and>
         dict_get (edge_objs (remove_node g v)) k =
           (case dict_get (edge_objs g) k of None \<Rightarrow> None
            | Some e \<Rightarrow> if edge_v e = v \<or> edge_w e = v then None else Some e) \<and>
         (\<forall>e. dict_get (edge_objs (remove_node g v)) k = Some e \<longrightarrow>
            dict_get (edge_labels (remove_node g v)) k = dict_get (edge_labels g) k) \<and>
         is_multigraph (remove_node g v) = is_multigraph g \<and> glabel (remove_node g v) = glabel g"
proof -
  define g1 where "g1 = g\<lparr>nodes_map := dict_pop v (nodes_map g)\<rparr>"
  define g2 where "g2 = (if is_compound g then detach_from_forest g1 v else g1)"
  have g2: "g2 = (let g1 = g\<lparr>nodes_map := dict_pop v (nodes_map g)\<rparr>
               in if is_compound g then detach_from_forest g1 v else g1)"
    by (simp add: g2_def g1_def)
  have "\<exists>p c. g2 = g1\<lparr>parent_map := p, children_map := c\<rparr>"
  proof (cases "is_compound g")
    case True
    have "remove_from_parents_child_list g1 v =
          (remove_from_parents_child_list g v)\<lparr>nodes_map := dict_pop v (nodes_map g)\<rparr>"
      by (auto simp: remove_from_parents_child_list_def g1_def split: option.splits)
    then have "\<forall>c\<in>set (graph_children (remove_from_parents_child_list g1 v) v).
        dict_has (nodes_map g1) c"
      using known True remove_from_list_frame [of g v]
      by (auto simp: children_known_def graph_children_def g1_def)
    then show ?thesis using detach_frame [of g1 v] True by (simp add: g2_def)
  next
    case False
    then have "g2 = g1\<lparr>parent_map := parent_map g1, children_map := children_map g1\<rparr>"
      by (simp add: g2_def)
    then show ?thesis by blast
  qed
  then obtain p c where g2g: "g2 = g\<lparr>nodes_map := dict_pop v (nodes_map g),
      parent_map := p, children_map := c\<rparr>"
    by (auto simp: g1_def)
  have core: "graph_core g" and tables: "node_tables_ok g" and ends: "ends_ok (nodes_map g) (edge_objs g)"
    using ok by (simp_all add: graph_ok_split)
  obtain mi where mi: "dict_get (in_map g2) v = Some mi"
    using graph_ok_lookup [OF ok v] by (auto simp: g2g)
  define g3 where "g3 = remove_listed_edges g2 (ohm_keys mi)"
  have core2: "graph_core g2" and inc2: "incidence_ok (in_map g2) edge_w (edge_objs g2)"
    using core by (simp_all add: g2g graph_core_def)
  have plain2: "\<forall>k e. dict_get (edge_objs g2) k = Some e \<longrightarrow> edge_w e = v \<longrightarrow> edge_name e = None"
    using plain by (auto simp: plain_at_def g2g)
  note step3 = cascade [OF core2 plain2 inc2 mi g3_def]
  define g5 where "g5 = g3\<lparr>in_map := dict_pop v (in_map g3), preds_map := dict_pop v (preds_map g3)\<rparr>"
  have core5: "graph_core g5"
    using graph_core_erase_node(3) [OF graph_core_erase_node(1) [OF step3(1)], of v v]
    by (simp add: g5_def)
  have "same_keys (out_map g3) (nodes_map g)"
    using tables by (simp add: g3_def g2g node_tables_ok_def)
  with v obtain mo where mo: "dict_get (out_map g5) v = Some mo"
    by (auto simp: g5_def same_keys_def dict_has_def)
  define g6 where "g6 = remove_listed_edges g5 (ohm_keys mo)"
  have inc5: "incidence_ok (out_map g5) edge_v (edge_objs g5)"
    using core5 by (simp_all add: graph_core_def)
  have plain5: "\<forall>k e. dict_get (edge_objs g5) k = Some e \<longrightarrow> edge_v e = v \<longrightarrow> edge_name e = None"
    using plain step3(2) by (auto simp: plain_at_def g5_def g2g split: option.splits if_splits)
  note step6 = cascade [OF core5 plain5 inc5 mo g6_def]
  note result = remove_node_unfold [OF v g2 mi g3_def g5_def mo g6_def]
  have objs: "dict_get (edge_objs g6) k =
      (case dict_get (edge_objs g) k of None \<Rightarrow> None
       | Some e \<Rightarrow> if edge_v e = v \<or> edge_w e = v then None else Some e)" for k
    using step3(2) [of k] step6(2) [of k] by (auto simp: g5_def g2g split: option.splits)
  have labels: "dict_get (edge_labels g6) k = dict_get (edge_labels g) k" if "dict_get (edge_objs g6) k = Some e" for e
  proof -
    have "dict_get (edge_objs g5) k = Some e" using that step6(2) [of k] by (auto split: option.splits if_splits)
    then have "dict_get (edge_labels g5) k = dict_get (edge_labels g) k"
      using step3(3) [of k e] by (simp add: g5_def g2g)
    with step6(3) [OF that] show ?thesis by simp
  qed
  have frames: "is_multigraph g6 = is_multigraph g" "glabel g6 = glabel g"
    by (simp_all add: g6_def g5_def g3_def g2g)
  have core_r: "graph_core (remove_node g v)"
    using graph_core_erase_node(4) [OF graph_core_erase_node(2) [OF step6(1)], of v v]
    by (simp add: result)
  have nodes_r: "nodes_map (remove_node g v) = dict_pop v (nodes_map g)"
    by (simp add: result g6_def g5_def g3_def g2g)
  have "node_tables_ok (remove_node g v)"
    using tables v length_dict_pop [of "nodes_map g" v]
    by (simp add: node_tables_ok_def result g6_def g5_def g3_def g2g)
  moreover have "ends_ok (nodes_map (remove_node g v)) (edge_objs (remove_node g v))"
    using ends objs unfolding nodes_r by (auto simp: ends_ok_def result split: option.splits if_splits)
  ultimately show ?thesis using core_r nodes_r objs [of k] labels frames by (simp add: graph_ok_split result)
qed

section \<open>New graphs, adjacency queries, edge identity\<close>

lemma new_graph_fields [simp]:
  "nodes_map (new_graph opts nf ef) = []" "edge_objs (new_graph opts nf ef) = []"
  "edge_labels (new_graph opts nf ef) = []" "in_map (new_graph opts nf ef) = []"
  "out_map (new_graph opts nf ef) = []" "preds_map (new_graph opts nf ef) = []"
  "sucs_map (new_graph opts nf ef) = []" "gnode_count (new_graph opts nf ef) = 0"
  "gedge_count (new_graph opts nf ef) = 0" "parent_map (new_graph opts nf ef) = []"
  "is_directed (new_graph opts nf ef) =
     (case opts of None \<Rightarrow> True | Some opt \<Rightarrow> opt_directed opt \<noteq> Some False)"
  "is_multigraph (new_graph opts nf ef) =
     (case opts of None \<Rightarrow> False | Some opt \<Rightarrow> opt_multigraph opt = Some True)"
  "is_compound (new_graph opts nf ef) =
     (case opts of None \<Rightarrow> False | Some opt \<Rightarrow> opt_compound opt = Some True)"
  by (auto simp: new_graph_def Let_def ohm_new_def split: option.splits)

lemma graph_ok_new [inv_intros]:
  "(case opts of None \<Rightarrow> True | Some opt \<Rightarrow> opt_directed opt \<noteq> Some False) \<Longrightarrow>
   graph_ok (new_graph opts nf ef)"
  by (simp add: graph_ok_def edges_ok_def same_keys_def incidence_ok_def multiplicity_ok_def)

text \<open>The keys of a multiplicity table of a node are the other ends of its edges.\<close>

lemma multiplicity_keys:
  assumes ok: "multiplicity_ok tbl sel other objs" and objs: "dict_ok objs"
    and m: "dict_get tbl v = Some m"
  shows "distinct (ohm_keys m)"
    and "set (ohm_keys m) = {other e | e. e \<in> set (dict_values objs) \<and> sel e = v}"
proof -
  show "distinct (ohm_keys m)"
    using ok m by (simp add: multiplicity_ok_def ohm_keys_def)
  have "u \<in> set (ohm_keys m) \<longleftrightarrow> (\<exists>k e. dict_get objs k = Some e \<and> sel e = v \<and> other e = u)" for u
    using ok m ohm.keys_lookup [of u m] count_edges_zero [OF objs, of "\<lambda>e. sel e = v \<and> other e = u"]
    by (auto simp: multiplicity_ok_def Let_def split: if_splits)
  moreover have "e \<in> set (dict_values objs) \<longleftrightarrow> (\<exists>k. dict_get objs k = Some e)" for e
    using objs by (rule dict_values_iff)
  ultimately have "u \<in> set (ohm_keys m) \<longleftrightarrow> (\<exists>e. e \<in> set (dict_values objs) \<and> sel e = v \<and> other e = u)" for u
    by metis
  then show "set (ohm_keys m) = {other e | e. e \<in> set (dict_values objs) \<and> sel e = v}"
    by (intro set_eqI) auto
qed

lemma incidence_values:
  assumes ok: "incidence_ok tbl sel objs" and objs: "dict_ok objs" and m: "dict_get tbl v = Some m"
  shows "set (ohm_values m) = {e \<in> set (dict_values objs). sel e = v}"
proof -
  have "dict_ok m" using ok m by (simp add: incidence_ok_def)
  then have "e \<in> set (ohm_values m) \<longleftrightarrow> (\<exists>k. dict_get m k = Some e)" for e
    unfolding ohm_values_def by (rule dict_values_iff)
  moreover have "e \<in> set (dict_values objs) \<longleftrightarrow> (\<exists>k. dict_get objs k = Some e)" for e
    using objs by (rule dict_values_iff)
  ultimately show ?thesis using ok m by (auto simp: incidence_ok_def)
qed

text \<open>
  Composing an identifier is injective on the canonical triple as long as the node ids do not
  contain the delimiter; the name may contain it.
\<close>

definition canonical :: "bool \<Rightarrow> node_id \<Rightarrow> node_id \<Rightarrow> node_id \<times> node_id" where
  "canonical directed v w = (if \<not> directed \<and> v > w then (w, v) else (v, w))"

lemma split_at_delim:
  assumes "d \<notin> set a" and "d \<notin> set b" and "a @ d # xs = b @ d # ys"
  shows "a = b \<and> xs = ys"
  using assms
proof (induction a arbitrary: b)
  case Nil
  then show ?case by (cases b) auto
next
  case (Cons c a)
  then show ?case by (cases b) auto
qed

lemma edge_id_split:
  assumes "CHR 0x01 \<notin> set v" "CHR 0x01 \<notin> set w" "CHR 0x01 \<notin> set v'" "CHR 0x01 \<notin> set w'"
    and "edge_args_to_id d v w n = edge_args_to_id d v' w' n'"
  shows "canonical d v w = canonical d v' w'"
    and "(case n of Some s \<Rightarrow> s | None \<Rightarrow> DEFAULT_EDGE_NAME) =
         (case n' of Some s \<Rightarrow> s | None \<Rightarrow> DEFAULT_EDGE_NAME)"
proof -
  obtain a b a' b' where ab: "canonical d v w = (a, b)" "canonical d v' w' = (a', b')"
    by fastforce
  let ?n = "case n of Some s \<Rightarrow> s | None \<Rightarrow> DEFAULT_EDGE_NAME"
  let ?n' = "case n' of Some s \<Rightarrow> s | None \<Rightarrow> DEFAULT_EDGE_NAME"
  have "a @ CHR 0x01 # (b @ CHR 0x01 # ?n) = a' @ CHR 0x01 # (b' @ CHR 0x01 # ?n')"
    using assms(5) ab
    by (simp add: edge_args_to_id_def canonical_def EDGE_KEY_DELIM_def Let_def split: if_splits)
  note whole = this
  have free: "CHR 0x01 \<notin> set a" "CHR 0x01 \<notin> set b" "CHR 0x01 \<notin> set a'" "CHR 0x01 \<notin> set b'"
    using assms(1-4) ab by (auto simp: canonical_def split: if_splits)
  note outer = split_at_delim [OF free(1) free(3) whole]
  note inner = split_at_delim [OF free(2) free(4) conjunct2 [OF outer]]
  from outer inner ab show "canonical d v w = canonical d v' w'" "?n = ?n'" by simp_all
qed

text \<open>The two ways in which \<open>set_edge\<close> succeeds on a directed graph.\<close>

lemma set_edge_Inr:
  assumes "is_directed g" and "set_edge g v w l n = Inr g'"
  obtains (update) "has_edge g v w n"
      and "g' = (case l of None \<Rightarrow> g
             | Some _ \<Rightarrow> g\<lparr>edge_labels := dict_set (edge_args_to_id True v w n) l (edge_labels g)\<rparr>)"
    | (create) "\<not> has_edge g v w n" and "g' = link_edge g v w l n" and "n \<noteq> None \<longrightarrow> is_multigraph g"
proof (cases "has_edge g v w n")
  case True
  with assms show ?thesis
    by (intro update; cases l) (simp_all add: set_edge_def has_edge_def)
next
  case False
  with assms show ?thesis
    by (intro create) (auto simp: set_edge_def has_edge_def Let_def split: if_splits)
qed

lemma default_edge_label_set_node [simp]:
  "default_edge_label (set_node g v l) e = default_edge_label g e"
  by (auto simp: default_edge_label_def split: edge_label_default.splits option.splits)

lemma link_edge_frame:
  assumes "is_directed g"
  shows "edge_objs (link_edge g v w l n) =
      dict_set (edge_args_to_id True v w n) \<lparr>edge_v = v, edge_w = w, edge_name = n\<rparr> (edge_objs g)"
    and "edge_labels (link_edge g v w l n) = dict_set (edge_args_to_id True v w n)
      (case l of Some _ \<Rightarrow> l | None \<Rightarrow> default_edge_label g (edge_args_to_id True v w n)) (edge_labels g)"
    and "is_directed (link_edge g v w l n)"
  using assms unfolding atomize_conj
  by (cases "dict_get (preds_map (set_node (set_node g v None) w None)) w";
      cases "dict_get (sucs_map (set_node (set_node g v None) w None)) v"; cases l)
     (simp_all add: link_edge_def Let_def)

end
