(* ===== verification/Graph_Forest.thy ===== *)
theory Graph_Forest
  imports Graph_Invariant
begin

text \<open>
  The parent/child forest of a compound graph: its invariant, that \<open>set_node\<close> and
  \<open>set_parent\<close> keep it, that the cycle check always ends on a forest, and what
  \<open>set_parent\<close> does with a node as its own parent.
\<close>

section \<open>The invariant\<close>

definition forest_tables ::
  "(node_id, 'n) dict \<Rightarrow> (node_id, node_id) dict \<Rightarrow> (node_id, (node_id, bool) dict) dict \<Rightarrow> bool" where
  "forest_tables ns pm cm =
     (\<not> dict_has ns GRAPH_NODE \<and>
      same_keys pm ns \<and>
      (\<forall>p. dict_has cm p \<longleftrightarrow> p = GRAPH_NODE \<or> dict_has ns p) \<and>
      (\<forall>p m. dict_get cm p = Some m \<longrightarrow> (\<forall>v. dict_has m v \<longleftrightarrow> dict_get pm v = Some p)) \<and>
      (\<forall>v p. dict_get pm v = Some p \<longrightarrow> p = GRAPH_NODE \<or> dict_has ns p))"

definition forest_ok :: "('gl, 'n, 'e) graph \<Rightarrow> bool" where
  "forest_ok g = (is_compound g \<and> forest_tables (nodes_map g) (parent_map g) (children_map g))"

lemmas forest_ok_iff = forest_ok_def forest_tables_def

definition parent_rel :: "('gl, 'n, 'e) graph \<Rightarrow> (node_id \<times> node_id) set" where
  "parent_rel g = {(v, p). graph_parent g v = Some p}"

abbreviation acyclic_parents :: "('gl, 'n, 'e) graph \<Rightarrow> bool" where
  "acyclic_parents g \<equiv> acyclic (parent_rel g)"

lemma parent_rel_iff [simp]: "(v, p) \<in> parent_rel g \<longleftrightarrow> graph_parent g v = Some p"
  by (simp add: parent_rel_def)

lemma finite_parent_rel [simp]: "finite (parent_rel g)"
proof -
  have "parent_rel g \<subseteq> set (parent_map g)"
    by (auto simp: graph_parent_def map_of_SomeD split: if_splits option.splits)
  then show ?thesis by (rule finite_subset) simp
qed

section \<open>The walk of the cycle check\<close>

text \<open>On an acyclic parent relation the walk ends, and answers whether \<open>v\<close> is a proper ancestor.\<close>

lemma ancestor_meets_total:
  assumes "acyclic_parents g"
  shows "ancestor_meets g v a = Some ((a, v) \<in> (parent_rel g)\<^sup>+)"
proof -
  have "wf ((parent_rel g)\<inverse>)"
    using assms by (intro finite_acyclic_wf_converse) simp_all
  then show ?thesis
  proof (induction a rule: wf_induct_rule)
    case (less a)
    show ?case
    proof (cases "graph_parent g a")
      case None
      then have "(a, v) \<notin> (parent_rel g)\<^sup>+" by (auto dest: tranclD)
      with None show ?thesis by (subst ancestor_meets.simps) simp
    next
      case (Some p)
      then have "ancestor_meets g v p = Some ((p, v) \<in> (parent_rel g)\<^sup>+)"
        by (intro less.IH) simp
      moreover have "(a, v) \<in> (parent_rel g)\<^sup>+ \<longleftrightarrow> p = v \<or> (p, v) \<in> (parent_rel g)\<^sup>+"
        using Some by (auto elim: converse_tranclE intro: trancl_into_trancl2)
      ultimately show ?thesis using Some by (subst ancestor_meets.simps) simp
    qed
  qed
qed

text \<open>A walk that enters a node which is its own parent never ends.\<close>

lemma ancestor_meets_self_loop:
  assumes "graph_parent g a = Some a" and "a \<noteq> v"
  shows "ancestor_meets g v a = None"
proof (rule ccontr)
  assume "ancestor_meets g v a \<noteq> None"
  then obtain r where ret: "ancestor_meets g v a = Some r" by auto
  have "\<not> (graph_parent g a = Some a \<and> a \<noteq> v)"
  proof (rule ancestor_meets.raw_induct
      [where P = "\<lambda>g v a r. \<not> (graph_parent g a = Some a \<and> a \<noteq> v)", OF _ ret])
    fix f g v a r
    assume IH: "\<And>g v a r. f g v a = Some r \<Longrightarrow> \<not> (graph_parent g a = Some a \<and> a \<noteq> v)"
      and eq: "(case graph_parent g a of None \<Rightarrow> Some False
        | Some p \<Rightarrow> if p = v then Some True else f g v p) = Some r"
    show "\<not> (graph_parent g a = Some a \<and> a \<noteq> v)"
    proof
      assume loop: "graph_parent g a = Some a \<and> a \<noteq> v"
      with eq have "f g v a = Some r" by simp
      from IH [OF this] loop show False by simp
    qed
  qed
  with assms show False by simp
qed

section \<open>Operations\<close>

lemma set_node_forest_known [simp]:
  "dict_has (nodes_map g) v \<Longrightarrow> parent_map (set_node g v l) = parent_map g"
  "dict_has (nodes_map g) v \<Longrightarrow> children_map (set_node g v l) = children_map g"
  by (simp_all add: set_node_def split: option.splits)

lemma set_node_forest_new:
  assumes "\<not> dict_has (nodes_map g) v" and "is_compound g" and "v \<noteq> GRAPH_NODE"
    and "dict_get (children_map g) GRAPH_NODE = Some m"
  shows "parent_map (set_node g v l) = dict_set v GRAPH_NODE (parent_map g)"
    and "children_map (set_node g v l) =
         dict_set GRAPH_NODE (dict_set v True m) (dict_set v [] (children_map g))"
  using assms by (simp_all add: set_node_def seed_forest_def Let_def ohm_new_def dict_simps)

lemma forest_ok_children:
  assumes "forest_ok g" and "p = GRAPH_NODE \<or> dict_has (nodes_map g) p"
  obtains m where "dict_get (children_map g) p = Some m"
proof -
  have "dict_has (children_map g) p" using assms by (simp add: forest_ok_iff)
  then show ?thesis using that by (auto simp: dict_has_def)
qed

lemma forest_ok_fresh:
  assumes "forest_ok g" and "\<not> dict_has (nodes_map g) v" and "v \<noteq> GRAPH_NODE"
  shows "dict_get (parent_map g) v = None" and "dict_get (children_map g) v = None"
    and "dict_get (parent_map g) u \<noteq> Some v"
proof -
  have "\<not> dict_has (parent_map g) v" "\<not> dict_has (children_map g) v"
    using assms by (simp_all add: forest_ok_iff same_keys_def)
  then show "dict_get (parent_map g) v = None" "dict_get (children_map g) v = None"
    by (simp_all add: not_dict_has)
  show "dict_get (parent_map g) u \<noteq> Some v"
    using assms by (auto simp: forest_ok_iff)
qed

lemma forest_ok_set_node [inv_intros]:
  assumes ok: "forest_ok g" and v: "v \<noteq> GRAPH_NODE"
  shows "forest_ok (set_node g v l)"
proof (cases "dict_has (nodes_map g) v")
  case True
  with ok show ?thesis by (auto simp: forest_ok_iff same_keys_def)
next
  case False
  obtain m where m: "dict_get (children_map g) GRAPH_NODE = Some m"
    using forest_ok_children [OF ok] by blast
  have cm: "is_compound g" using ok by (simp add: forest_ok_iff)
  note fresh = forest_ok_fresh [OF ok False v]
  show ?thesis
    using ok m v fresh
    unfolding forest_ok_iff same_keys_def
    by (auto simp: set_node_forest_new [OF False cm v m] dict_simps
        simp flip: dict_has_iff)
qed

lemma graph_parent_set_node:
  assumes ok: "forest_ok g" and v: "v \<noteq> GRAPH_NODE"
  shows "graph_parent (set_node g v l) u = graph_parent g u"
proof (cases "dict_has (nodes_map g) v")
  case True
  then show ?thesis by (simp add: graph_parent_def)
next
  case False
  obtain m where m: "dict_get (children_map g) GRAPH_NODE = Some m"
    using forest_ok_children [OF ok] by blast
  have "is_compound g" using ok by (simp add: forest_ok_iff)
  with forest_ok_fresh(1) [OF ok False v] show ?thesis
    by (simp add: graph_parent_def set_node_forest_new [OF False _ v m] dict_simps)
qed

lemma graph_parent_iff:
  "forest_ok g \<Longrightarrow> graph_parent g v = Some p \<longleftrightarrow> dict_get (parent_map g) v = Some p \<and> p \<noteq> GRAPH_NODE"
  by (auto simp: graph_parent_def forest_ok_iff split: option.splits)

text \<open>The two dictionaries after a known node has moved below \<open>q\<close>.\<close>

lemma reparent_fields:
  assumes ok: "forest_ok g" and v: "dict_has (nodes_map g) v"
    and q: "q = GRAPH_NODE \<or> dict_has (nodes_map g) q"
  obtains p0 m0 mq where "dict_get (parent_map g) v = Some p0"
    and "dict_get (children_map g) p0 = Some m0"
    and "dict_get (children_map g) q = Some mq"
    and "reparent g v q = g\<lparr>parent_map := dict_set v q (parent_map g),
           children_map := dict_set q (dict_set v True (if q = p0 then dict_pop v m0 else mq))
             (dict_set p0 (dict_pop v m0) (children_map g))\<rparr>"
proof -
  have "dict_has (parent_map g) v" using ok v by (simp add: forest_ok_iff same_keys_def)
  then obtain p0 where p0: "dict_get (parent_map g) v = Some p0" by (auto simp: dict_has_def)
  with ok have "p0 = GRAPH_NODE \<or> dict_has (nodes_map g) p0" by (simp add: forest_ok_iff)
  from forest_ok_children [OF ok this] obtain m0 where m0: "dict_get (children_map g) p0 = Some m0" .
  from forest_ok_children [OF ok q] obtain mq where mq: "dict_get (children_map g) q = Some mq" .
  show ?thesis
    using p0 m0 mq
    by (rule that)
       (simp add: reparent_def Let_def set_node_known [OF v] remove_from_parents_child_list_def
          p0 m0 mq dict_simps)
qed

lemma forest_ok_reparent:
  assumes ok: "forest_ok g" and v: "dict_has (nodes_map g) v"
    and q: "q = GRAPH_NODE \<or> dict_has (nodes_map g) q"
  shows "forest_ok (reparent g v q)"
proof -
  from reparent_fields [OF assms] obtain p0 m0 mq where
    f: "dict_get (parent_map g) v = Some p0" "dict_get (children_map g) p0 = Some m0"
      "dict_get (children_map g) q = Some mq"
    and eq: "reparent g v q = g\<lparr>parent_map := dict_set v q (parent_map g),
           children_map := dict_set q (dict_set v True (if q = p0 then dict_pop v m0 else mq))
             (dict_set p0 (dict_pop v m0) (children_map g))\<rparr>" .
  have has: "dict_has (children_map g) p0" "dict_has (children_map g) q" "dict_has (parent_map g) v"
    using f by (simp_all add: dict_hasI)
  have lists: "\<forall>u. dict_has m u \<longleftrightarrow> dict_get (parent_map g) u = Some p"
    if "dict_get (children_map g) p = Some m" for p m
    using ok that by (simp add: forest_ok_iff)
  let ?mq = "dict_set v True (if q = p0 then dict_pop v m0 else mq)"
  let ?c = "dict_set q ?mq (dict_set p0 (dict_pop v m0) (children_map g))"
  have moved: "dict_has m u \<longleftrightarrow> dict_get (dict_set v q (parent_map g)) u = Some p"
    if m: "dict_get ?c p = Some m" for p m u
  proof (cases "p = q")
    case True
    then have "m = ?mq" using m by (simp add: dict_simps)
    then show ?thesis
      using True lists [OF f(2)] lists [OF f(3)] f(1) by (simp add: dict_get_set)
  next
    case not_q: False
    show ?thesis
    proof (cases "p = p0")
      case True
      then have "m = dict_pop v m0" using m not_q by (simp add: dict_simps)
      then show ?thesis using True not_q lists [OF f(2)] by (simp add: dict_get_set)
    next
      case False
      then have "dict_get (children_map g) p = Some m" using m not_q by (simp add: dict_simps)
      with False not_q f(1) lists show ?thesis by (auto simp: dict_get_set)
    qed
  qed
  have doms: "same_keys (dict_set v q (parent_map g)) (nodes_map g)"
    "\<forall>p. dict_has ?c p \<longleftrightarrow> p = GRAPH_NODE \<or> dict_has (nodes_map g) p"
    "\<forall>u p. dict_get (dict_set v q (parent_map g)) u = Some p \<longrightarrow> p = GRAPH_NODE \<or> dict_has (nodes_map g) p"
    using ok v q has(1,2) by (auto simp: forest_ok_iff same_keys_def dict_get_set)
  have lists': "\<forall>p m. dict_get ?c p = Some m \<longrightarrow>
      (\<forall>u. dict_has m u \<longleftrightarrow> dict_get (dict_set v q (parent_map g)) u = Some p)"
    using moved by blast
  have root: "\<not> dict_has (nodes_map g) GRAPH_NODE" "is_compound g"
    using ok by (simp_all add: forest_ok_iff)
  have "forest_tables (nodes_map g) (dict_set v q (parent_map g)) ?c"
    unfolding forest_tables_def by (intro conjI root doms lists')
  then show ?thesis using root(2) by (simp add: eq forest_ok_def)
qed

lemma graph_parent_reparent:
  assumes "forest_ok g" and "dict_has (nodes_map g) v"
    and "q = GRAPH_NODE \<or> dict_has (nodes_map g) q"
  shows "graph_parent (reparent g v q) u =
         (if u = v then (if q = GRAPH_NODE then None else Some q) else graph_parent g u)"
proof -
  have "is_compound g" using assms(1) by (simp add: forest_ok_iff)
  from reparent_fields [OF assms] obtain c where
    "parent_map (reparent g v q) = dict_set v q (parent_map g)"
    "is_compound (reparent g v q) = is_compound g"
    by (metis graph.select_convs(3,18) graph.surjective graph.update_convs(18,19))
  then show ?thesis using \<open>is_compound g\<close> by (simp add: graph_parent_def dict_simps)
qed

lemma reparent_set_node:
  "forest_ok g \<Longrightarrow> v \<noteq> GRAPH_NODE \<Longrightarrow> reparent g v q = reparent (set_node g v None) v q"
  by (simp add: reparent_def set_node_known)

text \<open>
  \<open>attach g v q\<close> is \<open>set_parent\<close> after its check: both nodes are created where they are
  missing, then the node moves.
\<close>

lemma attach_correct:
  assumes ok: "forest_ok g" and v: "v \<noteq> GRAPH_NODE" and p: "p \<noteq> GRAPH_NODE"
  defines "g' \<equiv> reparent (set_node g p None) v p"
  shows "forest_ok g'"
    and "graph_parent g' u = (if u = v then Some p else graph_parent g u)"
proof -
  define h where "h = set_node (set_node g p None) v None"
  have okp: "forest_ok (set_node g p None)" using ok p by (rule forest_ok_set_node)
  then have okh: "forest_ok h" unfolding h_def using v by (rule forest_ok_set_node)
  have g': "g' = reparent h v p"
    unfolding g'_def h_def using okp v by (rule reparent_set_node)
  have has: "dict_has (nodes_map h) v" "dict_has (nodes_map h) p" by (auto simp: h_def)
  show "forest_ok g'" unfolding g' using okh has by (intro forest_ok_reparent) auto
  have "graph_parent h u = graph_parent g u"
    using graph_parent_set_node [OF okp v] graph_parent_set_node [OF ok p] by (simp add: h_def)
  then show "graph_parent g' u = (if u = v then Some p else graph_parent g u)"
    unfolding g' using graph_parent_reparent [OF okh has(1), of p u] has(2) p by simp
qed

lemma detach_correct:
  assumes ok: "forest_ok g" and v: "v \<noteq> GRAPH_NODE"
  shows "forest_ok (reparent g v GRAPH_NODE)"
    and "graph_parent (reparent g v GRAPH_NODE) u = (if u = v then None else graph_parent g u)"
proof -
  have okv: "forest_ok (set_node g v None)" using ok v by (rule forest_ok_set_node)
  have eq: "reparent g v GRAPH_NODE = reparent (set_node g v None) v GRAPH_NODE"
    using ok v by (rule reparent_set_node)
  show "forest_ok (reparent g v GRAPH_NODE)"
    unfolding eq using okv by (intro forest_ok_reparent) auto
  show "graph_parent (reparent g v GRAPH_NODE) u = (if u = v then None else graph_parent g u)"
    unfolding eq using okv graph_parent_set_node [OF ok v, of None u]
    by (subst graph_parent_reparent) auto
qed

lemma acyclic_attach:
  assumes "acyclic_parents g" and "p \<noteq> v" and "(p, v) \<notin> (parent_rel g)\<^sup>+"
    and "\<And>u. graph_parent g' u = (if u = v then Some p else graph_parent g u)"
  shows "acyclic_parents g'"
proof -
  have "parent_rel g' \<subseteq> insert (v, p) (parent_rel g)"
    using assms(4) by (auto simp: parent_rel_def split: if_splits)
  moreover have "(p, v) \<notin> (parent_rel g)\<^sup>*"
    using assms(2,3) by (auto simp: rtrancl_eq_or_trancl)
  ultimately show ?thesis
    using assms(1) by (meson acyclic_insert acyclic_subset)
qed

lemma acyclic_detach:
  assumes "acyclic_parents g" and "\<And>u. graph_parent g' u = (if u = v then None else graph_parent g u)"
  shows "acyclic_parents g'"
proof -
  have "parent_rel g' \<subseteq> parent_rel g"
    using assms(2) by (auto simp: parent_rel_def split: if_splits)
  with assms(1) show ?thesis by (rule acyclic_subset)
qed

text \<open>The children of a node in a forest are other nodes of the graph.\<close>

lemma forest_children_known:
  assumes ok: "forest_ok g" and acyc: "acyclic_parents g" and v: "v \<noteq> GRAPH_NODE"
  shows "children_known g v"
  unfolding children_known_def
proof (intro impI ballI)
  fix c
  assume c: "c \<in> set (graph_children (remove_from_parents_child_list g v) v)"
  have no_self: "dict_get (parent_map g) v \<noteq> Some v"
  proof
    assume "dict_get (parent_map g) v = Some v"
    then have "(v, v) \<in> parent_rel g" using ok v by (simp add: graph_parent_iff)
    then have "(v, v) \<in> (parent_rel g)\<^sup>+" by (rule r_into_trancl)
    with acyc show False by (simp add: acyclic_def)
  qed
  then have "dict_get (children_map (remove_from_parents_child_list g v)) v = dict_get (children_map g) v"
    by (auto simp: remove_from_parents_child_list_def dict_simps split: option.splits)
  moreover have "is_compound (remove_from_parents_child_list g v)"
    using ok remove_from_list_frame [of g v] by (auto simp: forest_ok_iff)
  ultimately obtain m where m: "dict_get (children_map g) v = Some m" and "c \<in> set (dict_keys m)"
    using c by (cases "dict_get (children_map g) v") (simp_all add: graph_children_def ohm_keys_def)
  then have "dict_has m c" by (simp only: dict_has_iff)
  with m have pc: "dict_get (parent_map g) c = Some v" using ok by (simp add: forest_ok_iff)
  then have "dict_has (parent_map g) c" by (rule dict_hasI)
  with ok have "dict_has (nodes_map g) c" by (simp add: forest_ok_iff same_keys_def)
  moreover have "c \<noteq> v" using pc no_self by auto
  ultimately show "c \<noteq> v \<and> dict_has (nodes_map g) c" by simp
qed

end
