(* ===== verification/Graph_Properties.thy ===== *)
theory Graph_Properties
  imports Graph_Forest
begin

text \<open>
  The properties of the graph of \<open>data_structures/graphlib.py\<close>: edge creation and removal,
  node removal, the adjacency queries, edge identity, the parent operation on a forest and on
  a node that is its own parent, and what the edge-object overloads do to named edges.
\<close>

section \<open>Example graphs\<close>

definition ga :: node_id where "ga = ''a''"
definition gb :: node_id where "gb = ''b''"
definition gc :: node_id where "gc = ''c''"

definition ex_graph :: "(unit, nat, nat) graph" where
  "ex_graph = (case set_path (new_graph None None None) [ga, gb, gc, ga] (Some 7) of
                 Inr g \<Rightarrow> g | Inl _ \<Rightarrow> new_graph None None None)"

lemma ex_graph_ok: "graph_ok ex_graph"
proof -
  have new: "graph_ok (new_graph None None None :: (unit, nat, nat) graph)"
    by (rule graph_ok_new) simp
  show ?thesis
  proof (cases "set_path (new_graph None None None :: (unit, nat, nat) graph) [ga, gb, gc, ga] (Some 7)")
    case (Inl e)
    show ?thesis unfolding ex_graph_def Inl sum.case by (rule new)
  next
    case (Inr g)
    show ?thesis unfolding ex_graph_def Inr sum.case by (rule graph_ok_set_path [OF new Inr])
  qed
qed

text \<open>A multigraph with one named edge.\<close>

definition ex_multi_new :: "(unit, nat, nat) graph" where
  "ex_multi_new =
     new_graph (Some \<lparr>opt_directed = None, opt_multigraph = Some True, opt_compound = None\<rparr>) None None"

definition ex_multi :: "(unit, nat, nat) graph" where
  "ex_multi = (case set_edge ex_multi_new ga gb (Some 7) (Some ''x'') of
                 Inr g \<Rightarrow> g | Inl _ \<Rightarrow> ex_multi_new)"

lemma ex_multi_ok: "graph_ok ex_multi"
proof -
  have new: "graph_ok ex_multi_new"
    unfolding ex_multi_new_def by (rule graph_ok_new) simp
  show ?thesis
  proof (cases "set_edge ex_multi_new ga gb (Some 7) (Some ''x'')")
    case (Inl e)
    show ?thesis unfolding ex_multi_def Inl sum.case by (rule new)
  next
    case (Inr g)
    show ?thesis unfolding ex_multi_def Inr sum.case by (rule graph_ok_set_edge [OF new Inr])
  qed
qed

text \<open>A compound graph of three nodes below the root.\<close>

definition ex_forest :: "(unit, nat, nat) graph" where
  "ex_forest = set_nodes (new_graph (Some \<lparr>opt_directed = None, opt_multigraph = None,
                                opt_compound = Some True\<rparr>) None None) [ga, gb, gc] (Some 1)"

lemma forest_ok_new:
  "opt_compound opt = Some True \<Longrightarrow> forest_ok (new_graph (Some opt) nf ef)"
  by (simp add: forest_ok_iff same_keys_def new_graph_def Let_def ohm_new_def dict_has_def)

lemma forest_ok_set_nodes:
  "forest_ok g \<Longrightarrow> GRAPH_NODE \<notin> set vs \<Longrightarrow> forest_ok (set_nodes g vs l)"
  unfolding set_nodes_def
  by (induction vs arbitrary: g) (auto simp: forest_ok_set_node [OF _ not_sym])

lemma ex_forest_ok: "forest_ok ex_forest"
  unfolding ex_forest_def
  by (intro forest_ok_set_nodes forest_ok_new) (simp_all add: ga_def gb_def gc_def GRAPH_NODE_def)

lemma ex_forest_parents: "graph_parent ex_forest u = None"
proof -
  have new: "graph_parent (new_graph (Some \<lparr>opt_directed = None, opt_multigraph = None,
      opt_compound = Some True\<rparr>) None None :: (unit, nat, nat) graph) u = None"
    by (simp add: graph_parent_def)
  have "graph_parent (set_nodes g vs l) u = graph_parent g u"
    if "forest_ok g" "GRAPH_NODE \<notin> set vs" for g :: "(unit, nat, nat) graph" and vs l
    using that unfolding set_nodes_def
    by (induction vs arbitrary: g)
       (auto simp: graph_parent_set_node [OF _ not_sym] forest_ok_set_node [OF _ not_sym])
  from this [OF forest_ok_new, of _ "[ga, gb, gc]"] new show ?thesis
    unfolding ex_forest_def by (simp add: ga_def gb_def gc_def GRAPH_NODE_def)
qed

lemma ex_forest_acyclic: "acyclic_parents ex_forest"
proof -
  have "parent_rel ex_forest = {}" by (simp add: parent_rel_def ex_forest_parents)
  then show ?thesis by (simp add: acyclic_def)
qed

section \<open>Edges\<close>

text \<open>
  C10: Creating or updating an edge of a directed graph keeps every redundant table in step
  with the edge table; afterwards the edge exists, the edge table has changed at its
  identifier only, and no label but its own has.
\<close>

theorem set_edge_keeps_views:
  assumes "graph_ok g" and "set_edge g v w l n = Inr g'"
  shows "graph_ok g' \<and> has_edge g' v w n \<and>
    dict_get (edge_objs g') = (if has_edge g v w n then dict_get (edge_objs g)
      else (dict_get (edge_objs g))
        (edge_args_to_id True v w n \<mapsto> \<lparr>edge_v = v, edge_w = w, edge_name = n\<rparr>)) \<and>
    (\<forall>k. k \<noteq> edge_args_to_id True v w n \<longrightarrow>
       dict_get (edge_labels g') k = dict_get (edge_labels g) k)"
proof -
  have dir: "is_directed g" using assms(1) by (simp add: graph_ok_def)
  from dir assms(2) show ?thesis
  proof (cases rule: set_edge_Inr)
    case update
    with dir graph_ok_set_edge [OF assms] show ?thesis
      by (cases l) (simp_all add: has_edge_def dict_get_set)
  next
    case create
    with dir graph_ok_set_edge [OF assms] show ?thesis
      by (simp add: has_edge_def link_edge_frame dict_get_set fun_eq_iff)
  qed
qed

theorem set_edge_keeps_views_witness:
  "graph_ok (case set_edge ex_graph gb ga (Some 9) None of Inr g \<Rightarrow> g | Inl _ \<Rightarrow> ex_graph)"
proof -
  have "\<exists>g'. set_edge ex_graph gb ga (Some 9) None = Inr g'"
    by (auto simp: set_edge_def Let_def)
  then obtain g' where eq: "set_edge ex_graph gb ga (Some 9) None = Inr g'" ..
  from set_edge_keeps_views [OF ex_graph_ok eq] eq show ?thesis by simp
qed

text \<open>
  Removing an edge of a directed graph keeps every redundant table in step with the edge
  table, and removes exactly the edge that was named, with its label.
\<close>

theorem remove_edge_keeps_views:
  assumes "graph_ok g"
  shows "graph_ok (remove_edge g v w n) \<and> \<not> has_edge (remove_edge g v w n) v w n \<and>
    dict_get (edge_objs (remove_edge g v w n)) =
      (dict_get (edge_objs g))(edge_args_to_id True v w n := None) \<and>
    nodes_map (remove_edge g v w n) = nodes_map g"
proof -
  have ok: "graph_ok (remove_edge g v w n)" using assms by (rule graph_ok_remove_edge)
  have dir: "is_directed g" using assms by (simp add: graph_ok_def)
  have objs: "dict_get (edge_objs (remove_edge g v w n)) =
      (dict_get (edge_objs g))(edge_args_to_id True v w n := None)"
    using dir by (simp add: edge_objs_remove_edge dict_simps fun_eq_iff)
  have "has_edge (remove_edge g v w n) v w n \<longleftrightarrow>
      dict_has (edge_objs (remove_edge g v w n)) (edge_args_to_id True v w n)"
    using ok by (simp add: graph_ok_def same_keys_def has_edge_def)
  with ok objs show ?thesis by (simp add: dict_has_def fun_eq_iff)
qed

theorem remove_edge_keeps_views_witness: "graph_ok (remove_edge ex_graph ga gb None)"
  using remove_edge_keeps_views [OF ex_graph_ok] by simp

text \<open>
  The adjacency queries of a known node read the edge table: predecessors and successors
  list each other end once, and the in- and out-edges are exactly the edges of that end.
\<close>

theorem adjacency_reads_edges:
  assumes ok: "graph_ok g" and v: "has_node g v"
  shows "\<exists>ps ss ins outs. predecessors g v = Some ps \<and> successors g v = Some ss \<and>
    graph_in_edges g v None = Some ins \<and> graph_out_edges g v None = Some outs \<and>
    distinct ps \<and> set ps = {edge_v e | e. e \<in> set (graph_edges g) \<and> edge_w e = v} \<and>
    distinct ss \<and> set ss = {edge_w e | e. e \<in> set (graph_edges g) \<and> edge_v e = v} \<and>
    set ins = {e \<in> set (graph_edges g). edge_w e = v} \<and>
    set outs = {e \<in> set (graph_edges g). edge_v e = v}"
proof -
  from graph_ok_lookup [OF ok v [unfolded has_node_def]] obtain mi mo mp ms where
    m: "dict_get (in_map g) v = Some mi" "dict_get (out_map g) v = Some mo"
       "dict_get (preds_map g) v = Some mp" "dict_get (sucs_map g) v = Some ms" .
  have objs: "dict_ok (edge_objs g)" using ok by (simp add: graph_ok_def edges_ok_def)
  have parts: "incidence_ok (in_map g) edge_w (edge_objs g)"
    "incidence_ok (out_map g) edge_v (edge_objs g)"
    "multiplicity_ok (preds_map g) edge_w edge_v (edge_objs g)"
    "multiplicity_ok (sucs_map g) edge_v edge_w (edge_objs g)"
    using ok by (simp_all add: graph_ok_def)
  show ?thesis
    using m multiplicity_keys [OF parts(3) objs m(3)] multiplicity_keys [OF parts(4) objs m(4)]
      incidence_values [OF parts(1) objs m(1)] incidence_values [OF parts(2) objs m(2)]
    by (simp add: predecessors_def successors_def graph_in_edges_def graph_out_edges_def
        graph_edges_def ohm_values_def [of "edge_objs g"])
qed

theorem adjacency_reads_edges_witness:
  "\<exists>ss. successors ex_graph ga = Some ss \<and> distinct ss"
proof -
  have "has_node ex_graph ga" by code_simp
  from adjacency_reads_edges [OF ex_graph_ok this] show ?thesis by auto
qed

text \<open>
  Edge identifiers are injective on the canonical triple: node ids free of the delimiter
  and names other than the default one, two edges share an identifier only when their ends
  agree (up to the order, in an undirected graph) and their names agree.
\<close>

theorem edge_id_injective:
  assumes "CHR 0x01 \<notin> set (v @ w @ v' @ w')"
    and "n \<noteq> Some DEFAULT_EDGE_NAME" and "n' \<noteq> Some DEFAULT_EDGE_NAME"
    and "edge_args_to_id d v w n = edge_args_to_id d v' w' n'"
  shows "edge_args_to_obj d v w n = edge_args_to_obj d v' w' n'"
proof -
  have "canonical d v w = canonical d v' w'" and "n = n'"
    using assms edge_id_split [of v w v' w' d n n'] by (auto split: option.splits)
  then show ?thesis by (auto simp: canonical_def edge_args_to_obj_def split: if_splits)
qed

theorem edge_id_injective_witness:
  "edge_args_to_obj False ''b'' ''a'' None = edge_args_to_obj False ''a'' ''b'' None"
  by (rule edge_id_injective) (simp_all add: DEFAULT_EDGE_NAME_def edge_args_to_id_def)

text \<open>
  The module's promise that a named edge never collides with the default name does not hold
  for the name that is the default name itself.
\<close>

lemma edge_id_default_name_collides:
  "edge_args_to_id d v w (Some DEFAULT_EDGE_NAME) = edge_args_to_id d v w None"
  by (simp add: edge_args_to_id_def)

section \<open>Removing a node\<close>

text \<open>
  Removing a node of a simple directed graph removes the node and exactly the edges that
  touch it, and keeps every redundant table in step (in a compound graph, one whose parent
  relation is a forest).
\<close>

theorem remove_node_erases:
  assumes "graph_ok g" and "\<not> is_multigraph g" and "has_node g v"
    and "is_compound g \<Longrightarrow> forest_ok g \<and> acyclic_parents g"
  shows "graph_ok (remove_node g v) \<and> \<not> has_node (remove_node g v) v \<and>
    (\<forall>u. u \<noteq> v \<longrightarrow> has_node (remove_node g v) u = has_node g u) \<and>
    (\<forall>k. dict_get (edge_objs (remove_node g v)) k =
       (case dict_get (edge_objs g) k of None \<Rightarrow> None
        | Some e \<Rightarrow> if edge_v e = v \<or> edge_w e = v then None else Some e))"
proof -
  have "children_known g v"
  proof (cases "is_compound g")
    case True
    with assms(4) have f: "forest_ok g" "acyclic_parents g" by auto
    have "v \<noteq> GRAPH_NODE" using f(1) assms(3) by (auto simp: forest_ok_iff has_node_def)
    with f show ?thesis by (rule forest_children_known)
  qed (simp add: children_known_def)
  note facts = remove_node_correct [OF assms(1) plain_at_simple [OF assms(1,2)] this assms(3) [unfolded has_node_def]]
  from facts show ?thesis by (simp add: has_node_def)
qed

theorem remove_node_erases_witness:
  "graph_ok (remove_node ex_graph ga) \<and> \<not> has_node (remove_node ex_graph ga) ga"
proof -
  have "has_node ex_graph ga" "\<not> is_multigraph ex_graph" "\<not> is_compound ex_graph" by code_simp+
  with remove_node_erases [OF ex_graph_ok] show ?thesis by simp
qed

text \<open>
  The edge-object overload of \<open>remove_edge\<close> drops the name: on a graph without an
  anonymous edge between the two ends, asking it to remove a stored named edge changes
  nothing.
\<close>

theorem remove_edge_with_obj_misses_named:
  assumes "graph_ok g" and "e \<in> set (graph_edges g)"
    and "\<not> has_edge g (edge_v e) (edge_w e) None"
  shows "remove_edge_with_obj g e = g \<and> edge_name e \<noteq> None \<and>
    has_edge (remove_edge_with_obj g e) (edge_v e) (edge_w e) (edge_name e)"
proof -
  have dir: "is_directed g" and keys: "same_keys (edge_labels g) (edge_objs g)"
    and objs: "dict_ok (edge_objs g)"
    using assms(1) by (simp_all add: graph_ok_def edges_ok_def)
  obtain k where k: "dict_get (edge_objs g) k = Some e"
    using assms(2) objs by (auto simp: graph_edges_def ohm_values_def dict_values_iff simp del: set_map)
  then have id: "k = edge_args_to_id True (edge_v e) (edge_w e) (edge_name e)"
    using graph_ok_edge(1) [OF assms(1) k] by (simp add: edge_obj_to_id_def)
  have has: "has_edge g (edge_v e) (edge_w e) (edge_name e)"
    using k dir keys unfolding id by (simp add: has_edge_def same_keys_def dict_hasI)
  have "dict_get (edge_objs g) (edge_args_to_id (is_directed g) (edge_v e) (edge_w e) None) = None"
    using assms(3) keys by (simp add: has_edge_def same_keys_def flip: not_dict_has)
  then have "remove_edge_with_obj g e = g"
    unfolding remove_edge_with_obj_def by (rule remove_edge_absent)
  moreover have "edge_name e \<noteq> None" using has assms(3) by metis
  ultimately show ?thesis using has by simp
qed

theorem remove_edge_with_obj_misses_named_witness:
  "remove_edge_with_obj ex_multi \<lparr>edge_v = ga, edge_w = gb, edge_name = Some ''x''\<rparr> = ex_multi"
proof -
  have "\<lparr>edge_v = ga, edge_w = gb, edge_name = Some ''x''\<rparr> \<in> set (graph_edges ex_multi)"
    "\<not> has_edge ex_multi ga gb None"
    by code_simp+
  with remove_edge_with_obj_misses_named [OF ex_multi_ok] show ?thesis by simp
qed

text \<open>So \<open>remove_node\<close> leaves a named edge of the removed node behind.\<close>

lemma remove_node_leaves_named_edge:
  "\<not> has_node (remove_node ex_multi ga) ga \<and> has_edge (remove_node ex_multi ga) ga gb (Some ''x'')"
  by code_simp

section \<open>The parent operation\<close>



text \<open>
  A node is accepted as its own parent, since the walk looks at the parent's parent first;
  from then on placing any other node below it never returns.
\<close>

theorem set_parent_self_never_returns:
  assumes ok: "forest_ok g" and acyc: "acyclic_parents g"
    and v: "v \<noteq> GRAPH_NODE" and u: "u \<noteq> v"
  shows "\<exists>g'. set_parent g v (Some v) = Some (Inr g') \<and> graph_parent g' v = Some v \<and>
    set_parent g' u (Some v) = None"
proof -
  define g' where "g' = reparent (set_node g v None) v v"
  have cm: "is_compound g" using ok by (simp add: forest_ok_def)
  have "(v, v) \<notin> (parent_rel g)\<^sup>+" using acyc by (simp add: acyclic_def)
  with cm ancestor_meets_total [OF acyc, of v v]
  have set: "set_parent g v (Some v) = Some (Inr g')" by (simp add: set_parent_def g'_def)
  note att = attach_correct [OF ok v v, folded g'_def]
  have "is_compound g'" "graph_parent g' v = Some v"
    using att(1) att(2) [of v] by (simp_all add: forest_ok_def)
  then have "set_parent g' u (Some v) = None"
    using ancestor_meets_self_loop [of g' v u] u by (simp add: set_parent_def)
  with set att(2) [of v] show ?thesis by simp
qed

theorem set_parent_self_never_returns_witness:
  "\<exists>g'. set_parent ex_forest ga (Some ga) = Some (Inr g') \<and> set_parent g' gb (Some ga) = None"
  using set_parent_self_never_returns [OF ex_forest_ok ex_forest_acyclic, of ga gb]
  by (auto simp: ga_def gb_def GRAPH_NODE_def)

end
