(* ===== verification/Graph_Algo.thy ===== *)
theory Graph_Algo
  imports Graph_Properties
begin

text \<open>
  The traversals of \<open>data_structures/algo.py\<close>: the two iterative depth-first loops with
  their explicit stacks, \<open>dfs\<close>, \<open>postorder\<close> and \<open>preorder\<close>. The loops end on every graph,
  they list exactly the nodes reachable from the entries, once each, and the post-order of an
  acyclic graph is a reverse topological order. A stack is a list whose head is its top, so
  pushing the neighbours from the last to the first puts them in front in their own order.
\<close>

section \<open>The loops\<close>

definition navigation :: "('gl, 'n, 'e) graph \<Rightarrow> node_id \<Rightarrow> node_id list" where
  "navigation g v =
     (case (if is_directed g then successors g v else neighbors g v) of
        None \<Rightarrow> [] | Some ns \<Rightarrow> ns)"

text \<open>Only the finitely many nodes with an adjacency table have neighbours.\<close>

lemma finite_navigation [simp]: "finite {v. navigation g v \<noteq> [] \<and> P v}"
proof (rule finite_subset)
  show "{v. navigation g v \<noteq> [] \<and> P v} \<subseteq> set (dict_keys (sucs_map g)) \<union> set (dict_keys (preds_map g))"
    by (auto simp: navigation_def successors_def neighbors_def predecessors_def
        dest!: dict_get_Some_mem split: if_splits option.splits intro: rev_image_eqI)
qed simp

definition todo :: "('gl, 'n, 'e) graph \<Rightarrow> (node_id, bool) dict \<Rightarrow> nat" where
  "todo g visited = card {v. navigation g v \<noteq> [] \<and> \<not> dict_has visited v}"

lemma todo_visit:
  assumes "navigation g v \<noteq> []" and "\<not> dict_has visited v"
  shows "todo g (dict_set v True visited) < todo g visited"
  unfolding todo_def
proof (rule psubset_card_mono)
  have "v \<in> {u. navigation g u \<noteq> [] \<and> \<not> dict_has visited u}" using assms by simp
  moreover have "v \<notin> {u. navigation g u \<noteq> [] \<and> \<not> dict_has (dict_set v True visited) u}" by simp
  ultimately show "{u. navigation g u \<noteq> [] \<and> \<not> dict_has (dict_set v True visited) u}
      \<subset> {u. navigation g u \<noteq> [] \<and> \<not> dict_has visited u}"
    by auto
qed simp

lemma todo_mono: "todo g (dict_set v True visited) \<le> todo g visited"
  unfolding todo_def by (rule card_mono) auto

function (sequential) post_order_dfs ::
  "('gl, 'n, 'e) graph \<Rightarrow> (node_id \<times> bool) list \<Rightarrow> (node_id, bool) dict \<Rightarrow> node_id list \<Rightarrow>
   (node_id, bool) dict \<times> node_id list" where
  "post_order_dfs g [] visited acc = (visited, acc)"
| "post_order_dfs g ((node, is_post) # stack) visited acc =
     (if is_post then post_order_dfs g stack visited (acc @ [node])
      else if \<not> dict_has visited node
      then post_order_dfs g (map (\<lambda>n. (n, False)) (navigation g node) @ (node, True) # stack)
             (dict_set node True visited) acc
      else post_order_dfs g stack visited acc)"
  by pat_completeness auto

termination
proof (relation "measures [\<lambda>(g, stack, visited, acc). todo g visited,
    \<lambda>(g, stack, visited, acc). sum_list (map (\<lambda>(n, p). if p then 1 else 2) stack)]", goal_cases)
  case (3 g node is_post stack visited acc)
  then show ?case
    using todo_visit [of g node visited] todo_mono [of g node visited]
    by (cases "navigation g node = []") auto
qed auto

function (sequential) pre_order_dfs ::
  "('gl, 'n, 'e) graph \<Rightarrow> node_id list \<Rightarrow> (node_id, bool) dict \<Rightarrow> node_id list \<Rightarrow>
   (node_id, bool) dict \<times> node_id list" where
  "pre_order_dfs g [] visited acc = (visited, acc)"
| "pre_order_dfs g (node # stack) visited acc =
     (if \<not> dict_has visited node
      then pre_order_dfs g (navigation g node @ stack) (dict_set node True visited) (acc @ [node])
      else pre_order_dfs g stack visited acc)"
  by pat_completeness auto

termination
proof (relation "measures [\<lambda>(g, stack, visited, acc). todo g visited,
    \<lambda>(g, stack, visited, acc). length stack]", goal_cases)
  case (2 g node stack visited acc)
  then show ?case
    using todo_visit [of g node visited] todo_mono [of g node visited]
    by (cases "navigation g node = []") auto
qed auto

section \<open>The traversals\<close>

datatype dfs_error = NoSuchNode node_id

fun dfs_entries ::
  "('gl, 'n, 'e) graph \<Rightarrow> string \<Rightarrow> node_id list \<Rightarrow> (node_id, bool) dict \<Rightarrow> node_id list \<Rightarrow>
   dfs_error + node_id list" where
  "dfs_entries g order [] visited acc = Inr acc"
| "dfs_entries g order (v # vs) visited acc =
     (if \<not> has_node g v then Inl (NoSuchNode v)
      else (let (visited', acc') =
                  (if order = ''post'' then post_order_dfs g [(v, False)] visited acc
                   else pre_order_dfs g [v] visited acc)
            in dfs_entries g order vs visited' acc'))"

definition dfs :: "('gl, 'n, 'e) graph \<Rightarrow> node_id list \<Rightarrow> string \<Rightarrow> dfs_error + node_id list" where
  "dfs g vs order = dfs_entries g order vs [] []"

definition postorder :: "('gl, 'n, 'e) graph \<Rightarrow> node_id list \<Rightarrow> node_id list" where
  "postorder g vs = (case dfs g vs ''post'' of Inr acc \<Rightarrow> acc | Inl _ \<Rightarrow> [])"

definition preorder :: "('gl, 'n, 'e) graph \<Rightarrow> node_id list \<Rightarrow> node_id list" where
  "preorder g vs = (case dfs g vs ''pre'' of Inr acc \<Rightarrow> acc | Inl _ \<Rightarrow> [])"

section \<open>Invariants of the loops\<close>

definition nav_rel :: "('gl, 'n, 'e) graph \<Rightarrow> (node_id \<times> node_id) set" where
  "nav_rel g = {(u, w). w \<in> set (navigation g u)}"

lemma nav_relI: "w \<in> set (navigation g u) \<Longrightarrow> (u, w) \<in> nav_rel g"
  by (simp add: nav_rel_def)

definition reached :: "('gl, 'n, 'e) graph \<Rightarrow> node_id set \<Rightarrow> node_id set" where
  "reached g R = (nav_rel g)\<^sup>* `` R"

lemma reached_root: "v \<in> R \<Longrightarrow> v \<in> reached g R"
  by (auto simp: reached_def)

lemma reached_step: "u \<in> reached g R \<Longrightarrow> w \<in> set (navigation g u) \<Longrightarrow> w \<in> reached g R"
  unfolding reached_def by (auto intro: rtrancl_into_rtrancl nav_relI)

lemma reached_mono: "R \<subseteq> R' \<Longrightarrow> reached g R \<subseteq> reached g R'"
  by (auto simp: reached_def)

lemma reached_closed:
  assumes "R \<subseteq> V" and "V \<subseteq> reached g R" and "\<And>u. u \<in> V \<Longrightarrow> set (navigation g u) \<subseteq> V"
  shows "V = reached g R"
proof
  have "u \<in> V" if "(r, u) \<in> (nav_rel g)\<^sup>*" "r \<in> R" for r u
    using that assms(1,3) by (induction rule: rtrancl_induct) (auto simp: nav_rel_def)
  then show "reached g R \<subseteq> V" by (auto simp: reached_def)
qed (rule assms(2))

text \<open>
  For the nodes on the stack whose post-visit marker is pending: their neighbours are visited
  or wait above them, and they reach whatever lies above them. \<open>S\<close> collects what is above.
\<close>

primrec open_ok ::
  "('gl, 'n, 'e) graph \<Rightarrow> node_id set \<Rightarrow> node_id set \<Rightarrow> (node_id \<times> bool) list \<Rightarrow> bool" where
  "open_ok g V S [] = True"
| "open_ok g V S (x # stack) =
     ((snd x \<longrightarrow> set (navigation g (fst x)) \<subseteq> V \<union> S \<and> (\<forall>n\<in>S. (fst x, n) \<in> (nav_rel g)\<^sup>*)) \<and>
      open_ok g V (insert (fst x) S) stack)"

lemma open_ok_shrink:
  "open_ok g V S stack \<Longrightarrow> S \<subseteq> V' \<union> S' \<Longrightarrow> S' \<subseteq> S \<Longrightarrow> V \<subseteq> V' \<Longrightarrow> open_ok g V' S' stack"
proof (induction stack arbitrary: S S')
  case (Cons x stack)
  have "open_ok g V' (insert (fst x) S') stack"
    by (rule Cons.IH [of "insert (fst x) S"]) (use Cons.prems in auto)
  with Cons.prems show ?case by auto
qed simp

lemma open_ok_grow:
  "open_ok g V S stack \<Longrightarrow> S \<subseteq> S' \<Longrightarrow> (\<And>n. n \<in> S' \<Longrightarrow> \<exists>s\<in>S. (s, n) \<in> (nav_rel g)\<^sup>*) \<Longrightarrow>
   open_ok g V S' stack"
proof (induction stack arbitrary: S S')
  case (Cons x stack)
  have "open_ok g V (insert (fst x) S') stack"
    by (rule Cons.IH [of "insert (fst x) S"]) (use Cons.prems in auto)
  moreover have "(fst x, n) \<in> (nav_rel g)\<^sup>*" if "snd x" "n \<in> S'" for n
  proof -
    from Cons.prems(3) [OF that(2)] obtain s where "s \<in> S" "(s, n) \<in> (nav_rel g)\<^sup>*" by blast
    with Cons.prems(1) that(1) show ?thesis by (auto intro: rtrancl_trans)
  qed
  ultimately show ?case using Cons.prems by auto
qed simp

lemma open_ok_pending [simp]:
  "open_ok g V S (map (\<lambda>n. (n, False)) ns @ stack) = open_ok g V (set ns \<union> S) stack"
  by (induction ns arbitrary: S) (simp_all add: Un_commute insert_commute)

lemma open_ok_reach:
  "open_ok g V S stack \<Longrightarrow> (w, True) \<in> set stack \<Longrightarrow> s \<in> S \<Longrightarrow> (w, s) \<in> (nav_rel g)\<^sup>*"
  by (induction stack arbitrary: S) auto

text \<open>In a finished list every neighbour of a node comes earlier, unless it leads back to it.\<close>

definition post_ordered :: "('gl, 'n, 'e) graph \<Rightarrow> node_id list \<Rightarrow> bool" where
  "post_ordered g acc =
     (\<forall>xs u ys. acc = xs @ u # ys \<longrightarrow>
        (\<forall>w\<in>set (navigation g u). w \<in> set xs \<or> (w, u) \<in> (nav_rel g)\<^sup>*))"

lemma post_ordered_snoc:
  assumes "post_ordered g acc" and "\<forall>w\<in>set (navigation g u). w \<in> set acc \<or> (w, u) \<in> (nav_rel g)\<^sup>*"
  shows "post_ordered g (acc @ [u])"
  using assms unfolding post_ordered_def
  by (auto simp: append_eq_append_conv2 Cons_eq_append_conv append_eq_Cons_conv)

definition markers :: "(node_id \<times> bool) list \<Rightarrow> node_id list" where
  "markers stack = map fst (filter snd stack)"

lemma markers_simps [simp]:
  "markers [] = []" "markers ((n, True) # stack) = n # markers stack"
  "markers ((n, False) # stack) = markers stack"
  by (simp_all add: markers_def)

lemma markers_pending [simp]: "markers (map (\<lambda>n. (n, False)) ns @ stack) = markers stack"
  by (induction ns) simp_all

lemma markers_iff: "n \<in> set (markers stack) \<longleftrightarrow> (n, True) \<in> set stack"
  by (force simp: markers_def)

text \<open>The set of visited nodes is an explicit argument.\<close>

definition post_inv ::
  "('gl, 'n, 'e) graph \<Rightarrow> node_id set \<Rightarrow> (node_id \<times> bool) list \<Rightarrow> node_id set \<Rightarrow> node_id list \<Rightarrow> bool" where
  "post_inv g R stack V acc =
     (distinct (acc @ markers stack) \<and> V \<subseteq> set acc \<union> set (markers stack) \<and>
      set acc \<union> set (markers stack) \<subseteq> V \<and>
      (\<forall>u\<in>set acc. set (navigation g u) \<subseteq> V) \<and>
      open_ok g V {} stack \<and> post_ordered g acc \<and>
      fst ` set stack \<union> set acc \<subseteq> reached g R \<and> R \<subseteq> V \<union> fst ` set stack)"

lemma post_inv_marker:
  assumes inv: "post_inv g R ((node, True) # stack) V acc"
  shows "post_inv g R stack V (acc @ [node])"
proof -
  have op: "open_ok g V {node} stack" and nav: "set (navigation g node) \<subseteq> V"
    and V: "V \<subseteq> set acc \<union> insert node (set (markers stack))" "node \<in> V"
    using inv by (simp_all add: post_inv_def)
  have "open_ok g V {} stack" by (rule open_ok_shrink [OF op]) (simp_all add: V(2))
  moreover have "post_ordered g (acc @ [node])"
  proof (rule post_ordered_snoc)
    show "post_ordered g acc" using inv by (simp add: post_inv_def)
    show "\<forall>w\<in>set (navigation g node). w \<in> set acc \<or> (w, node) \<in> (nav_rel g)\<^sup>*"
      using nav V(1) open_ok_reach [OF op, of _ node] by (fastforce simp: markers_iff)
  qed
  ultimately show ?thesis using inv by (auto simp: post_inv_def)
qed

lemma post_inv_visited:
  assumes inv: "post_inv g R ((node, False) # stack) V acc" and vis: "node \<in> V"
  shows "post_inv g R stack V acc"
proof -
  have "open_ok g V {node} stack" using inv by (simp add: post_inv_def)
  then have "open_ok g V {} stack" by (rule open_ok_shrink) (simp_all add: vis)
  with inv vis show ?thesis by (auto simp: post_inv_def)
qed

lemma post_inv_visit:
  assumes inv: "post_inv g R ((node, False) # stack) V acc" and new: "node \<notin> V"
  shows "post_inv g R (map (\<lambda>n. (n, False)) (navigation g node) @ (node, True) # stack)
           (insert node V) acc"
proof -
  have op: "open_ok g V {node} stack" using inv by (simp add: post_inv_def)
  have "open_ok g V (insert node (set (navigation g node))) stack"
    by (rule open_ok_grow [OF op]) (auto intro: nav_relI)
  then have "open_ok g (insert node V) (insert node (set (navigation g node))) stack"
    by (rule open_ok_shrink) auto
  then have "open_ok g (insert node V) {}
      (map (\<lambda>n. (n, False)) (navigation g node) @ (node, True) # stack)"
    by (auto intro: nav_relI)
  moreover have "set (navigation g node) \<subseteq> reached g R"
    using inv by (auto simp: post_inv_def intro: reached_step)
  moreover have "fst ` set (map (\<lambda>n. (n, False)) ns @ stack') = set ns \<union> fst ` set stack'"
    for ns :: "node_id list" and stack'
    by (simp add: image_Un image_image)
  ultimately show ?thesis using inv new unfolding post_inv_def by auto
qed

lemma post_order_dfs_inv:
  "post_inv g R stack {u. dict_has visited u} acc \<Longrightarrow>
   post_order_dfs g stack visited acc = (visited', acc') \<Longrightarrow>
   post_inv g R [] {u. dict_has visited' u} acc'"
proof (induction g stack visited acc rule: post_order_dfs.induct)
  case (2 g node is_post stack visited acc)
  have "{u. dict_has (dict_set node True visited) u} = insert node {u. dict_has visited u}" by auto
  with 2 show ?case
    by (cases is_post; cases "dict_has visited node")
       (auto dest: post_inv_marker post_inv_visited post_inv_visit)
qed simp

text \<open>The pre-order loop emits a node when it visits it.\<close>

definition pre_inv ::
  "('gl, 'n, 'e) graph \<Rightarrow> node_id set \<Rightarrow> node_id list \<Rightarrow> (node_id, bool) dict \<Rightarrow> node_id list \<Rightarrow> bool" where
  "pre_inv g R stack visited acc =
     (distinct acc \<and> (\<forall>u. dict_has visited u \<longleftrightarrow> u \<in> set acc) \<and>
      (\<forall>u\<in>set acc. set (navigation g u) \<subseteq> set acc \<union> set stack) \<and>
      set acc \<union> set stack \<subseteq> reached g R \<and> R \<subseteq> set acc \<union> set stack)"

lemma pre_order_dfs_inv:
  "pre_inv g R stack visited acc \<Longrightarrow> pre_order_dfs g stack visited acc = (visited', acc') \<Longrightarrow>
   pre_inv g R [] visited' acc'"
proof (induction g stack visited acc rule: pre_order_dfs.induct)
  case (2 g node stack visited acc)
  show ?case
  proof (cases "dict_has visited node")
    case True
    then have "pre_inv g R stack visited acc" using "2.prems"(1) by (auto simp: pre_inv_def)
    with 2 True show ?thesis by simp
  next
    case False
    have "set (navigation g node) \<subseteq> reached g R"
      using "2.prems"(1) by (auto simp: pre_inv_def intro: reached_step)
    then have "pre_inv g R (navigation g node @ stack) (dict_set node True visited) (acc @ [node])"
      using "2.prems"(1) False by (auto simp: pre_inv_def)
    with 2 False show ?thesis by simp
  qed
qed simp

section \<open>Whole traversals\<close>

lemma post_inv_final:
  assumes "post_inv g R [] V acc"
  shows "distinct acc" and "set acc = reached g R" and "post_ordered g acc"
proof -
  have "V = set acc" using assms by (auto simp: post_inv_def)
  with assms show "set acc = reached g R"
    by (intro reached_closed) (auto simp: post_inv_def)
qed (use assms in \<open>auto simp: post_inv_def\<close>)

lemma pre_inv_final:
  assumes "pre_inv g R [] visited acc"
  shows "distinct acc" and "set acc = reached g R"
proof -
  show "set acc = reached g R"
    using assms by (intro reached_closed) (auto simp: pre_inv_def)
qed (use assms in \<open>auto simp: pre_inv_def\<close>)

lemma post_inv_enter: "post_inv g R [] V acc \<Longrightarrow> post_inv g (insert v R) [(v, False)] V acc"
  using reached_mono [OF subset_insertI, of g R v] reached_root [of v "insert v R" g]
  by (auto simp: post_inv_def)

lemma pre_inv_enter: "pre_inv g R [] visited acc \<Longrightarrow> pre_inv g (insert v R) [v] visited acc"
  using reached_mono [OF subset_insertI, of g R v] reached_root [of v "insert v R" g]
  by (auto simp: pre_inv_def)

lemma dfs_entries_post:
  "post_inv g R [] {u. dict_has visited u} acc \<Longrightarrow>
   case find (\<lambda>v. \<not> has_node g v) vs of
     Some v \<Rightarrow> dfs_entries g ''post'' vs visited acc = Inl (NoSuchNode v)
   | None \<Rightarrow> \<exists>acc' V. dfs_entries g ''post'' vs visited acc = Inr acc' \<and> post_inv g (R \<union> set vs) [] V acc'"
proof (induction vs arbitrary: R visited acc)
  case (Cons v vs)
  obtain visited' acc' where run: "post_order_dfs g [(v, False)] visited acc = (visited', acc')"
    by fastforce
  have "post_inv g (insert v R) [] {u. dict_has visited' u} acc'"
    using post_order_dfs_inv [OF post_inv_enter [OF Cons.prems] run] .
  note IH = Cons.IH [OF this]
  show ?case
    using IH run by (cases "has_node g v"; cases "find (\<lambda>v. \<not> has_node g v) vs") simp_all
qed auto

lemma dfs_entries_pre:
  "pre_inv g R [] visited acc \<Longrightarrow> order \<noteq> ''post'' \<Longrightarrow>
   case find (\<lambda>v. \<not> has_node g v) vs of
     Some v \<Rightarrow> dfs_entries g order vs visited acc = Inl (NoSuchNode v)
   | None \<Rightarrow> \<exists>acc' visited'. dfs_entries g order vs visited acc = Inr acc' \<and>
       pre_inv g (R \<union> set vs) [] visited' acc'"
proof (induction vs arbitrary: R visited acc)
  case (Cons v vs)
  obtain visited' acc' where run: "pre_order_dfs g [v] visited acc = (visited', acc')"
    by fastforce
  note IH = Cons.IH [OF pre_order_dfs_inv [OF pre_inv_enter [OF Cons.prems(1)] run] Cons.prems(2)]
  show ?case
    using IH run Cons.prems(2)
    by (cases "has_node g v"; cases "find (\<lambda>v. \<not> has_node g v) vs") simp_all
qed auto

lemma dfs_post_result:
  assumes "\<forall>v\<in>set vs. has_node g v"
  obtains acc where "dfs g vs ''post'' = Inr acc" "distinct acc" "set acc = reached g (set vs)"
    "post_ordered g acc"
proof -
  have "post_inv g {} [] {u. dict_has [] u} []"
    by (simp add: post_inv_def post_ordered_def)
  moreover have "find (\<lambda>v. \<not> has_node g v) vs = None" using assms by (auto simp: find_None_iff)
  ultimately obtain acc V where "dfs g vs ''post'' = Inr acc" "post_inv g (set vs) [] V acc"
    using dfs_entries_post [of g "{}" "[]" "[]" vs] by (auto simp: dfs_def)
  with post_inv_final [of g "set vs" V acc] that show ?thesis by blast
qed

lemma post_ordered_acyclic:
  assumes "post_ordered g acc" and "acyclic (nav_rel g)" and "u \<in> set acc" and "w \<in> set (navigation g u)"
  shows "\<exists>xs ys. acc = xs @ u # ys \<and> w \<in> set xs"
proof -
  from assms(3) obtain xs ys where acc: "acc = xs @ u # ys" by (auto dest: split_list)
  have "(w, u) \<notin> (nav_rel g)\<^sup>*"
  proof
    assume "(w, u) \<in> (nav_rel g)\<^sup>*"
    with nav_relI [OF assms(4)] have "(u, u) \<in> (nav_rel g)\<^sup>+" by (rule rtrancl_into_trancl2)
    with assms(2) show False by (simp add: acyclic_def)
  qed
  with assms(1,4) acc have "w \<in> set xs" unfolding post_ordered_def by blast
  with acc show ?thesis by blast
qed

section \<open>Properties\<close>

text \<open>
  \<open>dfs\<close> returns on every graph, cyclic or not: it raises for the first entry that is not a
  node, and otherwise lists every node reachable from the entries exactly once.
\<close>

theorem dfs_lists_reachable:
  "case find (\<lambda>v. \<not> has_node g v) vs of
     Some v \<Rightarrow> dfs g vs order = Inl (NoSuchNode v)
   | None \<Rightarrow> \<exists>acc. dfs g vs order = Inr acc \<and> distinct acc \<and>
       set acc = {u. \<exists>v\<in>set vs. (v, u) \<in> (nav_rel g)\<^sup>*}"
proof (cases "order = ''post''")
  case True
  have "post_inv g {} [] {u. dict_has [] u} []" by (simp add: post_inv_def post_ordered_def)
  from dfs_entries_post [OF this, of vs] True post_inv_final show ?thesis
    by (fastforce simp: dfs_def reached_def split: option.splits)
next
  case False
  have "pre_inv g {} [] [] []" by (simp add: pre_inv_def)
  from dfs_entries_pre [OF this False, of vs] pre_inv_final show ?thesis
    by (fastforce simp: dfs_def reached_def split: option.splits)
qed

text \<open>
  C28: On a graph without cycles \<open>postorder\<close> of known entries is a reverse topological order:
  every reachable node is listed, after all its neighbours.
\<close>

theorem postorder_reverse_topological:
  assumes "acyclic (nav_rel g)" and "\<forall>v\<in>set vs. has_node g v"
    and "u \<in> reached g (set vs)" and "w \<in> set (navigation g u)"
  shows "distinct (postorder g vs) \<and> (\<exists>xs ys. postorder g vs = xs @ u # ys \<and> w \<in> set xs)"
proof -
  from dfs_post_result [OF assms(2)] obtain acc where acc: "dfs g vs ''post'' = Inr acc"
    "distinct acc" "set acc = reached g (set vs)" "post_ordered g acc" .
  with post_ordered_acyclic [OF acc(4) assms(1) _ assms(4)] assms(3) show ?thesis
    by (simp add: postorder_def)
qed

definition ex_path :: "(unit, nat, nat) graph" where
  "ex_path = (case set_path (new_graph None None None) [ga, gb] (Some 7) of
                Inr g \<Rightarrow> g | Inl _ \<Rightarrow> new_graph None None None)"

theorem postorder_reverse_topological_witness:
  "\<exists>xs ys. postorder ex_path [ga] = xs @ ga # ys \<and> gb \<in> set xs"
proof -
  have tbl: "sucs_map ex_path = [(ga, [(gb, 1)]), (gb, [])]" "is_directed ex_path" "has_node ex_path ga"
    by code_simp+
  have nav: "navigation ex_path v = (if v = ga then [gb] else [])" for v
    using tbl(1,2) by (simp add: navigation_def successors_def ohm_keys_def)
  have "nav_rel ex_path = {(ga, gb)}" by (auto simp: nav_rel_def nav split: if_splits)
  moreover have "acyclic ({} :: (node_id \<times> node_id) set)" by (simp add: acyclic_def)
  ultimately have "acyclic (nav_rel ex_path)" by (simp add: acyclic_insert ga_def gb_def)
  from postorder_reverse_topological [OF this, of "[ga]" ga gb] tbl(3) show ?thesis
    by (simp add: nav reached_root)
qed

end
