(* ===== verification/Py_Strings.thy ===== *)
theory Py_Strings
  imports Prelude
begin

text \<open>
  The operations of Python's \<open>str\<close> and \<open>int\<close> that the modelled code uses, on strings of code
  points below 256.
\<close>

section \<open>Characters and stripping\<close>

definition code_point :: "char \<Rightarrow> nat" where
  "code_point c = of_char c"

text \<open>\<open>str.isspace\<close> of one character.\<close>

definition py_isspace :: "char \<Rightarrow> bool" where
  "py_isspace c = (let n = code_point c in (9 \<le> n \<and> n \<le> 13) \<or> (28 \<le> n \<and> n \<le> 32) \<or> n = 133 \<or> n = 160)"

definition py_strip :: "string \<Rightarrow> string" where
  "py_strip s = rev (dropWhile py_isspace (rev (dropWhile py_isspace s)))"

text \<open>\<open>str.lower\<close>: the letters of ASCII and of the Latin-1 block.\<close>

definition py_lower_char :: "char \<Rightarrow> char" where
  "py_lower_char c =
     (let n = code_point c
      in if (65 \<le> n \<and> n \<le> 90) \<or> (192 \<le> n \<and> n \<le> 222 \<and> n \<noteq> 215) then char_of (n + 32) else c)"

definition py_lower :: "string \<Rightarrow> string" where
  "py_lower s = map py_lower_char s"

text \<open>\<open>s.split(c)\<close> for a one-character separator; there is always at least one piece.\<close>

fun py_split :: "char \<Rightarrow> string \<Rightarrow> string list" where
  "py_split c [] = [[]]"
| "py_split c (x # xs) =
     (if x = c then [] # py_split c xs
      else (case py_split c xs of [] \<Rightarrow> [[x]] | w # ws \<Rightarrow> (x # w) # ws))"

text \<open>\<open>c.join(pieces)\<close>.\<close>

fun py_join :: "string \<Rightarrow> string list \<Rightarrow> string" where
  "py_join sep [] = []"
| "py_join sep [w] = w"
| "py_join sep (w # ws) = w @ sep @ py_join sep ws"

text \<open>\<open>needle in s\<close>.\<close>

fun py_in :: "string \<Rightarrow> string \<Rightarrow> bool" where
  "py_in needle [] = (needle = [])"
| "py_in needle (c # s) = (take (length needle) (c # s) = needle \<or> py_in needle s)"

definition py_startswith :: "string \<Rightarrow> string \<Rightarrow> bool" where
  "py_startswith s prefix = (take (length prefix) s = prefix)"

definition py_endswith :: "string \<Rightarrow> string \<Rightarrow> bool" where
  "py_endswith s suffix = (length suffix \<le> length s \<and> drop (length s - length suffix) s = suffix)"

definition py_removeprefix :: "string \<Rightarrow> string \<Rightarrow> string" where
  "py_removeprefix s prefix = (if py_startswith s prefix then drop (length prefix) s else s)"

section \<open>\<open>int(s)\<close>\<close>

definition is_digit :: "char \<Rightarrow> bool" where
  "is_digit c = (48 \<le> code_point c \<and> code_point c \<le> 57)"

text \<open>Digits with single underscores between them; \<open>prev\<close> says that the last one was a digit.\<close>

fun py_digits :: "bool \<Rightarrow> nat \<Rightarrow> string \<Rightarrow> nat option" where
  "py_digits prev acc [] = (if prev then Some acc else None)"
| "py_digits prev acc (c # s) =
     (if is_digit c then py_digits True (10 * acc + (code_point c - 48)) s
      else if c = CHR ''_'' \<and> prev then py_digits False acc s
      else None)"

text \<open>
  Blanks around the number are dropped (in a string of ASCII characters, only the ASCII ones);
  one sign; more than 4300 digits are refused. \<^term>\<open>None\<close> is the \<open>ValueError\<close>.
\<close>

definition int_blank :: "string \<Rightarrow> char \<Rightarrow> bool" where
  "int_blank s c =
     (if list_all (\<lambda>d. code_point d < 128) s
      then (9 \<le> code_point c \<and> code_point c \<le> 13) \<or> code_point c = 32
      else py_isspace c)"

definition py_int :: "string \<Rightarrow> int option" where
  "py_int s =
     (let body = rev (dropWhile (int_blank s) (rev (dropWhile (int_blank s) s)));
          digits = (case body of c # r \<Rightarrow> (if c = CHR ''+'' \<or> c = CHR ''-'' then r else body) | [] \<Rightarrow> [])
      in if length (filter is_digit digits) > 4300 then None
         else (case py_digits False 0 digits of
                 None \<Rightarrow> None
               | Some n \<Rightarrow> Some (if take 1 body = ''-'' then - int n else int n)))"

text \<open>\<open>str(n)\<close>.\<close>

fun py_str_nat :: "nat \<Rightarrow> string" where
  "py_str_nat n =
     (if n < 10 then [char_of (48 + n)] else py_str_nat (n div 10) @ [char_of (48 + n mod 10)])"

declare py_str_nat.simps [simp del]

definition py_str_int :: "int \<Rightarrow> string" where
  "py_str_int i = (if i < 0 then CHR ''-'' # py_str_nat (nat (- i)) else py_str_nat (nat i))"

text \<open>\<open>s.split(c, 1)\<close>: the head, and what follows the first separator if there is one.\<close>

definition py_split1 :: "char \<Rightarrow> string \<Rightarrow> string \<times> string option" where
  "py_split1 c s =
     (takeWhile (\<lambda>x. x \<noteq> c) s, case dropWhile (\<lambda>x. x \<noteq> c) s of [] \<Rightarrow> None | _ # rest \<Rightarrow> Some rest)"

section \<open>Facts\<close>

lemma py_split_not_Nil [simp]: "py_split c s \<noteq> []"
  by (induction s) (auto split: list.splits)

lemma py_split_no_sep: "w \<in> set (py_split c s) \<Longrightarrow> c \<notin> set w"
proof (induction s arbitrary: w)
  case (Cons x s)
  then show ?case by (cases "py_split c s") (auto split: if_splits)
qed simp

lemma py_join_Cons: "ws \<noteq> [] \<Longrightarrow> py_join sep (w # ws) = w @ sep @ py_join sep ws"
  by (cases ws) auto

lemma py_join_split: "py_join [c] (py_split c s) = s"
proof (induction s)
  case (Cons x s)
  then show ?case
    by (cases "py_split c s"; cases "tl (py_split c s)") (auto simp: py_join_Cons)
qed simp

lemma py_split_single: "c \<notin> set s \<Longrightarrow> py_split c s = [s]"
  by (induction s) auto

lemma py_split_append: "c \<notin> set w \<Longrightarrow> py_split c (w @ c # s) = w # py_split c s"
  by (induction w) auto

lemma py_split_join: "ws \<noteq> [] \<Longrightarrow> (\<And>w. w \<in> set ws \<Longrightarrow> c \<notin> set w) \<Longrightarrow> py_split c (py_join [c] ws) = ws"
  by (induction "[c]" ws rule: py_join.induct) (auto simp: py_split_single py_split_append)

lemma py_strip_idem [simp]: "py_strip (py_strip s) = py_strip s"
proof -
  have *: "dropWhile P (rev (dropWhile P (rev (dropWhile P s)))) = rev (dropWhile P (rev (dropWhile P s)))"
    for P :: "char \<Rightarrow> bool"
  proof (cases "rev (dropWhile P (rev (dropWhile P s)))")
    case (Cons x xs)
    have "\<exists>t. dropWhile P s = rev (dropWhile P (rev (dropWhile P s))) @ t"
      by (metis rev_append rev_rev_ident takeWhile_dropWhile_id)
    with Cons have "\<exists>t. dropWhile P s = x # t" by auto
    then have "\<not> P x" by (metis dropWhile_eq_Cons_conv)
    with Cons show ?thesis by simp
  next
    case Nil
    then show ?thesis by (metis dropWhile.simps(1))
  qed
  show ?thesis unfolding py_strip_def * by simp
qed

lemma py_startswith_append [simp]: "py_startswith (p @ s) p"
  by (simp add: py_startswith_def)

lemma py_removeprefix_append [simp]: "py_removeprefix (p @ s) p = s"
  by (simp add: py_removeprefix_def)

lemma py_startswithD: "py_startswith s p \<Longrightarrow> s = p @ drop (length p) s"
  unfolding py_startswith_def by (metis append_take_drop_id)

lemma py_split1_append [simp]: "c \<notin> set h \<Longrightarrow> py_split1 c (h @ c # s) = (h, Some s)"
  by (induction h) (auto simp: py_split1_def)

lemma py_split1_none [simp]: "c \<notin> set h \<Longrightarrow> py_split1 c h = (h, None)"
  by (induction h) (auto simp: py_split1_def)

subsection \<open>Printing and reading a number\<close>

lemma code_point_digit [simp]: "d < 10 \<Longrightarrow> code_point (char_of (48 + d)) = 48 + d"
  by (simp add: code_point_def)

lemma py_str_nat_digits: "c \<in> set (py_str_nat n) \<Longrightarrow> is_digit c"
proof (induction n rule: py_str_nat.induct)
  case (1 n)
  then show ?case
    by (subst (asm) (2) py_str_nat.simps) (auto simp: is_digit_def split: if_splits)
qed

lemma py_str_nat_not_Nil [simp]: "py_str_nat n \<noteq> []"
  by (subst py_str_nat.simps) simp

lemma py_digits_all:
  "\<forall>c\<in>set s. is_digit c \<Longrightarrow> s \<noteq> [] \<or> prev \<Longrightarrow>
   py_digits prev acc s = Some (foldl (\<lambda>a c. 10 * a + (code_point c - 48)) acc s)"
  by (induction s arbitrary: prev acc) auto

lemma foldl_py_str_nat: "foldl (\<lambda>a c. 10 * a + (code_point c - 48)) 0 (py_str_nat n) = n"
proof (induction n rule: py_str_nat.induct)
  case (1 n)
  then show ?case by (subst py_str_nat.simps) simp
qed

lemma py_str_nat_inject [simp]: "py_str_nat m = py_str_nat n \<longleftrightarrow> m = n"
  by (metis foldl_py_str_nat)

lemma py_str_nat_no_sign: "py_str_nat n \<noteq> CHR ''-'' # s"
proof
  assume "py_str_nat n = CHR ''-'' # s"
  then have "is_digit (CHR ''-'')" using py_str_nat_digits [of "CHR ''-''" n] by simp
  then show False by (simp add: is_digit_def code_point_def)
qed

lemma py_str_int_inject [simp]: "py_str_int i = py_str_int j \<longleftrightarrow> i = j"
  using py_str_nat_no_sign py_str_nat_no_sign [symmetric] by (auto simp: py_str_int_def)

lemma length_py_str_nat: "n < 10 ^ k \<Longrightarrow> 0 < k \<Longrightarrow> length (py_str_nat n) \<le> k"
proof (induction k arbitrary: n)
  case (Suc k)
  show ?case
  proof (cases "n < 10")
    case False
    then have "n div 10 < 10 ^ k" and "0 < k" using Suc.prems(1) by (cases k; simp)+
    with Suc.IH [of "n div 10"] False show ?thesis by (subst py_str_nat.simps) simp
  qed (subst py_str_nat.simps, simp)
qed simp

lemma digit_not_sign: "is_digit c \<Longrightarrow> c \<noteq> CHR ''+'' \<and> c \<noteq> CHR ''-'' \<and> \<not> int_blank s c"
  by (auto simp: is_digit_def code_point_def int_blank_def py_isspace_def Let_def)

lemma py_int_str_nat:
  assumes "n < 10 ^ k" and "0 < k" and "k \<le> 4300"
  shows "py_int (py_str_nat n) = Some (int n)"
proof -
  let ?s = "py_str_nat n"
  have dig: "\<forall>c\<in>set ?s. is_digit c" using py_str_nat_digits by blast
  have keep: "dropWhile (int_blank ?s) t = t" if "\<forall>c\<in>set t. is_digit c" for t
    using that digit_not_sign by (cases t) auto
  have body: "rev (dropWhile (int_blank ?s) (rev (dropWhile (int_blank ?s) ?s))) = ?s"
    using keep [of ?s] keep [of "rev ?s"] dig by simp
  obtain c r where s: "?s = c # r" by (cases ?s) auto
  have c: "c \<noteq> CHR ''+''" "c \<noteq> CHR ''-''" using dig s digit_not_sign [of c] by auto
  have "length (filter is_digit ?s) \<le> 4300"
    using length_filter_le [of is_digit ?s] length_py_str_nat [OF assms(1,2)] assms(3) by linarith
  moreover have "py_digits False 0 ?s = Some n"
    using py_digits_all [OF dig, of False 0] foldl_py_str_nat [of n] by simp
  moreover have "(case ?s of [] \<Rightarrow> [] | c # r \<Rightarrow> if c = CHR ''+'' \<or> c = CHR ''-'' then r else ?s) = ?s"
    using c by (simp add: s)
  moreover have "take 1 ?s \<noteq> ''-''" using c by (simp add: s)
  ultimately show ?thesis unfolding py_int_def Let_def body by simp
qed

end
