(* ===== verification/Dagre_Labels.thy ===== *)
theory Dagre_Labels
  imports Graph_Properties Py_Strings
begin

text \<open>
  The labels that the layered layout keeps in its graphs (\<open>dagre/lib.py\<close>), the counter behind
  \<open>unique_id\<close> of \<open>dagre/layout/util.py\<close>, and the edge relation of a graph. Lengths, weights and
  coordinates are rationals.
\<close>

datatype border_type_name = BorderLeft | BorderRight

record edge_point =
  ep_x :: rat
  ep_y :: rat

record graph_edge =
  ge_forward_name :: "string option"
  ge_reversed :: "bool option"
  ge_minlen :: "rat option"
  ge_weight :: "rat option"
  ge_width :: "rat option"
  ge_height :: "rat option"
  ge_label_rank :: "int option"
  ge_labeloffset :: "rat option"
  ge_labelpos :: "string option"
  ge_nesting_edge :: "bool option"
  ge_cutvalue :: "rat option"
  ge_points :: "edge_point list option"
  ge_x :: rat
  ge_y :: rat

definition default_graph_edge :: graph_edge where
  "default_graph_edge =
     \<lparr>ge_forward_name = None, ge_reversed = None, ge_minlen = Some 1, ge_weight = Some 1,
      ge_width = Some 0, ge_height = Some 0, ge_label_rank = None, ge_labeloffset = Some 0,
      ge_labelpos = Some ''r'', ge_nesting_edge = None, ge_cutvalue = None, ge_points = None,
      ge_x = 0, ge_y = 0\<rparr>"

record graph_config =
  gc_width :: rat
  gc_height :: rat
  gc_nodesep :: "rat option"
  gc_edgesep :: "rat option"
  gc_ranksep :: "rat option"
  gc_marginx :: "rat option"
  gc_marginy :: "rat option"
  gc_rankdir :: "string option"
  gc_acyclicer :: "string option"
  gc_ranker :: "string option"
  gc_align :: "string option"
  gc_nesting_root :: "string option"
  gc_root :: "string option"
  gc_node_rank_factor :: "rat option"
  gc_dummy_chains :: "string list option"

definition default_graph_config :: graph_config where
  "default_graph_config =
     \<lparr>gc_width = 0, gc_height = 0, gc_nodesep = Some 50, gc_edgesep = Some 20,
      gc_ranksep = Some 50, gc_marginx = None, gc_marginy = None, gc_rankdir = Some ''tb'',
      gc_acyclicer = None, gc_ranker = None, gc_align = None, gc_nesting_root = None,
      gc_root = None, gc_node_rank_factor = None, gc_dummy_chains = None\<rparr>"

text \<open>
  The node label. The fields are those of the class in their order; \<open>gn_class\<close> is \<open>class_\<close>,
  \<open>gn_border_left_node\<close> and \<open>gn_border_right_node\<close> are \<open>border_left_\<close> and \<open>border_right_\<close>.
\<close>

record graph_node =
  gn_x :: rat
  gn_y :: rat
  gn_width :: rat
  gn_height :: rat
  gn_class :: "string option"
  gn_label :: "graph_edge option"
  gn_padding :: "rat option"
  gn_padding_x :: "rat option"
  gn_padding_y :: "rat option"
  gn_rx :: "rat option"
  gn_ry :: "rat option"
  gn_shape :: "string option"
  gn_dummy :: "string option"
  gn_rank :: "int option"
  gn_min_rank :: "int option"
  gn_max_rank :: "int option"
  gn_order :: "int option"
  gn_border_top :: "string option"
  gn_border_bottom :: "string option"
  gn_border_left :: "(int, string) ordered_hashmap option"
  gn_border_right :: "(int, string) ordered_hashmap option"
  gn_border_left_node :: "string option"
  gn_border_right_node :: "string option"
  gn_low :: "int option"
  gn_lim :: "int option"
  gn_parent :: "string option"
  gn_e :: "edge option"
  gn_edge_label :: "graph_edge option"
  gn_edge_obj :: "edge option"
  gn_labelpos :: "string option"
  gn_border_type :: "border_type_name option"
  gn_self_edges :: "(edge \<times> graph_edge) list"

definition default_graph_node :: graph_node where
  "default_graph_node =
     \<lparr>gn_x = 0, gn_y = 0, gn_width = 0, gn_height = 0, gn_class = None, gn_label = None,
      gn_padding = None, gn_padding_x = None, gn_padding_y = None, gn_rx = None, gn_ry = None,
      gn_shape = None, gn_dummy = None, gn_rank = None, gn_min_rank = None, gn_max_rank = None,
      gn_order = None, gn_border_top = None, gn_border_bottom = None, gn_border_left = None,
      gn_border_right = None, gn_border_left_node = None, gn_border_right_node = None,
      gn_low = None, gn_lim = None, gn_parent = None, gn_e = None, gn_edge_label = None,
      gn_edge_obj = None, gn_labelpos = None, gn_border_type = None, gn_self_edges = []\<rparr>"

text \<open>The process-wide counter is threaded: \<open>unique_id\<close> answers the next number and advances.\<close>

definition unique_id :: "nat \<Rightarrow> nat \<times> nat" where
  "unique_id uid = (uid, uid + 1)"

text \<open>
  What a pass raises: a failed \<open>assert\<close>, an index outside a list, a division by
  zero, or an error of the graph. \<open>NotFinite\<close> is a pass that goes on with an infinite number, which has no
  rational.
\<close>

datatype layout_error = AssertionFailed | IndexFailed | DivisionFailed | NotFinite | GraphFailed graph_error

text \<open>\<open>out_edges(v, None) or []\<close>, as the passes call it.\<close>

definition out_list :: "('gl, 'n, 'e) graph \<Rightarrow> node_id \<Rightarrow> edge list" where
  "out_list g v = (case graph_out_edges g v None of None \<Rightarrow> [] | Some es \<Rightarrow> es)"

section \<open>The edges of a graph\<close>

definition edge_rel :: "('gl, 'n, 'e) graph \<Rightarrow> (node_id \<times> node_id) set" where
  "edge_rel g = (\<lambda>e. (edge_v e, edge_w e)) ` set (graph_edges g)"

lemma graph_edges_iff:
  assumes "graph_ok g"
  shows "e \<in> set (graph_edges g) \<longleftrightarrow> dict_get (edge_objs g) (edge_obj_to_id True e) = Some e"
proof -
  have ok: "dict_ok (edge_objs g)" using assms by (simp add: graph_ok_def edges_ok_def)
  show ?thesis
    unfolding graph_edges_def ohm_values_def dict_values_iff [OF ok]
    using graph_ok_edge(1) [OF assms] by blast
qed

lemma finite_out_list: "finite {v. out_list g v \<noteq> [] \<and> P v}"
proof (rule finite_subset)
  show "{v. out_list g v \<noteq> [] \<and> P v} \<subseteq> set (dict_keys (out_map g))"
    by (auto simp: out_list_def graph_out_edges_def dest!: dict_get_Some_mem split: option.splits
        intro: rev_image_eqI)
qed simp

lemma out_list_ok:
  assumes ok: "graph_ok g"
  shows "set (out_list g v) = {e \<in> set (graph_edges g). edge_v e = v}"
proof (cases "dict_has (nodes_map g) v")
  case True
  with ok obtain mo where mo: "dict_get (out_map g) v = Some mo"
    using graph_ok_lookup by metis
  have parts: "incidence_ok (out_map g) edge_v (edge_objs g)" "dict_ok (edge_objs g)"
    using ok by (simp_all add: graph_ok_def edges_ok_def)
  from incidence_values [OF parts mo] mo show ?thesis
    by (simp add: out_list_def graph_out_edges_def graph_edges_def ohm_values_def)
next
  case False
  then have "dict_get (out_map g) v = None"
    using ok by (simp add: graph_ok_def same_keys_def flip: not_dict_has)
  moreover have "edge_v e \<noteq> v" if "e \<in> set (graph_edges g)" for e
    using that False graph_ok_edge(2) [OF ok] by (auto simp: graph_edges_iff [OF ok])
  ultimately show ?thesis by (auto simp: out_list_def graph_out_edges_def)
qed

lemma edge_ends_known:
  assumes "graph_ok g" and "e \<in> set (graph_edges g)"
  shows "edge_v e \<in> set (graph_nodes g)" and "edge_w e \<in> set (graph_nodes g)"
  using assms graph_ok_edge(2,3) [OF assms(1)]
  by (auto simp: graph_edges_iff graph_nodes_def ohm_keys_def dict_has_iff simp del: set_map)

end
