(* ===== verification/Cross_Count.thy ===== *)
theory Cross_Count
  imports Dagre_Labels
begin

text \<open>
  The weighted crossing count of \<open>dagre/layout/order/cross_count.py\<close>. The code adds the
  weights of the edges seen so far into a complete binary tree stored in a list and reads the
  inversions off on the way from a leaf to the root. The theorem says that this is the sum of
  the weight products over all pairs of crossing edges.
\<close>

section \<open>The code\<close>

definition south_positions :: "node_id list \<Rightarrow> (node_id, nat) dict" where
  "south_positions south = foldl (\<lambda>d (i, v). dict_set v i d) [] (zip [0..<length south] south)"

definition out_pairs ::
  "('gl, 'n, 'a graph_edge_scheme) graph \<Rightarrow> (node_id, nat) dict \<Rightarrow> node_id \<Rightarrow> (nat \<times> rat) list" where
  "out_pairs g south_pos v =
     sort_key fst
       (concat (map (\<lambda>e. case dict_get south_pos (edge_w e) of
                        None \<Rightarrow> []
                      | Some pos \<Rightarrow>
                          [(pos, case edge_label_with_obj g e of
                                   None \<Rightarrow> 0
                                 | Some l \<Rightarrow> (case ge_weight l of None \<Rightarrow> 0 | Some w \<Rightarrow> w))])
             (case graph_out_edges g v None of None \<Rightarrow> [] | Some es \<Rightarrow> es)))"

definition south_entries ::
  "('gl, 'n, 'a graph_edge_scheme) graph \<Rightarrow> node_id list \<Rightarrow> node_id list \<Rightarrow> (nat \<times> rat) list" where
  "south_entries g north south = concat (map (out_pairs g (south_positions south)) north)"

text \<open>The doubling loop; the guard \<open>0 < f\<close> holds throughout, as it starts from 1.\<close>

function first_power :: "nat \<Rightarrow> nat \<Rightarrow> nat" where
  "first_power n f = (if 0 < f \<and> f < n then first_power n (2 * f) else f)"
  by auto

termination
  by (relation "measure (\<lambda>(n, f). n - f)") auto

text \<open>The walk from a leaf to the root.\<close>

function climb :: "rat list \<Rightarrow> nat \<Rightarrow> rat \<Rightarrow> rat \<Rightarrow> rat list \<times> rat" where
  "climb tree index weight weight_sum =
     (if 0 < index
      then (let weight_sum' = (if odd index then weight_sum + tree ! (index + 1) else weight_sum);
                index' = (index - 1) div 2
            in climb (tree[index' := tree ! index' + weight]) index' weight weight_sum')
      else (tree, weight_sum))"
  by auto

termination
  by (relation "measure (\<lambda>(tree, index, weight, weight_sum). index)") auto

declare first_power.simps [simp del] climb.simps [simp del]

fun accumulate :: "nat \<Rightarrow> rat list \<Rightarrow> rat \<Rightarrow> (nat \<times> rat) list \<Rightarrow> rat" where
  "accumulate first_index tree cc [] = cc"
| "accumulate first_index tree cc ((pos, weight) # entries) =
     (let index = pos + first_index;
          (tree', weight_sum) = climb (tree[index := tree ! index + weight]) index weight 0
      in accumulate first_index tree' (cc + weight * weight_sum) entries)"

definition two_layer_cross_count ::
  "('gl, 'n, 'a graph_edge_scheme) graph \<Rightarrow> node_id list \<Rightarrow> node_id list \<Rightarrow> rat" where
  "two_layer_cross_count g north south =
     (let first_index = first_power (length south) 1;
          tree_size = 2 * first_index - 1
      in accumulate (first_index - 1) (replicate tree_size 0) 0 (south_entries g north south))"

definition cross_count ::
  "('gl, 'n, 'a graph_edge_scheme) graph \<Rightarrow> node_id list list \<Rightarrow> rat" where
  "cross_count g layering =
     foldl (\<lambda>cc i. cc + two_layer_cross_count g (layering ! (i - 1)) (layering ! i)) 0
       [1..<length layering]"

section \<open>The tree holds the weights below each node\<close>

lemma first_power_spec: "\<exists>d. first_power n (2 ^ k) = 2 ^ d \<and> n \<le> first_power n (2 ^ k)"
proof (induction "n - 2 ^ k" arbitrary: k rule: less_induct)
  case less
  show ?case
  proof (cases "2 ^ k < n")
    case True
    have "n - 2 ^ Suc k < n - 2 ^ k" using True by (simp add: diff_less_mono2)
    moreover have "first_power n (2 ^ k) = first_power n (2 ^ Suc k)"
      using True by (subst first_power.simps) simp
    ultimately show ?thesis using less.hyps [of "Suc k"] by metis
  next
    case False
    then show ?thesis by (subst first_power.simps) (auto simp: first_power.simps [of n "2 ^ k"])
  qed
qed

definition wsum :: "(nat \<Rightarrow> bool) \<Rightarrow> (nat \<times> rat) list \<Rightarrow> rat" where
  "wsum P es = sum_list (map (\<lambda>(p, w). if P p then w else 0) es)"

lemma wsum_simps [simp]:
  "wsum P [] = 0" "wsum P ((p, w) # es) = (if P p then w else 0) + wsum P es"
  "wsum P (es @ es') = wsum P es + wsum P es'"
  by (simp_all add: wsum_def)

lemma wsum_cong: "\<forall>(p, w)\<in>set es. P p = Q p \<Longrightarrow> wsum P es = wsum Q es"
  by (induction es) auto

lemma wsum_False [simp]: "wsum (\<lambda>_. False) es = 0"
  by (induction es) auto

lemma wsum_disj:
  "(\<And>p. P p \<longleftrightarrow> Q p \<or> R p) \<Longrightarrow> (\<And>p. \<not> (Q p \<and> R p)) \<Longrightarrow> wsum P es = wsum Q es + wsum R es"
  by (induction es) auto

text \<open>
  Nodes are numbered from 1 here, as in a heap: node \<open>k\<close> of height \<open>h\<close> in a tree of depth
  \<open>d\<close> has \<open>2 ^ (d - h) \<le> k < 2 ^ (d - h + 1)\<close> and is entry \<open>k - 1\<close> of the list. The entry for
  position \<open>p\<close> sits below the nodes \<open>(p + 2 ^ d) div 2 ^ h\<close>.
\<close>

definition at_height :: "nat \<Rightarrow> nat \<Rightarrow> nat \<Rightarrow> bool" where
  "at_height d h k = (h \<le> d \<and> 2 ^ (d - h) \<le> k \<and> k < 2 ^ (d - h + 1))"

definition node_above :: "nat \<Rightarrow> nat \<Rightarrow> nat \<Rightarrow> nat" where
  "node_above d h p = (p + 2 ^ d) div 2 ^ h"

definition tree_ok :: "nat \<Rightarrow> nat \<Rightarrow> nat \<Rightarrow> rat \<Rightarrow> (nat \<times> rat) list \<Rightarrow> rat list \<Rightarrow> bool" where
  "tree_ok d up pos weight es tree =
     (length tree = 2 ^ (d + 1) - 1 \<and>
      (\<forall>h k. at_height d h k \<longrightarrow>
         tree ! (k - 1) = wsum (\<lambda>p. node_above d h p = k) es +
           (if h < up \<and> node_above d h pos = k then weight else 0)))"

lemma above_step: "node_above d (Suc h) p = node_above d h p div 2"
  by (simp add: node_above_def mult.commute flip: div_mult2_eq)

lemma above_at_height:
  assumes "p < 2 ^ d" and "h \<le> d"
  shows "at_height d h (node_above d h p)"
proof -
  have split: "(2::nat) ^ d = 2 ^ (d - h) * 2 ^ h" using assms(2) by (simp flip: power_add)
  have "2 ^ (d - h) \<le> node_above d h p"
    unfolding node_above_def split by simp
  moreover have "p + 2 ^ d < 2 ^ (d - h + 1) * 2 ^ h"
    using assms(1) split by (simp add: mult.commute)
  then have "node_above d h p < 2 ^ (d - h + 1)"
    unfolding node_above_def by (rule less_mult_imp_div_less)
  ultimately show ?thesis using assms(2) by (simp add: at_height_def)
qed

lemma at_height_unique:
  assumes "at_height d h k" and "at_height d h' k"
  shows "h = h'"
proof -
  have "\<not> at_height d i k" if "at_height d j k" "i < j" for i j
  proof
    assume "at_height d i k"
    with that have "d - j + 1 \<le> d - i" and k: "2 ^ (d - i) \<le> k" "k < 2 ^ (d - j + 1)"
      by (auto simp: at_height_def)
    then have "(2::nat) ^ (d - j + 1) \<le> 2 ^ (d - i)" by (intro power_increasing) auto
    with k show False by linarith
  qed
  with assms show ?thesis by (meson linorder_neqE_nat)
qed

lemma at_height_pos: "at_height d h k \<Longrightarrow> 0 < k"
  unfolding at_height_def by (metis less_le_trans zero_less_numeral zero_less_power)

lemma at_height_less: "at_height d h k \<Longrightarrow> k - 1 < 2 ^ (d + 1) - 1"
proof -
  assume k: "at_height d h k"
  then have "k < 2 ^ (d - h + 1)" by (simp add: at_height_def)
  also have "(2::nat) ^ (d - h + 1) \<le> 2 ^ (d + 1)" by (intro power_increasing) auto
  finally show ?thesis using at_height_pos [OF k] by linarith
qed

lemma tree_ok_update:
  assumes ok: "tree_ok d h pos weight es tree" and h: "h \<le> d" and pos: "pos < 2 ^ d"
  defines "i \<equiv> node_above d h pos - 1"
  shows "tree_ok d (Suc h) pos weight es (tree[i := tree ! i + weight])"
  unfolding tree_ok_def
proof (intro conjI allI impI)
  let ?j = "node_above d h pos"
  have j: "at_height d h ?j" using pos h by (rule above_at_height)
  have len: "length tree = 2 ^ (d + 1) - 1" using ok by (simp add: tree_ok_def)
  then show "length (tree[i := tree ! i + weight]) = 2 ^ (d + 1) - 1" by simp
  have inside: "i < length tree" using at_height_less [OF j] by (simp add: len i_def)
  fix h' k
  assume k: "at_height d h' k"
  have old: "tree ! (k - 1) = wsum (\<lambda>p. node_above d h' p = k) es +
      (if h' < h \<and> node_above d h' pos = k then weight else 0)"
    using ok k by (simp add: tree_ok_def)
  show "tree[i := tree ! i + weight] ! (k - 1) = wsum (\<lambda>p. node_above d h' p = k) es +
      (if h' < Suc h \<and> node_above d h' pos = k then weight else 0)"
  proof (cases "k = ?j")
    case True
    then have "h' = h" using at_height_unique [OF k, of h] j by simp
    with True old inside show ?thesis by (simp add: i_def)
  next
    case False
    then have "k - 1 \<noteq> i" using at_height_pos [OF k] at_height_pos [OF j] by (simp add: i_def)
    moreover have "\<not> (h' = h \<and> node_above d h' pos = k)" using False by auto
    ultimately show ?thesis using old by (auto simp: less_Suc_eq)
  qed
qed

lemma tree_ok_extend:
  "tree_ok d (Suc d) pos weight es tree \<Longrightarrow> tree_ok d 0 pos' weight' (es @ [(pos, weight)]) tree"
  by (auto simp: tree_ok_def at_height_def)

text \<open>The walk adds up the weights strictly to the right of the node it stands on.\<close>

lemma climb_spec:
  assumes "tree_ok d (Suc h) pos weight es tree" and "h \<le> d" and "pos < 2 ^ d"
    and "\<forall>(p, w)\<in>set es. p < 2 ^ d"
    and "climb tree (node_above d h pos - 1) weight s = (tree', s')"
  shows "tree_ok d (Suc d) pos weight es tree' \<and> s' = s + wsum (\<lambda>p. node_above d h pos < node_above d h p) es"
  using assms
proof (induction "d - h" arbitrary: h tree s)
  case 0
  then have h: "h = d" by simp
  have top: "node_above d d p = 1" if "p < 2 ^ d" for p
    using above_at_height [OF that, of d] by (simp add: at_height_def)
  have "wsum (\<lambda>p. node_above d h pos < node_above d h p) es = wsum (\<lambda>_. False) es"
    using "0.prems"(3,4) by (intro wsum_cong) (auto simp: h top)
  also have "\<dots> = 0" by simp
  finally show ?case
    using "0.prems"(1,3,5) by (simp add: h top climb.simps)
next
  case (Suc n)
  let ?j = "node_above d h pos"
  have h: "Suc h \<le> d" using Suc.hyps(2) by simp
  have j: "at_height d h ?j" using Suc.prems(3,2) by (rule above_at_height)
  moreover have "(2::nat) ^ 1 \<le> 2 ^ (d - h)" using h by (intro power_increasing) auto
  ultimately have j2: "2 \<le> ?j" by (simp add: at_height_def)
  have parent: "(?j - 1 - 1) div 2 = node_above d (Suc h) pos - 1"
    using j2 by (simp add: above_step)
  define s2 where "s2 = (if odd (?j - 1) then s + tree ! (?j - 1 + 1) else s)"
  define tree2 where "tree2 = tree[node_above d (Suc h) pos - 1 := tree ! (node_above d (Suc h) pos - 1) + weight]"
  have ok2: "tree_ok d (Suc (Suc h)) pos weight es tree2"
    unfolding tree2_def using Suc.prems(1) h Suc.prems(3) by (rule tree_ok_update)
  have run: "climb tree2 (node_above d (Suc h) pos - 1) weight s2 = (tree', s')"
  proof -
    have "Suc (?j - Suc 0) = ?j" using j2 by simp
    with Suc.prems(5) j2 parent show ?thesis
      by (simp add: climb.simps [of tree] Let_def s2_def tree2_def split: if_splits)
  qed
  have IH: "tree_ok d (Suc d) pos weight es tree' \<and>
      s' = s2 + wsum (\<lambda>p. node_above d (Suc h) pos < node_above d (Suc h) p) es"
    using Suc.hyps(1) [OF _ ok2 h Suc.prems(3,4) run] Suc.hyps(2) by simp
  have "wsum (\<lambda>p. ?j < node_above d h p) es =
      wsum (\<lambda>p. even ?j \<and> node_above d h p = ?j + 1) es + wsum (\<lambda>p. ?j div 2 < node_above d h p div 2) es"
    by (rule wsum_disj) presburger+
  also have "wsum (\<lambda>p. even ?j \<and> node_above d h p = ?j + 1) es = s2 - s"
  proof (cases "even ?j")
    case True
    have "at_height d h (?j + 1)"
    proof -
      have "even ((2::nat) ^ (d - h + 1))" by simp
      then have "?j + 1 \<noteq> 2 ^ (d - h + 1)" using True by (metis even_plus_one_iff)
      then show ?thesis using j by (auto simp: at_height_def)
    qed
    then have "tree ! (?j + 1 - 1) = wsum (\<lambda>p. node_above d h p = ?j + 1) es +
        (if h < Suc h \<and> ?j = ?j + 1 then weight else 0)"
      using Suc.prems(1) unfolding tree_ok_def by blast
    with True j2 show ?thesis by (simp add: s2_def)
  next
    case False
    with j2 show ?thesis by (simp add: s2_def)
  qed
  finally show ?case using IH by (simp add: above_step)
qed

section \<open>The count is the sum over crossing pairs\<close>

text \<open>The reference: for every entry, the weights of the earlier entries further right.\<close>

fun inversions :: "(nat \<times> rat) list \<Rightarrow> (nat \<times> rat) list \<Rightarrow> rat" where
  "inversions seen [] = 0"
| "inversions seen ((p, w) # es) = w * wsum (\<lambda>q. p < q) seen + inversions (seen @ [(p, w)]) es"

lemma accumulate_inversions:
  assumes "tree_ok d 0 pos0 w0 seen tree"
    and "\<forall>(p, w)\<in>set (seen @ es). p < 2 ^ d"
  shows "accumulate (2 ^ d - 1) tree cc es = cc + inversions seen es"
  using assms
proof (induction es arbitrary: seen tree cc pos0 w0)
  case (Cons e es)
  obtain p w where e: "e = (p, w)" by fastforce
  have p: "p < 2 ^ d" and seen: "\<forall>(p, w)\<in>set seen. p < 2 ^ d" using Cons.prems(2) by (auto simp: e)
  have leaf: "p + (2 ^ d - 1) = node_above d 0 p - 1"
    by (simp add: node_above_def)
  have ok: "tree_ok d 0 p w seen tree" using Cons.prems(1) by (simp add: tree_ok_def)
  let ?tree = "tree[p + (2 ^ d - 1) := tree ! (p + (2 ^ d - 1)) + w]"
  have ok1: "tree_ok d (Suc 0) p w seen ?tree"
    unfolding leaf using ok p by (intro tree_ok_update) simp_all
  obtain tree' s' where run: "climb ?tree (p + (2 ^ d - 1)) w 0 = (tree', s')" by fastforce
  then have run': "climb ?tree (node_above d 0 p - 1) w 0 = (tree', s')" by (simp only: leaf)
  note walk = climb_spec [OF ok1 _ p seen run']
  have "wsum (\<lambda>q. node_above d 0 p < node_above d 0 q) seen = wsum (\<lambda>q. p < q) seen"
    by (simp add: node_above_def)
  with walk have s': "s' = wsum (\<lambda>q. p < q) seen" and "tree_ok d (Suc d) p w seen tree'"
    by (simp_all add: leaf)
  from tree_ok_extend [OF this(2), of p w] have "tree_ok d 0 p w (seen @ [(p, w)]) tree'" .
  from Cons.IH [OF this, of "cc + w * s'"] Cons.prems(2) show ?case
    using run by (simp add: e s')
qed simp

lemma inversions_sum:
  "inversions seen es =
   (\<Sum>j<length es. snd (es ! j) *
      (wsum (\<lambda>q. fst (es ! j) < q) seen + wsum (\<lambda>q. fst (es ! j) < q) (take j es)))"
proof (induction es arbitrary: seen)
  case (Cons e es)
  obtain p w where e: "e = (p, w)" by fastforce
  show ?case
    unfolding e inversions.simps Cons.IH length_Cons
    by (subst sum.lessThan_Suc_shift) (simp add: algebra_simps)
qed simp

lemma wsum_take:
  "j \<le> length es \<Longrightarrow> wsum P (take j es) = (\<Sum>i<j. if P (fst (es ! i)) then snd (es ! i) else 0)"
proof (induction j)
  case (Suc j)
  obtain p w where "es ! j = (p, w)" by fastforce
  with Suc show ?case by (simp add: take_Suc_conv_app_nth)
qed simp

lemma south_positions_less:
  "dict_get (south_positions south) v = Some p \<Longrightarrow> p < length south"
proof -
  have "dict_get (foldl (\<lambda>d (i, v). dict_set v i d) d0 ps) v = Some p \<Longrightarrow>
      dict_get d0 v = Some p \<or> p \<in> fst ` set ps" for d0 ps
    by (induction ps arbitrary: d0) (force simp: dict_simps split: if_splits)+
  from this [of "[]" "zip [0..<length south] south"] show
    "dict_get (south_positions south) v = Some p \<Longrightarrow> p < length south"
    by (auto simp: south_positions_def dest: set_zip_leftD)
qed

lemma out_pairs_pos:
  assumes "(p, w) \<in> set (out_pairs g south_pos v)"
  shows "\<exists>u. dict_get south_pos u = Some p"
proof -
  from assms obtain e where "(p, w) \<in> set (case dict_get south_pos (edge_w e) of
      None \<Rightarrow> []
    | Some pos \<Rightarrow> [(pos, case edge_label_with_obj g e of None \<Rightarrow> 0
                      | Some l \<Rightarrow> (case ge_weight l of None \<Rightarrow> 0 | Some w \<Rightarrow> w))])"
    unfolding out_pairs_def set_sort set_concat set_map by blast
  then show ?thesis by (cases "dict_get south_pos (edge_w e)") auto
qed

lemma south_entries_less: "(p, w) \<in> set (south_entries g north south) \<Longrightarrow> p < length south"
  by (auto simp: south_entries_def dest!: out_pairs_pos dest: south_positions_less)

lemma two_layer_inversions:
  "two_layer_cross_count g north south = inversions [] (south_entries g north south)"
proof -
  obtain d where d: "first_power (length south) 1 = 2 ^ d" "length south \<le> 2 ^ d"
    using first_power_spec [of "length south" 0] by auto
  have "tree_ok d 0 0 0 [] (replicate (2 * 2 ^ d - 1) 0)"
    using at_height_less by (auto simp: tree_ok_def)
  from accumulate_inversions [OF this, of "south_entries g north south" 0] d south_entries_less
  show ?thesis
    by (fastforce simp: two_layer_cross_count_def Let_def)
qed

text \<open>
  C23: The tree computation returns the weighted number of crossings: the sum, over all pairs of
  edges between two adjacent layers of which the earlier one ends further right, of the
  product of their weights; \<open>cross_count\<close> adds this up over the adjacent layers.
\<close>

theorem cross_count_sums_crossings:
  "cross_count g layering =
   (\<Sum>i\<leftarrow>[1..<length layering].
      let es = south_entries g (layering ! (i - 1)) (layering ! i)
      in \<Sum>j<length es. \<Sum>k<j. if fst (es ! j) < fst (es ! k) then snd (es ! j) * snd (es ! k) else 0)"
proof -
  have pair: "two_layer_cross_count g north south =
      (let es = south_entries g north south
       in \<Sum>j<length es. \<Sum>k<j. if fst (es ! j) < fst (es ! k) then snd (es ! j) * snd (es ! k) else 0)"
    for north south
    by (auto simp: two_layer_inversions inversions_sum wsum_take sum_distrib_left Let_def
        intro!: sum.cong)
  have "foldl (\<lambda>cc i. cc + f i) c xs = c + (\<Sum>i\<leftarrow>xs. f i)" for f :: "nat \<Rightarrow> rat" and c xs
    by (induction xs arbitrary: c) (simp_all add: algebra_simps)
  then show ?thesis by (simp add: cross_count_def pair)
qed

end
