(* ===== verification/Graph_View.thy ===== *)
theory Graph_View
  imports Dagre_Labels
begin

text \<open>
  What the layout passes see of a graph: its set of edge objects and the label of each. The
  edge operations are described on this view, for graphs whose identifiers are unambiguous:
  no node id contains the delimiter and no edge is named by the reserved default name.
\<close>

definition clear_end :: "node_id \<Rightarrow> bool" where
  "clear_end v = (CHR 0x01 \<notin> set v)"

definition clear_edge :: "edge \<Rightarrow> bool" where
  "clear_edge e =
     (clear_end (edge_v e) \<and> clear_end (edge_w e) \<and> edge_name e \<noteq> Some DEFAULT_EDGE_NAME)"

definition clear_graph :: "('gl, 'n, 'e) graph \<Rightarrow> bool" where
  "clear_graph g = (graph_ok g \<and> (\<forall>e\<in>set (graph_edges g). clear_edge e))"

lemma clear_graph_ok: "clear_graph g \<Longrightarrow> graph_ok g"
  by (simp add: clear_graph_def)

lemma clear_graph_edge: "clear_graph g \<Longrightarrow> e \<in> set (graph_edges g) \<Longrightarrow> clear_edge e"
  by (simp add: clear_graph_def)

lemma edge_obj_eta [simp]: "\<lparr>edge_v = edge_v e, edge_w = edge_w e, edge_name = edge_name e\<rparr> = e"
  by simp

lemma edge_id_clear:
  assumes "clear_edge e" and "clear_edge e'" and "edge_obj_to_id True e = edge_obj_to_id True e'"
  shows "e = e'"
proof -
  note split = edge_id_split [of "edge_v e" "edge_w e" "edge_v e'" "edge_w e'" True "edge_name e" "edge_name e'"]
  have "canonical True (edge_v e) (edge_w e) = canonical True (edge_v e') (edge_w e')"
    by (rule split(1)) (use assms in \<open>simp_all add: clear_edge_def clear_end_def edge_obj_to_id_def\<close>)
  moreover have "(case edge_name e of Some s \<Rightarrow> s | None \<Rightarrow> DEFAULT_EDGE_NAME) =
      (case edge_name e' of Some s \<Rightarrow> s | None \<Rightarrow> DEFAULT_EDGE_NAME)"
    by (rule split(2)) (use assms in \<open>simp_all add: clear_edge_def clear_end_def edge_obj_to_id_def\<close>)
  then have "edge_name e = edge_name e'"
    using assms(1,2) by (cases "edge_name e"; cases "edge_name e'") (auto simp: clear_edge_def)
  ultimately show ?thesis by (cases e; cases e') (simp add: canonical_def)
qed

lemma stored_iff:
  assumes g: "clear_graph g" and e: "clear_edge e"
  shows "dict_get (edge_objs g) (edge_obj_to_id True e) = (if e \<in> set (graph_edges g) then Some e else None)"
proof (cases "dict_get (edge_objs g) (edge_obj_to_id True e)")
  case None
  then show ?thesis using clear_graph_ok [OF g] by (auto simp: graph_edges_iff)
next
  case (Some e')
  have id: "edge_obj_to_id True e' = edge_obj_to_id True e"
    using graph_ok_edge(1) [OF clear_graph_ok [OF g] Some] .
  with Some have mem: "e' \<in> set (graph_edges g)" using clear_graph_ok [OF g] by (simp add: graph_edges_iff)
  from edge_id_clear [OF clear_graph_edge [OF g mem] e id] mem Some show ?thesis by simp
qed

lemma label_known:
  assumes g: "clear_graph g" and e: "clear_edge e"
  shows "dict_has (edge_labels g) (edge_obj_to_id True e) \<longleftrightarrow> e \<in> set (graph_edges g)"
  using clear_graph_ok [OF g] stored_iff [OF g e]
  by (simp add: graph_ok_def same_keys_def) (simp add: dict_has_def)

lemma label_absent:
  assumes g: "clear_graph g" and e: "clear_edge e" "e \<notin> set (graph_edges g)"
  shows "edge_label_with_obj g e = None"
proof -
  have "is_directed g" using clear_graph_ok [OF g] by (simp add: graph_ok_def)
  then show ?thesis
    using label_known [OF g e(1)] e(2) by (simp add: edge_label_with_obj_def dict_has_def)
qed

lemma has_edge_view:
  assumes "clear_graph g" and "clear_edge \<lparr>edge_v = v, edge_w = w, edge_name = n\<rparr>"
  shows "has_edge g v w n \<longleftrightarrow> \<lparr>edge_v = v, edge_w = w, edge_name = n\<rparr> \<in> set (graph_edges g)"
  using label_known [OF assms] clear_graph_ok [OF assms(1)] by (simp add: has_edge_def graph_ok_def)

subsection \<open>Removing an edge\<close>

lemma remove_edge_view:
  assumes g: "clear_graph g" and e: "clear_edge e" "e = \<lparr>edge_v = v, edge_w = w, edge_name = n\<rparr>"
  shows "clear_graph (remove_edge g v w n)"
    and "set (graph_edges (remove_edge g v w n)) = set (graph_edges g) - {e}"
    and "clear_edge d \<Longrightarrow> d \<noteq> e \<Longrightarrow> edge_label_with_obj (remove_edge g v w n) d = edge_label_with_obj g d"
proof -
  let ?g' = "remove_edge g v w n"
  have ok: "graph_ok g" "graph_ok ?g'"
    using clear_graph_ok [OF g] by (simp_all add: graph_ok_remove_edge)
  then have dir: "is_directed g" by (simp add: graph_ok_def)
  have id: "edge_args_to_id True v w n = edge_obj_to_id True e" by (simp add: e(2))
  have objs: "dict_get (edge_objs ?g') = (dict_get (edge_objs g))(edge_obj_to_id True e := None)"
    using dir by (simp add: edge_objs_remove_edge id fun_eq_iff)
  have other: "edge_obj_to_id True d \<noteq> edge_obj_to_id True e" if "clear_edge d" "d \<noteq> e" for d
    using edge_id_clear [OF that(1) e(1)] that(2) by auto
  have "d \<in> set (graph_edges ?g') \<longleftrightarrow> d \<in> set (graph_edges g) \<and> d \<noteq> e" for d
  proof (cases "d \<in> set (graph_edges g)")
    case True
    then have "dict_get (edge_objs g) (edge_obj_to_id True d) = Some d"
      by (simp add: graph_edges_iff [OF ok(1)])
    with True other [OF clear_graph_edge [OF g True]] show ?thesis
      by (cases "d = e") (simp_all add: graph_edges_iff [OF ok(2)] objs)
  next
    case False
    then show ?thesis by (simp add: graph_edges_iff [OF ok(1)] graph_edges_iff [OF ok(2)] objs)
  qed
  then show edges: "set (graph_edges ?g') = set (graph_edges g) - {e}" by blast
  show "clear_graph ?g'" using ok(2) g by (auto simp: clear_graph_def edges)
  show "edge_label_with_obj ?g' d = edge_label_with_obj g d" if "clear_edge d" "d \<noteq> e"
    using dir other [OF that]
    by (cases "dict_get (edge_objs g) (edge_args_to_id (is_directed g) v w n)")
       (simp_all add: remove_edge_absent remove_edge_present edge_label_with_obj_def id dict_simps)
qed

subsection \<open>Setting an edge\<close>

lemma set_edge_view:
  assumes g: "clear_graph g" and e: "clear_edge e" "e = \<lparr>edge_v = v, edge_w = w, edge_name = n\<rparr>"
    and set: "set_edge g v w (Some l) n = Inr g'"
  shows "clear_graph g'"
    and "set (graph_edges g') = insert e (set (graph_edges g))"
    and "clear_edge d \<Longrightarrow> edge_label_with_obj g' d = (if d = e then Some l else edge_label_with_obj g d)"
    and "is_multigraph g' = is_multigraph g"
proof -
  have ok: "graph_ok g" and dir: "is_directed g" using clear_graph_ok [OF g] by (simp_all add: graph_ok_def)
  have ok': "graph_ok g'" using graph_ok_set_edge [OF ok set] .
  have dir': "is_directed g'" using ok' by (simp add: graph_ok_def)
  have id: "edge_args_to_id True v w n = edge_obj_to_id True e" by (simp add: e(2))
  have other: "edge_obj_to_id True d = edge_obj_to_id True e \<longleftrightarrow> d = e" if "clear_edge d" for d
    using edge_id_clear [OF that e(1)] by auto
  have fields: "dict_get (edge_objs g') = (dict_get (edge_objs g))(edge_obj_to_id True e \<mapsto> e) \<and>
      dict_get (edge_labels g') = (dict_get (edge_labels g))(edge_obj_to_id True e \<mapsto> Some l) \<and>
      is_multigraph g' = is_multigraph g"
    using dir set
  proof (cases rule: set_edge_Inr)
    case update
    then have "e \<in> set (graph_edges g)" using has_edge_view [OF g e(1) [unfolded e(2)]] by (simp add: e(2))
    then have "dict_get (edge_objs g) (edge_obj_to_id True e) = Some e"
      using stored_iff [OF g e(1)] by simp
    with update show ?thesis by (auto simp: id dict_simps fun_eq_iff)
  next
    case create
    have "is_multigraph (link_edge g v w (Some l) n) = is_multigraph g"
      by (cases "dict_get (preds_map (set_node (set_node g v None) w None)) w";
          cases "dict_get (sucs_map (set_node (set_node g v None) w None)) v")
         (simp_all add: link_edge_def Let_def)
    with create show ?thesis
      by (simp add: link_edge_frame [OF dir] id dict_simps e(2) [symmetric] fun_eq_iff)
  qed
  show edges: "set (graph_edges g') = insert e (set (graph_edges g))"
  proof -
    have "d \<in> set (graph_edges g') \<longleftrightarrow> d \<in> insert e (set (graph_edges g))" for d
      using fields edge_id_clear [OF clear_graph_edge [OF g] e(1)] 
      by (auto simp: graph_edges_iff [OF ok] graph_edges_iff [OF ok'] split: if_splits)
    then show ?thesis by blast
  qed
  show "clear_graph g'" using ok' g e(1) by (auto simp: clear_graph_def edges)
  show "edge_label_with_obj g' d = (if d = e then Some l else edge_label_with_obj g d)" if "clear_edge d"
    using fields other [OF that] dir dir' by (auto simp: edge_label_with_obj_def)
  show "is_multigraph g' = is_multigraph g" using fields by simp
qed


lemma link_edge_nodes:
  "nodes_map (link_edge g v w l n) = nodes_map (set_node (set_node g v None) w None)"
  "glabel (link_edge g v w l n) = glabel (set_node (set_node g v None) w None)"
  by (cases "dict_get (preds_map (set_node (set_node g v None) w None)) w";
      cases "dict_get (sucs_map (set_node (set_node g v None) w None)) v"; cases l;
      simp add: link_edge_def Let_def)+

lemma glabel_set_node [simp]: "glabel (set_node g v l) = glabel g"
  by (simp add: set_node_def seed_forest_def Let_def split: option.splits)

lemma set_edge_nodes:
  assumes "is_directed g" and "set_edge g v w l n = Inr g'"
  shows "glabel g' = glabel g"
    and "dict_has (nodes_map g) v \<Longrightarrow> dict_has (nodes_map g) w \<Longrightarrow> nodes_map g' = nodes_map g"
    and "dict_has (nodes_map g) u \<Longrightarrow> dict_get (nodes_map g') u = dict_get (nodes_map g) u"
proof -
  have new: "dict_get (nodes_map (set_node h x None)) u = dict_get (nodes_map h) u"
    if "dict_has (nodes_map h) u" for h :: "('a, 'b, 'c) graph" and x u
    using that by (auto simp: set_node_def Let_def dict_simps split: if_splits)
  from assms have "glabel g' = glabel g \<and>
      (dict_has (nodes_map g) v \<longrightarrow> dict_has (nodes_map g) w \<longrightarrow> nodes_map g' = nodes_map g) \<and>
      (dict_has (nodes_map g) u \<longrightarrow> dict_get (nodes_map g') u = dict_get (nodes_map g) u)"
  proof (cases rule: set_edge_Inr)
    case update
    then show ?thesis by (cases l) simp_all
  next
    case create
    then show ?thesis by (simp add: link_edge_nodes set_node_known new)
  qed
  then show "glabel g' = glabel g"
    "dict_has (nodes_map g) v \<Longrightarrow> dict_has (nodes_map g) w \<Longrightarrow> nodes_map g' = nodes_map g"
    "dict_has (nodes_map g) u \<Longrightarrow> dict_get (nodes_map g') u = dict_get (nodes_map g) u"
    by simp_all
qed

end
