(* ===== verification/Acyclic.thy ===== *)
theory Acyclic
  imports Graph_View
begin

text \<open>
  The cycle removal of the layered layout (\<open>dagre/layout/acyclic.py\<close>). A depth-first walk collects
  the back edges, the edges into a node on the current path; \<open>run\<close> turns them round under fresh
  names, \<open>undo\<close> adds them again in their first direction. The two helpers of the walk recurse
  through each other; they end because each node is entered once.
\<close>

section \<open>The walk\<close>

type_synonym fas_state =
  "(node_id, bool) ordered_hashmap \<times> (node_id, bool) ordered_hashmap \<times> edge list"

abbreviation on_stack :: "fas_state \<Rightarrow> node_id set" where
  "on_stack st \<equiv> {v. dict_has (fst st) v}"

abbreviation seen :: "fas_state \<Rightarrow> node_id set" where
  "seen st \<equiv> {v. dict_has (fst (snd st)) v}"

abbreviation found :: "fas_state \<Rightarrow> edge list" where
  "found st \<equiv> snd (snd st)"

function (sequential) fas_dfs :: "('gl, 'n, 'e) graph \<Rightarrow> node_id \<Rightarrow> fas_state \<Rightarrow> fas_state"
  and fas_edges :: "('gl, 'n, 'e) graph \<Rightarrow> edge list \<Rightarrow> fas_state \<Rightarrow> fas_state" where
  "fas_dfs g v (stack, visited, fas) =
     (if ohm_contains_key visited v then (stack, visited, fas)
      else
        (let (stack', visited', fas') =
               fas_edges g (out_list g v) (ohm_put stack v True, ohm_put visited v True, fas)
         in (ohm_del stack' v, visited', fas')))"
| "fas_edges g [] st = st"
| "fas_edges g (e # es) (stack, visited, fas) =
     (if ohm_contains_key stack (edge_w e) then fas_edges g es (stack, visited, fas @ [e])
      else fas_edges g es (fas_dfs g (edge_w e) (stack, visited, fas)))"
  by pat_completeness auto

definition unseen :: "('gl, 'n, 'e) graph \<Rightarrow> fas_state \<Rightarrow> nat" where
  "unseen g st = card {v. out_list g v \<noteq> [] \<and> v \<notin> seen st}"

lemma unseen_mono: "seen st \<subseteq> seen st' \<Longrightarrow> unseen g st' \<le> unseen g st"
  unfolding unseen_def by (rule card_mono [OF finite_out_list]) auto

lemma unseen_enter:
  assumes "v \<notin> seen (stack, visited, fas)" and "out_list g v \<noteq> []"
  shows "unseen g (stack', dict_set v True visited, fas') < unseen g (stack, visited, fas)"
  unfolding unseen_def by (rule psubset_card_mono [OF finite_out_list]) (use assms in auto)

lemma seen_grows_partial:
  "fas_dfs_fas_edges_dom (Inl (g, v, st)) \<Longrightarrow> seen st \<subseteq> seen (fas_dfs g v st)"
  "fas_dfs_fas_edges_dom (Inr (g, es, st)) \<Longrightarrow> seen st \<subseteq> seen (fas_edges g es st)"
proof (induction rule: fas_dfs_fas_edges.pinduct)
  case (1 g v stack visited fas)
  then show ?case
    by (auto simp: fas_dfs.psimps ohm_contains_key_def case_prod_unfold Let_def)
next
  case (2 g st)
  then show ?case by (simp add: fas_edges.psimps)
next
  case (3 g e es stack visited fas)
  then show ?case
    by (cases "dict_has stack (edge_w e)") (auto simp: fas_edges.psimps ohm_contains_key_def)
qed

termination fas_dfs
proof (relation "measures [case_sum (\<lambda>(g, v, st). unseen g st) (\<lambda>(g, es, st). unseen g st),
    case_sum (\<lambda>(g, v, st). 1) (\<lambda>(g, es, st). 2 * length es)]", goal_cases)
  case (2 g v stack visited fas)
  show ?case
  proof (cases "out_list g v = []")
    case True
    have "unseen g (dict_set v True stack, dict_set v True visited, fas) \<le> unseen g (stack, visited, fas)"
      by (rule unseen_mono) auto
    with True show ?thesis by auto
  next
    case False
    with 2 show ?thesis
      using unseen_enter [of v stack visited fas g "dict_set v True stack" fas]
      by (auto simp: ohm_contains_key_def)
  qed
next
  case (5 g e es stack visited fas)
  then show ?case using unseen_mono [OF seen_grows_partial(1) [OF 5(2)], of g] by auto
qed (auto simp: unseen_def)

definition dfs_fas :: "('gl, 'n, 'e) graph \<Rightarrow> edge list" where
  "dfs_fas g = found (foldl (\<lambda>st v. fas_dfs g v st) (ohm_new, ohm_new, []) (graph_nodes g))"

section \<open>Run and undo\<close>

fun reverse_edges ::
  "('gl, 'n, graph_edge) graph \<Rightarrow> nat \<Rightarrow> edge list \<Rightarrow>
   graph_error + (('gl, 'n, graph_edge) graph \<times> nat)" where
  "reverse_edges g uid [] = Inr (g, uid)"
| "reverse_edges g uid (e # es) =
     (case edge_label_with_obj g e of
        None \<Rightarrow> reverse_edges g uid es
      | Some label \<Rightarrow>
          (let g = remove_edge_with_obj g e;
               label = label\<lparr>ge_forward_name := edge_name e, ge_reversed := Some True\<rparr>;
               (n, uid) = unique_id uid
           in case set_edge g (edge_w e) (edge_v e) (Some label) (Some (''rev'' @ py_str_nat n)) of
                Inl err \<Rightarrow> Inl err
              | Inr g \<Rightarrow> reverse_edges g uid es))"

text \<open>The greedy acyclicer is an unimplemented branch that reverses nothing.\<close>

definition acyclic_run ::
  "(graph_config, 'n, graph_edge) graph \<Rightarrow> nat \<Rightarrow>
   layout_error + ((graph_config, 'n, graph_edge) graph \<times> nat)" where
  "acyclic_run g uid =
     (case glabel g of
        None \<Rightarrow> Inl AssertionFailed
      | Some config \<Rightarrow>
          (let fas = (if gc_acyclicer config = Some ''greedy'' then [] else dfs_fas g)
           in case reverse_edges g uid fas of
                Inl err \<Rightarrow> Inl (GraphFailed err) | Inr r \<Rightarrow> Inr r))"

fun restore_edges ::
  "('gl, 'n, graph_edge) graph \<Rightarrow> edge list \<Rightarrow> graph_error + ('gl, 'n, graph_edge) graph" where
  "restore_edges g [] = Inr g"
| "restore_edges g (e # es) =
     (case edge_label_with_obj g e of
        None \<Rightarrow> restore_edges g es
      | Some edge \<Rightarrow>
          (if ge_reversed edge = Some True
           then (case set_edge g (edge_w e) (edge_v e)
                        (Some (edge\<lparr>ge_reversed := None, ge_forward_name := None\<rparr>)) (ge_forward_name edge) of
                   Inl err \<Rightarrow> Inl err
                 | Inr g \<Rightarrow> restore_edges g es)
           else restore_edges g es))"

definition acyclic_undo ::
  "('gl, 'n, graph_edge) graph \<Rightarrow> graph_error + ('gl, 'n, graph_edge) graph" where
  "acyclic_undo g = restore_edges g (graph_edges g)"

section \<open>What the walk finds\<close>

text \<open>
  \<open>L\<close> lists the finished nodes in the order in which the walk left them. Of the edges out of a
  finished node, those found lead to a node that is finished later (or to itself), the others
  to a node finished before.
\<close>

definition before :: "node_id list \<Rightarrow> node_id \<Rightarrow> node_id \<Rightarrow> bool" where
  "before L a b = (\<exists>xs ys. L = xs @ ys \<and> a \<in> set xs \<and> b \<in> set ys)"

lemma before_append: "before L a b \<Longrightarrow> before (L @ M) a b"
  unfolding before_def by (metis append_assoc set_append UnI1)

lemma before_cross: "a \<in> set L \<Longrightarrow> b \<in> set M \<Longrightarrow> before (L @ M) a b"
  unfolding before_def by blast

lemma acyclic_before:
  assumes "distinct L"
  shows "acyclic {(a, b). before L b a}"
proof (rule acyclicI_order [where f = "\<lambda>a. length (takeWhile (\<lambda>x. x \<noteq> a) L)"])
  fix a b
  assume "(a, b) \<in> {(a, b). before L b a}"
  then obtain xs ys where L: "L = xs @ ys" "b \<in> set xs" "a \<in> set ys" by (auto simp: before_def)
  with assms have "a \<notin> set xs" by auto
  then have "length (takeWhile (\<lambda>x. x \<noteq> a) L) \<ge> length xs" by (simp add: L(1) takeWhile_append)
  moreover have "length (takeWhile (\<lambda>x. x \<noteq> b) L) < length xs"
    using L(2) unfolding L(1) by (induction xs) auto
  ultimately show "length (takeWhile (\<lambda>x. x \<noteq> b) L) < length (takeWhile (\<lambda>x. x \<noteq> a) L)" by simp
qed

definition classified :: "('gl, 'n, 'e) graph \<Rightarrow> node_id list \<Rightarrow> fas_state \<Rightarrow> node_id \<Rightarrow> edge \<Rightarrow> bool" where
  "classified g L st u e =
     ((e \<in> set (found st) \<longrightarrow> edge_w e \<in> on_stack st \<or> edge_w e = u \<or> before L u (edge_w e)) \<and>
      (e \<notin> set (found st) \<longrightarrow> before L (edge_w e) u))"

definition fas_inv :: "('gl, 'n, 'e) graph \<Rightarrow> node_id list \<Rightarrow> fas_state \<Rightarrow> bool" where
  "fas_inv g L st =
     (distinct L \<and> set L = seen st - on_stack st \<and> on_stack st \<subseteq> seen st \<and>
      (\<forall>e\<in>set (found st). edge_v e \<in> seen st) \<and>
      (\<forall>u\<in>set L. \<forall>e\<in>set (out_list g u). classified g L st u e))"

text \<open>A part of the walk finishes the nodes \<open>M\<close> and leaves the path as it was.\<close>

definition fas_step :: "('gl, 'n, 'e) graph \<Rightarrow> node_id list \<Rightarrow> fas_state \<Rightarrow> fas_state \<Rightarrow> node_id list \<Rightarrow> bool" where
  "fas_step g L st st' M =
     (fas_inv g (L @ M) st' \<and> on_stack st' = on_stack st \<and> seen st' = seen st \<union> set M \<and>
      set M \<inter> seen st = {} \<and> set (found st) \<subseteq> set (found st'))"

lemma fas_step_refl: "fas_inv g L st \<Longrightarrow> fas_step g L st st []"
  by (simp add: fas_step_def)

lemma fas_step_trans:
  "fas_step g L st st1 M \<Longrightarrow> fas_step g (L @ M) st1 st2 M' \<Longrightarrow> fas_step g L st st2 (M @ M')"
  by (auto simp: fas_step_def)

definition own_edges :: "('gl, 'n, 'e) graph \<Rightarrow> bool" where
  "own_edges g = (\<forall>u. \<forall>e\<in>set (out_list g u). edge_v e = u)"

lemma own_edgesD: "own_edges g \<Longrightarrow> e \<in> set (out_list g u) \<Longrightarrow> edge_v e = u"
  by (simp add: own_edges_def)

lemma own_edges_ok: "graph_ok g \<Longrightarrow> own_edges g"
  by (simp add: own_edges_def out_list_ok)

lemma fas_inv_enter:
  assumes "fas_inv g L (stack, visited, fas)" and "\<not> dict_has visited v"
  shows "fas_inv g L (dict_set v True stack, dict_set v True visited, fas)"
proof -
  have "classified g L (dict_set v True stack, dict_set v True visited, fas) u e"
    if "classified g L (stack, visited, fas) u e" for u e
    using that by (auto simp: classified_def)
  with assms show ?thesis unfolding fas_inv_def by auto
qed

lemma fas_inv_found:
  assumes inv: "fas_inv g L (stack, visited, fas)" and own: "own_edges g"
    and e: "e \<in> set (out_list g u)" and u: "dict_has stack u"
  shows "fas_inv g L (stack, visited, fas @ [e])"
proof -
  have "edge_v e = u" using own_edgesD [OF own e] .
  moreover have "classified g L (stack, visited, fas @ [e]) u' e'"
    if "u' \<in> set L" "e' \<in> set (out_list g u')" for u' e'
  proof -
    have "e' \<noteq> e" using own_edgesD [OF own that(2)] \<open>edge_v e = u\<close> that(1) u inv
      by (auto simp: fas_inv_def)
    moreover have "classified g L (stack, visited, fas) u' e'"
      using inv that by (simp add: fas_inv_def)
    ultimately show ?thesis by (simp add: classified_def)
  qed
  ultimately show ?thesis using inv u by (auto simp: fas_inv_def)
qed

text \<open>The state after a walk from a node, and after the walk along some of its edges.\<close>

definition dfs_post :: "('gl, 'n, 'e) graph \<Rightarrow> node_id \<Rightarrow> node_id list \<Rightarrow> fas_state \<Rightarrow> fas_state \<Rightarrow> node_id list \<Rightarrow> bool" where
  "dfs_post g v L st st' M =
     (fas_step g L st st' M \<and> v \<in> seen st' \<and>
      (\<forall>e\<in>set (found st'). e \<in> set (found st) \<or> edge_v e \<in> set M))"

definition edges_post :: "('gl, 'n, 'e) graph \<Rightarrow> edge list \<Rightarrow> node_id list \<Rightarrow> fas_state \<Rightarrow> fas_state \<Rightarrow> node_id list \<Rightarrow> bool" where
  "edges_post g es L st st' M =
     (fas_step g L st st' M \<and>
      (\<forall>e\<in>set (found st').
         e \<in> set (found st) \<or> edge_v e \<in> set M \<or> (e \<in> set es \<and> edge_w e \<in> on_stack st)) \<and>
      (\<forall>e\<in>set es. (edge_w e \<in> on_stack st \<longrightarrow> e \<in> set (found st')) \<and>
         (edge_w e \<notin> on_stack st \<longrightarrow> edge_w e \<in> set (L @ M))))"

lemma dfs_post_visit:
  assumes own: "own_edges g" and inv: "fas_inv g L (stack, visited, fas)" and new: "\<not> dict_has visited v"
    and edges: "edges_post g (out_list g v) L (dict_set v True stack, dict_set v True visited, fas)
      (stack1, visited1, fas1) M"
  shows "dfs_post g v L (stack, visited, fas) (dict_pop v stack1, visited1, fas1) (M @ [v])"
proof -
  let ?st1 = "(stack1, visited1, fas1)" and ?st' = "(dict_pop v stack1, visited1, fas1)"
  have step: "fas_inv g (L @ M) ?st1" "\<And>u. dict_has stack1 u \<longleftrightarrow> u = v \<or> dict_has stack u"
    "\<And>u. dict_has visited1 u \<longleftrightarrow> u = v \<or> dict_has visited u \<or> u \<in> set M"
    "v \<notin> set M" "\<And>u. u \<in> set M \<Longrightarrow> \<not> dict_has visited u" "set fas \<subseteq> set fas1"
    using edges by (auto simp: edges_post_def fas_step_def set_eq_iff)
  have old: "dict_has visited (edge_v e)" if "e \<in> set fas" for e
    using inv that by (auto simp: fas_inv_def)
  have stack: "\<not> dict_has stack v" using inv new by (auto simp: fas_inv_def)
  have own_v: "(e \<in> set fas1 \<longleftrightarrow> dict_has stack1 (edge_w e)) \<and>
      (e \<notin> set fas1 \<longrightarrow> edge_w e \<in> set (L @ M))"
    if e: "e \<in> set (out_list g v)" for e
  proof -
    have "edge_v e = v" by (rule own_edgesD [OF own e])
    then have "e \<notin> set fas" "edge_v e \<notin> set M" using old [of e] new step(4) by auto
    with edges e show ?thesis unfolding edges_post_def by (auto simp: step(2))
  qed
  have "classified g (L @ M @ [v]) ?st' u e" if "u \<in> set (L @ M)" "e \<in> set (out_list g u)" for u e
  proof -
    have "classified g (L @ M) ?st1 u e" using step(1) that by (simp add: fas_inv_def)
    then show ?thesis
      using before_append [of "L @ M" _ _ "[v]"] before_cross [OF that(1), of v "[v]"]
      by (auto simp: classified_def)
  qed
  moreover have "classified g (L @ M @ [v]) ?st' v e" if "e \<in> set (out_list g v)" for e
    using own_v [OF that] before_cross [of "edge_w e" "L @ M" v "[v]"]
    by (auto simp: classified_def)
  ultimately have cls: "\<forall>u\<in>set (L @ M @ [v]). \<forall>e\<in>set (out_list g u). classified g (L @ M @ [v]) ?st' u e"
    by simp
  have base: "distinct (L @ M)" "set (L @ M) = seen ?st1 - on_stack ?st1" "on_stack ?st1 \<subseteq> seen ?st1"
    "\<forall>e\<in>set fas1. edge_v e \<in> seen ?st1"
    using step(1) by (simp_all add: fas_inv_def)
  have "v \<in> on_stack ?st1" using step(2) by simp
  moreover from this base(3) have "v \<in> seen ?st1" by (rule rev_subsetD)
  ultimately have "set (L @ M @ [v]) = seen ?st' - on_stack ?st'" "distinct (L @ M @ [v])"
    using base(1,2) by auto
  with cls base(3,4) have "fas_inv g (L @ M @ [v]) ?st'"
    unfolding fas_inv_def by auto
  moreover have "\<forall>e\<in>set fas1. e \<in> set fas \<or> edge_v e \<in> set (M @ [v])"
    using edges own_edgesD [OF own] by (auto simp: edges_post_def)
  ultimately show ?thesis
    using step new stack by (auto simp: dfs_post_def fas_step_def)
qed

lemma edges_post_found:
  assumes "edges_post g es L (stack, visited, fas @ [e]) st' M" and "dict_has stack (edge_w e)"
  shows "edges_post g (e # es) L (stack, visited, fas) st' M"
  using assms by (auto simp: edges_post_def fas_step_def)

lemma edges_post_walk:
  assumes dfs: "dfs_post g (edge_w e) L st st1 M" and es: "edges_post g es (L @ M) st1 st' M'"
    and off: "edge_w e \<notin> on_stack st"
  shows "edges_post g (e # es) L st st' (M @ M')"
proof -
  have step: "fas_step g L st st1 M" "fas_step g (L @ M) st1 st' M'"
    using dfs es by (simp_all add: dfs_post_def edges_post_def)
  have stack: "on_stack st1 = on_stack st" using step(1) by (simp add: fas_step_def)
  have "edge_w e \<in> set (L @ M)"
    using dfs off stack unfolding dfs_post_def fas_step_def fas_inv_def by blast
  then have "edge_w e \<in> set (L @ M @ M')" by auto
  moreover have "\<forall>x\<in>set (found st'). x \<in> set (found st) \<or> edge_v x \<in> set (M @ M') \<or>
      (x \<in> set (e # es) \<and> edge_w x \<in> on_stack st)"
    using dfs es unfolding dfs_post_def edges_post_def stack set_append list.set by blast
  moreover have "\<forall>x\<in>set es. (edge_w x \<in> on_stack st \<longrightarrow> x \<in> set (found st')) \<and>
      (edge_w x \<notin> on_stack st \<longrightarrow> edge_w x \<in> set (L @ M @ M'))"
    using es unfolding edges_post_def stack by simp
  ultimately show ?thesis
    using fas_step_trans [OF step] off unfolding edges_post_def by simp
qed

lemma walk_correct:
  "own_edges g \<Longrightarrow> fas_inv g L st \<Longrightarrow> v \<notin> on_stack st \<Longrightarrow>
     \<exists>M. dfs_post g v L st (fas_dfs g v st) M"
  "own_edges g \<Longrightarrow> fas_inv g L st \<Longrightarrow> u \<in> on_stack st \<Longrightarrow> set es \<subseteq> set (out_list g u) \<Longrightarrow>
     \<exists>M. edges_post g es L st (fas_edges g es st) M"
proof (induction g v st and g es st arbitrary: L and L u rule: fas_dfs_fas_edges.induct)
  case (1 g v stack visited fas)
  show ?case
  proof (cases "dict_has visited v")
    case True
    with 1 show ?thesis
      by (auto simp: dfs_post_def ohm_contains_key_def intro!: exI [of _ "[]"] fas_step_refl)
  next
    case False
    let ?st = "(dict_set v True stack, dict_set v True visited, fas)"
    obtain stack1 visited1 fas1 where st1: "fas_edges g (out_list g v) ?st = (stack1, visited1, fas1)"
      by (rule prod_cases3)
    have "\<exists>M. edges_post g (out_list g v) L ?st (stack1, visited1, fas1) M"
      using "1.IH" [of L v] fas_inv_enter [OF "1.prems"(2) False] "1.prems"(1) False
      by (simp add: st1 ohm_contains_key_def)
    then obtain M where "edges_post g (out_list g v) L ?st (stack1, visited1, fas1) M" ..
    from dfs_post_visit [OF "1.prems"(1,2) False this] show ?thesis
      using False by (auto simp: st1 ohm_contains_key_def)
  qed
next
  case (2 g st)
  then show ?case by (auto simp: edges_post_def intro!: exI [of _ "[]"] fas_step_refl)
next
  case (3 g e es stack visited fas)
  show ?case
  proof (cases "dict_has stack (edge_w e)")
    case True
    have "fas_inv g L (stack, visited, fas @ [e])"
      using fas_inv_found [OF "3.prems"(2,1), of e u] "3.prems"(3,4) by simp
    with "3.IH"(1) [of L u] "3.prems" True obtain M where
      "edges_post g es L (stack, visited, fas @ [e]) (fas_edges g es (stack, visited, fas @ [e])) M"
      by (fastforce simp: ohm_contains_key_def)
    from edges_post_found [OF this True] True show ?thesis by (auto simp: ohm_contains_key_def)
  next
    case False
    let ?st1 = "fas_dfs g (edge_w e) (stack, visited, fas)"
    have "\<exists>M. dfs_post g (edge_w e) L (stack, visited, fas) ?st1 M"
      using "3.IH"(2) [OF _ "3.prems"(1,2)] False by (simp add: ohm_contains_key_def)
    then obtain M where dfs: "dfs_post g (edge_w e) L (stack, visited, fas) ?st1 M" ..
    then have "fas_inv g (L @ M) ?st1" "on_stack ?st1 = on_stack (stack, visited, fas)"
      by (simp_all add: dfs_post_def fas_step_def)
    with "3.IH"(3) [OF _ "3.prems"(1), of "L @ M" u] "3.prems"(3,4) False
    obtain M' where "edges_post g es (L @ M) ?st1 (fas_edges g es ?st1) M'"
      by (auto simp: ohm_contains_key_def)
    from edges_post_walk [OF dfs this] False show ?thesis by (auto simp: ohm_contains_key_def)
  qed
qed

lemma found_edges:
  "set (found (fas_dfs g v st)) \<subseteq> set (found st) \<union> {e. \<exists>u. e \<in> set (out_list g u)}"
  "set es \<subseteq> {e. \<exists>u. e \<in> set (out_list g u)} \<Longrightarrow>
     set (found (fas_edges g es st)) \<subseteq> set (found st) \<union> {e. \<exists>u. e \<in> set (out_list g u)}"
proof (induction g v st and g es st rule: fas_dfs_fas_edges.induct)
  case (1 g v stack visited fas)
  have "set (out_list g v) \<subseteq> {e. \<exists>u. e \<in> set (out_list g u)}" by blast
  from 1 [OF _ this] show ?case by (auto simp: case_prod_unfold ohm_contains_key_def Let_def)
next
  case (3 g e es stack visited fas)
  show ?case
  proof (cases "dict_has stack (edge_w e)")
    case True
    with 3 show ?thesis by (auto simp: ohm_contains_key_def)
  next
    case False
    then show ?thesis
      using "3.IH"(2) "3.IH"(3) "3.prems"
      by (simp add: ohm_contains_key_def del: fas_dfs.simps) blast
  qed
qed simp

text \<open>The edges found close every cycle: the nodes can be listed so that they alone point forward.\<close>

lemma walk_all:
  assumes own: "own_edges g" and inv: "fas_inv g L st" and idle: "on_stack st = {}"
  shows "\<exists>M. let st' = foldl (\<lambda>st v. fas_dfs g v st) st vs
    in fas_inv g M st' \<and> on_stack st' = {} \<and> set vs \<union> seen st \<subseteq> seen st'"
  using inv idle
proof (induction vs arbitrary: st L)
  case (Cons v vs)
  from walk_correct(1) [OF own Cons.prems(1), of v] Cons.prems(2) obtain M where
    "dfs_post g v L st (fas_dfs g v st) M" by auto
  then have post: "fas_inv g (L @ M) (fas_dfs g v st)" "on_stack (fas_dfs g v st) = {}"
    "insert v (seen st) \<subseteq> seen (fas_dfs g v st)"
    using Cons.prems(2) by (auto simp: dfs_post_def fas_step_def)
  from Cons.IH [OF post(1,2)] post(3) show ?case by (auto simp: Let_def)
qed (auto simp: Let_def)

lemma dfs_fas_correct:
  assumes ok: "graph_ok g"
  shows "\<exists>L. distinct L \<and> (\<forall>e\<in>set (graph_edges g).
      if e \<in> set (dfs_fas g) then edge_w e = edge_v e \<or> before L (edge_v e) (edge_w e)
      else before L (edge_w e) (edge_v e))"
    and "set (dfs_fas g) \<subseteq> set (graph_edges g)"
proof -
  have own: "own_edges g" using ok by (rule own_edges_ok)
  have init: "fas_inv g [] (ohm_new, ohm_new, [])" by (simp add: fas_inv_def ohm_new_def)
  define st where "st = foldl (\<lambda>st v. fas_dfs g v st) (ohm_new, ohm_new, []) (graph_nodes g)"
  have "on_stack (ohm_new, ohm_new, []) = {}" by (simp add: ohm_new_def)
  from walk_all [OF own init this, of "graph_nodes g"] obtain L where
    L: "fas_inv g L st" "on_stack st = {}" "set (graph_nodes g) \<subseteq> seen st"
    unfolding Let_def st_def [symmetric] by blast
  have fas: "dfs_fas g = found st" by (simp add: dfs_fas_def st_def)
  have "if e \<in> set (dfs_fas g) then edge_w e = edge_v e \<or> before L (edge_v e) (edge_w e)
      else before L (edge_w e) (edge_v e)" if "e \<in> set (graph_edges g)" for e
  proof -
    have "edge_v e \<in> set L"
      using edge_ends_known(1) [OF ok that] L by (auto simp: fas_inv_def)
    moreover have "e \<in> set (out_list g (edge_v e))" using that by (simp add: out_list_ok [OF ok])
    ultimately have "classified g L st (edge_v e) e" using L(1) by (simp add: fas_inv_def)
    then show ?thesis using L(2) by (auto simp: fas classified_def)
  qed
  then show "\<exists>L. distinct L \<and> (\<forall>e\<in>set (graph_edges g).
      if e \<in> set (dfs_fas g) then edge_w e = edge_v e \<or> before L (edge_v e) (edge_w e)
      else before L (edge_w e) (edge_v e))"
    using L(1) unfolding fas_inv_def by blast
  have "set (found (foldl (\<lambda>st v. fas_dfs g v st) s vs)) \<subseteq> set (found s) \<union> {e. \<exists>u. e \<in> set (out_list g u)}" for s vs
  proof (induction vs arbitrary: s)
    case (Cons v vs)
    then show ?case
      using found_edges(1) [of g v s] Cons.IH [of "fas_dfs g v s"] unfolding foldl_Cons by blast
  qed simp
  from this [of "(ohm_new, ohm_new, [])" "graph_nodes g"] show "set (dfs_fas g) \<subseteq> set (graph_edges g)"
    by (auto simp: dfs_fas_def out_list_ok [OF ok])
qed

section \<open>What run does\<close>

definition rev_name :: "nat \<Rightarrow> string" where
  "rev_name n = ''rev'' @ py_str_nat n"

lemma rev_name_facts [simp]:
  "rev_name m = rev_name n \<longleftrightarrow> m = n" "rev_name n \<noteq> DEFAULT_EDGE_NAME"
  by (simp_all add: rev_name_def DEFAULT_EDGE_NAME_def)

definition opposite :: "edge \<Rightarrow> edge \<Rightarrow> bool" where
  "opposite e x = (edge_v x = edge_w e \<and> edge_w x = edge_v e)"

definition reversal_of :: "edge \<Rightarrow> edge \<Rightarrow> bool" where
  "reversal_of e x = (opposite e x \<and> edge_name x \<noteq> None)"

definition mark_reversed :: "graph_edge \<Rightarrow> graph_edge" where
  "mark_reversed l = l\<lparr>ge_forward_name := None, ge_reversed := Some True\<rparr>"

definition labelled :: "('gl, 'n, 'e) graph \<Rightarrow> bool" where
  "labelled g = (\<forall>e\<in>set (graph_edges g). edge_label_with_obj g e \<noteq> None)"

definition unused_names :: "('gl, 'n, 'e) graph \<Rightarrow> nat \<Rightarrow> bool" where
  "unused_names g uid = (\<forall>x\<in>set (graph_edges g). \<forall>m\<ge>uid. edge_name x \<noteq> Some (rev_name m))"

text \<open>One turn: an anonymous edge \<open>e\<close> of the graph becomes \<open>x\<close>.\<close>

lemma reverse_one:
  assumes g: "clear_graph g" "is_multigraph g" "labelled g" "unused_names g uid"
    and e: "e \<in> set (graph_edges g)" "edge_name e = None"
  defines "x \<equiv> \<lparr>edge_v = edge_w e, edge_w = edge_v e, edge_name = Some (rev_name uid)\<rparr>"
  obtains l g' where "edge_label_with_obj g e = Some l"
    "set_edge (remove_edge_with_obj g e) (edge_w e) (edge_v e) (Some (mark_reversed l)) (Some (rev_name uid)) = Inr g'"
    "clear_graph g'" "is_multigraph g'" "labelled g'" "unused_names g' (Suc uid)"
    "nodes_map g' = nodes_map g" "glabel g' = glabel g"
    "set (graph_edges g') = insert x (set (graph_edges g) - {e})"
    "edge_label_with_obj g' x = Some (mark_reversed l)"
    "\<And>d. d \<in> set (graph_edges g) \<Longrightarrow> d \<noteq> e \<Longrightarrow> edge_label_with_obj g' d = edge_label_with_obj g d"
proof -
  obtain l where l: "edge_label_with_obj g e = Some l" using g(3) e(1) by (auto simp: labelled_def)
  define g1 where "g1 = remove_edge_with_obj g e"
  have clear_e: "clear_edge e" using clear_graph_edge [OF g(1) e(1)] .
  have e_eq: "e = \<lparr>edge_v = edge_v e, edge_w = edge_w e, edge_name = None\<rparr>" using e(2) by (cases e) simp
  note r = remove_edge_view [OF g(1) clear_e e_eq, folded remove_edge_with_obj_def g1_def]
  have multi: "is_multigraph g1" "nodes_map g1 = nodes_map g" "is_directed g1" "glabel g1 = glabel g"
    using g(2) clear_graph_ok [OF r(1)]
    by (simp_all add: g1_def remove_edge_with_obj_def graph_ok_def)
  have clear_x: "clear_edge x" using clear_e by (simp add: clear_edge_def x_def)
  obtain g' where g': "set_edge g1 (edge_w e) (edge_v e) (Some (mark_reversed l)) (Some (rev_name uid)) = Inr g'"
    using multi(1) by (cases "set_edge g1 (edge_w e) (edge_v e) (Some (mark_reversed l)) (Some (rev_name uid))")
      (simp_all add: set_edge_def Let_def split: if_splits)
  note s = set_edge_view [OF r(1) clear_x x_def [THEN meta_eq_to_obj_eq] g']
  have ends: "dict_has (nodes_map g1) (edge_v e)" "dict_has (nodes_map g1) (edge_w e)"
    using edge_ends_known [OF clear_graph_ok [OF g(1)] e(1)]
    by (simp_all add: multi graph_nodes_def ohm_keys_def dict_has_iff del: set_map)
  show ?thesis
  proof (rule that)
    show "edge_label_with_obj g e = Some l" by (rule l)
    show "set_edge (remove_edge_with_obj g e) (edge_w e) (edge_v e) (Some (mark_reversed l)) (Some (rev_name uid)) = Inr g'"
      using g' by (simp add: g1_def)
    show "clear_graph g'" by (rule s(1))
    show "is_multigraph g'" using s(4) multi(1) by simp
    show "nodes_map g' = nodes_map g" "glabel g' = glabel g"
      using set_edge_nodes(1) [OF multi(3) g'] set_edge_nodes(2) [OF multi(3) g' ends(2,1)] multi by simp_all
    show edges: "set (graph_edges g') = insert x (set (graph_edges g) - {e})" using s(2) r(2) by simp
    show "edge_label_with_obj g' x = Some (mark_reversed l)" using s(3) [OF clear_x] by simp
    show lab: "edge_label_with_obj g' d = edge_label_with_obj g d" if "d \<in> set (graph_edges g)" "d \<noteq> e" for d
    proof -
      have "edge_name x = Some (rev_name uid)" by (simp add: x_def)
      then have "d \<noteq> x" using g(4) that(1) unfolding unused_names_def by (metis order_refl)
      with s(3) r(3) that clear_graph_edge [OF g(1)] show ?thesis by simp
    qed
    show "labelled g'" using g(3) s(3) [OF clear_x] lab by (auto simp: labelled_def edges)
    show "unused_names g' (Suc uid)" using g(4) by (auto simp: unused_names_def edges x_def)
  qed
qed

lemma reverse_edges_correct:
  assumes "clear_graph g" "is_multigraph g" "labelled g" "unused_names g uid"
    and "\<forall>e\<in>set fas. edge_name e = None \<and> clear_edge e"
  shows "\<exists>g' uid' N. reverse_edges g uid fas = Inr (g', uid') \<and> clear_graph g' \<and>
    nodes_map g' = nodes_map g \<and> glabel g' = glabel g \<and> labelled g' \<and>
    set (graph_edges g') = (set (graph_edges g) - set fas) \<union> N \<and>
    (\<forall>x\<in>N. \<exists>e\<in>set fas \<inter> set (graph_edges g). reversal_of e x \<and>
       edge_label_with_obj g' x = map_option mark_reversed (edge_label_with_obj g e)) \<and>
    (\<forall>e\<in>set fas \<inter> set (graph_edges g). \<exists>x\<in>N. reversal_of e x \<and>
       edge_label_with_obj g' x = map_option mark_reversed (edge_label_with_obj g e)) \<and>
    (\<forall>d\<in>set (graph_edges g) - set fas. edge_label_with_obj g' d = edge_label_with_obj g d)"
  using assms
proof (induction fas arbitrary: g uid)
  case Nil
  then show ?case by (intro exI [of _ g] exI [of _ uid] exI [of _ "{}"]) simp
next
  case (Cons e es)
  show ?case
  proof (cases "e \<in> set (graph_edges g)")
    case False
    then have none: "edge_label_with_obj g e = None"
      by (intro label_absent [OF Cons.prems(1) _ False]) (use Cons.prems(5) in simp)
    have "(set (graph_edges g) - set (e # es)) = set (graph_edges g) - set es"
      "set (e # es) \<inter> set (graph_edges g) = set es \<inter> set (graph_edges g)" using False by auto
    with Cons.IH [OF Cons.prems(1-4)] Cons.prems(5) none show ?thesis by simp
  next
    case True
    have "edge_name e = None" using Cons.prems(5) by simp
    from reverse_one [OF Cons.prems(1-4) True this] obtain l g2 where one:
      "edge_label_with_obj g e = Some l"
      "set_edge (remove_edge_with_obj g e) (edge_w e) (edge_v e) (Some (mark_reversed l)) (Some (rev_name uid)) = Inr g2"
      "clear_graph g2" "is_multigraph g2" "labelled g2" "unused_names g2 (Suc uid)"
      "nodes_map g2 = nodes_map g" "glabel g2 = glabel g"
      "set (graph_edges g2) = insert \<lparr>edge_v = edge_w e, edge_w = edge_v e, edge_name = Some (rev_name uid)\<rparr>
         (set (graph_edges g) - {e})"
      "edge_label_with_obj g2 \<lparr>edge_v = edge_w e, edge_w = edge_v e, edge_name = Some (rev_name uid)\<rparr> =
         Some (mark_reversed l)"
      "\<And>d. d \<in> set (graph_edges g) \<Longrightarrow> d \<noteq> e \<Longrightarrow> edge_label_with_obj g2 d = edge_label_with_obj g d"
      by blast
    define x where "x = \<lparr>edge_v = edge_w e, edge_w = edge_v e, edge_name = Some (rev_name uid)\<rparr>"
    have x: "reversal_of e x" "x \<notin> set (e # es)" "set (graph_edges g2) = insert x (set (graph_edges g) - {e})"
      "edge_label_with_obj g2 x = Some (mark_reversed l)"
    proof -
      have "edge_name x = Some (rev_name uid)" by (simp add: x_def)
      then show "x \<notin> set (e # es)" using Cons.prems(5) by auto
    qed (use one(9,10) in \<open>simp_all add: x_def reversal_of_def opposite_def\<close>)
    have "\<forall>e\<in>set es. edge_name e = None \<and> clear_edge e" using Cons.prems(5) by simp
    from Cons.IH [OF one(3-6) this] obtain g' uid' N where IH:
      "reverse_edges g2 (Suc uid) es = Inr (g', uid')" "clear_graph g'" "nodes_map g' = nodes_map g2"
      "glabel g' = glabel g2" "labelled g'" "set (graph_edges g') = (set (graph_edges g2) - set es) \<union> N"
      "\<forall>x\<in>N. \<exists>e\<in>set es \<inter> set (graph_edges g2). reversal_of e x \<and>
         edge_label_with_obj g' x = map_option mark_reversed (edge_label_with_obj g2 e)"
      "\<forall>e\<in>set es \<inter> set (graph_edges g2). \<exists>x\<in>N. reversal_of e x \<and>
         edge_label_with_obj g' x = map_option mark_reversed (edge_label_with_obj g2 e)"
      "\<forall>d\<in>set (graph_edges g2) - set es. edge_label_with_obj g' d = edge_label_with_obj g2 d"
      by blast
    have run: "reverse_edges g uid (e # es) = Inr (g', uid')"
      using one(1,2) IH(1) \<open>edge_name e = None\<close>
      by (simp add: unique_id_def rev_name_def mark_reversed_def)
    have mem: "d \<in> set es \<inter> set (graph_edges g2) \<longleftrightarrow> d \<noteq> e \<and> d \<in> set es \<inter> set (graph_edges g)" for d
      using x(2,3) by auto
    have e_rev: "edge_label_with_obj g' x = map_option mark_reversed (edge_label_with_obj g e)"
      using IH(9) x(2,3,4) one(1) by simp
    show ?thesis
    proof (intro exI [of _ g'] exI [of _ uid'] exI [of _ "insert x N"] conjI)
      show "set (graph_edges g') = set (graph_edges g) - set (e # es) \<union> insert x N"
        using IH(6) x(2,3) by auto
      show "\<forall>y\<in>insert x N. \<exists>d\<in>set (e # es) \<inter> set (graph_edges g). reversal_of d y \<and>
          edge_label_with_obj g' y = map_option mark_reversed (edge_label_with_obj g d)"
      proof
        fix y
        assume "y \<in> insert x N"
        then consider "y = x" | "y \<in> N" by blast
        then show "\<exists>d\<in>set (e # es) \<inter> set (graph_edges g). reversal_of d y \<and>
          edge_label_with_obj g' y = map_option mark_reversed (edge_label_with_obj g d)"
        proof cases
          case 1
          then show ?thesis using x(1) e_rev True by auto
        next
          case 2
          with IH(7) obtain d where d: "d \<in> set es \<inter> set (graph_edges g2)" "reversal_of d y"
            "edge_label_with_obj g' y = map_option mark_reversed (edge_label_with_obj g2 d)" by blast
          with mem one(11) [of d] show ?thesis by (intro bexI [of _ d]) auto
        qed
      qed
      show "\<forall>d\<in>set (e # es) \<inter> set (graph_edges g). \<exists>y\<in>insert x N. reversal_of d y \<and>
          edge_label_with_obj g' y = map_option mark_reversed (edge_label_with_obj g d)"
      proof
        fix d
        assume d: "d \<in> set (e # es) \<inter> set (graph_edges g)"
        show "\<exists>y\<in>insert x N. reversal_of d y \<and>
          edge_label_with_obj g' y = map_option mark_reversed (edge_label_with_obj g d)"
        proof (cases "d = e")
          case True
          then show ?thesis using x(1) e_rev by blast
        next
          case False
          with d mem IH(8) one(11) [of d] show ?thesis by fastforce
        qed
      qed
      show "\<forall>d\<in>set (graph_edges g) - set (e # es). edge_label_with_obj g' d = edge_label_with_obj g d"
        using IH(9) x(3) one(11) by simp
    qed (use run IH(2-5) one(7,8) in simp_all)
  qed
qed

text \<open>The graphs the layout passes to \<open>run\<close>: anonymous edges without self-loops, all labelled.\<close>

definition layout_input :: "(graph_config, 'n, graph_edge) graph \<Rightarrow> bool" where
  "layout_input g =
     (clear_graph g \<and> is_multigraph g \<and> labelled g \<and>
      (case glabel g of None \<Rightarrow> False | Some c \<Rightarrow> gc_acyclicer c \<noteq> Some ''greedy'') \<and>
      (\<forall>e\<in>set (graph_edges g). edge_name e = None \<and> edge_w e \<noteq> edge_v e))"

lemma acyclic_run_correct:
  assumes "layout_input g"
  obtains g' uid' N where "acyclic_run g uid = Inr (g', uid')" "clear_graph g'" "nodes_map g' = nodes_map g"
    "labelled g'" "glabel g' = glabel g"
    "set (graph_edges g') = (set (graph_edges g) - set (dfs_fas g)) \<union> N"
    "\<forall>x\<in>N. \<exists>e\<in>set (dfs_fas g). reversal_of e x \<and>
       edge_label_with_obj g' x = map_option mark_reversed (edge_label_with_obj g e)"
    "\<forall>e\<in>set (dfs_fas g). \<exists>x\<in>N. reversal_of e x \<and>
       edge_label_with_obj g' x = map_option mark_reversed (edge_label_with_obj g e)"
    "\<forall>d\<in>set (graph_edges g) - set (dfs_fas g). edge_label_with_obj g' d = edge_label_with_obj g d"
proof -
  have g: "clear_graph g" "is_multigraph g" "labelled g"
    using assms by (simp_all add: layout_input_def)
  have sub: "set (dfs_fas g) \<subseteq> set (graph_edges g)" by (rule dfs_fas_correct(2) [OF clear_graph_ok [OF g(1)]])
  have "unused_names g uid" using assms by (simp add: layout_input_def unused_names_def)
  moreover have "\<forall>e\<in>set (dfs_fas g). edge_name e = None \<and> clear_edge e"
    using sub assms clear_graph_edge [OF g(1)] by (auto simp: layout_input_def)
  ultimately have "\<forall>e\<in>set (dfs_fas g). edge_name e = None \<and> clear_edge e" "unused_names g uid" by simp_all
  from reverse_edges_correct [OF g this(2,1)] obtain g' uid' N where r: "reverse_edges g uid (dfs_fas g) = Inr (g', uid')" and
    rest: "clear_graph g'" "nodes_map g' = nodes_map g" "labelled g'" "glabel g' = glabel g"
    "set (graph_edges g') = (set (graph_edges g) - set (dfs_fas g)) \<union> N"
    "\<forall>x\<in>N. \<exists>e\<in>set (dfs_fas g) \<inter> set (graph_edges g). reversal_of e x \<and>
       edge_label_with_obj g' x = map_option mark_reversed (edge_label_with_obj g e)"
    "\<forall>e\<in>set (dfs_fas g) \<inter> set (graph_edges g). \<exists>x\<in>N. reversal_of e x \<and>
       edge_label_with_obj g' x = map_option mark_reversed (edge_label_with_obj g e)"
    "\<forall>d\<in>set (graph_edges g) - set (dfs_fas g). edge_label_with_obj g' d = edge_label_with_obj g d"
    by (elim exE conjE) (rule that)
  have "acyclic_run g uid = Inr (g', uid')"
    using assms r by (auto simp: acyclic_run_def layout_input_def split: option.splits)
  then show ?thesis
    by (rule that [OF _ rest(1-5)]) (use rest(6-8) sub in \<open>simp_all add: Int_absorb2\<close>)
qed

text \<open>The restored edge of a reversed one.\<close>

definition turned :: "edge \<Rightarrow> edge" where
  "turned x = \<lparr>edge_v = edge_w x, edge_w = edge_v x, edge_name = None\<rparr>"

definition unmark :: "graph_edge \<Rightarrow> graph_edge" where
  "unmark l = l\<lparr>ge_reversed := None, ge_forward_name := None\<rparr>"

definition is_reversed :: "('gl, 'n, graph_edge) graph \<Rightarrow> edge \<Rightarrow> bool" where
  "is_reversed g x = (case edge_label_with_obj g x of None \<Rightarrow> False | Some l \<Rightarrow> ge_reversed l = Some True)"

lemma clear_turned [simp]: "clear_edge (turned x) \<longleftrightarrow> clear_end (edge_v x) \<and> clear_end (edge_w x)"
  by (auto simp: clear_edge_def turned_def)

definition restored :: "('gl, 'n, graph_edge) graph \<Rightarrow> edge list \<Rightarrow> ('gl, 'n, graph_edge) graph \<Rightarrow> bool" where
  "restored g es g' =
     (clear_graph g' \<and>
      set (graph_edges g') = set (graph_edges g) \<union> turned ` {x \<in> set es. is_reversed g x} \<and>
      (\<forall>d. clear_edge d \<longrightarrow> d \<notin> turned ` {x \<in> set es. is_reversed g x} \<longrightarrow>
         edge_label_with_obj g' d = edge_label_with_obj g d) \<and>
      (\<forall>d\<in>turned ` {x \<in> set es. is_reversed g x}. \<exists>y\<in>set es. is_reversed g y \<and> turned y = d \<and>
         edge_label_with_obj g' d = map_option unmark (edge_label_with_obj g y)))"

lemma restored_skip:
  assumes "restored g es g'" and "\<not> is_reversed g e"
  shows "restored g (e # es) g'"
proof -
  have eq: "{x \<in> set (e # es). is_reversed g x} = {x \<in> set es. is_reversed g x}" using assms(2) by auto
  note r = assms(1) [unfolded restored_def]
  show ?thesis
    unfolding restored_def eq
  proof (intro conjI ballI)
    fix d
    assume "d \<in> turned ` {x \<in> set es. is_reversed g x}"
    with r obtain y where "y \<in> set es" "is_reversed g y \<and> turned y = d \<and>
        edge_label_with_obj g' d = map_option unmark (edge_label_with_obj g y)" by meson
    then show "\<exists>y\<in>set (e # es). is_reversed g y \<and> turned y = d \<and>
        edge_label_with_obj g' d = map_option unmark (edge_label_with_obj g y)"
      by (intro bexI [of _ y]) simp_all
  qed (use r in simp_all)
qed

lemma restore_edges_correct:
  assumes "clear_graph g"
    and "\<forall>x\<in>set es. clear_edge x \<and> (\<exists>l. edge_label_with_obj g x = Some l \<and>
           (ge_reversed l = Some True \<longrightarrow> ge_forward_name l = None \<and> turned x \<notin> set es))"
  shows "\<exists>g'. restore_edges g es = Inr g' \<and> restored g es g'"
  using assms
proof (induction es arbitrary: g)
  case (Cons e es)
  from Cons.prems(2) obtain l where l: "edge_label_with_obj g e = Some l" by auto
  show ?case
  proof (cases "ge_reversed l = Some True")
    case False
    then have "\<not> is_reversed g e" using l by (simp add: is_reversed_def)
    moreover have "\<forall>x\<in>set es. clear_edge x \<and> (\<exists>l. edge_label_with_obj g x = Some l \<and>
           (ge_reversed l = Some True \<longrightarrow> ge_forward_name l = None \<and> turned x \<notin> set es))"
      using Cons.prems(2) by fastforce
    ultimately show ?thesis
      using Cons.IH [OF Cons.prems(1)] l False restored_skip by fastforce
  next
    case True
    have fwd: "ge_forward_name l = None" and off: "turned e \<notin> set (e # es)"
      using Cons.prems(2) l True by auto
    have "clear_edge e" using Cons.prems(2) by simp
    then have clear: "clear_edge (turned e)" by (simp add: clear_edge_def [of e])
    obtain g2 where g2: "set_edge g (edge_w e) (edge_v e) (Some (unmark l)) None = Inr g2"
      by (cases "set_edge g (edge_w e) (edge_v e) (Some (unmark l)) None")
         (simp_all add: set_edge_def Let_def split: if_splits)
    note s = set_edge_view [OF Cons.prems(1) clear turned_def g2]
    have same: "edge_label_with_obj g2 x = edge_label_with_obj g x" if "x \<in> set (e # es)" for x
      using s(3) [of x] that Cons.prems(2) off by auto
    have revs: "{x \<in> set es. is_reversed g2 x} = {x \<in> set es. is_reversed g x}"
      using same by (auto simp: is_reversed_def)
    have R: "{x \<in> set (e # es). is_reversed g x} = insert e {x \<in> set es. is_reversed g x}"
      using l True by (auto simp: is_reversed_def)
    have "\<forall>x\<in>set es. clear_edge x \<and> (\<exists>l. edge_label_with_obj g2 x = Some l \<and>
           (ge_reversed l = Some True \<longrightarrow> ge_forward_name l = None \<and> turned x \<notin> set es))"
      using Cons.prems(2) same by fastforce
    from Cons.IH [OF s(1) this] obtain g' where run: "restore_edges g2 es = Inr g'" and
      r: "restored g2 es g'" by blast
    note IH = run r [unfolded restored_def revs, THEN conjunct1]
      r [unfolded restored_def revs, THEN conjunct2, THEN conjunct1]
      r [unfolded restored_def revs, THEN conjunct2, THEN conjunct2, THEN conjunct1, rule_format]
      r [unfolded restored_def revs, THEN conjunct2, THEN conjunct2, THEN conjunct2, THEN bspec]
    show ?thesis
      unfolding restored_def
    proof (intro exI [of _ g'] conjI)
      show "restore_edges g (e # es) = Inr g'"
        using l True g2 fwd IH(1) by (simp add: unmark_def)
      show "set (graph_edges g') = set (graph_edges g) \<union> turned ` {x \<in> set (e # es). is_reversed g x}"
        unfolding R using IH(3) s(2) by auto
      show "\<forall>d. clear_edge d \<longrightarrow> d \<notin> turned ` {x \<in> set (e # es). is_reversed g x} \<longrightarrow>
          edge_label_with_obj g' d = edge_label_with_obj g d"
        unfolding R using IH(4) s(3) by auto
      show "\<forall>d\<in>turned ` {x \<in> set (e # es). is_reversed g x}. \<exists>y\<in>set (e # es). is_reversed g y \<and>
          turned y = d \<and> edge_label_with_obj g' d = map_option unmark (edge_label_with_obj g y)"
      proof
        fix d
        assume d: "d \<in> turned ` {x \<in> set (e # es). is_reversed g x}"
        show "\<exists>y\<in>set (e # es). is_reversed g y \<and> turned y = d \<and>
            edge_label_with_obj g' d = map_option unmark (edge_label_with_obj g y)"
        proof (cases "d \<in> turned ` {x \<in> set es. is_reversed g x}")
          case True
          from IH(5) [OF this] obtain y where "y \<in> set es" "is_reversed g2 y" "turned y = d"
            "edge_label_with_obj g' d = map_option unmark (edge_label_with_obj g2 y)" by blast
          with same [of y] show ?thesis by (intro bexI [of _ y]) (auto simp: is_reversed_def)
        next
          case False
          with d R have "d = turned e" by auto
          with IH(4) [OF clear] False s(3) [OF clear] l \<open>ge_reversed l = Some True\<close> show ?thesis
            by (intro bexI [of _ e]) (auto simp: is_reversed_def)
        qed
      qed
    qed (rule IH(2))
  qed
qed (simp add: restored_def)

section \<open>Named edges\<close>

text \<open>As \<open>remove_edge_with_obj\<close> drops the name, no named edge leaves the graph.\<close>

lemma reverse_edges_keeps_named:
  "clear_graph g \<Longrightarrow> is_multigraph g \<Longrightarrow> \<forall>d\<in>set fas. clear_edge d \<Longrightarrow>
   reverse_edges g uid fas = Inr (g', uid') \<Longrightarrow>
   e \<in> set (graph_edges g) \<Longrightarrow> edge_name e \<noteq> None \<Longrightarrow> e \<in> set (graph_edges g')"
proof (induction fas arbitrary: g uid)
  case (Cons d ds)
  show ?case
  proof (cases "edge_label_with_obj g d")
    case None
    with Cons show ?thesis by simp
  next
    case (Some l)
    define d0 where "d0 = \<lparr>edge_v = edge_v d, edge_w = edge_w d, edge_name = None\<rparr>"
    define x where "x = \<lparr>edge_v = edge_w d, edge_w = edge_v d, edge_name = Some (rev_name uid)\<rparr>"
    define l' where "l' = l\<lparr>ge_forward_name := edge_name d, ge_reversed := Some True\<rparr>"
    have "clear_edge d" using Cons.prems(3) by simp
    then have clear: "clear_edge d0" "clear_edge x"
      by (simp_all add: clear_edge_def d0_def x_def)
    define g1 where "g1 = remove_edge_with_obj g d"
    note r = remove_edge_view [OF Cons.prems(1) clear(1) d0_def,
        folded remove_edge_with_obj_def g1_def]
    from Cons.prems(4) Some obtain g2 where
      g2: "set_edge g1 (edge_w d) (edge_v d) (Some l') (Some (rev_name uid)) = Inr g2"
        "reverse_edges g2 (Suc uid) ds = Inr (g', uid')"
      by (auto simp: unique_id_def rev_name_def l'_def g1_def split: sum.splits)
    note s = set_edge_view [OF r(1) clear(2) x_def g2(1)]
    have "e \<noteq> d0" using Cons.prems(6) by (auto simp: d0_def)
    with Cons.prems(5) have "e \<in> set (graph_edges g2)" using r(2) s(2) by simp
    moreover have "is_multigraph g2" using s(4) Cons.prems(2) by (simp add: g1_def remove_edge_with_obj_def)
    ultimately show ?thesis
      using Cons.IH [OF s(1) _ _ g2(2)] Cons.prems(3,6) by simp
  qed
qed simp

section \<open>Examples\<close>

definition ex_layout :: "string option list \<Rightarrow> (graph_config, unit, graph_edge) graph" where
  "ex_layout names =
     foldl (\<lambda>g (v, w, n). case set_edge g v w (Some default_graph_edge) n of Inr g' \<Rightarrow> g' | Inl _ \<Rightarrow> g)
       (set_graph (new_graph (Some \<lparr>opt_directed = Some True, opt_multigraph = Some True,
            opt_compound = None\<rparr>) None None) (Some default_graph_config))
       (zip [ga, gb, gc] (zip [gb, gc, ga] names))"

lemma foldl_set_edge_ok:
  "graph_ok g \<Longrightarrow>
   graph_ok (foldl (\<lambda>g (v, w, n). case set_edge g v w l n of Inr g' \<Rightarrow> g' | Inl _ \<Rightarrow> g) g xs)"
proof (induction xs arbitrary: g)
  case (Cons x xs)
  obtain v w n where "x = (v, w, n)" by (rule prod_cases3)
  with Cons show ?case by (cases "set_edge g v w l n") (simp_all add: graph_ok_set_edge)
qed simp

lemma ex_layout_ok: "graph_ok (ex_layout names)"
  unfolding ex_layout_def
  by (rule foldl_set_edge_ok) (simp add: set_graph_def graph_ok_new)

lemma ex_layout_clear:
  "clear_graph (ex_layout [None, None, None])" "clear_graph (ex_layout [Some ''x'', Some ''y'', Some ''z''])"
proof -
  have "\<forall>e\<in>set (graph_edges (ex_layout [None, None, None])). clear_edge e"
    "\<forall>e\<in>set (graph_edges (ex_layout [Some ''x'', Some ''y'', Some ''z''])). clear_edge e" by code_simp+
  with ex_layout_ok show "clear_graph (ex_layout [None, None, None])"
    "clear_graph (ex_layout [Some ''x'', Some ''y'', Some ''z''])"
    by (simp_all add: clear_graph_def)
qed

lemma label_of_ex:
  assumes "e \<in> set (graph_edges (ex_layout [None, None, None]))"
  shows "\<exists>l. edge_label_with_obj (ex_layout [None, None, None]) e = Some l \<and>
    ge_reversed l = None \<and> ge_forward_name l = None"
proof -
  have "list_all (\<lambda>e. case edge_label_with_obj (ex_layout [None, None, None]) e of
      None \<Rightarrow> False | Some l \<Rightarrow> ge_reversed l = None \<and> ge_forward_name l = None)
      (graph_edges (ex_layout [None, None, None]))" by code_simp
  with assms show ?thesis by (auto simp: list_all_iff split: option.splits)
qed

lemma ex_layout_input: "layout_input (ex_layout [None, None, None])"
  unfolding layout_input_def labelled_def
  by (intro conjI ex_layout_clear) code_simp+

lemma edge_rel_up_to:
  assumes "\<forall>x\<in>set (graph_edges h). \<exists>e\<in>set (graph_edges g). e = x \<or> opposite e x"
  shows "edge_rel h \<subseteq> edge_rel g \<union> (edge_rel g)\<inverse>"
proof
  fix p
  assume "p \<in> edge_rel h"
  then obtain x where x: "x \<in> set (graph_edges h)" "p = (edge_v x, edge_w x)" by (auto simp: edge_rel_def)
  with assms obtain e where "e \<in> set (graph_edges g)" "e = x \<or> opposite e x" by blast
  with x(2) show "p \<in> edge_rel g \<union> (edge_rel g)\<inverse>"
    unfolding edge_rel_def opposite_def by force
qed

section \<open>Properties\<close>



text \<open>
  C20: \<open>undo\<close> takes \<open>run\<close> back: every edge of the graph the layout was given is there again with its
  own label, and besides those edges only the turned copies remain.
\<close>

theorem acyclic_undo_restores:
  assumes "layout_input g"
    and "\<forall>e\<in>set (graph_edges g). \<exists>l. edge_label_with_obj g e = Some l \<and>
      ge_reversed l = None \<and> ge_forward_name l = None"
  shows "\<exists>g1 uid' g2. acyclic_run g uid = Inr (g1, uid') \<and> acyclic_undo g1 = Inr g2 \<and>
    set (graph_edges g2) = set (graph_edges g) \<union> set (graph_edges g1) \<and>
    (\<forall>e\<in>set (graph_edges g). edge_label_with_obj g2 e = edge_label_with_obj g e)"
proof -
  from assms(1) have g: "clear_graph g" "graph_ok g" by (simp_all add: layout_input_def clear_graph_def)
  have anon: "edge_name e = None" if "e \<in> set (graph_edges g)" for e
    using assms(1) that by (simp add: layout_input_def)
  have fas: "set (dfs_fas g) \<subseteq> set (graph_edges g)" by (rule dfs_fas_correct(2) [OF g(2)])
  obtain g1 uid' N where r: "acyclic_run g uid = Inr (g1, uid')" "clear_graph g1"
    and "nodes_map g1 = nodes_map g" "labelled g1" "glabel g1 = glabel g" and e:
    "set (graph_edges g1) = (set (graph_edges g) - set (dfs_fas g)) \<union> N"
    "\<forall>x\<in>N. \<exists>e\<in>set (dfs_fas g). reversal_of e x \<and>
       edge_label_with_obj g1 x = map_option mark_reversed (edge_label_with_obj g e)"
    "\<forall>e\<in>set (dfs_fas g). \<exists>x\<in>N. reversal_of e x \<and>
       edge_label_with_obj g1 x = map_option mark_reversed (edge_label_with_obj g e)"
    "\<forall>d\<in>set (graph_edges g) - set (dfs_fas g). edge_label_with_obj g1 d = edge_label_with_obj g d"
    by (rule acyclic_run_correct [OF assms(1), of uid])
  have turn: "reversal_of e x \<Longrightarrow> turned x = e" if "e \<in> set (graph_edges g)" for e x
    using anon [OF that] by (cases e) (simp add: turned_def reversal_of_def opposite_def)
  have plain: "\<not> is_reversed g1 d" if "d \<in> set (graph_edges g) - set (dfs_fas g)" for d
    using e(4) assms(2) that by (fastforce simp: is_reversed_def)
  have origin: "\<exists>e l. e \<in> set (dfs_fas g) \<and> turned x = e \<and> edge_label_with_obj g e = Some l \<and>
      ge_reversed l = None \<and> ge_forward_name l = None \<and>
      edge_label_with_obj g1 x = Some (mark_reversed l) \<and> is_reversed g1 x" if "x \<in> N" for x
  proof -
    from e(2) that obtain e where x: "e \<in> set (dfs_fas g)" "reversal_of e x"
      "edge_label_with_obj g1 x = map_option mark_reversed (edge_label_with_obj g e)" by blast
    moreover from x(1) fas assms(2) obtain l where "edge_label_with_obj g e = Some l"
      "ge_reversed l = None" "ge_forward_name l = None" by blast
    ultimately show ?thesis
      using turn fas by (intro exI [of _ e] exI [of _ l]) (auto simp: is_reversed_def mark_reversed_def)
  qed
  have named: "edge_name x \<noteq> None" if "x \<in> N" for x
    using e(2) that by (auto simp: reversal_of_def)
  have apart: "d \<notin> set (graph_edges g1)" if "d \<in> set (dfs_fas g)" for d
    using e(1) that named [of d] anon [of d] fas by auto
  have "\<forall>x\<in>set (graph_edges g1). clear_edge x \<and> (\<exists>l. edge_label_with_obj g1 x = Some l \<and>
      (ge_reversed l = Some True \<longrightarrow> ge_forward_name l = None \<and> turned x \<notin> set (graph_edges g1)))"
  proof
    fix x
    assume x: "x \<in> set (graph_edges g1)"
    show "clear_edge x \<and> (\<exists>l. edge_label_with_obj g1 x = Some l \<and>
      (ge_reversed l = Some True \<longrightarrow> ge_forward_name l = None \<and> turned x \<notin> set (graph_edges g1)))"
    proof (cases "x \<in> N")
      case True
      from origin [OF True] apart obtain l where "edge_label_with_obj g1 x = Some (mark_reversed l)"
        "turned x \<notin> set (graph_edges g1)" by blast
      then show ?thesis using clear_graph_edge [OF r(2) x] by (simp add: mark_reversed_def)
    next
      case False
      with x e(1) have "x \<in> set (graph_edges g) - set (dfs_fas g)" by blast
      with e(4) assms(2) show ?thesis using clear_graph_edge [OF r(2) x] by fastforce
    qed
  qed
  from restore_edges_correct [OF r(2) this] obtain g2 where
    undo: "acyclic_undo g1 = Inr g2" and post: "restored g1 (graph_edges g1) g2"
    unfolding acyclic_undo_def by blast
  have R: "turned ` {x \<in> set (graph_edges g1). is_reversed g1 x} = set (dfs_fas g)"
  proof (intro equalityI subsetI)
    fix d
    assume "d \<in> turned ` {x \<in> set (graph_edges g1). is_reversed g1 x}"
    then obtain x where x: "x \<in> set (graph_edges g1)" "is_reversed g1 x" "d = turned x" by blast
    with plain e(1) have "x \<in> N" by blast
    from origin [OF this] x(3) show "d \<in> set (dfs_fas g)" by blast
  next
    fix d
    assume d: "d \<in> set (dfs_fas g)"
    with e(3) obtain x where x: "x \<in> N" "reversal_of d x" by blast
    with turn [of d x] fas d have "turned x = d" by blast
    moreover have "is_reversed g1 x" using origin [OF x(1)] by blast
    ultimately show "d \<in> turned ` {x \<in> set (graph_edges g1). is_reversed g1 x}" using x(1) e(1) by blast
  qed
  note post = post [unfolded restored_def R]
  have "edge_label_with_obj g2 d = edge_label_with_obj g d" if d: "d \<in> set (graph_edges g)" for d
  proof (cases "d \<in> set (dfs_fas g)")
    case True
    with post obtain y where y: "y \<in> set (graph_edges g1)" "is_reversed g1 y" "turned y = d"
      "edge_label_with_obj g2 d = map_option unmark (edge_label_with_obj g1 y)" by blast
    with plain e(1) have "y \<in> N" by blast
    from origin [OF this] y(3,4) show ?thesis by (auto simp: mark_reversed_def unmark_def)
  next
    case False
    with post clear_graph_edge [OF g(1) d] e(4) d show ?thesis by simp
  qed
  moreover have "set (graph_edges g2) = set (graph_edges g) \<union> set (graph_edges g1)"
    using post e(1) fas by blast
  ultimately show ?thesis using r(1) undo by blast
qed

theorem acyclic_undo_restores_witness:
  "\<exists>g1 uid' g2. acyclic_run (ex_layout [None, None, None]) 1 = Inr (g1, uid') \<and> acyclic_undo g1 = Inr g2 \<and>
    length (filter (\<lambda>e. edge_name e = None) (graph_edges g2)) \<noteq> 0"
proof -
  have "\<forall>e\<in>set (graph_edges (ex_layout [None, None, None])).
      \<exists>l. edge_label_with_obj (ex_layout [None, None, None]) e = Some l \<and>
        ge_reversed l = None \<and> ge_forward_name l = None"
    by (rule ballI, rule label_of_ex) assumption
  from acyclic_undo_restores [OF ex_layout_input this, of 1] obtain g1 uid' g2 where
    r: "acyclic_run (ex_layout [None, None, None]) 1 = Inr (g1, uid')" "acyclic_undo g1 = Inr g2"
    "set (graph_edges g2) = set (graph_edges (ex_layout [None, None, None])) \<union> set (graph_edges g1)" by blast
  have "\<lparr>edge_v = ga, edge_w = gb, edge_name = None\<rparr> \<in> set (graph_edges (ex_layout [None, None, None]))"
    by code_simp
  then have "\<lparr>edge_v = ga, edge_w = gb, edge_name = None\<rparr> \<in> set (graph_edges g2)" using r(3) by blast
  then have "filter (\<lambda>e. edge_name e = None) (graph_edges g2) \<noteq> []" by (force simp: filter_empty_conv)
  with r(1,2) show ?thesis by simp
qed

text \<open>
  A cycle of named edges survives cycle removal, because the removal of an edge object drops its
  name: the result is not acyclic.
\<close>

theorem named_cycle_survives:
  assumes "clear_graph g" and "is_multigraph g" and "acyclic_run g uid = Inr (g', uid')"
    and "(v, v) \<in> {(edge_v e, edge_w e) | e. e \<in> set (graph_edges g) \<and> edge_name e \<noteq> None}\<^sup>+"
  shows "\<not> acyclic (edge_rel g')"
proof -
  from assms(3) obtain fas where "reverse_edges g uid fas = Inr (g', uid')" "fas = [] \<or> fas = dfs_fas g"
    by (auto simp: acyclic_run_def Let_def split: option.splits sum.splits if_splits)
  moreover from this(2) have "\<forall>d\<in>set fas. clear_edge d"
    using dfs_fas_correct(2) [OF clear_graph_ok [OF assms(1)]] clear_graph_edge [OF assms(1)] by auto
  ultimately have "{(edge_v e, edge_w e) | e. e \<in> set (graph_edges g) \<and> edge_name e \<noteq> None} \<subseteq> edge_rel g'"
    using reverse_edges_keeps_named [OF assms(1,2)] by (fastforce simp: edge_rel_def)
  from trancl_mono [OF assms(4) this] show ?thesis by (auto simp: acyclic_def)
qed

theorem named_cycle_survives_witness:
  "\<not> acyclic (edge_rel (case acyclic_run (ex_layout [Some ''x'', Some ''y'', Some ''z'']) 1 of
     Inr (g', _) \<Rightarrow> g' | Inl _ \<Rightarrow> ex_layout [Some ''x'', Some ''y'', Some ''z'']))"
proof -
  let ?g = "ex_layout [Some ''x'', Some ''y'', Some ''z'']"
  let ?R = "{(edge_v e, edge_w e) | e. e \<in> set (graph_edges ?g) \<and> edge_name e \<noteq> None}"
  have mem: "\<lparr>edge_v = ga, edge_w = gb, edge_name = Some ''x''\<rparr> \<in> set (graph_edges ?g)"
    "\<lparr>edge_v = gb, edge_w = gc, edge_name = Some ''y''\<rparr> \<in> set (graph_edges ?g)"
    "\<lparr>edge_v = gc, edge_w = ga, edge_name = Some ''z''\<rparr> \<in> set (graph_edges ?g)" by code_simp+
  then have "(ga, gb) \<in> ?R" "(gb, gc) \<in> ?R" "(gc, ga) \<in> ?R" by force+
  then have cycle: "(ga, ga) \<in> ?R\<^sup>+" by (meson r_into_trancl trancl_trans)
  have "is_multigraph ?g" by code_simp
  note named = named_cycle_survives [OF ex_layout_clear(2) this _ cycle]
  have "\<not> isl (acyclic_run ?g 1)" by code_simp
  then obtain g' uid' where "acyclic_run ?g 1 = Inr (g', uid')" by (cases "acyclic_run ?g 1") auto
  with named [OF this] show ?thesis by simp
qed

end
