(* ===== verification/Ranking.thy ===== *)
theory Ranking
  imports Graph_View
begin

text \<open>
  The longest-path ranker of the layered layout (\<open>dagre/layout/rank/util.py\<close>). The walk writes a
  rank into each node label on its way back; the graph is threaded through. On an acyclic graph
  every edge ends up at least as long as its minimal length, and the ranking is the tightest one
  from below: a node that is not a sink has an edge of exactly its minimal length.
\<close>

section \<open>The code\<close>

text \<open>Writing to the label object of a node; a node without a label is skipped.\<close>

definition update_node ::
  "('gl, 'n, 'e) graph \<Rightarrow> node_id \<Rightarrow> ('n \<Rightarrow> 'n) \<Rightarrow> ('gl, 'n, 'e) graph" where
  "update_node g v f =
     (case node_label g v of
        None \<Rightarrow> g
      | Some l \<Rightarrow> g\<lparr>nodes_map := ohm_put (nodes_map g) v (Some (f l))\<rparr>)"

definition rank_of :: "('gl, graph_node, 'e) graph \<Rightarrow> node_id \<Rightarrow> int" where
  "rank_of g v =
     (case node_label g v of
        None \<Rightarrow> 0 | Some l \<Rightarrow> (case gn_rank l of None \<Rightarrow> 0 | Some r \<Rightarrow> r))"

text \<open>The minimal length with the default that a label without one gets.\<close>

definition minlen_or :: "int \<Rightarrow> ('gl, 'n, graph_edge) graph \<Rightarrow> edge \<Rightarrow> int" where
  "minlen_or dflt g e =
     (case edge_label_with_obj g e of
        None \<Rightarrow> 1
      | Some l \<Rightarrow> (case ge_minlen l of None \<Rightarrow> dflt | Some m \<Rightarrow> py_round m))"

type_synonym 'gl rank_state = "('gl, graph_node, graph_edge) graph \<times> (node_id, bool) ordered_hashmap"

function (sequential) lp_dfs :: "node_id \<Rightarrow> 'gl rank_state \<Rightarrow> int \<times> 'gl rank_state"
  and lp_edges :: "edge list \<Rightarrow> 'gl rank_state \<Rightarrow> int list \<times> 'gl rank_state" where
  "lp_dfs v (g, visited) =
     (if ohm_contains_key visited v then (rank_of g v, (g, visited))
      else
        (let (ranks, (g', visited')) = lp_edges (out_list g v) (g, ohm_put visited v True);
             rank = (if ranks = [] then 0 else min_list ranks)
         in (rank, (update_node g' v (\<lambda>l. l\<lparr>gn_rank := Some rank\<rparr>), visited'))))"
| "lp_edges [] st = ([], st)"
| "lp_edges (e # es) st =
     (let (child_rank, (g', visited')) = lp_dfs (edge_w e) st;
          (ranks, st') = lp_edges es (g', visited')
      in ((child_rank - minlen_or 0 g' e) # ranks, st'))"
  by pat_completeness auto

section \<open>Termination\<close>

text \<open>
  A pass that writes into the labels of nodes leaves everything else alone. The function \<open>er\<close> erases
  the field that it writes.
\<close>

definition same_but :: "('n \<Rightarrow> 'n) \<Rightarrow> ('gl, 'n, 'e) graph \<Rightarrow> ('gl, 'n, 'e) graph \<Rightarrow> bool" where
  "same_but er g g' =
     (g' = g\<lparr>nodes_map := nodes_map g'\<rparr> \<and> dict_keys (nodes_map g') = dict_keys (nodes_map g) \<and>
      (\<forall>v. map_option er (node_label g' v) = map_option er (node_label g v)))"

lemma same_but_refl [simp]: "same_but er g g"
  by (simp add: same_but_def)

lemma same_but_trans: "same_but er g g' \<Longrightarrow> same_but er g' g'' \<Longrightarrow> same_but er g g''"
proof -
  assume a: "same_but er g g'" and b: "same_but er g' g''"
  have "g'' = g'\<lparr>nodes_map := nodes_map g''\<rparr>" "g' = g\<lparr>nodes_map := nodes_map g'\<rparr>"
    using a b by (simp_all add: same_but_def)
  then have "g'' = g\<lparr>nodes_map := nodes_map g''\<rparr>" by (metis (no_types, lifting) graph.surjective graph.update_convs(9))
  with a b show ?thesis by (simp add: same_but_def)
qed

lemma same_but_views:
  assumes "same_but er g g'"
  shows "out_map g' = out_map g" and "edge_label_with_obj g' e = edge_label_with_obj g e"
    and "graph_edges g' = graph_edges g" and "graph_nodes g' = graph_nodes g"
    and "node_label g' v = None \<longleftrightarrow> node_label g v = None" and "graph_parent g' v = graph_parent g v"
    and "graph_children g' v = graph_children g v"
proof -
  from assms have eq: "g' = g\<lparr>nodes_map := nodes_map g'\<rparr>" and
    keys: "dict_keys (nodes_map g') = dict_keys (nodes_map g)" and
    labels: "map_option er (node_label g' v) = map_option er (node_label g v)"
    by (simp_all add: same_but_def)
  show "out_map g' = out_map g" "edge_label_with_obj g' e = edge_label_with_obj g e"
    "graph_edges g' = graph_edges g" "graph_parent g' v = graph_parent g v"
    by (subst eq, simp add: edge_label_with_obj_def graph_edges_def graph_parent_def)+
  show nodes: "graph_nodes g' = graph_nodes g" using keys by (simp add: graph_nodes_def ohm_keys_def)
  have "is_compound g' = is_compound g" "children_map g' = children_map g" by (subst eq, simp)+
  then show "graph_children g' v = graph_children g v" by (simp add: graph_children_def nodes)
  show "node_label g' v = None \<longleftrightarrow> node_label g v = None"
    using labels by (metis map_option_is_None)
qed

lemma node_label_update:
  "node_label (update_node g v f) u = (if u = v then map_option f (node_label g v) else node_label g u)"
  by (auto simp: update_node_def node_label_def dict_simps split: option.splits)

lemma same_but_update:
  assumes "\<And>l. er (f l) = er l"
  shows "same_but er g (update_node g v f)"
proof -
  have "map_option er (node_label (update_node g v f) u) = map_option er (node_label g u)" for u
    by (simp add: node_label_update option.map_comp comp_def assms)
  moreover have "dict_has (nodes_map g) v" if "node_label g v = Some l" for l
    using that by (auto simp: node_label_def dict_has_def split: option.splits)
  ultimately show ?thesis
    unfolding same_but_def by (auto simp: update_node_def dict_keys_set_old split: option.splits)
qed

text \<open>The walk of the ranker writes ranks.\<close>

definition same_but_ranks :: "('gl, graph_node, 'e) graph \<Rightarrow> ('gl, graph_node, 'e) graph \<Rightarrow> bool" where
  "same_but_ranks g g' = same_but (gn_rank_update (\<lambda>_. None)) g g'"

lemma same_but_ranks_trans: "same_but_ranks g g' \<Longrightarrow> same_but_ranks g' g'' \<Longrightarrow> same_but_ranks g g''"
  unfolding same_but_ranks_def by (rule same_but_trans)

lemma same_but_ranks_refl [simp]: "same_but_ranks g g"
  by (simp add: same_but_ranks_def)

lemma same_but_ranks_views:
  assumes "same_but_ranks g g'"
  shows "out_list g' v = out_list g v" and "edge_label_with_obj g' e = edge_label_with_obj g e"
    and "graph_edges g' = graph_edges g" and "graph_nodes g' = graph_nodes g"
    and "node_label g' v = None \<longleftrightarrow> node_label g v = None" and "minlen_or d g' e = minlen_or d g e"
  using same_but_views [OF assms [unfolded same_but_ranks_def]]
  by (simp_all add: out_list_def graph_out_edges_def minlen_or_def)

lemma same_but_ranks_update: "same_but_ranks g (update_node g v (\<lambda>l. l\<lparr>gn_rank := Some r\<rparr>))"
  unfolding same_but_ranks_def by (rule same_but_update) simp

definition unranked :: "'gl rank_state \<Rightarrow> nat" where
  "unranked st = card {v. out_list (fst st) v \<noteq> [] \<and> \<not> dict_has (snd st) v}"

lemma unranked_mono:
  assumes "same_but_ranks (fst st) (fst st')" and "{v. dict_has (snd st) v} \<subseteq> {v. dict_has (snd st') v}"
  shows "unranked st' \<le> unranked st"
  unfolding unranked_def same_but_ranks_views(1) [OF assms(1)]
  by (rule card_mono [OF finite_out_list]) (use assms(2) in auto)

lemma unranked_enter:
  assumes "\<not> dict_has visited v" and "out_list g v \<noteq> []"
  shows "unranked (g, dict_set v True visited) < unranked (g, visited)"
  unfolding unranked_def by (rule psubset_card_mono [OF finite_out_list]) (use assms in auto)

definition rank_grows :: "'gl rank_state \<Rightarrow> 'gl rank_state \<Rightarrow> bool" where
  "rank_grows st st' =
     (same_but_ranks (fst st) (fst st') \<and> {v. dict_has (snd st) v} \<subseteq> {v. dict_has (snd st') v})"

lemma lp_grows_partial:
  "lp_dfs_lp_edges_dom (Inl (v, st)) \<Longrightarrow> rank_grows st (snd (lp_dfs v st))"
  "lp_dfs_lp_edges_dom (Inr (es, st)) \<Longrightarrow> rank_grows st (snd (lp_edges es st))"
proof (induction rule: lp_dfs_lp_edges.pinduct)
  case (1 v g visited)
  show ?case
  proof (cases "dict_has visited v")
    case True
    with 1(1) show ?thesis by (simp add: lp_dfs.psimps rank_grows_def ohm_contains_key_def)
  next
    case False
    obtain ranks g' visited' where r: "lp_edges (out_list g v) (g, dict_set v True visited) = (ranks, (g', visited'))"
      by (rule prod_cases3)
    from 1(2) False have "rank_grows (g, dict_set v True visited) (g', visited')"
      by (simp add: ohm_contains_key_def r)
    then have grows: "same_but_ranks g g'" "{u. u = v \<or> dict_has visited u} \<subseteq> {u. dict_has visited' u}"
      by (simp_all add: rank_grows_def)
    from same_but_ranks_trans [OF grows(1) same_but_ranks_update] grows(2) False 1(1) show ?thesis
      by (auto simp: lp_dfs.psimps ohm_contains_key_def r rank_grows_def Let_def)
  qed
next
  case (2 st)
  then show ?case by (simp add: lp_edges.psimps rank_grows_def)
next
  case (3 e es st)
  obtain c g' visited' where d: "lp_dfs (edge_w e) st = (c, (g', visited'))" by (rule prod_cases3)
  obtain ranks st' where r: "lp_edges es (g', visited') = (ranks, st')" by (rule prod.exhaust)
  from 3 d r have "rank_grows st (g', visited')" "rank_grows (g', visited') st'" by auto
  then have "rank_grows st st'" unfolding rank_grows_def using same_but_ranks_trans by blast
  with 3(1) show ?case by (simp add: lp_edges.psimps d r)
qed

termination lp_dfs
proof (relation "measures [case_sum (\<lambda>(v, st). unranked st) (\<lambda>(es, st). unranked st),
    case_sum (\<lambda>(v, st). 1) (\<lambda>(es, st). 2 * length es)]", goal_cases)
  case (2 v g visited)
  show ?case
  proof (cases "out_list g v = []")
    case True
    have "unranked (g, dict_set v True visited) \<le> unranked (g, visited)" by (rule unranked_mono) auto
    with True show ?thesis by auto
  next
    case False
    with 2 unranked_enter [of visited v g] show ?thesis by (simp add: ohm_contains_key_def)
  qed
next
  case (4 e es st x c y g' visited')
  then have "rank_grows st (g', visited')" using lp_grows_partial(1) [of "edge_w e" st] by (metis snd_conv)
  then show ?case using unranked_mono [of st "(g', visited')"] by (auto simp: rank_grows_def)
qed auto

lemmas lp_grows = lp_grows_partial [OF "lp_dfs_lp_edges.termination" [rule_format]]

definition longest_path :: "('gl, graph_node, graph_edge) graph \<Rightarrow> ('gl, graph_node, graph_edge) graph" where
  "longest_path g = fst (foldl (\<lambda>st v. snd (lp_dfs v st)) (g, ohm_new) (sources g))"

definition slack :: "('gl, graph_node, graph_edge) graph \<Rightarrow> edge \<Rightarrow> int" where
  "slack g e = rank_of g (edge_w e) - rank_of g (edge_v e) - minlen_or 10 g e"

section \<open>Ranks of closed sets\<close>

definition rankable :: "('gl, graph_node, graph_edge) graph \<Rightarrow> bool" where
  "rankable g =
     (graph_ok g \<and> acyclic (edge_rel g) \<and> (\<forall>v\<in>set (graph_nodes g). node_label g v \<noteq> None))"

lemma same_but_ok:
  assumes "same_but er g g'" and "graph_ok g"
  shows "graph_ok g'"
proof -
  from assms(1) have eq: "g' = g\<lparr>nodes_map := nodes_map g'\<rparr>" and
    keys: "dict_keys (nodes_map g') = dict_keys (nodes_map g)" by (simp_all add: same_but_def)
  have has: "dict_has (nodes_map g') v = dict_has (nodes_map g) v" for v by (simp add: dict_has_iff keys del: set_map)
  have len: "length (nodes_map g') = length (nodes_map g)" using keys by (metis length_map)
  have "graph_ok (g\<lparr>nodes_map := nodes_map g'\<rparr>)"
    using assms(2) keys len by (simp add: graph_ok_def same_keys_def edges_ok_def has)
  then show ?thesis using eq by simp
qed

lemma same_but_ranks_ok: "same_but_ranks g g' \<Longrightarrow> graph_ok g \<Longrightarrow> graph_ok g'"
  unfolding same_but_ranks_def by (rule same_but_ok)

lemma same_but_ranks_rankable:
  assumes same: "same_but_ranks g g'" and "rankable g"
  shows "rankable g'"
  using assms(2) same_but_ranks_ok [OF same]
  by (simp add: rankable_def edge_rel_def same_but_ranks_views [OF same])

lemma rank_of_update:
  assumes "node_label g v \<noteq> None"
  shows "rank_of (update_node g v (\<lambda>l. l\<lparr>gn_rank := Some r\<rparr>)) u = (if u = v then r else rank_of g u)"
  using assms by (auto simp: rank_of_def node_label_update)

text \<open>The ranks of the children of a node, each less the length of the edge.\<close>

definition child_ranks :: "('gl, graph_node, graph_edge) graph \<Rightarrow> edge list \<Rightarrow> int list" where
  "child_ranks g es = map (\<lambda>e. rank_of g (edge_w e) - minlen_or 0 g e) es"

definition tight_at :: "('gl, graph_node, graph_edge) graph \<Rightarrow> node_id \<Rightarrow> bool" where
  "tight_at g v =
     (rank_of g v = (if out_list g v = [] then 0 else min_list (child_ranks g (out_list g v))))"

definition closed :: "('gl, graph_node, graph_edge) graph \<Rightarrow> node_id set \<Rightarrow> bool" where
  "closed g C = (\<forall>v\<in>C. tight_at g v \<and> (\<forall>e\<in>set (out_list g v). edge_w e \<in> C))"

lemma child_ranks_cong:
  assumes same: "same_but_ranks g g'"
    and "\<And>e. e \<in> set es \<Longrightarrow> rank_of g' (edge_w e) = rank_of g (edge_w e)"
  shows "child_ranks g' es = child_ranks g es"
  using assms(2) by (simp add: child_ranks_def same_but_ranks_views [OF same])

lemma closed_cong:
  assumes same: "same_but_ranks g g'" and "closed g C" and "\<And>v. v \<in> C \<Longrightarrow> rank_of g' v = rank_of g v"
  shows "closed g' C"
proof -
  have "child_ranks g' (out_list g v) = child_ranks g (out_list g v)" if "v \<in> C" for v
    using assms that by (intro child_ranks_cong [OF same]) (auto simp: closed_def)
  with assms(2,3) show ?thesis by (simp add: closed_def tight_at_def same_but_ranks_views [OF same])
qed

definition rank_post :: "node_id set \<Rightarrow> 'gl rank_state \<Rightarrow> 'gl rank_state \<Rightarrow> bool" where
  "rank_post S st st' =
     (rank_grows st st' \<and> closed (fst st') ({v. dict_has (snd st') v} - S) \<and>
      (\<forall>x. dict_has (snd st) x \<longrightarrow> x \<notin> S \<longrightarrow> rank_of (fst st') x = rank_of (fst st) x))"

lemma rank_post_trans:
  assumes "rank_post S st st1" and "rank_post S st1 st2"
  shows "rank_post S st st2"
  using assms same_but_ranks_trans unfolding rank_post_def rank_grows_def by (auto simp: subset_iff)

text \<open>Leaving a node whose children are all ranked.\<close>

lemma rank_post_leave:
  assumes post: "rank_post (insert v S) (g, dict_set v True visited) (g', visited')"
    and children: "\<forall>e\<in>set (out_list g v). dict_has visited' (edge_w e) \<and> edge_w e \<notin> insert v S"
    and label: "node_label g v \<noteq> None" and v: "v \<notin> S" "\<not> dict_has visited v"
    and r: "r = (if out_list g v = [] then 0 else min_list (child_ranks g' (out_list g v)))"
  shows "rank_post S (g, visited) (update_node g' v (\<lambda>l. l\<lparr>gn_rank := Some r\<rparr>), visited')"
    and "rank_of (update_node g' v (\<lambda>l. l\<lparr>gn_rank := Some r\<rparr>)) v = r"
proof -
  let ?g'' = "update_node g' v (\<lambda>l. l\<lparr>gn_rank := Some r\<rparr>)"
  have same: "same_but_ranks g g'" using post by (simp add: rank_post_def rank_grows_def)
  have label': "node_label g' v \<noteq> None" using label same_but_ranks_views(5) [OF same, of v] by simp
  note upd = rank_of_update [OF label', of r]
  have same': "same_but_ranks g' ?g''" by (rule same_but_ranks_update)
  note same'' = same_but_ranks_trans [OF same same']
  let ?C = "{u. dict_has visited' u} - insert v S"
  have C: "closed g' ?C" using post by (simp add: rank_post_def)
  have C': "closed ?g'' ?C" by (rule closed_cong [OF same' C]) (simp add: upd)
  have "child_ranks ?g'' (out_list g v) = child_ranks g' (out_list g v)"
    by (rule child_ranks_cong [OF same']) (use children in \<open>auto simp: upd\<close>)
  note children' = this
  have "tight_at ?g'' v"
    unfolding tight_at_def same_but_ranks_views(1) [OF same''] upd children' using r by simp
  moreover have "dict_has visited' v" using post by (auto simp: rank_post_def rank_grows_def)
  ultimately have "closed ?g'' ({u. dict_has visited' u} - S)"
    using C' children unfolding closed_def
    by (auto simp: same_but_ranks_views(1) [OF same''])
  then show "rank_post S (g, visited) (?g'', visited')"
    using post same'' v by (auto simp: rank_post_def rank_grows_def upd)
  show "rank_of ?g'' v = r" by (simp add: upd)
qed

lemma rank_post_refl: "closed g ({v. dict_has visited v} - S) \<Longrightarrow> rank_post S (g, visited) (g, visited)"
  by (simp add: rank_post_def rank_grows_def)

text \<open>
  The walk from a node below the open ones \<open>S\<close>: afterwards all that is visited and not open is
  tightly ranked, and so is the node itself.
\<close>

lemma lp_correct:
  "rankable (fst st) \<Longrightarrow> v \<in> set (graph_nodes (fst st)) \<Longrightarrow> S \<subseteq> {u. dict_has (snd st) u} \<Longrightarrow>
     \<forall>u\<in>S. (u, v) \<in> (edge_rel (fst st))\<^sup>+ \<Longrightarrow> closed (fst st) ({u. dict_has (snd st) u} - S) \<Longrightarrow>
   rank_post S st (snd (lp_dfs v st)) \<and> dict_has (snd (snd (lp_dfs v st))) v \<and> v \<notin> S \<and>
     fst (lp_dfs v st) = rank_of (fst (snd (lp_dfs v st))) v"
  "rankable (fst st) \<Longrightarrow> set es \<subseteq> set (out_list (fst st) u) \<Longrightarrow> S \<subseteq> {u. dict_has (snd st) u} \<Longrightarrow>
     \<forall>x\<in>S. (x, u) \<in> (edge_rel (fst st))\<^sup>* \<Longrightarrow> closed (fst st) ({u. dict_has (snd st) u} - S) \<Longrightarrow>
   rank_post S st (snd (lp_edges es st)) \<and>
     (\<forall>e\<in>set es. dict_has (snd (snd (lp_edges es st))) (edge_w e) \<and> edge_w e \<notin> S) \<and>
     fst (lp_edges es st) = child_ranks (fst (snd (lp_edges es st))) es"
proof (induction v st and es st arbitrary: S and S u rule: lp_dfs_lp_edges.induct)
  case (1 v g visited)
  note rankable = \<open>rankable (fst (g, visited))\<close>
  have S: "v \<notin> S" using 1(2,5) by (auto simp: rankable_def acyclic_def)
  show ?case
  proof (cases "dict_has visited v")
    case True
    have "rank_post S (g, visited) (g, visited)" by (rule rank_post_refl) (use 1(6) in simp)
    with S True show ?thesis by (simp add: ohm_contains_key_def)
  next
    case False
    obtain ranks g' visited' where r: "lp_edges (out_list g v) (g, dict_set v True visited) = (ranks, (g', visited'))"
      by (rule prod_cases3)
    have eq: "{u. dict_has (dict_set v True visited) u} - insert v S = {u. dict_has visited u} - S"
      using False by auto
    have "rank_post (insert v S) (g, dict_set v True visited) (g', visited') \<and>
        (\<forall>e\<in>set (out_list g v). dict_has visited' (edge_w e) \<and> edge_w e \<notin> insert v S) \<and>
        ranks = child_ranks g' (out_list g v)"
      using 1(1) [of v "insert v S"] 1(2-6) False eq
      by (auto simp: ohm_contains_key_def r intro: trancl_into_rtrancl)
    then have post: "rank_post (insert v S) (g, dict_set v True visited) (g', visited')"
      and children: "\<forall>e\<in>set (out_list g v). dict_has visited' (edge_w e) \<and> edge_w e \<notin> insert v S"
      and ranks: "ranks = child_ranks g' (out_list g v)" by blast+
    define rank where "rank = (if ranks = [] then 0 else min_list ranks)"
    have rank': "rank = (if out_list g v = [] then 0 else min_list (child_ranks g' (out_list g v)))"
      by (simp add: rank_def ranks child_ranks_def)
    have label: "node_label g v \<noteq> None" using 1(2,3) by (simp add: rankable_def)
    note leave = rank_post_leave [OF post children label S False rank']
    have run: "lp_dfs v (g, visited) = (rank, (update_node g' v (\<lambda>l. l\<lparr>gn_rank := Some rank\<rparr>), visited'))"
      using False by (simp add: ohm_contains_key_def r rank_def Let_def)
    have "dict_has visited' v" using post by (auto simp: rank_post_def rank_grows_def)
    with leave S show ?thesis unfolding run by simp
  qed
next
  case (2 st)
  then show ?case using rank_post_refl [of "fst st" "snd st" S] by (simp add: child_ranks_def)
next
  case (3 e es st)
  obtain c g' visited' where d: "lp_dfs (edge_w e) st = (c, (g', visited'))" by (rule prod_cases3)
  obtain ranks g2 visited2 where r: "lp_edges es (g', visited') = (ranks, (g2, visited2))" by (rule prod_cases3)
  have ok: "graph_ok (fst st)" using 3(3) by (simp add: rankable_def)
  have e: "e \<in> set (graph_edges (fst st))" "edge_v e = u" using 3(4) by (auto simp: out_list_ok [OF ok])
  then have step: "(u, edge_w e) \<in> edge_rel (fst st)" by (auto simp: edge_rel_def)
  have below: "\<forall>x\<in>S. (x, edge_w e) \<in> (edge_rel (fst st))\<^sup>+"
    using 3(6) step by (blast intro: rtrancl_into_trancl1)
  from 3(1) [OF 3(3) edge_ends_known(2) [OF ok e(1)] 3(5) below 3(7)]
  have post: "rank_post S st (g', visited')" and w: "dict_has visited' (edge_w e)" "edge_w e \<notin> S"
    and c: "c = rank_of g' (edge_w e)" by (simp_all add: d)
  have same: "same_but_ranks (fst st) g'" and grow: "{v. dict_has (snd st) v} \<subseteq> {v. dict_has visited' v}"
    and closed: "closed g' ({u. dict_has visited' u} - S)"
    using post by (simp_all add: rank_post_def rank_grows_def)
  have "rank_post S (g', visited') (g2, visited2) \<and>
      (\<forall>e\<in>set es. dict_has visited2 (edge_w e) \<and> edge_w e \<notin> S) \<and> ranks = child_ranks g2 es"
    using 3(2) [OF d [symmetric] refl, where S = S and u = u] 3(4-6) grow closed same_but_ranks_rankable [OF same 3(3)]
    by (auto simp: r edge_rel_def same_but_ranks_views [OF same])
  then have post2: "rank_post S (g', visited') (g2, visited2)"
    and es: "\<forall>e\<in>set es. dict_has visited2 (edge_w e) \<and> edge_w e \<notin> S" and ranks: "ranks = child_ranks g2 es"
    by blast+
  have same2: "same_but_ranks g' g2" and w2: "dict_has visited2 (edge_w e)"
    and keep: "rank_of g2 (edge_w e) = rank_of g' (edge_w e)"
    using post2 w by (auto simp: rank_post_def rank_grows_def)
  have "lp_edges (e # es) st = ((c - minlen_or 0 g' e) # ranks, (g2, visited2))" by (simp add: d r)
  moreover have "child_ranks g2 (e # es) = (c - minlen_or 0 g' e) # ranks"
    by (simp add: child_ranks_def ranks c keep same_but_ranks_views(6) [OF same2])
  ultimately show ?case using rank_post_trans [OF post post2] es w w2 by simp
qed

section \<open>The whole ranking\<close>

lemma source_iff:
  assumes ok: "graph_ok g"
  shows "v \<in> set (sources g) \<longleftrightarrow> v \<in> set (graph_nodes g) \<and> (\<forall>u. (u, v) \<notin> edge_rel g)"
proof (cases "v \<in> set (graph_nodes g)")
  case True
  then have "dict_has (nodes_map g) v" by (simp add: graph_nodes_def ohm_keys_def dict_has_iff del: set_map)
  with ok obtain m where m: "dict_get (in_map g) v = Some m" using graph_ok_lookup by metis
  have parts: "incidence_ok (in_map g) edge_w (edge_objs g)" "dict_ok (edge_objs g)"
    using ok by (simp_all add: graph_ok_def edges_ok_def)
  have "ohm_len m = 0 \<longleftrightarrow> set (ohm_values m) = {}" by (simp add: ohm_reads)
  also have "\<dots> \<longleftrightarrow> (\<forall>u. (u, v) \<notin> edge_rel g)"
    unfolding incidence_values [OF parts m] by (auto simp: edge_rel_def graph_edges_def ohm_values_def)
  finally show ?thesis using True m by (simp add: sources_def)
next
  case False
  then show ?thesis by (simp add: sources_def)
qed

lemma reached_from_source:
  assumes ok: "graph_ok g" and acyc: "acyclic (edge_rel g)" and v: "v \<in> set (graph_nodes g)"
  shows "\<exists>s\<in>set (sources g). (s, v) \<in> (edge_rel g)\<^sup>*"
  using v
proof (induction v rule: wf_induct_rule [OF finite_acyclic_wf [OF _ acyc]])
  case 1
  show ?case by (simp add: edge_rel_def)
next
  case (2 v)
  show ?case
  proof (cases "v \<in> set (sources g)")
    case False
    with 2(2) source_iff [OF ok] obtain u where u: "(u, v) \<in> edge_rel g" by blast
    then have "u \<in> set (graph_nodes g)" using edge_ends_known(1) [OF ok] by (auto simp: edge_rel_def)
    from 2(1) [OF u this] u show ?thesis by (blast intro: rtrancl_into_rtrancl)
  qed blast
qed

text \<open>The loop over the sources.\<close>

lemma ranks_of_sources:
  assumes "rankable (fst st)" and "set vs \<subseteq> set (graph_nodes (fst st))"
    and "closed (fst st) {v. dict_has (snd st) v}"
  shows "rank_post {} st (foldl (\<lambda>st v. snd (lp_dfs v st)) st vs) \<and>
    (\<forall>v\<in>set vs. dict_has (snd (foldl (\<lambda>st v. snd (lp_dfs v st)) st vs)) v)"
  using assms
proof (induction vs arbitrary: st)
  case Nil
  then show ?case using rank_post_refl [of "fst st" "snd st" "{}"] by simp
next
  case (Cons v vs)
  define st1 where "st1 = snd (lp_dfs v st)"
  have v: "rank_post {} st st1" "dict_has (snd st1) v"
    unfolding st1_def using lp_correct(1) [of st v "{}"] Cons(2-4) by simp_all
  then have same: "same_but_ranks (fst st) (fst st1)" and closed: "closed (fst st1) {v. dict_has (snd st1) v}"
    by (simp_all add: rank_post_def rank_grows_def)
  have nodes: "set vs \<subseteq> set (graph_nodes (fst st1))"
    using Cons(3) same_but_ranks_views(4) [OF same] by simp
  define st2 where "st2 = foldl (\<lambda>st v. snd (lp_dfs v st)) st1 vs"
  from Cons(1) [OF same_but_ranks_rankable [OF same Cons(2)] nodes closed]
  have vs: "rank_post {} st1 st2" "\<forall>v\<in>set vs. dict_has (snd st2) v" by (simp_all add: st2_def)
  then have "dict_has (snd st2) v" using v(2) by (auto simp: rank_post_def rank_grows_def)
  with rank_post_trans [OF v(1) vs(1)] vs(2)
  have "rank_post {} st st2 \<and> (\<forall>v\<in>set (v # vs). dict_has (snd st2) v)" by simp
  then show ?case by (simp add: st2_def st1_def)
qed

lemma longest_path_closed:
  assumes g: "rankable g"
  shows "same_but_ranks g (longest_path g)" and "\<forall>v\<in>set (graph_nodes g). tight_at (longest_path g) v"
proof -
  have ok: "graph_ok g" and acyc: "acyclic (edge_rel g)" using g by (simp_all add: rankable_def)
  define st where "st = foldl (\<lambda>st v. snd (lp_dfs v st)) (g, ohm_new) (sources g)"
  have "rank_post {} (g, ohm_new) st \<and> (\<forall>v\<in>set (sources g). dict_has (snd st) v)"
    unfolding st_def
    by (rule ranks_of_sources) (use g in \<open>simp_all add: sources_def closed_def ohm_new_def dict_has_def\<close>)
  then have same: "same_but_ranks g (fst st)" and closed: "closed (fst st) {v. dict_has (snd st) v}"
    and start: "\<forall>v\<in>set (sources g). dict_has (snd st) v"
    by (simp_all add: rank_post_def rank_grows_def)
  have down: "dict_has (snd st) w" if "(v, w) \<in> (edge_rel g)\<^sup>*" "dict_has (snd st) v" for v w
    using that
  proof (induction rule: rtrancl_induct)
    case (step u w)
    then obtain e where e: "e \<in> set (out_list g u)" "edge_w e = w"
      by (auto simp: edge_rel_def out_list_ok [OF ok])
    have "\<forall>e\<in>set (out_list g u). dict_has (snd st) (edge_w e)"
      using step(3) [OF step(4)] closed by (simp add: closed_def same_but_ranks_views [OF same])
    with e show ?case by blast
  qed
  have "dict_has (snd st) v" if "v \<in> set (graph_nodes g)" for v
    using reached_from_source [OF ok acyc that] start down by blast
  then show "same_but_ranks g (longest_path g)" "\<forall>v\<in>set (graph_nodes g). tight_at (longest_path g) v"
    using same closed by (simp_all add: longest_path_def closed_def flip: st_def)
qed

text \<open>
  C3: The longest-path ranker ranks an acyclic graph correctly and tightly: no edge ends up shorter
  than its minimal length, every node with an outgoing edge has one of exactly its minimal length,
  the sinks are on rank 0, and nothing but the ranks changes.
\<close>

theorem longest_path_ranks:
  assumes "rankable g" and "\<forall>e\<in>set (graph_edges g). \<forall>l. edge_label_with_obj g e = Some l \<longrightarrow> ge_minlen l \<noteq> None"
  shows "same_but_ranks g (longest_path g) \<and>
    (\<forall>e\<in>set (graph_edges g). 0 \<le> slack (longest_path g) e) \<and>
    (\<forall>v\<in>set (graph_nodes g).
       if out_list g v = [] then rank_of (longest_path g) v = 0
       else \<exists>e\<in>set (out_list g v). slack (longest_path g) e = 0)"
proof -
  let ?g = "longest_path g"
  note same = longest_path_closed(1) [OF assms(1)]
  have ok: "graph_ok g" using assms(1) by (simp add: rankable_def)
  have tight: "rank_of ?g v = (if out_list g v = [] then 0 else min_list (child_ranks ?g (out_list g v)))"
    if "v \<in> set (graph_nodes g)" for v
    using longest_path_closed(2) [OF assms(1)] that by (simp add: tight_at_def same_but_ranks_views [OF same])
  have len: "minlen_or 10 ?g e = minlen_or 0 ?g e" if "e \<in> set (graph_edges g)" for e
    using assms(2) that by (auto simp: minlen_or_def same_but_ranks_views [OF same] split: option.splits)
  have least: "rank_of ?g v = Min ((\<lambda>e. rank_of ?g (edge_w e) - minlen_or 0 ?g e) ` set (out_list g v))"
    if "v \<in> set (graph_nodes g)" "out_list g v \<noteq> []" for v
    using tight [OF that(1)] that(2) by (simp add: child_ranks_def min_list_Min)
  have "0 \<le> slack ?g e" if e: "e \<in> set (graph_edges g)" for e
  proof -
    have mem: "e \<in> set (out_list g (edge_v e))" using e by (simp add: out_list_ok [OF ok])
    then have "out_list g (edge_v e) \<noteq> []" by auto
    from least [OF edge_ends_known(1) [OF ok e] this] mem
    have "rank_of ?g (edge_v e) \<le> rank_of ?g (edge_w e) - minlen_or 0 ?g e" by (simp only:) (rule Min_le, auto)
    then show ?thesis by (simp add: slack_def len [OF e])
  qed
  moreover have "\<exists>e\<in>set (out_list g v). slack ?g e = 0" if v: "v \<in> set (graph_nodes g)" "out_list g v \<noteq> []" for v
  proof -
    let ?f = "\<lambda>e. rank_of ?g (edge_w e) - minlen_or 0 ?g e"
    have "Min (?f ` set (out_list g v)) \<in> ?f ` set (out_list g v)" using v(2) by (intro Min_in) auto
    then obtain e where e: "e \<in> set (out_list g v)" "rank_of ?g v = ?f e" using least [OF v] by auto
    then have "e \<in> set (graph_edges g)" "edge_v e = v" by (auto simp: out_list_ok [OF ok])
    with e show ?thesis by (intro bexI [of _ e]) (simp_all add: slack_def len)
  qed
  ultimately show ?thesis using same tight by simp
qed

text \<open>A triangle: the short way around has to stretch to the length of the long one.\<close>

fun ex_edge ::
  "(graph_config, graph_node, graph_edge) graph \<Rightarrow> node_id \<times> node_id \<times> rat \<Rightarrow>
   (graph_config, graph_node, graph_edge) graph" where
  "ex_edge g (v, w, m) =
     (case set_edge g v w (Some (default_graph_edge\<lparr>ge_minlen := Some m\<rparr>)) None of Inr g' \<Rightarrow> g' | Inl _ \<Rightarrow> g)"

definition ex_ranked :: "(graph_config, graph_node, graph_edge) graph" where
  "ex_ranked =
     foldl ex_edge
       (set_nodes (new_graph None None None) [''a'', ''b'', ''c''] (Some default_graph_node))
       [(''a'', ''b'', 1), (''b'', ''c'', 2), (''a'', ''c'', 1)]"

lemma rankable_ex_ranked: "rankable ex_ranked"
proof -
  have step: "graph_ok g \<Longrightarrow> graph_ok (foldl ex_edge g xs)" for g xs
  proof (induction xs arbitrary: g)
    case (Cons x xs)
    then have "graph_ok (ex_edge g x)" by (cases x) (auto simp: graph_ok_set_edge split: sum.splits)
    from Cons(1) [OF this] show ?case by simp
  qed simp
  have "graph_ok (set_nodes (new_graph None None None) [''a'', ''b'', ''c''] (Some default_graph_node)
      :: (graph_config, graph_node, graph_edge) graph)"
    by (simp add: set_nodes_def graph_ok_set_node graph_ok_new)
  then have ok: "graph_ok ex_ranked" unfolding ex_ranked_def by (rule step)
  have "map (\<lambda>e. (edge_v e, edge_w e)) (graph_edges ex_ranked) = [(''a'', ''b''), (''b'', ''c''), (''a'', ''c'')]"
    by code_simp
  then have "edge_rel ex_ranked = {(''a'', ''b''), (''b'', ''c''), (''a'', ''c'')}"
    unfolding edge_rel_def set_map [symmetric] by simp
  then have "edge_rel ex_ranked \<subseteq> measure (\<lambda>v. if v = ''a'' then 0 else if v = ''b'' then 1 else 2)" by auto
  from acyclic_subset [OF wf_acyclic [OF wf_measure] this] have "acyclic (edge_rel ex_ranked)" .
  moreover have "\<forall>v\<in>set (graph_nodes ex_ranked). node_label ex_ranked v \<noteq> None" by code_simp
  ultimately show ?thesis using ok by (simp add: rankable_def)
qed

theorem longest_path_ranks_witness:
  "list_all (\<lambda>e. 0 \<le> slack (longest_path ex_ranked) e) (graph_edges ex_ranked) \<and>
   map (rank_of (longest_path ex_ranked)) [''a'', ''b'', ''c''] = [-3, -2, 0] \<and>
   map (slack (longest_path ex_ranked)) (graph_edges ex_ranked) = [0, 0, 2]"
proof -
  have "list_all (\<lambda>e. case edge_label_with_obj ex_ranked e of None \<Rightarrow> True | Some l \<Rightarrow> ge_minlen l \<noteq> None)
      (graph_edges ex_ranked)" by code_simp
  then have "\<forall>e\<in>set (graph_edges ex_ranked). \<forall>l. edge_label_with_obj ex_ranked e = Some l \<longrightarrow> ge_minlen l \<noteq> None"
    by (auto simp: list_all_iff)
  with longest_path_ranks [OF rankable_ex_ranked]
  have "list_all (\<lambda>e. 0 \<le> slack (longest_path ex_ranked) e) (graph_edges ex_ranked)"
    unfolding list_all_iff by blast
  moreover have "map (rank_of (longest_path ex_ranked)) [''a'', ''b'', ''c''] = [-3, -2, 0] \<and>
      map (slack (longest_path ex_ranked)) (graph_edges ex_ranked) = [0, 0, 2]" by code_simp
  ultimately show ?thesis by blast
qed

end
