(* ===== verification/Layout_Util.thy ===== *)
theory Layout_Util
  imports Ranking
begin

text \<open>
  The helpers of the layout passes (\<open>dagre/layout/util.py\<close>). The process-wide counter of fresh
  names is threaded. Writing to the label of a node or an edge updates the label of that one node
  or edge; a deep copy is the value itself. A rank picks a layer with the indices of a Python list:
  negative ones count from the end, others outside the list raise.
\<close>

section \<open>Fresh nodes\<close>

definition dummy_name :: "string \<Rightarrow> nat \<Rightarrow> node_id" where
  "dummy_name name n = name @ py_str_nat n"

lemma dummy_name_inject [simp]: "dummy_name name m = dummy_name name n \<longleftrightarrow> m = n"
  by (simp add: dummy_name_def)

lemma finite_taken: "finite {n. has_node g (dummy_name name n) \<and> uid \<le> n}"
proof -
  have "{n. has_node g (dummy_name name n) \<and> uid \<le> n} \<subseteq> dummy_name name -` set (dict_keys (nodes_map g))"
    by (auto simp: has_node_def dict_has_iff simp del: set_map)
  moreover have "finite (dummy_name name -` set (dict_keys (nodes_map g)))"
    by (rule finite_vimageI) (simp_all add: inj_def)
  ultimately show ?thesis by (rule finite_subset)
qed

text \<open>The loop ends because only finitely many names are taken.\<close>

function fresh_id :: "('gl, 'n, 'e) graph \<Rightarrow> string \<Rightarrow> nat \<Rightarrow> node_id \<times> nat" where
  "fresh_id g name uid =
     (let (n, uid') = unique_id uid; v = dummy_name name n in
      if has_node g v then fresh_id g name uid' else (v, uid'))"
  by pat_completeness auto
termination fresh_id
proof (relation "measure (\<lambda>(g, name, uid). card {n. has_node g (dummy_name name n) \<and> uid \<le> n})")
  fix g :: "('gl, 'n, 'e) graph" and name n uid' v and uid :: nat and x
  assume a: "x = unique_id uid" "(n, uid') = x" "v = dummy_name name n" "has_node g v"
  have n: "n = uid" "uid' = Suc uid" using a(1,2) by (auto simp: unique_id_def)
  have "has_node g (dummy_name name uid)" using a(3,4) n(1) by simp
  then have "{n. has_node g (dummy_name name n) \<and> uid' \<le> n} \<subset> {n. has_node g (dummy_name name n) \<and> uid \<le> n}"
    unfolding n by (auto simp: Suc_le_eq)
  then show "((g, name, uid'), (g, name, uid)) \<in> measure (\<lambda>(g, name, uid). card {n. has_node g (dummy_name name n) \<and> uid \<le> n})"
    using psubset_card_mono [OF finite_taken] by simp
qed simp

declare fresh_id.simps [simp del]

definition add_dummy_node ::
  "('gl, graph_node, 'e) graph \<Rightarrow> string \<Rightarrow> graph_node \<Rightarrow> string \<Rightarrow> nat \<Rightarrow>
   node_id \<times> ('gl, graph_node, 'e) graph \<times> nat" where
  "add_dummy_node g node_type data name uid =
     (let (v, uid) = fresh_id g name uid
      in (v, set_node g v (Some (data\<lparr>gn_dummy := Some node_type\<rparr>)), uid))"

definition add_border_node ::
  "('gl, graph_node, 'e) graph \<Rightarrow> string \<Rightarrow> int option \<Rightarrow> int option \<Rightarrow> nat \<Rightarrow>
   node_id \<times> ('gl, graph_node, 'e) graph \<times> nat" where
  "add_border_node g prefix rank ord uid =
     (let node = default_graph_node;
          node = (case rank of None \<Rightarrow> node | Some r \<Rightarrow> node\<lparr>gn_rank := Some r\<rparr>);
          node = (case ord of None \<Rightarrow> node | Some i \<Rightarrow> node\<lparr>gn_order := Some i\<rparr>)
      in add_dummy_node g ''border'' node prefix uid)"

section \<open>Copies of a graph\<close>

text \<open>Writing to the label object of an edge; an edge without a label is skipped.\<close>

definition update_edge ::
  "('gl, 'n, 'e) graph \<Rightarrow> edge \<Rightarrow> ('e \<Rightarrow> 'e) \<Rightarrow> ('gl, 'n, 'e) graph" where
  "update_edge g e f =
     (case edge_label_with_obj g e of
        None \<Rightarrow> g
      | Some l \<Rightarrow> g\<lparr>edge_labels := ohm_put (edge_labels g) (edge_obj_to_id (is_directed g) e) (Some (f l))\<rparr>)"

definition option_or :: "'a option \<Rightarrow> 'a \<Rightarrow> 'a" where
  "option_or x d = (case x of None \<Rightarrow> d | Some v \<Rightarrow> v)"

lemma option_or_simps [simp]: "option_or None d = d" "option_or (Some v) d = v"
  by (simp_all add: option_or_def)

text \<open>A simple graph does not refuse an edge without a name, so \<open>set_edge\<close> does not raise here.\<close>

definition put_edge ::
  "('gl, 'n, 'e) graph \<Rightarrow> node_id \<Rightarrow> node_id \<Rightarrow> 'e option \<Rightarrow> ('gl, 'n, 'e) graph" where
  "put_edge g v w label = (case set_edge g v w label None of Inl e \<Rightarrow> g | Inr g' \<Rightarrow> g')"

definition summed_label :: "graph_edge option \<Rightarrow> graph_edge option \<Rightarrow> graph_edge" where
  "summed_label simple_label label =
     (let none = default_graph_edge\<lparr>ge_weight := Some 0, ge_minlen := Some 1\<rparr>;
          simple = option_or simple_label none; l = option_or label none
      in simple\<lparr>ge_minlen := Some (max (option_or (ge_minlen simple) 1) (option_or (ge_minlen l) 1)),
                ge_weight := Some (option_or (ge_weight simple) 0 + option_or (ge_weight l) 0)\<rparr>)"

definition simplify_edge ::
  "('gl, 'n, graph_edge) graph \<Rightarrow> edge \<Rightarrow> ('gl, 'n, graph_edge) graph \<Rightarrow> ('gl, 'n, graph_edge) graph" where
  "simplify_edge g e h =
     put_edge h (edge_v e) (edge_w e)
       (Some (summed_label (edge_label h (edge_v e) (edge_w e) None) (edge_label_with_obj g e)))"

definition option_flags :: "bool option \<Rightarrow> bool option \<Rightarrow> bool option \<Rightarrow> graph_option" where
  "option_flags d m c = \<lparr>opt_directed = d, opt_multigraph = m, opt_compound = c\<rparr>"

definition simplify :: "('gl, 'n, graph_edge) graph \<Rightarrow> ('gl, 'n, graph_edge) graph" where
  "simplify g =
     (let h = (new_graph (Some (option_flags (Some True) None None)) None None)\<lparr>glabel := glabel g\<rparr>;
          h = foldl (\<lambda>h v. set_node h v (node_label g v)) h (graph_nodes g)
      in foldl (\<lambda>h e. simplify_edge g e h) h (graph_edges g))"

definition simplify_ref :: "('gl, 'n, graph_edge) graph \<Rightarrow> layout_error + ('gl, 'n, graph_edge) graph" where
  "simplify_ref g =
     (if \<exists>e\<in>set (graph_edges g). edge_label_with_obj g e = None then Inl AssertionFailed
      else Inr (foldl (\<lambda>g e. update_edge g e
        (\<lambda>l. l\<lparr>ge_weight := Some (option_or (ge_weight l) 0), ge_minlen := Some (option_or (ge_minlen l) 1)\<rparr>))
        g (graph_edges g)))"

definition as_non_compound_graph ::
  "('gl, graph_node, 'e) graph \<Rightarrow> ('gl, graph_node, 'e) graph" where
  "as_non_compound_graph g =
     (let h = (new_graph (Some (option_flags (Some True) (Some True) (Some False))) None None)\<lparr>glabel := glabel g\<rparr>;
          h = foldl (\<lambda>h v. if graph_children g v = [] then set_node h v (Some (option_or (node_label g v) default_graph_node)) else h)
                h (graph_nodes g)
      in foldl (\<lambda>h e. put_edge h (edge_v e) (edge_w e) (edge_label_with_obj g e)) h (graph_edges g))"

definition transfer_node_edge_labels ::
  "('gl, graph_node, 'e) graph \<Rightarrow> ('gl2, graph_node, 'e) graph \<Rightarrow> ('gl2, graph_node, 'e) graph" where
  "transfer_node_edge_labels source destination =
     (let h = foldl (\<lambda>h v. if graph_children source v = []
                           then set_node h v (Some (option_or (node_label source v) default_graph_node)) else h)
                destination (graph_nodes source)
      in foldl (\<lambda>h e. put_edge h (edge_v e) (edge_w e) (edge_label_with_obj source e)) h (graph_edges source))"

section \<open>Geometry\<close>

record rect =
  r_x :: rat
  r_y :: rat
  r_width :: rat
  r_height :: rat

text \<open>Where the ray from the centre of the box to the point leaves the box; dividing by zero raises.\<close>

definition py_div :: "rat \<Rightarrow> rat \<Rightarrow> layout_error + rat" where
  "py_div x y = (if y = 0 then Inl DivisionFailed else Inr (x / y))"

lemma py_div_simps [simp]: "y \<noteq> 0 \<Longrightarrow> py_div x y = Inr (x / y)" "py_div x 0 = Inl DivisionFailed"
  by (simp_all add: py_div_def)

definition intersect_rect :: "rect \<Rightarrow> edge_point \<Rightarrow> layout_error + edge_point" where
  "intersect_rect r p =
     (let dx = ep_x p - r_x r; dy = ep_y p - r_y r; w = r_width r / 2; h = r_height r / 2;
          leave = (\<lambda>sx sy. Inr \<lparr>ep_x = r_x r + sx, ep_y = r_y r + sy\<rparr>)
      in if dx = 0 \<and> dy = 0 then leave w 0
         else if \<bar>dy\<bar> * w > \<bar>dx\<bar> * h
         then (let sy = (if dy < 0 then - h else h)
               in case py_div (sy * dx) dy of Inl err \<Rightarrow> Inl err | Inr sx \<Rightarrow> leave sx sy)
         else (let sx = (if dx < 0 then - w else w)
               in case py_div (sx * dy) dx of Inl err \<Rightarrow> Inl err | Inr sy \<Rightarrow> leave sx sy))"

definition on_border :: "rect \<Rightarrow> edge_point \<Rightarrow> bool" where
  "on_border r q =
     (let dx = \<bar>ep_x q - r_x r\<bar>; dy = \<bar>ep_y q - r_y r\<bar>; w = r_width r / 2; h = r_height r / 2
      in dx \<le> w \<and> dy \<le> h \<and> (dx = w \<or> dy = h))"

lemma scaled_to_side:
  fixes w h dx dy :: rat
  assumes "0 < w" "0 < h" "\<bar>dx\<bar> * h \<le> \<bar>dy\<bar> * w" "dy \<noteq> 0" "sy = (if dy < 0 then - h else h)"
  shows "\<bar>sy * dx / dy\<bar> \<le> w" "\<bar>sy\<bar> = h" "\<exists>t>0. sy * dx / dy = t * dx \<and> sy = t * dy"
proof -
  show side: "\<bar>sy\<bar> = h" using assms(2,5) by simp
  then have "\<bar>sy * dx / dy\<bar> = h * \<bar>dx\<bar> / \<bar>dy\<bar>" by (simp add: abs_mult)
  also have "\<dots> \<le> w" using assms(3,4) by (simp add: divide_le_eq mult.commute)
  finally show "\<bar>sy * dx / dy\<bar> \<le> w" .
  have "0 < sy / dy" using assms(2,4,5) by (auto simp: zero_less_divide_iff divide_neg_neg)
  moreover have "sy * dx / dy = (sy / dy) * dx \<and> sy = (sy / dy) * dy" using assms(4) by simp
  ultimately show "\<exists>t>0. sy * dx / dy = t * dx \<and> sy = t * dy" by blast
qed

lemma intersect_sides:
  fixes r p
  defines "dx \<equiv> ep_x p - r_x r" and "dy \<equiv> ep_y p - r_y r" and "w \<equiv> r_width r / 2" and "h \<equiv> r_height r / 2"
  assumes pos: "0 < w" "0 < h"
  shows "\<exists>sx sy. intersect_rect r p = Inr \<lparr>ep_x = r_x r + sx, ep_y = r_y r + sy\<rparr> \<and>
    \<bar>sx\<bar> \<le> w \<and> \<bar>sy\<bar> \<le> h \<and> (\<bar>sx\<bar> = w \<or> \<bar>sy\<bar> = h) \<and>
    (dx \<noteq> 0 \<or> dy \<noteq> 0 \<longrightarrow> (\<exists>t>0. sx = t * dx \<and> sy = t * dy))"
proof -
  have positive: "0 < \<bar>x\<bar> \<longleftrightarrow> x \<noteq> 0" for x :: rat by simp
  consider (centre) "dx = 0 \<and> dy = 0" | (upright) "\<not> (dx = 0 \<and> dy = 0)" "\<bar>dy\<bar> * w > \<bar>dx\<bar> * h"
    | (flat) "\<not> (dx = 0 \<and> dy = 0)" "\<not> \<bar>dy\<bar> * w > \<bar>dx\<bar> * h" by blast
  then show ?thesis
  proof cases
    case centre
    then show ?thesis using pos by (intro exI [of _ w] exI [of _ 0]) (simp add: intersect_rect_def Let_def flip: dx_def dy_def w_def h_def)
  next
    case upright
    define sy where "sy = (if dy < 0 then - h else h)"
    have "0 \<le> \<bar>dx\<bar> * h" using pos(2) by simp
    then have dy: "dy \<noteq> 0" using upright(2) by auto
    note s = scaled_to_side [OF pos less_imp_le [OF upright(2)] dy sy_def]
    have "intersect_rect r p = Inr \<lparr>ep_x = r_x r + sy * dx / dy, ep_y = r_y r + sy\<rparr>"
      using upright dy by (simp add: intersect_rect_def Let_def flip: dx_def dy_def w_def h_def sy_def)
    with s show ?thesis by blast
  next
    case flat
    define sx where "sx = (if dx < 0 then - w else w)"
    have "0 \<le> \<bar>dy\<bar> * w" using pos(1) by simp
    have dx: "dx \<noteq> 0"
    proof
      assume "dx = 0"
      with flat have "\<bar>dy\<bar> * w \<le> 0" "0 < \<bar>dy\<bar> * w" using pos(1) by simp_all
      then show False by simp
    qed
    have le: "\<bar>dy\<bar> * w \<le> \<bar>dx\<bar> * h" using flat(2) by simp
    note s = scaled_to_side [OF pos(2,1) le dx sx_def]
    have "intersect_rect r p = Inr \<lparr>ep_x = r_x r + sx, ep_y = r_y r + sx * dy / dx\<rparr>"
      using flat dx by (simp add: intersect_rect_def Let_def flip: dx_def dy_def w_def h_def sx_def)
    with s show ?thesis by blast
  qed
qed

text \<open>
  For a box of positive size the intersection exists, lies on the border of the box, and lies on
  the ray from the centre of the box through the point.
\<close>

theorem intersect_rect_on_border:
  assumes "0 < r_width r" and "0 < r_height r"
  shows "\<exists>q. intersect_rect r p = Inr q \<and> on_border r q \<and>
    (p \<noteq> \<lparr>ep_x = r_x r, ep_y = r_y r\<rparr> \<longrightarrow>
      (\<exists>t>0. ep_x q - r_x r = t * (ep_x p - r_x r) \<and> ep_y q - r_y r = t * (ep_y p - r_y r)))"
proof -
  obtain sx sy where s: "intersect_rect r p = Inr \<lparr>ep_x = r_x r + sx, ep_y = r_y r + sy\<rparr>"
    "\<bar>sx\<bar> \<le> r_width r / 2" "\<bar>sy\<bar> \<le> r_height r / 2" "\<bar>sx\<bar> = r_width r / 2 \<or> \<bar>sy\<bar> = r_height r / 2"
    "ep_x p - r_x r \<noteq> 0 \<or> ep_y p - r_y r \<noteq> 0 \<longrightarrow> (\<exists>t>0. sx = t * (ep_x p - r_x r) \<and> sy = t * (ep_y p - r_y r))"
    using intersect_sides [of r p] assms by auto
  moreover have "p = \<lparr>ep_x = r_x r, ep_y = r_y r\<rparr>" if "ep_x p = r_x r" "ep_y p = r_y r" using that by (cases p) simp
  ultimately show ?thesis by (intro exI [of _ "\<lparr>ep_x = r_x r + sx, ep_y = r_y r + sy\<rparr>"]) (auto simp: on_border_def Let_def)
qed
theorem intersect_rect_on_border_witness:
  "\<exists>q. intersect_rect \<lparr>r_x = 1, r_y = 2, r_width = 4, r_height = 2\<rparr> \<lparr>ep_x = 5, ep_y = 3\<rparr> = Inr q \<and>
     on_border \<lparr>r_x = 1, r_y = 2, r_width = 4, r_height = 2\<rparr> q"
  using intersect_rect_on_border [of "\<lparr>r_x = 1, r_y = 2, r_width = 4, r_height = 2\<rparr>" "\<lparr>ep_x = 5, ep_y = 3\<rparr>"] by auto

text \<open>
  A box without width cannot be left along its vertical axis: the computation divides by zero.
\<close>

lemma intersect_rect_without_width:
  assumes "r_width r = 0" and "ep_x p = r_x r" and "ep_y p \<noteq> r_y r"
  shows "intersect_rect r p = Inl DivisionFailed"
  using assms by (simp add: intersect_rect_def)

section \<open>Ranks and layers\<close>

definition set_ranks :: "('gl, graph_node, 'e) graph \<Rightarrow> int list" where
  "set_ranks g = concat (map (\<lambda>v. case node_label g v of None \<Rightarrow> [] | Some l \<Rightarrow>
     (case gn_rank l of None \<Rightarrow> [] | Some r \<Rightarrow> [r])) (graph_nodes g))"

definition max_rank :: "('gl, graph_node, 'e) graph \<Rightarrow> int" where
  "max_rank g = (case set_ranks g of [] \<Rightarrow> 0 | r # rs \<Rightarrow> foldl max r rs)"

text \<open>The position that an index denotes in a list of that length.\<close>

definition py_index :: "nat \<Rightarrow> int \<Rightarrow> nat option" where
  "py_index n i =
     (if 0 \<le> i then (if i < int n then Some (nat i) else None)
      else if - int n \<le> i then Some (nat (int n + i)) else None)"

fun fill_layers ::
  "('gl, graph_node, 'e) graph \<Rightarrow> node_id list \<Rightarrow> (int, node_id) dict list \<Rightarrow>
   layout_error + (int, node_id) dict list" where
  "fill_layers g [] layers = Inr layers"
| "fill_layers g (v # vs) layers =
     (case node_label g v of
        None \<Rightarrow> Inl AssertionFailed
      | Some l \<Rightarrow>
          (case gn_rank l of
             None \<Rightarrow> fill_layers g vs layers
           | Some r \<Rightarrow>
               (case py_index (length layers) r of
                  None \<Rightarrow> Inl IndexFailed
                | Some i \<Rightarrow> fill_layers g vs (layers[i := dict_set (option_or (gn_order l) 0) v (layers ! i)]))))"

definition layer_row :: "(int, node_id) dict \<Rightarrow> node_id list" where
  "layer_row layer = map (\<lambda>k. the (dict_get layer k)) (sort (dict_keys layer))"

definition build_layer_matrix :: "('gl, graph_node, 'e) graph \<Rightarrow> layout_error + node_id list list" where
  "build_layer_matrix g =
     (case fill_layers g (graph_nodes g) (replicate (nat (max_rank g + 1)) []) of
        Inl e \<Rightarrow> Inl e | Inr layers \<Rightarrow> Inr (map layer_row layers))"

definition min_or_zero :: "int list \<Rightarrow> int" where
  "min_or_zero rs = (case rs of [] \<Rightarrow> 0 | r # rs \<Rightarrow> foldl min r rs)"

definition normalize_ranks :: "('gl, graph_node, 'e) graph \<Rightarrow> ('gl, graph_node, 'e) graph" where
  "normalize_ranks g =
     (let least = min_or_zero (map (rank_of g) (graph_nodes g))
      in foldl (\<lambda>g v. update_node g v (\<lambda>l. l\<lparr>gn_rank := map_option (\<lambda>r. r - least) (gn_rank l)\<rparr>)) g (graph_nodes g))"

text \<open>\<open>int(x)\<close> of a float: towards zero.\<close>

definition trunc :: "rat \<Rightarrow> int" where
  "trunc x = (if 0 \<le> x then \<lfloor>x\<rfloor> else \<lceil>x\<rceil>)"

definition rank_buckets :: "('gl, graph_node, 'e) graph \<Rightarrow> node_id list list" where
  "rank_buckets g =
     (let ranks = map (rank_of g) (graph_nodes g); offset = min_or_zero ranks;
          top = (case ranks of [] \<Rightarrow> 0 | r # rs \<Rightarrow> foldl max r rs) - offset
      in map (\<lambda>i. filter (\<lambda>v. rank_of g v - offset = int i) (graph_nodes g)) [0..<nat (top + 1)])"

definition shift_ranks :: "int \<Rightarrow> node_id list \<Rightarrow> ('gl, graph_node, 'e) graph \<Rightarrow> ('gl, graph_node, 'e) graph" where
  "shift_ranks delta vs g =
     foldl (\<lambda>g v. update_node g v (\<lambda>l. l\<lparr>gn_rank := Some (option_or (gn_rank l) 0 + delta)\<rparr>)) g vs"

fun close_gaps ::
  "int \<Rightarrow> int \<Rightarrow> int \<Rightarrow> node_id list list \<Rightarrow> ('gl, graph_node, 'e) graph \<Rightarrow> layout_error + ('gl, graph_node, 'e) graph" where
  "close_gaps factor i delta [] g = Inr g"
| "close_gaps factor i delta (vs # layers) g =
     (if vs = [] \<and> i mod factor \<noteq> 0 then close_gaps factor (i + 1) (delta - 1) layers g
      else if delta = 0 then close_gaps factor (i + 1) delta layers g
      else if \<exists>v\<in>set vs. node_label g v = None then Inl AssertionFailed
      else close_gaps factor (i + 1) delta layers (shift_ranks delta vs g))"

definition remove_empty_ranks ::
  "(graph_config, graph_node, 'e) graph \<Rightarrow> layout_error + (graph_config, graph_node, 'e) graph" where
  "remove_empty_ranks g =
     (if graph_nodes g = [] then Inr g
      else
        (let raw = (case glabel g of None \<Rightarrow> None | Some c \<Rightarrow> gc_node_rank_factor c);
             factor = trunc (option_or raw 0)
         in if factor \<le> 0 then Inr g else close_gaps factor 0 0 (rank_buckets g) g))"

record 'a partition_response =
  lhs :: "'a list"
  rhs :: "'a list"

definition py_partition_by :: "'a list \<Rightarrow> ('a \<Rightarrow> bool) \<Rightarrow> 'a partition_response" where
  "py_partition_by xs f = \<lparr>lhs = filter f xs, rhs = filter (\<lambda>x. \<not> f x) xs\<rparr>"

end
