(* ===== verification/Layout_Views.thy ===== *)
theory Layout_Views
  imports Layout_Util
begin

text \<open>
  What the layout passes do to a graph, described on its view: the nodes and their labels, the set
  of edge objects and their labels. Nodes are created, edges put and nodes without children
  removed; in a compound graph the removal of such a node reparents nothing.
\<close>

abbreviation plain_edge :: "node_id \<Rightarrow> node_id \<Rightarrow> edge" where
  "plain_edge v w \<equiv> \<lparr>edge_v = v, edge_w = w, edge_name = None\<rparr>"

lemma plain_edge_eta: "edge_name e = None \<Longrightarrow> plain_edge (edge_v e) (edge_w e) = e"
  by (cases e) simp

lemma clear_plain_edge [simp]: "clear_edge (plain_edge v w) \<longleftrightarrow> clear_end v \<and> clear_end w"
  by (simp add: clear_edge_def)

lemma graph_nodes_iff: "v \<in> set (graph_nodes g) \<longleftrightarrow> dict_has (nodes_map g) v"
  by (simp add: graph_nodes_def ohm_keys_def dict_has_iff del: set_map)

lemma node_label_known: "node_label g v \<noteq> None \<Longrightarrow> v \<in> set (graph_nodes g)"
  by (auto simp: node_label_def graph_nodes_iff dict_has_def split: option.splits)

section \<open>Nodes without children\<close>

definition leaf :: "('gl, 'n, 'e) graph \<Rightarrow> node_id \<Rightarrow> bool" where
  "leaf g v = (is_compound g \<longrightarrow> (\<forall>m. dict_get (children_map g) v = Some m \<longrightarrow> m = []))"

lemma leaf_cong: "children_map g = children_map h \<Longrightarrow> is_compound g = is_compound h \<Longrightarrow> leaf g v = leaf h v"
  by (simp add: leaf_def)

lemma is_compound_remove_from_list [simp]:
  "is_compound (remove_from_parents_child_list g x) = is_compound g"
  using remove_from_list_frame [of g x] by auto

lemma leaf_remove_from_list: "leaf g v \<Longrightarrow> leaf (remove_from_parents_child_list g x) v"
  by (auto simp: leaf_def remove_from_parents_child_list_def dict_simps split: option.splits if_splits)

lemma leaf_children: "leaf g v \<Longrightarrow> is_compound g \<Longrightarrow> graph_children g v = []"
  by (auto simp: leaf_def graph_children_def ohm_keys_def split: option.splits)

lemma leaf_known: "leaf g v \<Longrightarrow> children_known g v"
  by (simp add: children_known_def leaf_children leaf_remove_from_list)

lemma leaf_set_node:
  assumes "leaf g v \<or> v \<notin> set (graph_nodes g) \<and> x = v" and "v \<noteq> GRAPH_NODE"
  shows "leaf (set_node g x l) v"
  using assms
  by (auto simp: leaf_def set_node_def seed_forest_def Let_def graph_nodes_iff dict_simps ohm_new_def
      split: option.splits if_splits)

lemma option_field:
  "(\<And>m. children_map (f m) = children_map g) \<Longrightarrow>
   children_map (case x of None \<Rightarrow> g | Some m \<Rightarrow> f m) = children_map g"
  "(\<And>m. is_compound (f m) = is_compound g) \<Longrightarrow>
   is_compound (case x of None \<Rightarrow> g | Some m \<Rightarrow> f m) = is_compound g"
  by (simp_all split: option.split)

lemma link_edge_forest:
  "children_map (link_edge g v w l n) = children_map (set_node (set_node g v None) w None)"
  "is_compound (link_edge g v w l n) = is_compound g"
  by (simp_all add: link_edge_def Let_def option_field)

lemma children_remove_listed [simp]: "children_map (remove_listed_edges g ks) = children_map g"
  by simp

lemma detach_leaf:
  assumes "leaf g x" and "is_compound g"
  shows "detach_from_forest g x =
    (let g = remove_from_parents_child_list g x
     in g\<lparr>parent_map := dict_pop x (parent_map g), children_map := dict_pop x (children_map g)\<rparr>)"
proof -
  have "leaf ((remove_from_parents_child_list g x)\<lparr>parent_map := p\<rparr>) x" for p
    using leaf_remove_from_list [OF assms(1)] by (simp add: leaf_def)
  then have "graph_children ((remove_from_parents_child_list g x)\<lparr>parent_map := p\<rparr>) x = []" for p
    by (rule leaf_children) (simp add: assms(2))
  then show ?thesis by (simp add: detach_from_forest_def Let_def)
qed

lemma leaf_remove_node:
  assumes "leaf g x" and "leaf g v" and "v \<noteq> x"
  shows "leaf (remove_node g x) v \<and> is_compound (remove_node g x) = is_compound g"
proof (cases "dict_has (nodes_map g) x")
  case False
  then show ?thesis using assms by (simp add: remove_node_def)
next
  case True
  define g1 where "g1 = g\<lparr>nodes_map := dict_pop x (nodes_map g)\<rparr>"
  define g2 where "g2 = (if is_compound g1 then detach_from_forest g1 x else g1)"
  have "leaf g1 x" "leaf g1 v" using assms(1,2) by (simp_all add: g1_def leaf_def)
  then have g2: "leaf g2 v" "is_compound g2 = is_compound g"
    using leaf_remove_from_list [of g1 v x] assms(3)
    by (auto simp: g2_def detach_leaf Let_def leaf_def dict_simps) (simp_all add: g1_def)
  have "children_map (remove_node g x) = children_map g2" "is_compound (remove_node g x) = is_compound g2"
    using True
    by (simp_all add: remove_node_def Let_def option_field g2_def g1_def)
  with g2 show ?thesis by (simp add: leaf_def)
qed

section \<open>Nodes and edges\<close>

lemma clear_set_node:
  assumes "clear_graph g"
  shows "clear_graph (set_node g v l)" and "graph_edges (set_node g v l) = graph_edges g"
    and "edge_label_with_obj (set_node g v l) e = edge_label_with_obj g e"
    and "is_multigraph (set_node g v l) = is_multigraph g"
    and "set (graph_nodes (set_node g v l)) = insert v (set (graph_nodes g))"
    and "u \<noteq> v \<Longrightarrow> node_label (set_node g v l) u = node_label g u"
    and "l \<noteq> None \<Longrightarrow> node_label (set_node g v l) v = l"
proof -
  show edges: "graph_edges (set_node g v l) = graph_edges g" by (simp add: graph_edges_def)
  show "clear_graph (set_node g v l)"
    using assms by (simp add: clear_graph_def edges graph_ok_set_node)
  show "edge_label_with_obj (set_node g v l) e = edge_label_with_obj g e" by (simp add: edge_label_with_obj_def)
  show "is_multigraph (set_node g v l) = is_multigraph g" by simp
  show "set (graph_nodes (set_node g v l)) = insert v (set (graph_nodes g))" by (auto simp: graph_nodes_iff)
  show "u \<noteq> v \<Longrightarrow> node_label (set_node g v l) u = node_label g u"
    by (auto simp: node_label_def set_node_def Let_def dict_simps split: option.splits)
  show "l \<noteq> None \<Longrightarrow> node_label (set_node g v l) v = l"
    by (auto simp: node_label_def set_node_def Let_def dict_simps)
qed

lemma put_edge_total:
  "set_edge g v w l None = Inr (put_edge g v w l)"
  by (simp add: put_edge_def set_edge_def Let_def)

lemma clear_put_edge:
  assumes g: "clear_graph g" and e: "clear_end v" "clear_end w"
  shows "clear_graph (put_edge g v w (Some l))"
    and "set (graph_edges (put_edge g v w (Some l))) = insert (plain_edge v w) (set (graph_edges g))"
    and "clear_edge d \<Longrightarrow> edge_label_with_obj (put_edge g v w (Some l)) d =
      (if d = plain_edge v w then Some l else edge_label_with_obj g d)"
    and "is_multigraph (put_edge g v w (Some l)) = is_multigraph g"
    and "glabel (put_edge g v w (Some l)) = glabel g"
    and "v \<in> set (graph_nodes g) \<Longrightarrow> w \<in> set (graph_nodes g) \<Longrightarrow>
      graph_nodes (put_edge g v w (Some l)) = graph_nodes g"
    and "v \<in> set (graph_nodes g) \<Longrightarrow> w \<in> set (graph_nodes g) \<Longrightarrow>
      node_label (put_edge g v w (Some l)) u = node_label g u"
    and "v \<in> set (graph_nodes g) \<Longrightarrow> w \<in> set (graph_nodes g) \<Longrightarrow>
      leaf (put_edge g v w (Some l)) u = leaf g u"
proof -
  have ce: "clear_edge (plain_edge v w)" using e by simp
  have dir: "is_directed g" using clear_graph_ok [OF g] by (simp add: graph_ok_def)
  note view = set_edge_view [OF g ce refl put_edge_total]
  note nodes = set_edge_nodes [OF dir put_edge_total [of g v w "Some l"]]
  show "clear_graph (put_edge g v w (Some l))"
    "set (graph_edges (put_edge g v w (Some l))) = insert (plain_edge v w) (set (graph_edges g))"
    "is_multigraph (put_edge g v w (Some l)) = is_multigraph g"
    using view(1,2,4) .
  show "clear_edge d \<Longrightarrow> edge_label_with_obj (put_edge g v w (Some l)) d =
      (if d = plain_edge v w then Some l else edge_label_with_obj g d)" by (rule view(3))
  show "glabel (put_edge g v w (Some l)) = glabel g" by (rule nodes(1))
  assume "v \<in> set (graph_nodes g)" "w \<in> set (graph_nodes g)"
  then have known: "dict_has (nodes_map g) v" "dict_has (nodes_map g) w" by (simp_all add: graph_nodes_iff)
  note same = nodes(2) [OF known]
  show "graph_nodes (put_edge g v w (Some l)) = graph_nodes g"
    "node_label (put_edge g v w (Some l)) u = node_label g u"
    by (simp_all add: graph_nodes_def node_label_def same)
  have "children_map (put_edge g v w (Some l)) = children_map g \<and>
      is_compound (put_edge g v w (Some l)) = is_compound g"
    using dir put_edge_total [of g v w "Some l"]
  proof (cases rule: set_edge_Inr)
    case update
    then show ?thesis by simp
  next
    case create
    then show ?thesis by (simp add: link_edge_forest set_node_known known)
  qed
  then show "leaf (put_edge g v w (Some l)) u = leaf g u" by (simp add: leaf_def)
qed

lemma graph_edges_stored:
  assumes "graph_ok g"
  shows "e \<in> set (graph_edges g) \<longleftrightarrow> (\<exists>k. dict_get (edge_objs g) k = Some e)"
  using graph_ok_edge(1) [OF assms] by (auto simp: graph_edges_iff [OF assms])

lemma graph_edges_distinct:
  assumes ok: "graph_ok g"
  shows "distinct (graph_edges g)"
proof -
  have keys: "dict_ok (edge_objs g)" and ids: "\<And>k e. (k, e) \<in> set (edge_objs g) \<Longrightarrow> edge_obj_to_id True e = k"
    using ok graph_ok_edge(1) [OF ok] by (auto simp: graph_ok_def edges_ok_def)
  have "map (edge_obj_to_id True \<circ> snd) (edge_objs g) = dict_keys (edge_objs g)"
    using ids by (intro map_cong) auto
  from keys [folded this] have "distinct (map (edge_obj_to_id True \<circ> snd) (edge_objs g))" .
  then show ?thesis
    by (simp add: graph_edges_def ohm_values_def distinct_map flip: map_map)
qed

text \<open>Writing to the label of an edge of the graph.\<close>

lemma clear_update_edge:
  assumes g: "clear_graph g" and e: "e \<in> set (graph_edges g)"
  shows "clear_graph (update_edge g e f)" and "graph_edges (update_edge g e f) = graph_edges g"
    and "clear_edge d \<Longrightarrow> edge_label_with_obj (update_edge g e f) d =
      (if d = e then map_option f (edge_label_with_obj g e) else edge_label_with_obj g d)"
    and "graph_nodes (update_edge g e f) = graph_nodes g" and "node_label (update_edge g e f) v = node_label g v"
    and "glabel (update_edge g e f) = glabel g" and "leaf (update_edge g e f) v = leaf g v"
    and "is_multigraph (update_edge g e f) = is_multigraph g"
proof -
  have ok: "graph_ok g" and dir: "is_directed g" using clear_graph_ok [OF g] by (simp_all add: graph_ok_def)
  have clear: "clear_edge e" using clear_graph_edge [OF g e] .
  have "dict_get (edge_labels g) (edge_obj_to_id True e) \<noteq> None"
    using label_known [OF g clear] e by (simp add: dict_has_def)
  then have known: "dict_has (edge_labels g) (edge_obj_to_id True e)" by (simp add: dict_has_def)
  show edges: "graph_edges (update_edge g e f) = graph_edges g"
    by (simp add: update_edge_def graph_edges_def split: option.split)
  have "graph_ok (update_edge g e f)"
    using ok known same_keys_set_left [of "edge_labels g" "edge_objs g" "edge_obj_to_id True e"] dir
    by (auto simp: update_edge_def graph_ok_def same_keys_def split: option.split)
  then show "clear_graph (update_edge g e f)" using g by (simp add: clear_graph_def edges)
  show "edge_label_with_obj (update_edge g e f) d =
      (if d = e then map_option f (edge_label_with_obj g e) else edge_label_with_obj g d)" if "clear_edge d"
    using dir edge_id_clear [OF that clear]
    by (auto simp: update_edge_def edge_label_with_obj_def dict_simps split: option.split)
  show "graph_nodes (update_edge g e f) = graph_nodes g" "node_label (update_edge g e f) v = node_label g v"
    "glabel (update_edge g e f) = glabel g" "leaf (update_edge g e f) v = leaf g v"
    "is_multigraph (update_edge g e f) = is_multigraph g"
    by (simp_all add: update_edge_def graph_nodes_def node_label_def leaf_def split: option.split)
qed

text \<open>Removing a node without children whose edges carry no name.\<close>

lemma clear_remove_node:
  assumes g: "clear_graph g" and leaf: "leaf g v" and v: "v \<in> set (graph_nodes g)"
    and plain: "\<And>e. e \<in> set (graph_edges g) \<Longrightarrow> edge_v e = v \<or> edge_w e = v \<Longrightarrow> edge_name e = None"
  shows "clear_graph (remove_node g v)"
    and "set (graph_edges (remove_node g v)) = {e \<in> set (graph_edges g). edge_v e \<noteq> v \<and> edge_w e \<noteq> v}"
    and "e \<in> set (graph_edges g) \<Longrightarrow> edge_v e \<noteq> v \<Longrightarrow> edge_w e \<noteq> v \<Longrightarrow>
      edge_label_with_obj (remove_node g v) e = edge_label_with_obj g e"
    and "set (graph_nodes (remove_node g v)) = set (graph_nodes g) - {v}"
    and "u \<noteq> v \<Longrightarrow> node_label (remove_node g v) u = node_label g u"
    and "glabel (remove_node g v) = glabel g" and "is_multigraph (remove_node g v) = is_multigraph g"
proof -
  have ok: "graph_ok g" and dir: "is_directed g" using clear_graph_ok [OF g] by (simp_all add: graph_ok_def)
  have "plain_at g v" using plain graph_edges_stored [OF ok] by (auto simp: plain_at_def)
  note r = remove_node_correct [OF ok this leaf_known [OF leaf] v [unfolded graph_nodes_iff]]
  have ok': "graph_ok (remove_node g v)" using r by blast
  then have dir': "is_directed (remove_node g v)" by (simp add: graph_ok_def)
  have objs: "dict_get (edge_objs (remove_node g v)) k = Some e \<longleftrightarrow>
      dict_get (edge_objs g) k = Some e \<and> edge_v e \<noteq> v \<and> edge_w e \<noteq> v" for k e
    using r [of k] by (auto split: option.splits if_splits)
  show edges: "set (graph_edges (remove_node g v)) = {e \<in> set (graph_edges g). edge_v e \<noteq> v \<and> edge_w e \<noteq> v}"
    unfolding set_eq_iff mem_Collect_eq graph_edges_stored [OF ok] graph_edges_stored [OF ok'] objs by blast
  show "clear_graph (remove_node g v)" using ok' g by (auto simp: clear_graph_def edges)
  show "edge_label_with_obj (remove_node g v) e = edge_label_with_obj g e"
    if "e \<in> set (graph_edges g)" "edge_v e \<noteq> v" "edge_w e \<noteq> v"
  proof -
    have "dict_get (edge_objs (remove_node g v)) (edge_obj_to_id True e) = Some e"
      using that edges by (simp flip: graph_edges_iff [OF ok'])
    with r show ?thesis using dir dir' by (simp add: edge_label_with_obj_def)
  qed
  show "set (graph_nodes (remove_node g v)) = set (graph_nodes g) - {v}"
    using r by (auto simp: graph_nodes_iff)
  show "node_label (remove_node g v) u = node_label g u" if "u \<noteq> v"
    using r that by (simp add: node_label_def dict_simps)
  show "glabel (remove_node g v) = glabel g" "is_multigraph (remove_node g v) = is_multigraph g"
    using r by simp_all
qed

section \<open>Adjacency and fresh nodes\<close>

lemma successors_view:
  assumes ok: "graph_ok g" and v: "v \<in> set (graph_nodes g)"
  obtains ws where "successors g v = Some ws" "distinct ws"
    "set ws = edge_w ` {e \<in> set (graph_edges g). edge_v e = v}"
proof -
  obtain m where m: "dict_get (sucs_map g) v = Some m"
    using graph_ok_lookup [OF ok] v by (auto simp: graph_nodes_iff)
  have parts: "multiplicity_ok (sucs_map g) edge_v edge_w (edge_objs g)" "dict_ok (edge_objs g)"
    using ok by (simp_all add: graph_ok_def edges_ok_def)
  show ?thesis
  proof (rule that)
    show "successors g v = Some (ohm_keys m)" by (simp add: successors_def m)
    show "distinct (ohm_keys m)" by (rule multiplicity_keys(1) [OF parts m])
    show "set (ohm_keys m) = edge_w ` {e \<in> set (graph_edges g). edge_v e = v}"
      by (auto simp: multiplicity_keys(2) [OF parts m] graph_edges_def ohm_values_def)
  qed
qed

lemma only_successor:
  assumes "graph_ok g" and "v \<in> set (graph_nodes g)"
    and "edge_w ` {e \<in> set (graph_edges g). edge_v e = v} = {w}"
  shows "successors g v = Some [w]"
proof (rule successors_view [OF assms(1,2)])
  fix ws assume "successors g v = Some ws" "distinct ws" "set ws = edge_w ` {e \<in> set (graph_edges g). edge_v e = v}"
  moreover from this assms(3) have "length ws = card {w}" by (simp flip: distinct_card)
  ultimately show ?thesis using assms(3) by (auto simp: length_Suc_conv)
qed

lemma fresh_id_spec:
  assumes "fresh_id g name uid = (v, uid')"
  shows "v \<notin> set (graph_nodes g)" and "\<exists>n\<ge>uid. v = dummy_name name n \<and> uid' = Suc n"
proof -
  have "v \<notin> set (graph_nodes g) \<and> (\<exists>n\<ge>uid. v = dummy_name name n \<and> uid' = Suc n)"
    using assms
  proof (induction g name uid rule: fresh_id.induct)
    case (1 g name uid)
    show ?case
    proof (cases "has_node g (dummy_name name uid)")
      case True
      with 1(2) have "fresh_id g name (Suc uid) = (v, uid')"
        by (subst (asm) fresh_id.simps) (simp add: unique_id_def)
      from 1(1) [OF _ refl refl True this] show ?thesis
        by (auto simp: unique_id_def intro: Suc_leD)
    next
      case False
      with 1(2) show ?thesis
        by (subst (asm) fresh_id.simps) (auto simp: unique_id_def has_node_def graph_nodes_iff)
    qed
  qed
  then show "v \<notin> set (graph_nodes g)" "\<exists>n\<ge>uid. v = dummy_name name n \<and> uid' = Suc n" by simp_all
qed

lemma clear_add_dummy_node:
  assumes g: "clear_graph g" and d: "add_dummy_node g ty data name uid = (v, g', uid')"
  shows "clear_graph g'" and "graph_edges g' = graph_edges g"
    and "edge_label_with_obj g' e = edge_label_with_obj g e"
    and "set (graph_nodes g') = insert v (set (graph_nodes g))" and "v \<notin> set (graph_nodes g)"
    and "node_label g' u = (if u = v then Some (data\<lparr>gn_dummy := Some ty\<rparr>) else node_label g u)"
    and "glabel g' = glabel g" and "is_multigraph g' = is_multigraph g"
    and "\<exists>n\<ge>uid. v = dummy_name name n \<and> uid' = Suc n"
proof -
  obtain n where f: "fresh_id g name uid = (v, uid')" and g': "g' = set_node g v (Some (data\<lparr>gn_dummy := Some ty\<rparr>))"
    using d by (auto simp: add_dummy_node_def split: prod.splits)
  show "v \<notin> set (graph_nodes g)" "\<exists>n\<ge>uid. v = dummy_name name n \<and> uid' = Suc n"
    using fresh_id_spec [OF f] by simp_all
  note view = clear_set_node [OF g, where v = v and l = "Some (data\<lparr>gn_dummy := Some ty\<rparr>)", folded g']
  show "clear_graph g'" "graph_edges g' = graph_edges g" "edge_label_with_obj g' e = edge_label_with_obj g e"
    "set (graph_nodes g') = insert v (set (graph_nodes g))" "is_multigraph g' = is_multigraph g"
    "node_label g' u = (if u = v then Some (data\<lparr>gn_dummy := Some ty\<rparr>) else node_label g u)"
    "glabel g' = glabel g"
    using view by (auto simp: g')
qed

section \<open>Writing to the label of a node\<close>

lemma update_node_set_node:
  "node_label g v = Some l \<Longrightarrow> update_node g v f = set_node g v (Some (f l))"
  by (auto simp: update_node_def node_label_def set_node_def dict_has_def split: option.splits)

lemma update_node_absent: "node_label g v = None \<Longrightarrow> update_node g v f = g"
  by (simp add: update_node_def)

lemma clear_update_node:
  assumes "clear_graph g"
  shows "clear_graph (update_node g v f)" and "graph_edges (update_node g v f) = graph_edges g"
    and "edge_label_with_obj (update_node g v f) e = edge_label_with_obj g e"
    and "set (graph_nodes (update_node g v f)) = set (graph_nodes g)"
    and "glabel (update_node g v f) = glabel g" and "leaf (update_node g v f) u = leaf g u"
    and "is_multigraph (update_node g v f) = is_multigraph g"
proof -
  have nodes: "v \<in> set (graph_nodes g)" if "node_label g v = Some l" for l
    using that node_label_known [of g v] by simp
  have "leaf (set_node g v (Some x)) u = leaf g u" if "v \<in> set (graph_nodes g)" for x
    using that by (simp add: set_node_def leaf_def graph_nodes_iff)
  then show "leaf (update_node g v f) u = leaf g u"
    using nodes by (cases "node_label g v") (simp_all add: update_node_absent update_node_set_node)
  show "clear_graph (update_node g v f)" "graph_edges (update_node g v f) = graph_edges g"
    "edge_label_with_obj (update_node g v f) e = edge_label_with_obj g e"
    "set (graph_nodes (update_node g v f)) = set (graph_nodes g)" "glabel (update_node g v f) = glabel g"
    "is_multigraph (update_node g v f) = is_multigraph g"
    using clear_set_node(1-5) [OF assms] nodes assms
    by (cases "node_label g v"; auto simp: update_node_absent update_node_set_node)+
qed

lemma clear_new_graph:
  "(case opts of None \<Rightarrow> True | Some opt \<Rightarrow> opt_directed opt \<noteq> Some False) \<Longrightarrow> clear_graph (new_graph opts nf ef)"
  by (simp add: clear_graph_def graph_ok_new graph_edges_def ohm_values_def)

lemma clear_glabel [simp]: "clear_graph (g\<lparr>glabel := c\<rparr>) = clear_graph g"
  by (simp add: clear_graph_def graph_edges_def)

end
