(* ===== verification/Normalize.thy ===== *)
theory Normalize
  imports Layout_Views Acyclic
begin

text \<open>
  The normalisation of long edges (\<open>dagre/layout/normalize.py\<close>). \<open>run\<close> replaces an edge over
  several ranks by a chain of dummy nodes, one per rank between its ends, and records the heads of
  the chains; \<open>undo\<close> walks each chain, turns its dummies into the points of the edge and puts the
  edge back. The label that \<open>run\<close> keeps in each dummy is a copy.
\<close>

section \<open>Breaking an edge\<close>

definition record_chain :: "(graph_config, 'n, 'e) graph \<Rightarrow> node_id \<Rightarrow> (graph_config, 'n, 'e) graph" where
  "record_chain g dummy =
     g\<lparr>glabel := map_option (\<lambda>c. c\<lparr>gc_dummy_chains := Some (option_or (gc_dummy_chains c) [] @ [dummy])\<rparr>) (glabel g)\<rparr>"

definition dummy_attrs :: "edge \<Rightarrow> graph_edge \<Rightarrow> int \<Rightarrow> graph_node" where
  "dummy_attrs e label rank =
     (let attrs = default_graph_node\<lparr>gn_edge_label := Some label, gn_edge_obj := Some e, gn_rank := Some rank\<rparr>
      in if rank = option_or (ge_label_rank label) 0
         then attrs\<lparr>gn_width := option_or (ge_width label) 0, gn_height := option_or (ge_height label) 0,
                    gn_labelpos := ge_labelpos label\<rparr>
         else attrs)"

definition dummy_type :: "graph_edge \<Rightarrow> int \<Rightarrow> string" where
  "dummy_type label rank = (if rank = option_or (ge_label_rank label) 0 then ''edge-label'' else ''edge'')"

definition segment_label :: "graph_edge \<Rightarrow> graph_edge" where
  "segment_label label = default_graph_edge\<lparr>ge_weight := ge_weight label\<rparr>"

text \<open>The loop over the ranks between the ends; \<open>v\<close> is the end of the chain so far.\<close>

function add_dummies ::
  "edge \<Rightarrow> graph_edge \<Rightarrow> bool \<Rightarrow> node_id \<Rightarrow> int \<Rightarrow> int \<Rightarrow> (graph_config, graph_node, graph_edge) graph \<Rightarrow> nat \<Rightarrow>
   node_id \<times> (graph_config, graph_node, graph_edge) graph \<times> nat" where
  "add_dummies e label first v v_rank w_rank g uid =
     (if v_rank < w_rank
      then (let (dummy, g, uid) = add_dummy_node g (dummy_type label v_rank) (dummy_attrs e label v_rank) ''_d'' uid;
                g = put_edge g v dummy (Some (segment_label label));
                g = (if first then record_chain g dummy else g)
            in add_dummies e label False dummy (v_rank + 1) w_rank g uid)
      else (v, g, uid))"
  by pat_completeness auto
termination by (relation "measure (\<lambda>(e, label, first, v, v_rank, w_rank, g, uid). nat (w_rank - v_rank))") auto

declare add_dummies.simps [simp del]

definition normalize_edge ::
  "(graph_config, graph_node, graph_edge) graph \<times> nat \<Rightarrow> edge \<Rightarrow>
   (graph_config, graph_node, graph_edge) graph \<times> nat" where
  "normalize_edge st e =
     (let (g, uid) = st; v_rank = rank_of g (edge_v e); w_rank = rank_of g (edge_w e)
      in case edge_label_with_obj g e of
           None \<Rightarrow> (g, uid)
         | Some l \<Rightarrow>
             (let g = update_edge g e (\<lambda>l. l\<lparr>ge_points := Some []\<rparr>); label = l\<lparr>ge_points := Some []\<rparr>
              in if w_rank = v_rank + 1 then (g, uid)
                 else
                   (let (v, g, uid) = add_dummies e label True (edge_v e) (v_rank + 1) w_rank
                          (remove_edge_with_obj g e) uid
                    in (put_edge g v (edge_w e) (Some (segment_label label)), uid))))"

definition normalize_run ::
  "(graph_config, graph_node, graph_edge) graph \<Rightarrow> nat \<Rightarrow>
   layout_error + ((graph_config, graph_node, graph_edge) graph \<times> nat)" where
  "normalize_run g uid =
     (case glabel g of
        None \<Rightarrow> Inl AssertionFailed
      | Some c \<Rightarrow> Inr (foldl normalize_edge (g\<lparr>glabel := Some (c\<lparr>gc_dummy_chains := Some []\<rparr>)\<rparr>, uid) (graph_edges g)))"

section \<open>Collapsing the chains\<close>

text \<open>What a dummy leaves on the label of its edge.\<close>

definition take_waypoint :: "graph_node \<Rightarrow> graph_edge \<Rightarrow> graph_edge" where
  "take_waypoint node label =
     (let label = label\<lparr>ge_points := map_option (\<lambda>ps. ps @ [\<lparr>ep_x = gn_x node, ep_y = gn_y node\<rparr>]) (ge_points label)\<rparr>
      in if gn_dummy node = Some ''edge-label''
         then label\<lparr>ge_x := gn_x node, ge_y := gn_y node, ge_width := Some (gn_width node), ge_height := Some (gn_height node)\<rparr>
         else label)"

text \<open>The walk along a chain; \<^const>\<open>None\<close> is a walk that does not end.\<close>

partial_function (option) walk_chain ::
  "(graph_config, graph_node, graph_edge) graph \<Rightarrow> node_id \<Rightarrow> graph_node \<Rightarrow> graph_edge \<Rightarrow>
   (layout_error + ((graph_config, graph_node, graph_edge) graph \<times> graph_edge)) option" where
  "walk_chain g v node label =
     (if gn_dummy node = None then Some (Inr (g, label))
      else
        (let w = (case successors g v of None \<Rightarrow> [] | Some [] \<Rightarrow> [] | Some (w # ws) \<Rightarrow> w);
             g = remove_node g v
         in if ge_points label = None then Some (Inl AssertionFailed)
            else (case node_label g w of
                    None \<Rightarrow> Some (Inl AssertionFailed)
                  | Some next_node \<Rightarrow> walk_chain g w next_node (take_waypoint node label))))"

declare walk_chain.simps [code]

fun undo_chains ::
  "(graph_config, graph_node, graph_edge) graph \<Rightarrow> node_id list \<Rightarrow>
   (layout_error + (graph_config, graph_node, graph_edge) graph) option" where
  "undo_chains g [] = Some (Inr g)"
| "undo_chains g (v # vs) =
     (case node_label g v of
        None \<Rightarrow> undo_chains g vs
      | Some node \<Rightarrow>
          (case gn_edge_obj node of
             None \<Rightarrow> Some (Inl AssertionFailed)
           | Some e \<Rightarrow>
               (case walk_chain g v node (option_or (gn_edge_label node) default_graph_edge) of
                  None \<Rightarrow> None
                | Some (Inl err) \<Rightarrow> Some (Inl err)
                | Some (Inr (g, label)) \<Rightarrow>
                    (case set_edge_with_obj g e (Some label) of
                       Inl err \<Rightarrow> Some (Inl (GraphFailed err)) | Inr g \<Rightarrow> undo_chains g vs))))"

definition normalize_undo ::
  "(graph_config, graph_node, graph_edge) graph \<Rightarrow>
   (layout_error + (graph_config, graph_node, graph_edge) graph) option" where
  "normalize_undo g =
     (case glabel g of
        None \<Rightarrow> Some (Inr g)
      | Some c \<Rightarrow> (case gc_dummy_chains c of None \<Rightarrow> Some (Inr g) | Some vs \<Rightarrow> undo_chains g vs))"

section \<open>Chains\<close>

text \<open>A chain is the edge it stands for, the label kept in its dummies, and the dummies.\<close>

type_synonym chain = "edge \<times> graph_edge \<times> node_id list"

fun path :: "node_id \<Rightarrow> node_id list \<Rightarrow> edge list" where
  "path v [] = []"
| "path v (d # ds) = plain_edge v d # path d ds"

lemma path_append: "path v (ds @ [d]) = path v ds @ [plain_edge (last (v # ds)) d]"
  by (induction v ds rule: path.induct) auto

lemma path_ends:
  "x \<in> set (path v ds) \<Longrightarrow> edge_v x \<in> set (butlast (v # ds)) \<and> edge_w x \<in> set ds \<and> edge_name x = None"
  by (induction v ds rule: path.induct) (auto split: if_splits)

lemma path_nth:
  "x \<in> set (path v ds) \<longleftrightarrow> (\<exists>i<length ds. x = plain_edge ((v # ds) ! i) (ds ! i))"
  by (induction v ds rule: path.induct) (simp_all add: Ex_less_Suc2)

text \<open>In a path without repetition, one edge leaves each inner node.\<close>

lemma path_successor:
  assumes "distinct (v # ds)" and "i < length ds"
  shows "{x \<in> set (path v (ds @ [w])). edge_v x = ds ! i} = {plain_edge (ds ! i) ((ds @ [w]) ! Suc i)}"
proof -
  have only: "x = plain_edge (ds ! i) ((ds @ [w]) ! Suc i)"
    if x: "x \<in> set (path v (ds @ [w]))" "edge_v x = ds ! i" for x
  proof -
    from x(1) obtain j where j: "j < Suc (length ds)" "x = plain_edge ((v # ds @ [w]) ! j) ((ds @ [w]) ! j)"
      by (auto simp: path_nth)
    have "(v # ds) ! j = (v # ds) ! Suc i"
      using x(2) j assms(2) by (cases j) (auto simp: nth_append)
    with assms j(1) have "j = Suc i" by (subst (asm) nth_eq_iff_index_eq) auto
    with j(2) assms(2) show ?thesis by (simp add: nth_append)
  qed
  have "plain_edge (ds ! i) ((ds @ [w]) ! Suc i) \<in> set (path v (ds @ [w]))"
    unfolding path_nth using assms(2) by (intro exI [of _ "Suc i"]) (simp add: nth_append)
  then show ?thesis by (intro equalityI subsetI) (simp_all add: only)
qed

section \<open>What a chain of dummies adds\<close>

definition dummy_node :: "edge \<Rightarrow> graph_edge \<Rightarrow> int \<Rightarrow> graph_node" where
  "dummy_node e label rank = (dummy_attrs e label rank)\<lparr>gn_dummy := Some (dummy_type label rank)\<rparr>"

lemma dummy_node_fields [simp]:
  "gn_dummy (dummy_node e label rank) = Some (dummy_type label rank)"
  "gn_edge_obj (dummy_node e label rank) = Some e" "gn_edge_label (dummy_node e label rank) = Some label"
  "gn_rank (dummy_node e label rank) = Some rank"
  by (simp_all add: dummy_node_def dummy_attrs_def Let_def)

lemma dummy_name_clear: "clear_end (dummy_name ''_d'' n) \<and> dummy_name ''_d'' n \<noteq> GRAPH_NODE"
proof -
  have "CHR 0x01 \<notin> set (py_str_nat n)"
    using py_str_nat_digits [of "CHR 0x01" n] by (auto simp: is_digit_def code_point_def)
  then show ?thesis by (auto simp: clear_end_def dummy_name_def GRAPH_NODE_def)
qed

lemma record_chain_frame [simp]:
  "clear_graph (record_chain g d) = clear_graph g" "graph_edges (record_chain g d) = graph_edges g"
  "edge_label_with_obj (record_chain g d) e = edge_label_with_obj g e"
  "graph_nodes (record_chain g d) = graph_nodes g" "node_label (record_chain g d) v = node_label g v"
  "leaf (record_chain g d) v = leaf g v" "is_multigraph (record_chain g d) = is_multigraph g"
  by (simp_all add: record_chain_def clear_graph_def graph_ok_def graph_edges_def edge_label_with_obj_def
      graph_nodes_def node_label_def leaf_def)

lemma leaf_add_dummy_node:
  assumes "add_dummy_node g ty data ''_d'' uid = (d, g', uid')" and "clear_graph g"
  shows "leaf g' d" and "leaf g u \<Longrightarrow> u \<noteq> GRAPH_NODE \<Longrightarrow> leaf g' u"
proof -
  have g': "g' = set_node g d (Some (data\<lparr>gn_dummy := Some ty\<rparr>))"
    using assms(1) by (auto simp: add_dummy_node_def split: prod.splits)
  have d: "d \<notin> set (graph_nodes g)" "d \<noteq> GRAPH_NODE"
    using clear_add_dummy_node(5,9) [OF assms(2,1)] dummy_name_clear by auto
  show "leaf g' d" unfolding g' by (rule leaf_set_node) (use d in auto)
  show "leaf g u \<Longrightarrow> u \<noteq> GRAPH_NODE \<Longrightarrow> leaf g' u" unfolding g' by (rule leaf_set_node) auto
qed

text \<open>The graph grows by the nodes \<open>ds\<close> and a path over them; what was there stays as it was.\<close>

definition grown :: "('gl, 'n, 'e) graph \<Rightarrow> ('gl, 'n, 'e) graph \<Rightarrow> node_id list \<Rightarrow> edge set \<Rightarrow> bool" where
  "grown g g' ds F =
     (clear_graph g' \<and> distinct ds \<and> set ds \<inter> set (graph_nodes g) = {} \<and>
      set (graph_nodes g') = set (graph_nodes g) \<union> set ds \<and>
      set (graph_edges g') = set (graph_edges g) \<union> F \<and>
      (\<forall>u\<in>set (graph_nodes g). node_label g' u = node_label g u) \<and>
      (\<forall>e\<in>set (graph_edges g) - F. edge_label_with_obj g' e = edge_label_with_obj g e) \<and>
      (\<forall>u. u \<noteq> GRAPH_NODE \<longrightarrow> leaf g u \<longrightarrow> leaf g' u) \<and>
      (\<forall>d\<in>set ds. clear_end d \<and> d \<noteq> GRAPH_NODE \<and> leaf g' d))"

lemma grown_refl: "clear_graph g \<Longrightarrow> grown g g [] {}"
  by (simp add: grown_def)

lemma grown_trans:
  assumes "grown g g1 ds F" and "grown g1 g2 ds' F'"
  shows "grown g g2 (ds @ ds') (F \<union> F')"
proof -
  note a = assms(1) [unfolded grown_def] and b = assms(2) [unfolded grown_def]
  have nodes: "set (graph_nodes g1) = set (graph_nodes g) \<union> set ds" "set ds \<inter> set (graph_nodes g) = {}"
    "set (graph_edges g1) = set (graph_edges g) \<union> F" "distinct ds"
    using a by simp_all
  have new: "clear_end d" "d \<noteq> GRAPH_NODE" "leaf g1 d" if "d \<in> set ds" for d using a that by simp_all
  show ?thesis
    unfolding grown_def
  proof (intro conjI)
    show "distinct (ds @ ds')" "set (ds @ ds') \<inter> set (graph_nodes g) = {}" using nodes b by auto
    show "\<forall>u\<in>set (graph_nodes g). node_label g2 u = node_label g u" using a b by simp
    show "\<forall>e\<in>set (graph_edges g) - (F \<union> F'). edge_label_with_obj g2 e = edge_label_with_obj g e"
      using a b by simp
    show "\<forall>u. u \<noteq> GRAPH_NODE \<longrightarrow> leaf g u \<longrightarrow> leaf g2 u" using a b by simp
    show "\<forall>d\<in>set (ds @ ds'). clear_end d \<and> d \<noteq> GRAPH_NODE \<and> leaf g2 d" using new b by auto
  qed (use nodes b in \<open>simp_all add: Un_assoc\<close>)
qed

lemma grown_dummy:
  assumes g: "clear_graph g" and v: "v \<in> set (graph_nodes g)" "clear_end v"
    and d: "add_dummy_node g ty data ''_d'' uid = (d, g1, uid')"
  shows "grown g (put_edge g1 v d (Some l)) [d] {plain_edge v d}"
    and "node_label (put_edge g1 v d (Some l)) d = Some (data\<lparr>gn_dummy := Some ty\<rparr>)"
    and "glabel (put_edge g1 v d (Some l)) = glabel g"
proof -
  note a = clear_add_dummy_node [OF g d] and f = leaf_add_dummy_node [OF d g]
  have d_ok: "clear_end d" "d \<noteq> GRAPH_NODE" using a(9) dummy_name_clear by auto
  have ends: "v \<in> set (graph_nodes g1)" "d \<in> set (graph_nodes g1)" using a(4) v(1) by auto
  note p = clear_put_edge [OF a(1) v(2) d_ok(1)]
  show "node_label (put_edge g1 v d (Some l)) d = Some (data\<lparr>gn_dummy := Some ty\<rparr>)"
    by (simp add: p(7) [OF ends] a(6))
  show "glabel (put_edge g1 v d (Some l)) = glabel g" by (simp add: p(5) a(7))
  show "grown g (put_edge g1 v d (Some l)) [d] {plain_edge v d}"
    unfolding grown_def
    using a(5) d_ok f
    by (auto simp: p(1,2) p(6,7,8) [OF ends] a(2,4,6) p(3) [OF clear_graph_edge [OF g]] a(3))
qed

lemma add_dummies_view:
  assumes "clear_graph g" and "v \<in> set (graph_nodes g)" and "clear_end v"
    and "add_dummies e l first v vr wr g uid = (v', g', uid')"
  shows "\<exists>ds. length ds = nat (wr - vr) \<and> v' = last (v # ds) \<and> grown g g' ds (set (path v ds)) \<and>
    (\<forall>i<length ds. node_label g' (ds ! i) = Some (dummy_node e l (vr + int i))) \<and>
    glabel g' = (if first \<and> ds \<noteq> [] then glabel (record_chain g (hd ds)) else glabel g)"
  using assms
proof (induction e l first v vr wr g uid rule: add_dummies.induct)
  case (1 e l first v vr wr g uid)
  show ?case
  proof (cases "vr < wr")
    case False
    with 1 show ?thesis
      by (intro exI [of _ "[]"]) (simp add: add_dummies.simps [of e l first v vr] grown_refl)
  next
    case True
    obtain d g1 u1 where d: "add_dummy_node g (dummy_type l vr) (dummy_attrs e l vr) ''_d'' uid = (d, g1, u1)"
      by (rule prod_cases3)
    define g2 where "g2 = put_edge g1 v d (Some (segment_label l))"
    define g3 where "g3 = (if first then record_chain g2 d else g2)"
    note one = grown_dummy [OF 1(2-4) d, where l = "segment_label l", folded g2_def]
    have grown3: "grown g g3 [d] {plain_edge v d}" using one(1) by (simp add: grown_def g3_def)
    then have d3: "clear_graph g3" "d \<in> set (graph_nodes g3)" "clear_end d" by (simp_all add: grown_def)
    have rest: "add_dummies e l False d (vr + 1) wr g3 u1 = (v', g', uid')"
      using 1(5) True
      by (cases first) (simp_all add: add_dummies.simps [of e l _ v vr] d g3_def g2_def Let_def)
    have label3: "node_label g3 d = Some (dummy_node e l vr)" using one(2) by (simp add: g3_def dummy_node_def)
    have glabel3: "glabel g3 = (if first then glabel (record_chain g d) else glabel g)"
      using one(3) by (simp add: g3_def record_chain_def)
    obtain ds where ds: "length ds = nat (wr - (vr + 1))" "v' = last (d # ds)" "grown g3 g' ds (set (path d ds))"
      "\<forall>i<length ds. node_label g' (ds ! i) = Some (dummy_node e l (vr + 1 + int i))" "glabel g' = glabel g3"
      using 1(1) [OF True d [symmetric] refl refl g2_def g3_def d3 rest] by auto
    have "grown g g' (d # ds) (set (path v (d # ds)))" using grown_trans [OF grown3 ds(3)] by simp
    moreover have "node_label g' d = Some (dummy_node e l vr)" using ds(3) d3(2) label3 by (simp add: grown_def)
    then have "\<forall>i<length (d # ds). node_label g' ((d # ds) ! i) = Some (dummy_node e l (vr + int i))"
      using ds(4) by (auto simp: less_Suc_eq_0_disj add.assoc)
    ultimately show ?thesis using ds True glabel3 by (intro exI [of _ "d # ds"]) auto
  qed
qed

text \<open>One turn of the loop of \<open>run\<close>.\<close>

abbreviation empty_points :: "graph_edge \<Rightarrow> graph_edge" where
  "empty_points l \<equiv> l\<lparr>ge_points := Some []\<rparr>"

lemma normalize_edge_short:
  assumes "edge_label_with_obj g e = Some l" and "rank_of g (edge_w e) = rank_of g (edge_v e) + 1"
  shows "normalize_edge (g, uid) e = (update_edge g e empty_points, uid)"
  using assms by (simp add: normalize_edge_def Let_def)

lemma normalize_edge_long:
  assumes g: "clear_graph g" and e: "e \<in> set (graph_edges g)" "edge_name e = None"
    and l: "edge_label_with_obj g e = Some l" and rank: "rank_of g (edge_v e) + 1 < rank_of g (edge_w e)"
    and run: "normalize_edge (g, uid) e = (g', uid')"
  shows "\<exists>ds h. grown h g' ds (set (path (edge_v e) (ds @ [edge_w e]))) \<and> clear_graph h \<and>
    set (graph_edges h) = set (graph_edges g) - {e} \<and> graph_nodes h = graph_nodes g \<and>
    (\<forall>d\<in>set (graph_edges h). edge_label_with_obj h d = edge_label_with_obj g d) \<and>
    (\<forall>v. node_label h v = node_label g v) \<and> (\<forall>v. leaf h v = leaf g v) \<and>
    int (length ds) = rank_of g (edge_w e) - rank_of g (edge_v e) - 1 \<and>
    (\<forall>i<length ds. node_label g' (ds ! i) = Some (dummy_node e (empty_points l) (rank_of g (edge_v e) + 1 + int i))) \<and>
    glabel g' = glabel (record_chain g (hd ds))"
proof -
  define g1 where "g1 = update_edge g e empty_points"
  define h where "h = remove_edge_with_obj g1 e"
  note u = clear_update_edge [OF g e(1), where f = empty_points, folded g1_def]
  have clear: "clear_edge e" using clear_graph_edge [OF g e(1)] .
  have e_eq: "e = plain_edge (edge_v e) (edge_w e)" using plain_edge_eta [OF e(2)] by simp
  note r = remove_edge_view [OF u(1) clear e_eq, folded remove_edge_with_obj_def h_def]
  have frame: "graph_nodes h = graph_nodes g" "glabel h = glabel g" "node_label h v = node_label g v"
    "leaf h v = leaf g v" for v
    using u(4-7) by (simp_all add: h_def remove_edge_with_obj_def graph_nodes_def node_label_def leaf_def)
  have labels: "\<forall>d\<in>set (graph_edges h). edge_label_with_obj h d = edge_label_with_obj g d"
    using r(2,3) u(2,3) clear_graph_edge [OF g] by auto
  have ends: "edge_v e \<in> set (graph_nodes h)" "edge_w e \<in> set (graph_nodes h)"
    using edge_ends_known [OF clear_graph_ok [OF g] e(1)] by (simp_all add: frame)
  have clear_ends: "clear_end (edge_v e)" "clear_end (edge_w e)" using clear by (simp_all add: clear_edge_def)
  obtain v g2 uid2 where a: "add_dummies e (empty_points l) True (edge_v e) (rank_of g (edge_v e) + 1)
      (rank_of g (edge_w e)) h uid = (v, g2, uid2)" by (rule prod_cases3)
  have g': "g' = put_edge g2 v (edge_w e) (Some (segment_label (empty_points l)))"
    using run rank l by (simp add: normalize_edge_def Let_def a flip: g1_def h_def)
  obtain ds where ds: "length ds = nat (rank_of g (edge_w e) - (rank_of g (edge_v e) + 1))" "v = last (edge_v e # ds)"
    "grown h g2 ds (set (path (edge_v e) ds))"
    "\<forall>i<length ds. node_label g2 (ds ! i) = Some (dummy_node e (empty_points l) (rank_of g (edge_v e) + 1 + int i))"
    "glabel g2 = (if True \<and> ds \<noteq> [] then glabel (record_chain h (hd ds)) else glabel h)"
    using add_dummies_view [OF r(1) ends(1) clear_ends(1) a] by blast
  have some: "ds \<noteq> []" using ds(1) rank by auto
  then have v: "v \<in> set ds" using ds(2) by simp
  have g2: "clear_graph g2" "v \<in> set (graph_nodes g2)" "edge_w e \<in> set (graph_nodes g2)" "clear_end v"
    using ds(3) v ends by (simp_all add: grown_def)
  note p = clear_put_edge [OF g2(1) g2(4) clear_ends(2)]
  note q = p(6-8) [OF g2(2,3)]
  have "grown g2 g' [] {plain_edge v (edge_w e)}"
    using p(1,2) p(3) [OF clear_graph_edge [OF g2(1)]] q by (simp add: grown_def g')
  from grown_trans [OF ds(3) this] have "grown h g' ds (set (path (edge_v e) (ds @ [edge_w e])))"
    by (simp add: path_append ds(2))
  moreover have "int (length ds) = rank_of g (edge_w e) - rank_of g (edge_v e) - 1" using ds(1) rank by simp
  moreover have "glabel g' = glabel (record_chain g (hd ds))"
    using ds(5) some p(5) by (simp add: g' frame record_chain_def)
  ultimately show ?thesis
    using ds(4) r(1,2) u(2) frame labels q(2) by (intro exI [of _ ds] exI [of _ h]) (simp add: g')
qed

section \<open>A graph with chains\<close>

abbreviation chain_nodes :: "chain list \<Rightarrow> node_id list" where
  "chain_nodes cs \<equiv> concat (map (\<lambda>c. snd (snd c)) cs)"

lemma chain_nodes_member: "(e, l, ds) \<in> set cs \<Longrightarrow> set ds \<subseteq> set (chain_nodes cs)"
  by (auto intro!: bexI [of _ "(e, l, ds)"])

definition chain_edges :: "chain \<Rightarrow> edge set" where
  "chain_edges c = set (path (edge_v (fst c)) (snd (snd c) @ [edge_w (fst c)]))"

definition dummy_of :: "(graph_config, graph_node, graph_edge) graph \<Rightarrow> edge \<Rightarrow> graph_edge \<Rightarrow> node_id \<Rightarrow> bool" where
  "dummy_of g e l d =
     (\<exists>n. node_label g d = Some n \<and> gn_dummy n \<noteq> None \<and> gn_edge_obj n = Some e \<and> gn_edge_label n = Some l)"

definition chain_ok :: "(graph_config, graph_node, graph_edge) graph \<Rightarrow> chain \<Rightarrow> bool" where
  "chain_ok g c = (case c of (e, l, ds) \<Rightarrow> ds \<noteq> [] \<and> (\<forall>d\<in>set ds. dummy_of g e l d))"

text \<open>The nodes are \<open>N\<close> and the dummies, the edges \<open>E\<close> and those of the chains.\<close>

definition plain_between :: "node_id set \<Rightarrow> edge \<Rightarrow> bool" where
  "plain_between N e = (edge_v e \<in> N \<and> edge_w e \<in> N \<and> edge_name e = None \<and> clear_edge e)"

definition chained ::
  "node_id set \<Rightarrow> edge set \<Rightarrow> chain list \<Rightarrow> (graph_config, graph_node, graph_edge) graph \<Rightarrow> bool" where
  "chained N E cs g =
     (clear_graph g \<and> set (graph_nodes g) = N \<union> set (chain_nodes cs) \<and>
      set (graph_edges g) = E \<union> (\<Union>c\<in>set cs. chain_edges c) \<and>
      distinct (chain_nodes cs) \<and> set (chain_nodes cs) \<inter> N = {} \<and>
      (\<forall>d\<in>set (chain_nodes cs). clear_end d \<and> d \<noteq> GRAPH_NODE \<and> leaf g d) \<and>
      (\<forall>e\<in>E. plain_between N e) \<and> distinct (map fst cs) \<and>
      (\<forall>c\<in>set cs. plain_between N (fst c) \<and> fst c \<notin> E \<and> chain_ok g c))"

lemma chained_member:
  assumes "chained N E cs g" and "(e, l, ds) \<in> set cs"
  shows "ds \<noteq> []" "set ds \<inter> N = {}" "set ds \<subseteq> set (graph_nodes g)" "plain_between N e"
    "chain_ok g (e, l, ds)" "chain_edges (e, l, ds) \<subseteq> set (graph_edges g)" "distinct ds"
proof -
  have "set ds \<subseteq> set (chain_nodes cs)" by (rule chain_nodes_member [OF assms(2)])
  then show "set ds \<inter> N = {}" "set ds \<subseteq> set (graph_nodes g)" using assms(1) by (auto simp: chained_def)
  show ok: "chain_ok g (e, l, ds)" "chain_edges (e, l, ds) \<subseteq> set (graph_edges g)" "plain_between N e"
    using assms by (fastforce simp: chained_def)+
  show "ds \<noteq> []" using ok(1) by (simp add: chain_ok_def)
  show "distinct ds" using assms by (auto simp: chained_def distinct_concat_iff)
qed

lemma chain_edges_touch:
  assumes "x \<in> chain_edges (e, l, ds)" and "ds \<noteq> []"
  shows "edge_v x \<in> insert (edge_v e) (set ds)" "edge_w x \<in> insert (edge_w e) (set ds)"
    "edge_name x = None" "edge_v x \<in> set ds \<or> edge_w x \<in> set ds"
proof -
  have "x \<in> set (path (edge_v e) ds) \<or> x = plain_edge (last ds) (edge_w e)"
    using assms by (simp add: chain_edges_def path_append) blast
  then show "edge_v x \<in> insert (edge_v e) (set ds)" "edge_w x \<in> insert (edge_w e) (set ds)"
    "edge_name x = None" "edge_v x \<in> set ds \<or> edge_w x \<in> set ds"
    using path_ends [of x "edge_v e" ds] assms(2) in_set_butlastD [of "edge_v x" "edge_v e # ds"]
    by (auto split: if_splits)
qed

lemma chained_update_edge:
  assumes c: "chained N E cs g" and e: "e \<in> E"
  shows "chained N E cs (update_edge g e f)"
    and "d \<in> set (graph_edges g) \<Longrightarrow> edge_label_with_obj (update_edge g e f) d =
      (if d = e then map_option f (edge_label_with_obj g e) else edge_label_with_obj g d)"
    and "node_label (update_edge g e f) v = node_label g v" "glabel (update_edge g e f) = glabel g"
    and "set (graph_edges (update_edge g e f)) = set (graph_edges g)" "graph_nodes (update_edge g e f) = graph_nodes g"
proof -
  have g: "clear_graph g" and mem: "e \<in> set (graph_edges g)" using c e by (auto simp: chained_def)
  note u = clear_update_edge [OF g mem, where f = f]
  show "d \<in> set (graph_edges g) \<Longrightarrow> edge_label_with_obj (update_edge g e f) d =
      (if d = e then map_option f (edge_label_with_obj g e) else edge_label_with_obj g d)"
    by (rule u(3) [OF clear_graph_edge [OF g]])
  show "node_label (update_edge g e f) v = node_label g v" "glabel (update_edge g e f) = glabel g"
    "set (graph_edges (update_edge g e f)) = set (graph_edges g)" "graph_nodes (update_edge g e f) = graph_nodes g"
    using u(2,4-6) by simp_all
  show "chained N E cs (update_edge g e f)"
    using c u(1) by (simp add: chained_def u(2,4,5,7) chain_ok_def dummy_of_def)
qed

lemma chained_long:
  assumes c: "chained N E cs g" and e: "e \<in> E" and l: "edge_label_with_obj g e = Some l"
    and rank: "rank_of g (edge_v e) + 1 < rank_of g (edge_w e)"
    and run: "normalize_edge (g, uid) e = (g', uid')"
  shows "\<exists>ds. chained N (E - {e}) (cs @ [(e, empty_points l, ds)]) g' \<and>
    (\<forall>u\<in>set (graph_nodes g). node_label g' u = node_label g u) \<and>
    (\<forall>d\<in>set (graph_edges g) - {e}. edge_label_with_obj g' d = edge_label_with_obj g d) \<and>
    int (length ds) = rank_of g (edge_w e) - rank_of g (edge_v e) - 1 \<and>
    (\<forall>i<length ds. rank_of g' (ds ! i) = rank_of g (edge_v e) + 1 + int i) \<and>
    glabel g' = glabel (record_chain g (hd ds))"
proof -
  have g: "clear_graph g" and mem: "e \<in> set (graph_edges g)" "edge_name e = None" "edge_v e \<in> N" "edge_w e \<in> N"
    using c e by (auto simp: chained_def plain_between_def)
  obtain ds h where ds: "grown h g' ds (set (path (edge_v e) (ds @ [edge_w e])))" and h: "clear_graph h"
    "set (graph_edges h) = set (graph_edges g) - {e}" "graph_nodes h = graph_nodes g"
    "\<forall>d\<in>set (graph_edges h). edge_label_with_obj h d = edge_label_with_obj g d"
    "\<forall>v. node_label h v = node_label g v" "\<forall>v. leaf h v = leaf g v"
    and len: "int (length ds) = rank_of g (edge_w e) - rank_of g (edge_v e) - 1"
    and new: "\<forall>i<length ds. node_label g' (ds ! i) = Some (dummy_node e (empty_points l) (rank_of g (edge_v e) + 1 + int i))"
    and glabel: "glabel g' = glabel (record_chain g (hd ds))"
    using normalize_edge_long [OF g mem(1,2) l rank run] by blast
  have some: "ds \<noteq> []" using len rank by auto
  note d = ds [unfolded grown_def]
  have fresh: "set ds \<inter> set (graph_nodes g) = {}" "distinct ds" using d h(3) by simp_all
  have touch: "edge_v x \<in> set ds \<or> edge_w x \<in> set ds" if "x \<in> chain_edges (e, empty_points l, ds)" for x
    using chain_edges_touch(4) [OF that some] .
  have known: "edge_v x \<in> set (graph_nodes g)" "edge_w x \<in> set (graph_nodes g)" if "x \<in> set (graph_edges g)" for x
    using edge_ends_known [OF clear_graph_ok [OF g] that] by simp_all
  have labels: "edge_label_with_obj g' x = edge_label_with_obj g x" if x: "x \<in> set (graph_edges g) - {e}" for x
  proof -
    have "x \<notin> chain_edges (e, empty_points l, ds)" using touch known x fresh(1) by blast
    with x d h(2,4) show ?thesis by (simp add: chain_edges_def)
  qed
  have nodes: "node_label g' u = node_label g u" if "u \<in> set (graph_nodes g)" for u
    using d h(3,5) that by simp
  have "e \<notin> chain_edges c" if "c \<in> set cs" for c
  proof -
    obtain e' l' ds' where c': "c = (e', l', ds')" by (cases c)
    have "ds' \<noteq> []" "set ds' \<inter> N = {}" using chained_member [OF c, of e' l' ds'] that by (simp_all add: c')
    with chain_edges_touch(4) [of e e' l' ds'] mem(3,4) show ?thesis unfolding c' by blast
  qed
  then have edges: "set (graph_edges g') = (E - {e}) \<union> (\<Union>c\<in>set (cs @ [(e, empty_points l, ds)]). chain_edges c)"
    using c d h(2) by (auto simp: chained_def chain_edges_def)
  have old: "chain_ok g' c" if "c \<in> set cs" for c
  proof -
    have "chain_ok g c" "set (snd (snd c)) \<subseteq> set (graph_nodes g)" using c that by (auto simp: chained_def)
    then show ?thesis using nodes by (auto simp: chain_ok_def dummy_of_def split: prod.splits)
  qed
  have this_one: "chain_ok g' (e, empty_points l, ds)"
    using new some by (auto simp: chain_ok_def dummy_of_def in_set_conv_nth)
  have "chained N (E - {e}) (cs @ [(e, empty_points l, ds)]) g'"
    unfolding chained_def
  proof (intro conjI)
    show "set (graph_edges g') = (E - {e}) \<union> (\<Union>c\<in>set (cs @ [(e, empty_points l, ds)]). chain_edges c)"
      by (rule edges)
    show "\<forall>c\<in>set (cs @ [(e, empty_points l, ds)]). plain_between N (fst c) \<and> fst c \<notin> E - {e} \<and> chain_ok g' c"
      using c e old this_one by (auto simp: chained_def)
    show "distinct (chain_nodes (cs @ [(e, empty_points l, ds)]))"
      "set (chain_nodes (cs @ [(e, empty_points l, ds)])) \<inter> N = {}"
      using c fresh by (auto simp: chained_def)
    show "\<forall>x\<in>set (chain_nodes (cs @ [(e, empty_points l, ds)])). clear_end x \<and> x \<noteq> GRAPH_NODE \<and> leaf g' x"
      using c d h(6) by (auto simp: chained_def)
    show "distinct (map fst (cs @ [(e, empty_points l, ds)]))" using c e by (auto simp: chained_def)
  qed (use c d h(3) in \<open>auto simp: chained_def\<close>)
  moreover have "\<forall>i<length ds. rank_of g' (ds ! i) = rank_of g (edge_v e) + 1 + int i"
    using new by (simp add: rank_of_def)
  ultimately show ?thesis using len glabel nodes labels by blast
qed

section \<open>The loop of \<open>run\<close>\<close>

definition is_long :: "('gl, graph_node, 'e) graph \<Rightarrow> edge \<Rightarrow> bool" where
  "is_long g e = (rank_of g (edge_w e) \<noteq> rank_of g (edge_v e) + 1)"

text \<open>A chain of the result stands for an edge of the graph before.\<close>

definition chain_for ::
  "(graph_config, graph_node, graph_edge) graph \<Rightarrow> (graph_config, graph_node, graph_edge) graph \<Rightarrow> chain \<Rightarrow> bool" where
  "chain_for g g' c = (case c of (e, l, ds) \<Rightarrow>
     map_option empty_points (edge_label_with_obj g e) = Some l \<and>
     int (length ds) = rank_of g (edge_w e) - rank_of g (edge_v e) - 1 \<and>
     (\<forall>i<length ds. rank_of g' (ds ! i) = rank_of g (edge_v e) + 1 + int i))"

definition ready :: "(graph_config, graph_node, graph_edge) graph \<Rightarrow> edge \<Rightarrow> bool" where
  "ready g e = (edge_label_with_obj g e \<noteq> None \<and> rank_of g (edge_v e) < rank_of g (edge_w e))"

text \<open>What the loop over \<open>es\<close> has done.\<close>

definition normalized ::
  "(graph_config, graph_node, graph_edge) graph \<Rightarrow> edge list \<Rightarrow>
   (graph_config, graph_node, graph_edge) graph \<Rightarrow> chain list \<Rightarrow> bool" where
  "normalized g es g' cs =
     ((\<forall>u\<in>set (graph_nodes g). node_label g' u = node_label g u) \<and>
      map fst cs = filter (is_long g) es \<and> (\<forall>c\<in>set cs. chain_for g g' c) \<and>
      (\<forall>d\<in>set (graph_edges g). \<not> (d \<in> set es \<and> is_long g d) \<longrightarrow>
         edge_label_with_obj g' d =
           (if d \<in> set es then map_option empty_points (edge_label_with_obj g d) else edge_label_with_obj g d)) \<and>
      (\<forall>c hs. glabel g = Some c \<longrightarrow> gc_dummy_chains c = Some hs \<longrightarrow>
         glabel g' = Some (c\<lparr>gc_dummy_chains := Some (hs @ map (\<lambda>c. hd (snd (snd c))) cs)\<rparr>)))"

lemma same_ranks:
  assumes "\<forall>u\<in>N. node_label g' u = node_label g u" and "plain_between N e"
  shows "rank_of g' (edge_v e) = rank_of g (edge_v e)" "rank_of g' (edge_w e) = rank_of g (edge_w e)"
    "is_long g' e = is_long g e"
  using assms by (simp_all add: rank_of_def plain_between_def is_long_def)

lemma chain_for_cong:
  assumes "chain_for g1 g' (e, l, ds)" and "edge_label_with_obj g1 e = edge_label_with_obj g e"
    and "rank_of g1 (edge_v e) = rank_of g (edge_v e)" "rank_of g1 (edge_w e) = rank_of g (edge_w e)"
  shows "chain_for g g' (e, l, ds)"
  using assms by (simp add: chain_for_def)

lemma normalized_fst: "normalized g es g' cs \<Longrightarrow> (e, l, ds) \<in> set cs \<Longrightarrow> e \<in> set es"
  unfolding normalized_def by (metis filter_is_subset fst_conv image_eqI set_map subset_iff)

lemma normalized_append:
  assumes c: "chained N E cs g" and c1: "chained N (E - {d \<in> set xs. is_long g d}) (cs @ cs1) g1"
    and dist: "distinct (xs @ ys)" and sub: "set (xs @ ys) \<subseteq> E"
    and n1: "normalized g xs g1 cs1" and n2: "normalized g1 ys g' cs2"
  shows "normalized g (xs @ ys) g' (cs1 @ cs2)"
proof -
  note a = n1 [unfolded normalized_def] and b = n2 [unfolded normalized_def]
  have N: "N \<subseteq> set (graph_nodes g)" "E \<subseteq> set (graph_edges g)" "\<And>d. d \<in> E \<Longrightarrow> plain_between N d"
    using c by (auto simp: chained_def)
  have nodes1: "set (graph_nodes g) \<subseteq> set (graph_nodes g1)"
    using c c1 unfolding chained_def by (simp only: map_append concat_append set_append) blast
  have "\<forall>u\<in>N. node_label g1 u = node_label g u" using a N(1) by blast
  note ranks = same_ranks [OF this N(3)]
  have label1: "edge_label_with_obj g1 d = edge_label_with_obj g d" if "d \<in> set ys" for d
  proof -
    have "d \<in> set (graph_edges g)" "d \<notin> set xs" using that dist sub N(2) by auto
    with a show ?thesis by simp
  qed
  have new: "chain_for g g' ch" if ch: "ch \<in> set cs2" for ch
  proof -
    obtain e l ds where eq: "ch = (e, l, ds)" by (cases ch)
    have ys: "e \<in> set ys" using normalized_fst [OF n2, of e l ds] ch by (simp add: eq)
    then have E: "e \<in> E" using sub by auto
    have "chain_for g1 g' (e, l, ds)" using b ch by (simp add: eq)
    from chain_for_cong [OF this label1 [OF ys] ranks(1) [OF E] ranks(2) [OF E]] show ?thesis by (simp add: eq)
  qed
  have old: "chain_for g g' ch" if ch: "ch \<in> set cs1" for ch
  proof -
    obtain e l ds where eq: "ch = (e, l, ds)" by (cases ch)
    have "set ds \<subseteq> set (graph_nodes g1)" using chained_member(3) [OF c1, of e l ds] ch by (simp add: eq)
    then have "node_label g' d = node_label g1 d" if "d \<in> set ds" for d using b that by blast
    then have "rank_of g' (ds ! i) = rank_of g1 (ds ! i)" if "i < length ds" for i
      using that by (simp add: rank_of_def)
    moreover have "chain_for g g1 (e, l, ds)" using a ch by (simp add: eq)
    ultimately show ?thesis by (simp add: eq chain_for_def)
  qed
  have long: "map fst (cs1 @ cs2) = filter (is_long g) (xs @ ys)"
  proof -
    have "filter (is_long g1) ys = filter (is_long g) ys" by (rule filter_cong) (use ranks(3) sub in auto)
    then show ?thesis using a b by simp
  qed
  have labels: "edge_label_with_obj g' d = (if d \<in> set (xs @ ys) then map_option empty_points (edge_label_with_obj g d)
      else edge_label_with_obj g d)" if d: "d \<in> set (graph_edges g)" "\<not> (d \<in> set (xs @ ys) \<and> is_long g d)" for d
  proof -
    have "d \<in> set (graph_edges g1)" using d c c1 by (auto simp: chained_def)
    moreover have "\<not> (d \<in> set ys \<and> is_long g1 d)" using d(2) ranks(3) sub by auto
    ultimately have "edge_label_with_obj g' d = (if d \<in> set ys then map_option empty_points (edge_label_with_obj g1 d)
        else edge_label_with_obj g1 d)" using b by blast
    moreover have "edge_label_with_obj g1 d = (if d \<in> set xs then map_option empty_points (edge_label_with_obj g d)
        else edge_label_with_obj g d)" using a d by auto
    ultimately show ?thesis using dist by auto
  qed
  show ?thesis
    unfolding normalized_def
  proof (intro conjI)
    show "\<forall>u\<in>set (graph_nodes g). node_label g' u = node_label g u" using a b nodes1 by (metis subsetD)
    show "\<forall>ch\<in>set (cs1 @ cs2). chain_for g g' ch" using old new by auto
    show "\<forall>c hs. glabel g = Some c \<longrightarrow> gc_dummy_chains c = Some hs \<longrightarrow>
        glabel g' = Some (c\<lparr>gc_dummy_chains := Some (hs @ map (\<lambda>c. hd (snd (snd c))) (cs1 @ cs2))\<rparr>)"
      using a b by simp
  qed (use long labels in blast)+
qed

lemma normalize_step:
  assumes c: "chained N E cs g" and e: "e \<in> E" "ready g e" and run: "normalize_edge (g, uid) e = (g', uid')"
  shows "\<exists>cs'. chained N (E - {d \<in> set [e]. is_long g d}) (cs @ cs') g' \<and> normalized g [e] g' cs'"
proof -
  obtain l where l: "edge_label_with_obj g e = Some l" using e(2) by (auto simp: ready_def)
  show ?thesis
  proof (cases "is_long g e")
    case False
    then have g': "g' = update_edge g e empty_points"
      using run normalize_edge_short [OF l] by (simp add: is_long_def)
    note u = chained_update_edge [OF c e(1), where f = empty_points, folded g']
    have "normalized g [e] g' []" using u(2-6) False by (simp add: normalized_def)
    moreover have "E - {d \<in> set [e]. is_long g d} = E" using False by auto
    ultimately show ?thesis using u(1) by (intro exI [of _ "[]"]) simp
  next
    case True
    then have rank: "rank_of g (edge_v e) + 1 < rank_of g (edge_w e)"
      using e(2) by (auto simp: ready_def is_long_def)
    obtain ds where ds: "chained N (E - {e}) (cs @ [(e, empty_points l, ds)]) g'"
      "\<forall>u\<in>set (graph_nodes g). node_label g' u = node_label g u"
      "\<forall>d\<in>set (graph_edges g) - {e}. edge_label_with_obj g' d = edge_label_with_obj g d"
      "int (length ds) = rank_of g (edge_w e) - rank_of g (edge_v e) - 1"
      "\<forall>i<length ds. rank_of g' (ds ! i) = rank_of g (edge_v e) + 1 + int i"
      "glabel g' = glabel (record_chain g (hd ds))"
      using chained_long [OF c e(1) l rank run] by blast
    have "normalized g [e] g' [(e, empty_points l, ds)]"
      using ds(2-6) True by (simp add: normalized_def chain_for_def l record_chain_def)
    moreover have "{d \<in> set [e]. is_long g d} = {e}" using True by auto
    ultimately show ?thesis using ds(1) by (intro exI [of _ "[(e, empty_points l, ds)]"]) simp
  qed
qed

lemma normalize_loop:
  assumes "chained N E cs g" and "distinct es" and "set es \<subseteq> E" and "\<forall>e\<in>set es. ready g e"
    and "foldl normalize_edge (g, uid) es = (g', uid')"
  shows "\<exists>cs'. chained N (E - {e \<in> set es. is_long g e}) (cs @ cs') g' \<and> normalized g es g' cs'"
  using assms
proof (induction es arbitrary: g uid E cs)
  case Nil
  then show ?case by (intro exI [of _ "[]"]) (simp add: normalized_def)
next
  case (Cons e es)
  obtain g1 uid1 where one: "normalize_edge (g, uid) e = (g1, uid1)" by fastforce
  obtain cs1 where cs1: "chained N (E - {d \<in> set [e]. is_long g d}) (cs @ cs1) g1" "normalized g [e] g1 cs1"
    using normalize_step [OF Cons.prems(1) _ _ one] Cons.prems(3,4) by auto
  have E: "set es \<subseteq> E - {d \<in> set [e]. is_long g d}" "distinct es" using Cons.prems(2,3) by auto
  have between: "plain_between N d" "d \<in> set (graph_edges g)" "d \<noteq> e" if "d \<in> set es" for d
    using that Cons.prems(1-3) by (auto simp: chained_def)
  have "\<forall>u\<in>N. node_label g1 u = node_label g u" using cs1(2) Cons.prems(1) by (simp add: normalized_def chained_def)
  note ranks = same_ranks [OF this between(1)]
  have "ready g1 d" if "d \<in> set es" for d
  proof -
    have "edge_label_with_obj g1 d = edge_label_with_obj g d"
      using cs1(2) between(2,3) [OF that] by (auto simp: normalized_def)
    with Cons.prems(4) that show ?thesis by (simp add: ready_def ranks)
  qed
  then obtain cs2 where cs2: "chained N (E - {d \<in> set [e]. is_long g d} - {d \<in> set es. is_long g1 d}) ((cs @ cs1) @ cs2) g'"
    "normalized g1 es g' cs2"
    using Cons.IH [OF cs1(1) E(2,1)] Cons.prems(5) one by auto
  have "E - {d \<in> set [e]. is_long g d} - {d \<in> set es. is_long g1 d} = E - {d \<in> set (e # es). is_long g d}"
    using ranks(3) by auto
  moreover have "normalized g ([e] @ es) g' (cs1 @ cs2)"
    using normalized_append [OF Cons.prems(1) cs1(1) _ _ cs1(2) cs2(2)] Cons.prems(2,3) by simp
  ultimately show ?case using cs2(1) by (intro exI [of _ "cs1 @ cs2"]) simp
qed

section \<open>Walking a chain\<close>

abbreviation waypoints :: "(graph_config, graph_node, graph_edge) graph \<Rightarrow> node_id list \<Rightarrow> graph_edge \<Rightarrow> graph_edge" where
  "waypoints g ds l \<equiv> foldl (\<lambda>l d. take_waypoint (the (node_label g d)) l) l ds"

definition out_of :: "('gl, 'n, 'e) graph \<Rightarrow> node_id \<Rightarrow> edge set" where
  "out_of g v = {x \<in> set (graph_edges g). edge_v x = v}"

text \<open>Each of the nodes \<open>ds\<close> is a dummy without children, and leads to the next one only.\<close>

definition strand :: "(graph_config, graph_node, graph_edge) graph \<Rightarrow> node_id list \<Rightarrow> node_id \<Rightarrow> bool" where
  "strand g ds w =
     (clear_graph g \<and> distinct (ds @ [w]) \<and> set (ds @ [w]) \<subseteq> set (graph_nodes g) \<and>
      (\<forall>x\<in>set (graph_edges g). edge_name x = None) \<and>
      (\<forall>i<length ds. out_of g (ds ! i) = {plain_edge (ds ! i) ((ds @ [w]) ! Suc i)}) \<and>
      (\<forall>d\<in>set ds. leaf g d \<and> (\<exists>n. node_label g d = Some n \<and> gn_dummy n \<noteq> None)) \<and>
      (\<exists>n. node_label g w = Some n \<and> gn_dummy n = None))"

text \<open>The nodes \<open>D\<close> and their edges are gone, the rest is as it was.\<close>

definition without :: "('gl, 'n, 'e) graph \<Rightarrow> node_id set \<Rightarrow> ('gl, 'n, 'e) graph \<Rightarrow> bool" where
  "without g D g' =
     (clear_graph g' \<and> set (graph_nodes g') = set (graph_nodes g) - D \<and>
      set (graph_edges g') = {x \<in> set (graph_edges g). edge_v x \<notin> D \<and> edge_w x \<notin> D} \<and>
      (\<forall>x\<in>set (graph_edges g'). edge_label_with_obj g' x = edge_label_with_obj g x) \<and>
      (\<forall>u. u \<notin> D \<longrightarrow> node_label g' u = node_label g u) \<and>
      (\<forall>u. u \<notin> D \<longrightarrow> leaf g u \<longrightarrow> leaf g' u) \<and> glabel g' = glabel g)"

lemma without_refl: "clear_graph g \<Longrightarrow> without g {} g"
  by (simp add: without_def)

lemma without_trans:
  assumes "without g D g1" and "without g1 D' g2"
  shows "without g (D \<union> D') g2"
  using assms by (auto simp: without_def)

lemma without_remove_node:
  assumes "clear_graph g" and "leaf g d" and "d \<in> set (graph_nodes g)"
    and "\<forall>x\<in>set (graph_edges g). edge_name x = None"
  shows "without g {d} (remove_node g d)"
proof -
  note r = clear_remove_node [OF assms(1-3)] 
  have "edge_name e = None" if "e \<in> set (graph_edges g)" for e using assms(4) that by blast
  note r = r [OF this]
  show ?thesis
    using r(1-6) leaf_remove_node [OF assms(2)] by (auto simp: without_def)
qed

lemma strand_step:
  assumes s: "strand g (d # ds) w"
  shows "strand (remove_node g d) ds w" and "successors g d = Some [hd (ds @ [w])]"
    and "without g {d} (remove_node g d)"
proof -
  have g: "clear_graph g" "leaf g d" "d \<in> set (graph_nodes g)" "\<forall>x\<in>set (graph_edges g). edge_name x = None"
    and dist: "distinct (d # ds @ [w])" "d \<notin> set (ds @ [w])"
    using s by (simp_all add: strand_def)
  show r: "without g {d} (remove_node g d)" by (rule without_remove_node [OF g])
  have outs: "out_of g ((d # ds) ! i) = {plain_edge ((d # ds) ! i) ((d # ds @ [w]) ! Suc i)}"
    if "i < Suc (length ds)" for i using s that by (simp add: strand_def)
  have "(ds @ [w]) ! 0 = hd (ds @ [w])" by (cases ds) simp_all
  then have "edge_w ` {x \<in> set (graph_edges g). edge_v x = d} = {hd (ds @ [w])}"
    using outs [of 0] by (simp add: out_of_def)
  then show "successors g d = Some [hd (ds @ [w])]"
    by (rule only_successor [OF clear_graph_ok [OF g(1)] g(3)])
  have "out_of (remove_node g d) (ds ! i) = {plain_edge (ds ! i) ((ds @ [w]) ! Suc i)}" if i: "i < length ds" for i
  proof -
    have ne: "ds ! i \<noteq> d" "(ds @ [w]) ! Suc i \<noteq> d"
      using dist(2) i nth_mem [of i ds] nth_mem [of "Suc i" "ds @ [w]"] by auto
    have old: "out_of g (ds ! i) = {plain_edge (ds ! i) ((ds @ [w]) ! Suc i)}" using outs [of "Suc i"] i by simp
    have "out_of (remove_node g d) (ds ! i) = {x \<in> out_of g (ds ! i). edge_v x \<noteq> d \<and> edge_w x \<noteq> d}"
      using r by (auto simp: without_def out_of_def)
    then show ?thesis unfolding old using ne by (intro equalityI subsetI) simp_all
  qed
  then have outs': "\<forall>i<length ds. out_of (remove_node g d) (ds ! i) = {plain_edge (ds ! i) ((ds @ [w]) ! Suc i)}"
    by blast
  have keep: "node_label (remove_node g d) u = node_label g u" "leaf g u \<Longrightarrow> leaf (remove_node g d) u"
    if "u \<in> set (ds @ [w])" for u
  proof -
    have "u \<notin> {d}" using dist(2) that by blast
    with r show "node_label (remove_node g d) u = node_label g u" "leaf g u \<Longrightarrow> leaf (remove_node g d) u"
      by (simp_all add: without_def)
  qed
  show "strand (remove_node g d) ds w"
    unfolding strand_def
  proof (intro conjI)
    show "set (ds @ [w]) \<subseteq> set (graph_nodes (remove_node g d))" using s r dist(2) by (auto simp: strand_def without_def)
    show "\<forall>x\<in>set (graph_edges (remove_node g d)). edge_name x = None" using g(4) r by (simp add: without_def)
    show "\<forall>d'\<in>set ds. leaf (remove_node g d) d' \<and> (\<exists>n. node_label (remove_node g d) d' = Some n \<and> gn_dummy n \<noteq> None)"
      using s keep by (simp add: strand_def)
    show "\<exists>n. node_label (remove_node g d) w = Some n \<and> gn_dummy n = None" using s keep by (simp add: strand_def)
  qed (use r dist outs' in \<open>simp_all add: without_def\<close>)
qed

lemma walk_strand:
  assumes "strand g ds w" and "ge_points l \<noteq> None" and "v = hd (ds @ [w])" and "node_label g v = Some n"
  shows "\<exists>g'. walk_chain g v n l = Some (Inr (g', waypoints g ds l)) \<and> without g (set ds) g'"
  using assms
proof (induction ds arbitrary: g l v n)
  case Nil
  then have "gn_dummy n = None" "clear_graph g" by (auto simp: strand_def)
  then show ?case by (subst walk_chain.simps) (simp add: without_refl)
next
  case (Cons d ds)
  have v: "v = d" "gn_dummy n \<noteq> None" using Cons.prems(1,3,4) by (auto simp: strand_def)
  define g1 where "g1 = remove_node g d"
  note s = strand_step [OF Cons.prems(1), folded g1_def]
  have "hd (ds @ [w]) \<in> set (ds @ [w])" by (cases ds) simp_all
  then obtain n1 where n1: "node_label g1 (hd (ds @ [w])) = Some n1" using s(1) by (auto simp: strand_def)
  have points: "ge_points (take_waypoint n l) \<noteq> None" using Cons.prems(2) by (simp add: take_waypoint_def Let_def)
  obtain g' where g': "walk_chain g1 (hd (ds @ [w])) n1 (take_waypoint n l) =
      Some (Inr (g', waypoints g1 ds (take_waypoint n l)))" "without g1 (set ds) g'"
    using Cons.IH [OF s(1) points refl n1] by blast
  have "waypoints g1 ds (take_waypoint n l) = waypoints g (d # ds) l"
  proof -
    have "d \<notin> set ds" using Cons.prems(1) by (simp add: strand_def)
    then have "waypoints g1 ds x = waypoints g ds x" for x
      using s(3) by (intro foldl_cong) (auto simp: without_def)
    then show ?thesis using Cons.prems(4) v(1) by simp
  qed
  moreover have "walk_chain g v n l = walk_chain g1 (hd (ds @ [w])) n1 (take_waypoint n l)"
    using v s(2) n1 Cons.prems(2) by (subst walk_chain.simps) (auto simp: g1_def Let_def)
  ultimately show ?case using g' without_trans [OF s(3) g'(2)] by simp
qed

section \<open>Undoing the chains\<close>

definition settled :: "node_id set \<Rightarrow> (graph_config, graph_node, graph_edge) graph \<Rightarrow> bool" where
  "settled N g = (\<forall>v\<in>N. \<exists>n. node_label g v = Some n \<and> gn_dummy n = None)"

lemma chained_disjoint:
  assumes "chained N E ((e, l, ds) # cs) g" and "x \<in> E \<union> (\<Union>c\<in>set cs. chain_edges c)"
  shows "edge_v x \<notin> set ds" "edge_w x \<notin> set ds"
proof -
  have ds: "set ds \<inter> N = {}" "set ds \<inter> set (chain_nodes cs) = {}" using assms(1) by (auto simp: chained_def)
  have "edge_v x \<in> N \<union> set (chain_nodes cs) \<and> edge_w x \<in> N \<union> set (chain_nodes cs)"
    using assms(2)
  proof
    assume "x \<in> E"
    then show ?thesis using assms(1) by (auto simp: chained_def plain_between_def)
  next
    assume "x \<in> (\<Union>c\<in>set cs. chain_edges c)"
    then obtain e' l' ds' where c: "(e', l', ds') \<in> set cs" "x \<in> chain_edges (e', l', ds')" by auto
    have some: "ds' \<noteq> []" and e': "edge_v e' \<in> N" "edge_w e' \<in> N"
      using chained_member(1,4) [OF assms(1), of e' l' ds'] c(1) by (simp_all add: plain_between_def)
    have sub: "\<And>d. d \<in> set ds' \<Longrightarrow> d \<in> set (chain_nodes cs)" using chain_nodes_member [OF c(1)] by blast
    from chain_edges_touch(1,2) [OF c(2) some] show ?thesis using sub [of "edge_v x"] sub [of "edge_w x"] e' by auto
  qed
  with ds show "edge_v x \<notin> set ds" "edge_w x \<notin> set ds" by blast+
qed

lemma chained_strand:
  assumes c: "chained N E ((e, l, ds) # cs) g" and N: "settled N g"
  shows "strand g ds (edge_w e)"
  unfolding strand_def
proof (intro conjI)
  note m = chained_member [OF c, of e l ds, simplified]
  have e: "edge_v e \<in> N" "edge_w e \<in> N" using m(4) by (simp_all add: plain_between_def)
  have edges: "set (graph_edges g) = E \<union> (\<Union>x\<in>set cs. chain_edges x) \<union> chain_edges (e, l, ds)"
    using c by (auto simp: chained_def)
  show "clear_graph g" using c by (simp add: chained_def)
  show "distinct (ds @ [edge_w e])" using m(2,7) e by auto
  show "set (ds @ [edge_w e]) \<subseteq> set (graph_nodes g)" using m(3) e c by (auto simp: chained_def)
  show "\<forall>x\<in>set (graph_edges g). edge_name x = None"
  proof
    fix x assume "x \<in> set (graph_edges g)"
    then consider "x \<in> E" | e' l' ds' where "(e', l', ds') \<in> set ((e, l, ds) # cs)" "x \<in> chain_edges (e', l', ds')"
      using edges by auto
    then show "edge_name x = None"
    proof cases
      case 1
      then show ?thesis using c by (auto simp: chained_def plain_between_def)
    next
      case 2
      then show ?thesis using chain_edges_touch(3) chained_member(1) [OF c] by blast
    qed
  qed
  have "out_of g (ds ! i) = {x \<in> chain_edges (e, l, ds). edge_v x = ds ! i}" if "i < length ds" for i
  proof -
    have "edge_v x \<noteq> ds ! i" if "x \<in> E \<union> (\<Union>c\<in>set cs. chain_edges c)" for x
      using chained_disjoint(1) [OF c that] nth_mem [OF \<open>i < length ds\<close>] by metis
    then show ?thesis unfolding out_of_def edges by blast
  qed
  then show "\<forall>i<length ds. out_of g (ds ! i) = {plain_edge (ds ! i) ((ds @ [edge_w e]) ! Suc i)}"
    using path_successor [of "edge_v e" ds _ "edge_w e"] m(2,7) e(1) by (auto simp: chain_edges_def)
  show "\<forall>d\<in>set ds. leaf g d \<and> (\<exists>n. node_label g d = Some n \<and> gn_dummy n \<noteq> None)"
    using c by (auto simp: chained_def chain_ok_def dummy_of_def)
  show "\<exists>n. node_label g (edge_w e) = Some n \<and> gn_dummy n = None" using N e(2) by (simp add: settled_def)
qed

lemma chained_without:
  assumes c: "chained N E ((e, l, ds) # cs) g" and w: "without g (set ds) g'"
  shows "chained N E cs g'"
proof -
  note a = c [unfolded chained_def] and b = w [unfolded without_def]
  have dis: "set ds \<inter> N = {}" "set ds \<inter> set (chain_nodes cs) = {}" using a by auto
  have own: "x \<notin> chain_edges (e, l, ds)" if "edge_v x \<notin> set ds" "edge_w x \<notin> set ds" for x
    using chain_edges_touch(4) [of x e l ds] chained_member(1) [OF c, of e l ds] that by auto
  have "set (graph_edges g) = E \<union> (\<Union>c\<in>set cs. chain_edges c) \<union> chain_edges (e, l, ds)"
    using c by (auto simp: chained_def)
  then have "x \<in> set (graph_edges g') \<longleftrightarrow> x \<in> E \<union> (\<Union>c\<in>set cs. chain_edges c)" for x
    using own [of x] chained_disjoint [OF c, of x] b by blast
  then have edges: "set (graph_edges g') = E \<union> (\<Union>c\<in>set cs. chain_edges c)" by blast
  have keep: "node_label g' d = node_label g d" "leaf g' d" if "d \<in> set (chain_nodes cs)" for d
  proof -
    have "d \<notin> set ds" "leaf g d" using that dis(2) a by auto
    with b show "node_label g' d = node_label g d" "leaf g' d" by simp_all
  qed
  have "chain_ok g' x" if x: "x \<in> set cs" for x
  proof -
    obtain e' l' ds' where eq: "x = (e', l', ds')" by (cases x)
    have "set ds' \<subseteq> set (chain_nodes cs)" using chain_nodes_member [OF x [unfolded eq]] .
    moreover have "chain_ok g (e', l', ds')" using a x by (simp add: eq)
    ultimately show ?thesis using keep(1) unfolding chain_ok_def dummy_of_def eq by fastforce
  qed
  note chains = this
  show ?thesis
    unfolding chained_def
  proof (intro conjI)
    show "set (graph_nodes g') = N \<union> set (chain_nodes cs)" using a b dis by auto
    show "\<forall>d\<in>set (chain_nodes cs). clear_end d \<and> d \<noteq> GRAPH_NODE \<and> leaf g' d" using a keep(2) by simp
    show "\<forall>c\<in>set cs. plain_between N (fst c) \<and> fst c \<notin> E \<and> chain_ok g' c" using a chains by simp
    show "set (chain_nodes cs) \<inter> N = {}" using a by auto
  qed (use a b edges in simp_all)
qed

lemma chained_put_edge:
  assumes c: "chained N E cs g" and e: "plain_between N e" "e \<notin> E" "e \<notin> fst ` set cs"
  shows "chained N (insert e E) cs (put_edge g (edge_v e) (edge_w e) (Some l))"
    and "clear_edge d \<Longrightarrow> edge_label_with_obj (put_edge g (edge_v e) (edge_w e) (Some l)) d =
      (if d = e then Some l else edge_label_with_obj g d)"
    and "node_label (put_edge g (edge_v e) (edge_w e) (Some l)) v = node_label g v"
proof -
  note a = c [unfolded chained_def]
  have ends: "clear_end (edge_v e)" "clear_end (edge_w e)" "edge_v e \<in> set (graph_nodes g)" "edge_w e \<in> set (graph_nodes g)"
    "plain_edge (edge_v e) (edge_w e) = e"
    using e(1) a plain_edge_eta by (auto simp: plain_between_def clear_edge_def)
  have g: "clear_graph g" using a by simp
  note p = clear_put_edge [OF g ends(1,2), where l = l, unfolded ends(5)]
  note q = p(6-8) [OF ends(3,4)]
  show "clear_edge d \<Longrightarrow> edge_label_with_obj (put_edge g (edge_v e) (edge_w e) (Some l)) d =
      (if d = e then Some l else edge_label_with_obj g d)" by (rule p(3))
  show "node_label (put_edge g (edge_v e) (edge_w e) (Some l)) v = node_label g v" by (rule q(2))
  show "chained N (insert e E) cs (put_edge g (edge_v e) (edge_w e) (Some l))"
    unfolding chained_def using a e p(1,2) q by (auto simp: chain_ok_def dummy_of_def)
qed

lemma undo_one:
  assumes c: "chained N E ((e, l, ds) # cs) g" and N: "settled N g" and points: "ge_points l \<noteq> None"
  shows "\<exists>g'. undo_chains g (hd ds # vs) = undo_chains g' vs \<and> chained N (insert e E) cs g' \<and>
    (\<forall>u. u \<notin> set ds \<longrightarrow> node_label g' u = node_label g u) \<and>
    (\<forall>x\<in>E. edge_label_with_obj g' x = edge_label_with_obj g x) \<and>
    edge_label_with_obj g' e = Some (waypoints g ds l)"
proof -
  note m = chained_member [OF c, of e l ds, simplified]
  have head: "hd (ds @ [edge_w e]) = hd ds" "hd ds \<in> set ds" using m(1) by (cases ds; simp)+
  have "\<forall>d\<in>set ds. dummy_of g e l d" using m(5) by (simp add: chain_ok_def)
  then have "dummy_of g e l (hd ds)" using head(2) by blast
  then obtain n where n: "node_label g (hd ds) = Some n" "gn_edge_obj n = Some e" "gn_edge_label n = Some l"
    by (auto simp: dummy_of_def)
  obtain g1 where g1: "walk_chain g (hd ds) n l = Some (Inr (g1, waypoints g ds l))" "without g (set ds) g1"
    using walk_strand [OF chained_strand [OF c N] points, of "hd ds" n] n(1) by (auto simp: head)
  have c1: "chained N E cs g1" by (rule chained_without [OF c g1(2)])
  have e: "plain_between N e" "e \<notin> E" "e \<notin> fst ` set cs" "clear_edge e"
    using c by (auto simp: chained_def plain_between_def)
  define g2 where "g2 = put_edge g1 (edge_v e) (edge_w e) (Some (waypoints g ds l))"
  note p = chained_put_edge [OF c1 e(1-3), where l = "waypoints g ds l", folded g2_def]
  have "undo_chains g (hd ds # vs) = undo_chains g2 vs"
    using n g1(1) by (simp add: set_edge_with_obj_def put_edge_total g2_def)
  moreover have "edge_label_with_obj g2 x = edge_label_with_obj g x" if x: "x \<in> E" for x
  proof -
    have "clear_edge x" "x \<noteq> e" using c1 x e(2) by (auto simp: chained_def plain_between_def)
    moreover have "x \<in> set (graph_edges g1)" using c1 x by (simp add: chained_def)
    then have "edge_label_with_obj g1 x = edge_label_with_obj g x" using g1(2) by (simp add: without_def)
    ultimately show ?thesis using p(2) by simp
  qed
  ultimately show ?thesis
    using p(1) p(2) [OF e(4)] p(3) g1(2) by (intro exI [of _ g2]) (simp add: without_def)
qed

lemma undo_loop:
  assumes "chained N E cs g" and "settled N g" and "\<forall>c\<in>set cs. ge_points (fst (snd c)) \<noteq> None"
  shows "\<exists>g'. undo_chains g (map (\<lambda>c. hd (snd (snd c))) cs) = Some (Inr g') \<and>
    chained N (E \<union> set (map fst cs)) [] g' \<and> (\<forall>v\<in>N. node_label g' v = node_label g v) \<and>
    (\<forall>x\<in>E. edge_label_with_obj g' x = edge_label_with_obj g x) \<and>
    (\<forall>e l ds. (e, l, ds) \<in> set cs \<longrightarrow> edge_label_with_obj g' e = Some (waypoints g ds l))"
  using assms
proof (induction cs arbitrary: E g)
  case Nil
  then show ?case by simp
next
  case (Cons c cs)
  obtain e l ds where c: "c = (e, l, ds)" by (cases c)
  note m = chained_member [OF Cons.prems(1), of e l ds]
  obtain g1 where g1: "undo_chains g (hd ds # map (\<lambda>c. hd (snd (snd c))) cs) = undo_chains g1 (map (\<lambda>c. hd (snd (snd c))) cs)"
    "chained N (insert e E) cs g1" "\<forall>u. u \<notin> set ds \<longrightarrow> node_label g1 u = node_label g u"
    "\<forall>x\<in>E. edge_label_with_obj g1 x = edge_label_with_obj g x" "edge_label_with_obj g1 e = Some (waypoints g ds l)"
    using undo_one [OF Cons.prems(1) [unfolded c] Cons.prems(2)] Cons.prems(3) c by fastforce
  have keep: "\<forall>v\<in>N. node_label g1 v = node_label g v" using g1(3) m(2) by (auto simp: c)
  then have "settled N g1" using Cons.prems(2) by (simp add: settled_def)
  then obtain g' where g': "undo_chains g1 (map (\<lambda>c. hd (snd (snd c))) cs) = Some (Inr g')"
    "chained N (insert e E \<union> set (map fst cs)) [] g'" "\<forall>v\<in>N. node_label g' v = node_label g1 v"
    "\<forall>x\<in>insert e E. edge_label_with_obj g' x = edge_label_with_obj g1 x"
    "\<forall>e l ds. (e, l, ds) \<in> set cs \<longrightarrow> edge_label_with_obj g' e = Some (waypoints g1 ds l)"
    using Cons.IH [OF g1(2)] Cons.prems(3) by auto
  have "waypoints g1 ds' x = waypoints g ds' x" if "(e', l', ds') \<in> set cs" for e' l' ds' x
  proof -
    have "set ds \<inter> set (chain_nodes cs) = {}" using Cons.prems(1) by (auto simp: chained_def c)
    then have "set ds' \<inter> set ds = {}" using chain_nodes_member [OF that] by blast
    then show ?thesis using g1(3) by (intro foldl_cong) auto
  qed
  with g1 g' keep show ?case by (intro exI [of _ g']) (auto simp: c)
qed

section \<open>The whole pass\<close>

text \<open>
  What the pass expects: the nodes are labelled and none is a dummy, the edges carry no name, are
  labelled and lead to a higher rank.
\<close>

definition normalizable :: "(graph_config, graph_node, graph_edge) graph \<Rightarrow> bool" where
  "normalizable g =
     (clear_graph g \<and> glabel g \<noteq> None \<and> settled (set (graph_nodes g)) g \<and>
      (\<forall>e\<in>set (graph_edges g). edge_name e = None \<and> ready g e))"

lemma normalize_run_chained:
  assumes n: "normalizable g"
  shows "\<exists>g' uid' cs. normalize_run g uid = Inr (g', uid') \<and>
    chained (set (graph_nodes g)) {e \<in> set (graph_edges g). \<not> is_long g e} cs g' \<and>
    normalized (g\<lparr>glabel := map_option (gc_dummy_chains_update (\<lambda>_. Some [])) (glabel g)\<rparr>) (graph_edges g) g' cs"
proof -
  obtain c where c: "glabel g = Some c" using n by (auto simp: normalizable_def)
  define g0 where "g0 = g\<lparr>glabel := Some (c\<lparr>gc_dummy_chains := Some []\<rparr>)\<rparr>"
  have frame: "graph_nodes g0 = graph_nodes g" "graph_edges g0 = graph_edges g" "node_label g0 v = node_label g v"
    "edge_label_with_obj g0 e = edge_label_with_obj g e" "clear_graph g0 = clear_graph g" "rank_of g0 v = rank_of g v" for v e
    by (simp_all add: g0_def graph_nodes_def graph_edges_def node_label_def edge_label_with_obj_def
        clear_graph_def graph_ok_def rank_of_def)
  have clear: "clear_graph g" using n by (simp add: normalizable_def)
  have "plain_between (set (graph_nodes g)) e" if "e \<in> set (graph_edges g)" for e
    using n that edge_ends_known [OF clear_graph_ok [OF clear] that] clear_graph_edge [OF clear that]
    by (simp add: normalizable_def plain_between_def)
  then have "chained (set (graph_nodes g)) (set (graph_edges g)) [] g0"
    using clear by (simp add: chained_def frame)
  moreover have "\<forall>e\<in>set (graph_edges g). ready g0 e" using n by (simp add: normalizable_def ready_def frame)
  moreover obtain g' uid' where run: "foldl normalize_edge (g0, uid) (graph_edges g) = (g', uid')" by fastforce
  ultimately obtain cs where "chained (set (graph_nodes g)) (set (graph_edges g) - {e \<in> set (graph_edges g). is_long g0 e}) cs g'"
    "normalized g0 (graph_edges g) g' cs"
    using normalize_loop [OF _ graph_edges_distinct [OF clear_graph_ok [OF clear]] subset_refl _ run, of _ "[]"] by auto
  moreover have "set (graph_edges g) - {e \<in> set (graph_edges g). is_long g0 e} = {e \<in> set (graph_edges g). \<not> is_long g e}"
    by (auto simp: is_long_def frame)
  moreover have "normalize_run g uid = Inr (g', uid')" using run by (simp add: normalize_run_def c g0_def)
  ultimately show ?thesis by (auto simp: c g0_def)
qed

text \<open>The ranks along a chain rise by one.\<close>

lemma chain_ranks:
  assumes "chain_for g g' (e, l, ds)" and "rank_of g' (edge_v e) = rank_of g (edge_v e)"
    and "rank_of g' (edge_w e) = rank_of g (edge_w e)" and "x \<in> chain_edges (e, l, ds)"
  shows "rank_of g' (edge_w x) = rank_of g' (edge_v x) + 1"
proof -
  obtain i where i: "i < Suc (length ds)"
    "x = plain_edge ((edge_v e # ds @ [edge_w e]) ! i) ((ds @ [edge_w e]) ! i)"
    using assms(4) by (auto simp: chain_edges_def path_nth)
  have "rank_of g' ((edge_v e # ds) ! j) = rank_of g (edge_v e) + int j" if "j < Suc (length ds)" for j
    using assms(1,2) that by (cases j) (auto simp: chain_for_def)
  moreover have "rank_of g' (edge_w e) = rank_of g (edge_v e) + 1 + int (length ds)"
    using assms(1,3) by (simp add: chain_for_def)
  then have "rank_of g' ((ds @ [edge_w e]) ! i) = rank_of g (edge_v e) + 1 + int i"
    using assms(1) i(1) by (auto simp: chain_for_def nth_append less_Suc_eq)
  moreover have "(edge_v e # ds @ [edge_w e]) ! i = (edge_v e # ds) ! i"
    using i(1) by (simp add: nth_append flip: append_Cons)
  ultimately show ?thesis using i by simp
qed

lemma normalize_run_edges:
  assumes n: "normalizable g" and run: "normalize_run g uid = Inr (g', uid')"
  shows "(\<forall>v\<in>set (graph_nodes g). node_label g' v = node_label g v) \<and>
    (\<forall>e\<in>set (graph_edges g'). rank_of g' (edge_w e) = rank_of g' (edge_v e) + 1)"
proof -
  obtain cs where c: "chained (set (graph_nodes g)) {e \<in> set (graph_edges g). \<not> is_long g e} cs g'"
    and m: "normalized (g\<lparr>glabel := map_option (gc_dummy_chains_update (\<lambda>_. Some [])) (glabel g)\<rparr>) (graph_edges g) g' cs"
    (is "normalized ?g _ _ _")
    using normalize_run_chained [OF n, of uid] run by auto
  have frame: "graph_nodes ?g = graph_nodes g" "node_label ?g v = node_label g v" "rank_of ?g v = rank_of g v" for v
    by (simp_all add: graph_nodes_def node_label_def rank_of_def)
  have keep: "node_label g' v = node_label g v" "rank_of g' v = rank_of g v" if "v \<in> set (graph_nodes g)" for v
    using m that by (simp_all add: normalized_def frame rank_of_def)
  have "rank_of g' (edge_w x) = rank_of g' (edge_v x) + 1" if x: "x \<in> set (graph_edges g')" for x
  proof -
    from x c have "x \<in> {e \<in> set (graph_edges g). \<not> is_long g e} \<or> (\<exists>c\<in>set cs. x \<in> chain_edges c)"
      by (auto simp: chained_def)
    then show ?thesis
    proof
      assume x: "x \<in> {e \<in> set (graph_edges g). \<not> is_long g e}"
      then have "plain_between (set (graph_nodes g)) x" using c by (simp add: chained_def)
      then show ?thesis using x keep(2) by (simp add: is_long_def plain_between_def)
    next
      assume "\<exists>c\<in>set cs. x \<in> chain_edges c"
      then obtain e l ds where ch: "(e, l, ds) \<in> set cs" "x \<in> chain_edges (e, l, ds)" by auto
      have "plain_between (set (graph_nodes g)) e" by (rule chained_member(4) [OF c ch(1)])
      moreover have "chain_for ?g g' (e, l, ds)" using m ch(1) by (simp add: normalized_def)
      ultimately show ?thesis
        using chain_ranks [OF _ _ _ ch(2)] keep(2) by (simp add: plain_between_def frame)
    qed
  qed
  with keep(1) show ?thesis by blast
qed


text \<open>
  The passes between \<open>run\<close> and \<open>undo\<close> place the nodes. They may write every field of a node
  label but the three by which \<open>undo\<close> finds its way.
\<close>

definition chain_data :: "graph_node \<Rightarrow> string option \<times> edge option \<times> graph_edge option" where
  "chain_data n = (gn_dummy n, gn_edge_obj n, gn_edge_label n)"

definition placed ::
  "(graph_config, graph_node, graph_edge) graph \<Rightarrow> (graph_config, graph_node, graph_edge) graph \<Rightarrow> bool" where
  "placed g h =
     (clear_graph h \<and> set (graph_nodes h) = set (graph_nodes g) \<and> set (graph_edges h) = set (graph_edges g) \<and>
      (\<forall>e\<in>set (graph_edges g). edge_label_with_obj h e = edge_label_with_obj g e) \<and> glabel h = glabel g \<and>
      (\<forall>v. map_option chain_data (node_label h v) = map_option chain_data (node_label g v)) \<and>
      (\<forall>v. leaf g v \<longrightarrow> leaf h v))"

definition position_of :: "('gl, graph_node, 'e) graph \<Rightarrow> node_id \<Rightarrow> edge_point" where
  "position_of g v = \<lparr>ep_x = gn_x (the (node_label g v)), ep_y = gn_y (the (node_label g v))\<rparr>"

definition route_free :: "graph_edge \<Rightarrow> graph_edge" where
  "route_free l = l\<lparr>ge_points := None, ge_x := 0, ge_y := 0, ge_width := None, ge_height := None\<rparr>"

lemma waypoints_spec:
  "ge_points l = Some ps \<Longrightarrow>
   ge_points (waypoints g ds l) = Some (ps @ map (position_of g) ds) \<and> route_free (waypoints g ds l) = route_free l"
proof (induction ds arbitrary: l ps)
  case (Cons d ds)
  let ?l = "take_waypoint (the (node_label g d)) l"
  have "ge_points ?l = Some (ps @ [position_of g d])" "route_free ?l = route_free l"
    using Cons.prems by (simp_all add: take_waypoint_def Let_def position_of_def route_free_def)
  with Cons.IH show ?case by simp
qed simp

lemma chain_data_dummy_of:
  assumes "map_option chain_data (node_label h d) = map_option chain_data (node_label g d)"
  shows "dummy_of h e l d = dummy_of g e l d"
    and "(\<exists>n. node_label h d = Some n \<and> gn_dummy n = None) \<longleftrightarrow> (\<exists>n. node_label g d = Some n \<and> gn_dummy n = None)"
  using assms by (cases "node_label h d"; cases "node_label g d"; simp add: dummy_of_def chain_data_def)+

lemma chained_placed:
  assumes c: "chained N E cs g" and p: "placed g h"
  shows "chained N E cs h"
  using c p chain_data_dummy_of(1) [of h _ g] unfolding chained_def placed_def chain_ok_def
  by (auto split: prod.splits)

text \<open>How an edge looks after \<open>run\<close>, the placement \<open>h\<close> and \<open>undo\<close>.\<close>

definition routed_edge ::
  "(graph_config, graph_node, graph_edge) graph \<Rightarrow> (graph_config, graph_node, graph_edge) graph \<Rightarrow>
   (graph_config, graph_node, graph_edge) graph \<Rightarrow> (graph_config, graph_node, graph_edge) graph \<Rightarrow> edge \<Rightarrow> bool" where
  "routed_edge g g1 h g' e =
     (\<exists>ds l l'. int (length ds) = rank_of g (edge_w e) - rank_of g (edge_v e) - 1 \<and>
        set ds \<inter> set (graph_nodes g) = {} \<and> set (path (edge_v e) (ds @ [edge_w e])) \<subseteq> set (graph_edges g1) \<and>
        edge_label_with_obj g e = Some l \<and> edge_label_with_obj g' e = Some l' \<and>
        route_free l' = route_free l \<and> ge_points l' = Some (map (position_of h) ds))"

lemma routed_short:
  assumes e: "e \<in> set (graph_edges g1)" "edge_name e = None" "\<not> is_long g e"
    and l: "edge_label_with_obj g e = Some l" "edge_label_with_obj g' e = Some (empty_points l)"
  shows "routed_edge g g1 h g' e"
proof -
  have "set (path (edge_v e) ([] @ [edge_w e])) \<subseteq> set (graph_edges g1)" using e(1) plain_edge_eta [OF e(2)] by simp
  moreover have "route_free (empty_points l) = route_free l" by (simp add: route_free_def)
  ultimately show ?thesis
    unfolding routed_edge_def using e(3) l
    by (intro exI [of _ "[]"] exI [of _ l] exI [of _ "empty_points l"]) (simp add: is_long_def)
qed

lemma routed_long:
  assumes c: "chained N E cs g1" "(e, l, ds) \<in> set cs" and N: "N = set (graph_nodes g)"
    and ch: "chain_for g g1 (e, l, ds)" and l': "edge_label_with_obj g' e = Some (waypoints h ds l)"
  shows "routed_edge g g1 h g' e"
proof -
  obtain l0 where l0: "edge_label_with_obj g e = Some l0" "l = empty_points l0" using ch by (auto simp: chain_for_def)
  have "ge_points (waypoints h ds l) = Some (map (position_of h) ds) \<and> route_free (waypoints h ds l) = route_free l0"
    using waypoints_spec [of l "[]" h ds] by (simp add: l0(2)) (simp add: route_free_def)
  moreover have "set (path (edge_v e) (ds @ [edge_w e])) \<subseteq> set (graph_edges g1)"
    using chained_member(6) [OF c] by (simp add: chain_edges_def)
  ultimately show ?thesis
    unfolding routed_edge_def using ch l' l0(1) chained_member(2) [OF c] N
    by (intro exI [of _ ds] exI [of _ l0] exI [of _ "waypoints h ds l"]) (simp add: chain_for_def)
qed

lemma chain_for_points: "chain_for g g' (e, l, ds) \<Longrightarrow> ge_points l = Some []"
  by (auto simp: chain_for_def)

lemma normalize_undo_chained:
  assumes n: "normalizable g" and c: "chained (set (graph_nodes g)) E cs g1" and p: "placed g1 h"
    and m: "normalized (g\<lparr>glabel := map_option (gc_dummy_chains_update (\<lambda>_. Some [])) (glabel g)\<rparr>) es g1 cs"
      (is "normalized ?g _ _ _")
  shows "\<exists>g'. normalize_undo h = Some (Inr g') \<and> chained (set (graph_nodes g)) (E \<union> set (map fst cs)) [] g' \<and>
    (\<forall>v\<in>set (graph_nodes g). node_label g' v = node_label h v) \<and>
    (\<forall>x\<in>E. edge_label_with_obj g' x = edge_label_with_obj g1 x) \<and>
    (\<forall>e l ds. (e, l, ds) \<in> set cs \<longrightarrow> edge_label_with_obj g' e = Some (waypoints h ds l))"
proof -
  let ?N = "set (graph_nodes g)"
  have nodes: "\<forall>u\<in>?N. node_label g1 u = node_label g u"
    using m by (simp add: normalized_def node_label_def graph_nodes_def)
  then have "settled ?N g1" using n by (simp add: normalizable_def settled_def)
  then have N: "settled ?N h" using p chain_data_dummy_of(2) [of h _ g1] by (simp add: settled_def placed_def)
  obtain c0 where "glabel g = Some c0" using n by (auto simp: normalizable_def)
  then have "glabel h = Some (c0\<lparr>gc_dummy_chains := Some (map (\<lambda>c. hd (snd (snd c))) cs)\<rparr>)"
    using m p by (simp add: normalized_def placed_def)
  then have undo: "normalize_undo h = undo_chains h (map (\<lambda>c. hd (snd (snd c))) cs)" by (simp add: normalize_undo_def)
  have "ge_points (fst (snd c)) \<noteq> None" if "c \<in> set cs" for c
  proof -
    have "chain_for ?g g1 (fst c, fst (snd c), snd (snd c))" using m that by (simp add: normalized_def)
    from chain_for_points [OF this] show ?thesis by simp
  qed
  then obtain g' where g': "undo_chains h (map (\<lambda>c. hd (snd (snd c))) cs) = Some (Inr g')"
    "chained ?N (E \<union> set (map fst cs)) [] g'" "\<forall>v\<in>?N. node_label g' v = node_label h v"
    "\<forall>x\<in>E. edge_label_with_obj g' x = edge_label_with_obj h x"
    "\<forall>e l ds. (e, l, ds) \<in> set cs \<longrightarrow> edge_label_with_obj g' e = Some (waypoints h ds l)"
    using undo_loop [OF chained_placed [OF c p] N] by blast
  moreover have "edge_label_with_obj h x = edge_label_with_obj g1 x" if "x \<in> E" for x
    using p c that by (simp add: placed_def chained_def)
  ultimately show ?thesis using undo by auto
qed


section \<open>A layout in miniature\<close>

text \<open>Three nodes on the ranks 0, 1 and 3; the edge over three ranks is labelled on rank 1.\<close>

definition ex_long :: "(graph_config, graph_node, graph_edge) graph" where
  "ex_long =
     (let node = (\<lambda>r. Some (default_graph_node\<lparr>gn_rank := Some r\<rparr>));
          g = new_graph (Some (option_flags (Some True) (Some True) (Some True))) None None;
          g = set_node (set_node (set_node g ''a'' (node 0)) ''b'' (node 3)) ''c'' (node 1);
          g = put_edge g ''a'' ''b'' (Some (default_graph_edge\<lparr>ge_weight := Some 2, ge_label_rank := Some 1, ge_width := Some 30\<rparr>));
          g = put_edge g ''a'' ''c'' (Some default_graph_edge)
      in g\<lparr>glabel := Some default_graph_config\<rparr>)"

lemma clear_end_letter [simp]: "clear_end ''a''" "clear_end ''b''" "clear_end ''c''"
  by (simp_all add: clear_end_def)

lemma normalizable_ex_long: "normalizable ex_long"
proof -
  have "clear_graph ex_long"
    unfolding ex_long_def Let_def
    by (simp add: clear_put_edge(1) clear_set_node(1) clear_new_graph option_flags_def)
  moreover have "list_all (\<lambda>v. case node_label ex_long v of None \<Rightarrow> False | Some n \<Rightarrow> gn_dummy n = None) (graph_nodes ex_long)"
    "list_all (\<lambda>e. edge_name e = None \<and> ready ex_long e) (graph_edges ex_long)" "glabel ex_long \<noteq> None"
    by code_simp+
  ultimately show ?thesis
    by (auto simp: normalizable_def settled_def list_all_iff split: option.splits)
qed

definition ex_normalized :: "(graph_config, graph_node, graph_edge) graph" where
  "ex_normalized = (case normalize_run ex_long 4 of Inr (g, uid) \<Rightarrow> g | Inl _ \<Rightarrow> ex_long)"

definition ex_placed :: "(graph_config, graph_node, graph_edge) graph" where
  "ex_placed = update_node ex_normalized ''_d4'' (\<lambda>n. n\<lparr>gn_x := 7, gn_y := 9\<rparr>)"

lemma ex_normalized_run: "\<exists>uid'. normalize_run ex_long 4 = Inr (ex_normalized, uid')"
  using normalize_run_chained [OF normalizable_ex_long, of 4] by (auto simp: ex_normalized_def)

lemma placed_ex: "placed ex_normalized ex_placed"
proof -
  have "clear_graph ex_normalized"
    using normalize_run_chained [OF normalizable_ex_long, of 4] by (auto simp: ex_normalized_def chained_def)
  note u = clear_update_node [OF this, where v = "''_d4''" and f = "\<lambda>n. n\<lparr>gn_x := 7, gn_y := 9\<rparr>"]
  have "map_option chain_data (node_label ex_placed v) = map_option chain_data (node_label ex_normalized v)" for v
    by (cases "node_label ex_normalized ''_d4''") (simp_all add: ex_placed_def node_label_update chain_data_def)
  then show ?thesis using u by (simp add: placed_def ex_placed_def)
qed



text \<open>
  Two nodes joined in both directions. The cycle removal turns the second edge round under a name,
  and the normalisation, which drops the names, gives the first edge the label of the second.
\<close>

definition ex_two_cycle :: "(graph_config, graph_node, graph_edge) graph" where
  "ex_two_cycle =
     (let g = new_graph (Some (option_flags (Some True) (Some True) (Some True))) None None;
          g = set_nodes g [''a'', ''b''] (Some default_graph_node);
          g = put_edge g ''a'' ''b'' (Some (default_graph_edge\<lparr>ge_minlen := Some 2, ge_weight := Some 1\<rparr>));
          g = put_edge g ''b'' ''a'' (Some (default_graph_edge\<lparr>ge_minlen := Some 2, ge_weight := Some 5\<rparr>))
      in g\<lparr>glabel := Some default_graph_config\<rparr>)"

text \<open>Cycle removal, ranking, normalisation, its inverse and the inverse of the cycle removal.\<close>

definition through_normalization ::
  "(graph_config, graph_node, graph_edge) graph \<Rightarrow> (graph_config, graph_node, graph_edge) graph option" where
  "through_normalization g =
     (case acyclic_run g 0 of
        Inl _ \<Rightarrow> None
      | Inr (g, uid) \<Rightarrow>
          (case normalize_run (longest_path g) uid of
             Inl _ \<Rightarrow> None
           | Inr (g, uid) \<Rightarrow>
               (case normalize_undo g of
                  Some (Inr g) \<Rightarrow> (case acyclic_undo g of Inl _ \<Rightarrow> None | Inr g \<Rightarrow> Some g)
                | _ \<Rightarrow> None)))"


end
