(* ===== verification/Layout_Stages.thy ===== *)
theory Layout_Stages
  imports Layout_Views
begin

text \<open>
  The passes that \<open>dagre/layout/mod.py\<close> defines itself, and \<open>dagre/layout/coordinate_system.py\<close>:
  room for edge labels, label proxies, self loops, the rotation into the direction of the layout,
  the translation to the origin, the ends of the edges at the borders of the nodes, and the copies
  between the graph of the caller and the graph that is laid out. A pass that asserts that a label
  is there fails at the first one missing; what it has written before is lost with the exception.
\<close>

declare and_then_Inr [simp del]

section \<open>Writing to every label\<close>

definition each_node ::
  "(graph_node \<Rightarrow> graph_node) \<Rightarrow> ('gl, graph_node, 'e) graph \<Rightarrow> layout_error + ('gl, graph_node, 'e) graph" where
  "each_node f g =
     (if \<exists>v\<in>set (graph_nodes g). node_label g v = None then Inl AssertionFailed
      else Inr (foldl (\<lambda>g v. update_node g v f) g (graph_nodes g)))"

definition each_edge ::
  "(graph_edge \<Rightarrow> graph_edge) \<Rightarrow> ('gl, 'n, graph_edge) graph \<Rightarrow> layout_error + ('gl, 'n, graph_edge) graph" where
  "each_edge f g =
     (if \<exists>e\<in>set (graph_edges g). edge_label_with_obj g e = None then Inl AssertionFailed
      else Inr (foldl (\<lambda>g e. update_edge g e f) g (graph_edges g)))"

section \<open>The direction of the layout\<close>

definition rank_direction :: "(graph_config, 'n, 'e) graph \<Rightarrow> layout_error + string" where
  "rank_direction g =
     (case glabel g of
        None \<Rightarrow> Inl AssertionFailed
      | Some c \<Rightarrow> (case gc_rankdir c of None \<Rightarrow> Inl AssertionFailed | Some d \<Rightarrow> Inr d))"

definition swap_node_size :: "graph_node \<Rightarrow> graph_node" where
  "swap_node_size n = n\<lparr>gn_width := gn_height n, gn_height := gn_width n\<rparr>"

definition swap_edge_size :: "graph_edge \<Rightarrow> graph_edge" where
  "swap_edge_size l = l\<lparr>ge_width := ge_height l, ge_height := ge_width l\<rparr>"

definition swap_width_height ::
  "('gl, graph_node, graph_edge) graph \<Rightarrow> layout_error + ('gl, graph_node, graph_edge) graph" where
  "swap_width_height g = and_then (each_node swap_node_size g) (each_edge swap_edge_size)"

definition negate_node_y :: "graph_node \<Rightarrow> graph_node" where
  "negate_node_y n = n\<lparr>gn_y := - gn_y n\<rparr>"

definition move_points :: "(edge_point \<Rightarrow> edge_point) \<Rightarrow> graph_edge \<Rightarrow> graph_edge" where
  "move_points f l = l\<lparr>ge_points := Some (map f (option_or (ge_points l) []))\<rparr>"

definition negate_edge_y :: "graph_edge \<Rightarrow> graph_edge" where
  "negate_edge_y l = (move_points (\<lambda>p. p\<lparr>ep_y := - ep_y p\<rparr>) l)\<lparr>ge_y := - ge_y l\<rparr>"

definition reverse_y ::
  "('gl, graph_node, graph_edge) graph \<Rightarrow> layout_error + ('gl, graph_node, graph_edge) graph" where
  "reverse_y g = and_then (each_node negate_node_y g) (each_edge negate_edge_y)"

definition swap_node_axes :: "graph_node \<Rightarrow> graph_node" where
  "swap_node_axes n = n\<lparr>gn_x := gn_y n, gn_y := gn_x n\<rparr>"

definition swap_edge_axes :: "graph_edge \<Rightarrow> graph_edge" where
  "swap_edge_axes l = (move_points (\<lambda>p. p\<lparr>ep_x := ep_y p, ep_y := ep_x p\<rparr>) l)\<lparr>ge_x := ge_y l, ge_y := ge_x l\<rparr>"

definition swap_x_y ::
  "('gl, graph_node, graph_edge) graph \<Rightarrow> layout_error + ('gl, graph_node, graph_edge) graph" where
  "swap_x_y g = and_then (each_node swap_node_axes g) (each_edge swap_edge_axes)"

definition coord_adjust ::
  "(graph_config, graph_node, graph_edge) graph \<Rightarrow> layout_error + (graph_config, graph_node, graph_edge) graph" where
  "coord_adjust g =
     and_then (rank_direction g) (\<lambda>d. if d \<in> {''lr'', ''rl''} then swap_width_height g else Inr g)"

definition coord_undo ::
  "(graph_config, graph_node, graph_edge) graph \<Rightarrow> layout_error + (graph_config, graph_node, graph_edge) graph" where
  "coord_undo g =
     and_then (rank_direction g) (\<lambda>d.
       and_then (if d \<in> {''bt'', ''rl''} then reverse_y g else Inr g) (\<lambda>g.
         if d \<in> {''lr'', ''rl''} then and_then (swap_x_y g) swap_width_height else Inr g))"

section \<open>Room for the labels of edges\<close>

definition DEFAULT_RANK_SEP :: rat where
  "DEFAULT_RANK_SEP = 50"

definition spaced_edge :: "string \<Rightarrow> graph_edge \<Rightarrow> graph_edge" where
  "spaced_edge rankdir l =
     (let l = l\<lparr>ge_minlen := Some (option_or (ge_minlen l) 1 * 2)\<rparr>;
          offset = option_or (ge_labeloffset l) 10
      in if option_or (ge_labelpos l) [] = ''c'' then l
         else if rankdir = ''tb'' \<or> rankdir = ''bt''
         then l\<lparr>ge_width := Some (option_or (ge_width l) 0 + offset)\<rparr>
         else l\<lparr>ge_height := Some (option_or (ge_height l) 0 + offset)\<rparr>)"

definition make_space_for_edge_labels ::
  "(graph_config, 'n, graph_edge) graph \<Rightarrow> layout_error + (graph_config, 'n, graph_edge) graph" where
  "make_space_for_edge_labels g =
     (case glabel g of
        None \<Rightarrow> Inl AssertionFailed
      | Some c \<Rightarrow>
          each_edge (spaced_edge (option_or (gc_rankdir c) []))
            (g\<lparr>glabel := Some (c\<lparr>gc_ranksep := Some (option_or (gc_ranksep c) DEFAULT_RANK_SEP / 2)\<rparr>)\<rparr>))"

definition edge_width :: "graph_edge \<Rightarrow> rat" where
  "edge_width l = option_or (ge_width l) 0"

definition edge_height :: "graph_edge \<Rightarrow> rat" where
  "edge_height l = option_or (ge_height l) 0"

definition labelled_edge :: "graph_edge \<Rightarrow> bool" where
  "labelled_edge l = (edge_width l > 0 \<and> edge_height l > 0)"

fun inject_edge_label_proxies ::
  "edge list \<Rightarrow> ('gl, graph_node, graph_edge) graph \<Rightarrow> nat \<Rightarrow>
   layout_error + (('gl, graph_node, graph_edge) graph \<times> nat)" where
  "inject_edge_label_proxies [] g uid = Inr (g, uid)"
| "inject_edge_label_proxies (e # es) g uid =
     (case edge_label_with_obj g e of
        None \<Rightarrow> Inl AssertionFailed
      | Some l \<Rightarrow>
          (if labelled_edge l
           then (let v_rank = rank_of g (edge_v e); w_rank = rank_of g (edge_w e);
                     label = default_graph_node\<lparr>gn_rank := Some ((w_rank - v_rank) div 2 + v_rank),
                       gn_width := edge_width l, gn_height := edge_height l, gn_labelpos := ge_labelpos l, gn_e := Some e\<rparr>;
                     (v, g, uid) = add_dummy_node g ''edge-proxy'' label ''_ep'' uid
                 in inject_edge_label_proxies es g uid)
           else inject_edge_label_proxies es g uid))"

fun remove_edge_label_proxies ::
  "node_id list \<Rightarrow> ('gl, graph_node, graph_edge) graph \<Rightarrow> layout_error + ('gl, graph_node, graph_edge) graph" where
  "remove_edge_label_proxies [] g = Inr g"
| "remove_edge_label_proxies (v # vs) g =
     (case node_label g v of
        None \<Rightarrow> Inl AssertionFailed
      | Some node \<Rightarrow>
          (if gn_dummy node = Some ''edge-proxy''
           then (case gn_e node of
                   None \<Rightarrow> Inl AssertionFailed
                 | Some e \<Rightarrow>
                     (let g = update_edge g e (\<lambda>l. l\<lparr>ge_label_rank := Some (option_or (gn_rank node) 0)\<rparr>)
                      in remove_edge_label_proxies vs (remove_node g v)))
           else remove_edge_label_proxies vs g))"

definition fixup_edge_label :: "graph_edge \<Rightarrow> graph_edge" where
  "fixup_edge_label l =
     (let pos = option_or (ge_labelpos l) []; offset = option_or (ge_labeloffset l) 0
      in if ge_x l \<noteq> 0 \<and> (pos = ''l'' \<or> pos = ''r'')
         then (let w = edge_width l - offset; shift = w / 2 + offset
               in l\<lparr>ge_width := Some w, ge_x := (if pos = ''l'' then ge_x l - shift else ge_x l + shift)\<rparr>)
         else l)"

definition fixup_edge_label_coords ::
  "('gl, 'n, graph_edge) graph \<Rightarrow> layout_error + ('gl, 'n, graph_edge) graph" where
  "fixup_edge_label_coords g = each_edge fixup_edge_label g"

definition reverse_points_for_reversed_edges ::
  "('gl, 'n, graph_edge) graph \<Rightarrow> layout_error + ('gl, 'n, graph_edge) graph" where
  "reverse_points_for_reversed_edges g =
     each_edge (\<lambda>l. if option_or (ge_reversed l) False then l\<lparr>ge_points := map_option rev (ge_points l)\<rparr> else l) g"

section \<open>The ranks of compound nodes, and their borders\<close>

fun assign_rank_min_max ::
  "node_id list \<Rightarrow> ('gl, graph_node, 'e) graph \<Rightarrow> layout_error + ('gl, graph_node, 'e) graph" where
  "assign_rank_min_max [] g = Inr g"
| "assign_rank_min_max (v # vs) g =
     (case node_label g v of
        None \<Rightarrow> Inl AssertionFailed
      | Some node \<Rightarrow>
          (case gn_border_top node of
             None \<Rightarrow> assign_rank_min_max vs g
           | Some upper \<Rightarrow>
               (case (node_label g upper, gn_border_bottom node) of
                  (Some top_node, Some lower) \<Rightarrow>
                    (case node_label g lower of
                       None \<Rightarrow> Inl AssertionFailed
                     | Some bottom_node \<Rightarrow>
                         assign_rank_min_max vs (update_node g v (\<lambda>n. n\<lparr>
                           gn_min_rank := Some (option_or (gn_rank top_node) 0),
                           gn_max_rank := Some (option_or (gn_rank bottom_node) 0)\<rparr>)))
                | _ \<Rightarrow> Inl AssertionFailed)))"

text \<open>The border node with the greatest rank of a side.\<close>

definition last_border ::
  "('gl, graph_node, 'e) graph \<Rightarrow> (int, node_id) ordered_hashmap option \<Rightarrow> graph_node option" where
  "last_border g side =
     (case side of
        None \<Rightarrow> None
      | Some m \<Rightarrow>
          (if ohm_keys m = [] then None
           else (case ohm_get m (Max (set (ohm_keys m))) of None \<Rightarrow> None | Some v \<Rightarrow> node_label g v)))"

definition boxed_node ::
  "('gl, graph_node, 'e) graph \<Rightarrow> graph_node \<Rightarrow> graph_node option" where
  "boxed_node g node =
     (case (gn_border_top node, gn_border_bottom node) of
        (Some upper, Some lower) \<Rightarrow>
          (case (node_label g upper, node_label g lower, last_border g (gn_border_left node), last_border g (gn_border_right node)) of
             (Some t, Some b, Some l, Some r) \<Rightarrow>
               (let w = \<bar>gn_x r - gn_x l\<bar>; h = \<bar>gn_y b - gn_y t\<bar>
                in Some (node\<lparr>gn_width := w, gn_height := h, gn_x := gn_x l + w / 2, gn_y := gn_y t + h / 2\<rparr>))
           | _ \<Rightarrow> None)
      | _ \<Rightarrow> None)"

fun box_compound_nodes ::
  "node_id list \<Rightarrow> ('gl, graph_node, 'e) graph \<Rightarrow> layout_error + ('gl, graph_node, 'e) graph" where
  "box_compound_nodes [] g = Inr g"
| "box_compound_nodes (v # vs) g =
     (if graph_children g v = [] then box_compound_nodes vs g
      else (case node_label g v of
              None \<Rightarrow> Inl AssertionFailed
            | Some node \<Rightarrow>
                (case boxed_node g node of
                   None \<Rightarrow> box_compound_nodes vs g
                 | Some node \<Rightarrow> box_compound_nodes vs (set_node g v (Some node)))))"

fun drop_dummies ::
  "string \<Rightarrow> node_id list \<Rightarrow> ('gl, graph_node, 'e) graph \<Rightarrow> layout_error + ('gl, graph_node, 'e) graph" where
  "drop_dummies kind [] g = Inr g"
| "drop_dummies kind (v # vs) g =
     (case node_label g v of
        None \<Rightarrow> Inl AssertionFailed
      | Some node \<Rightarrow> drop_dummies kind vs (if gn_dummy node = Some kind then remove_node g v else g))"

definition remove_border_nodes ::
  "('gl, graph_node, 'e) graph \<Rightarrow> layout_error + ('gl, graph_node, 'e) graph" where
  "remove_border_nodes g =
     and_then (box_compound_nodes (graph_nodes g) g) (\<lambda>g. drop_dummies ''border'' (graph_nodes g) g)"

section \<open>Self loops\<close>

fun remove_self_edges ::
  "edge list \<Rightarrow> ('gl, graph_node, graph_edge) graph \<Rightarrow> layout_error + ('gl, graph_node, graph_edge) graph" where
  "remove_self_edges [] g = Inr g"
| "remove_self_edges (e # es) g =
     (if edge_v e = edge_w e
      then (case (edge_label_with_obj g e, node_label g (edge_v e)) of
              (Some l, Some node) \<Rightarrow>
                (let g = update_node g (edge_v e) (\<lambda>n. n\<lparr>gn_self_edges := gn_self_edges n @ [(e, l)]\<rparr>)
                 in remove_self_edges es (remove_edge_with_obj g e))
            | _ \<Rightarrow> Inl AssertionFailed)
      else remove_self_edges es g)"

definition self_edge_node :: "int option \<Rightarrow> int \<Rightarrow> edge \<Rightarrow> graph_edge \<Rightarrow> graph_node" where
  "self_edge_node rank ord e l =
     default_graph_node\<lparr>gn_width := edge_width l, gn_height := edge_height l, gn_rank := rank,
       gn_order := Some ord, gn_e := Some e, gn_label := Some l\<rparr>"

fun insert_loops ::
  "int option \<Rightarrow> int \<Rightarrow> int \<Rightarrow> (edge \<times> graph_edge) list \<Rightarrow> ('gl, graph_node, 'e) graph \<Rightarrow> nat \<Rightarrow>
   int \<times> ('gl, graph_node, 'e) graph \<times> nat" where
  "insert_loops rank i shift [] g uid = (shift, g, uid)"
| "insert_loops rank i shift ((e, l) # es) g uid =
     (let shift = shift + 1;
          (v, g, uid) = add_dummy_node g ''selfedge'' (self_edge_node rank (i + shift) e l) ''_se'' uid
      in insert_loops rank i shift es g uid)"

fun insert_layer_loops ::
  "int \<Rightarrow> int \<Rightarrow> node_id list \<Rightarrow> ('gl, graph_node, 'e) graph \<Rightarrow> nat \<Rightarrow> layout_error + (('gl, graph_node, 'e) graph \<times> nat)" where
  "insert_layer_loops i shift [] g uid = Inr (g, uid)"
| "insert_layer_loops i shift (v # vs) g uid =
     (case node_label g v of
        None \<Rightarrow> Inl AssertionFailed
      | Some node \<Rightarrow>
          (let g = update_node g v (\<lambda>n. n\<lparr>gn_order := Some (i + shift)\<rparr>);
               (shift, g, uid) = insert_loops (gn_rank node) i shift (gn_self_edges node) g uid
           in insert_layer_loops (i + 1) shift vs g uid))"

fun insert_loops_in_layers ::
  "node_id list list \<Rightarrow> ('gl, graph_node, 'e) graph \<Rightarrow> nat \<Rightarrow> layout_error + (('gl, graph_node, 'e) graph \<times> nat)" where
  "insert_loops_in_layers [] g uid = Inr (g, uid)"
| "insert_loops_in_layers (layer # layers) g uid =
     and_then (insert_layer_loops 0 0 layer g uid) (\<lambda>(g, uid). insert_loops_in_layers layers g uid)"

definition insert_self_edges ::
  "('gl, graph_node, 'e) graph \<Rightarrow> nat \<Rightarrow> layout_error + (('gl, graph_node, 'e) graph \<times> nat)" where
  "insert_self_edges g uid = and_then (build_layer_matrix g) (\<lambda>layers. insert_loops_in_layers layers g uid)"

definition loop_curve :: "graph_node \<Rightarrow> graph_node \<Rightarrow> edge_point list" where
  "loop_curve self node =
     (let x = gn_x self + gn_width self / 2; y = gn_y self; dx = gn_x node - x; dy = gn_height self / 2
      in [\<lparr>ep_x = x + 2 * dx / 3, ep_y = y - dy\<rparr>, \<lparr>ep_x = x + 2 * dx / 3, ep_y = y - dy\<rparr>,
          \<lparr>ep_x = x + 5 * dx / 6, ep_y = y - dy\<rparr>, \<lparr>ep_x = x + dx, ep_y = y\<rparr>,
          \<lparr>ep_x = x + 5 * dx / 6, ep_y = y + dy\<rparr>, \<lparr>ep_x = x + 2 * dx / 3, ep_y = y + dy\<rparr>])"

fun position_self_edges ::
  "node_id list \<Rightarrow> ('gl, graph_node, graph_edge) graph \<Rightarrow> layout_error + ('gl, graph_node, graph_edge) graph" where
  "position_self_edges [] g = Inr g"
| "position_self_edges (v # vs) g =
     (case node_label g v of
        None \<Rightarrow> Inl AssertionFailed
      | Some node \<Rightarrow>
          (if gn_dummy node = Some ''selfedge''
           then (case gn_e node of
                   None \<Rightarrow> Inl AssertionFailed
                 | Some e \<Rightarrow>
                     (case (node_label g (edge_v e), gn_label node) of
                        (Some self, Some l) \<Rightarrow>
                          (let l = l\<lparr>ge_points := Some (loop_curve self node), ge_x := gn_x node, ge_y := gn_y node\<rparr>
                           in position_self_edges vs (remove_node (put_edge g (edge_v e) (edge_w e) (Some l)) v))
                      | _ \<Rightarrow> Inl AssertionFailed))
           else position_self_edges vs g))"

section \<open>The translation to the origin\<close>

text \<open>The least and greatest coordinates so far; a least coordinate starts as infinity.\<close>

record extremes =
  min_x :: "rat option"
  max_x :: rat
  min_y :: "rat option"
  max_y :: rat

definition lower_bound :: "rat option \<Rightarrow> rat \<Rightarrow> rat option" where
  "lower_bound m x = Some (case m of None \<Rightarrow> x | Some m \<Rightarrow> min m x)"

definition get_extremes :: "extremes \<Rightarrow> rat \<Rightarrow> rat \<Rightarrow> rat \<Rightarrow> rat \<Rightarrow> extremes" where
  "get_extremes ex x y w h =
     \<lparr>min_x = lower_bound (min_x ex) (x - w / 2), max_x = max (max_x ex) (x + w / 2),
      min_y = lower_bound (min_y ex) (y - h / 2), max_y = max (max_y ex) (y + h / 2)\<rparr>"

definition node_extremes :: "extremes \<Rightarrow> graph_node \<Rightarrow> extremes" where
  "node_extremes ex n = get_extremes ex (gn_x n) (gn_y n) (gn_width n) (gn_height n)"

definition edge_extremes :: "extremes \<Rightarrow> graph_edge \<Rightarrow> extremes" where
  "edge_extremes ex l =
     (if labelled_edge l then get_extremes ex (ge_x l) (ge_y l) (edge_width l) (edge_height l) else ex)"

definition graph_extremes :: "('gl, graph_node, graph_edge) graph \<Rightarrow> extremes" where
  "graph_extremes g =
     (let ex = \<lparr>min_x = None, max_x = 0, min_y = None, max_y = 0\<rparr>;
          ex = foldl node_extremes ex (map (\<lambda>v. the (node_label g v)) (graph_nodes g))
      in foldl edge_extremes ex (map (\<lambda>e. the (edge_label_with_obj g e)) (graph_edges g)))"

definition shift_node :: "rat \<Rightarrow> rat \<Rightarrow> graph_node \<Rightarrow> graph_node" where
  "shift_node dx dy n = n\<lparr>gn_x := gn_x n - dx, gn_y := gn_y n - dy\<rparr>"

definition shift_edge :: "rat \<Rightarrow> rat \<Rightarrow> graph_edge \<Rightarrow> graph_edge" where
  "shift_edge dx dy l =
     (let l = l\<lparr>ge_points := map_option (map (\<lambda>p. \<lparr>ep_x = ep_x p - dx, ep_y = ep_y p - dy\<rparr>)) (ge_points l)\<rparr>
      in if labelled_edge l then l\<lparr>ge_x := ge_x l - dx, ge_y := ge_y l - dy\<rparr> else l)"

definition all_labelled :: "('gl, 'n, 'e) graph \<Rightarrow> bool" where
  "all_labelled g = (list_all (\<lambda>v. node_label g v \<noteq> None) (graph_nodes g) \<and>
     list_all (\<lambda>e. edge_label_with_obj g e \<noteq> None) (graph_edges g))"

definition translate_graph ::
  "(graph_config, graph_node, graph_edge) graph \<Rightarrow> layout_error + (graph_config, graph_node, graph_edge) graph" where
  "translate_graph g =
     (case glabel g of
        None \<Rightarrow> Inl AssertionFailed
      | Some c \<Rightarrow>
          (if \<not> all_labelled g then Inl AssertionFailed
           else (let ex = graph_extremes g; margin_x = option_or (gc_marginx c) 0; margin_y = option_or (gc_marginy c) 0
                 in case (min_x ex, min_y ex) of
                      (Some mx, Some my) \<Rightarrow>
                        (let left = mx - margin_x; upper = my - margin_y
                         in and_then (and_then (each_node (shift_node left upper) g) (each_edge (shift_edge left upper)))
                              (\<lambda>g. Inr (g\<lparr>glabel := Some (c\<lparr>gc_width := max_x ex - left + margin_x,
                                                              gc_height := max_y ex - upper + margin_y\<rparr>)\<rparr>)))
                    | _ \<Rightarrow> Inl NotFinite)))"

section \<open>The ends of the edges\<close>

definition node_box :: "graph_node \<Rightarrow> rect" where
  "node_box n = \<lparr>r_x = gn_x n, r_y = gn_y n, r_width = gn_width n, r_height = gn_height n\<rparr>"

definition node_centre :: "graph_node \<Rightarrow> edge_point" where
  "node_centre n = \<lparr>ep_x = gn_x n, ep_y = gn_y n\<rparr>"

definition with_ends :: "graph_node \<Rightarrow> graph_node \<Rightarrow> graph_edge \<Rightarrow> layout_error + graph_edge" where
  "with_ends v w l =
     (let points = option_or (ge_points l) [];
          (p1, p2) = (if points = [] then (node_centre w, node_centre v) else (hd points, last points))
      in and_then (intersect_rect (node_box v) p1) (\<lambda>q1.
           and_then (intersect_rect (node_box w) p2) (\<lambda>q2.
             Inr (l\<lparr>ge_points := Some (q1 # points @ [q2])\<rparr>))))"

fun assign_node_intersects ::
  "edge list \<Rightarrow> ('gl, graph_node, graph_edge) graph \<Rightarrow> layout_error + ('gl, graph_node, graph_edge) graph" where
  "assign_node_intersects [] g = Inr g"
| "assign_node_intersects (e # es) g =
     (case (edge_label_with_obj g e, node_label g (edge_v e), node_label g (edge_w e)) of
        (Some l, Some v, Some w) \<Rightarrow>
          and_then (with_ends v w l) (\<lambda>l. assign_node_intersects es (put_edge g (edge_v e) (edge_w e) (Some l)))
      | _ \<Rightarrow> Inl AssertionFailed)"

section \<open>The graph of the caller\<close>

definition or_default :: "'a option \<Rightarrow> 'a \<Rightarrow> 'a option" where
  "or_default x d = (if x = None then Some d else x)"

definition set_graph_label_default_values :: "graph_config \<Rightarrow> graph_config" where
  "set_graph_label_default_values c =
     c\<lparr>gc_ranksep := or_default (gc_ranksep c) 50, gc_edgesep := or_default (gc_edgesep c) 20,
       gc_nodesep := or_default (gc_nodesep c) 50, gc_rankdir := or_default (gc_rankdir c) ''tb'',
       gc_marginx := or_default (gc_marginx c) 0, gc_marginy := or_default (gc_marginy c) 0\<rparr>"

definition set_edge_label_default_values :: "graph_edge \<Rightarrow> graph_edge" where
  "set_edge_label_default_values l =
     l\<lparr>ge_minlen := or_default (ge_minlen l) 1, ge_weight := or_default (ge_weight l) 1,
       ge_width := or_default (ge_width l) 0, ge_height := or_default (ge_height l) 0,
       ge_labeloffset := or_default (ge_labeloffset l) 10, ge_labelpos := or_default (ge_labelpos l) ''r''\<rparr>"

fun copy_nodes ::
  "('gl, graph_node, 'e) graph \<Rightarrow> node_id list \<Rightarrow> ('gl, graph_node, 'e) graph \<Rightarrow>
   (layout_error + ('gl, graph_node, 'e) graph) option" where
  "copy_nodes input [] g = Some (Inr g)"
| "copy_nodes input (v # vs) g =
     (case node_label input v of
        None \<Rightarrow> copy_nodes input vs g
      | Some node \<Rightarrow>
          (case set_parent (set_node g v (Some node)) v (graph_parent input v) of
             None \<Rightarrow> None
           | Some (Inl err) \<Rightarrow> Some (Inl (GraphFailed err))
           | Some (Inr g) \<Rightarrow> copy_nodes input vs g))"

definition copy_edge_label ::
  "('gl, 'n, graph_edge) graph \<Rightarrow> ('gl, 'n, graph_edge) graph \<Rightarrow> edge \<Rightarrow> ('gl, 'n, graph_edge) graph" where
  "copy_edge_label input g e =
     (case edge_label_with_obj input e of
        None \<Rightarrow> g
      | Some l \<Rightarrow> put_edge g (edge_v e) (edge_w e) (Some (set_edge_label_default_values l)))"

definition build_layout_graph ::
  "(graph_config, graph_node, graph_edge) graph \<Rightarrow>
   (layout_error + (graph_config, graph_node, graph_edge) graph) option" where
  "build_layout_graph input =
     (case glabel input of
        None \<Rightarrow> Some (Inl AssertionFailed)
      | Some c \<Rightarrow>
          (let g = new_graph (Some (option_flags (Some True) (Some True) (Some True)))
                     (Some (\<lambda>_. Some default_graph_node)) (Some (\<lambda>_. Some default_graph_edge));
               g = g\<lparr>glabel := Some (set_graph_label_default_values c)\<rparr>
           in case copy_nodes input (graph_nodes input) g of
                Some (Inr g) \<Rightarrow> Some (Inr (foldl (copy_edge_label input) g (graph_edges input)))
              | r \<Rightarrow> r))"

definition placed_like :: "('gl, graph_node, 'e) graph \<Rightarrow> node_id \<Rightarrow> graph_node \<Rightarrow> graph_node \<Rightarrow> graph_node" where
  "placed_like layout v l n =
     (let n = n\<lparr>gn_x := gn_x l, gn_y := gn_y l\<rparr>
      in if graph_children layout v \<noteq> [] then n\<lparr>gn_width := gn_width l, gn_height := gn_height l\<rparr> else n)"

fun update_nodes ::
  "('gl, graph_node, 'e) graph \<Rightarrow> node_id list \<Rightarrow> ('gl, graph_node, 'e) graph \<Rightarrow>
   layout_error + ('gl, graph_node, 'e) graph" where
  "update_nodes layout [] g = Inr g"
| "update_nodes layout (v # vs) g =
     (case node_label layout v of
        None \<Rightarrow> Inl AssertionFailed
      | Some l \<Rightarrow> update_nodes layout vs (update_node g v (placed_like layout v l)))"

fun update_edges ::
  "('gl, 'n, graph_edge) graph \<Rightarrow> edge list \<Rightarrow> ('gl, 'n, graph_edge) graph \<Rightarrow>
   layout_error + ('gl, 'n, graph_edge) graph" where
  "update_edges layout [] g = Inr g"
| "update_edges layout (e # es) g =
     (case (edge_label_with_obj g e, edge_label_with_obj layout e) of
        (Some _, Some l) \<Rightarrow>
          update_edges layout es
            (update_edge g e (\<lambda>i. i\<lparr>ge_points := ge_points l, ge_x := ge_x l, ge_y := ge_y l\<rparr>))
      | _ \<Rightarrow> Inl AssertionFailed)"

definition update_input_graph ::
  "(graph_config, graph_node, graph_edge) graph \<Rightarrow> (graph_config, graph_node, graph_edge) graph \<Rightarrow>
   layout_error + (graph_config, graph_node, graph_edge) graph" where
  "update_input_graph input layout =
     and_then (update_nodes layout (graph_nodes input) input) (\<lambda>g.
       and_then (update_edges layout (graph_edges input) g) (\<lambda>g.
         case (glabel g, glabel layout) of
           (Some c, Some l) \<Rightarrow> Inr (g\<lparr>glabel := Some (c\<lparr>gc_width := gc_width l, gc_height := gc_height l\<rparr>)\<rparr>)
         | _ \<Rightarrow> Inl AssertionFailed))"

section \<open>What the passes over all labels do\<close>

lemma distinct_graph_nodes: "graph_ok g \<Longrightarrow> distinct (graph_nodes g)"
  by (simp add: graph_ok_def graph_nodes_def ohm_keys_def)

text \<open>The parts of a graph that a write to the label of a node leaves alone, and conversely.\<close>

definition same_edges :: "('gl, 'n, 'e) graph \<Rightarrow> ('gl, 'm, 'e) graph \<Rightarrow> bool" where
  "same_edges g h =
     (graph_edges h = graph_edges g \<and> (\<forall>e. edge_label_with_obj h e = edge_label_with_obj g e))"

definition same_nodes :: "('gl, 'n, 'e) graph \<Rightarrow> ('gl, 'n, 'f) graph \<Rightarrow> bool" where
  "same_nodes g h = (graph_nodes h = graph_nodes g \<and> (\<forall>v. node_label h v = node_label g v))"

lemma update_node_keys: "graph_nodes (update_node g v f) = graph_nodes g"
  using dict_keys_set_old [of "nodes_map g" v]
  by (auto simp: update_node_def graph_nodes_def ohm_keys_def node_label_def dict_has_def split: option.splits)

lemma update_nodes_view:
  assumes "clear_graph g" and "distinct vs"
  shows "clear_graph (foldl (\<lambda>g v. update_node g v f) g vs)" (is ?clear)
    and "same_edges g (foldl (\<lambda>g v. update_node g v f) g vs)" (is ?edges)
    and "graph_nodes (foldl (\<lambda>g v. update_node g v f) g vs) = graph_nodes g" (is ?nodes)
    and "node_label (foldl (\<lambda>g v. update_node g v f) g vs) u =
      (if u \<in> set vs then map_option f (node_label g u) else node_label g u)" (is ?label)
    and "glabel (foldl (\<lambda>g v. update_node g v f) g vs) = glabel g" (is ?config)
proof -
  have "?clear \<and> ?edges \<and> ?nodes \<and> ?label \<and> ?config"
    using assms
  proof (induction vs arbitrary: g)
    case Nil
    then show ?case by (simp add: same_edges_def)
  next
    case (Cons v vs)
    note u = clear_update_node [OF Cons.prems(1), where v = v and f = f]
    from Cons.IH [OF u(1)] Cons.prems(2) u(2,3,5) show ?case
      by (simp add: same_edges_def update_node_keys node_label_update)
  qed
  then show ?clear ?edges ?nodes ?label ?config by simp_all
qed

lemma each_node_view:
  assumes g: "clear_graph g" and each: "each_node f g = Inr g'"
  shows "clear_graph g'" and "same_edges g g'" and "graph_nodes g' = graph_nodes g"
    and "node_label g' u = map_option f (node_label g u)" and "glabel g' = glabel g"
proof -
  have g': "g' = foldl (\<lambda>g v. update_node g v f) g (graph_nodes g)"
    using each by (simp add: each_node_def split: if_splits)
  note u = update_nodes_view [OF g distinct_graph_nodes [OF clear_graph_ok [OF g]], where f = f, folded g']
  have "u \<notin> set (graph_nodes g) \<Longrightarrow> node_label g u = None"
    using node_label_known [of g u] by (cases "node_label g u") auto
  then show "node_label g' u = map_option f (node_label g u)" using u(4) by auto
  show "clear_graph g'" "same_edges g g'" "graph_nodes g' = graph_nodes g" "glabel g' = glabel g"
    using u by simp_all
qed

lemma update_edges_view:
  assumes "clear_graph g" and "distinct es" and "set es \<subseteq> set (graph_edges g)"
  shows "clear_graph (foldl (\<lambda>g e. update_edge g e f) g es)" (is ?clear)
    and "same_nodes g (foldl (\<lambda>g e. update_edge g e f) g es)" (is ?nodes)
    and "graph_edges (foldl (\<lambda>g e. update_edge g e f) g es) = graph_edges g" (is ?edges)
    and "clear_edge d \<Longrightarrow> edge_label_with_obj (foldl (\<lambda>g e. update_edge g e f) g es) d =
      (if d \<in> set es then map_option f (edge_label_with_obj g d) else edge_label_with_obj g d)"
      (is "_ \<Longrightarrow> ?label")
    and "glabel (foldl (\<lambda>g e. update_edge g e f) g es) = glabel g" (is ?config)
proof -
  have "?clear \<and> ?nodes \<and> ?edges \<and> (clear_edge d \<longrightarrow> ?label) \<and> ?config"
    using assms
  proof (induction es arbitrary: g)
    case Nil
    then show ?case by (simp add: same_nodes_def)
  next
    case (Cons e es)
    then have e: "e \<in> set (graph_edges g)" by simp
    note u = clear_update_edge [OF Cons.prems(1) e, where f = f]
    from Cons.IH [OF u(1)] Cons.prems(2,3) u(2-6) show ?case by (simp add: same_nodes_def)
  qed
  then show ?clear ?nodes ?edges "clear_edge d \<Longrightarrow> ?label" ?config by simp_all
qed

lemma each_edge_view:
  assumes g: "clear_graph g" and each: "each_edge f g = Inr g'"
  shows "clear_graph g'" and "same_nodes g g'" and "graph_edges g' = graph_edges g"
    and "e \<in> set (graph_edges g) \<Longrightarrow> edge_label_with_obj g' e = map_option f (edge_label_with_obj g e)"
    and "glabel g' = glabel g"
proof -
  have g': "g' = foldl (\<lambda>g e. update_edge g e f) g (graph_edges g)"
    using each by (simp add: each_edge_def split: if_splits)
  note u = update_edges_view [OF g graph_edges_distinct [OF clear_graph_ok [OF g]] subset_refl, where f = f, folded g']
  show "e \<in> set (graph_edges g) \<Longrightarrow> edge_label_with_obj g' e = map_option f (edge_label_with_obj g e)"
    using u(4) [OF clear_graph_edge [OF g]] by simp
  show "clear_graph g'" "same_nodes g g'" "graph_edges g' = graph_edges g" "glabel g' = glabel g"
    using u by simp_all
qed

lemma each_node_total: "all_labelled g \<Longrightarrow> \<exists>g'. each_node f g = Inr g'"
  by (auto simp: each_node_def all_labelled_def list_all_iff)

lemma each_edge_total: "all_labelled g \<Longrightarrow> \<exists>g'. each_edge f g = Inr g'"
  by (auto simp: each_edge_def all_labelled_def list_all_iff)

text \<open>Both in a row, as most passes do it.\<close>

definition relabelled ::
  "(graph_node \<Rightarrow> graph_node) \<Rightarrow> (graph_edge \<Rightarrow> graph_edge) \<Rightarrow>
   ('gl, graph_node, graph_edge) graph \<Rightarrow> ('gl, graph_node, graph_edge) graph \<Rightarrow> bool" where
  "relabelled f k g g' =
     (clear_graph g' \<and> graph_nodes g' = graph_nodes g \<and> graph_edges g' = graph_edges g \<and>
      (\<forall>v. node_label g' v = map_option f (node_label g v)) \<and>
      (\<forall>e\<in>set (graph_edges g). edge_label_with_obj g' e = map_option k (edge_label_with_obj g e)) \<and>
      glabel g' = glabel g)"

lemma relabelled_refl: "clear_graph g \<Longrightarrow> relabelled id id g g"
  by (simp add: relabelled_def option.map_id)

lemma relabelled_trans:
  "relabelled f k g g1 \<Longrightarrow> relabelled f' k' g1 g2 \<Longrightarrow> relabelled (f' \<circ> f) (k' \<circ> k) g g2"
  by (simp add: relabelled_def option.map_comp)

lemma relabelled_all_labelled: "relabelled f k g g' \<Longrightarrow> all_labelled g' = all_labelled g"
  by (auto simp: relabelled_def all_labelled_def list_all_iff)

lemma each_both:
  assumes g: "clear_graph g" and all: "all_labelled g"
  obtains g' where "and_then (each_node f g) (each_edge k) = Inr g'" and "relabelled f k g g'"
proof -
  obtain g1 where g1: "each_node f g = Inr g1" using each_node_total [OF all] by blast
  note n = each_node_view [OF g g1]
  have "all_labelled g1" using all n(2,3,4) by (auto simp: all_labelled_def list_all_iff same_edges_def)
  then obtain g' where g': "each_edge k g1 = Inr g'" using each_edge_total by blast
  note e = each_edge_view [OF n(1) g']
  have "relabelled f k g g'"
    using n e by (simp add: relabelled_def same_edges_def same_nodes_def)
  with g1 g' show ?thesis by (intro that) simp_all
qed

section \<open>The drawing lies within its margins\<close>

definition covers :: "extremes \<Rightarrow> rat \<Rightarrow> rat \<Rightarrow> rat \<Rightarrow> rat \<Rightarrow> bool" where
  "covers ex x y w h =
     ((\<exists>m. min_x ex = Some m \<and> m \<le> x - w / 2) \<and> x + w / 2 \<le> max_x ex \<and>
      (\<exists>m. min_y ex = Some m \<and> m \<le> y - h / 2) \<and> y + h / 2 \<le> max_y ex)"

lemma covers_get_extremes: "covers (get_extremes ex x y w h) x y w h"
  by (auto simp: covers_def get_extremes_def lower_bound_def split: option.split)

lemma covers_keep: "covers ex x y w h \<Longrightarrow> covers (get_extremes ex x' y' w' h') x y w h"
  by (auto simp: covers_def get_extremes_def lower_bound_def min.coboundedI1 max.coboundedI1)

lemma covers_foldl:
  assumes "\<And>ex a. covers ex x y w h \<Longrightarrow> covers (f ex a) x y w h"
  shows "covers ex x y w h \<Longrightarrow> covers (foldl f ex as) x y w h"
  using assms by (induction as arbitrary: ex) simp_all

lemma covers_element:
  assumes "\<And>ex b. covers ex x y w h \<Longrightarrow> covers (f ex b) x y w h" and "a \<in> set as"
    and "\<And>ex. covers (f ex a) x y w h"
  shows "covers (foldl f ex as) x y w h"
proof -
  obtain xs ys where "as = xs @ a # ys" using assms(2) by (meson split_list)
  then show ?thesis using assms(1,3) by (simp add: covers_foldl)
qed

lemma covers_node_extremes: "covers ex x y w h \<Longrightarrow> covers (node_extremes ex n) x y w h"
  and covers_edge_extremes: "covers ex x y w h \<Longrightarrow> covers (edge_extremes ex l) x y w h"
  by (simp_all add: node_extremes_def edge_extremes_def covers_keep)

lemma covers_own_node: "covers (node_extremes ex n) (gn_x n) (gn_y n) (gn_width n) (gn_height n)"
  and covers_own_edge: "labelled_edge l \<Longrightarrow>
    covers (edge_extremes ex l) (ge_x l) (ge_y l) (edge_width l) (edge_height l)"
  by (simp_all add: node_extremes_def edge_extremes_def covers_get_extremes)

lemma graph_extremes_cover:
  shows "v \<in> set (graph_nodes g) \<Longrightarrow> node_label g v = Some n \<Longrightarrow>
      covers (graph_extremes g) (gn_x n) (gn_y n) (gn_width n) (gn_height n)"
    and "e \<in> set (graph_edges g) \<Longrightarrow> edge_label_with_obj g e = Some l \<Longrightarrow> labelled_edge l \<Longrightarrow>
      covers (graph_extremes g) (ge_x l) (ge_y l) (edge_width l) (edge_height l)"
proof -
  assume v: "v \<in> set (graph_nodes g)" "node_label g v = Some n"
  have "n \<in> set (map (\<lambda>v. the (node_label g v)) (graph_nodes g))" using v by (force simp: image_iff)
  then have "covers (foldl node_extremes ex (map (\<lambda>v. the (node_label g v)) (graph_nodes g)))
      (gn_x n) (gn_y n) (gn_width n) (gn_height n)" for ex
    by (rule covers_element [rotated]) (simp_all add: covers_node_extremes covers_own_node)
  then show "covers (graph_extremes g) (gn_x n) (gn_y n) (gn_width n) (gn_height n)"
    unfolding graph_extremes_def Let_def by (rule covers_foldl [rotated]) (rule covers_edge_extremes)
next
  assume e: "e \<in> set (graph_edges g)" "edge_label_with_obj g e = Some l" "labelled_edge l"
  have "l \<in> set (map (\<lambda>e. the (edge_label_with_obj g e)) (graph_edges g))" using e by (force simp: image_iff)
  then show "covers (graph_extremes g) (ge_x l) (ge_y l) (edge_width l) (edge_height l)"
    unfolding graph_extremes_def Let_def
    by (rule covers_element [rotated]) (simp_all add: covers_edge_extremes covers_own_edge e(3))
qed

text \<open>A box of that centre and size lies in the drawing, a margin away from its sides.\<close>

definition inside :: "graph_config \<Rightarrow> rat \<Rightarrow> rat \<Rightarrow> rat \<Rightarrow> rat \<Rightarrow> bool" where
  "inside c x y w h =
     (let mx = option_or (gc_marginx c) 0; my = option_or (gc_marginy c) 0
      in mx \<le> x - w / 2 \<and> x + w / 2 \<le> gc_width c - mx \<and> my \<le> y - h / 2 \<and> y + h / 2 \<le> gc_height c - my)"

definition boxes_inside :: "(graph_config, graph_node, graph_edge) graph \<Rightarrow> graph_config \<Rightarrow> bool" where
  "boxes_inside g c =
     ((\<forall>v n. node_label g v = Some n \<longrightarrow> inside c (gn_x n) (gn_y n) (gn_width n) (gn_height n)) \<and>
      (\<forall>e l. e \<in> set (graph_edges g) \<longrightarrow> edge_label_with_obj g e = Some l \<longrightarrow> labelled_edge l \<longrightarrow>
         inside c (ge_x l) (ge_y l) (edge_width l) (edge_height l)))"

lemma shift_edge_size:
  "edge_width (shift_edge dx dy l) = edge_width l" "edge_height (shift_edge dx dy l) = edge_height l"
  "labelled_edge (shift_edge dx dy l) = labelled_edge l"
  "labelled_edge l \<Longrightarrow> ge_x (shift_edge dx dy l) = ge_x l - dx"
  "labelled_edge l \<Longrightarrow> ge_y (shift_edge dx dy l) = ge_y l - dy"
  by (simp_all add: shift_edge_def edge_width_def edge_height_def labelled_edge_def Let_def)

text \<open>
  C24: The translation succeeds on every graph with a node, moves all nodes by the same distance, and
  sizes the drawing so that every node and every edge label lies within it, inside the margins.
\<close>

theorem translate_within_bounds:
  assumes g: "clear_graph g" "all_labelled g" "graph_nodes g \<noteq> []" and c: "glabel g = Some c"
  shows "\<exists>g' c' dx dy. translate_graph g = Inr g' \<and> glabel g' = Some c' \<and> boxes_inside g' c' \<and>
    (\<forall>v. node_label g' v = map_option (shift_node dx dy) (node_label g v))"
proof -
  obtain v0 n0 where v0: "v0 \<in> set (graph_nodes g)" "node_label g v0 = Some n0"
    using g(2,3) by (cases "graph_nodes g") (auto simp: all_labelled_def)
  obtain mx my where m: "min_x (graph_extremes g) = Some mx" "min_y (graph_extremes g) = Some my"
    using graph_extremes_cover(1) [OF v0] by (auto simp: covers_def)
  define dx dy where "dx = mx - option_or (gc_marginx c) 0" and "dy = my - option_or (gc_marginy c) 0"
  define c' where "c' = c\<lparr>gc_width := max_x (graph_extremes g) - dx + option_or (gc_marginx c) 0,
                         gc_height := max_y (graph_extremes g) - dy + option_or (gc_marginy c) 0\<rparr>"
  obtain g1 where g1: "and_then (each_node (shift_node dx dy) g) (each_edge (shift_edge dx dy)) = Inr g1"
    "relabelled (shift_node dx dy) (shift_edge dx dy) g g1"
    using each_both [OF g(1,2)] .
  have "translate_graph g = Inr (g1\<lparr>glabel := Some c'\<rparr>)"
    using g1(1) m g(2) by (simp add: translate_graph_def c Let_def c'_def flip: dx_def dy_def)
  moreover have in_box: "inside c' (x - dx) (y - dy) w h" if "covers (graph_extremes g) x y w h" for x y w h
    using that m by (auto simp: covers_def inside_def c'_def dx_def dy_def)
  have "inside c' (gn_x n') (gn_y n') (gn_width n') (gn_height n')" if "node_label g1 v = Some n'" for v n'
  proof -
    have "map_option (shift_node dx dy) (node_label g v) = Some n'" using that g1(2) by (simp add: relabelled_def)
    then obtain n where n: "node_label g v = Some n" "n' = shift_node dx dy n" by auto
    then have "v \<in> set (graph_nodes g)" using node_label_known [of g v] by simp
    from in_box [OF graph_extremes_cover(1) [OF this n(1)]] show ?thesis by (simp add: n(2) shift_node_def)
  qed
  moreover have "inside c' (ge_x l') (ge_y l') (edge_width l') (edge_height l')"
    if l': "e \<in> set (graph_edges g1)" "edge_label_with_obj g1 e = Some l'" "labelled_edge l'" for e l'
  proof -
    have e: "e \<in> set (graph_edges g)" using l'(1) g1(2) by (simp add: relabelled_def)
    then have "map_option (shift_edge dx dy) (edge_label_with_obj g e) = Some l'"
      using l'(2) g1(2) by (simp add: relabelled_def)
    then obtain l where l: "edge_label_with_obj g e = Some l" "l' = shift_edge dx dy l" by auto
    then have "labelled_edge l" using l'(3) by (simp add: shift_edge_size)
    from in_box [OF graph_extremes_cover(2) [OF e l(1) this]] this show ?thesis by (simp add: l(2) shift_edge_size)
  qed
  ultimately have "boxes_inside (g1\<lparr>glabel := Some c'\<rparr>) c'"
    by (simp add: boxes_inside_def node_label_def graph_edges_def edge_label_with_obj_def)
  with \<open>translate_graph g = _\<close> g1(2) show ?thesis
    by (intro exI [of _ "g1\<lparr>glabel := Some c'\<rparr>"] exI [of _ c'] exI [of _ dx] exI [of _ dy])
       (simp add: relabelled_def node_label_def)
qed

text \<open>Two nodes and a labelled edge, somewhere in the plane, with a margin of 8.\<close>

definition ex_drawing :: "(graph_config, graph_node, graph_edge) graph" where
  "ex_drawing =
     (let node = (\<lambda>x y. Some (default_graph_node\<lparr>gn_x := x, gn_y := y, gn_width := 40, gn_height := 20\<rparr>));
          g = new_graph (Some (option_flags (Some True) (Some True) (Some True))) None None;
          g = set_node (set_node g ''a'' (node 100 (- 30))) ''b'' (node 60 90);
          g = put_edge g ''a'' ''b'' (Some (default_graph_edge\<lparr>ge_x := 75, ge_y := 30, ge_width := Some 16, ge_height := Some 12,
                ge_points := Some [\<lparr>ep_x = 80, ep_y = 30\<rparr>]\<rparr>))
      in g\<lparr>glabel := Some (default_graph_config\<lparr>gc_marginx := Some 8, gc_marginy := Some 8, gc_rankdir := Some ''rl''\<rparr>)\<rparr>)"

lemma clear_ex_drawing: "clear_graph ex_drawing"
  unfolding ex_drawing_def Let_def
  by (simp add: clear_put_edge(1) clear_set_node(1) clear_new_graph option_flags_def clear_end_def)

lemma labelled_ex_drawing: "all_labelled ex_drawing" "graph_nodes ex_drawing \<noteq> []"
  by code_simp+

theorem translate_within_bounds_witness:
  "\<exists>g' c'. translate_graph ex_drawing = Inr g' \<and> glabel g' = Some c' \<and> boxes_inside g' c'"
proof -
  have "glabel ex_drawing \<noteq> None" by code_simp
  then show ?thesis using translate_within_bounds [OF clear_ex_drawing labelled_ex_drawing] by blast
qed

section \<open>Turning the drawing\<close>

definition node_size :: "graph_node \<Rightarrow> rat \<times> rat" where
  "node_size n = (gn_width n, gn_height n)"

definition edge_size :: "graph_edge \<Rightarrow> rat option \<times> rat option" where
  "edge_size l = (ge_width l, ge_height l)"

text \<open>Where a point of the drawing from the top to the bottom goes.\<close>

definition orient :: "string \<Rightarrow> edge_point \<Rightarrow> edge_point" where
  "orient d p =
     (let p = (if d \<in> {''bt'', ''rl''} then p\<lparr>ep_y := - ep_y p\<rparr> else p)
      in if d \<in> {''lr'', ''rl''} then \<lparr>ep_x = ep_y p, ep_y = ep_x p\<rparr> else p)"

definition turn_node :: "string \<Rightarrow> graph_node \<Rightarrow> graph_node" where
  "turn_node d =
     (if d \<in> {''lr'', ''rl''} then swap_node_size \<circ> swap_node_axes else id) \<circ>
     (if d \<in> {''bt'', ''rl''} then negate_node_y else id)"

definition turn_edge :: "string \<Rightarrow> graph_edge \<Rightarrow> graph_edge" where
  "turn_edge d =
     (if d \<in> {''lr'', ''rl''} then swap_edge_size \<circ> swap_edge_axes else id) \<circ>
     (if d \<in> {''bt'', ''rl''} then negate_edge_y else id)"

lemma turn_node_views:
  "node_size (turn_node d n) = (if d \<in> {''lr'', ''rl''} then prod.swap (node_size n) else node_size n)"
  "node_centre (turn_node d n) = orient d (node_centre n)"
  unfolding turn_node_def orient_def
  by (simp_all add: node_size_def node_centre_def swap_node_size_def swap_node_axes_def negate_node_y_def
      del: insert_iff)

lemma turn_edge_views:
  "edge_size (turn_edge d l) = (if d \<in> {''lr'', ''rl''} then prod.swap (edge_size l) else edge_size l)"
  "option_or (ge_points (turn_edge d l)) [] = map (orient d) (option_or (ge_points l) [])"
  unfolding turn_edge_def orient_def
  by (simp_all add: edge_size_def swap_edge_size_def swap_edge_axes_def negate_edge_y_def move_points_def
      del: insert_iff)

lemma swapped_sizes:
  "node_size (swap_node_size n) = prod.swap (node_size n)" "edge_size (swap_edge_size l) = prod.swap (edge_size l)"
  by (simp_all add: node_size_def swap_node_size_def edge_size_def swap_edge_size_def)

lemma rank_direction_relabelled: "relabelled f k g g' \<Longrightarrow> rank_direction g' = rank_direction g"
  by (simp add: relabelled_def rank_direction_def)

lemma coord_adjust_view:
  assumes g: "clear_graph g" "all_labelled g" and d: "rank_direction g = Inr d"
  obtains g' where "coord_adjust g = Inr g'"
    "relabelled (if d \<in> {''lr'', ''rl''} then swap_node_size else id) (if d \<in> {''lr'', ''rl''} then swap_edge_size else id) g g'"
proof (cases "d \<in> {''lr'', ''rl''}")
  case True
  obtain g' where "swap_width_height g = Inr g'" "relabelled swap_node_size swap_edge_size g g'"
    using each_both [OF g] unfolding swap_width_height_def .
  with True d show ?thesis by (intro that) (simp_all add: coord_adjust_def)
next
  case False
  with d relabelled_refl [OF g(1)] show ?thesis by (intro that) (simp_all add: coord_adjust_def)
qed

lemma coord_undo_view:
  assumes g: "clear_graph g" "all_labelled g" and d: "rank_direction g = Inr d"
  obtains g' where "coord_undo g = Inr g'" "relabelled (turn_node d) (turn_edge d) g g'"
proof -
  obtain g1 where g1: "(if d \<in> {''bt'', ''rl''} then reverse_y g else Inr g) = Inr g1"
    "relabelled (if d \<in> {''bt'', ''rl''} then negate_node_y else id) (if d \<in> {''bt'', ''rl''} then negate_edge_y else id) g g1"
  proof (cases "d \<in> {''bt'', ''rl''}")
    case True
    obtain g1 where "reverse_y g = Inr g1" "relabelled negate_node_y negate_edge_y g g1"
      using each_both [OF g] unfolding reverse_y_def .
    with True show ?thesis by (intro that) simp_all
  next
    case False
    with relabelled_refl [OF g(1)] show ?thesis by (intro that) simp_all
  qed
  have c1: "clear_graph g1" "all_labelled g1"
    using g1(2) relabelled_all_labelled [OF g1(2)] g(2) by (simp_all add: relabelled_def)
  show ?thesis
  proof (cases "d \<in> {''lr'', ''rl''}")
    case False
    with g1 d show ?thesis by (intro that) (simp_all add: coord_undo_def turn_node_def turn_edge_def)
  next
    case True
    obtain g2 where g2: "swap_x_y g1 = Inr g2" "relabelled swap_node_axes swap_edge_axes g1 g2"
      using each_both [OF c1] unfolding swap_x_y_def .
    have c2: "clear_graph g2" "all_labelled g2"
      using g2(2) relabelled_all_labelled [OF g2(2)] c1(2) by (simp_all add: relabelled_def)
    obtain g3 where g3: "swap_width_height g2 = Inr g3" "relabelled swap_node_size swap_edge_size g2 g3"
      using each_both [OF c2] unfolding swap_width_height_def .
    have "coord_undo g = Inr g3" using True d g1(1) g2(1) g3(1) by (simp add: coord_undo_def)
    moreover have "relabelled (turn_node d) (turn_edge d) g g3"
      using relabelled_trans [OF relabelled_trans [OF g1(2) g2(2)] g3(2)] True
      by (simp add: turn_node_def turn_edge_def comp_assoc)
    ultimately show ?thesis by (rule that)
  qed
qed

text \<open>The passes between the two may move everything, but leave the sizes alone.\<close>

definition repositioned ::
  "(graph_config, graph_node, graph_edge) graph \<Rightarrow> (graph_config, graph_node, graph_edge) graph \<Rightarrow> bool" where
  "repositioned g h =
     (clear_graph h \<and> all_labelled h \<and> glabel h = glabel g \<and> graph_edges h = graph_edges g \<and>
      (\<forall>v. map_option node_size (node_label h v) = map_option node_size (node_label g v)) \<and>
      (\<forall>e\<in>set (graph_edges g). map_option edge_size (edge_label_with_obj h e) = map_option edge_size (edge_label_with_obj g e)))"

text \<open>
  C25: Turning the drawing back after it has been laid out from the top to the bottom gives every node
  and edge label its own size again, and carries the centre of every node and every point of an edge
  to its place in the direction asked for.
\<close>

theorem coordinates_restored:
  assumes g: "clear_graph g" "all_labelled g" and d: "rank_direction g = Inr d"
    and adj: "coord_adjust g = Inr g1" and h: "repositioned g1 h"
  shows "\<exists>g'. coord_undo h = Inr g' \<and>
    (\<forall>v. map_option node_size (node_label g' v) = map_option node_size (node_label g v) \<and>
         map_option node_centre (node_label g' v) = map_option (\<lambda>n. orient d (node_centre n)) (node_label h v)) \<and>
    (\<forall>e\<in>set (graph_edges g).
       map_option edge_size (edge_label_with_obj g' e) = map_option edge_size (edge_label_with_obj g e) \<and>
       map_option (\<lambda>l. option_or (ge_points l) []) (edge_label_with_obj g' e) =
         map_option (\<lambda>l. map (orient d) (option_or (ge_points l) [])) (edge_label_with_obj h e))"
proof -
  let ?turned = "d \<in> {''lr'', ''rl''}"
  have r1: "relabelled (if ?turned then swap_node_size else id) (if ?turned then swap_edge_size else id) g g1"
  proof (rule coord_adjust_view [OF g d])
    fix g2
    assume "coord_adjust g = Inr g2"
      "relabelled (if ?turned then swap_node_size else id) (if ?turned then swap_edge_size else id) g g2"
    with adj show ?thesis by (simp del: insert_iff)
  qed
  have "rank_direction h = Inr d"
    using h d rank_direction_relabelled [OF r1] by (simp add: repositioned_def rank_direction_def)
  then obtain g' where g': "coord_undo h = Inr g'" "relabelled (turn_node d) (turn_edge d) h g'"
    using coord_undo_view h by (auto simp: repositioned_def)
  have "map_option node_size (node_label g' v) = map_option node_size (node_label g v) \<and>
      map_option node_centre (node_label g' v) = map_option (\<lambda>n. orient d (node_centre n)) (node_label h v)" for v
  proof -
    have "node_label g' v = map_option (turn_node d) (node_label h v)"
      "map_option node_size (node_label h v) =
        map_option node_size (map_option (if ?turned then swap_node_size else id) (node_label g v))"
      using g'(2) h r1 by (simp_all add: relabelled_def repositioned_def)
    then show ?thesis
      by (cases "node_label h v"; cases "node_label g v"; cases ?turned)
         (simp_all add: turn_node_views swapped_sizes del: insert_iff)
  qed
  moreover have "map_option edge_size (edge_label_with_obj g' e) = map_option edge_size (edge_label_with_obj g e) \<and>
       map_option (\<lambda>l. option_or (ge_points l) []) (edge_label_with_obj g' e) =
         map_option (\<lambda>l. map (orient d) (option_or (ge_points l) [])) (edge_label_with_obj h e)"
    if e: "e \<in> set (graph_edges g)" for e
  proof -
    have "edge_label_with_obj g' e = map_option (turn_edge d) (edge_label_with_obj h e)"
      "map_option edge_size (edge_label_with_obj h e) =
        map_option edge_size (map_option (if ?turned then swap_edge_size else id) (edge_label_with_obj g e))"
      using g'(2) h r1 e by (simp_all add: relabelled_def repositioned_def)
    then show ?thesis
      by (cases "edge_label_with_obj h e"; cases "edge_label_with_obj g e"; cases ?turned)
         (simp_all add: turn_edge_views swapped_sizes del: insert_iff)
  qed
  ultimately show ?thesis using g'(1) by blast
qed

theorem coordinates_restored_witness:
  "\<exists>g1 g'. coord_adjust ex_drawing = Inr g1 \<and>
     coord_undo (update_node g1 ''a'' (\<lambda>n. n\<lparr>gn_x := 3\<rparr>)) = Inr g' \<and>
     (\<forall>v. map_option node_size (node_label g' v) = map_option node_size (node_label ex_drawing v))"
proof -
  have d: "rank_direction ex_drawing = Inr ''rl''" by code_simp
  show ?thesis
  proof (rule coord_adjust_view [OF clear_ex_drawing labelled_ex_drawing(1) d])
    fix g1
    assume adj: "coord_adjust ex_drawing = Inr g1"
      and r: "relabelled (if ''rl'' \<in> {''lr'', ''rl''} then swap_node_size else id)
        (if ''rl'' \<in> {''lr'', ''rl''} then swap_edge_size else id) ex_drawing g1"
    have g1: "clear_graph g1" "all_labelled g1"
      using r relabelled_all_labelled [OF r] labelled_ex_drawing(1) by (simp_all add: relabelled_def)
    let ?h = "update_node g1 ''a'' (\<lambda>n. n\<lparr>gn_x := 3\<rparr>)"
    note u = clear_update_node [OF g1(1), where v = "''a''" and f = "\<lambda>n. n\<lparr>gn_x := 3\<rparr>"]
    have "map_option node_size (node_label ?h v) = map_option node_size (node_label g1 v)" for v
      by (cases "node_label g1 ''a''") (simp_all add: node_label_update node_size_def)
    moreover have "all_labelled ?h"
      using g1(2) u(2,3) by (auto simp: all_labelled_def list_all_iff update_node_keys node_label_update)
    ultimately have "repositioned g1 ?h" using u by (simp add: repositioned_def)
    from coordinates_restored [OF clear_ex_drawing labelled_ex_drawing(1) d adj this] adj show ?thesis by blast
  qed
qed

section \<open>Named edges\<close>

definition plain_ids :: "('gl, 'n, 'e) graph \<Rightarrow> bool" where
  "plain_ids g =
     (is_directed g \<and> (\<forall>k. dict_has (edge_labels g) k \<longrightarrow>
        (\<exists>e. clear_edge e \<and> edge_name e = None \<and> k = edge_obj_to_id True e)))"

lemma plain_ids_no_label:
  assumes "plain_ids g" and "clear_edge e" and "edge_name e \<noteq> None"
  shows "edge_label_with_obj g e = None"
proof -
  have "\<not> dict_has (edge_labels g) (edge_obj_to_id True e)"
  proof
    assume "dict_has (edge_labels g) (edge_obj_to_id True e)"
    then obtain d where "clear_edge d" "edge_name d = None" "edge_obj_to_id True e = edge_obj_to_id True d"
      using assms(1) by (auto simp: plain_ids_def)
    with edge_id_clear [OF assms(2)] assms(3) show False by auto
  qed
  then show ?thesis using assms(1) by (simp add: plain_ids_def edge_label_with_obj_def dict_has_def)
qed

lemma plain_ids_put_edge:
  assumes "plain_ids g" and "clear_end v" and "clear_end w"
  shows "plain_ids (put_edge g v w l)"
proof -
  have dir: "is_directed g" using assms(1) by (simp add: plain_ids_def)
  have "dict_has (edge_labels (put_edge g v w l)) k \<Longrightarrow> dict_has (edge_labels g) k \<or> k = edge_args_to_id True v w None"
    and "is_directed (put_edge g v w l)" for k
    using dir put_edge_total [of g v w l]
    by (cases rule: set_edge_Inr; cases l; auto simp: link_edge_frame dict_simps split: if_splits)+
  moreover have "clear_edge (plain_edge v w)" "edge_name (plain_edge v w) = None"
    "edge_args_to_id True v w None = edge_obj_to_id True (plain_edge v w)"
    using assms(2,3) by (simp_all add: edge_obj_to_id_def)
  ultimately show ?thesis using assms(1) unfolding plain_ids_def by blast
qed

lemma reparent_edges: "edge_labels (reparent g v q) = edge_labels g" "is_directed (reparent g v q) = is_directed g"
proof -
  obtain c where "remove_from_parents_child_list (set_node g v None) v = (set_node g v None)\<lparr>children_map := c\<rparr>"
    using remove_from_list_frame by blast
  then show "edge_labels (reparent g v q) = edge_labels g" "is_directed (reparent g v q) = is_directed g"
    by (simp_all add: reparent_def Let_def)
qed

lemma set_parent_edges:
  assumes "set_parent g v p = Some (Inr g')"
  shows "edge_labels g' = edge_labels g" "is_directed g' = is_directed g"
  using assms by (auto simp: set_parent_def reparent_edges split: if_splits option.splits bool.splits)

lemma copy_nodes_edges:
  "copy_nodes input vs g = Some (Inr g') \<Longrightarrow> edge_labels g' = edge_labels g \<and> is_directed g' = is_directed g"
proof (induction vs arbitrary: g)
  case (Cons v vs)
  show ?case
  proof (cases "node_label input v")
    case None
    with Cons show ?thesis by simp
  next
    case (Some node)
    then obtain g1 where g1: "set_parent (set_node g v (Some node)) v (graph_parent input v) = Some (Inr g1)"
      "copy_nodes input vs g1 = Some (Inr g')"
      using Cons.prems by (auto split: option.splits sum.splits)
    from Cons.IH [OF g1(2)] set_parent_edges [OF g1(1)] show ?thesis by simp
  qed
qed simp

lemma copy_edges_plain:
  assumes "plain_ids g" and "\<forall>e\<in>set es. clear_edge e"
  shows "plain_ids (foldl (copy_edge_label input) g es)"
  using assms
proof (induction es arbitrary: g)
  case (Cons e es)
  then have "plain_ids (copy_edge_label input g e)"
    by (auto simp: copy_edge_label_def clear_edge_def intro: plain_ids_put_edge split: option.split)
  with Cons show ?case by simp
qed simp

lemma update_edges_missing:
  "e \<in> set es \<Longrightarrow> edge_label_with_obj layout e = None \<Longrightarrow> update_edges layout es g = Inl AssertionFailed"
  by (induction es arbitrary: g) (auto split: option.splits)

lemma update_nodes_failure: "update_nodes layout vs g = Inl err \<Longrightarrow> err = AssertionFailed"
  by (induction vs arbitrary: g) (auto split: option.splits)


definition ex_named :: "(graph_config, graph_node, graph_edge) graph" where
  "ex_named =
     (let g = new_graph (Some (option_flags (Some True) (Some True) (Some True))) None None;
          g = set_nodes g [''a'', ''b''] (Some default_graph_node);
          g = (case set_edge g ''a'' ''b'' (Some default_graph_edge) (Some ''x'') of Inr g \<Rightarrow> g | Inl _ \<Rightarrow> g)
      in g\<lparr>glabel := Some default_graph_config\<rparr>)"


end
