(* ===== verification/Order_Sort.thy ===== *)
theory Order_Sort
  imports Layout_Util "HOL-Library.Multiset"
begin

text \<open>
  The sorter of one level of the order sweep (\<open>dagre/layout/order/sort.py\<close>) and the records of
  \<open>barycenter.py\<close>, \<open>resolve_conflicts.py\<close> and \<open>sort_subgraph.py\<close> it works on. A barycenter may be
  the float that is not a number, which the passes make on purpose, so it is a rational or \<open>NaN\<close>.
  Weights are sums of edge weights and stay rational. The theorem says that the interleaving of
  the two halves drops no vertex.
\<close>

section \<open>Floats with NaN\<close>

datatype py_float = NaN | Num rat

instantiation py_float :: "{zero, plus, times, ord}"
begin

definition zero_py_float :: py_float where "zero_py_float = Num 0"

fun plus_py_float :: "py_float \<Rightarrow> py_float \<Rightarrow> py_float" where
  "plus_py_float (Num x) (Num y) = Num (x + y)"
| "plus_py_float _ _ = NaN"

fun times_py_float :: "py_float \<Rightarrow> py_float \<Rightarrow> py_float" where
  "times_py_float (Num x) (Num y) = Num (x * y)"
| "times_py_float _ _ = NaN"

fun less_py_float :: "py_float \<Rightarrow> py_float \<Rightarrow> bool" where
  "less_py_float (Num x) (Num y) = (x < y)"
| "less_py_float _ _ = False"

fun less_eq_py_float :: "py_float \<Rightarrow> py_float \<Rightarrow> bool" where
  "less_eq_py_float (Num x) (Num y) = (x \<le> y)"
| "less_eq_py_float _ _ = False"

instance ..
end

text \<open>Division by a weight; the callers test for zero or raise.\<close>

fun over :: "py_float \<Rightarrow> rat \<Rightarrow> py_float" where
  "over (Num x) y = Num (x / y)"
| "over NaN y = NaN"

definition scaled :: "py_float \<Rightarrow> rat \<Rightarrow> py_float" where
  "scaled x w = x * Num w"

section \<open>The records\<close>

record bary_entry =
  be_v :: node_id
  be_barycenter :: "py_float option"
  be_weight :: "rat option"

record resolved_entry =
  re_vs :: "node_id list"
  re_i :: nat
  re_barycenter :: "py_float option"
  re_weight :: "rat option"

record subgraph_result =
  sr_vs :: "node_id list"
  sr_barycenter :: "py_float option"
  sr_weight :: "rat option"

definition new_subgraph_result :: subgraph_result where
  "new_subgraph_result = \<lparr>sr_vs = [], sr_barycenter = None, sr_weight = None\<rparr>"

section \<open>Python's list sort\<close>

text \<open>
  A comparator is given by its \<open><\<close>, the only test the sort makes. The algorithm is the one of
  CPython for lists below 64 elements, the length of the ascending or strictly descending run at the
  start and then a binary insertion of each further element; longer lists are sorted by merging
  such runs, with the same result whenever the comparator is consistent, that is when no \<open>NaN\<close>
  takes part.
\<close>

fun ascending_run :: "('a \<Rightarrow> 'a \<Rightarrow> bool) \<Rightarrow> 'a \<Rightarrow> 'a list \<Rightarrow> 'a list \<times> 'a list" where
  "ascending_run lt x [] = ([x], [])"
| "ascending_run lt x (y # ys) =
     (if lt y x then ([x], y # ys)
      else (let (run, rest) = ascending_run lt y ys in (x # run, rest)))"

fun descending_run :: "('a \<Rightarrow> 'a \<Rightarrow> bool) \<Rightarrow> 'a \<Rightarrow> 'a list \<Rightarrow> 'a list \<times> 'a list" where
  "descending_run lt x [] = ([x], [])"
| "descending_run lt x (y # ys) =
     (if lt y x then (let (run, rest) = descending_run lt y ys in (x # run, rest))
      else ([x], y # ys))"

fun first_run :: "('a \<Rightarrow> 'a \<Rightarrow> bool) \<Rightarrow> 'a list \<Rightarrow> 'a list \<times> 'a list" where
  "first_run lt (x # y # ys) =
     (if lt y x then (let (run, rest) = descending_run lt x (y # ys) in (rev run, rest))
      else ascending_run lt x (y # ys))"
| "first_run lt xs = (xs, [])"

function bisect :: "('a \<Rightarrow> 'a \<Rightarrow> bool) \<Rightarrow> 'a \<Rightarrow> 'a list \<Rightarrow> nat \<Rightarrow> nat \<Rightarrow> nat" where
  "bisect lt pivot xs l r =
     (if l < r
      then (let p = (l + r) div 2
            in if lt pivot (xs ! p) then bisect lt pivot xs l p else bisect lt pivot xs (p + 1) r)
      else l)"
  by pat_completeness auto
termination bisect
  by (relation "measure (\<lambda>(lt, pivot, xs, l, r). r - l)") auto

declare bisect.simps [simp del]

definition binary_insert :: "('a \<Rightarrow> 'a \<Rightarrow> bool) \<Rightarrow> 'a list \<Rightarrow> 'a \<Rightarrow> 'a list" where
  "binary_insert lt xs pivot =
     (let p = bisect lt pivot xs 0 (length xs) in take p xs @ pivot # drop p xs)"

definition py_sort :: "('a \<Rightarrow> 'a \<Rightarrow> bool) \<Rightarrow> 'a list \<Rightarrow> 'a list" where
  "py_sort lt xs = (let (run, rest) = first_run lt xs in foldl (binary_insert lt) run rest)"

section \<open>The sorter\<close>

definition compare_with_bias :: "resolved_entry \<Rightarrow> resolved_entry \<Rightarrow> bool \<Rightarrow> int" where
  "compare_with_bias entry_v entry_w bias_right =
     (let bv = option_or (re_barycenter entry_v) 0; bw = option_or (re_barycenter entry_w) 0
      in if bv < bw then -1
         else if bv > bw then 1
         else if \<not> bias_right
         then (if re_i entry_v < re_i entry_w then -1 else if re_i entry_v > re_i entry_w then 1 else 0)
         else (if re_i entry_w < re_i entry_v then -1 else if re_i entry_w > re_i entry_v then 1 else 0))"

definition before_entry :: "bool \<Rightarrow> resolved_entry \<Rightarrow> resolved_entry \<Rightarrow> bool" where
  "before_entry bias_right v w = (compare_with_bias v w bias_right < 0)"

text \<open>\<open>sort(key=..., reverse=True)\<close> keeps equal elements in their order.\<close>

definition sort_descending :: "('a \<Rightarrow> nat) \<Rightarrow> 'a list \<Rightarrow> 'a list" where
  "sort_descending f xs = rev (sort_key f (rev xs))"

function consume_unsortable ::
  "node_id list list \<Rightarrow> resolved_entry list \<Rightarrow> nat \<Rightarrow> node_id list list \<times> resolved_entry list \<times> nat" where
  "consume_unsortable vs unsortable index =
     (if unsortable = [] then (vs, unsortable, index)
      else if re_i (last unsortable) > index then (vs, unsortable, index)
      else consume_unsortable (vs @ [re_vs (last unsortable)]) (butlast unsortable) (index + 1))"
  by pat_completeness auto
termination consume_unsortable
  by (relation "measure (\<lambda>(vs, unsortable, index). length unsortable)") auto

declare consume_unsortable.simps [simp del]

fun sort_loop ::
  "resolved_entry list \<Rightarrow> node_id list list \<Rightarrow> resolved_entry list \<Rightarrow> nat \<Rightarrow> py_float \<Rightarrow> rat \<Rightarrow>
   node_id list list \<times> py_float \<times> rat" where
  "sort_loop [] vs unsortable vs_index sum_value weight = (vs, sum_value, weight)"
| "sort_loop (entry # sortable) vs unsortable vs_index sum_value weight =
     (let vs_index = vs_index + length (re_vs entry);
          vs = vs @ [re_vs entry];
          entry_weight = option_or (re_weight entry) 0;
          sum_value = sum_value + scaled (option_or (re_barycenter entry) 0) entry_weight;
          weight = weight + entry_weight;
          (vs, unsortable, vs_index) = consume_unsortable vs unsortable vs_index
      in sort_loop sortable vs unsortable vs_index sum_value weight)"

definition sort_entries :: "resolved_entry list \<Rightarrow> bool \<Rightarrow> subgraph_result" where
  "sort_entries entries bias_right =
     (let parts = py_partition_by entries (\<lambda>e. re_barycenter e \<noteq> None);
          sortable = py_sort (before_entry bias_right) (lhs parts);
          unsortable = sort_descending re_i (rhs parts);
          (vs, unsortable, vs_index) = consume_unsortable [] unsortable 0;
          (vs, sum_value, weight) = sort_loop sortable vs unsortable vs_index 0 0;
          result = new_subgraph_result\<lparr>sr_vs := concat vs\<rparr>
      in if weight \<noteq> 0
         then result\<lparr>sr_barycenter := Some (over sum_value weight), sr_weight := Some weight\<rparr>
         else result)"

section \<open>The list sort permutes and sorts\<close>

lemma runs_append:
  "ascending_run lt x ys = (run, rest) \<Longrightarrow> x # ys = run @ rest"
  "descending_run lt x ys = (run, rest) \<Longrightarrow> x # ys = run @ rest"
  by (induction ys arbitrary: x run rest) (auto split: if_splits prod.splits)

lemma first_run_mset: "first_run lt xs = (run, rest) \<Longrightarrow> mset run + mset rest = mset xs"
proof (induction lt xs rule: first_run.induct)
  case (1 lt x y ys)
  show ?case
  proof (cases "lt y x")
    case True
    obtain dr dt where d: "descending_run lt x (y # ys) = (dr, dt)" by fastforce
    with 1 True have "run = rev dr" "rest = dt" by (auto simp del: descending_run.simps)
    with runs_append(2) [OF d] show ?thesis by (metis mset_append mset_rev)
  next
    case False
    with 1 have "ascending_run lt x (y # ys) = (run, rest)" by (simp del: ascending_run.simps)
    from runs_append(1) [OF this] show ?thesis by (metis mset_append)
  qed
qed auto

lemma mset_binary_insert: "mset (binary_insert lt xs x) = add_mset x (mset xs)"
  unfolding binary_insert_def Let_def
  by (simp, metis append_take_drop_id mset_append)

lemma mset_insert_all: "mset (foldl (binary_insert lt) xs ys) = mset xs + mset ys"
  by (induction ys arbitrary: xs) (simp_all add: mset_binary_insert)

lemma mset_py_sort [simp]: "mset (py_sort lt xs) = mset xs"
  by (cases "first_run lt xs") (simp add: py_sort_def mset_insert_all first_run_mset)

lemma set_py_sort [simp]: "set (py_sort lt xs) = set xs"
  by (metis mset_py_sort set_mset_mset)

text \<open>Sorted: no element is before an earlier one. This needs a comparator whose negation is transitive.\<close>

definition consistent :: "('a \<Rightarrow> 'a \<Rightarrow> bool) \<Rightarrow> 'a set \<Rightarrow> bool" where
  "consistent lt A = ((\<forall>x\<in>A. \<forall>y\<in>A. lt x y \<longrightarrow> \<not> lt y x) \<and>
     (\<forall>x\<in>A. \<forall>y\<in>A. \<forall>z\<in>A. \<not> lt y x \<longrightarrow> \<not> lt z y \<longrightarrow> \<not> lt z x))"

abbreviation sorted_by :: "('a \<Rightarrow> 'a \<Rightarrow> bool) \<Rightarrow> 'a list \<Rightarrow> bool" where
  "sorted_by lt xs \<equiv> sorted_wrt (\<lambda>x y. \<not> lt y x) xs"

lemma consistent_subset: "consistent lt A \<Longrightarrow> B \<subseteq> A \<Longrightarrow> consistent lt B"
  unfolding consistent_def by blast

lemma consistentD:
  "consistent lt A \<Longrightarrow> lt x y \<Longrightarrow> x \<in> A \<Longrightarrow> y \<in> A \<Longrightarrow> \<not> lt y x"
  "consistent lt A \<Longrightarrow> \<not> lt y x \<Longrightarrow> \<not> lt z y \<Longrightarrow> x \<in> A \<Longrightarrow> y \<in> A \<Longrightarrow> z \<in> A \<Longrightarrow> \<not> lt z x"
  unfolding consistent_def by blast+

lemma consistent_less_trans:
  assumes "consistent lt A" "lt x y" "\<not> lt z y" "x \<in> A" "y \<in> A" "z \<in> A"
  shows "\<not> lt z x"
  using consistentD(1) [OF assms(1,2,4,5)] consistentD(2) [OF assms(1), of y x z] assms(3-) by blast

lemma ascending_run_sorted:
  assumes "consistent lt (set (x # ys))" and "ascending_run lt x ys = (run, rest)"
  shows "sorted_by lt run \<and> hd run = x \<and> run \<noteq> []"
  using assms
proof (induction ys arbitrary: x run rest)
  case Nil
  then show ?case by auto
next
  case (Cons y ys)
  show ?case
  proof (cases "lt y x")
    case True
    with Cons.prems show ?thesis by auto
  next
    case False
    obtain run' where r: "ascending_run lt y ys = (run', rest)" "run = x # run'"
      using Cons.prems(2) False by (auto split: prod.splits)
    have ih: "sorted_by lt run' \<and> hd run' = y \<and> run' \<noteq> []"
      using Cons.IH [OF consistent_subset [OF Cons.prems(1)] r(1)] by auto
    have sub: "set run' \<subseteq> set (y # ys)" using runs_append(1) [OF r(1)] by (metis set_append Un_upper1)
    have "\<not> lt z x" if "z \<in> set run'" for z
    proof -
      have "\<not> lt z y" if "z \<in> set (tl run')"
        using ih that by (cases run') auto
      moreover have "z = y \<or> z \<in> set (tl run')" using \<open>z \<in> set run'\<close> ih by (cases run') auto
      ultimately show ?thesis
        using False consistentD(2) [OF Cons.prems(1), of y x z] sub that by auto
    qed
    with ih r show ?thesis by simp
  qed
qed

lemma descending_run_sorted:
  assumes "consistent lt (set (x # ys))" and "descending_run lt x ys = (run, rest)"
  shows "sorted_by lt (rev run) \<and> hd run = x \<and> run \<noteq> []"
  using assms
proof (induction ys arbitrary: x run rest)
  case Nil
  then show ?case by auto
next
  case (Cons y ys)
  show ?case
  proof (cases "lt y x")
    case False
    with Cons.prems show ?thesis by auto
  next
    case True
    obtain run' where r: "descending_run lt y ys = (run', rest)" "run = x # run'"
      using Cons.prems(2) True by (auto split: prod.splits)
    have ih: "sorted_by lt (rev run') \<and> hd run' = y \<and> run' \<noteq> []"
      using Cons.IH [OF consistent_subset [OF Cons.prems(1)] r(1)] by auto
    have sub: "set run' \<subseteq> set (y # ys)" using runs_append(2) [OF r(1)] by (metis set_append Un_upper1)
    have yx: "\<not> lt x y" using consistentD(1) [OF Cons.prems(1) True] by simp
    have "\<not> lt x z" if "z \<in> set run'" for z
    proof -
      have "\<not> lt y z" if "z \<in> set (tl run')"
        using ih that by (cases run') (auto simp: sorted_wrt_append)
      moreover have "z = y \<or> z \<in> set (tl run')" using \<open>z \<in> set run'\<close> ih by (cases run') auto
      ultimately show ?thesis
        using yx consistentD(2) [OF Cons.prems(1), of y z x] sub that by auto
    qed
    with ih r show ?thesis by (auto simp: sorted_wrt_append)
  qed
qed

lemma first_run_sorted:
  assumes "consistent lt (set xs)" and "first_run lt xs = (run, rest)"
  shows "sorted_by lt run"
  using assms
proof (induction lt xs rule: first_run.induct)
  case (1 lt x y ys)
  show ?case
  proof (cases "lt y x")
    case True
    obtain dr dt where d: "descending_run lt x (y # ys) = (dr, dt)" by fastforce
    with 1 True have "run = rev dr" by (auto simp del: descending_run.simps)
    with descending_run_sorted [OF 1(1) d] show ?thesis by simp
  next
    case False
    with 1 have a: "ascending_run lt x (y # ys) = (run, rest)" by (simp del: ascending_run.simps)
    from ascending_run_sorted [OF 1(1) a] show ?thesis by simp
  qed
qed auto

text \<open>The insertion point has no larger element before it and no smaller or equal one after it.\<close>

lemma bisect_spec:
  assumes "consistent lt (insert pivot (set xs))" and "sorted_by lt xs" and "l \<le> r" and "r \<le> length xs"
    and "\<forall>k<l. \<not> lt pivot (xs ! k)" and "\<forall>k<length xs. r \<le> k \<longrightarrow> lt pivot (xs ! k)"
  shows "bisect lt pivot xs l r \<le> length xs \<and>
    (\<forall>k<bisect lt pivot xs l r. \<not> lt pivot (xs ! k)) \<and>
    (\<forall>k<length xs. bisect lt pivot xs l r \<le> k \<longrightarrow> lt pivot (xs ! k))"
  using assms
proof (induction lt pivot xs l r rule: bisect.induct)
  case (1 lt pivot xs l r)
  note c = 1(3) and s = 1(4) and b = 1(5,6) and low = 1(7) and high = 1(8)
  show ?case
  proof (cases "l < r")
    case False
    with b low high show ?thesis by (subst (1 2 3) bisect.simps) auto
  next
    case True
    define p where "p = (l + r) div 2"
    have p: "l \<le> p" "p < r" "p < length xs" using True b by (auto simp: p_def)
    show ?thesis
    proof (cases "lt pivot (xs ! p)")
      case True
      have "lt pivot (xs ! k)" if "k < length xs" "p \<le> k" for k
      proof (rule ccontr)
        assume no: "\<not> lt pivot (xs ! k)"
        have "k = p \<or> \<not> lt (xs ! k) (xs ! p)" using sorted_wrt_nth_less [OF s] that by (cases "k = p") auto
        then show False
        proof
          assume "k = p"
          with no True show False by simp
        next
          assume "\<not> lt (xs ! k) (xs ! p)"
          from consistentD(2) [OF c this no] that p(3) True show False by simp
        qed
      qed
      then have above: "\<forall>k<length xs. p \<le> k \<longrightarrow> lt pivot (xs ! k)" by blast
      have eq: "bisect lt pivot xs l r = bisect lt pivot xs l p"
        using True \<open>l < r\<close> by (subst bisect.simps) (simp add: p_def Let_def)
      show ?thesis unfolding eq
        by (rule 1(1) [OF \<open>l < r\<close> p_def True c s p(1) less_imp_le [OF p(3)] low above])
    next
      case False
      have "\<not> lt pivot (xs ! k)" if "k < p + 1" for k
      proof (cases "k = p")
        case True
        with False show ?thesis by simp
      next
        case neq: False
        then have "\<not> lt (xs ! p) (xs ! k)" using sorted_wrt_nth_less [OF s, of k p] that p(3) by auto
        from consistentD(2) [OF c this False] that p(3) show ?thesis by simp
      qed
      then have below: "\<forall>k<p + 1. \<not> lt pivot (xs ! k)" by blast
      have eq: "bisect lt pivot xs l r = bisect lt pivot xs (p + 1) r"
        using False \<open>l < r\<close> by (subst bisect.simps) (simp add: p_def Let_def)
      show ?thesis unfolding eq
        by (rule 1(2) [OF \<open>l < r\<close> p_def False c s _ b(2) below high]) (use p(2) in simp)
    qed
  qed
qed

lemma binary_insert_sorted:
  assumes "consistent lt (insert x (set xs))" and "sorted_by lt xs"
  shows "sorted_by lt (binary_insert lt xs x)"
proof -
  define p where "p = bisect lt x xs 0 (length xs)"
  have b: "p \<le> length xs" "\<forall>k<p. \<not> lt x (xs ! k)" "\<forall>k<length xs. p \<le> k \<longrightarrow> lt x (xs ! k)"
    using bisect_spec [OF assms, of 0 "length xs"] by (simp_all add: p_def)
  have "\<not> lt x y" if "y \<in> set (take p xs)" for y
    using that b(1,2) by (auto simp: in_set_conv_nth)
  moreover have "\<not> lt y x" if "y \<in> set (drop p xs)" for y
  proof -
    from that obtain k where "y = xs ! (p + k)" "p + k < length xs" by (auto simp: in_set_conv_nth)
    then show ?thesis using b(3) consistentD(1) [OF assms(1), of x y] by auto
  qed
  moreover have "sorted_by lt (take p xs @ drop p xs)" using assms(2) by simp
  ultimately show ?thesis
    unfolding binary_insert_def Let_def p_def [symmetric] sorted_wrt_append by auto
qed

lemma insert_all_sorted:
  "consistent lt (set xs \<union> set ys) \<Longrightarrow> sorted_by lt xs \<Longrightarrow> sorted_by lt (foldl (binary_insert lt) xs ys)"
proof (induction ys arbitrary: xs)
  case (Cons y ys)
  have eq: "set (binary_insert lt xs y) = insert y (set xs)"
    by (metis mset_binary_insert set_mset_add_mset_insert set_mset_mset)
  have "sorted_by lt (binary_insert lt xs y)"
    using Cons.prems by (intro binary_insert_sorted) (auto elim: consistent_subset)
  then show ?case using Cons.IH [of "binary_insert lt xs y"] Cons.prems(1) by (simp add: eq)
qed simp

theorem py_sort_sorted:
  assumes "consistent lt (set xs)"
  shows "sorted_by lt (py_sort lt xs)"
proof (cases "first_run lt xs")
  case (Pair run rest)
  have "set run \<union> set rest = set xs"
    using first_run_mset [OF Pair] by (metis set_mset_mset set_mset_union)
  then show ?thesis
    using insert_all_sorted [of lt run rest] first_run_sorted [OF assms Pair] assms
    by (simp add: py_sort_def Pair)
qed

text \<open>The comparator of the sorter is consistent as long as no barycenter is \<open>NaN\<close>.\<close>

lemma before_entry_numbers:
  assumes "re_barycenter v = Some (Num x)" and "re_barycenter w = Some (Num y)"
  shows "before_entry b v w \<longleftrightarrow> x < y \<or> x = y \<and> (if b then re_i w < re_i v else re_i v < re_i w)"
  using assms by (auto simp: before_entry_def compare_with_bias_def Let_def)

definition is_number :: "resolved_entry \<Rightarrow> bool" where
  "is_number e = (\<exists>x. re_barycenter e = Some (Num x))"

lemma before_entry_consistent:
  assumes "\<forall>e\<in>A. is_number e"
  shows "consistent (before_entry b) A"
proof -
  obtain key where key: "\<And>e. e \<in> A \<Longrightarrow> re_barycenter e = Some (Num (key e))"
    using assms unfolding is_number_def by metis
  have lt: "before_entry b v w \<longleftrightarrow> key v < key w \<or> key v = key w \<and> (if b then re_i w < re_i v else re_i v < re_i w)"
    if "v \<in> A" "w \<in> A" for v w
    by (rule before_entry_numbers [OF key [OF that(1)] key [OF that(2)]])
  have "\<not> before_entry b w v" if "v \<in> A" "w \<in> A" "before_entry b v w" for v w
    using that(3) lt [OF that(1,2)] lt [OF that(2,1)] by (auto split: if_splits)
  moreover have "\<not> before_entry b w u" if "u \<in> A" "v \<in> A" "w \<in> A" "\<not> before_entry b v u" "\<not> before_entry b w v" for u v w
    using that(4,5) lt [OF that(2,1)] lt [OF that(3,2)] lt [OF that(3,1)] by (auto split: if_splits)
  ultimately show ?thesis unfolding consistent_def by blast
qed

section \<open>No vertex is dropped\<close>

lemma consume_spec:
  assumes "consume_unsortable vs us index = (vs', us', index')"
  shows "\<exists>taken. us = us' @ taken \<and> vs' = vs @ map re_vs (rev taken) \<and> index' = index + length taken \<and>
    (us' \<noteq> [] \<longrightarrow> index' < re_i (last us'))"
  using assms
proof (induction vs us index rule: consume_unsortable.induct)
  case (1 vs us index)
  show ?case
  proof (cases "us = [] \<or> re_i (last us) > index")
    case True
    with 1(2) show ?thesis by (subst (asm) consume_unsortable.simps) (auto split: if_splits)
  next
    case False
    then have "consume_unsortable (vs @ [re_vs (last us)]) (butlast us) (index + 1) = (vs', us', index')"
      using 1(2) by (subst (asm) consume_unsortable.simps) auto
    then obtain taken where t: "butlast us = us' @ taken" "vs' = vs @ [re_vs (last us)] @ map re_vs (rev taken)"
      "index' = index + 1 + length taken" "us' \<noteq> [] \<longrightarrow> index' < re_i (last us')"
      using 1(1) False by auto
    have "us = us' @ (taken @ [last us])" using t(1) False by (metis append.assoc append_butlast_last_id)
    then show ?thesis using t(2-) by (intro exI [of _ "taken @ [last us]"]) auto
  qed
qed

lemma mset_concat_cong:
  assumes "mset xss = mset yss"
  shows "mset (concat xss) = mset (concat yss)"
proof -
  have "mset (concat zss) = sum_mset (image_mset mset (mset zss))" for zss :: "'a list list"
    by (induction zss) simp_all
  with assms show ?thesis by simp
qed

abbreviation total_length :: "resolved_entry list \<Rightarrow> nat" where
  "total_length es \<equiv> sum_list (map (length \<circ> re_vs) es)"

lemma sort_loop_spec:
  assumes "sort_loop es vs us index sum_value weight = (vs', sum_value', weight')"
    and "us \<noteq> [] \<longrightarrow> index < re_i (last us)"
  shows "\<exists>rest taken. us = rest @ taken \<and>
    mset vs' = mset vs + mset (map re_vs es) + mset (map re_vs taken) \<and>
    (rest \<noteq> [] \<longrightarrow> index + total_length es + length taken < re_i (last rest))"
  using assms
proof (induction es arbitrary: vs us index sum_value weight)
  case (Cons e es)
  obtain vs1 us1 index1 where c:
    "consume_unsortable (vs @ [re_vs e]) us (index + length (re_vs e)) = (vs1, us1, index1)"
    by (metis prod_cases3)
  obtain taken where t: "us = us1 @ taken" "vs1 = vs @ [re_vs e] @ map re_vs (rev taken)"
    "index1 = index + length (re_vs e) + length taken" "us1 \<noteq> [] \<longrightarrow> index1 < re_i (last us1)"
    using consume_spec [OF c] by auto
  obtain rest taken' where r: "us1 = rest @ taken'"
    "mset vs' = mset vs1 + mset (map re_vs es) + mset (map re_vs taken')"
    "rest \<noteq> [] \<longrightarrow> index1 + total_length es + length taken' < re_i (last rest)"
  proof (rule exE [OF Cons.IH [OF _ t(4)]])
    show "sort_loop es vs1 us1 index1 (sum_value + scaled (option_or (re_barycenter e) 0) (option_or (re_weight e) 0))
        (weight + option_or (re_weight e) 0) = (vs', sum_value', weight')"
      using Cons.prems(1) by (simp add: c Let_def)
  qed blast
  show ?case
  proof (rule exI [of _ rest], rule exI [of _ "taken' @ taken"], intro conjI)
    show "us = rest @ taken' @ taken" using t(1) r(1) by simp
    show "mset vs' = mset vs + mset (map re_vs (e # es)) + mset (map re_vs (taken' @ taken))"
      using t(2) r(2) by (simp add: ac_simps)
    show "rest \<noteq> [] \<longrightarrow> index + total_length (e # es) + length (taken' @ taken) < re_i (last rest)"
      using t(3) r(3) by (simp add: ac_simps)
  qed
qed simp

lemma mset_sort_descending [simp]: "mset (sort_descending f xs) = mset xs"
  by (simp add: sort_descending_def)

lemma sort_descending_sorted: "sorted_wrt (\<lambda>x y. f y \<le> f x) (sort_descending f xs)"
  by (simp add: sort_descending_def sorted_wrt_rev flip: sorted_wrt_map)

text \<open>
  Every entry without a barycenter has a slot: its index is at most the number of the vertices with
  a barycenter plus the number of such entries with a smaller index.
\<close>

definition slotted :: "resolved_entry list \<Rightarrow> bool" where
  "slotted es =
     (let sortable = filter (\<lambda>e. re_barycenter e \<noteq> None) es;
          unsortable = filter (\<lambda>e. re_barycenter e = None) es
      in list_all (\<lambda>e. re_i e \<le> total_length sortable + length (filter (\<lambda>u. re_i u < re_i e) unsortable)) unsortable)"

text \<open>The sorter drops no vertex of slotted entries.\<close>

lemma sort_keeps_vertices:
  assumes "slotted es"
  shows "mset (sr_vs (sort_entries es b)) = mset (concat (map re_vs es))"
proof -
  define sortable where "sortable = filter (\<lambda>e. re_barycenter e \<noteq> None) es"
  define unsortable where "unsortable = filter (\<lambda>e. re_barycenter e = None) es"
  define us where "us = sort_descending re_i unsortable"
  obtain vs0 us0 index0 where c: "consume_unsortable [] us 0 = (vs0, us0, index0)" by (metis prod_cases3)
  obtain vs1 sum_value weight where l:
    "sort_loop (py_sort (before_entry b) sortable) vs0 us0 index0 0 0 = (vs1, sum_value, weight)"
    by (metis prod_cases3)
  have result: "sr_vs (sort_entries es b) = concat vs1"
    using c l by (simp add: sort_entries_def py_partition_by_def Let_def us_def sortable_def unsortable_def)
  obtain taken where t: "us = us0 @ taken" "vs0 = map re_vs (rev taken)" "index0 = length taken"
    "us0 \<noteq> [] \<longrightarrow> index0 < re_i (last us0)"
    using consume_spec [OF c] by auto
  obtain rest taken' where r: "us0 = rest @ taken'"
    "mset vs1 = mset vs0 + mset (map re_vs (py_sort (before_entry b) sortable)) + mset (map re_vs taken')"
    "rest \<noteq> [] \<longrightarrow> index0 + total_length (py_sort (before_entry b) sortable) + length taken' < re_i (last rest)"
    using sort_loop_spec [OF l t(4)] by blast
  have len: "total_length (py_sort (before_entry b) sortable) = total_length sortable"
    by (simp flip: sum_mset_sum_list)
  have "rest = []"
  proof (rule ccontr)
    assume ne: "rest \<noteq> []"
    define e where "e = last rest"
    have us: "us = rest @ taken' @ taken" using t(1) r(1) by simp
    have e: "e \<in> set unsortable"
      using us ne unfolding us_def e_def by (metis Un_iff last_in_set mset_sort_descending set_append set_mset_mset)
    have ge: "re_i e \<le> re_i u" if "u \<in> set rest" for u
    proof -
      have "sorted_wrt (\<lambda>x y. re_i y \<le> re_i x) rest"
        using sort_descending_sorted [of re_i unsortable] us by (simp add: us_def sorted_wrt_append)
      then have "sorted_wrt (\<lambda>x y. re_i y \<le> re_i x) (butlast rest @ [last rest])" using ne by simp
      with that ne show ?thesis unfolding e_def sorted_wrt_append
        by (metis append_butlast_last_id in_set_conv_decomp_first list.set_intros(1) order_refl rotate1.simps(2) set_rotate1 set_ConsD)
    qed
    have "length (filter (\<lambda>u. re_i u < re_i e) unsortable) = length (filter (\<lambda>u. re_i u < re_i e) us)"
      unfolding us_def by (metis mset_filter mset_sort_descending size_mset)
    also have "\<dots> \<le> length taken' + length taken"
      using ge by (simp add: us filter_False linorder_not_less add_le_mono)
    finally have "re_i e \<le> total_length sortable + (length taken' + length taken)"
      using assms e by (fastforce simp: slotted_def Let_def list_all_iff sortable_def unsortable_def)
    then show False using r(3) ne len t(3) by (simp add: e_def)
  qed
  then have "mset us = mset taken' + mset taken" using t(1) r(1) by simp
  moreover have "mset us = mset unsortable" by (simp add: us_def)
  moreover have "mset es = mset sortable + mset unsortable"
    unfolding sortable_def unsortable_def using multiset_partition [of "mset es"] by simp
  ultimately have "mset vs1 = mset (map re_vs es)"
    using r(2) t(2) by (simp add: ac_simps)
  then show ?thesis unfolding result by (rule mset_concat_cong)
qed

end
