(* ===== verification/Order_Resolve.thy ===== *)
theory Order_Resolve
  imports Order_Sort
begin

text \<open>
  The conflict resolution of the order sweep (\<open>dagre/layout/order/resolve_conflicts.py\<close>): a
  topological sweep over the constraint graph that merges the entries whose barycenters contradict a
  constraint. The entries live in one list and refer to each other by index. The theorems say that
  the sweep ends, that each vertex comes out exactly once when the constraints have no cycle, and
  that the result has the slots which the sorter needs.
\<close>

section \<open>The code\<close>

record conflict_entry =
  ce_indegree :: int
  ce_ins :: "nat list"
  ce_outs :: "nat list"
  ce_vs :: "node_id list"
  ce_i :: nat
  ce_barycenter :: "py_float option"
  ce_weight :: "rat option"
  ce_merged :: bool

definition conflict_entry_of :: "nat \<Rightarrow> bary_entry \<Rightarrow> conflict_entry" where
  "conflict_entry_of i entry =
     \<lparr>ce_indegree = 0, ce_ins = [], ce_outs = [], ce_vs = [be_v entry], ce_i = i,
      ce_barycenter = be_barycenter entry, ce_weight = be_weight entry, ce_merged = False\<rparr>"

definition id_to_idx :: "bary_entry list \<Rightarrow> (node_id, nat) dict" where
  "id_to_idx entries = foldl (\<lambda>d (i, e). dict_set (be_v e) i d) [] (zip [0..<length entries] entries)"

definition update_at :: "'a list \<Rightarrow> nat \<Rightarrow> ('a \<Rightarrow> 'a) \<Rightarrow> 'a list" where
  "update_at xs i f = xs[i := f (xs ! i)]"

definition add_constraint :: "(node_id, nat) dict \<Rightarrow> conflict_entry list \<Rightarrow> edge \<Rightarrow> conflict_entry list" where
  "add_constraint idx mapped e =
     (case (dict_get idx (edge_v e), dict_get idx (edge_w e)) of
        (Some v, Some w) \<Rightarrow>
          update_at (update_at mapped w (\<lambda>c. c\<lparr>ce_indegree := ce_indegree c + 1\<rparr>))
            v (\<lambda>c. c\<lparr>ce_outs := ce_outs c @ [w]\<rparr>)
      | _ \<Rightarrow> mapped)"

definition merge_entries :: "conflict_entry list \<Rightarrow> nat \<Rightarrow> nat \<Rightarrow> conflict_entry list" where
  "merge_entries entries target_idx source_idx =
     (let target = entries ! target_idx; source = entries ! source_idx;
          add = (\<lambda>c (sum_value, weight).
            (case (ce_barycenter c, ce_weight c) of
               (Some b, Some w) \<Rightarrow> (sum_value + scaled b w, weight + w)
             | _ \<Rightarrow> (sum_value, weight)));
          (sum_value, weight) = add source (add target (0, 0));
          merged = target\<lparr>ce_vs := ce_vs source @ ce_vs target,
            ce_barycenter := Some (if weight = 0 then NaN else over sum_value weight),
            ce_weight := Some weight, ce_i := min (ce_i source) (ce_i target)\<rparr>
      in update_at (entries[target_idx := merged]) source_idx (\<lambda>c. c\<lparr>ce_merged := True\<rparr>))"

definition handle_in :: "conflict_entry list \<Rightarrow> nat \<Rightarrow> nat \<Rightarrow> conflict_entry list" where
  "handle_in entries v_idx u_idx =
     (if ce_merged (entries ! u_idx) then entries
      else (case (ce_barycenter (entries ! u_idx), ce_barycenter (entries ! v_idx)) of
              (Some u, Some v) \<Rightarrow> (if u \<ge> v then merge_entries entries v_idx u_idx else entries)
            | _ \<Rightarrow> merge_entries entries v_idx u_idx))"

definition handle_out :: "nat \<Rightarrow> conflict_entry list \<times> nat list \<Rightarrow> nat \<Rightarrow> conflict_entry list \<times> nat list" where
  "handle_out v_idx st w_idx =
     (let (entries, source_set) = st;
          entries = update_at entries w_idx
            (\<lambda>c. c\<lparr>ce_ins := ce_ins c @ [v_idx], ce_indegree := ce_indegree c - 1\<rparr>)
      in (entries, if ce_indegree (entries ! w_idx) = 0 then source_set @ [w_idx] else source_set))"

text \<open>One turn of the sweep: the popped entry absorbs predecessors and releases its successors.\<close>

definition visit_entry :: "conflict_entry list \<Rightarrow> nat list \<Rightarrow> nat \<Rightarrow> conflict_entry list \<times> nat list" where
  "visit_entry entries source_set v_idx =
     (let entries = foldl (\<lambda>es u. handle_in es v_idx u) entries (rev (ce_ins (entries ! v_idx)))
      in foldl (handle_out v_idx) (entries, source_set) (ce_outs (entries ! v_idx)))"

partial_function (option) topological_sweep ::
  "conflict_entry list \<Rightarrow> nat list \<Rightarrow> nat list \<Rightarrow> (conflict_entry list \<times> nat list) option" where
  "topological_sweep entries source_set entries_order =
     (if source_set = [] then Some (entries, entries_order)
      else
        (let v_idx = last source_set;
             (entries, source_set) = visit_entry entries (butlast source_set) v_idx
         in topological_sweep entries source_set (entries_order @ [v_idx])))"

declare topological_sweep.simps [code]

definition resolved :: "conflict_entry \<Rightarrow> resolved_entry" where
  "resolved c = \<lparr>re_vs = ce_vs c, re_i = ce_i c, re_barycenter = ce_barycenter c, re_weight = ce_weight c\<rparr>"

definition start_entries :: "bary_entry list \<Rightarrow> edge list \<Rightarrow> conflict_entry list" where
  "start_entries entries constraints =
     foldl (add_constraint (id_to_idx entries)) (map2 conflict_entry_of [0..<length entries] entries) constraints"

definition resolve_conflicts ::
  "bary_entry list \<Rightarrow> ('gl, 'n, 'e) graph \<Rightarrow> resolved_entry list option" where
  "resolve_conflicts entries cg =
     (let mapped = start_entries entries (graph_edges cg);
          source_set = filter (\<lambda>i. ce_indegree (mapped ! i) = 0) [0..<length mapped]
      in case topological_sweep mapped source_set [] of
           None \<Rightarrow> None
         | Some (mapped, entries_order) \<Rightarrow>
             Some (map (\<lambda>i. resolved (mapped ! i)) (filter (\<lambda>i. \<not> ce_merged (mapped ! i)) entries_order)))"

section \<open>The constraints as pairs of indices\<close>

definition index_pair :: "(node_id, nat) dict \<Rightarrow> edge \<Rightarrow> (nat \<times> nat) list" where
  "index_pair idx e = (case (dict_get idx (edge_v e), dict_get idx (edge_w e)) of
     (Some v, Some w) \<Rightarrow> [(v, w)] | _ \<Rightarrow> [])"

definition index_pairs :: "(node_id, nat) dict \<Rightarrow> edge list \<Rightarrow> (nat \<times> nat) list" where
  "index_pairs idx es = concat (map (index_pair idx) es)"

lemma length_update_at [simp]: "length (update_at xs i f) = length xs"
  by (simp add: update_at_def)

lemma nth_update_at: "j < length xs \<Longrightarrow> update_at xs i f ! j = (if i = j then f (xs ! j) else xs ! j)"
  by (simp add: update_at_def)

lemma length_add_constraint [simp]: "length (add_constraint idx mapped e) = length mapped"
  by (simp add: add_constraint_def split: option.splits)

lemma length_add_constraints [simp]: "length (foldl (add_constraint idx) mapped es) = length mapped"
  by (induction es arbitrary: mapped) simp_all

lemma add_constraint_nth:
  "i < length mapped \<Longrightarrow> add_constraint idx mapped e ! i = (mapped ! i)\<lparr>
    ce_indegree := ce_indegree (mapped ! i) + int (length (filter (\<lambda>(u, w). w = i) (index_pair idx e))),
    ce_outs := ce_outs (mapped ! i) @ map snd (filter (\<lambda>(u, w). u = i) (index_pair idx e))\<rparr>"
  by (cases "dict_get idx (edge_v e)"; cases "dict_get idx (edge_w e)")
    (auto simp: add_constraint_def nth_update_at index_pair_def)

lemma add_constraints_nth:
  assumes "i < length mapped"
  shows "foldl (add_constraint idx) mapped es ! i = (mapped ! i)\<lparr>
    ce_indegree := ce_indegree (mapped ! i) + int (length (filter (\<lambda>(u, w). w = i) (index_pairs idx es))),
    ce_outs := ce_outs (mapped ! i) @ map snd (filter (\<lambda>(u, w). u = i) (index_pairs idx es))\<rparr>"
  using assms
proof (induction es arbitrary: mapped)
  case (Cons e es)
  show ?case
    using Cons.prems by (simp add: Cons.IH add_constraint_nth index_pairs_def)
qed (simp add: index_pairs_def)

lemma id_to_idx_take:
  assumes "distinct (map be_v es)"
  shows "dict_get (foldl (\<lambda>d (i, e). dict_set (be_v e) i d) [] (zip [0..<length es] es)) v = Some i \<longleftrightarrow>
    i < length es \<and> be_v (es ! i) = v"
  using assms
proof (induction es arbitrary: i rule: rev_induct)
  case (snoc e es)
  have "zip [0..<length (es @ [e])] (es @ [e]) = zip [0..<length es] es @ [(length es, e)]" by simp
  moreover have "be_v (es ! j) \<noteq> be_v e" if "j < length es" for j
  proof -
    have "be_v e \<notin> be_v ` set es" using snoc.prems by simp
    with that show ?thesis by (metis image_eqI nth_mem)
  qed
  ultimately show ?case using snoc by (auto simp: dict_simps nth_append less_Suc_eq)
qed simp

lemma id_to_idx_iff:
  "distinct (map be_v es) \<Longrightarrow> dict_get (id_to_idx es) v = Some i \<longleftrightarrow> i < length es \<and> be_v (es ! i) = v"
  unfolding id_to_idx_def by (rule id_to_idx_take)

lemma index_pairs_bound:
  assumes "distinct (map be_v es)" and "(u, w) \<in> set (index_pairs (id_to_idx es) cs)"
  shows "u < length es \<and> w < length es"
proof -
  from assms(2) obtain e where e: "(u, w) \<in> set (index_pair (id_to_idx es) e)"
    by (auto simp: index_pairs_def)
  then have "dict_get (id_to_idx es) (edge_v e) = Some u \<and> dict_get (id_to_idx es) (edge_w e) = Some w"
    by (auto simp: index_pair_def split: option.splits)
  then show ?thesis by (simp add: id_to_idx_iff [OF assms(1)])
qed

section \<open>Merging keeps the vertices\<close>

definition live :: "conflict_entry list \<Rightarrow> node_id multiset" where
  "live es = mset (concat (map ce_vs (filter (\<lambda>c. \<not> ce_merged c) es)))"

abbreviation live_of :: "conflict_entry \<Rightarrow> node_id multiset" where
  "live_of c \<equiv> (if ce_merged c then {#} else mset (ce_vs c))"

lemma live_sum: "live es = (\<Sum>i<length es. live_of (es ! i))"
proof -
  have "live es = sum_list (map live_of es)"
    unfolding live_def by (induction es) auto
  then show ?thesis by (simp add: sum_list_sum_nth atLeast0LessThan)
qed

text \<open>What a merge leaves alone: the adjacency of every entry.\<close>

definition same_links :: "conflict_entry list \<Rightarrow> conflict_entry list \<Rightarrow> bool" where
  "same_links es es' = (length es' = length es \<and> (\<forall>i<length es.
     ce_indegree (es' ! i) = ce_indegree (es ! i) \<and> ce_ins (es' ! i) = ce_ins (es ! i) \<and>
     ce_outs (es' ! i) = ce_outs (es ! i)))"

lemma same_links_refl [simp]: "same_links es es"
  by (simp add: same_links_def)

lemma same_links_trans: "same_links es es' \<Longrightarrow> same_links es' es'' \<Longrightarrow> same_links es es''"
  by (auto simp: same_links_def)

text \<open>
  The content of the entries: the live vertices are those of the input, only processed entries are
  merged, and an entry without a barycenter is still the one of its index.
\<close>

definition content_ok :: "node_id list \<Rightarrow> nat set \<Rightarrow> conflict_entry list \<Rightarrow> bool" where
  "content_ok names D es = (length es = length names \<and> live es = mset names \<and>
     (\<forall>i<length es. ce_merged (es ! i) \<longrightarrow> i \<in> D) \<and>
     (\<forall>i<length es. ce_barycenter (es ! i) = None \<longrightarrow> ce_vs (es ! i) = [names ! i] \<and> ce_i (es ! i) = i))"

lemma merge_entries_nth:
  assumes "u \<noteq> v" "u < length es" "v < length es" "k < length es"
  shows "ce_merged (merge_entries es v u ! k) = (k = u \<or> ce_merged (es ! k))"
    and "ce_vs (merge_entries es v u ! k) = (if k = v then ce_vs (es ! u) @ ce_vs (es ! v) else ce_vs (es ! k))"
    and "k \<noteq> v \<Longrightarrow> ce_barycenter (merge_entries es v u ! k) = ce_barycenter (es ! k)"
    and "ce_barycenter (merge_entries es v u ! v) \<noteq> None"
    and "k \<noteq> v \<Longrightarrow> ce_i (merge_entries es v u ! k) = ce_i (es ! k)"
    and "ce_indegree (merge_entries es v u ! k) = ce_indegree (es ! k)"
    and "ce_ins (merge_entries es v u ! k) = ce_ins (es ! k)"
    and "ce_outs (merge_entries es v u ! k) = ce_outs (es ! k)"
  using assms
  by (auto simp: merge_entries_def Let_def nth_update_at nth_list_update split: prod.splits)

lemma length_merge [simp]: "length (merge_entries es v u) = length es"
  by (simp add: merge_entries_def Let_def split: prod.splits)

lemma merge_live:
  assumes "u \<noteq> v" "u < length es" "v < length es" "\<not> ce_merged (es ! u)" "\<not> ce_merged (es ! v)"
  shows "live (merge_entries es v u) = live es"
proof -
  define f where "f es = (\<lambda>i. live_of (es ! i))" for es :: "conflict_entry list"
  have split: "(\<Sum>i<length es. f es' i) = f es' u + f es' v + (\<Sum>i\<in>{..<length es} - {u, v}. f es' i)" for es'
  proof -
    have "(\<Sum>i<length es. f es' i) = f es' u + (\<Sum>i\<in>{..<length es} - {u}. f es' i)"
      using assms(2) by (intro sum.remove) auto
    also have "(\<Sum>i\<in>{..<length es} - {u}. f es' i) = f es' v + (\<Sum>i\<in>{..<length es} - {u} - {v}. f es' i)"
      using assms(1,3) by (intro sum.remove) auto
    finally show ?thesis by (simp add: Diff_insert2 [symmetric] ac_simps insert_commute)
  qed
  have rest: "(\<Sum>i\<in>{..<length es} - {u, v}. f (merge_entries es v u) i) = (\<Sum>i\<in>{..<length es} - {u, v}. f es i)"
    by (rule sum.cong) (use assms(1-3) in \<open>auto simp: f_def merge_entries_nth\<close>)
  have "f (merge_entries es v u) u + f (merge_entries es v u) v = f es u + f es v"
    using assms by (simp add: f_def merge_entries_nth)
  then show ?thesis
    unfolding live_sum length_merge f_def [symmetric] by (simp add: split rest)
qed

lemma handle_in_ok:
  assumes "content_ok names D es" "u \<in> D" "v \<notin> D" "u < length es" "v < length es"
  shows "content_ok names D (handle_in es v u) \<and> same_links es (handle_in es v u)"
proof -
  have keep: "handle_in es v u = es \<or> handle_in es v u = merge_entries es v u \<and> \<not> ce_merged (es ! u)"
    by (auto simp: handle_in_def split: option.splits)
  have uv: "u \<noteq> v" using assms by auto
  have v: "\<not> ce_merged (es ! v)" using assms by (auto simp: content_ok_def)
  have "content_ok names D (merge_entries es v u)" if "\<not> ce_merged (es ! u)"
    using assms merge_live [OF uv assms(4,5) that v] uv
    by (auto simp: content_ok_def merge_entries_nth [OF uv assms(4,5)])
  moreover have "same_links es (merge_entries es v u)"
    using uv assms(4,5) by (simp add: same_links_def merge_entries_nth)
  ultimately show ?thesis using keep assms(1) by auto
qed

lemma handle_ins_ok:
  assumes "content_ok names D es" "set us \<subseteq> D" "v \<notin> D" "\<forall>u\<in>set us. u < length es" "v < length es"
  shows "content_ok names D (foldl (\<lambda>es u. handle_in es v u) es us) \<and>
    same_links es (foldl (\<lambda>es u. handle_in es v u) es us)"
  using assms
proof (induction us arbitrary: es)
  case (Cons u us)
  have h: "content_ok names D (handle_in es v u)" "same_links es (handle_in es v u)"
    using handle_in_ok [of names D es u v] Cons.prems by auto
  have len: "length (handle_in es v u) = length es" using h(2) by (simp add: same_links_def)
  show ?case
    using Cons.IH [OF h(1)] Cons.prems same_links_trans [OF h(2)] by (auto simp: len)
qed simp

section \<open>The sweep\<close>

text \<open>
  The adjacency of the entries, for the pairs \<open>E\<close>, the processed set \<open>D\<close> and the source stack \<open>S\<close>:
  the indegrees count the edges from unprocessed entries, except for those still listed in \<open>ws\<close>.
\<close>

definition pending :: "(nat \<times> nat) list \<Rightarrow> nat set \<Rightarrow> nat \<Rightarrow> nat" where
  "pending E D w = length (filter (\<lambda>(u, x). x = w \<and> u \<notin> D) E)"

definition links_ok :: "nat \<Rightarrow> (nat \<times> nat) list \<Rightarrow> nat set \<Rightarrow> nat list \<Rightarrow> nat list \<Rightarrow> conflict_entry list \<Rightarrow> bool" where
  "links_ok n E D S ws es = (length es = n \<and> distinct S \<and> set S \<subseteq> {..<n} \<and> D \<subseteq> {..<n} \<and> set S \<inter> D = {} \<and>
     (\<forall>w<n. ce_indegree (es ! w) = int (pending E D w + count_list ws w)) \<and>
     (\<forall>w<n. ce_outs (es ! w) = map snd (filter (\<lambda>(u, x). u = w) E)) \<and>
     (\<forall>w<n. set (ce_ins (es ! w)) \<subseteq> D) \<and>
     (\<forall>w<n. w \<in> set S \<union> D \<longleftrightarrow> ce_indegree (es ! w) = 0))"

lemma links_okD:
  assumes "links_ok n E D S ws es"
  shows "length es = n" "distinct S" "set S \<subseteq> {..<n}" "D \<subseteq> {..<n}" "set S \<inter> D = {}"
    and "w < n \<Longrightarrow> ce_indegree (es ! w) = int (pending E D w + count_list ws w)"
    and "w < n \<Longrightarrow> ce_outs (es ! w) = map snd (filter (\<lambda>(u, x). u = w) E)"
    and "w < n \<Longrightarrow> set (ce_ins (es ! w)) \<subseteq> D"
    and "w < n \<Longrightarrow> w \<in> set S \<union> D \<longleftrightarrow> ce_indegree (es ! w) = 0"
  using assms by (simp_all add: links_ok_def)

lemma same_links_ok: "links_ok n E D S ws es \<Longrightarrow> same_links es es' \<Longrightarrow> links_ok n E D S ws es'"
  by (simp add: links_ok_def same_links_def)

lemma handle_out_ok:
  assumes ok: "links_ok n E D S (w # ws) es" and w: "w < n" and v: "v \<in> D"
    and h: "handle_out v (es, S) w = (es', S')"
  shows "links_ok n E D S' ws es'"
proof -
  note d = links_okD [OF ok]
  have es': "es' = update_at es w (\<lambda>c. c\<lparr>ce_ins := ce_ins c @ [v], ce_indegree := ce_indegree c - 1\<rparr>)"
    and S': "S' = (if ce_indegree (es' ! w) = 0 then S @ [w] else S)"
    using h by (auto simp: handle_out_def Let_def)
  have at: "es' ! x = (if w = x then (es ! x)\<lparr>ce_ins := ce_ins (es ! x) @ [v], ce_indegree := ce_indegree (es ! x) - 1\<rparr> else es ! x)"
    if "x < n" for x using that d(1) by (simp add: es' nth_update_at)
  have new: "w \<notin> set S \<union> D" using d(6,9) [OF w] by simp
  have "x \<in> set S' \<union> D \<longleftrightarrow> ce_indegree (es' ! x) = 0" if "x < n" for x
    using d(9) [OF that] d(9) [OF w] new that w by (auto simp: S' at)
  moreover have "ce_indegree (es' ! x) = int (pending E D x + count_list ws x)" if "x < n" for x
    using d(6) [OF that] that by (auto simp: at)
  moreover have "distinct S' \<and> set S' \<subseteq> {..<n} \<and> set S' \<inter> D = {}" using d(2,3,5) new w by (auto simp: S')
  moreover have "ce_outs (es' ! x) = map snd (filter (\<lambda>(u, y). u = x) E) \<and> set (ce_ins (es' ! x)) \<subseteq> D" if "x < n" for x
    using d(7,8) [OF that] v that by (auto simp: at)
  ultimately show ?thesis using d(1,4) by (auto simp: links_ok_def es')
qed

lemma handle_outs_ok:
  assumes "links_ok n E D S ws es" and "set ws \<subseteq> {..<n}" and "v \<in> D"
    and "foldl (handle_out v) (es, S) ws = (es', S')"
  shows "links_ok n E D S' [] es'"
  using assms
proof (induction ws arbitrary: es S)
  case (Cons w ws)
  obtain es1 S1 where h: "handle_out v (es, S) w = (es1, S1)" by fastforce
  have "links_ok n E D S1 ws es1" using handle_out_ok [OF Cons.prems(1) _ Cons.prems(3) h] Cons.prems(2) by simp
  then show ?case using Cons.IH [of S1 es1] Cons.prems(2-4) h by simp
qed simp

lemma handle_outs_content:
  "content_ok names D es \<Longrightarrow> foldl (handle_out v) (es, S) ws = (es', S') \<Longrightarrow> content_ok names D es'"
proof (induction ws arbitrary: es S)
  case (Cons w ws)
  obtain es1 S1 where h: "handle_out v (es, S) w = (es1, S1)" by fastforce
  have es1: "es1 = update_at es w (\<lambda>c. c\<lparr>ce_ins := ce_ins c @ [v], ce_indegree := ce_indegree c - 1\<rparr>)"
    using h by (auto simp: handle_out_def Let_def)
  have at: "ce_merged (es1 ! i) = ce_merged (es ! i)" "ce_vs (es1 ! i) = ce_vs (es ! i)"
    "ce_barycenter (es1 ! i) = ce_barycenter (es ! i)" "ce_i (es1 ! i) = ce_i (es ! i)" if "i < length es" for i
    using that by (simp_all add: es1 nth_update_at)
  have len: "length es1 = length es" by (simp add: es1)
  have "live es1 = live es" unfolding live_sum len by (rule sum.cong) (simp_all add: at)
  then have "content_ok names D es1" using Cons.prems(1) at by (simp add: content_ok_def len)
  then show ?case using Cons.IH Cons.prems(2) h by simp
qed simp

lemma pending_insert:
  "pending E D w = pending E (insert v D) w + (if v \<in> D then 0 else count_list (map snd (filter (\<lambda>(u, x). u = v) E)) w)"
  by (induction E) (auto simp: pending_def)

lemma visit_entry_ok:
  assumes ok: "links_ok n E D (S @ [v]) [] es" and c: "content_ok names D es" and E: "set E \<subseteq> {..<n} \<times> {..<n}"
    and h: "visit_entry es S v = (es', S')"
  shows "links_ok n E (insert v D) S' [] es' \<and> content_ok names (insert v D) es'"
proof -
  note d = links_okD [OF ok]
  have v: "v < n" "v \<notin> D" using d(3,5) by auto
  define es1 where "es1 = foldl (\<lambda>es u. handle_in es v u) es (rev (ce_ins (es ! v)))"
  have ins: "set (rev (ce_ins (es ! v))) \<subseteq> D" using d(8) [OF v(1)] by simp
  have one: "content_ok names D es1" "same_links es es1"
    using handle_ins_ok [OF c ins v(2)] d(1,4) v(1) ins by (auto simp: es1_def)
  define ws where "ws = ce_outs (es1 ! v)"
  have ws: "ws = map snd (filter (\<lambda>(u, x). u = v) E)"
    using one(2) d(1) d(7) [OF v(1)] v(1) by (simp add: ws_def same_links_def)
  have f: "foldl (handle_out v) (es1, S) ws = (es', S')"
    using h by (simp add: visit_entry_def Let_def es1_def ws_def)
  have "links_ok n E (insert v D) S ws es"
    unfolding links_ok_def
  proof (intro conjI allI impI)
    fix w assume w: "w < n"
    show "ce_indegree (es ! w) = int (pending E (insert v D) w + count_list ws w)"
      using d(6) [OF w] pending_insert [of E D w v] v(2) by (simp add: ws)
    show "w \<in> set S \<union> insert v D \<longleftrightarrow> ce_indegree (es ! w) = 0" using d(9) [OF w] by auto
    show "ce_outs (es ! w) = map snd (filter (\<lambda>(u, x). u = w) E)" by (rule d(7) [OF w])
    show "set (ce_ins (es ! w)) \<subseteq> insert v D" using d(8) [OF w] by auto
  qed (use d(1-5) v in auto)
  then have "links_ok n E (insert v D) S ws es1" by (rule same_links_ok [OF _ one(2)])
  then have "links_ok n E (insert v D) S' [] es'"
    by (rule handle_outs_ok [OF _ _ _ f]) (use E in \<open>auto simp: ws\<close>)
  moreover have "content_ok names D es'" by (rule handle_outs_content [OF one(1) f])
  ultimately show ?thesis by (auto simp: content_ok_def)
qed

lemma topological_sweep_ok:
  assumes "links_ok n E (set order) S [] es" and "content_ok names (set order) es"
    and "distinct order" and E: "set E \<subseteq> {..<n} \<times> {..<n}"
  shows "\<exists>es' order'. topological_sweep es S order = Some (es', order') \<and> distinct order' \<and>
    links_ok n E (set order') [] [] es' \<and> content_ok names (set order') es'"
  using assms(1-3)
proof (induction "n - length order" arbitrary: es S order rule: less_induct)
  case less
  show ?case
  proof (cases "S = []")
    case True
    then show ?thesis using less.prems by (subst topological_sweep.simps) simp
  next
    case False
    define v where "v = last S"
    have S: "S = butlast S @ [v]" using False by (simp add: v_def)
    obtain es1 S1 where h: "visit_entry es (butlast S) v = (es1, S1)" by fastforce
    have ok: "links_ok n E (set order) (butlast S @ [v]) [] es" using less.prems(1) S by simp
    note one = visit_entry_ok [OF ok less.prems(2) E h]
    have v: "v < n" "v \<notin> set order" using links_okD(3,5) [OF ok] by auto
    have "length order < n"
    proof -
      have "card (insert v (set order)) \<le> card {..<n}"
        using links_okD(4) [OF ok] v(1) by (intro card_mono) auto
      then show ?thesis using v(2) less.prems(3) by (simp add: distinct_card)
    qed
    then have "\<exists>es' order'. topological_sweep es1 S1 (order @ [v]) = Some (es', order') \<and> distinct order' \<and>
      links_ok n E (set order') [] [] es' \<and> content_ok names (set order') es'"
      using one less.prems(3) v(2) by (intro less.hyps) auto
    moreover have "topological_sweep es S order = topological_sweep es1 S1 (order @ [v])"
      using False h by (subst topological_sweep.simps) (simp add: v_def Let_def)
    ultimately show ?thesis by simp
  qed
qed

section \<open>The result\<close>

lemma start_entries_nth:
  assumes "i < length es"
  shows "start_entries es cs ! i = (conflict_entry_of i (es ! i))\<lparr>
    ce_indegree := int (pending (index_pairs (id_to_idx es) cs) {} i),
    ce_outs := map snd (filter (\<lambda>(u, w). u = i) (index_pairs (id_to_idx es) cs))\<rparr>"
proof -
  have "map2 conflict_entry_of [0..<length es] es ! i = conflict_entry_of i (es ! i)" using assms by simp
  then show ?thesis
    unfolding start_entries_def using assms
    by (subst add_constraints_nth) (simp_all add: conflict_entry_of_def pending_def)
qed

lemma length_start_entries [simp]: "length (start_entries es cs) = length es"
  by (simp add: start_entries_def)

lemma start_ok:
  fixes es cs
  defines "E \<equiv> index_pairs (id_to_idx es) cs"
  defines "S \<equiv> filter (\<lambda>i. ce_indegree (start_entries es cs ! i) = 0) [0..<length es]"
  shows "links_ok (length es) E {} S [] (start_entries es cs)"
    and "content_ok (map be_v es) {} (start_entries es cs)"
proof -
  show "links_ok (length es) E {} S [] (start_entries es cs)"
    by (auto simp: links_ok_def S_def E_def start_entries_nth conflict_entry_of_def)
  have "live (start_entries es cs) = (\<Sum>i<length es. {#be_v (es ! i)#})"
    unfolding live_sum length_start_entries
    by (rule sum.cong) (simp_all add: start_entries_nth conflict_entry_of_def)
  also have "\<dots> = mset (map be_v es)"
  proof -
    have "(\<Sum>i<length es. {#be_v (es ! i)#}) = sum_list (map (\<lambda>e. {#be_v e#}) es)"
      by (simp add: sum_list_sum_nth atLeast0LessThan)
    also have "\<dots> = mset (map be_v es)" by (induction es) simp_all
    finally show ?thesis .
  qed
  finally show "content_ok (map be_v es) {} (start_entries es cs)"
    by (simp add: content_ok_def start_entries_nth conflict_entry_of_def)
qed

lemma swept_all:
  assumes ok: "links_ok n E D [] [] es" and wf: "wf (set E)" and E: "set E \<subseteq> {..<n} \<times> {..<n}"
  shows "D = {..<n}"
proof (rule ccontr)
  assume "D \<noteq> {..<n}"
  then obtain x where "x \<in> {..<n} - D" using links_okD(4) [OF ok] by blast
  from wfE_min [OF wf this] obtain w where w: "w \<in> {..<n} - D" and min: "\<And>u. (u, w) \<in> set E \<Longrightarrow> u \<notin> {..<n} - D"
    by metis
  have "filter (\<lambda>(u, x). x = w \<and> u \<notin> D) E = []"
    using min E by (auto simp: filter_empty_conv)
  then have "pending E D w = 0" by (simp add: pending_def)
  then have "w \<in> D" using links_okD(6,9) [OF ok, of w] w by simp
  with w show False by simp
qed

lemma finite_edge_rel [simp]: "finite (edge_rel g)"
  by (simp add: edge_rel_def)

lemma constraint_wf:
  assumes "acyclic (edge_rel cg)" and d: "distinct (map be_v es)"
  shows "wf (set (index_pairs (id_to_idx es) (graph_edges cg)))"
proof (rule wf_subset)
  show "wf (inv_image (edge_rel cg) (\<lambda>i. be_v (es ! i)))"
    using finite_acyclic_wf [OF finite_edge_rel assms(1)] by (rule wf_inv_image)
  show "set (index_pairs (id_to_idx es) (graph_edges cg)) \<subseteq> inv_image (edge_rel cg) (\<lambda>i. be_v (es ! i))"
  proof clarify
    fix u w
    assume "(u, w) \<in> set (index_pairs (id_to_idx es) (graph_edges cg))"
    then obtain e where e: "e \<in> set (graph_edges cg)" "(u, w) \<in> set (index_pair (id_to_idx es) e)"
      by (auto simp: index_pairs_def)
    then have "dict_get (id_to_idx es) (edge_v e) = Some u \<and> dict_get (id_to_idx es) (edge_w e) = Some w"
      by (auto simp: index_pair_def split: option.splits)
    with e(1) show "(u, w) \<in> inv_image (edge_rel cg) (\<lambda>i. be_v (es ! i))"
      by (auto simp: id_to_idx_iff [OF d] edge_rel_def inv_image_def)
  qed
qed

lemma resolve_conflicts_run:
  fixes cg :: "('gl, 'n, 'e) graph"
  assumes d: "distinct (map be_v entries)"
  obtains es order where
    "resolve_conflicts entries cg = Some (map (\<lambda>i. resolved (es ! i)) (filter (\<lambda>i. \<not> ce_merged (es ! i)) order))"
    and "distinct order" and "content_ok (map be_v entries) (set order) es"
    and "links_ok (length entries) (index_pairs (id_to_idx entries) (graph_edges cg)) (set order) [] [] es"
proof -
  note start = start_ok [of entries "graph_edges cg"]
  have E: "set (index_pairs (id_to_idx entries) (graph_edges cg)) \<subseteq> {..<length entries} \<times> {..<length entries}"
    using index_pairs_bound [OF d] by auto
  obtain es order where t: "topological_sweep (start_entries entries (graph_edges cg))
      (filter (\<lambda>i. ce_indegree (start_entries entries (graph_edges cg) ! i) = 0) [0..<length entries]) [] = Some (es, order)"
    "distinct order" "content_ok (map be_v entries) (set order) es"
    "links_ok (length entries) (index_pairs (id_to_idx entries) (graph_edges cg)) (set order) [] [] es"
    using topological_sweep_ok [OF _ _ _ E, of "[]"] start by (metis distinct.simps(1) empty_set)
  show ?thesis by (rule that [OF _ t(2-4)]) (simp add: resolve_conflicts_def Let_def t(1))
qed

lemma mset_concat_filter:
  "distinct xs \<Longrightarrow> mset (concat (map f (filter P xs))) = (\<Sum>i\<in>set xs. if P i then mset (f i) else {#})"
  by (induction xs) simp_all

lemma slottedI:
  assumes single: "\<And>e. e \<in> set rs \<Longrightarrow> re_barycenter e = None \<Longrightarrow> re_i e < length names \<and> re_vs e = [names ! re_i e]"
    and d: "distinct names" and all: "set names \<subseteq> set (concat (map re_vs rs))"
  shows "slotted rs"
proof -
  define sortable where "sortable = filter (\<lambda>e. re_barycenter e \<noteq> None) rs"
  define unsortable where "unsortable = filter (\<lambda>e. re_barycenter e = None) rs"
  have "re_i e \<le> total_length sortable + length (filter (\<lambda>u. re_i u < re_i e) unsortable)"
    if e: "e \<in> set unsortable" for e
  proof -
    define smaller where "smaller = filter (\<lambda>u. re_i u < re_i e) unsortable"
    have k: "re_i e < length names" using single e by (simp add: unsortable_def)
    have "names ! j \<in> set (concat (map re_vs sortable)) \<union> set (map (hd \<circ> re_vs) smaller)" if j: "j < re_i e" for j
    proof -
      have "names ! j \<in> set (concat (map re_vs rs))" using all j k by (metis nth_mem order.strict_trans subsetD)
      then obtain r where r: "r \<in> set rs" "names ! j \<in> set (re_vs r)" by auto
      show ?thesis
      proof (cases "re_barycenter r = None")
        case True
        have s: "re_vs r = [names ! re_i r]" "re_i r < length names" using single [OF r(1) True] by simp_all
        have "names ! j = names ! re_i r" using r(2) by (simp add: s(1))
        then have i: "re_i r = j" using nth_eq_iff_index_eq [OF d, of j "re_i r"] s(2) j k by simp
        have "r \<in> set smaller" "(hd \<circ> re_vs) r = names ! j"
          using r(1) True j s(1) by (simp_all add: smaller_def unsortable_def i)
        then show ?thesis by (metis UnI2 image_eqI set_map)
      next
        case False
        then have "r \<in> set sortable" using r(1) by (simp add: sortable_def)
        then show ?thesis using r(2) by auto
      qed
    qed
    then have sub: "(!) names ` {..<re_i e} \<subseteq> set (concat (map re_vs sortable) @ map (hd \<circ> re_vs) smaller)" by auto
    have "inj_on ((!) names) {..<re_i e}"
      using d k by (auto simp: inj_on_def nth_eq_iff_index_eq)
    then have "re_i e = card ((!) names ` {..<re_i e})" by (simp add: card_image)
    also have "\<dots> \<le> card (set (concat (map re_vs sortable) @ map (hd \<circ> re_vs) smaller))"
      by (rule card_mono [OF _ sub]) simp
    also have "\<dots> \<le> length (concat (map re_vs sortable) @ map (hd \<circ> re_vs) smaller)" by (rule card_length)
    finally show ?thesis by (simp add: length_concat smaller_def comp_def)
  qed
  then show ?thesis by (simp add: slotted_def Let_def list_all_iff sortable_def unsortable_def)
qed

text \<open>
  When no constraint cycle exists, the sweep returns, every vertex of the input is in exactly one
  of the resolved entries, and these have the slots that the sorter needs.
\<close>

lemma resolve_keeps_vertices:
  assumes "distinct (map be_v entries)" and "acyclic (edge_rel cg)"
  shows "\<exists>rs. resolve_conflicts entries cg = Some rs \<and>
    mset (concat (map re_vs rs)) = mset (map be_v entries) \<and> slotted rs"
proof -
  obtain es order where r:
    "resolve_conflicts entries cg = Some (map (\<lambda>i. resolved (es ! i)) (filter (\<lambda>i. \<not> ce_merged (es ! i)) order))"
    and o: "distinct order" and c: "content_ok (map be_v entries) (set order) es"
    and l: "links_ok (length entries) (index_pairs (id_to_idx entries) (graph_edges cg)) (set order) [] [] es"
    by (rule resolve_conflicts_run [OF assms(1)])
  define rs where "rs = map (\<lambda>i. resolved (es ! i)) (filter (\<lambda>i. \<not> ce_merged (es ! i)) order)"
  have all: "set order = {..<length entries}"
    by (rule swept_all [OF l constraint_wf [OF assms(2,1)]]) (use index_pairs_bound [OF assms(1)] in auto)
  have len: "length es = length entries" and live: "live es = mset (map be_v entries)"
    using c by (simp_all add: content_ok_def)
  have "map re_vs rs = map (\<lambda>i. ce_vs (es ! i)) (filter (\<lambda>i. \<not> ce_merged (es ! i)) order)"
    by (simp add: rs_def resolved_def)
  then have "mset (concat (map re_vs rs)) = (\<Sum>i<length entries. if \<not> ce_merged (es ! i) then mset (ce_vs (es ! i)) else {#})"
    by (simp only: mset_concat_filter [OF o] all)
  also have "\<dots> = live es" unfolding live_sum len by (rule sum.cong) auto
  finally have ms: "mset (concat (map re_vs rs)) = mset (map be_v entries)" using live by simp
  have "slotted rs"
  proof (rule slottedI [OF _ assms(1)])
    show "re_i e < length (map be_v entries) \<and> re_vs e = [map be_v entries ! re_i e]"
      if "e \<in> set rs" "re_barycenter e = None" for e
      using that c all len by (auto simp: rs_def resolved_def content_ok_def)
    show "set (map be_v entries) \<subseteq> set (concat (map re_vs rs))"
      using ms by (metis mset_eq_setD order_refl)
  qed
  with ms r show ?thesis by (simp add: rs_def)
qed

text \<open>
  C5: When the constraints have no cycle, resolving the conflicts of a level and sorting the result
  returns each vertex of the level exactly once.
\<close>

theorem sorted_level_permutes:
  assumes "distinct (map be_v entries)" and "acyclic (edge_rel cg)"
  shows "\<exists>rs. resolve_conflicts entries cg = Some rs \<and>
    mset (sr_vs (sort_entries rs bias_right)) = mset (map be_v entries)"
  using resolve_keeps_vertices [OF assms] by (auto simp: sort_keeps_vertices)

end
