(* ===== verification/Order_Init.thy ===== *)
theory Order_Init
  imports Layout_Views "HOL-Library.Multiset"
begin

text \<open>
  The first layering (\<open>dagre/layout/order/init_order.py\<close>): a depth-first walk over the successors
  that appends each node to the layer of its rank when it is first met. The recursion and the loop
  over the successors are two functions that call each other; they end because each node with a
  label is entered once.
\<close>

section \<open>The code\<close>

type_synonym init_state = "(node_id, bool) ordered_hashmap \<times> node_id list list"

text \<open>Growing the list of layers until it has the rank.\<close>

definition grow_layers :: "int \<Rightarrow> node_id list list \<Rightarrow> node_id list list" where
  "grow_layers rank layers = layers @ replicate (nat (rank + 1) - length layers) []"

function (sequential, domintros) init_order_dfs ::
  "('gl, graph_node, 'e) graph \<Rightarrow> node_id \<Rightarrow> init_state \<Rightarrow> layout_error + init_state"
  and init_order_all ::
  "('gl, graph_node, 'e) graph \<Rightarrow> node_id list \<Rightarrow> init_state \<Rightarrow> layout_error + init_state" where
  "init_order_dfs g v (visited, layers) =
     (if ohm_contains_key visited v then Inr (visited, layers)
      else
        (let visited = ohm_put visited v True in
         case node_label g v of
           None \<Rightarrow> Inr (visited, layers)
         | Some l \<Rightarrow>
             (let rank = option_or (gn_rank l) 0; layers = grow_layers rank layers in
              case py_index (length layers) rank of
                None \<Rightarrow> Inl IndexFailed
              | Some i \<Rightarrow> init_order_all g (option_or (successors g v) []) (visited, layers[i := layers ! i @ [v]]))))"
| "init_order_all g [] st = Inr st"
| "init_order_all g (v # vs) st =
     (case init_order_dfs g v st of Inl err \<Rightarrow> Inl err | Inr st \<Rightarrow> init_order_all g vs st)"
  by pat_completeness auto

text \<open>The nodes that can still be entered.\<close>

abbreviation entered :: "init_state \<Rightarrow> node_id set" where
  "entered st \<equiv> {v. dict_has (fst st) v}"

definition unentered :: "('gl, 'n, 'e) graph \<Rightarrow> init_state \<Rightarrow> nat" where
  "unentered g st = card {v. node_label g v \<noteq> None \<and> v \<notin> entered st}"

lemma finite_labelled: "finite {v. node_label g v \<noteq> None \<and> P v}"
proof (rule finite_subset)
  show "{v. node_label g v \<noteq> None \<and> P v} \<subseteq> set (dict_keys (nodes_map g))"
    by (auto simp: node_label_def dest!: dict_get_Some_mem split: option.splits intro: rev_image_eqI)
qed simp

lemma unentered_mono: "entered st \<subseteq> entered st' \<Longrightarrow> unentered g st' \<le> unentered g st"
  unfolding unentered_def by (rule card_mono [OF finite_labelled]) auto

lemma unentered_enter:
  assumes "\<not> dict_has visited v" and "node_label g v \<noteq> None"
  shows "unentered g (ohm_put visited v True, layers') < unentered g (visited, layers)"
  unfolding unentered_def by (rule psubset_card_mono [OF finite_labelled]) (use assms in auto)

lemma entered_grows_partial:
  "init_order_dfs_init_order_all_dom (Inl (g, v, st)) \<Longrightarrow> init_order_dfs g v st = Inr st' \<Longrightarrow> entered st \<subseteq> entered st'"
  "init_order_dfs_init_order_all_dom (Inr (g, vs, st)) \<Longrightarrow> init_order_all g vs st = Inr st' \<Longrightarrow> entered st \<subseteq> entered st'"
proof (induction arbitrary: st' and st' rule: init_order_dfs_init_order_all.pinduct)
  case (1 g v visited layers)
  show ?case
  proof (cases "\<not> ohm_contains_key visited v \<and> node_label g v \<noteq> None")
    case False
    with 1(1,3) show ?thesis by (auto simp: init_order_dfs.psimps split: if_splits)
  next
    case True
    then obtain l where l: "node_label g v = Some l" by auto
    define rank where "rank = option_or (gn_rank l) 0"
    obtain i where i: "py_index (length (grow_layers rank layers)) rank = Some i"
      using 1(1,3) True l by (auto simp: init_order_dfs.psimps Let_def rank_def split: option.splits)
    then have "init_order_all g (option_or (successors g v) [])
        (ohm_put visited v True, (grow_layers rank layers)[i := grow_layers rank layers ! i @ [v]]) = Inr st'"
      using 1(1,3) True l by (simp add: init_order_dfs.psimps Let_def rank_def)
    from 1(2) [OF _ refl l rank_def refl i this] True show ?thesis by auto
  qed
next
  case (2 g st)
  then show ?case by (simp add: init_order_all.psimps)
next
  case (3 g v vs st)
  show ?case
  proof (cases "init_order_dfs g v st")
    case (Inl err)
    with 3 show ?thesis by (simp add: init_order_all.psimps)
  next
    case (Inr st1)
    with 3 show ?thesis by (fastforce simp: init_order_all.psimps)
  qed
qed

termination init_order_dfs
proof (relation "measures [case_sum (\<lambda>(g, v, st). unentered g st) (\<lambda>(g, vs, st). unentered g st),
    case_sum (\<lambda>(g, v, st). 1) (\<lambda>(g, vs, st). 2 * length vs)]", goal_cases)
  case (2 g v visited layers)
  then show ?case using unentered_enter [of visited v g] by (auto simp: ohm_contains_key_def)
next
  case (4 g v vs st st1)
  have "unentered g st1 \<le> unentered g st" by (rule unentered_mono [OF entered_grows_partial(1) [OF 4(2,1)]])
  then show ?case by auto
qed auto

lemma walk_total:
  "init_order_dfs_init_order_all_dom (Inl (g, v, st))" "init_order_dfs_init_order_all_dom (Inr (g, vs, st))"
proof (induction g v st and g vs st rule: init_order_dfs_init_order_all.induct)
  case (1 g v visited layers)
  show ?case by (rule init_order_dfs_init_order_all.domintros(1)) (use 1 in simp)
next
  case (3 g v vs st)
  show ?case by (rule init_order_dfs_init_order_all.domintros(3)) (rule 3; assumption)+
qed (rule init_order_dfs_init_order_all.domintros(2))

lemmas entered_grows = entered_grows_partial(1) [OF walk_total(1)] entered_grows_partial(2) [OF walk_total(2)]

text \<open>The layer count comes from the seeds, the nodes without children, sorted by rank.\<close>

definition simple_nodes :: "('gl, graph_node, 'e) graph \<Rightarrow> node_id list" where
  "simple_nodes g = filter (\<lambda>v. graph_children g v = []) (graph_nodes g)"

definition init_order :: "('gl, graph_node, 'e) graph \<Rightarrow> layout_error + node_id list list" where
  "init_order g =
     (let simple = simple_nodes g; ranks = map (rank_of g) simple;
          top = (case ranks of [] \<Rightarrow> 0 | r # rs \<Rightarrow> foldl max r rs)
      in case init_order_all g (sort_key (rank_of g) simple) (ohm_new, replicate (nat (top + 1)) []) of
           Inl err \<Rightarrow> Inl err | Inr (visited, layers) \<Rightarrow> Inr layers)"

section \<open>The layering\<close>

definition init_ok :: "('gl, graph_node, 'e) graph \<Rightarrow> init_state \<Rightarrow> bool" where
  "init_ok g st = (distinct (concat (snd st)) \<and>
     set (concat (snd st)) = {v \<in> entered st. node_label g v \<noteq> None} \<and>
     (\<forall>i<length (snd st). \<forall>v\<in>set (snd st ! i). rank_of g v = int i))"

definition ranks_nonnegative :: "('gl, graph_node, 'e) graph \<Rightarrow> bool" where
  "ranks_nonnegative g = (\<forall>v\<in>set (graph_nodes g). 0 \<le> rank_of g v)"

lemma mset_concat_extend:
  "i < length xss \<Longrightarrow> mset (concat (xss[i := xss ! i @ [v]])) = add_mset v (mset (concat xss))"
proof (induction xss arbitrary: i)
  case (Cons xs xss)
  then show ?case by (cases i) auto
qed simp

lemma concat_grow [simp]: "concat (grow_layers r layers) = concat layers"
  by (simp add: grow_layers_def)

lemma place_ok:
  assumes ok: "init_ok g (visited, layers)" and new: "\<not> dict_has visited v" and l: "node_label g v = Some l"
    and rank: "0 \<le> rank" "rank = option_or (gn_rank l) 0" and ls: "ls = grow_layers rank layers"
  shows "py_index (length ls) rank = Some (nat rank) \<and> init_ok g (ohm_put visited v True, ls[nat rank := ls ! nat rank @ [v]])"
proof -
  have i: "nat rank < length ls" using rank(1) by (simp add: ls grow_layers_def)
  have r: "rank_of g v = rank" using l rank(2) by (simp add: rank_of_def option_or_def)
  have ms: "mset (concat (ls[nat rank := ls ! nat rank @ [v]])) = add_mset v (mset (concat layers))"
    using mset_concat_extend [OF i] by (simp add: ls)
  have st: "set (concat (ls[nat rank := ls ! nat rank @ [v]])) = insert v (set (concat layers))"
    using ms by (metis set_mset_add_mset_insert set_mset_mset)
  have old: "v \<notin> set (concat layers)" using ok new by (simp add: init_ok_def)
  have "distinct (concat (ls[nat rank := ls ! nat rank @ [v]]))"
    using mset_eq_imp_distinct_iff [of _ "v # concat layers"] ok old ms by (simp add: init_ok_def del: set_concat)
  moreover have "rank_of g x = int j" if "j < length ls" "x \<in> set (ls[nat rank := ls ! nat rank @ [v]] ! j)" for j x
  proof -
    have "rank_of g x = int j" if "x \<in> set (ls ! j)"
      using that ok \<open>j < length ls\<close> by (auto simp: init_ok_def ls grow_layers_def nth_append split: if_splits)
    with that r rank(1) show ?thesis by (cases "nat rank = j") auto
  qed
  moreover have "insert v (set (concat layers)) = {x \<in> entered (ohm_put visited v True, ls). node_label g x \<noteq> None}"
    using ok l by (auto simp: init_ok_def)
  ultimately have "init_ok g (ohm_put visited v True, ls[nat rank := ls ! nat rank @ [v]])"
    unfolding init_ok_def by (simp only: st fst_conv snd_conv length_list_update) blast
  moreover have "py_index (length ls) rank = Some (nat rank)" using i rank(1) by (simp add: py_index_def)
  ultimately show ?thesis by blast
qed

lemma init_walk_ok:
  "ranks_nonnegative g \<Longrightarrow> init_ok g st \<Longrightarrow>
    \<exists>st'. init_order_dfs g v st = Inr st' \<and> init_ok g st' \<and> v \<in> entered st'"
  "ranks_nonnegative g \<Longrightarrow> init_ok g st \<Longrightarrow>
    \<exists>st'. init_order_all g vs st = Inr st' \<and> init_ok g st' \<and> set vs \<subseteq> entered st'"
proof (induction g v st and g vs st rule: init_order_dfs_init_order_all.induct)
  case (1 g v visited layers)
  show ?case
  proof (cases "dict_has visited v")
    case True
    with 1(3) show ?thesis by (simp add: ohm_contains_key_def)
  next
    case new: False
    show ?thesis
    proof (cases "node_label g v")
      case None
      with 1(3) new show ?thesis by (auto simp: ohm_contains_key_def init_ok_def)
    next
      case (Some l)
      define rank where "rank = option_or (gn_rank l) 0"
      have "0 \<le> rank" using 1(2) Some node_label_known [of g v]
        by (fastforce simp: ranks_nonnegative_def rank_def rank_of_def option_or_def)
      note p = place_ok [OF 1(3) new Some this rank_def refl]
      from 1(1) [OF _ refl Some rank_def refl conjunct1 [OF p] 1(2) conjunct2 [OF p]] new
      obtain st' where st': "init_order_all g (option_or (successors g v) [])
          (ohm_put visited v True, (grow_layers rank layers)[nat rank := grow_layers rank layers ! nat rank @ [v]]) = Inr st'"
        "init_ok g st'" by (auto simp: ohm_contains_key_def)
      have "init_order_dfs g v (visited, layers) = Inr st'"
        using new Some p st'(1) by (simp add: ohm_contains_key_def Let_def flip: rank_def)
      moreover have "v \<in> entered st'" using entered_grows(2) [OF st'(1)] by auto
      ultimately show ?thesis using st'(2) by blast
    qed
  qed
next
  case (2 g st)
  then show ?case by simp
next
  case (3 g v vs st)
  obtain st1 where st1: "init_order_dfs g v st = Inr st1" "init_ok g st1" "v \<in> entered st1"
    using 3(1) [OF 3(3,4)] by blast
  obtain st2 where st2: "init_order_all g vs st1 = Inr st2" "init_ok g st2" "set vs \<subseteq> entered st2"
    using 3(2) [OF st1(1) 3(3) st1(2)] by blast
  show ?case using st1 st2 entered_grows(2) [OF st2(1)] by auto
qed

lemma init_order_ok:
  assumes "ranks_nonnegative g"
  obtains visited layers where "init_order g = Inr layers" and "init_ok g (visited, layers)"
    and "set (simple_nodes g) \<subseteq> entered (visited, layers)"
proof -
  have start: "init_ok g (ohm_new, replicate n [])" for n by (auto simp: init_ok_def ohm_new_def)
  define top where "top = (case map (rank_of g) (simple_nodes g) of [] \<Rightarrow> 0 | r # rs \<Rightarrow> foldl max r rs)"
  obtain visited layers where st: "init_order_all g (sort_key (rank_of g) (simple_nodes g))
      (ohm_new, replicate (nat (top + 1)) []) = Inr (visited, layers)"
    "init_ok g (visited, layers)" "set (simple_nodes g) \<subseteq> entered (visited, layers)"
    using init_walk_ok(2) [OF assms start, where vs = "sort_key (rank_of g) (simple_nodes g)"] by (metis set_sort surj_pair)
  have "init_order g = Inr layers" using st(1) by (simp add: init_order_def Let_def top_def)
  then show ?thesis using st(2,3) by (rule that)
qed

text \<open>
  C8: With ranks from 0 the first layering exists. It lists no node twice, a node stands in the layer
  of its rank, and every labelled node without children is listed.
\<close>

theorem init_order_layers:
  assumes "ranks_nonnegative g"
  shows "\<exists>layers. init_order g = Inr layers \<and> distinct (concat layers) \<and>
    (\<forall>i<length layers. \<forall>v\<in>set (layers ! i). rank_of g v = int i) \<and>
    {v \<in> set (graph_nodes g). graph_children g v = [] \<and> node_label g v \<noteq> None} \<subseteq> set (concat layers)"
proof (rule init_order_ok [OF assms])
  fix visited layers
  assume "init_order g = Inr layers" "init_ok g (visited, layers)" "set (simple_nodes g) \<subseteq> entered (visited, layers)"
  moreover from this(2,3) have "{v \<in> set (graph_nodes g). graph_children g v = [] \<and> node_label g v \<noteq> None} \<subseteq> set (concat layers)"
    by (auto simp: init_ok_def simple_nodes_def)
  ultimately show ?thesis by (auto simp: init_ok_def)
qed

end
