(* ===== verification/Order_Layers.thy ===== *)
theory Order_Layers
  imports Order_Resolve Order_Init Cross_Count
begin

text \<open>
  The order sweep (\<open>build_layer_graph.py\<close>, \<open>barycenter.py\<close>, \<open>add_subgraph_constraints.py\<close>,
  \<open>sort_subgraph.py\<close> and \<open>mod.py\<close> of \<open>dagre/layout/order\<close>). The graph of one rank is built afresh,
  its nodes are sorted level by level, the positions are written back as the orders of the nodes,
  and the layering with the fewest crossings wins. A step that may raise has a sum as its result; one
  that may run for ever has an option. The recursion over the levels has fuel, one more than the
  nodes of the layer graph; when it runs out a node lies below itself and the code recurses for ever.
\<close>

type_synonym layer_graph = "(graph_config, graph_node, graph_edge) graph"

section \<open>The graph of one rank\<close>

datatype graph_relationship = IN_EDGES | OUT_EDGES

definition in_list :: "('gl, 'n, 'e) graph \<Rightarrow> node_id \<Rightarrow> edge list" where
  "in_list g v = option_or (graph_in_edges g v None) []"

definition weight_or_zero :: "graph_edge option \<Rightarrow> rat" where
  "weight_or_zero l = (case l of None \<Rightarrow> 0 | Some l \<Rightarrow> option_or (ge_weight l) 0)"

definition create_root_node :: "('gl, 'n, 'e) graph \<Rightarrow> nat \<Rightarrow> node_id \<times> nat" where
  "create_root_node g uid = fresh_id g ''_root'' uid"

definition default_layer_graph :: "bool option \<Rightarrow> graph_config \<Rightarrow> layer_graph" where
  "default_layer_graph multi config =
     (new_graph (Some (option_flags (Some True) multi (Some True)))
        (Some (\<lambda>_. Some default_graph_node)) (Some (\<lambda>_. Some default_graph_edge)))\<lparr>glabel := Some config\<rparr>"

fun copy_edges ::
  "('gl, graph_node, graph_edge) graph \<Rightarrow> node_id \<Rightarrow> edge list \<Rightarrow> layer_graph \<Rightarrow> layout_error + layer_graph" where
  "copy_edges g v [] r = Inr r"
| "copy_edges g v (e # es) r =
     (let u = (if edge_v e = v then edge_w e else edge_v e);
          weight = weight_or_zero (edge_label r u v None);
          source_weight = weight_or_zero (edge_label_with_obj g e);
          label = default_graph_edge\<lparr>ge_weight := Some (source_weight + weight)\<rparr>
      in case set_edge r u v (Some label) None of
           Inl err \<Rightarrow> Inl (GraphFailed err)
         | Inr r \<Rightarrow> copy_edges g v es r)"

text \<open>A node belongs to the rank by its own rank, or as a subgraph that spans the rank.\<close>

definition in_subgraph_rank :: "graph_node \<Rightarrow> int \<Rightarrow> bool" where
  "in_subgraph_rank l rank =
     (case (gn_min_rank l, gn_max_rank l) of (Some lo, Some hi) \<Rightarrow> lo \<le> rank \<and> rank \<le> hi | _ \<Rightarrow> False)"

definition in_layer :: "graph_node \<Rightarrow> int \<Rightarrow> bool" where
  "in_layer l rank = (gn_rank l = Some rank \<or> in_subgraph_rank l rank)"

definition relationship_edges :: "('gl, 'n, 'e) graph \<Rightarrow> graph_relationship \<Rightarrow> node_id \<Rightarrow> edge list" where
  "relationship_edges g rel v = (case rel of OUT_EDGES \<Rightarrow> out_list g v | IN_EDGES \<Rightarrow> in_list g v)"

definition border_label :: "graph_node \<Rightarrow> int \<Rightarrow> graph_node" where
  "border_label l rank =
     default_graph_node\<lparr>
       gn_border_left_node := (case gn_border_left l of None \<Rightarrow> None | Some m \<Rightarrow> dict_get m rank),
       gn_border_right_node := (case gn_border_right l of None \<Rightarrow> None | Some m \<Rightarrow> dict_get m rank)\<rparr>"

definition add_layer_node ::
  "('gl, graph_node, graph_edge) graph \<Rightarrow> int \<Rightarrow> graph_relationship \<Rightarrow> node_id \<Rightarrow> node_id \<Rightarrow> layer_graph \<Rightarrow>
   (layout_error + layer_graph) option" where
  "add_layer_node g rank rel top_id v r =
     (case node_label g v of
        None \<Rightarrow> Some (Inr r)
      | Some l \<Rightarrow>
          (if \<not> in_layer l rank then Some (Inr r)
           else
             (case set_parent (set_node r v (Some l)) v (Some (option_or (graph_parent g v) top_id)) of
                None \<Rightarrow> None
              | Some (Inl err) \<Rightarrow> Some (Inl (GraphFailed err))
              | Some (Inr r) \<Rightarrow>
                  (case copy_edges g v (relationship_edges g rel v) r of
                     Inl err \<Rightarrow> Some (Inl err)
                   | Inr r \<Rightarrow>
                       Some (Inr (if gn_min_rank l = None then r
                                  else set_node r v (Some (border_label l rank))))))))"

fun add_layer_nodes ::
  "('gl, graph_node, graph_edge) graph \<Rightarrow> int \<Rightarrow> graph_relationship \<Rightarrow> node_id \<Rightarrow> node_id list \<Rightarrow> layer_graph \<Rightarrow>
   (layout_error + layer_graph) option" where
  "add_layer_nodes g rank rel top_id [] r = Some (Inr r)"
| "add_layer_nodes g rank rel top_id (v # vs) r =
     (case add_layer_node g rank rel top_id v r of
        None \<Rightarrow> None
      | Some (Inl err) \<Rightarrow> Some (Inl err)
      | Some (Inr r) \<Rightarrow> add_layer_nodes g rank rel top_id vs r)"

definition build_layer_graph ::
  "('gl, graph_node, graph_edge) graph \<Rightarrow> int \<Rightarrow> graph_relationship \<Rightarrow> nat \<Rightarrow>
   (layout_error + layer_graph \<times> nat) option" where
  "build_layer_graph g rank rel uid =
     (let (top_id, uid) = create_root_node g uid;
          result = default_layer_graph None (default_graph_config\<lparr>gc_root := Some top_id\<rparr>)
      in case add_layer_nodes g rank rel top_id (graph_nodes g) result of
           None \<Rightarrow> None
         | Some (Inl err) \<Rightarrow> Some (Inl err)
         | Some (Inr result) \<Rightarrow> Some (Inr (result, uid)))"

section \<open>Barycenters\<close>

definition order_or_zero :: "graph_node option \<Rightarrow> int" where
  "order_or_zero l = (case l of None \<Rightarrow> 0 | Some l \<Rightarrow> option_or (gn_order l) 0)"

definition barycenter_of :: "layer_graph \<Rightarrow> node_id \<Rightarrow> bary_entry" where
  "barycenter_of g v =
     (if in_list g v = [] then \<lparr>be_v = v, be_barycenter = None, be_weight = None\<rparr>
      else
        (let (sum_value, weight_total) =
               foldl (\<lambda>(s, t) e. (let w = weight_or_zero (edge_label_with_obj g e)
                                   in (s + w * of_int (order_or_zero (node_label g (edge_v e))), t + w)))
                 (0, 0) (in_list g v);
             center = (if weight_total = 0 then NaN else Num (sum_value / weight_total))
         in \<lparr>be_v = v, be_barycenter = Some center, be_weight = Some weight_total\<rparr>))"

definition barycenter :: "layer_graph \<Rightarrow> node_id list \<Rightarrow> bary_entry list" where
  "barycenter g movable = map (barycenter_of g) movable"

section \<open>Sorting a level and the levels below it\<close>

definition merge_barycenters :: "bary_entry \<Rightarrow> subgraph_result \<Rightarrow> layout_error + bary_entry" where
  "merge_barycenters target other =
     (case (sr_barycenter other, sr_weight other) of
        (Some ob, Some ow) \<Rightarrow>
          (case (be_barycenter target, be_weight target) of
             (Some tb, Some tw) \<Rightarrow>
               (if tw + ow = 0 then Inl DivisionFailed
                else Inr (target\<lparr>be_barycenter := Some (over (scaled tb tw + scaled ob ow) (tw + ow)),
                                 be_weight := Some (tw + ow)\<rparr>))
           | _ \<Rightarrow> Inr (target\<lparr>be_barycenter := Some ob, be_weight := Some ow\<rparr>))
      | _ \<Rightarrow> Inr target)"

fun score_subgraphs ::
  "(node_id \<Rightarrow> (layout_error + subgraph_result) option) \<Rightarrow> layer_graph \<Rightarrow> bary_entry list \<Rightarrow>
   bary_entry list \<Rightarrow> (node_id, subgraph_result) dict \<Rightarrow>
   (layout_error + bary_entry list \<times> (node_id, subgraph_result) dict) option" where
  "score_subgraphs rec g [] scored subgraphs = Some (Inr (scored, subgraphs))"
| "score_subgraphs rec g (entry # entries) scored subgraphs =
     (if graph_children g (be_v entry) = [] then score_subgraphs rec g entries (scored @ [entry]) subgraphs
      else
        (case rec (be_v entry) of
           None \<Rightarrow> None
         | Some (Inl err) \<Rightarrow> Some (Inl err)
         | Some (Inr result) \<Rightarrow>
             (case (if sr_barycenter result = None then Inr entry else merge_barycenters entry result) of
                Inl err \<Rightarrow> Some (Inl err)
              | Inr entry \<Rightarrow>
                  score_subgraphs rec g entries (scored @ [entry]) (dict_set (be_v entry) result subgraphs))))"

definition expand_entry :: "(node_id, subgraph_result) dict \<Rightarrow> resolved_entry \<Rightarrow> resolved_entry" where
  "expand_entry subgraphs entry =
     entry\<lparr>re_vs := concat (map (\<lambda>w. case dict_get subgraphs w of None \<Rightarrow> [w] | Some r \<Rightarrow> sr_vs r) (re_vs entry))\<rparr>"

definition expand_subgraphs ::
  "(node_id, subgraph_result) dict \<Rightarrow> resolved_entry list \<Rightarrow> resolved_entry list" where
  "expand_subgraphs subgraphs entries = map (expand_entry subgraphs) entries"

text \<open>The border nodes go to both ends, and their predecessors count as two more neighbours.\<close>

definition add_borders :: "layer_graph \<Rightarrow> node_id \<Rightarrow> node_id \<Rightarrow> subgraph_result \<Rightarrow> layout_error + subgraph_result" where
  "add_borders g bl br result =
     (let result = result\<lparr>sr_vs := bl # sr_vs result @ [br]\<rparr>
      in case (option_or (predecessors g bl) [], option_or (predecessors g br) []) of
           (lp # _, rp # _) \<Rightarrow>
             (if node_label g lp = None \<or> node_label g rp = None then Inr result
              else
                (let b = option_or (sr_barycenter result) 0; w = option_or (sr_weight result) 0;
                     sides = Num (of_int (order_or_zero (node_label g lp))) + Num (of_int (order_or_zero (node_label g rp)))
                 in if w + 2 = 0 then Inl DivisionFailed
                    else Inr (result\<lparr>sr_barycenter := Some (over (scaled b w + sides) (w + 2)),
                                     sr_weight := Some (w + 2)\<rparr>)))
         | _ \<Rightarrow> Inr result)"

definition borders_of :: "layer_graph \<Rightarrow> node_id \<Rightarrow> (node_id \<times> node_id) option" where
  "borders_of g v =
     (case node_label g v of
        None \<Rightarrow> None
      | Some l \<Rightarrow>
          (case (gn_border_left_node l, gn_border_right_node l) of
             (Some bl, Some br) \<Rightarrow> Some (bl, br) | _ \<Rightarrow> None))"

definition movable_children :: "layer_graph \<Rightarrow> node_id \<Rightarrow> node_id list" where
  "movable_children g v =
     (case borders_of g v of
        None \<Rightarrow> graph_children g v
      | Some (bl, br) \<Rightarrow> filter (\<lambda>w. w \<noteq> bl \<and> w \<noteq> br) (graph_children g v))"

primrec sort_subgraph ::
  "nat \<Rightarrow> layer_graph \<Rightarrow> layer_graph \<Rightarrow> bool \<Rightarrow> node_id \<Rightarrow> (layout_error + subgraph_result) option" where
  "sort_subgraph 0 g cg bias_right v = None"
| "sort_subgraph (Suc n) g cg bias_right v =
     (case score_subgraphs (sort_subgraph n g cg bias_right) g (barycenter g (movable_children g v)) [] [] of
        None \<Rightarrow> None
      | Some (Inl err) \<Rightarrow> Some (Inl err)
      | Some (Inr (barycenters, subgraphs)) \<Rightarrow>
          (case resolve_conflicts barycenters cg of
             None \<Rightarrow> None
           | Some entries \<Rightarrow>
               (let result = sort_entries (expand_subgraphs subgraphs entries) bias_right
                in case borders_of g v of
                     None \<Rightarrow> Some (Inr result)
                   | Some (bl, br) \<Rightarrow> Some (add_borders g bl br result))))"

section \<open>Constraints for the later ranks\<close>

type_synonym constraint_state = "(node_id, node_id) dict \<times> node_id option \<times> layer_graph"

partial_function (option) constrain_chain ::
  "layer_graph \<Rightarrow> node_id option \<Rightarrow> constraint_state \<Rightarrow> (layout_error + constraint_state) option" where
  "constrain_chain g child st =
     (case child of
        None \<Rightarrow> Some (Inr st)
      | Some c \<Rightarrow>
          (let (prev, root_prev, cg) = st;
               parent = graph_parent g c;
               prev_child = (case parent of Some p \<Rightarrow> dict_get prev p | None \<Rightarrow> root_prev);
               prev = (case parent of Some p \<Rightarrow> dict_set p c prev | None \<Rightarrow> prev);
               root_prev = (case parent of Some p \<Rightarrow> root_prev | None \<Rightarrow> Some c)
           in if prev_child \<noteq> None \<and> prev_child \<noteq> Some c
              then Some (case set_edge cg (the prev_child) c None None of
                           Inl err \<Rightarrow> Inl (GraphFailed err)
                         | Inr cg \<Rightarrow> Inr (prev, root_prev, cg))
              else constrain_chain g parent (prev, root_prev, cg)))"

declare constrain_chain.simps [code]

fun constrain_all ::
  "layer_graph \<Rightarrow> node_id list \<Rightarrow> constraint_state \<Rightarrow> (layout_error + constraint_state) option" where
  "constrain_all g [] st = Some (Inr st)"
| "constrain_all g (v # vs) st =
     (case constrain_chain g (graph_parent g v) st of
        None \<Rightarrow> None
      | Some (Inl err) \<Rightarrow> Some (Inl err)
      | Some (Inr st) \<Rightarrow> constrain_all g vs st)"

definition add_subgraph_constraints ::
  "layer_graph \<Rightarrow> layer_graph \<Rightarrow> node_id list \<Rightarrow> (layout_error + layer_graph) option" where
  "add_subgraph_constraints g cg vs =
     (case constrain_all g vs ([], None, cg) of
        None \<Rightarrow> None
      | Some (Inl err) \<Rightarrow> Some (Inl err)
      | Some (Inr (prev, root_prev, cg)) \<Rightarrow> Some (Inr cg))"

section \<open>The sweeps\<close>

text \<open>Writing the positions of a list as the orders of its nodes; an unknown node is skipped.\<close>

definition stamp_order ::
  "('gl, graph_node, 'e) graph \<Rightarrow> node_id list \<Rightarrow> ('gl, graph_node, 'e) graph" where
  "stamp_order g vs =
     foldl (\<lambda>g (i, v). update_node g v (\<lambda>l. l\<lparr>gn_order := Some (int i)\<rparr>)) g (zip [0..<length vs] vs)"

definition assign_order ::
  "('gl, graph_node, 'e) graph \<Rightarrow> node_id list list \<Rightarrow> ('gl, graph_node, 'e) graph" where
  "assign_order g layering = foldl stamp_order g layering"

definition layer_root :: "layer_graph \<Rightarrow> node_id" where
  "layer_root lg = (case glabel lg of None \<Rightarrow> GRAPH_NODE | Some c \<Rightarrow> option_or (gc_root c) GRAPH_NODE)"

definition sort_layer :: "layer_graph \<Rightarrow> layer_graph \<Rightarrow> bool \<Rightarrow> (layout_error + subgraph_result) option" where
  "sort_layer lg cg bias_right =
     sort_subgraph (Suc (length (graph_nodes lg))) lg cg bias_right (layer_root lg)"

type_synonym 'gl sweep_state = "('gl, graph_node, graph_edge) graph \<times> layer_graph \<times> nat"

definition sweep_rank ::
  "graph_relationship \<Rightarrow> bool \<Rightarrow> int \<Rightarrow> 'gl sweep_state \<Rightarrow> (layout_error + 'gl sweep_state) option" where
  "sweep_rank rel bias_right rank st =
     (let (g, cg, uid) = st in
      case build_layer_graph g rank rel uid of
        None \<Rightarrow> None
      | Some (Inl err) \<Rightarrow> Some (Inl err)
      | Some (Inr (lg, uid)) \<Rightarrow>
          (case sort_layer lg cg bias_right of
             None \<Rightarrow> None
           | Some (Inl err) \<Rightarrow> Some (Inl err)
           | Some (Inr result) \<Rightarrow>
               (let g = stamp_order g (sr_vs result) in
                case add_subgraph_constraints lg cg (sr_vs result) of
                  None \<Rightarrow> None
                | Some (Inl err) \<Rightarrow> Some (Inl err)
                | Some (Inr cg) \<Rightarrow> Some (Inr (g, cg, uid)))))"

fun sweep_ranks ::
  "graph_relationship \<Rightarrow> bool \<Rightarrow> int list \<Rightarrow> 'gl sweep_state \<Rightarrow> (layout_error + 'gl sweep_state) option" where
  "sweep_ranks rel bias_right [] st = Some (Inr st)"
| "sweep_ranks rel bias_right (rank # ranks) st =
     (case sweep_rank rel bias_right rank st of
        None \<Rightarrow> None
      | Some (Inl err) \<Rightarrow> Some (Inl err)
      | Some (Inr st) \<Rightarrow> sweep_ranks rel bias_right ranks st)"

definition sweep_layer_graphs ::
  "('gl, graph_node, graph_edge) graph \<Rightarrow> int list \<Rightarrow> graph_relationship \<Rightarrow> bool \<Rightarrow> nat \<Rightarrow>
   (layout_error + ('gl, graph_node, graph_edge) graph \<times> nat) option" where
  "sweep_layer_graphs g ranks rel bias_right uid =
     (case sweep_ranks rel bias_right ranks (g, default_layer_graph (Some False) default_graph_config, uid) of
        None \<Rightarrow> None
      | Some (Inl err) \<Rightarrow> Some (Inl err)
      | Some (Inr (g, cg, uid)) \<Rightarrow> Some (Inr (g, uid)))"

section \<open>The search for the best layering\<close>

record 'gl order_state =
  os_graph :: "('gl, graph_node, graph_edge) graph"
  os_uid :: nat
  os_best :: "node_id list list"
  os_best_cc :: rat
  os_iteration :: nat
  os_last_best :: nat

definition down_ranks :: "('gl, graph_node, 'e) graph \<Rightarrow> int list" where
  "down_ranks g = [1..max_rank g]"

definition up_ranks :: "('gl, graph_node, 'e) graph \<Rightarrow> int list" where
  "up_ranks g = rev [0..max_rank g - 1]"

text \<open>One turn of the loop, with the rank lists that were computed before it.\<close>

definition order_turn ::
  "int list \<Rightarrow> int list \<Rightarrow> 'gl order_state \<Rightarrow> (layout_error + 'gl order_state) option" where
  "order_turn down up st =
     (let i = os_iteration st; bias_right = (i mod 4 \<ge> 2) in
      case (if i mod 2 \<noteq> 0 then sweep_layer_graphs (os_graph st) down IN_EDGES bias_right (os_uid st)
            else sweep_layer_graphs (os_graph st) up OUT_EDGES bias_right (os_uid st)) of
        None \<Rightarrow> None
      | Some (Inl err) \<Rightarrow> Some (Inl err)
      | Some (Inr (g, uid)) \<Rightarrow>
          (case build_layer_matrix g of
             Inl err \<Rightarrow> Some (Inl err)
           | Inr layering \<Rightarrow>
               (let cc = cross_count g layering;
                    st = st\<lparr>os_graph := g, os_uid := uid\<rparr>;
                    st = (if cc < os_best_cc st
                          then st\<lparr>os_last_best := 0, os_best := layering, os_best_cc := cc\<rparr> else st)
                in Some (Inr (st\<lparr>os_last_best := os_last_best st + 1, os_iteration := i + 1\<rparr>)))))"

partial_function (option) order_loop ::
  "int list \<Rightarrow> int list \<Rightarrow> 'gl order_state \<Rightarrow> (layout_error + 'gl order_state) option" where
  "order_loop down up st =
     (if os_last_best st < 4
      then (case order_turn down up st of
              None \<Rightarrow> None
            | Some (Inl err) \<Rightarrow> Some (Inl err)
            | Some (Inr st) \<Rightarrow> order_loop down up st)
      else Some (Inr st))"

declare order_loop.simps [code]

definition order_start :: "('gl, graph_node, graph_edge) graph \<Rightarrow> nat \<Rightarrow> node_id list list \<Rightarrow> 'gl order_state" where
  "order_start g uid layering =
     (let g = assign_order g layering
      in \<lparr>os_graph = g, os_uid = uid, os_best = layering, os_best_cc = cross_count g layering,
          os_iteration = 0, os_last_best = 0\<rparr>)"

definition order ::
  "('gl, graph_node, graph_edge) graph \<Rightarrow> nat \<Rightarrow>
   (layout_error + ('gl, graph_node, graph_edge) graph \<times> nat) option" where
  "order g uid =
     (case init_order g of
        Inl err \<Rightarrow> Some (Inl err)
      | Inr layering \<Rightarrow>
          (case order_loop (down_ranks g) (up_ranks g) (order_start g uid layering) of
             None \<Rightarrow> None
           | Some (Inl err) \<Rightarrow> Some (Inl err)
           | Some (Inr st) \<Rightarrow> Some (Inr (assign_order (os_graph st) (os_best st), os_uid st))))"

end
