(* ===== verification/Order_Sweep.thy ===== *)
theory Order_Sweep
  imports Order_Layers
begin

text \<open>
  The search for the best layering. A sweep changes nothing in the graph but the orders of the nodes,
  so the crossing count of a layering stays what it was, and the layerings that the loop can meet are
  finitely many: the loop ends, and the layering that it stamps has no more crossings than the first.
\<close>

section \<open>Only orders change\<close>

abbreviation same_but_orders :: "('gl, graph_node, 'e) graph \<Rightarrow> ('gl, graph_node, 'e) graph \<Rightarrow> bool" where
  "same_but_orders \<equiv> same_but (gn_order_update (\<lambda>_. None))"

lemma same_but_foldl:
  assumes "\<And>g x. same_but er g (f g x)"
  shows "same_but er g (foldl f g xs)"
proof (induction xs arbitrary: g)
  case (Cons x xs)
  then show ?case using same_but_trans [OF assms [of g x]] by simp
qed simp

lemma stamp_order_same: "same_but_orders g (stamp_order g vs)"
  unfolding stamp_order_def by (rule same_but_foldl) (auto intro: same_but_update)

lemma assign_order_same: "same_but_orders g (assign_order g layering)"
  unfolding assign_order_def by (rule same_but_foldl) (rule stamp_order_same)

lemma same_but_field:
  assumes "same_but er g g'" and "\<And>l. f (er l) = f l"
  shows "map_option f (node_label g' v) = map_option f (node_label g v)"
proof -
  have "map_option (f \<circ> er) (node_label g' v) = map_option (f \<circ> er) (node_label g v)"
    using assms(1) by (simp add: same_but_def flip: option.map_comp)
  then show ?thesis using assms(2) by (simp add: comp_def)
qed

lemma rank_of_field: "rank_of g v = (case map_option gn_rank (node_label g v) of Some (Some r) \<Rightarrow> r | _ \<Rightarrow> 0)"
  by (simp add: rank_of_def split: option.splits)

lemma set_ranks_field:
  "set_ranks g = concat (map (\<lambda>v. case map_option gn_rank (node_label g v) of Some (Some r) \<Rightarrow> [r] | _ \<Rightarrow> []) (graph_nodes g))"
  unfolding set_ranks_def by (rule arg_cong [of _ _ concat], rule map_cong) (auto split: option.splits)

lemma same_but_orders_rank:
  "same_but_orders g g' \<Longrightarrow> map_option gn_rank (node_label g' v) = map_option gn_rank (node_label g v)"
  by (erule same_but_field) simp

lemma same_but_orders_views:
  assumes "same_but_orders g g'"
  shows "rank_of g' v = rank_of g v" and "max_rank g' = max_rank g" and "cross_count g' layering = cross_count g layering"
proof -
  note v = same_but_views [OF assms]
  note rank = same_but_orders_rank [OF assms]
  then show "rank_of g' v = rank_of g v" by (simp add: rank_of_field)
  show "max_rank g' = max_rank g" by (simp add: max_rank_def set_ranks_field rank v(4))
  have labels: "edge_label_with_obj g' = edge_label_with_obj g" by (rule ext) (rule v(2))
  have "out_pairs g' p x = out_pairs g p x" for p x
    unfolding out_pairs_def graph_out_edges_def v(1) labels ..
  then have "out_pairs g' = out_pairs g" by blast
  then have "two_layer_cross_count g' = two_layer_cross_count g"
    by (intro ext) (simp add: two_layer_cross_count_def south_entries_def)
  then show "cross_count g' layering = cross_count g layering" by (simp add: cross_count_def)
qed

section \<open>The layer matrix\<close>

text \<open>What the sweep starts from: every node has a label, and no rank is negative.\<close>

definition ranked :: "('gl, graph_node, 'e) graph \<Rightarrow> bool" where
  "ranked g = (\<forall>v\<in>set (graph_nodes g). \<exists>l. node_label g v = Some l \<and> (\<forall>r. gn_rank l = Some r \<longrightarrow> 0 \<le> r))"

lemma ranked_field:
  "ranked g \<longleftrightarrow> (\<forall>v\<in>set (graph_nodes g). \<exists>x. map_option gn_rank (node_label g v) = Some x \<and> (\<forall>r. x = Some r \<longrightarrow> 0 \<le> r))"
  unfolding ranked_def by (rule ball_cong) auto

lemma same_but_orders_ranked:
  assumes "same_but_orders g g'"
  shows "ranked g' = ranked g"
  unfolding ranked_field same_but_orders_rank [OF assms] same_but_views(4) [OF assms] ..

lemma ranked_nonnegative: "ranked g \<Longrightarrow> ranks_nonnegative g"
  by (force simp: ranked_def ranks_nonnegative_def rank_of_def split: option.splits)

lemma foldl_max_ge: "(r :: int) \<in> set (x # xs) \<Longrightarrow> r \<le> foldl max x xs"
proof (induction xs arbitrary: x r)
  case (Cons y ys)
  have "max x y \<le> foldl max (max x y) ys" by (rule Cons.IH) simp
  with Cons show ?case by auto
qed simp

lemma max_rank_ge:
  assumes "v \<in> set (graph_nodes g)" and "node_label g v = Some l" and "gn_rank l = Some r"
  shows "r \<le> max_rank g"
proof -
  have "r \<in> set (set_ranks g)" using assms by (force simp: set_ranks_def)
  then show ?thesis using foldl_max_ge [of r] by (cases "set_ranks g") (auto simp: max_rank_def)
qed

definition small_layers :: "nat \<Rightarrow> node_id set \<Rightarrow> (int, node_id) dict list \<Rightarrow> bool" where
  "small_layers k A layers = (\<forall>d\<in>set layers. length d \<le> k \<and> set (dict_values d) \<subseteq> A)"

lemma fill_layers_total:
  assumes "\<forall>v\<in>set vs. \<exists>l. node_label g v = Some l \<and> (\<forall>r. gn_rank l = Some r \<longrightarrow> 0 \<le> r \<and> r < int (length layers))"
    and "small_layers k A layers"
  shows "\<exists>ls. fill_layers g vs layers = Inr ls \<and> length ls = length layers \<and>
    small_layers (k + length vs) (A \<union> set vs) ls"
  using assms
proof (induction vs arbitrary: layers k A)
  case (Cons v vs)
  obtain l where l: "node_label g v = Some l" "\<forall>r. gn_rank l = Some r \<longrightarrow> 0 \<le> r \<and> r < int (length layers)"
    using Cons.prems(1) by auto
  have grow: "small_layers (Suc k) (insert v A) layers" using Cons.prems(2) by (fastforce simp: small_layers_def)
  show ?case
  proof (cases "gn_rank l")
    case None
    with Cons.IH [OF _ grow] Cons.prems(1) l(1) show ?thesis by simp
  next
    case (Some r)
    define i where "i = nat r"
    have i: "py_index (length layers) r = Some i" "i < length layers"
      using l(2) Some by (auto simp: py_index_def i_def)
    let ?d = "dict_set (option_or (gn_order l) 0) v (layers ! i)"
    have "length ?d \<le> Suc k \<and> set (dict_values ?d) \<subseteq> insert v A"
    proof -
      have old: "length (layers ! i) \<le> k" "set (dict_values (layers ! i)) \<subseteq> A"
        using Cons.prems(2) i(2) by (simp_all add: small_layers_def)
      have "set (dict_values (dict_set x v d)) \<subseteq> insert v (set (dict_values d))" for x and d :: "(int, node_id) dict"
        by (induction d) auto
      then have "set (dict_values ?d) \<subseteq> insert v A" using old(2) by (meson insert_mono order_trans)
      moreover have "length ?d \<le> Suc k" using old(1) by (simp add: length_dict_set)
      ultimately show ?thesis by simp
    qed
    then have "small_layers (Suc k) (insert v A) (layers[i := ?d])"
      using grow set_update_subset_insert [of layers i ?d] by (auto simp: small_layers_def)
    from Cons.IH [OF _ this] Cons.prems(1) l(1) i Some show ?thesis by simp
  qed
qed (simp add: small_layers_def)

definition matrices :: "nat \<Rightarrow> node_id set \<Rightarrow> nat \<Rightarrow> node_id list list set" where
  "matrices n A k = {m. set m \<subseteq> {row. set row \<subseteq> A \<and> length row \<le> k} \<and> length m = n}"

lemma finite_matrices: "finite A \<Longrightarrow> finite (matrices n A k)"
  unfolding matrices_def by (intro finite_lists_length_eq finite_lists_length_le)

lemma layer_row_small:
  assumes "length d \<le> k" and "set (dict_values d) \<subseteq> A"
  shows "set (layer_row d) \<subseteq> A \<and> length (layer_row d) \<le> k"
proof -
  have "the (dict_get d x) \<in> set (dict_values d)" if "x \<in> set (dict_keys d)" for x
  proof -
    have "dict_has d x" using that by (simp add: dict_has_iff del: set_map)
    then obtain y where "dict_get d x = Some y" by (auto simp: dict_has_def)
    then show ?thesis by (metis dict_get_Some_mem image_eqI option.sel set_map snd_conv)
  qed
  then have "set (layer_row d) \<subseteq> set (dict_values d)" by (auto simp: layer_row_def)
  with assms show ?thesis by (auto simp: layer_row_def)
qed

lemma build_layer_matrix_total:
  assumes "ranked g"
  shows "\<exists>m. build_layer_matrix g = Inr m \<and>
    m \<in> matrices (nat (max_rank g + 1)) (set (graph_nodes g)) (length (graph_nodes g))"
proof -
  define start where "start = replicate (nat (max_rank g + 1)) ([] :: (int, node_id) dict)"
  have "\<forall>v\<in>set (graph_nodes g). \<exists>l. node_label g v = Some l \<and>
      (\<forall>r. gn_rank l = Some r \<longrightarrow> 0 \<le> r \<and> r < int (length start))"
  proof
    fix v assume "v \<in> set (graph_nodes g)"
    obtain l where l: "node_label g v = Some l" "\<forall>r. gn_rank l = Some r \<longrightarrow> 0 \<le> r"
      using assms \<open>v \<in> set (graph_nodes g)\<close> unfolding ranked_def by blast
    have "r \<le> max_rank g" if "gn_rank l = Some r" for r
      by (rule max_rank_ge [OF \<open>v \<in> set (graph_nodes g)\<close> l(1) that])
    with l show "\<exists>l. node_label g v = Some l \<and> (\<forall>r. gn_rank l = Some r \<longrightarrow> 0 \<le> r \<and> r < int (length start))"
      by (fastforce simp: start_def)
  qed
  moreover have "small_layers 0 {} start" by (simp add: small_layers_def start_def)
  ultimately obtain ls where ls: "fill_layers g (graph_nodes g) start = Inr ls" "length ls = length start"
    "small_layers (0 + length (graph_nodes g)) ({} \<union> set (graph_nodes g)) ls"
    using fill_layers_total by blast
  have "set (layer_row d) \<subseteq> set (graph_nodes g) \<and> length (layer_row d) \<le> length (graph_nodes g)" if "d \<in> set ls" for d
    using ls(3) that by (intro layer_row_small) (auto simp: small_layers_def)
  then show ?thesis using ls(1,2) by (auto simp: build_layer_matrix_def matrices_def start_def)
qed

section \<open>The loop\<close>

definition sweeps_return :: "('gl, graph_node, graph_edge) graph \<Rightarrow> bool" where
  "sweeps_return g0 = (\<forall>g ranks rel bias_right uid. same_but_orders g0 g \<longrightarrow>
     (\<exists>res. sweep_layer_graphs g ranks rel bias_right uid = Some res \<and>
        (case res of Inl err \<Rightarrow> err = DivisionFailed | Inr (g', uid') \<Rightarrow> same_but_orders g g')))"

definition loop_inv :: "('gl, graph_node, graph_edge) graph \<Rightarrow> node_id list list \<Rightarrow> 'gl order_state \<Rightarrow> bool" where
  "loop_inv g0 layers st =
     (same_but_orders g0 (os_graph st) \<and> os_best_cc st = cross_count g0 (os_best st) \<and>
      os_best_cc st \<le> cross_count g0 layers)"

definition counts :: "('gl, graph_node, graph_edge) graph \<Rightarrow> rat set" where
  "counts g = cross_count g ` matrices (nat (max_rank g + 1)) (set (graph_nodes g)) (length (graph_nodes g))"

lemma finite_counts: "finite (counts g)"
  unfolding counts_def by (intro finite_imageI finite_matrices) simp

definition turn_progress :: "('gl, graph_node, graph_edge) graph \<Rightarrow> 'gl order_state \<Rightarrow> 'gl order_state \<Rightarrow> bool" where
  "turn_progress g0 st st' =
     (os_best_cc st' < os_best_cc st \<and> os_best_cc st' \<in> counts g0 \<or>
      os_best_cc st' = os_best_cc st \<and> os_last_best st' = os_last_best st + 1)"

lemma order_turn_ok:
  assumes "ranked g0" and "sweeps_return g0" and inv: "loop_inv g0 layers st"
  shows "\<exists>res. order_turn down up st = Some res \<and>
    (case res of Inl err \<Rightarrow> err = DivisionFailed | Inr st' \<Rightarrow> loop_inv g0 layers st' \<and> turn_progress g0 st st')"
proof -
  define i where "i = os_iteration st"
  define sweep where "sweep = sweep_layer_graphs (os_graph st) (if i mod 2 \<noteq> 0 then down else up)
    (if i mod 2 \<noteq> 0 then IN_EDGES else OUT_EDGES) (i mod 4 \<ge> 2) (os_uid st)"
  have turn: "(if i mod 2 \<noteq> 0 then sweep_layer_graphs (os_graph st) down IN_EDGES (i mod 4 \<ge> 2) (os_uid st)
    else sweep_layer_graphs (os_graph st) up OUT_EDGES (i mod 4 \<ge> 2) (os_uid st)) = sweep"
    by (simp add: sweep_def)
  have same: "same_but_orders g0 (os_graph st)" using inv by (simp add: loop_inv_def)
  then obtain res where res: "sweep = Some res"
    "case res of Inl err \<Rightarrow> err = DivisionFailed | Inr (g', uid') \<Rightarrow> same_but_orders (os_graph st) g'"
    using assms(2) unfolding sweeps_return_def sweep_def by blast
  show ?thesis
  proof (cases res)
    case (Inl err)
    then have "order_turn down up st = Some (Inl err)"
      using res(1) by (simp only: order_turn_def Let_def turn [unfolded i_def]) simp
    with res(2) Inl show ?thesis by simp
  next
    case (Inr r)
    obtain g' uid' where r: "r = (g', uid')" by fastforce
    have same': "same_but_orders g0 g'" using same_but_trans [OF same] res(2) by (simp add: Inr r)
    note views = same_but_orders_views [OF same'] same_but_views(4) [OF same']
    have "ranked g'" using assms(1) same_but_orders_ranked [OF same'] by simp
    then obtain m where m: "build_layer_matrix g' = Inr m"
      "m \<in> matrices (nat (max_rank g0 + 1)) (set (graph_nodes g0)) (length (graph_nodes g0))"
      using build_layer_matrix_total [of g'] by (auto simp: views)
    define st1 where "st1 = st\<lparr>os_graph := g', os_uid := uid'\<rparr>"
    define st2 where "st2 = (if cross_count g0 m < os_best_cc st1
      then st1\<lparr>os_last_best := 0, os_best := m, os_best_cc := cross_count g0 m\<rparr> else st1)"
    define st3 where "st3 = st2\<lparr>os_last_best := os_last_best st2 + 1, os_iteration := i + 1\<rparr>"
    have "order_turn down up st = Some (Inr st3)"
      using res(1) m(1) unfolding order_turn_def Let_def turn [unfolded i_def]
      by (simp add: Inr r views st3_def st2_def st1_def i_def)
    moreover have "loop_inv g0 layers st3"
      using inv same' by (simp add: loop_inv_def st3_def st2_def st1_def)
    moreover have "turn_progress g0 st st3"
      using m(2) by (auto simp: turn_progress_def counts_def st3_def st2_def st1_def)
    ultimately show ?thesis by simp
  qed
qed

lemma progress_decreases:
  assumes "turn_progress g0 st st'" and "os_last_best st < 4"
  shows "(st', st) \<in> measures [\<lambda>st. card {c \<in> counts g0. c < os_best_cc st}, \<lambda>st. 4 - os_last_best st]"
proof (cases "os_best_cc st' < os_best_cc st \<and> os_best_cc st' \<in> counts g0")
  case True
  then have "{c \<in> counts g0. c < os_best_cc st'} \<subset> {c \<in> counts g0. c < os_best_cc st}" by auto
  then have "card {c \<in> counts g0. c < os_best_cc st'} < card {c \<in> counts g0. c < os_best_cc st}"
    by (rule psubset_card_mono [rotated]) (simp add: finite_counts)
  then show ?thesis by simp
next
  case False
  with assms show ?thesis by (auto simp: turn_progress_def)
qed

lemma order_loop_ok:
  assumes "ranked g0" and "sweeps_return g0" and "loop_inv g0 layers st"
  shows "\<exists>res. order_loop down up st = Some res \<and>
    (case res of Inl err \<Rightarrow> err = DivisionFailed | Inr st' \<Rightarrow> loop_inv g0 layers st')"
proof -
  have "wf (measures [\<lambda>st :: 'a order_state. card {c \<in> counts g0. c < os_best_cc st}, \<lambda>st. 4 - os_last_best st])"
    by simp
  then show ?thesis using assms(3)
  proof (induction st rule: wf_induct_rule)
  case (less st)
  show ?case
  proof (cases "os_last_best st < 4")
    case False
    then show ?thesis using less.prems by (subst order_loop.simps) simp
  next
    case True
    obtain res where res: "order_turn down up st = Some res"
      "case res of Inl err \<Rightarrow> err = DivisionFailed | Inr st' \<Rightarrow> loop_inv g0 layers st' \<and> turn_progress g0 st st'"
      using order_turn_ok [OF assms(1,2) less.prems] by blast
    show ?thesis
    proof (cases res)
      case (Inl err)
      then show ?thesis using res True by (subst order_loop.simps) simp
    next
      case (Inr st')
      have "\<exists>res. order_loop down up st' = Some res \<and>
          (case res of Inl err \<Rightarrow> err = DivisionFailed | Inr st' \<Rightarrow> loop_inv g0 layers st')"
        using res(2) progress_decreases [OF _ True] by (intro less.IH) (auto simp: Inr simp del: in_measures)
      then show ?thesis using res(1) True Inr by (subst order_loop.simps) simp
    qed
  qed
  qed
qed

lemma order_ok:
  assumes "ranked g" and "sweeps_return g"
  shows "\<exists>res layers. order g uid = Some res \<and> init_order g = Inr layers \<and>
    (case res of Inl err \<Rightarrow> err = DivisionFailed
     | Inr (g', uid') \<Rightarrow> same_but_orders g g' \<and>
         (\<exists>h best. g' = assign_order h best \<and> same_but_orders g h \<and> cross_count g best \<le> cross_count g layers))"
proof -
  obtain layers where layers: "init_order g = Inr layers"
    using init_order_ok [OF ranked_nonnegative [OF assms(1)]] by blast
  have "loop_inv g layers (order_start g uid layers)"
    by (simp add: loop_inv_def order_start_def Let_def assign_order_same same_but_orders_views(3) [OF assign_order_same])
  from order_loop_ok [OF assms this] obtain res where res:
    "order_loop (down_ranks g) (up_ranks g) (order_start g uid layers) = Some res"
    "case res of Inl err \<Rightarrow> err = DivisionFailed | Inr st' \<Rightarrow> loop_inv g layers st'" by blast
  show ?thesis
  proof (cases res)
    case (Inl err)
    then show ?thesis using res layers by (simp add: order_def)
  next
    case (Inr st)
    have inv: "loop_inv g layers st" using res(2) Inr by simp
    have "order g uid = Some (Inr (assign_order (os_graph st) (os_best st), os_uid st))"
      using res(1) Inr layers by (simp add: order_def)
    moreover have "same_but_orders g (assign_order (os_graph st) (os_best st))"
      using inv same_but_trans [OF _ assign_order_same] by (auto simp: loop_inv_def)
    ultimately show ?thesis using inv layers by (fastforce simp: loop_inv_def)
  qed
qed

end
