(* ===== verification/Order_Levels.thy ===== *)
theory Order_Levels
  imports Order_Sweep
begin

text \<open>
  The graph of one rank is a forest below its fresh root, so the recursion over the levels and the
  walk up the ancestors end, and the sorted sequence has every movable node below the root exactly
  once. A neighbour from another rank gets a default label, without an order: the barycenters of
  the sweep do not see the orders they are meant to average.
\<close>

section \<open>The forest of a layer graph\<close>

definition children_ok :: "('gl, 'n, 'e) graph \<Rightarrow> bool" where
  "children_ok g = (\<forall>p m. dict_get (children_map g) p = Some m \<longrightarrow> dict_ok m)"

lemma children_okD: "children_ok g \<Longrightarrow> dict_get (children_map g) p = Some m \<Longrightarrow> dict_ok m"
  by (simp add: children_ok_def)

lemma children_ok_set_node: "children_ok g \<Longrightarrow> children_ok (set_node g v l)"
  by (auto simp: children_ok_def set_node_def seed_forest_def Let_def dict_simps ohm_new_def
      split: option.splits if_splits)

lemma children_ok_reparent: "children_ok g \<Longrightarrow> children_ok (reparent g v p)"
  using children_ok_set_node [of g v None]
  by (auto simp: children_ok_def reparent_def remove_from_parents_child_list_def Let_def dict_simps ohm_new_def
      split: option.splits if_splits)

lemma children_ok_distinct: "children_ok g \<Longrightarrow> is_compound g \<Longrightarrow> distinct (graph_children g v)"
  by (auto simp: graph_children_def ohm_keys_def children_okD split: option.splits)

text \<open>The forest of a graph is read off three of its tables.\<close>

lemma forest_cong:
  assumes "nodes_map g = nodes_map h" "parent_map g = parent_map h" "children_map g = children_map h"
    "is_compound g = is_compound h"
  shows "forest_ok g = forest_ok h" "children_ok g = children_ok h" "graph_parent g v = graph_parent h v"
    "graph_children g v = graph_children h v"
  using assms by (simp_all add: forest_ok_def children_ok_def graph_parent_def graph_children_def graph_nodes_def)

lemma parent_field:
  "(\<And>m. parent_map (f m) = parent_map g) \<Longrightarrow>
   parent_map (case x of None \<Rightarrow> g | Some m \<Rightarrow> f m) = parent_map g"
  by (simp split: option.split)

lemma link_edge_parents:
  "parent_map (link_edge g v w l n) = parent_map (set_node (set_node g v None) w None)"
  by (simp add: link_edge_def Let_def parent_field)

lemma is_compound_set_node [simp]: "is_compound (set_node g v l) = is_compound g"
  by (simp add: set_node_def seed_forest_def Let_def split: option.splits)

definition forested :: "('gl, 'n, 'e) graph \<Rightarrow> bool" where
  "forested g = (forest_ok g \<and> children_ok g)"

lemma forested_set_node:
  assumes "forested g" and "v \<noteq> GRAPH_NODE"
  shows "forested (set_node g v l) \<and> graph_parent (set_node g v l) u = graph_parent g u"
  using assms by (simp add: forested_def forest_ok_set_node children_ok_set_node graph_parent_set_node)

lemma forested_set_edge:
  assumes "forested g" and "v \<noteq> GRAPH_NODE" and "w \<noteq> GRAPH_NODE"
  shows "\<exists>g'. set_edge g v w l None = Inr g' \<and> forested g' \<and> (\<forall>u. graph_parent g' u = graph_parent g u) \<and>
    glabel g' = glabel g"
proof (cases "dict_has (edge_labels g) (edge_args_to_id (is_directed g) v w None)")
  case True
  then show ?thesis using assms(1)
    by (cases l) (auto simp: set_edge_def Let_def forested_def forest_ok_def children_ok_def graph_parent_def)
next
  case False
  define h where "h = set_node (set_node g v None) w None"
  have h: "forested h" "\<And>u. graph_parent h u = graph_parent g u"
    using forested_set_node [OF forested_set_node [OF assms(1,2), THEN conjunct1] assms(3)]
      forested_set_node [OF assms(1,2)] by (simp_all add: h_def)
  define g' where "g' = link_edge g v w l None"
  have "nodes_map g' = nodes_map h" "parent_map g' = parent_map h" "children_map g' = children_map h"
    "is_compound g' = is_compound h" "glabel g' = glabel h"
    by (simp_all add: g'_def h_def link_edge_nodes link_edge_parents link_edge_forest)
  with forest_cong [OF this(1-4)] h have "forested g'" "\<forall>u. graph_parent g' u = graph_parent g u" "glabel g' = glabel g"
    by (auto simp: forested_def h_def)
  then show ?thesis using False by (simp add: set_edge_def g'_def)
qed

text \<open>
  While the layer graph is built, exactly the nodes added so far have a parent: their parent in the
  input, or the fresh root.
\<close>

definition layer_parent :: "('gl, 'n, 'e) graph \<Rightarrow> node_id \<Rightarrow> node_id \<Rightarrow> node_id" where
  "layer_parent g top_id v = option_or (graph_parent g v) top_id"

definition hangs :: "('gl, 'n, 'e) graph \<Rightarrow> node_id \<Rightarrow> node_id set \<Rightarrow> layer_graph \<Rightarrow> bool" where
  "hangs g top_id added r =
     (forested r \<and> (\<forall>v. graph_parent r v = (if v \<in> added then Some (layer_parent g top_id v) else None)))"

text \<open>The input of the sweep: a forest with known ends of edges.\<close>

definition sweepable :: "('gl, graph_node, graph_edge) graph \<Rightarrow> bool" where
  "sweepable g = (graph_ok g \<and> forest_ok g \<and> acyclic_parents g \<and> ranked g)"

lemma layer_ancestors:
  assumes "hangs g top_id added r" and "top_id \<notin> added" and "(x, y) \<in> (parent_rel r)\<^sup>+"
  shows "x \<in> added \<and> (y = top_id \<or> (x, y) \<in> (parent_rel g)\<^sup>+)"
  using assms(3)
proof (induction rule: trancl_induct)
  case (base y)
  then show ?case using assms(1)
    by (auto simp: hangs_def layer_parent_def option_or_def split: if_splits option.splits)
next
  case (step y z)
  then have yz: "y \<in> added" "z = layer_parent g top_id y"
    using assms(1) by (auto simp: hangs_def split: if_splits)
  with step.IH assms(2) have "(x, y) \<in> (parent_rel g)\<^sup>+" by auto
  with yz step.IH show ?case
    by (auto simp: layer_parent_def option_or_def intro: trancl_into_trancl split: option.splits)
qed

lemma layer_acyclic:
  assumes "hangs g top_id added r" and "top_id \<notin> added" and "acyclic_parents g"
  shows "acyclic_parents r"
  using layer_ancestors [OF assms(1,2)] assms(2,3) by (fastforce simp: acyclic_def)

lemma hangs_attach:
  assumes h: "hangs g top_id added r" and top: "top_id \<notin> added" "top_id \<noteq> GRAPH_NODE"
    and g: "acyclic_parents g" and v: "v \<notin> added" "v \<noteq> GRAPH_NODE" "v \<noteq> top_id"
    and p: "layer_parent g top_id v \<noteq> GRAPH_NODE"
  shows "\<exists>r'. set_parent (set_node r v (Some l)) v (Some (layer_parent g top_id v)) = Some (Inr r') \<and>
    hangs g top_id (insert v added) r' \<and> glabel r' = glabel r"
proof -
  define p' where "p' = layer_parent g top_id v"
  define r1 where "r1 = set_node r v (Some l)"
  have f: "forested r" and par: "\<And>u. graph_parent r u = (if u \<in> added then Some (layer_parent g top_id u) else None)"
    using h by (simp_all add: hangs_def)
  have h1: "hangs g top_id added r1" using forested_set_node [OF f v(2)] par by (simp add: hangs_def r1_def)
  then have f1: "forested r1" by (simp add: hangs_def)
  have "(p', v) \<notin> (parent_rel r1)\<^sup>+"
  proof
    assume a: "(p', v) \<in> (parent_rel r1)\<^sup>+"
    from layer_ancestors [OF h1 top(1) a] v(3) have b: "p' \<in> added" "(p', v) \<in> (parent_rel g)\<^sup>+" by auto
    with top(1) have "graph_parent g v = Some p'"
      by (auto simp: p'_def layer_parent_def option_or_def split: option.splits)
    with b(2) have "(v, v) \<in> (parent_rel g)\<^sup>+" by (meson parent_rel_iff trancl_into_trancl2)
    with g show False by (simp add: acyclic_def)
  qed
  then have meets: "ancestor_meets r1 v p' = Some False"
    using ancestor_meets_total [OF layer_acyclic [OF h1 top(1) g]] by simp
  define r' where "r' = reparent (set_node r1 p' None) v p'"
  have "is_compound r1" using f1 by (simp add: forested_def forest_ok_def)
  then have "set_parent r1 v (Some p') = Some (Inr r')" by (simp add: set_parent_def meets r'_def)
  moreover have "forest_ok r'" and "\<And>u. graph_parent r' u = (if u = v then Some p' else graph_parent r1 u)"
    using attach_correct [OF _ v(2), of r1 p'] f1 p by (simp_all add: r'_def p'_def forested_def)
  moreover have "children_ok r'"
    using f1 by (simp add: r'_def forested_def children_ok_reparent children_ok_set_node)
  moreover have "glabel r' = glabel r"
    by (simp add: r'_def r1_def reparent_def remove_from_parents_child_list_def Let_def split: option.split)
  moreover have "graph_parent r1 u = graph_parent r u" for u
    using forested_set_node [OF f v(2)] by (simp add: r1_def)
  ultimately show ?thesis using par by (auto simp: hangs_def forested_def p'_def r1_def)
qed

lemma copy_edges_hangs:
  assumes "hangs g top_id added r" and "v \<noteq> GRAPH_NODE" and "\<forall>e\<in>set es. edge_v e \<noteq> GRAPH_NODE \<and> edge_w e \<noteq> GRAPH_NODE"
  shows "\<exists>r'. copy_edges h v es r = Inr r' \<and> hangs g top_id added r' \<and> glabel r' = glabel r"
  using assms
proof (induction es arbitrary: r)
  case (Cons e es)
  define u where "u = (if edge_v e = v then edge_w e else edge_v e)"
  define l where "l = default_graph_edge\<lparr>ge_weight := Some (weight_or_zero (edge_label_with_obj h e) + weight_or_zero (edge_label r u v None))\<rparr>"
  have "u \<noteq> GRAPH_NODE" using Cons.prems(3) by (simp add: u_def)
  then obtain r1 where r1: "set_edge r u v (Some l) None = Inr r1" "forested r1"
    "\<And>x. graph_parent r1 x = graph_parent r x" "glabel r1 = glabel r"
    using forested_set_edge [of r u v "Some l"] Cons.prems(1,2) by (auto simp: hangs_def)
  have "hangs g top_id added r1" using Cons.prems(1) r1 by (simp add: hangs_def)
  from Cons.IH [OF this Cons.prems(2)] Cons.prems(3) r1 show ?case by (simp add: Let_def flip: u_def l_def)
qed simp

section \<open>The graph of a rank is built\<close>

definition layered :: "('gl, graph_node, 'e) graph \<Rightarrow> int \<Rightarrow> node_id \<Rightarrow> bool" where
  "layered g rank v = (case node_label g v of None \<Rightarrow> False | Some l \<Rightarrow> in_layer l rank)"

lemma in_list_ok:
  assumes ok: "graph_ok g"
  shows "set (in_list g v) \<subseteq> {e \<in> set (graph_edges g). edge_w e = v}"
proof (cases "dict_get (in_map g) v")
  case None
  then show ?thesis by (simp add: in_list_def graph_in_edges_def)
next
  case (Some m)
  have "incidence_ok (in_map g) edge_w (edge_objs g)" "dict_ok (edge_objs g)"
    using ok by (simp_all add: graph_ok_def edges_ok_def)
  from incidence_values [OF this Some] Some show ?thesis
    by (simp add: in_list_def graph_in_edges_def graph_edges_def ohm_values_def)
qed

lemma relationship_edges_known:
  assumes "graph_ok g" and "e \<in> set (relationship_edges g rel v)"
  shows "e \<in> set (graph_edges g)"
  using assms(2) out_list_ok [OF assms(1)] in_list_ok [OF assms(1)]
  by (cases rel) (auto simp: relationship_edges_def)

lemma known_not_GRAPH_NODE: "forest_ok g \<Longrightarrow> v \<in> set (graph_nodes g) \<Longrightarrow> v \<noteq> GRAPH_NODE"
  by (auto simp: forest_ok_iff graph_nodes_iff)

lemma layer_parent_known:
  assumes "forest_ok g" and "top_id \<noteq> GRAPH_NODE"
  shows "layer_parent g top_id v \<noteq> GRAPH_NODE"
  using assms by (auto simp: layer_parent_def graph_parent_iff option_or_def split: option.splits)

lemma add_layer_node_hangs:
  assumes g: "sweepable g" and h: "hangs g top_id added r" and top: "top_id \<notin> set (graph_nodes g)" "top_id \<noteq> GRAPH_NODE"
    and added: "added \<subseteq> set (graph_nodes g)" and v: "v \<in> set (graph_nodes g)" "v \<notin> added"
  shows "\<exists>r'. add_layer_node g rank rel top_id v r = Some (Inr r') \<and>
    hangs g top_id (if layered g rank v then insert v added else added) r' \<and> glabel r' = glabel r"
proof -
  have ok: "graph_ok g" "forest_ok g" "acyclic_parents g" and l: "\<exists>l. node_label g v = Some l"
    using g v(1) by (auto simp: sweepable_def ranked_def)
  then obtain l where l: "node_label g v = Some l" by blast
  show ?thesis
  proof (cases "in_layer l rank")
    case False
    with l h show ?thesis by (auto simp: add_layer_node_def layered_def)
  next
    case True
    note vg = known_not_GRAPH_NODE [OF ok(2) v(1)]
    obtain r1 where r1: "set_parent (set_node r v (Some l)) v (Some (layer_parent g top_id v)) = Some (Inr r1)"
      "hangs g top_id (insert v added) r1" "glabel r1 = glabel r"
      using hangs_attach [OF h _ top(2) ok(3) v(2) vg _ layer_parent_known [OF ok(2) top(2)], of l] top(1) added v(1) by blast
    have ends: "\<forall>e\<in>set (relationship_edges g rel v). edge_v e \<noteq> GRAPH_NODE \<and> edge_w e \<noteq> GRAPH_NODE"
      using relationship_edges_known [OF ok(1)] edge_ends_known [OF ok(1)] known_not_GRAPH_NODE [OF ok(2)] by blast
    obtain r2 where r2: "copy_edges g v (relationship_edges g rel v) r1 = Inr r2"
      "hangs g top_id (insert v added) r2" "glabel r2 = glabel r1"
      using copy_edges_hangs [OF r1(2) vg ends] by blast
    define r3 where "r3 = (if gn_min_rank l = None then r2 else set_node r2 v (Some (border_label l rank)))"
    have "hangs g top_id (insert v added) r3 \<and> glabel r3 = glabel r2"
      using r2(2) forested_set_node [OF _ vg, of r2] by (auto simp: r3_def hangs_def)
    moreover have "add_layer_node g rank rel top_id v r = Some (Inr r3)"
      using l True r1(1) r2(1) by (simp add: add_layer_node_def layer_parent_def r3_def)
    ultimately show ?thesis using l True r1(3) r2(3) by (simp add: layered_def)
  qed
qed

lemma add_layer_nodes_hangs:
  assumes g: "sweepable g" and top: "top_id \<notin> set (graph_nodes g)" "top_id \<noteq> GRAPH_NODE"
    and "hangs g top_id added r" and "added \<subseteq> set (graph_nodes g)"
    and "set vs \<subseteq> set (graph_nodes g)" and "distinct vs" and "set vs \<inter> added = {}"
  shows "\<exists>r'. add_layer_nodes g rank rel top_id vs r = Some (Inr r') \<and>
    hangs g top_id (added \<union> {v \<in> set vs. layered g rank v}) r' \<and> glabel r' = glabel r"
  using assms(4-)
proof (induction vs arbitrary: added r)
  case (Cons v vs)
  define added' where "added' = (if layered g rank v then insert v added else added)"
  obtain r1 where r1: "add_layer_node g rank rel top_id v r = Some (Inr r1)" "hangs g top_id added' r1" "glabel r1 = glabel r"
    using add_layer_node_hangs [OF g Cons.prems(1) top Cons.prems(2), where v = v and rank = rank and rel = rel] Cons.prems(3,5)
    unfolding added'_def by fastforce
  have eq: "added' \<union> {u \<in> set vs. layered g rank u} = added \<union> {u \<in> set (v # vs). layered g rank u}"
    by (auto simp: added'_def)
  have "added' \<subseteq> set (graph_nodes g)" "set vs \<inter> added' = {}" using Cons.prems by (auto simp: added'_def)
  with Cons.IH [OF r1(2)] Cons.prems(3,4) r1 show ?case unfolding eq [symmetric] by simp
qed simp

lemma default_layer_hangs:
  "hangs g top_id {} (default_layer_graph m c)" "glabel (default_layer_graph m c) = Some c"
  by (auto simp: hangs_def forested_def default_layer_graph_def new_graph_def option_flags_def forest_ok_iff
      children_ok_def same_keys_def graph_parent_def ohm_new_def dict_has_def split: if_splits)

lemma build_layer_graph_total:
  assumes g: "sweepable g"
  shows "\<exists>lg uid'. build_layer_graph g rank rel uid = Some (Inr (lg, uid')) \<and>
    hangs g (layer_root lg) {v \<in> set (graph_nodes g). layered g rank v} lg \<and>
    layer_root lg \<notin> set (graph_nodes g) \<and> layer_root lg \<noteq> GRAPH_NODE"
proof -
  obtain top_id uid' where f: "create_root_node g uid = (top_id, uid')" by fastforce
  have top: "top_id \<notin> set (graph_nodes g)" "top_id \<noteq> GRAPH_NODE"
    using fresh_id_spec [of g "''_root''" uid] f
    by (auto simp: create_root_node_def dummy_name_def GRAPH_NODE_def has_node_def graph_nodes_iff)
  have d: "distinct (graph_nodes g)" using g by (simp add: sweepable_def graph_ok_def graph_nodes_def ohm_keys_def)
  define c where "c = default_graph_config\<lparr>gc_root := Some top_id\<rparr>"
  obtain r where r: "add_layer_nodes g rank rel top_id (graph_nodes g) (default_layer_graph None c) = Some (Inr r)"
    "hangs g top_id ({} \<union> {v \<in> set (graph_nodes g). layered g rank v}) r" "glabel r = Some c"
    using add_layer_nodes_hangs [OF g top default_layer_hangs(1) [where m = None and c = c] _ _ d, where rank = rank and rel = rel]
    by (auto simp: default_layer_hangs(2))
  have "layer_root r = top_id" by (simp add: layer_root_def r(3) c_def)
  then show ?thesis using r(1,2) f top by (simp add: build_layer_graph_def c_def)
qed

section \<open>Every level is sorted\<close>

text \<open>A layer graph of the sweep: a forest with unrepeated children and no cycle of parents.\<close>

definition layer_forest :: "layer_graph \<Rightarrow> bool" where
  "layer_forest g = (forested g \<and> acyclic_parents g)"

definition below :: "layer_graph \<Rightarrow> node_id \<Rightarrow> node_id set" where
  "below g v = {w. (w, v) \<in> (parent_rel g)\<^sup>+}"

lemma layer_children:
  assumes "layer_forest g" and "v \<noteq> GRAPH_NODE"
  shows "w \<in> set (graph_children g v) \<longleftrightarrow> graph_parent g w = Some v" and "distinct (graph_children g v)"
proof -
  have f: "forest_ok g" "children_ok g" "is_compound g" using assms(1) by (auto simp: layer_forest_def forested_def forest_ok_def)
  show "distinct (graph_children g v)" using children_ok_distinct f by blast
  show "w \<in> set (graph_children g v) \<longleftrightarrow> graph_parent g w = Some v"
  proof (cases "dict_get (children_map g) v")
    case (Some m)
    then have "w \<in> set (graph_children g v) \<longleftrightarrow> dict_has m w"
      using f(3) by (simp add: graph_children_def ohm_keys_def dict_has_iff del: set_map)
    with Some show ?thesis using f(1) assms(2) by (auto simp: graph_parent_iff forest_ok_iff)
  next
    case None
    then have "\<not> dict_has (children_map g) v" by (simp add: not_dict_has)
    then have "\<not> dict_has (nodes_map g) v" using f(1) by (simp add: forest_ok_iff)
    then have "dict_get (parent_map g) w \<noteq> Some v" using forest_ok_fresh(3) [OF f(1)] assms(2) by blast
    with None f assms(2) show ?thesis by (simp add: graph_children_def graph_parent_iff)
  qed
qed

lemma below_known:
  assumes "layer_forest g"
  shows "below g v \<subseteq> set (graph_nodes g)"
proof
  fix w assume "w \<in> below g v"
  then obtain p where "graph_parent g w = Some p" by (auto simp: below_def dest: tranclD)
  then show "w \<in> set (graph_nodes g)"
    using assms by (auto simp: layer_forest_def forested_def graph_parent_iff forest_ok_iff same_keys_def graph_nodes_iff
        intro: dict_hasI)
qed

lemma below_child:
  assumes "layer_forest g" and "graph_parent g w = Some v"
  shows "card (below g w) < card (below g v)"
proof (rule psubset_card_mono)
  show "finite (below g v)" using below_known [OF assms(1)] by (rule finite_subset) simp
  have "below g w \<subseteq> below g v" using assms(2) by (auto simp: below_def intro: trancl_into_trancl)
  moreover have "w \<in> below g v" using assms(2) by (auto simp: below_def)
  moreover have "w \<notin> below g w" using assms(1) by (auto simp: below_def layer_forest_def acyclic_def)
  ultimately show "below g w \<subset> below g v" by blast
qed

text \<open>
  The vertices that the sorted sequence of a level has to have: the movable children, each compound
  one replaced by the vertices of its own level, and the border nodes of the level.
\<close>

definition border_nodes :: "layer_graph \<Rightarrow> node_id \<Rightarrow> node_id multiset" where
  "border_nodes g v = (case borders_of g v of None \<Rightarrow> {#} | Some (bl, br) \<Rightarrow> {#bl, br#})"

primrec level_vertices :: "nat \<Rightarrow> layer_graph \<Rightarrow> node_id \<Rightarrow> node_id multiset" where
  "level_vertices 0 g v = {#}"
| "level_vertices (Suc n) g v =
     sum_list (map (\<lambda>w. if graph_children g w = [] then {#w#} else level_vertices n g w) (movable_children g v)) + border_nodes g v"

text \<open>The scored entries: compound ones have their own result in the dictionary.\<close>

definition scored_ok ::
  "(node_id \<Rightarrow> (layout_error + subgraph_result) option) \<Rightarrow> layer_graph \<Rightarrow> node_id list \<Rightarrow>
   bary_entry list \<times> (node_id, subgraph_result) dict \<Rightarrow> bool" where
  "scored_ok rec g vs st =
     (map be_v (fst st) = vs \<and>
      (\<forall>v. if v \<in> set vs \<and> graph_children g v \<noteq> []
           then \<exists>r. rec v = Some (Inr r) \<and> dict_get (snd st) v = Some r
           else dict_get (snd st) v = None))"

lemma scored_ok_plain:
  "scored_ok rec g vs (bs, subs) \<Longrightarrow> graph_children g (be_v e) = [] \<Longrightarrow> scored_ok rec g (vs @ [be_v e]) (bs @ [e], subs)"
  unfolding scored_ok_def fst_conv snd_conv by (auto split: if_splits)

lemma scored_ok_compound:
  "scored_ok rec g vs (bs, subs) \<Longrightarrow> graph_children g (be_v e) \<noteq> [] \<Longrightarrow> rec (be_v e) = Some (Inr r) \<Longrightarrow>
   scored_ok rec g (vs @ [be_v e]) (bs @ [e], dict_set (be_v e) r subs)"
  unfolding scored_ok_def fst_conv snd_conv by (auto simp: dict_simps split: if_splits)

lemma score_subgraphs_spec:
  assumes "\<forall>e\<in>set es. graph_children g (be_v e) \<noteq> [] \<longrightarrow>
      (\<exists>res. rec (be_v e) = Some res \<and> (\<forall>err. res = Inl err \<longrightarrow> err = DivisionFailed))"
    and "scored_ok rec g vs (scored, subs)"
  shows "score_subgraphs rec g es scored subs = Some (Inl DivisionFailed) \<or>
    (\<exists>st. score_subgraphs rec g es scored subs = Some (Inr st) \<and> scored_ok rec g (vs @ map be_v es) st)"
  using assms
proof (induction es arbitrary: scored subs vs)
  case (Cons e es)
  have rest: "\<forall>e\<in>set es. graph_children g (be_v e) \<noteq> [] \<longrightarrow>
      (\<exists>res. rec (be_v e) = Some res \<and> (\<forall>err. res = Inl err \<longrightarrow> err = DivisionFailed))"
    using Cons.prems(1) by simp
  show ?case
  proof (cases "graph_children g (be_v e) = []")
    case True
    from Cons.IH [OF rest scored_ok_plain [OF Cons.prems(2) True]] True show ?thesis by simp
  next
    case False
    then obtain res where res: "rec (be_v e) = Some res" "\<forall>err. res = Inl err \<longrightarrow> err = DivisionFailed"
      using Cons.prems(1) by auto
    show ?thesis
    proof (cases res)
      case (Inl err)
      with False res show ?thesis by simp
    next
      case (Inr result)
      define merged where "merged = (if sr_barycenter result = None then Inr e else merge_barycenters e result)"
      show ?thesis
      proof (cases merged)
        case err: (Inl err)
        then have "err = DivisionFailed"
          by (auto simp: merged_def merge_barycenters_def split: if_splits option.splits)
        with False res Inr err show ?thesis by (simp flip: merged_def)
      next
        case m: (Inr e')
        then have v: "be_v e' = be_v e"
          by (auto simp: merged_def merge_barycenters_def split: if_splits option.splits)
        have "scored_ok rec g (vs @ [be_v e]) (scored @ [e'], dict_set (be_v e) result subs)"
          using scored_ok_compound [OF Cons.prems(2), of e' result] False res(1) Inr v by simp
        from Cons.IH [OF rest this] False res(1) Inr m v show ?thesis by (simp flip: merged_def)
      qed
    qed
  qed
qed simp

text \<open>Expanding subgraphs keeps the slots, as no subgraph is empty.\<close>

definition expansion :: "(node_id, subgraph_result) dict \<Rightarrow> node_id \<Rightarrow> node_id list" where
  "expansion subs w = (case dict_get subs w of None \<Rightarrow> [w] | Some r \<Rightarrow> sr_vs r)"

lemma expand_entry_fields:
  "re_vs (expand_entry subs e) = concat (map (expansion subs) (re_vs e))" "re_i (expand_entry subs e) = re_i e"
  "re_barycenter (expand_entry subs e) = re_barycenter e"
  by (simp_all add: expand_entry_def expansion_def [abs_def])

lemma slotted_expand:
  assumes "slotted es" and "\<And>w. expansion subs w \<noteq> []"
  shows "slotted (expand_subgraphs subs es)"
proof -
  have len: "length (re_vs e) \<le> length (re_vs (expand_entry subs e))" for e
  proof -
    have "length ws \<le> length (concat (map (expansion subs) ws))" for ws
    proof (induction ws)
      case (Cons w ws)
      from Cons assms(2) [of w] show ?case by (cases "expansion subs w") auto
    qed simp
    then show ?thesis by (simp add: expand_entry_fields)
  qed
  have total: "total_length es' \<le> total_length (map (expand_entry subs) es')" for es'
    by (induction es') (simp_all add: add_le_mono len)
  have f: "filter (\<lambda>e. P (re_barycenter e)) (map (expand_entry subs) es') = map (expand_entry subs) (filter (\<lambda>e. P (re_barycenter e)) es')" for P es'
    by (simp add: filter_map comp_def expand_entry_fields)
  define sortable where "sortable = filter (\<lambda>e. re_barycenter e \<noteq> None) es"
  define unsortable where "unsortable = filter (\<lambda>e. re_barycenter e = None) es"
  have "re_i e \<le> total_length (map (expand_entry subs) sortable) + length (filter (\<lambda>u. re_i u < re_i e) unsortable)"
    if "e \<in> set unsortable" for e
  proof -
    have "re_i e \<le> total_length sortable + length (filter (\<lambda>u. re_i u < re_i e) unsortable)"
      using assms(1) that by (simp add: slotted_def Let_def list_all_iff sortable_def unsortable_def)
    with total [of sortable] show ?thesis by linarith
  qed
  then show ?thesis
    unfolding slotted_def Let_def list_all_iff expand_subgraphs_def f [of "\<lambda>b. b \<noteq> None"] f [of "\<lambda>b. b = None"]
      sortable_def [symmetric] unsortable_def [symmetric]
    by (simp add: filter_map comp_def expand_entry_fields)
qed

lemma mset_expand:
  assumes "mset (concat (map re_vs rs)) = mset ws"
  shows "mset (concat (map re_vs (expand_subgraphs subs rs))) = sum_list (map (\<lambda>w. mset (expansion subs w)) ws)"
proof -
  have "concat (map re_vs (expand_subgraphs subs rs)) = concat (map (expansion subs) (concat (map re_vs rs)))"
    unfolding expand_subgraphs_def by (induction rs) (simp_all add: expand_entry_fields)
  also have "mset \<dots> = mset (concat (map (expansion subs) ws))"
    using assms by (intro mset_concat_cong) (metis mset_map)
  also have "\<dots> = sum_list (map (\<lambda>w. mset (expansion subs w)) ws)" by (induction ws) simp_all
  finally show ?thesis .
qed

lemma add_borders_spec:
  "add_borders g bl br result = Inl DivisionFailed \<or>
   (\<exists>r. add_borders g bl br result = Inr r \<and> sr_vs r = bl # sr_vs result @ [br])"
  by (auto simp: add_borders_def Let_def split: list.splits)

lemma movable_subset: "set (movable_children g v) \<subseteq> set (graph_children g v)"
  by (auto simp: movable_children_def split: option.splits)

lemma distinct_movable: "layer_forest g \<Longrightarrow> v \<noteq> GRAPH_NODE \<Longrightarrow> distinct (movable_children g v)"
  using layer_children(2) [of g v] by (auto simp: movable_children_def split: option.splits)

lemma child_facts:
  assumes "layer_forest g" and "v \<noteq> GRAPH_NODE" and "w \<in> set (movable_children g v)"
  shows "w \<noteq> GRAPH_NODE" and "card (below g w) < card (below g v)"
proof -
  have p: "graph_parent g w = Some v" using layer_children(1) [OF assms(1,2)] movable_subset assms(3) by blast
  then show "card (below g w) < card (below g v)" by (rule below_child [OF assms(1)])
  have "w \<in> below g v" using p by (auto simp: below_def)
  then show "w \<noteq> GRAPH_NODE"
    using below_known [OF assms(1)] known_not_GRAPH_NODE [of g] assms(1) by (auto simp: layer_forest_def forested_def)
qed

lemma level_nonempty:
  assumes "layer_forest g" and "v \<noteq> GRAPH_NODE" and "card (below g v) \<le> n" and "graph_children g v \<noteq> []"
  shows "level_vertices (Suc n) g v \<noteq> {#}"
  using assms(2-)
proof (induction n arbitrary: v)
  case 0
  obtain w where "w \<in> set (graph_children g v)" using 0(3) by (cases "graph_children g v") auto
  then have "(w, v) \<in> parent_rel g" using layer_children(1) [OF assms(1) 0(1)] by simp
  then have "below g v \<noteq> {}" unfolding below_def by blast
  moreover have "finite (below g v)" using below_known [OF assms(1)] by (rule finite_subset) simp
  ultimately show ?case using 0(2) by simp
next
  case (Suc n)
  show ?case
  proof (cases "borders_of g v")
    case None
    then have m: "movable_children g v = graph_children g v" by (simp add: movable_children_def)
    then obtain w ws where w: "movable_children g v = w # ws" using Suc.prems(3) by (cases "graph_children g v") auto
    note c = child_facts [OF assms(1) Suc.prems(1), of w, simplified w]
    have "(if graph_children g w = [] then {#w#} else level_vertices (Suc n) g w) \<noteq> {#}"
      using Suc.IH [of w] c Suc.prems(2) by (auto simp del: level_vertices.simps)
    then show ?thesis by (subst level_vertices.simps) (simp add: w del: level_vertices.simps)
  next
    case (Some b)
    then show ?thesis by (cases b) (simp add: border_nodes_def)
  qed
qed

lemma be_v_barycenter [simp]: "be_v (barycenter_of g v) = v"
  by (simp add: barycenter_of_def Let_def split: prod.split)

lemma sort_subgraph_level:
  assumes g: "layer_forest g" and "v \<noteq> GRAPH_NODE" and "card (below g v) \<le> n"
  shows "sort_subgraph (Suc n) g cg b v = Some (Inl DivisionFailed) \<or>
    (\<exists>r. sort_subgraph (Suc n) g cg b v = Some (Inr r) \<and>
      (acyclic (edge_rel cg) \<longrightarrow> mset (sr_vs r) = level_vertices (Suc n) g v))"
  using assms(2-)
proof (induction n arbitrary: v rule: less_induct)
  case (less n)
  define es where "es = barycenter g (movable_children g v)"
  have es: "map be_v es = movable_children g v"
    by (simp add: es_def barycenter_def comp_def)
  have in_es: "be_v e \<in> set (movable_children g v)" if "e \<in> set es" for e using that es by (metis image_eqI set_map)
  define rec where "rec = sort_subgraph n g cg b"
  have child: "rec w = Some (Inl DivisionFailed) \<or>
      (\<exists>r. rec w = Some (Inr r) \<and> (acyclic (edge_rel cg) \<longrightarrow> mset (sr_vs r) = level_vertices n g w))"
    if w: "w \<in> set (movable_children g v)" for w
  proof -
    note c = child_facts [OF g less.prems(1) w]
    then obtain n' where n': "n = Suc n'" using less.prems(2) by (cases n) auto
    show ?thesis unfolding rec_def n' using c less.prems(2) n' by (intro less.IH) auto
  qed
  have d: "distinct (map be_v es)" unfolding es by (rule distinct_movable [OF g less.prems(1)])
  have "\<forall>e\<in>set es. graph_children g (be_v e) \<noteq> [] \<longrightarrow>
      (\<exists>res. rec (be_v e) = Some res \<and> (\<forall>err. res = Inl err \<longrightarrow> err = DivisionFailed))"
    using child in_es by fastforce
  from score_subgraphs_spec [where rec = rec and vs = "[]" and scored = "[]" and subs = "[]", OF this]
  consider (failed) "score_subgraphs rec g es [] [] = Some (Inl DivisionFailed)"
    | (scored) bs subs where "score_subgraphs rec g es [] [] = Some (Inr (bs, subs))"
      "scored_ok rec g (movable_children g v) (bs, subs)"
    by (fastforce simp: scored_ok_def es)
  then show ?case
  proof cases
    case failed
    then show ?thesis by (simp add: rec_def es_def)
  next
    case scored
    have bs: "map be_v bs = movable_children g v" using scored(2) by (simp add: scored_ok_def)
    obtain rs where rs: "resolve_conflicts bs cg = Some rs"
      using resolve_conflicts_run [of bs cg] d es bs by metis
    define result where "result = sort_entries (expand_subgraphs subs rs) b"
    have run: "sort_subgraph (Suc n) g cg b v =
        (case borders_of g v of None \<Rightarrow> Some (Inr result) | Some (bl, br) \<Rightarrow> Some (add_borders g bl br result))"
      using scored(1) rs unfolding result_def by (simp add: rec_def es_def Let_def)
    have inner: "mset (sr_vs result) = sum_list (map (\<lambda>w. if graph_children g w = [] then {#w#} else level_vertices n g w) (movable_children g v))"
      if acyc: "acyclic (edge_rel cg)"
    proof -
      have exp: "mset (expansion subs w) = (if graph_children g w = [] then {#w#} else level_vertices n g w)"
        if w: "w \<in> set (movable_children g v)" for w
      proof (cases "graph_children g w = []")
        case True
        then have "dict_get subs w = None" using conjunct2 [OF scored(2) [unfolded scored_ok_def], rule_format, of w] by simp
        with True show ?thesis by (simp add: expansion_def)
      next
        case False
        then obtain r where r: "rec w = Some (Inr r)" "dict_get subs w = Some r"
          using conjunct2 [OF scored(2) [unfolded scored_ok_def], rule_format, of w] w by auto
        with child [OF w] acyc False show ?thesis by (simp add: expansion_def)
      qed
      have ne: "expansion subs w \<noteq> []" for w
      proof (cases "w \<in> set (movable_children g v) \<and> graph_children g w \<noteq> []")
        case True
        note c = child_facts [OF g less.prems(1) conjunct1 [OF True]]
        then obtain n' where n': "n = Suc n'" using less.prems(2) by (cases n) auto
        have "level_vertices n g w \<noteq> {#}"
          unfolding n' using c less.prems(2) n' True by (intro level_nonempty [OF g]) auto
        with exp [of w] True show ?thesis by auto
      next
        case False
        then have "dict_get subs w = None" using conjunct2 [OF scored(2) [unfolded scored_ok_def], rule_format, of w] by auto
        then show ?thesis by (simp add: expansion_def)
      qed
      have db: "distinct (map be_v bs)" using d es bs by simp
      obtain rs' where "resolve_conflicts bs cg = Some rs'" "mset (concat (map re_vs rs')) = mset (map be_v bs)" "slotted rs'"
        using resolve_keeps_vertices [OF db acyc] by blast
      with rs bs have k: "mset (concat (map re_vs rs)) = mset (movable_children g v)" "slotted rs" by simp_all
      have "mset (sr_vs result) = sum_list (map (\<lambda>w. mset (expansion subs w)) (movable_children g v))"
        unfolding result_def sort_keeps_vertices [OF slotted_expand [OF k(2) ne]] by (rule mset_expand [OF k(1)])
      also have "map (\<lambda>w. mset (expansion subs w)) (movable_children g v) =
          map (\<lambda>w. if graph_children g w = [] then {#w#} else level_vertices n g w) (movable_children g v)"
        using exp by simp
      finally show ?thesis .
    qed
    show ?thesis
    proof (cases "borders_of g v")
      case None
      with run inner show ?thesis by (simp add: border_nodes_def del: sort_subgraph.simps)
    next
      case (Some p)
      obtain bl br where p: "p = (bl, br)" by fastforce
      with Some run have "sort_subgraph (Suc n) g cg b v = Some (add_borders g bl br result)" by (simp del: sort_subgraph.simps)
      with add_borders_spec [of g bl br result] inner Some p show ?thesis
        by (auto simp: border_nodes_def simp del: sort_subgraph.simps)
    qed
  qed
qed

section \<open>The sweeps return\<close>

lemma same_but_sweepable:
  assumes same: "same_but_orders g g'" and g: "sweepable g"
  shows "sweepable g'"
proof -
  from same have eq: "g' = g\<lparr>nodes_map := nodes_map g'\<rparr>" and
    keys: "dict_keys (nodes_map g') = dict_keys (nodes_map g)" by (simp_all add: same_but_def)
  have has: "dict_has (nodes_map g') v = dict_has (nodes_map g) v" for v by (simp add: dict_has_iff keys del: set_map)
  have "forest_ok (g\<lparr>nodes_map := nodes_map g'\<rparr>)"
    using g unfolding sweepable_def forest_ok_iff same_keys_def by (simp add: has)
  then have "forest_ok g'" using eq by simp
  moreover have "parent_rel g' = parent_rel g" by (auto simp: parent_rel_def same_but_views(6) [OF same])
  moreover have "graph_ok g'" using same_but_ok [OF same] g by (simp add: sweepable_def)
  ultimately show ?thesis using g same_but_orders_ranked [OF same] by (simp add: sweepable_def)
qed

lemma constrain_chain_total:
  assumes "acyclic_parents g"
  shows "\<exists>st'. constrain_chain g child st = Some (Inr st')"
proof -
  have "wf ((parent_rel g)\<inverse>)" using assms by (intro finite_acyclic_wf_converse) simp_all
  then have "\<exists>st'. constrain_chain g (Some c) st = Some (Inr st')" for c
  proof (induction c arbitrary: st rule: wf_induct_rule)
    case (less c)
    obtain prev root_prev cg where st: "st = (prev, root_prev, cg)" by (metis prod_cases3)
    have "\<exists>st'. constrain_chain g (graph_parent g c) st1 = Some (Inr st')" for st1
    proof (cases "graph_parent g c")
      case None
      then show ?thesis by (cases st1) (subst constrain_chain.simps, simp)
    next
      case (Some p)
      then show ?thesis using less.IH [of p] by simp
    qed
    then show ?case
      by (subst constrain_chain.simps) (auto simp: st Let_def set_edge_def split: option.splits)
  qed
  moreover have "constrain_chain g None st = Some (Inr st)" by (subst constrain_chain.simps) simp
  ultimately show ?thesis by (cases child) blast+
qed

lemma constrain_all_total: "acyclic_parents g \<Longrightarrow> \<exists>st'. constrain_all g vs st = Some (Inr st')"
proof (induction vs arbitrary: st)
  case (Cons v vs)
  obtain st1 where "constrain_chain g (graph_parent g v) st = Some (Inr st1)"
    using constrain_chain_total [OF Cons.prems] by blast
  with Cons show ?case by simp
next
  case Nil
  then show ?case by (cases st) simp
qed

lemma layer_forest_build:
  assumes g: "sweepable g" and b: "build_layer_graph g rank rel uid = Some (Inr (lg, uid'))"
  shows "layer_forest lg" and "layer_root lg \<noteq> GRAPH_NODE" and "layer_root lg \<notin> set (graph_nodes g)"
    and "hangs g (layer_root lg) {v \<in> set (graph_nodes g). layered g rank v} lg"
proof -
  obtain lg' uid'' where "build_layer_graph g rank rel uid = Some (Inr (lg', uid''))"
    and h: "hangs g (layer_root lg') {v \<in> set (graph_nodes g). layered g rank v} lg'"
      "layer_root lg' \<notin> set (graph_nodes g)" "layer_root lg' \<noteq> GRAPH_NODE"
    using build_layer_graph_total [OF g] by blast
  with b have [simp]: "lg' = lg" by simp
  show "layer_forest lg" "layer_root lg \<noteq> GRAPH_NODE" "layer_root lg \<notin> set (graph_nodes g)"
    "hangs g (layer_root lg) {v \<in> set (graph_nodes g). layered g rank v} lg"
    using h layer_acyclic [OF h(1)] g by (auto simp: layer_forest_def sweepable_def hangs_def)
qed

lemma sort_layer_total:
  assumes "layer_forest lg" and "layer_root lg \<noteq> GRAPH_NODE"
  shows "sort_layer lg cg b = Some (Inl DivisionFailed) \<or>
    (\<exists>r. sort_layer lg cg b = Some (Inr r) \<and>
      (acyclic (edge_rel cg) \<longrightarrow> mset (sr_vs r) = level_vertices (Suc (length (graph_nodes lg))) lg (layer_root lg)))"
proof -
  have "card (below lg (layer_root lg)) \<le> card (set (graph_nodes lg))"
    by (rule card_mono [OF _ below_known [OF assms(1)]]) simp
  then have "card (below lg (layer_root lg)) \<le> length (graph_nodes lg)" using card_length order_trans by blast
  from sort_subgraph_level [OF assms this] show ?thesis by (simp only: sort_layer_def)
qed

lemma sweep_rank_total:
  assumes "sweepable g"
  shows "sweep_rank rel b rank (g, cg, uid) = Some (Inl DivisionFailed) \<or>
    (\<exists>g' cg' uid'. sweep_rank rel b rank (g, cg, uid) = Some (Inr (g', cg', uid')) \<and> same_but_orders g g')"
proof -
  obtain lg uid' where b: "build_layer_graph g rank rel uid = Some (Inr (lg, uid'))"
    using build_layer_graph_total [OF assms] by blast
  note lg = layer_forest_build [OF assms b]
  from sort_layer_total [OF lg(1,2)] show ?thesis
  proof
    assume "sort_layer lg cg b = Some (Inl DivisionFailed)"
    then show ?thesis using \<open>build_layer_graph g rank rel uid = _\<close> by (simp add: sweep_rank_def)
  next
    assume "\<exists>r. sort_layer lg cg b = Some (Inr r) \<and>
      (acyclic (edge_rel cg) \<longrightarrow> mset (sr_vs r) = level_vertices (Suc (length (graph_nodes lg))) lg (layer_root lg))"
    then obtain r where r: "sort_layer lg cg b = Some (Inr r)" by blast
    obtain prev root_prev cg' where "constrain_all lg (sr_vs r) ([], None, cg) = Some (Inr (prev, root_prev, cg'))"
      using constrain_all_total [of lg "sr_vs r"] lg(1) unfolding layer_forest_def by (metis prod_cases3)
    then have "add_subgraph_constraints lg cg (sr_vs r) = Some (Inr cg')" by (simp add: add_subgraph_constraints_def)
    with b r show ?thesis by (auto simp: sweep_rank_def Let_def stamp_order_same)
  qed
qed

lemma sweep_ranks_total:
  assumes "sweepable g"
  shows "sweep_ranks rel b ranks (g, cg, uid) = Some (Inl DivisionFailed) \<or>
    (\<exists>g' cg' uid'. sweep_ranks rel b ranks (g, cg, uid) = Some (Inr (g', cg', uid')) \<and> same_but_orders g g')"
  using assms
proof (induction ranks arbitrary: g cg uid)
  case (Cons rank ranks)
  from sweep_rank_total [OF Cons.prems, of rel b rank cg uid] show ?case
  proof
    assume "sweep_rank rel b rank (g, cg, uid) = Some (Inl DivisionFailed)"
    then show ?thesis by simp
  next
    assume "\<exists>g' cg' uid'. sweep_rank rel b rank (g, cg, uid) = Some (Inr (g', cg', uid')) \<and> same_but_orders g g'"
    then obtain g1 cg1 uid1 where s: "sweep_rank rel b rank (g, cg, uid) = Some (Inr (g1, cg1, uid1))" "same_but_orders g g1"
      by blast
    from Cons.IH [OF same_but_sweepable [OF s(2) Cons.prems], of cg1 uid1] s same_but_trans [OF s(2)] show ?thesis
      by auto
  qed
qed simp

lemma sweepable_sweeps_return:
  assumes "sweepable g"
  shows "sweeps_return g"
  unfolding sweeps_return_def
proof (intro allI impI)
  fix h ranks rel b uid
  assume "same_but_orders g h"
  then have "sweepable h" using assms same_but_sweepable by blast
  from sweep_ranks_total [OF this, of rel b ranks "default_layer_graph (Some False) default_graph_config" uid]
  show "\<exists>res. sweep_layer_graphs h ranks rel b uid = Some res \<and>
      (case res of Inl err \<Rightarrow> err = DivisionFailed | Inr (g', uid') \<Rightarrow> same_but_orders h g')"
    by (auto simp: sweep_layer_graphs_def)
qed


end
