(* ===== verification/Order_Flat.thy ===== *)
theory Order_Flat
  imports Order_Levels
begin

text \<open>
  Two facts about the sweeps. On a graph without compound nodes a sweep numbers the nodes of each
  rank that it visits from 0 without gaps. And the layer graph gives every neighbour of the rank
  a default label, which has no order, so the barycenters that decide the sequence are all zero (or not
  numbers): the sweep does not look at the positions of the neighbours.
\<close>

section \<open>The labels of a layer graph\<close>

definition quiet :: "('gl, graph_node, 'e) graph \<Rightarrow> int \<Rightarrow> layer_graph \<Rightarrow> bool" where
  "quiet g rank r =
     (default_node_label_fn r = NodeLabelValue None \<and> node_default_factory r = (\<lambda>_. Some default_graph_node) \<and>
      is_directed r \<and>
      (\<forall>x. \<not> layered g rank x \<longrightarrow> node_label r x \<in> {None, Some default_graph_node}) \<and>
      (\<forall>v. \<forall>e\<in>set (in_list r v). \<not> layered g rank (edge_v e)))"

lemma node_label_set_node:
  "node_label (set_node r x l) y =
     (if y = x then (if dict_has (nodes_map r) x then (if l = None then node_label r x else l)
                     else if l = None then default_node_label r x else l)
      else node_label r y)"
  by (auto simp: node_label_def set_node_def Let_def dict_simps split: option.splits)

lemma in_list_set_node: "set (in_list (set_node r x l) v) \<subseteq> set (in_list r v)"
  by (auto simp: in_list_def graph_in_edges_def set_node_def Let_def dict_simps ohm_new_def ohm_values_def option_or_def
      seed_forest_def split: option.splits if_splits)

lemma set_node_defaults:
  "default_node_label_fn (set_node r x l) = default_node_label_fn r"
  "node_default_factory (set_node r x l) = node_default_factory r"
  "is_directed (set_node r x l) = is_directed r"
  by (simp_all add: set_node_def seed_forest_def Let_def split: option.splits)

lemma quiet_set_node:
  assumes q: "quiet g rank r" and "l = None \<or> layered g rank x"
  shows "quiet g rank (set_node r x l)"
proof -
  have "node_label (set_node r x l) y \<in> {None, Some default_graph_node}" if "\<not> layered g rank y" for y
    using assms that by (auto simp: node_label_set_node quiet_def default_node_label_def)
  moreover have "\<forall>v. \<forall>e\<in>set (in_list (set_node r x l) v). \<not> layered g rank (edge_v e)"
    using q in_list_set_node unfolding quiet_def by blast
  ultimately show ?thesis using q by (simp add: quiet_def set_node_defaults)
qed

text \<open>Only these fields matter.\<close>

lemma quiet_cong:
  assumes "default_node_label_fn r' = default_node_label_fn r" "node_default_factory r' = node_default_factory r"
    "is_directed r' = is_directed r" "nodes_map r' = nodes_map r" "in_map r' = in_map r"
  shows "quiet g rank r' = quiet g rank r"
  using assms by (simp add: quiet_def node_label_def in_list_def graph_in_edges_def)

lemma quiet_reparent:
  assumes "quiet g rank r"
  shows "quiet g rank (reparent r v p)"
proof -
  define h where "h = remove_from_parents_child_list (set_node r v None) v"
  have "quiet g rank (set_node r v None)" using assms by (simp add: quiet_set_node)
  then have "quiet g rank h"
    unfolding h_def remove_from_parents_child_list_def
    by (auto split: option.split simp: quiet_cong [of "_\<lparr>children_map := _\<rparr>" "set_node r v None"])
  then show ?thesis
    by (simp add: reparent_def Let_def flip: h_def)
      (subst quiet_cong [of _ h]; simp)
qed

lemma field_frame: "(\<And>m. F (f m) = F g) \<Longrightarrow> F (case x of None \<Rightarrow> g | Some m \<Rightarrow> f m) = F g"
  by (simp split: option.split)

lemmas field_frames = field_frame [of in_map] field_frame [of default_node_label_fn]
  field_frame [of node_default_factory] field_frame [of is_directed] field_frame [of out_map]

lemma link_edge_in_map:
  "in_map (link_edge r u v l n) =
     (let h = set_node (set_node r u None) v None
      in dict_set v (dict_set (edge_args_to_id (is_directed r) u v n) (edge_args_to_obj (is_directed r) u v n)
           (case dict_get (in_map h) v of None \<Rightarrow> ohm_new | Some m \<Rightarrow> m)) (in_map h))"
  "default_node_label_fn (link_edge r u v l n) = default_node_label_fn r"
  "node_default_factory (link_edge r u v l n) = node_default_factory r"
  "is_directed (link_edge r u v l n) = is_directed r"
  by (simp_all add: link_edge_def Let_def set_node_defaults field_frames)

lemma set_values_set_subset: "set (dict_values (dict_set k x d)) \<subseteq> insert x (set (dict_values d))"
  by (induction d) auto

lemma quiet_set_edge:
  assumes q: "quiet g rank r" and u: "\<not> layered g rank u" and e: "set_edge r u v (Some l) None = Inr r'"
  shows "quiet g rank r'"
proof (cases "dict_has (edge_labels r) (edge_args_to_id (is_directed r) u v None)")
  case True
  then have r': "r' = r\<lparr>edge_labels := ohm_put (edge_labels r) (edge_args_to_id (is_directed r) u v None) (Some l)\<rparr>"
    using e by (simp add: set_edge_def Let_def)
  have "quiet g rank r' = quiet g rank r" by (rule quiet_cong) (simp_all add: r')
  with q show ?thesis by simp
next
  case False
  then have r': "r' = link_edge r u v (Some l) None" using e by (simp add: set_edge_def)
  define h where "h = set_node (set_node r u None) v None"
  have qh: "quiet g rank h" using q by (simp add: h_def quiet_set_node)
  have dir: "is_directed r" using q by (simp add: quiet_def)
  define ins where "ins = (case dict_get (in_map h) v of None \<Rightarrow> ohm_new | Some m \<Rightarrow> m)"
  have ins: "dict_values ins = in_list h v"
    by (simp add: ins_def in_list_def graph_in_edges_def ohm_values_def ohm_new_def split: option.split)
  have list: "in_list r' x = (if x = v then dict_values (dict_set (edge_args_to_id True u v None) (edge_args_to_obj True u v None) ins) else in_list h x)" for x
    using dir by (simp add: r' in_list_def graph_in_edges_def link_edge_in_map Let_def dict_simps ohm_values_def flip: h_def ins_def)
  have "\<not> layered g rank (edge_v e)" if e: "e \<in> set (in_list r' x)" for e x
  proof -
    have "e \<in> set (in_list h x) \<or> e = edge_args_to_obj True u v None"
      using e set_values_set_subset [of _ _ ins] unfolding list ins by (auto split: if_splits)
    then show ?thesis using qh u by (auto simp: quiet_def edge_args_to_obj_def)
  qed
  moreover have "node_label r' x = node_label h x" for x by (simp add: r' h_def node_label_def link_edge_nodes)
  ultimately show ?thesis using qh q by (simp add: quiet_def r' link_edge_in_map)
qed

text \<open>Short edges: no edge that the sweep reads stays within the rank.\<close>

definition other_end :: "edge \<Rightarrow> node_id \<Rightarrow> node_id" where
  "other_end e v = (if edge_v e = v then edge_w e else edge_v e)"

definition short_edges :: "('gl, graph_node, 'e) graph \<Rightarrow> int \<Rightarrow> graph_relationship \<Rightarrow> bool" where
  "short_edges g rank rel = (\<forall>v\<in>set (graph_nodes g). layered g rank v \<longrightarrow>
     (\<forall>e\<in>set (relationship_edges g rel v). \<not> layered g rank (other_end e v)))"

lemma quiet_copy_edges:
  "quiet g rank r \<Longrightarrow> \<forall>e\<in>set es. \<not> layered g rank (other_end e v) \<Longrightarrow> copy_edges h v es r = Inr r' \<Longrightarrow> quiet g rank r'"
proof (induction es arbitrary: r)
  case (Cons e es)
  define l where "l = default_graph_edge\<lparr>ge_weight := Some (weight_or_zero (edge_label_with_obj h e) + weight_or_zero (edge_label r (other_end e v) v None))\<rparr>"
  obtain r1 where r1: "set_edge r (other_end e v) v (Some l) None = Inr r1" "copy_edges h v es r1 = Inr r'"
    using Cons.prems(3) by (auto simp: Let_def l_def other_end_def split: sum.splits)
  have "quiet g rank r1" using quiet_set_edge [OF Cons.prems(1) _ r1(1)] Cons.prems(2) by simp
  with Cons.IH r1(2) Cons.prems(2) show ?case by simp
qed simp

lemma quiet_add_layer_node:
  assumes q: "quiet g rank r" and s: "short_edges g rank rel" and v: "v \<in> set (graph_nodes g)"
    and a: "add_layer_node g rank rel top_id v r = Some (Inr r')"
  shows "quiet g rank r'"
proof (cases "layered g rank v")
  case False
  then show ?thesis using q a by (auto simp: layered_def add_layer_node_def split: option.splits if_splits)
next
  case True
  then obtain l where l: "node_label g v = Some l" "in_layer l rank" by (auto simp: layered_def split: option.splits)
  obtain r1 r2 where r: "set_parent (set_node r v (Some l)) v (Some (layer_parent g top_id v)) = Some (Inr r1)"
    "copy_edges g v (relationship_edges g rel v) r1 = Inr r2"
    "r' = (if gn_min_rank l = None then r2 else set_node r2 v (Some (border_label l rank)))"
    using a l by (auto simp: add_layer_node_def layer_parent_def split: option.splits sum.splits if_splits)
  have "quiet g rank (set_node r v (Some l))" using quiet_set_node [OF q] True by blast
  then have "quiet g rank (reparent (set_node (set_node r v (Some l)) p None) v p)" for p
    using quiet_reparent [OF quiet_set_node [OF _ disjI1 [OF refl]]] by blast
  then have "quiet g rank r1" using r(1) by (auto simp: set_parent_def split: if_splits option.splits bool.splits)
  moreover have "\<forall>e\<in>set (relationship_edges g rel v). \<not> layered g rank (other_end e v)"
    using s v True by (simp add: short_edges_def)
  ultimately have "quiet g rank r2" using quiet_copy_edges r(2) by blast
  then show ?thesis unfolding r(3) using quiet_set_node [OF _ disjI2 [OF True]] by simp
qed

lemma quiet_add_layer_nodes:
  "quiet g rank r \<Longrightarrow> short_edges g rank rel \<Longrightarrow> set vs \<subseteq> set (graph_nodes g) \<Longrightarrow>
   add_layer_nodes g rank rel top_id vs r = Some (Inr r') \<Longrightarrow> quiet g rank r'"
proof (induction vs arbitrary: r)
  case (Cons v vs)
  obtain r1 where r1: "add_layer_node g rank rel top_id v r = Some (Inr r1)" "add_layer_nodes g rank rel top_id vs r1 = Some (Inr r')"
    using Cons.prems(4) by (auto split: option.splits sum.splits)
  have "quiet g rank r1" by (rule quiet_add_layer_node [OF Cons.prems(1,2) _ r1(1)]) (use Cons.prems(3) in simp)
  with Cons.IH Cons.prems(2,3) r1(2) show ?case by simp
qed simp

lemma quiet_default: "quiet g rank (default_layer_graph m c)"
  by (simp add: quiet_def default_layer_graph_def new_graph_def option_flags_def node_label_def in_list_def
      graph_in_edges_def ohm_new_def)

lemma quiet_build:
  assumes "build_layer_graph g rank rel uid = Some (Inr (lg, uid'))" and "short_edges g rank rel"
  shows "quiet g rank lg"
proof -
  obtain top_id uid1 where "create_root_node g uid = (top_id, uid1)" by fastforce
  then have "add_layer_nodes g rank rel top_id (graph_nodes g)
      (default_layer_graph None (default_graph_config\<lparr>gc_root := Some top_id\<rparr>)) = Some (Inr lg)"
    using assms(1) by (auto simp: build_layer_graph_def split: option.splits sum.splits)
  then show ?thesis by (rule quiet_add_layer_nodes [OF quiet_default assms(2) order_refl])
qed

section \<open>Barycenters forget the orders\<close>

lemma foldl_sum_zero:
  "\<forall>e\<in>set es. f e = 0 \<Longrightarrow> fst (foldl (\<lambda>(s, t) e. (let w = h e in (s + w * of_int (f e), t + w))) (0 :: rat, t) es) = 0"
  by (induction es arbitrary: t) (simp_all add: Let_def)

lemma quiet_barycenter:
  assumes "quiet g rank lg"
  shows "be_barycenter (barycenter_of lg v) \<in> {None, Some NaN, Some (Num 0)}"
proof (cases "in_list lg v = []")
  case True
  then show ?thesis by (simp add: barycenter_of_def)
next
  case False
  define st where "st = foldl (\<lambda>(s, t) e. (let w = weight_or_zero (edge_label_with_obj lg e)
    in (s + w * of_int (order_or_zero (node_label lg (edge_v e))), t + w))) (0, 0) (in_list lg v)"
  have "order_or_zero (node_label lg (edge_v e)) = 0" if "e \<in> set (in_list lg v)" for e
  proof -
    have "node_label lg (edge_v e) \<in> {None, Some default_graph_node}" using assms that by (simp add: quiet_def)
    then show ?thesis by (auto simp: order_or_zero_def default_graph_node_def)
  qed
  then have "fst st = 0" unfolding st_def by (intro foldl_sum_zero) simp
  moreover have "be_barycenter (barycenter_of lg v) = Some (if snd st = 0 then NaN else Num (fst st / snd st))"
    using False by (simp add: barycenter_of_def Let_def case_prod_unfold flip: st_def) (simp add: st_def Let_def case_prod_unfold)
  ultimately show ?thesis by simp
qed

text \<open>
  C6: Whatever orders the nodes have, a sweep with short edges computes no barycenter but zero (or
  none, or not a number): the neighbours of the rank are copied without their labels.
\<close>

theorem barycenters_forget_orders:
  assumes "sweepable g" and "short_edges g rank rel"
  shows "\<exists>lg uid'. build_layer_graph g rank rel uid = Some (Inr (lg, uid')) \<and>
    (\<forall>v. be_barycenter (barycenter_of lg v) \<in> {None, Some NaN, Some (Num 0)})"
proof -
  obtain lg uid' where b: "build_layer_graph g rank rel uid = Some (Inr (lg, uid'))"
    using build_layer_graph_total [OF assms(1)] by blast
  with quiet_barycenter [OF quiet_build [OF b assms(2)]] show ?thesis by blast
qed

section \<open>Graphs without compound nodes\<close>

definition flat :: "('gl, graph_node, graph_edge) graph \<Rightarrow> bool" where
  "flat g = ((\<forall>v. graph_parent g v = None) \<and>
     (\<forall>v\<in>set (graph_nodes g). \<forall>l. node_label g v = Some l \<longrightarrow> gn_min_rank l = None))"

definition nodes_of_rank :: "('gl, graph_node, 'e) graph \<Rightarrow> int \<Rightarrow> node_id set" where
  "nodes_of_rank g rank = {v \<in> set (graph_nodes g). map_option gn_rank (node_label g v) = Some (Some rank)}"

lemma flat_layered:
  assumes "flat g"
  shows "{v \<in> set (graph_nodes g). layered g rank v} = nodes_of_rank g rank"
proof -
  have "layered g rank v \<longleftrightarrow> map_option gn_rank (node_label g v) = Some (Some rank)" if "v \<in> set (graph_nodes g)" for v
  proof (cases "node_label g v")
    case (Some l)
    then have "gn_min_rank l = None" using assms that by (simp add: flat_def)
    with Some show ?thesis by (simp add: layered_def in_layer_def in_subgraph_rank_def)
  qed (simp add: layered_def)
  then show ?thesis by (auto simp: nodes_of_rank_def)
qed

text \<open>The layer graph of a flat graph is a star.\<close>

lemma flat_layer:
  assumes g: "sweepable g" "flat g" "short_edges g rank rel" and b: "build_layer_graph g rank rel uid = Some (Inr (lg, uid'))"
  defines "tp \<equiv> layer_root lg"
  shows "distinct (movable_children lg tp)" and "set (movable_children lg tp) = nodes_of_rank g rank"
    and "w \<in> nodes_of_rank g rank \<Longrightarrow> graph_children lg w = [] \<and> graph_parent lg w = Some tp"
    and "graph_parent lg tp = None" and "borders_of lg tp = None"
proof -
  note lg = layer_forest_build [OF g(1) b, folded tp_def]
  have par: "graph_parent lg v = (if v \<in> nodes_of_rank g rank then Some tp else None)" for v
    using lg(4) [unfolded flat_layered [OF g(2)]] g(2) by (simp add: hangs_def layer_parent_def flat_def)
  have out: "tp \<notin> nodes_of_rank g rank" using lg(3) by (simp add: nodes_of_rank_def)
  have "\<not> layered g rank tp" using lg(3) node_label_known [of g tp] by (auto simp: layered_def split: option.splits)
  then have "node_label lg tp \<in> {None, Some default_graph_node}"
    using quiet_build [OF b g(3)] by (simp add: quiet_def)
  then show bord: "borders_of lg tp = None" by (auto simp: borders_of_def default_graph_node_def)
  show "distinct (movable_children lg tp)" by (rule distinct_movable [OF lg(1,2)])
  show "set (movable_children lg tp) = nodes_of_rank g rank"
  proof (rule set_eqI)
    fix x
    have "x \<in> set (movable_children lg tp) \<longleftrightarrow> graph_parent lg x = Some tp"
      using layer_children(1) [OF lg(1,2)] by (simp add: movable_children_def bord)
    then show "x \<in> set (movable_children lg tp) \<longleftrightarrow> x \<in> nodes_of_rank g rank" by (simp add: par)
  qed
  show "graph_parent lg tp = None" using par out by simp
  show "graph_children lg w = [] \<and> graph_parent lg w = Some tp" if w: "w \<in> nodes_of_rank g rank"
  proof -
    have "w \<noteq> GRAPH_NODE" using w known_not_GRAPH_NODE [of g] g(1) by (auto simp: nodes_of_rank_def sweepable_def)
    moreover have "w \<noteq> tp" using w out by blast
    ultimately have "x \<notin> set (graph_children lg w)" for x
      unfolding layer_children(1) [OF lg(1) \<open>w \<noteq> GRAPH_NODE\<close>] par by simp
    then have "graph_children lg w = []" by (cases "graph_children lg w") auto
    then show ?thesis using par w by simp
  qed
qed

lemma score_leaves:
  "\<forall>e\<in>set es. graph_children g (be_v e) = [] \<Longrightarrow> score_subgraphs rec g es scored subs = Some (Inr (scored @ es, subs))"
  by (induction es arbitrary: scored) simp_all

lemma sort_layer_flat:
  assumes g: "sweepable g" "flat g" "short_edges g rank rel" and b: "build_layer_graph g rank rel uid = Some (Inr (lg, uid'))"
    and cg: "edge_rel cg = {}"
  shows "\<exists>r. sort_layer lg cg bias = Some (Inr r) \<and> distinct (sr_vs r) \<and> set (sr_vs r) = nodes_of_rank g rank"
proof -
  define tp where "tp = layer_root lg"
  note f = flat_layer [OF g b, folded tp_def]
  define es where "es = barycenter lg (movable_children lg tp)"
  have be: "map be_v es = movable_children lg tp" by (simp add: es_def barycenter_def comp_def)
  have leaves: "\<forall>e\<in>set es. graph_children lg (be_v e) = []"
    using f(2,3) be by (metis image_eqI set_map)
  obtain rs where rs: "resolve_conflicts es cg = Some rs" "mset (concat (map re_vs rs)) = mset (map be_v es)" "slotted rs"
    using resolve_keeps_vertices [of es cg] f(1) be cg by (auto simp: acyclic_def)
  have same: "expand_subgraphs [] rs = rs"
    by (simp add: expand_subgraphs_def expand_entry_def map_idI)
  define r where "r = sort_entries rs bias"
  have "sort_layer lg cg bias = Some (Inr r)"
    using score_leaves [OF leaves] rs(1) same f(5)
    by (simp add: sort_layer_def r_def flip: tp_def es_def)
  moreover have ms: "mset (sr_vs r) = mset (movable_children lg tp)"
    unfolding r_def sort_keeps_vertices [OF rs(3)] rs(2) be ..
  moreover have "distinct (sr_vs r)" using f(1) mset_eq_imp_distinct_iff [OF ms] by simp
  moreover have "set (sr_vs r) = nodes_of_rank g rank" using mset_eq_setD [OF ms] f(2) by simp
  ultimately show ?thesis by blast
qed

lemma constrain_flat:
  assumes "\<forall>v\<in>set vs. graph_parent g v = Some tp" and "graph_parent g tp = None"
    and "root_prev = None \<or> root_prev = Some tp"
  shows "\<exists>rp. constrain_all g vs (prev, root_prev, cg) = Some (Inr (prev, rp, cg))"
  using assms(1,3)
proof (induction vs arbitrary: root_prev)
  case (Cons v vs)
  have "constrain_chain g (Some tp) (prev, root_prev, cg) = Some (Inr (prev, Some tp, cg))"
    using Cons.prems(2) assms(2)
    by (subst constrain_chain.simps) (auto simp: Let_def constrain_chain.simps [of g None])
  with Cons show ?case by simp
qed simp

section \<open>A sweep numbers the nodes of a rank\<close>

definition order_of :: "('gl, graph_node, 'e) graph \<Rightarrow> node_id \<Rightarrow> int option" where
  "order_of g v = (case node_label g v of None \<Rightarrow> None | Some l \<Rightarrow> gn_order l)"

definition numbered :: "('gl, graph_node, 'e) graph \<Rightarrow> int \<Rightarrow> bool" where
  "numbered g rank = (\<exists>vs. distinct vs \<and> set vs = nodes_of_rank g rank \<and>
     (\<forall>i<length vs. order_of g (vs ! i) = Some (int i)))"

lemma order_of_update:
  "order_of (update_node g v (\<lambda>l. l\<lparr>gn_order := Some x\<rparr>)) u =
     (if u = v \<and> node_label g v \<noteq> None then Some x else order_of g u)"
  by (auto simp: order_of_def node_label_update split: option.split)

lemma stamp_order_snoc:
  "stamp_order g (vs @ [v]) = update_node (stamp_order g vs) v (\<lambda>l. l\<lparr>gn_order := Some (int (length vs))\<rparr>)"
proof -
  have "zip [0..<length (vs @ [v])] (vs @ [v]) = zip [0..<length vs] vs @ [(length vs, v)]" by simp
  then show ?thesis by (simp only: stamp_order_def foldl_append) simp
qed

lemma stamp_order_other: "u \<notin> set vs \<Longrightarrow> order_of (stamp_order g vs) u = order_of g u"
  by (induction vs rule: rev_induct) (simp_all add: stamp_order_snoc order_of_update, simp add: stamp_order_def)

lemma stamp_order_nth:
  assumes "distinct vs" and "\<forall>v\<in>set vs. node_label g v \<noteq> None" and "i < length vs"
  shows "order_of (stamp_order g vs) (vs ! i) = Some (int i)"
  using assms
proof (induction vs rule: rev_induct)
  case (snoc v vs)
  have "node_label (stamp_order g vs) v \<noteq> None"
    unfolding same_but_views(5) [OF stamp_order_same] using snoc.prems(2) by simp
  with snoc show ?case by (auto simp: stamp_order_snoc order_of_update nth_append less_Suc_eq)
qed simp

lemma same_but_flat:
  assumes "same_but_orders g g'"
  shows "flat g' = flat g" and "nodes_of_rank g' rank = nodes_of_rank g rank"
    and "short_edges g' rank rel = short_edges g rank rel"
proof -
  note v = same_but_views [OF assms]
  have f: "map_option f (node_label g' x) = map_option f (node_label g x)" if "\<And>l. f (gn_order_update (\<lambda>_. None) l) = f l" for x and f :: "graph_node \<Rightarrow> 'z"
    using same_but_field [OF assms, of f] that by blast
  have mm: "map_option gn_min_rank (node_label g' x) = map_option gn_min_rank (node_label g x)" for x
    by (rule same_but_field [OF assms]) simp
  have min: "(\<forall>l. node_label g' x = Some l \<longrightarrow> gn_min_rank l = None) \<longleftrightarrow> (\<forall>l. node_label g x = Some l \<longrightarrow> gn_min_rank l = None)" for x
    using mm [of x] by (cases "node_label g x"; cases "node_label g' x") auto
  show "flat g' = flat g" unfolding flat_def v(4,6) min ..
  show "nodes_of_rank g' rank = nodes_of_rank g rank" by (simp only: nodes_of_rank_def v(4) same_but_orders_rank [OF assms])
  have il: "map_option (\<lambda>l. in_layer l rank) (node_label g' x) = map_option (\<lambda>l. in_layer l rank) (node_label g x)" for x
    by (rule same_but_field [OF assms]) (simp add: in_layer_def in_subgraph_rank_def)
  have lay: "layered g' rank x = layered g rank x" for x
    using il [of x] by (cases "node_label g x"; cases "node_label g' x") (auto simp: layered_def)
  have "in_map g' = in_map g" using assms unfolding same_but_def by (metis graph.select_convs(10) graph.surjective graph.update_convs(9))
  then have "relationship_edges g' rel x = relationship_edges g rel x" for x
    by (cases rel) (simp_all add: relationship_edges_def in_list_def out_list_def graph_in_edges_def graph_out_edges_def v(1))
  then show "short_edges g' rank rel = short_edges g rank rel" by (simp add: short_edges_def lay v(4))
qed

lemma sweep_rank_flat:
  assumes g: "sweepable g" "flat g" "short_edges g rank rel" and cg: "edge_rel cg = {}"
  shows "\<exists>vs uid'. sweep_rank rel bias rank (g, cg, uid) = Some (Inr (stamp_order g vs, cg, uid')) \<and>
    distinct vs \<and> set vs = nodes_of_rank g rank"
proof -
  obtain lg uid' where b: "build_layer_graph g rank rel uid = Some (Inr (lg, uid'))"
    using build_layer_graph_total [OF g(1)] by blast
  obtain r where r: "sort_layer lg cg bias = Some (Inr r)" "distinct (sr_vs r)" "set (sr_vs r) = nodes_of_rank g rank"
    using sort_layer_flat [OF g b cg] by blast
  note f = flat_layer [OF g b]
  have "\<forall>v\<in>set (sr_vs r). graph_parent lg v = Some (layer_root lg)" using f(3) r(3) by blast
  from constrain_flat [OF this f(4) disjI1 [OF refl], of "[]" cg]
  have "add_subgraph_constraints lg cg (sr_vs r) = Some (Inr cg)" by (auto simp: add_subgraph_constraints_def)
  with b r show ?thesis by (auto simp: sweep_rank_def Let_def)
qed

lemma numbered_stamp:
  fixes g :: "('gl, graph_node, graph_edge) graph"
  assumes "distinct vs" and "set vs = nodes_of_rank g rank"
  shows "numbered (stamp_order g vs) rank"
    and "rank' \<noteq> rank \<Longrightarrow> numbered g rank' \<Longrightarrow> numbered (stamp_order g vs) rank'"
proof -
  note same = same_but_flat(2) [OF stamp_order_same]
  have "\<forall>v\<in>set vs. node_label g v \<noteq> None" by (auto simp: assms(2) nodes_of_rank_def)
  from stamp_order_nth [OF assms(1) this] assms show "numbered (stamp_order g vs) rank"
    by (auto simp: numbered_def same)
  show "numbered (stamp_order g vs) rank'" if "rank' \<noteq> rank" "numbered g rank'"
  proof -
    from \<open>numbered g rank'\<close> obtain us where us: "distinct us" "set us = nodes_of_rank g rank'" "\<forall>i<length us. order_of g (us ! i) = Some (int i)"
      by (auto simp: numbered_def)
    have "us ! i \<notin> set vs" if i: "i < length us" for i
    proof -
      have "us ! i \<in> nodes_of_rank g rank'" using us(2) nth_mem [OF i] by blast
      with \<open>rank' \<noteq> rank\<close> show ?thesis by (auto simp: assms(2) nodes_of_rank_def)
    qed
    with us show ?thesis by (auto simp: numbered_def same stamp_order_other)
  qed
qed

lemma sweep_ranks_flat:
  assumes "sweepable g" "flat g" "\<forall>rank\<in>set ranks. short_edges g rank rel" "edge_rel cg = {}"
  shows "\<exists>g' uid'. sweep_ranks rel bias ranks (g, cg, uid) = Some (Inr (g', cg, uid')) \<and> same_but_orders g g' \<and>
    (\<forall>rank. rank \<in> set ranks \<or> numbered g rank \<longrightarrow> numbered g' rank)"
  using assms
proof (induction ranks arbitrary: g uid)
  case (Cons rank ranks)
  obtain vs uid1 where s: "sweep_rank rel bias rank (g, cg, uid) = Some (Inr (stamp_order g vs, cg, uid1))"
    "distinct vs" "set vs = nodes_of_rank g rank"
    using sweep_rank_flat [OF Cons.prems(1,2) _ Cons.prems(4)] Cons.prems(3) by fastforce
  define g1 where "g1 = stamp_order g vs"
  have same: "same_but_orders g g1" by (simp add: g1_def stamp_order_same)
  have "sweepable g1" "flat g1" "\<forall>rank\<in>set ranks. short_edges g1 rank rel"
    using Cons.prems(1-3) same_but_sweepable [OF same] same_but_flat [OF same] by auto
  from Cons.IH [OF this Cons.prems(4), of uid1] obtain g' uid' where
    r: "sweep_ranks rel bias ranks (g1, cg, uid1) = Some (Inr (g', cg, uid'))" "same_but_orders g1 g'"
    "\<forall>rank. rank \<in> set ranks \<or> numbered g1 rank \<longrightarrow> numbered g' rank" by blast
  have "numbered g1 rank'" if "rank' = rank \<or> numbered g rank'" for rank'
    using numbered_stamp [OF s(2,3)] that by (cases "rank' = rank") (auto simp: g1_def)
  with r(3) have "\<forall>r. r \<in> set (rank # ranks) \<or> numbered g r \<longrightarrow> numbered g' r" by auto
  with s(1) r(1) same_but_trans [OF same r(2)] show ?case by (simp flip: g1_def)
qed simp

text \<open>
  C7: On a flat graph with short edges a sweep never fails, and afterwards the nodes of every rank it
  visited have the orders 0, 1, 2 and so on, each once.
\<close>

theorem sweep_numbers_ranks:
  assumes "sweepable g" and "flat g" and "\<forall>rank\<in>set ranks. short_edges g rank rel"
  shows "\<exists>g' uid'. sweep_layer_graphs g ranks rel bias uid = Some (Inr (g', uid')) \<and> same_but_orders g g' \<and>
    (\<forall>rank\<in>set ranks. numbered g' rank)"
proof -
  have "edge_rel (default_layer_graph (Some False) default_graph_config) = {}"
    by (simp add: edge_rel_def graph_edges_def default_layer_graph_def new_graph_def Let_def ohm_new_def ohm_values_def)
  from sweep_ranks_flat [OF assms this, of bias uid] show ?thesis by (auto simp: sweep_layer_graphs_def)
qed

section \<open>Two ranks of two nodes\<close>

text \<open>Two nodes above two others, joined crosswise; the last sweep has left them numbered backwards.\<close>

definition ex_ranks :: "(graph_config, graph_node, graph_edge) graph" where
  "ex_ranks =
     (let node = (\<lambda>r i. Some (default_graph_node\<lparr>gn_rank := Some r, gn_order := Some i\<rparr>));
          g = default_layer_graph (Some True) default_graph_config;
          g = set_node (set_node (set_node (set_node g ''a'' (node 0 1)) ''b'' (node 0 0)) ''c'' (node 1 0)) ''d'' (node 1 1);
          g = put_edge g ''a'' ''d'' (Some default_graph_edge);
          g = put_edge g ''b'' ''c'' (Some default_graph_edge)
      in g)"

definition bare :: "('gl, 'n, 'e) graph \<Rightarrow> bool" where
  "bare g = (clear_graph g \<and> forested g \<and> (\<forall>v. graph_parent g v = None))"

lemma bare_set_node: "bare g \<Longrightarrow> v \<noteq> GRAPH_NODE \<Longrightarrow> bare (set_node g v l)"
  by (simp add: bare_def forested_set_node clear_set_node(1))

lemma bare_put_edge:
  assumes "bare g" and "clear_end v" "clear_end w" "v \<noteq> GRAPH_NODE" "w \<noteq> GRAPH_NODE"
  shows "bare (put_edge g v w (Some l))"
  using forested_set_edge [of g v w "Some l"] assms clear_put_edge(1) [of g v w l]
  by (auto simp: bare_def put_edge_total)

lemma bare_ex_ranks: "bare ex_ranks"
proof -
  have "bare (default_layer_graph (Some True) default_graph_config)"
    using default_layer_hangs(1) [of ex_ranks "[]" "Some True" default_graph_config]
    by (simp add: bare_def hangs_def) (simp add: default_layer_graph_def clear_new_graph option_flags_def)
  then show ?thesis
    unfolding ex_ranks_def Let_def
    by (intro bare_put_edge bare_set_node) (simp_all add: GRAPH_NODE_def clear_end_def)
qed

lemma sweepable_ex_ranks: "sweepable ex_ranks"
proof -
  have "list_all (\<lambda>v. case node_label ex_ranks v of None \<Rightarrow> False
      | Some l \<Rightarrow> (case gn_rank l of None \<Rightarrow> True | Some r \<Rightarrow> 0 \<le> r)) (graph_nodes ex_ranks)"
    by code_simp
  then have "ranked ex_ranks" by (fastforce simp: ranked_def list_all_iff split: option.splits)
  moreover have "acyclic_parents ex_ranks" using bare_ex_ranks by (simp add: bare_def parent_rel_def acyclic_def)
  ultimately show ?thesis using bare_ex_ranks by (simp add: sweepable_def bare_def forested_def clear_graph_def)
qed

lemma flat_ex_ranks: "flat ex_ranks"
proof -
  have "list_all (\<lambda>v. case node_label ex_ranks v of None \<Rightarrow> True | Some l \<Rightarrow> gn_min_rank l = None) (graph_nodes ex_ranks)"
    by code_simp
  then show ?thesis using bare_ex_ranks by (fastforce simp: flat_def bare_def list_all_iff split: option.splits)
qed

lemma short_ex_ranks: "short_edges ex_ranks 1 IN_EDGES" "short_edges ex_ranks 0 OUT_EDGES"
  unfolding short_edges_def by code_simp+


theorem barycenters_forget_orders_witness:
  "\<exists>lg uid'. build_layer_graph ex_ranks 1 IN_EDGES 0 = Some (Inr (lg, uid')) \<and>
     be_barycenter (barycenter_of lg ''d'') \<in> {None, Some NaN, Some (Num 0)}"
  using barycenters_forget_orders [OF sweepable_ex_ranks short_ex_ranks(1), of 0] by blast

theorem sweep_numbers_ranks_witness:
  "\<exists>g' uid'. sweep_layer_graphs ex_ranks [1] IN_EDGES True 0 = Some (Inr (g', uid')) \<and> numbered g' 1"
  using sweep_numbers_ranks [OF sweepable_ex_ranks flat_ex_ranks, of "[1]" IN_EDGES True 0] short_ex_ranks(1)
  by auto

theorem init_order_layers_witness:
  "\<exists>layers. init_order ex_ranks = Inr layers \<and> distinct (concat layers)"
  using init_order_layers [OF ranked_nonnegative] sweepable_ex_ranks unfolding sweepable_def by blast

theorem sorted_level_permutes_witness:
  "\<exists>rs. resolve_conflicts [\<lparr>be_v = ''b'', be_barycenter = Some (Num 2), be_weight = Some 1\<rparr>,
      \<lparr>be_v = ''c'', be_barycenter = Some (Num 1), be_weight = Some 1\<rparr>] ex_ranks = Some rs \<and>
     mset (sr_vs (sort_entries rs True)) = {#''b'', ''c''#}"
proof -
  have "edge_rel ex_ranks = {(''a'', ''d''), (''b'', ''c'')}" unfolding edge_rel_def by code_simp
  then have "acyclic (edge_rel ex_ranks)" by (simp add: acyclic_insert) (simp add: acyclic_def rtrancl_insert)
  from sorted_level_permutes [OF _ this, of "[\<lparr>be_v = ''b'', be_barycenter = Some (Num 2), be_weight = Some 1\<rparr>,
      \<lparr>be_v = ''c'', be_barycenter = Some (Num 1), be_weight = Some 1\<rparr>]" True]
  show ?thesis by simp
qed

text \<open>The only neighbour of \<open>d\<close> is \<open>a\<close>, which stands at position 1; the sweep computes the barycenter 0.\<close>

lemma forgotten_order:
  "order_of ex_ranks ''a'' = Some 1" "map edge_v (in_list ex_ranks ''d'') = [''a'']"
  "case build_layer_graph ex_ranks 1 IN_EDGES 0 of
      Some (Inr (lg, uid)) \<Rightarrow> be_barycenter (barycenter_of lg ''d'') = Some (Num 0)
    | _ \<Rightarrow> False"
  by code_simp+

end
