(* ===== verification/Difflib.thy ===== *)
theory Difflib
  imports Py_Strings
begin

text \<open>
  The part of the Python standard library that the hunk computation calls: the line comparison of
  \<open>difflib.SequenceMatcher\<close> with and without \<open>autojunk\<close>, \<open>unified_diff\<close>, and the contract the callers
  of the comparison rely on. With \<open>autojunk\<close>, lines that are too frequent start no match.
  \<open>find_longest_match\<close> has the loops of the library. The queue of \<open>get_matching_blocks\<close>, whose
  result the library sorts, is the recursion that lists the blocks in that order.
\<close>

section \<open>Longest match\<close>

type_synonym block = "nat \<times> nat \<times> nat"

definition run_before :: "(nat, nat) dict \<Rightarrow> nat \<Rightarrow> nat" where
  "run_before j2len j =
     (if j = 0 then 0 else (case dict_get j2len (j - 1) of None \<Rightarrow> 0 | Some k \<Rightarrow> k))"

fun scan_row ::
  "nat \<Rightarrow> (nat, nat) dict \<Rightarrow> nat list \<Rightarrow> (nat, nat) dict \<Rightarrow> block \<Rightarrow> (nat, nat) dict \<times> block" where
  "scan_row i j2len [] new best = (new, best)"
| "scan_row i j2len (j # js) new (bi, bj, bs) =
     (let k = run_before j2len j + 1
      in scan_row i j2len js (dict_set j k new)
           (if bs < k then (i + 1 - k, j + 1 - k, k) else (bi, bj, bs)))"

definition popular :: "bool \<Rightarrow> 'a list \<Rightarrow> 'a \<Rightarrow> bool" where
  "popular autojunk b x =
     (autojunk \<and> 200 \<le> length b \<and> length b div 100 + 1 < length (filter (\<lambda>y. y = x) b))"

fun scan_rows ::
  "('a \<Rightarrow> bool) \<Rightarrow> 'a list \<Rightarrow> 'a list \<Rightarrow> nat \<Rightarrow> nat \<Rightarrow> nat list \<Rightarrow> (nat, nat) dict \<Rightarrow> block \<Rightarrow> block" where
  "scan_rows junk a b blo bhi [] j2len best = best"
| "scan_rows junk a b blo bhi (i # is) j2len best =
     (let (new, best') = scan_row i j2len (filter (\<lambda>j. b ! j = a ! i \<and> \<not> junk (b ! j)) [blo..<bhi]) [] best
      in scan_rows junk a b blo bhi is new best')"

fun extend_back :: "'a list \<Rightarrow> 'a list \<Rightarrow> nat \<Rightarrow> nat \<Rightarrow> block \<Rightarrow> block" where
  "extend_back a b alo blo (i, j, k) =
     (if alo < i \<and> blo < j \<and> a ! (i - 1) = b ! (j - 1)
      then extend_back a b alo blo (i - 1, j - 1, k + 1) else (i, j, k))"

function extend_forward :: "'a list \<Rightarrow> 'a list \<Rightarrow> nat \<Rightarrow> nat \<Rightarrow> block \<Rightarrow> block" where
  "extend_forward a b ahi bhi (i, j, k) =
     (if i + k < ahi \<and> j + k < bhi \<and> a ! (i + k) = b ! (j + k)
      then extend_forward a b ahi bhi (i, j, k + 1) else (i, j, k))"
  by pat_completeness auto
termination extend_forward
  by (relation "measure (\<lambda>(a, b, ahi, bhi, i, j, k). ahi - (i + k))") auto

definition find_longest_match ::
  "('a \<Rightarrow> bool) \<Rightarrow> 'a list \<Rightarrow> 'a list \<Rightarrow> nat \<Rightarrow> nat \<Rightarrow> nat \<Rightarrow> nat \<Rightarrow> block" where
  "find_longest_match junk a b alo ahi blo bhi =
     extend_forward a b ahi bhi
       (extend_back a b alo blo (scan_rows junk a b blo bhi [alo..<ahi] [] (alo, blo, 0)))"

declare extend_back.simps [simp del] extend_forward.simps [simp del]

text \<open>A block that lies in the ranges searched and matches on every position.\<close>

definition matching :: "'a list \<Rightarrow> 'a list \<Rightarrow> nat \<Rightarrow> nat \<Rightarrow> nat \<Rightarrow> nat \<Rightarrow> block \<Rightarrow> bool" where
  "matching a b alo ahi blo bhi m =
     (case m of (i, j, k) \<Rightarrow> alo \<le> i \<and> i + k \<le> ahi \<and> blo \<le> j \<and> j + k \<le> bhi \<and>
        (\<forall>t<k. a ! (i + t) = b ! (j + t)))"

text \<open>A run of \<open>k\<close> equal positions that ends at \<open>i\<close> and \<open>j\<close>.\<close>

definition run_at :: "'a list \<Rightarrow> 'a list \<Rightarrow> nat \<Rightarrow> nat \<Rightarrow> nat \<Rightarrow> nat \<Rightarrow> nat \<Rightarrow> nat \<Rightarrow> bool" where
  "run_at a b alo blo bhi i j k =
     (alo + k \<le> i + 1 \<and> blo + k \<le> j + 1 \<and> j < bhi \<and> (\<forall>t<k. a ! (i - t) = b ! (j - t)))"

lemma run_at_matching:
  assumes "run_at a b alo blo bhi i j k" and "i < ahi"
  shows "matching a b alo ahi blo bhi (i + 1 - k, j + 1 - k, k)"
proof -
  have run: "a ! (i + 1 - k + t) = b ! (j + 1 - k + t)" if "t < k" for t
  proof -
    have "\<forall>t<k. a ! (i - t) = b ! (j - t)" using assms(1) by (simp add: run_at_def)
    moreover have "k - 1 - t < k" using that by simp
    ultimately have "a ! (i - (k - 1 - t)) = b ! (j - (k - 1 - t))" by blast
    moreover have "i - (k - 1 - t) = i + 1 - k + t" "j - (k - 1 - t) = j + 1 - k + t"
      using assms(1) that by (auto simp: run_at_def)
    ultimately show ?thesis by (simp only:)
  qed
  show ?thesis
    unfolding matching_def prod.case by (intro conjI allI impI run) (use assms in \<open>auto simp: run_at_def\<close>)
qed

lemma run_at_step:
  assumes "run_at a b alo blo bhi (i - 1) (j - 1) k" and "0 < i" "0 < j" "j < bhi" "b ! j = a ! i"
  shows "run_at a b alo blo bhi i j (k + 1)"
proof -
  have "a ! (i - t) = b ! (j - t)" if "t < k + 1" for t
    using assms that by (cases t) (auto simp: run_at_def)
  with assms show ?thesis by (auto simp: run_at_def)
qed

lemma scan_row_matching:
  assumes "\<forall>j k. dict_get j2len j = Some k \<longrightarrow> 0 < i \<and> run_at a b alo blo bhi (i - 1) j k"
    and "\<forall>j\<in>set js. blo \<le> j \<and> j < bhi \<and> b ! j = a ! i" and "alo \<le> i" "i < ahi"
    and "\<forall>j k. dict_get new j = Some k \<longrightarrow> run_at a b alo blo bhi i j k"
    and "matching a b alo ahi blo bhi best"
  shows "(\<forall>j k. dict_get (fst (scan_row i j2len js new best)) j = Some k \<longrightarrow> run_at a b alo blo bhi i j k) \<and>
    matching a b alo ahi blo bhi (snd (scan_row i j2len js new best))"
  using assms(2,5,6)
proof (induction js arbitrary: new best)
  case (Cons j js)
  obtain bi bj bs where b: "best = (bi, bj, bs)" by (rule prod_cases3)
  let ?k = "run_before j2len j + 1"
  have run: "run_at a b alo blo bhi i j ?k"
  proof (cases "j = 0 \<or> dict_get j2len (j - 1) = None")
    case True
    then have "run_before j2len j = 0" by (auto simp: run_before_def)
    with Cons(2) assms(3) show ?thesis by (simp add: run_at_def)
  next
    case False
    then obtain k where k: "dict_get j2len (j - 1) = Some k" "0 < j" by auto
    with assms(1) have "0 < i" "run_at a b alo blo bhi (i - 1) (j - 1) k" by blast+
    from run_at_step [OF this(2,1) k(2)] Cons(2) k show ?thesis by (simp add: run_before_def)
  qed
  have new: "\<forall>j' k. dict_get (dict_set j ?k new) j' = Some k \<longrightarrow> run_at a b alo blo bhi i j' k"
    using Cons(3) run by (simp add: dict_simps)
  define best' where "best' = (if bs < ?k then (i + 1 - ?k, j + 1 - ?k, ?k) else (bi, bj, bs))"
  have best: "matching a b alo ahi blo bhi best'"
    using run_at_matching [OF run assms(4)] Cons(4) b by (simp add: best'_def)
  have js: "\<forall>j\<in>set js. blo \<le> j \<and> j < bhi \<and> b ! j = a ! i" using Cons(2) by simp
  have "scan_row i j2len (j # js) new best = scan_row i j2len js (dict_set j ?k new) best'"
    by (simp only: b scan_row.simps Let_def best'_def)
  from Cons(1) [OF js new best, folded this] show ?case .
qed simp

lemma scan_rows_matching:
  assumes "\<forall>j k. dict_get j2len j = Some k \<longrightarrow> 0 < n \<and> run_at a b alo blo bhi (n - 1) j k"
    and "alo \<le> n" and "matching a b alo ahi blo bhi best"
  shows "matching a b alo ahi blo bhi (scan_rows junk a b blo bhi [n..<ahi] j2len best)"
  using assms
proof (induction "ahi - n" arbitrary: n j2len best)
  case (Suc d)
  then have n: "n < ahi" by simp
  obtain new best' where r: "scan_row n j2len (filter (\<lambda>j. b ! j = a ! n \<and> \<not> junk (b ! j)) [blo..<bhi]) [] best = (new, best')"
    by (rule prod.exhaust)
  have "(\<forall>j k. dict_get new j = Some k \<longrightarrow> run_at a b alo blo bhi n j k) \<and> matching a b alo ahi blo bhi best'"
    using scan_row_matching [OF Suc(3) _ Suc(4) n _ Suc(5), of "filter (\<lambda>j. b ! j = a ! n \<and> \<not> junk (b ! j)) [blo..<bhi]" "[]"]
    by (simp add: r)
  then have new: "\<forall>j k. dict_get new j = Some k \<longrightarrow> 0 < Suc n \<and> run_at a b alo blo bhi (Suc n - 1) j k"
    and best: "matching a b alo ahi blo bhi best'" by simp_all
  have "d = ahi - Suc n" "alo \<le> Suc n" using Suc(2,4) by simp_all
  from Suc(1) [OF this(1) new this(2) best] show ?case by (simp add: upt_conv_Cons [OF n] r)
qed simp

lemma extend_back_matching:
  "matching a b alo ahi blo bhi m \<Longrightarrow> matching a b alo ahi blo bhi (extend_back a b alo blo m)"
proof (induction a b alo blo m rule: extend_back.induct)
  case (1 a b alo blo i j k)
  show ?case
  proof (cases "alo < i \<and> blo < j \<and> a ! (i - 1) = b ! (j - 1)")
    case True
    have "a ! (i - 1 + t) = b ! (j - 1 + t)" if "t < k + 1" for t
      using True 1(2) that by (cases t) (auto simp: matching_def)
    with 1(2) True have "matching a b alo ahi blo bhi (i - 1, j - 1, k + 1)" by (auto simp: matching_def)
    from 1(1) [OF True this] True show ?thesis by (simp add: extend_back.simps [of a b alo blo i j k])
  next
    case False
    with 1(2) show ?thesis by (simp only: extend_back.simps [of a b alo blo i j k] if_False)
  qed
qed

lemma extend_forward_matching:
  "matching a b alo ahi blo bhi m \<Longrightarrow> matching a b alo ahi blo bhi (extend_forward a b ahi bhi m)"
proof (induction a b ahi bhi m rule: extend_forward.induct)
  case (1 a b ahi bhi i j k)
  show ?case
  proof (cases "i + k < ahi \<and> j + k < bhi \<and> a ! (i + k) = b ! (j + k)")
    case True
    with 1(2) have "matching a b alo ahi blo bhi (i, j, k + 1)" by (auto simp: matching_def less_Suc_eq)
    from 1(1) [OF True this] True show ?thesis by (simp add: extend_forward.simps [of a b ahi bhi i j k])
  next
    case False
    with 1(2) show ?thesis by (simp only: extend_forward.simps [of a b ahi bhi i j k] if_False)
  qed
qed

lemma longest_match_matching:
  assumes "alo \<le> ahi" and "blo \<le> bhi"
  shows "matching a b alo ahi blo bhi (find_longest_match junk a b alo ahi blo bhi)"
  unfolding find_longest_match_def
  by (intro extend_forward_matching extend_back_matching scan_rows_matching)
     (use assms in \<open>simp_all add: matching_def\<close>)

section \<open>Matching blocks and opcodes\<close>

function blocks_between :: "('a \<Rightarrow> bool) \<Rightarrow> 'a list \<Rightarrow> 'a list \<Rightarrow> nat \<Rightarrow> nat \<Rightarrow> nat \<Rightarrow> nat \<Rightarrow> block list" where
  "blocks_between junk a b alo ahi blo bhi =
     (if ahi < alo \<or> bhi < blo then []
      else case find_longest_match junk a b alo ahi blo bhi of (i, j, k) \<Rightarrow>
        if k = 0 then []
        else (if alo < i \<and> blo < j then blocks_between junk a b alo i blo j else []) @ [(i, j, k)] @
             (if i + k < ahi \<and> j + k < bhi then blocks_between junk a b (i + k) ahi (j + k) bhi else []))"
  by pat_completeness auto
termination blocks_between
proof (relation "measure (\<lambda>(junk, a, b, alo, ahi, blo, bhi). ahi - alo)", goal_cases)
  case (2 junk a b alo ahi blo bhi i j k)
  with longest_match_matching [of alo ahi blo bhi a b junk] show ?case by (auto simp: matching_def)
next
  case (3 junk a b alo ahi blo bhi i j k)
  with longest_match_matching [of alo ahi blo bhi a b junk] show ?case by (auto simp: matching_def)
qed auto

text \<open>Adjacent blocks are merged; the last block is empty and stands at the end.\<close>

fun merge_blocks :: "block \<Rightarrow> block list \<Rightarrow> block list" where
  "merge_blocks (i1, j1, k1) [] = (if k1 = 0 then [] else [(i1, j1, k1)])"
| "merge_blocks (i1, j1, k1) ((i2, j2, k2) # ms) =
     (if i1 + k1 = i2 \<and> j1 + k1 = j2 then merge_blocks (i1, j1, k1 + k2) ms
      else (if k1 = 0 then [] else [(i1, j1, k1)]) @ merge_blocks (i2, j2, k2) ms)"

definition get_matching_blocks :: "bool \<Rightarrow> 'a list \<Rightarrow> 'a list \<Rightarrow> block list" where
  "get_matching_blocks autojunk a b =
     merge_blocks (0, 0, 0) (blocks_between (popular autojunk b) a b 0 (length a) 0 (length b)) @ [(length a, length b, 0)]"

datatype tag = Equal | Delete | Insert | Replace

type_synonym opcode = "tag \<times> nat \<times> nat \<times> nat \<times> nat"

fun opcodes_of :: "nat \<Rightarrow> nat \<Rightarrow> block list \<Rightarrow> opcode list" where
  "opcodes_of i j [] = []"
| "opcodes_of i j ((ai, bj, n) # ms) =
     (if i < ai \<and> j < bj then [(Replace, i, ai, j, bj)]
      else if i < ai then [(Delete, i, ai, j, bj)]
      else if j < bj then [(Insert, i, ai, j, bj)] else []) @
     (if n = 0 then [] else [(Equal, ai, ai + n, bj, bj + n)]) @
     opcodes_of (ai + n) (bj + n) ms"

definition get_opcodes :: "bool \<Rightarrow> 'a list \<Rightarrow> 'a list \<Rightarrow> opcode list" where
  "get_opcodes autojunk a b = opcodes_of 0 0 (get_matching_blocks autojunk a b)"

declare blocks_between.simps [simp del]

definition slice :: "'a list \<Rightarrow> nat \<Rightarrow> nat \<Rightarrow> 'a list" where
  "slice xs i j = take (j - i) (drop i xs)"

section \<open>Unified diffs\<close>

text \<open>\<open>get_grouped_opcodes(n)\<close>: the opcodes in groups with up to \<open>n\<close> lines of context.\<close>

definition trim_first :: "nat \<Rightarrow> opcode list \<Rightarrow> opcode list" where
  "trim_first n cs =
     (case cs of (Equal, i1, i2, j1, j2) # cs' \<Rightarrow> (Equal, max i1 (i2 - n), i2, max j1 (j2 - n), j2) # cs'
      | _ \<Rightarrow> cs)"

definition trim_last :: "nat \<Rightarrow> opcode list \<Rightarrow> opcode list" where
  "trim_last n cs =
     (if cs = [] then []
      else case last cs of (Equal, i1, i2, j1, j2) \<Rightarrow>
             butlast cs @ [(Equal, i1, min i2 (i1 + n), j1, min j2 (j1 + n))]
           | _ \<Rightarrow> cs)"

fun group_opcodes :: "nat \<Rightarrow> opcode list \<Rightarrow> opcode list \<Rightarrow> opcode list list" where
  "group_opcodes n [] grp =
     (if grp = [] \<or> (length grp = 1 \<and> fst (hd grp) = Equal) then [] else [grp])"
| "group_opcodes n ((tag, i1, i2, j1, j2) # cs) grp =
     (if tag = Equal \<and> n + n < i2 - i1
      then (grp @ [(tag, i1, min i2 (i1 + n), j1, min j2 (j1 + n))]) #
           group_opcodes n cs [(tag, max i1 (i2 - n), i2, max j1 (j2 - n), j2)]
      else group_opcodes n cs (grp @ [(tag, i1, i2, j1, j2)]))"

definition get_grouped_opcodes :: "bool \<Rightarrow> nat \<Rightarrow> 'a list \<Rightarrow> 'a list \<Rightarrow> opcode list list" where
  "get_grouped_opcodes autojunk n a b =
     (let codes = get_opcodes autojunk a b;
          codes = (if codes = [] then [(Equal, 0, 1, 0, 1)] else codes)
      in group_opcodes n (trim_last n (trim_first n codes)) [])"

definition format_range_unified :: "nat \<Rightarrow> nat \<Rightarrow> string" where
  "format_range_unified start stop =
     (let n = stop - start
      in if n = 1 then py_str_nat (start + 1)
         else py_str_nat (if n = 0 then start else start + 1) @ '','' @ py_str_nat n)"

definition opcode_lines :: "string list \<Rightarrow> string list \<Rightarrow> opcode \<Rightarrow> string list" where
  "opcode_lines a b c =
     (case c of (tag, i1, i2, j1, j2) \<Rightarrow>
        if tag = Equal then map (\<lambda>l. CHR '' '' # l) (slice a i1 i2)
        else (if tag \<in> {Replace, Delete} then map (\<lambda>l. CHR ''-'' # l) (slice a i1 i2) else []) @
             (if tag \<in> {Replace, Insert} then map (\<lambda>l. CHR ''+'' # l) (slice b j1 j2) else []))"

definition group_lines :: "string list \<Rightarrow> string list \<Rightarrow> opcode list \<Rightarrow> string list" where
  "group_lines a b grp =
     (case (hd grp, last grp) of ((_, i1, _, j1, _), (_, _, i2, _, j2)) \<Rightarrow>
        (''@@ -'' @ format_range_unified i1 i2 @ '' +'' @ format_range_unified j1 j2 @ '' @@'') #
        concat (map (opcode_lines a b) grp))"

text \<open>\<open>unified_diff(a, b, fromfile, tofile, n=n, lineterm='')\<close>; it compares with \<open>autojunk\<close>.\<close>

definition unified_diff ::
  "string list \<Rightarrow> string list \<Rightarrow> string \<Rightarrow> string \<Rightarrow> nat \<Rightarrow> string list" where
  "unified_diff a b fromfile tofile n =
     (let groups = get_grouped_opcodes True n a b
      in if groups = [] then []
         else [''--- '' @ fromfile, ''+++ '' @ tofile] @ concat (map (group_lines a b) groups))"

section \<open>The contract\<close>

text \<open>
  Opcodes tile both sequences from \<open>i\<close> and \<open>j\<close> on: each starts where the one before ended, a tag
  says which of its two ranges are empty, and equal ranges hold the same elements.
\<close>

definition opcode_ok :: "'a list \<Rightarrow> 'a list \<Rightarrow> opcode \<Rightarrow> bool" where
  "opcode_ok a b c =
     (case c of (tag, i1, i2, j1, j2) \<Rightarrow> i1 \<le> i2 \<and> i2 \<le> length a \<and> j1 \<le> j2 \<and> j2 \<le> length b \<and>
       (case tag of
          Equal \<Rightarrow> i1 < i2 \<and> slice a i1 i2 = slice b j1 j2
        | Delete \<Rightarrow> i1 < i2 \<and> j1 = j2 | Insert \<Rightarrow> i1 = i2 \<and> j1 < j2 | Replace \<Rightarrow> i1 < i2 \<and> j1 < j2))"

fun tiles :: "'a list \<Rightarrow> 'a list \<Rightarrow> nat \<Rightarrow> nat \<Rightarrow> opcode list \<Rightarrow> bool" where
  "tiles a b i j [] = (i = length a \<and> j = length b)"
| "tiles a b i j ((tag, i1, i2, j1, j2) # cs) =
     (i1 = i \<and> j1 = j \<and> opcode_ok a b (tag, i1, i2, j1, j2) \<and> tiles a b i2 j2 cs)"

text \<open>What a caller of a line comparison may rely on.\<close>

locale line_diff =
  fixes opcodes :: "'a list \<Rightarrow> 'a list \<Rightarrow> opcode list"
  assumes tiles: "tiles a b 0 0 (opcodes a b)"
begin

lemma opcodes_equal: "opcodes a b = [] \<Longrightarrow> a = [] \<and> b = []"
  using tiles [of a b] by simp

end

subsection \<open>The comparison meets it\<close>

text \<open>Matching blocks in order, from \<open>i\<close> and \<open>j\<close> on.\<close>

fun ordered_blocks :: "'a list \<Rightarrow> 'a list \<Rightarrow> nat \<Rightarrow> nat \<Rightarrow> nat \<Rightarrow> nat \<Rightarrow> block list \<Rightarrow> bool" where
  "ordered_blocks a b i ahi j bhi [] = (i \<le> ahi \<and> j \<le> bhi)"
| "ordered_blocks a b i ahi j bhi ((ai, bj, n) # ms) =
     (matching a b i ahi j bhi (ai, bj, n) \<and> ordered_blocks a b (ai + n) ahi (bj + n) bhi ms)"

lemma matching_mono:
  "matching a b i ahi j bhi m \<Longrightarrow> i' \<le> i \<Longrightarrow> ahi \<le> ahi' \<Longrightarrow> j' \<le> j \<Longrightarrow> bhi \<le> bhi' \<Longrightarrow>
   matching a b i' ahi' j' bhi' m"
  by (auto simp: matching_def)

lemma ordered_blocks_mono:
  "ordered_blocks a b i ahi j bhi ms \<Longrightarrow> ahi \<le> ahi' \<Longrightarrow> bhi \<le> bhi' \<Longrightarrow> ordered_blocks a b i ahi' j bhi' ms"
  by (induction a b i ahi j bhi ms rule: ordered_blocks.induct) (auto elim: matching_mono)

lemma ordered_blocks_append:
  "ordered_blocks a b i ai j bj xs \<Longrightarrow> ordered_blocks a b ai ahi bj bhi ys \<Longrightarrow> ai \<le> ahi \<Longrightarrow> bj \<le> bhi \<Longrightarrow>
   ordered_blocks a b i ahi j bhi (xs @ ys)"
proof (induction a b i ai j bj xs rule: ordered_blocks.induct)
  case (1 a b i ai j bj)
  then show ?case by (cases ys) (auto elim: matching_mono)
next
  case (2 a b i ai j bj x y n ms)
  then show ?case by (auto elim: matching_mono)
qed

lemma blocks_between_ordered:
  "alo \<le> ahi \<Longrightarrow> blo \<le> bhi \<Longrightarrow> ordered_blocks a b alo ahi blo bhi (blocks_between junk a b alo ahi blo bhi)"
proof (induction junk a b alo ahi blo bhi rule: blocks_between.induct)
  case (1 junk a b alo ahi blo bhi)
  obtain i j k where m: "find_longest_match junk a b alo ahi blo bhi = (i, j, k)" by (rule prod_cases3)
  have range: "matching a b alo ahi blo bhi (i, j, k)"
    using longest_match_matching [OF 1(3,4), of a b junk] by (simp add: m)
  have guard: "\<not> (ahi < alo \<or> bhi < blo)" using 1(3,4) by simp
  show ?case
  proof (cases "k = 0")
    case True
    with 1(3,4) m guard show ?thesis by (simp add: blocks_between.simps [of junk a b alo])
  next
    case False
    define xs where "xs = (if alo < i \<and> blo < j then blocks_between junk a b alo i blo j else [])"
    define ys where
      "ys = (if i + k < ahi \<and> j + k < bhi then blocks_between junk a b (i + k) ahi (j + k) bhi else [])"
    have xs: "ordered_blocks a b alo i blo j xs"
      using 1(1) [OF guard m [symmetric] refl False] range by (auto simp: xs_def matching_def)
    have ys: "ordered_blocks a b (i + k) ahi (j + k) bhi ys"
      using 1(2) [OF guard m [symmetric] refl False] range by (auto simp: ys_def matching_def)
    have "matching a b i ahi j bhi (i, j, k)" using range by (auto simp: matching_def)
    then have "ordered_blocks a b i ahi j bhi ((i, j, k) # ys)" using ys by simp
    from ordered_blocks_append [OF xs this] range
    have "ordered_blocks a b alo ahi blo bhi (xs @ (i, j, k) # ys)" by (auto simp: matching_def)
    then show ?thesis
      using guard False m by (simp add: blocks_between.simps [of junk a b alo] xs_def ys_def)
  qed
qed

lemma merge_blocks_ordered:
  "matching a b i ahi j bhi m \<Longrightarrow> ordered_blocks a b (fst m + snd (snd m)) ahi (fst (snd m) + snd (snd m)) bhi ms \<Longrightarrow>
   ordered_blocks a b i ahi j bhi (merge_blocks m ms)"
proof (induction m ms arbitrary: i j rule: merge_blocks.induct)
  case (1 i1 j1 k1)
  then show ?case by (auto simp: matching_def)
next
  case (2 i1 j1 k1 i2 j2 k2 ms)
  show ?case
  proof (cases "i1 + k1 = i2 \<and> j1 + k1 = j2")
    case True
    have "a ! (i1 + t) = b ! (j1 + t)" if "t < k1 + k2" for t
    proof (cases "t < k1")
      case False
      have "\<forall>t<k2. a ! (i2 + t) = b ! (j2 + t)" using 2(4) by (simp add: matching_def)
      moreover have "t - k1 < k2" "i2 + (t - k1) = i1 + t" "j2 + (t - k1) = j1 + t"
        using False that True by auto
      ultimately show ?thesis by metis
    qed (use 2(3) in \<open>simp add: matching_def\<close>)
    then have "matching a b i ahi j bhi (i1, j1, k1 + k2)" using 2(3,4) True by (auto simp: matching_def)
    moreover have "i1 + (k1 + k2) = i2 + k2" "j1 + (k1 + k2) = j2 + k2" using True by auto
    moreover have "ordered_blocks a b (i2 + k2) ahi (j2 + k2) bhi ms" using 2(4) by simp
    ultimately have "ordered_blocks a b i ahi j bhi (merge_blocks (i1, j1, k1 + k2) ms)"
      using 2(1) [OF True, of i j] by (simp only: fst_conv snd_conv)
    with True show ?thesis by simp
  next
    case False
    have next_m: "matching a b (i1 + k1) ahi (j1 + k1) bhi (i2, j2, k2)"
      and rest: "ordered_blocks a b (i2 + k2) ahi (j2 + k2) bhi ms" using 2(4) by simp_all
    then have "ordered_blocks a b (i1 + k1) ahi (j1 + k1) bhi (merge_blocks (i2, j2, k2) ms)"
      using 2(2) [OF False next_m] by simp
    moreover from this have "k1 = 0 \<Longrightarrow> ordered_blocks a b i ahi j bhi (merge_blocks (i2, j2, k2) ms)"
      using 2(2) [OF False matching_mono [OF next_m]] rest 2(3) by (auto simp: matching_def)
    ultimately show ?thesis using 2(3) False by auto
  qed
qed

lemma slice_matching:
  assumes "matching a b i (length a) j (length b) (ai, bj, n)"
  shows "slice a ai (ai + n) = slice b bj (bj + n)"
  using assms by (intro nth_equalityI) (auto simp: slice_def matching_def)

lemma opcodes_of_tile:
  "ordered_blocks a b i (length a) j (length b) ms \<Longrightarrow>
   tiles a b i j (opcodes_of i j (ms @ [(length a, length b, 0)]))"
proof (induction ms arbitrary: i j)
  case (Cons m ms)
  obtain ai bj n where m: "m = (ai, bj, n)" by (rule prod_cases3)
  from Cons(2) have match: "matching a b i (length a) j (length b) (ai, bj, n)"
    and rest: "ordered_blocks a b (ai + n) (length a) (bj + n) (length b) ms" by (simp_all add: m)
  have range: "i \<le> ai" "ai + n \<le> length a" "j \<le> bj" "bj + n \<le> length b"
    using match by (simp_all add: matching_def)
  from Cons(1) [OF rest] have tail:
    "tiles a b (ai + n) (bj + n) (opcodes_of (ai + n) (bj + n) (ms @ [(length a, length b, 0)]))" .
  show ?case
    using tail slice_matching [OF match] range by (auto simp: m opcode_ok_def)
qed (auto simp: opcode_ok_def)

lemma get_opcodes_tile: "tiles a b 0 0 (get_opcodes autojunk a b)"
  unfolding get_opcodes_def get_matching_blocks_def
  by (intro opcodes_of_tile merge_blocks_ordered) (simp_all add: matching_def blocks_between_ordered)

interpretation difflib: line_diff "get_opcodes autojunk" for autojunk
  by unfold_locales (rule get_opcodes_tile)

end
