(* ===== verification/Hunks.thy ===== *)
theory Hunks
  imports Difflib
begin

text \<open>
  The change hunks of a file (\<open>hunks/types.py\<close>, \<open>hunks/diff.py\<close>): computed from the line comparison,
  rendered as patches, applied to a text and matched against the hunks of an earlier comparison.
  Identifiers and creation times are drawn from a supply indexed by the number of the hunk.
\<close>

section \<open>Lines of a string\<close>

text \<open>The line boundaries of \<open>str.splitlines\<close> below code point 256.\<close>

definition line_break :: "char \<Rightarrow> bool" where
  "line_break c =
     (c \<in> {CHR 0x0A, CHR 0x0B, CHR 0x0C, CHR 0x0D, CHR 0x1C, CHR 0x1D, CHR 0x1E, CHR 0x85})"

fun splitlines_keep :: "string \<Rightarrow> string list" where
  "splitlines_keep [] = []"
| "splitlines_keep [c] = [[c]]"
| "splitlines_keep (c # d # cs) =
     (if c = CHR 0x0D \<and> d = CHR 0x0A then [c, d] # splitlines_keep cs
      else if line_break c then [c] # splitlines_keep (d # cs)
      else (case splitlines_keep (d # cs) of [] \<Rightarrow> [[c]] | l # ls \<Rightarrow> (c # l) # ls))"

definition strip_break :: "string \<Rightarrow> string" where
  "strip_break l =
     (if py_endswith l [CHR 0x0D, CHR 0x0A] then take (length l - 2) l
      else if l \<noteq> [] \<and> line_break (last l) then butlast l else l)"

definition py_splitlines :: "string \<Rightarrow> string list" where
  "py_splitlines s = map strip_break (splitlines_keep s)"

section \<open>Hunks\<close>

record hunk_line_info =
  old_start :: int
  old_count :: int
  new_start :: int
  new_count :: int

definition line_info_str :: "hunk_line_info \<Rightarrow> string" where
  "line_info_str i =
     ''@@ -'' @ py_str_int (old_start i) @ '','' @ py_str_int (old_count i) @ '' +'' @
     py_str_int (new_start i) @ '','' @ py_str_int (new_count i) @ '' @@''"

datatype hunk_source = AgentEdit int | ExternalEditOnAgentFile | External

record hunk =
  h_id :: string
  h_path :: string
  h_line_info :: hunk_line_info
  h_source :: hunk_source
  h_old_text :: "string option"
  h_new_text :: string
  h_patch :: "string option"
  h_created_at :: int
  h_selected :: bool

text \<open>A fresh identifier and the time, for the hunk of a given number.\<close>

type_synonym hunk_stamps = "nat \<Rightarrow> string \<times> int"

definition file_created :: "string \<times> int \<Rightarrow> string \<Rightarrow> string \<Rightarrow> hunk_source \<Rightarrow> hunk" where
  "file_created stamp path content source =
     \<lparr>h_id = fst stamp, h_path = path,
      h_line_info = \<lparr>old_start = 0, old_count = 0, new_start = 1,
        new_count = max (int (length (py_splitlines content))) 1\<rparr>,
      h_source = source, h_old_text = None, h_new_text = content, h_patch = None,
      h_created_at = snd stamp, h_selected = False\<rparr>"

definition CONTEXT_LINES :: int where "CONTEXT_LINES = 3"

definition MAX_DIFF_FILE_SIZE :: nat where "MAX_DIFF_FILE_SIZE = 1024 * 1024"

text \<open>UTF-8 takes two bytes from code point 128 on.\<close>

definition byte_len :: "string \<Rightarrow> nat" where
  "byte_len s = sum_list (map (\<lambda>c. if code_point c < 128 then 1 else 2) s)"

subsection \<open>Computing them\<close>

record hunk_builder =
  hb_old_start :: int
  hb_new_start :: int
  hb_old_lines :: "string list"
  hb_new_lines :: "string list"

definition new_builder :: "int \<Rightarrow> int \<Rightarrow> hunk_builder" where
  "new_builder old new =
     \<lparr>hb_old_start = old, hb_new_start = new, hb_old_lines = [], hb_new_lines = []\<rparr>"

definition add_old_lines :: "string list \<Rightarrow> hunk_builder \<Rightarrow> hunk_builder" where
  "add_old_lines ls b = b\<lparr>hb_old_lines := hb_old_lines b @ ls\<rparr>"

definition add_new_lines :: "string list \<Rightarrow> hunk_builder \<Rightarrow> hunk_builder" where
  "add_new_lines ls b = b\<lparr>hb_new_lines := hb_new_lines b @ ls\<rparr>"

definition build_hunk :: "string \<times> int \<Rightarrow> string \<Rightarrow> hunk_source \<Rightarrow> hunk_builder \<Rightarrow> hunk" where
  "build_hunk stamp path source b =
     \<lparr>h_id = fst stamp, h_path = path,
      h_line_info = \<lparr>old_start = hb_old_start b, old_count = int (length (hb_old_lines b)),
        new_start = hb_new_start b, new_count = int (length (hb_new_lines b))\<rparr>,
      h_source = source,
      h_old_text = (if hb_old_lines b = [] then None else Some (concat (hb_old_lines b))),
      h_new_text = concat (hb_new_lines b), h_patch = None,
      h_created_at = snd stamp, h_selected = False\<rparr>"

definition builder_or_new :: "nat \<Rightarrow> nat \<Rightarrow> hunk_builder option \<Rightarrow> hunk_builder" where
  "builder_or_new i1 j1 builder =
     (case builder of None \<Rightarrow> new_builder (int i1 + 1) (int j1 + 1) | Some b \<Rightarrow> b)"

definition flush_builder ::
  "hunk_stamps \<Rightarrow> string \<Rightarrow> hunk_source \<Rightarrow> hunk_builder option \<Rightarrow> hunk list \<Rightarrow> hunk list" where
  "flush_builder stamps path source builder hunks =
     (case builder of
        None \<Rightarrow> hunks | Some b \<Rightarrow> hunks @ [build_hunk (stamps (length hunks)) path source b])"

fun walk_opcodes ::
  "hunk_stamps \<Rightarrow> string \<Rightarrow> hunk_source \<Rightarrow> string list \<Rightarrow> string list \<Rightarrow> opcode list \<Rightarrow>
   hunk_builder option \<Rightarrow> hunk list \<Rightarrow> hunk list" where
  "walk_opcodes stamps path source old_lines new_lines [] builder hunks =
     flush_builder stamps path source builder hunks"
| "walk_opcodes stamps path source old_lines new_lines ((tag, i1, i2, j1, j2) # cs) builder hunks =
     (let b = builder_or_new i1 j1 builder
      in case tag of
           Equal \<Rightarrow> walk_opcodes stamps path source old_lines new_lines cs None
                      (flush_builder stamps path source builder hunks)
         | Delete \<Rightarrow> walk_opcodes stamps path source old_lines new_lines cs
                      (Some (add_old_lines (slice old_lines i1 i2) b)) hunks
         | Insert \<Rightarrow> walk_opcodes stamps path source old_lines new_lines cs
                      (Some (add_new_lines (slice new_lines j1 j2) b)) hunks
         | Replace \<Rightarrow> walk_opcodes stamps path source old_lines new_lines cs
                       (Some (add_new_lines (slice new_lines j1 j2)
                         (add_old_lines (slice old_lines i1 i2) b))) hunks)"

definition compute_hunks ::
  "hunk_stamps \<Rightarrow> string \<Rightarrow> string \<Rightarrow> string \<Rightarrow> hunk_source \<Rightarrow> hunk list" where
  "compute_hunks stamps path baseline current source =
     (if baseline = current then []
      else if MAX_DIFF_FILE_SIZE < byte_len baseline \<or> MAX_DIFF_FILE_SIZE < byte_len current then []
      else let old_lines = splitlines_keep baseline; new_lines = splitlines_keep current
           in walk_opcodes stamps path source old_lines new_lines (get_opcodes False old_lines new_lines) None [])"

subsection \<open>Rendering and applying them\<close>

definition generate_unified_patch :: "string \<Rightarrow> string \<Rightarrow> string \<Rightarrow> string option" where
  "generate_unified_patch path baseline current =
     (if baseline = current then None
      else if MAX_DIFF_FILE_SIZE < byte_len baseline \<or> MAX_DIFF_FILE_SIZE < byte_len current then None
      else let lines = unified_diff (py_splitlines baseline) (py_splitlines current)
                         (''a/'' @ path) (''b/'' @ path) (nat CONTEXT_LINES)
           in if lines = [] then None else Some (py_join [CHR 0x0A] lines @ [CHR 0x0A]))"

definition int_range :: "int \<Rightarrow> int \<Rightarrow> int list" where
  "int_range i j = [i..j - 1]"

definition generate_hunk_patch :: "string \<Rightarrow> string \<Rightarrow> hunk \<Rightarrow> string" where
  "generate_hunk_patch baseline current h =
     (let old_lines = py_splitlines baseline;
          new_lines = py_splitlines current;
          info = h_line_info h;
          old_start_idx = max (old_start info - 1) 0;
          new_start_idx = max (new_start info - 1) 0;
          context_before_start = max (old_start_idx - CONTEXT_LINES) 0;
          context_before_end = old_start_idx;
          changes_end_new = new_start_idx + new_count info;
          context_after_start = changes_end_new;
          context_after_end = min (changes_end_new + CONTEXT_LINES) (int (length new_lines));
          changes_end_old = old_start_idx + old_count info;
          context_after_start_old = changes_end_old;
          context_after_end_old = min (changes_end_old + CONTEXT_LINES) (int (length old_lines));
          total_old_lines = (context_before_end - context_before_start) + old_count info +
            (context_after_end_old - context_after_start_old);
          total_new_lines = (context_before_end - context_before_start) + new_count info +
            (context_after_end - context_after_start);
          header_old_start = context_before_start + 1;
          header_new_start = context_before_start + 1;
          output =
            [line_info_str \<lparr>old_start = header_old_start, old_count = total_old_lines,
               new_start = header_new_start, new_count = total_new_lines\<rparr>] @
            map (\<lambda>i. CHR '' '' # old_lines ! nat i)
              (filter (\<lambda>i. 0 \<le> i \<and> i < int (length old_lines)) (int_range context_before_start context_before_end)) @
            (case h_old_text h of None \<Rightarrow> [] | Some t \<Rightarrow> map (\<lambda>l. CHR ''-'' # l) (py_splitlines t)) @
            map (\<lambda>l. CHR ''+'' # l) (py_splitlines (h_new_text h)) @
            map (\<lambda>i. CHR '' '' # new_lines ! nat i)
              (filter (\<lambda>i. 0 \<le> i \<and> i < int (length new_lines)) (int_range context_after_start context_after_end))
      in py_join [CHR 0x0A] output @ [CHR 0x0A])"

definition format_unified_diff :: "hunk \<Rightarrow> string" where
  "format_unified_diff h =
     py_join [CHR 0x0A]
       ([''--- a/'' @ h_path h, ''+++ b/'' @ h_path h, line_info_str (h_line_info h)] @
        (case h_old_text h of None \<Rightarrow> [] | Some t \<Rightarrow> map (\<lambda>l. CHR ''-'' # l) (py_splitlines t)) @
        map (\<lambda>l. CHR ''+'' # l) (py_splitlines (h_new_text h))) @ [CHR 0x0A]"

text \<open>\<open>xs[i:]\<close>, where a negative index counts from the end.\<close>

definition py_drop :: "int \<Rightarrow> 'a list \<Rightarrow> 'a list" where
  "py_drop i xs = (if 0 \<le> i then drop (nat i) xs else drop (length xs - nat (- i)) xs)"

definition patch_lines :: "string \<Rightarrow> int \<Rightarrow> int \<Rightarrow> string \<Rightarrow> string" where
  "patch_lines content start_line remove_count insert_text =
     (let lines = py_splitlines content;
          n = int (length lines);
          start_idx = max (start_line - 1) 0;
          end_idx = min (start_idx + remove_count) n;
          result = take (nat (min start_idx n)) lines @
            (if insert_text = [] then [] else py_splitlines insert_text) @
            py_drop end_idx lines;
          output = py_join [CHR 0x0A] result
      in if py_endswith content [CHR 0x0A] \<and> output \<noteq> [] then output @ [CHR 0x0A] else output)"

subsection \<open>Matching them\<close>

definition hunks_match_content :: "hunk \<Rightarrow> hunk \<Rightarrow> bool" where
  "hunks_match_content a b =
     (h_path a = h_path b \<and> h_old_text a = h_old_text b \<and> h_new_text a = h_new_text b)"

definition hunk_moved :: "hunk \<Rightarrow> hunk \<Rightarrow> bool" where
  "hunk_moved old new = (hunks_match_content old new \<and> h_line_info old \<noteq> h_line_info new)"

definition hunks_overlap :: "hunk \<Rightarrow> hunk \<Rightarrow> bool" where
  "hunks_overlap a b =
     (if h_path a \<noteq> h_path b then False
      else
        let a_start = old_start (h_line_info a);
            a_end = old_start (h_line_info a) + old_count (h_line_info a);
            b_start = old_start (h_line_info b);
            b_end = old_start (h_line_info b) + old_count (h_line_info b)
        in if old_count (h_line_info a) = 0 \<and> old_count (h_line_info b) = 0 then a_start = b_start
           else if old_count (h_line_info a) = 0 then b_start \<le> a_start \<and> a_start \<le> b_end
           else if old_count (h_line_info b) = 0 then a_start \<le> b_start \<and> b_start \<le> a_end
           else \<not> (a_end < b_start \<or> b_end < a_start))"

definition calculate_overlap_size :: "hunk_line_info \<Rightarrow> hunk_line_info \<Rightarrow> int" where
  "calculate_overlap_size a b =
     (let overlap_start = max (old_start a) (old_start b);
          overlap_end = min (old_start a + old_count a) (old_start b + old_count b)
      in max (overlap_end - overlap_start) 0)"

text \<open>\<open>min(xs, key=f)\<close>: the first element of least key. \<open>max\<close> is the first of greatest key.\<close>

fun first_min :: "('a \<Rightarrow> int) \<Rightarrow> 'a list \<Rightarrow> 'a option" where
  "first_min f [] = None"
| "first_min f (x # xs) =
     (case first_min f xs of None \<Rightarrow> Some x | Some y \<Rightarrow> if f x \<le> f y then Some x else Some y)"

definition find_matching_old_hunk :: "hunk \<Rightarrow> hunk list \<Rightarrow> hunk option" where
  "find_matching_old_hunk new_hunk old_hunks =
     (let content_matches = filter (\<lambda>o'. hunks_match_content o' new_hunk) old_hunks
      in if content_matches \<noteq> []
         then first_min (\<lambda>o'. \<bar>new_start (h_line_info o') - new_start (h_line_info new_hunk)\<bar>) content_matches
         else first_min (\<lambda>o'. - calculate_overlap_size (h_line_info o') (h_line_info new_hunk))
                (filter (\<lambda>o'. hunks_overlap o' new_hunk) old_hunks))"

definition find_overlapping_hunks :: "hunk \<Rightarrow> hunk list \<Rightarrow> hunk list" where
  "find_overlapping_hunks new_hunk old_hunks = filter (\<lambda>o'. hunks_overlap o' new_hunk) old_hunks"

section \<open>Hunks rebuild the text\<close>

lemma concat_splitlines_keep [simp]: "concat (splitlines_keep s) = s"
proof (induction s rule: splitlines_keep.induct)
  case (3 c d cs)
  show ?case
  proof (cases "c = CHR 0x0D \<and> d = CHR 0x0A")
    case True
    with 3(1) show ?thesis by simp
  next
    case False
    have "concat (splitlines_keep (d # cs)) = d # cs"
      using 3(2,3) [OF False] by (cases "line_break c") simp_all
    with False show ?thesis by (cases "splitlines_keep (d # cs)") auto
  qed
qed simp_all

text \<open>The text that the hunks make of the lines of a baseline, from line \<open>pos\<close> on.\<close>

fun apply_hunks :: "nat \<Rightarrow> string list \<Rightarrow> hunk list \<Rightarrow> string" where
  "apply_hunks pos ls [] = concat (drop pos ls)"
| "apply_hunks pos ls (h # hs) =
     (let first = nat (old_start (h_line_info h) - 1)
      in concat (slice ls pos first) @ h_new_text h @
         apply_hunks (first + nat (old_count (h_line_info h))) ls hs)"

text \<open>The fields of a hunk tell which lines of the two files it replaces by which.\<close>

definition hunk_at :: "string list \<Rightarrow> string list \<Rightarrow> hunk \<Rightarrow> bool" where
  "hunk_at old new h =
     (\<exists>p i q j. h_line_info h = \<lparr>old_start = int p + 1, old_count = int i, new_start = int q + 1, new_count = int j\<rparr> \<and>
        p + i \<le> length old \<and> q + j \<le> length new \<and> 0 < i + j \<and>
        h_old_text h = (if i = 0 then None else Some (concat (slice old p (p + i)))) \<and>
        h_new_text h = concat (slice new q (q + j)))"

lemma slice_append: "i \<le> j \<Longrightarrow> j \<le> k \<Longrightarrow> slice xs i j @ slice xs j k = slice xs i k"
proof -
  assume "i \<le> j" and "j \<le> k"
  then have "take (k - i) (drop i xs) = take (j - i) (drop i xs) @ take (k - j) (drop (j - i) (drop i xs))"
    by (metis Nat.add_diff_assoc2 le_add_diff_inverse take_add diff_diff_left add_diff_cancel_left)
  with \<open>i \<le> j\<close> show ?thesis by (simp add: slice_def)
qed

lemma slice_drop: "i \<le> j \<Longrightarrow> slice xs i j @ drop j xs = drop i xs"
proof -
  assume "i \<le> j"
  then have "drop j xs = drop (j - i) (drop i xs)" by simp
  then show ?thesis by (simp only: slice_def append_take_drop_id)
qed

lemma length_slice: "i \<le> j \<Longrightarrow> j \<le> length xs \<Longrightarrow> length (slice xs i j) = j - i"
  by (simp add: slice_def)

lemma slice_empty [simp]: "slice xs i i = []"
  by (simp add: slice_def)

lemma apply_hunks_skip:
  assumes "i \<le> k" and "\<forall>h\<in>set hs. int k < old_start (h_line_info h)"
  shows "apply_hunks i ls hs = concat (slice ls i k) @ apply_hunks k ls hs"
proof (cases hs)
  case Nil
  then show ?thesis using slice_drop [OF assms(1), of ls] by (metis apply_hunks.simps(1) concat_append)
next
  case (Cons h hs')
  let ?first = "nat (old_start (h_line_info h) - 1)"
  have "k \<le> ?first" using assms(2) Cons by auto
  from slice_append [OF assms(1) this, of ls] show ?thesis
    by (simp add: Cons Let_def) (metis concat_append append_assoc)
qed

definition builder_at ::
  "string list \<Rightarrow> string list \<Rightarrow> nat \<Rightarrow> nat \<Rightarrow> nat \<Rightarrow> nat \<Rightarrow> hunk_builder option \<Rightarrow> bool" where
  "builder_at old new p i q j builder =
     (p \<le> i \<and> i \<le> length old \<and> q \<le> j \<and> j \<le> length new \<and>
      (case builder of
         None \<Rightarrow> p = i \<and> q = j
       | Some b \<Rightarrow> p + q < i + j \<and>
           b = \<lparr>hb_old_start = int p + 1, hb_new_start = int q + 1,
                hb_old_lines = slice old p i, hb_new_lines = slice new q j\<rparr>))"

lemma builder_at_grow:
  assumes "builder_at old new p i q j builder"
    and "i \<le> i2" "i2 \<le> length old" "j \<le> j2" "j2 \<le> length new" "i + j < i2 + j2"
  shows "builder_at old new p i2 q j2
    (Some (add_new_lines (slice new j j2) (add_old_lines (slice old i i2) (builder_or_new i j builder))))"
  using assms slice_append [of p i i2 old] slice_append [of q j j2 new]
  by (cases builder)
     (auto simp: builder_at_def builder_or_new_def new_builder_def add_old_lines_def add_new_lines_def)

lemma add_no_lines [simp]: "add_old_lines [] b = b" "add_new_lines [] b = b"
  by (simp_all add: add_old_lines_def add_new_lines_def)

text \<open>What the hunks made from lines \<open>p\<close> and \<open>q\<close> on achieve.\<close>

definition rebuilds :: "string list \<Rightarrow> string list \<Rightarrow> nat \<Rightarrow> nat \<Rightarrow> hunk list \<Rightarrow> bool" where
  "rebuilds old new p q hs =
     (apply_hunks p old hs = concat (drop q new) \<and>
      (\<forall>h\<in>set hs. hunk_at old new h \<and> int p < old_start (h_line_info h)))"

lemma rebuilds_flush:
  assumes b: "builder_at old new p i q j (Some b)" and rest: "rebuilds old new i j hs"
  shows "rebuilds old new p q (build_hunk stamp path source b # hs)"
proof -
  let ?h = "build_hunk stamp path source b"
  have pos: "p \<le> i" "i \<le> length old" "q \<le> j" "j \<le> length new" "p + q < i + j"
    and fields: "b = \<lparr>hb_old_start = int p + 1, hb_new_start = int q + 1,
                hb_old_lines = slice old p i, hb_new_lines = slice new q j\<rparr>"
    using b by (simp_all add: builder_at_def)
  have empty: "slice old p i = [] \<longleftrightarrow> i = p"
    using length_slice [OF pos(1,2)] pos(1) by (metis diff_is_0_eq le_antisym length_0_conv le_refl)
  have "hunk_at old new ?h"
    unfolding hunk_at_def
    by (intro exI [of _ p] exI [of _ "i - p"] exI [of _ q] exI [of _ "j - q"])
       (use pos empty in \<open>simp add: build_hunk_def fields length_slice\<close>)
  moreover have "apply_hunks p old (?h # hs) = concat (drop q new)"
  proof -
    have "p + nat (int i - int p) = i" using pos(1) by simp
    then have "apply_hunks p old (?h # hs) = concat (slice new q j) @ apply_hunks i old hs"
      using pos by (simp add: build_hunk_def fields length_slice Let_def)
    also have "\<dots> = concat (slice new q j @ drop j new)" using rest by (simp add: rebuilds_def)
    finally show ?thesis using slice_drop [OF pos(3), of new] by simp
  qed
  ultimately show ?thesis
    using rest pos(1) by (auto simp: rebuilds_def build_hunk_def fields)
qed

lemma rebuilds_equal:
  assumes rest: "rebuilds old new i2 j2 hs" and eq: "slice old i i2 = slice new j j2" and "i \<le> i2" "j \<le> j2"
  shows "rebuilds old new i j hs"
proof -
  have "apply_hunks i old hs = concat (slice old i i2) @ apply_hunks i2 old hs"
    by (rule apply_hunks_skip) (use assms in \<open>auto simp: rebuilds_def\<close>)
  also have "\<dots> = concat (slice new j j2 @ drop j2 new)" using rest eq by (simp add: rebuilds_def)
  finally show ?thesis using rest slice_drop [OF assms(4), of new] assms(3) by (auto simp: rebuilds_def)
qed

lemma walk_rebuilds:
  "tiles old new i j cs \<Longrightarrow> builder_at old new p i q j builder \<Longrightarrow>
   \<exists>hs. walk_opcodes stamps path source old new cs builder hunks = hunks @ hs \<and> rebuilds old new p q hs"
proof (induction cs arbitrary: i j p q builder hunks)
  case Nil
  then have nil: "rebuilds old new i j []" by (simp add: rebuilds_def)
  show ?case
  proof (cases builder)
    case None
    with Nil(2) nil show ?thesis by (simp add: flush_builder_def builder_at_def)
  next
    case (Some b)
    with rebuilds_flush [OF _ nil] Nil(2) show ?thesis by (auto simp: flush_builder_def)
  qed
next
  case (Cons c cs)
  obtain tag i1 i2 j1 j2 where c: "c = (tag, i1, i2, j1, j2)" by (rule prod_cases5)
  from Cons(2) have at: "i1 = i" "j1 = j" and ok: "opcode_ok old new (tag, i, i2, j, j2)"
    and rest: "tiles old new i2 j2 cs" by (auto simp: c)
  show ?case
  proof (cases "tag = Equal")
    case True
    have skip: "i \<le> i2" "i2 \<le> length old" "j \<le> j2" "j2 \<le> length new" "slice old i i2 = slice new j j2"
      using ok True by (simp_all add: opcode_ok_def)
    have "builder_at old new i2 i2 j2 j2 None" using skip by (simp add: builder_at_def)
    from Cons(1) [OF rest this, of "flush_builder stamps path source builder hunks"]
    obtain hs where hs: "walk_opcodes stamps path source old new cs None
        (flush_builder stamps path source builder hunks) =
          flush_builder stamps path source builder hunks @ hs" "rebuilds old new i2 j2 hs" by blast
    have from_here: "rebuilds old new i j hs" by (rule rebuilds_equal [OF hs(2) skip(5,1,3)])
    show ?thesis
    proof (cases builder)
      case None
      with hs(1) from_here Cons(3) True show ?thesis by (simp add: c flush_builder_def builder_at_def)
    next
      case (Some b)
      with hs(1) rebuilds_flush [OF _ from_here] Cons(3) True show ?thesis
        by (auto simp: c flush_builder_def)
    qed
  next
    case False
    let ?b = "Some (add_new_lines (slice new j j2) (add_old_lines (slice old i i2) (builder_or_new i j builder)))"
    have "builder_at old new p i2 q j2 ?b"
      by (rule builder_at_grow [OF Cons(3)]) (use ok False in \<open>auto simp: opcode_ok_def split: tag.splits\<close>)
    from Cons(1) [OF rest this, of hunks] obtain hs where
      hs: "walk_opcodes stamps path source old new cs ?b hunks = hunks @ hs" "rebuilds old new p q hs" by blast
    have "walk_opcodes stamps path source old new (c # cs) builder hunks =
        walk_opcodes stamps path source old new cs ?b hunks"
      using ok False by (cases tag) (simp_all add: c at opcode_ok_def)
    with hs show ?thesis by auto
  qed
qed

section \<open>Patching lines\<close>

text \<open>Texts whose lines all end in a newline, the only line boundary in them.\<close>

definition plain_line :: "string \<Rightarrow> bool" where
  "plain_line l = (\<forall>c\<in>set l. \<not> line_break c)"

definition unlines :: "string list \<Rightarrow> string" where
  "unlines ls = concat (map (\<lambda>l. l @ [CHR 0x0A]) ls)"

lemma unlines_simps [simp]:
  "unlines [] = []" "unlines (l # ls) = l @ CHR 0x0A # unlines ls" "unlines (xs @ ys) = unlines xs @ unlines ys"
  by (simp_all add: unlines_def)

lemma splitlines_keep_line:
  "plain_line l \<Longrightarrow> splitlines_keep (l @ CHR 0x0A # s) = (l @ [CHR 0x0A]) # splitlines_keep s"
proof (induction l)
  case Nil
  then show ?case by (cases s) (simp_all add: line_break_def)
next
  case (Cons c l)
  then have "splitlines_keep (l @ CHR 0x0A # s) = (l @ [CHR 0x0A]) # splitlines_keep s"
    and c: "\<not> line_break c" by (simp_all add: plain_line_def)
  moreover from c have "c \<noteq> CHR 0x0D" by (auto simp: line_break_def)
  ultimately show ?case by (cases l) simp_all
qed

lemma splitlines_keep_unlines:
  "\<forall>l\<in>set ls. plain_line l \<Longrightarrow> splitlines_keep (unlines ls) = map (\<lambda>l. l @ [CHR 0x0A]) ls"
  by (induction ls) (simp_all add: splitlines_keep_line)

lemma strip_break_line: "plain_line l \<Longrightarrow> strip_break (l @ [CHR 0x0A]) = l"
proof -
  assume l: "plain_line l"
  have "\<not> py_endswith (l @ [CHR 0x0A]) [CHR 0x0D, CHR 0x0A]"
  proof
    assume "py_endswith (l @ [CHR 0x0A]) [CHR 0x0D, CHR 0x0A]"
    then obtain r where "l @ [CHR 0x0A] = r @ [CHR 0x0D, CHR 0x0A]"
      unfolding py_endswith_def by (metis append_take_drop_id)
    then have "l = r @ [CHR 0x0D]" by simp
    with l show False by (simp add: plain_line_def line_break_def)
  qed
  then show ?thesis by (simp add: strip_break_def line_break_def)
qed

lemma py_splitlines_unlines: "\<forall>l\<in>set ls. plain_line l \<Longrightarrow> py_splitlines (unlines ls) = ls"
  by (simp add: py_splitlines_def splitlines_keep_unlines comp_def strip_break_line map_idI)

lemma py_join_unlines: "ls \<noteq> [] \<Longrightarrow> py_join [CHR 0x0A] ls @ [CHR 0x0A] = unlines ls"
proof (induction ls)
  case (Cons l ls)
  then show ?case by (cases "ls = []") (simp_all add: py_join_Cons)
qed simp

lemma unlines_endswith: "ls \<noteq> [] \<Longrightarrow> py_endswith (unlines ls) [CHR 0x0A]"
proof -
  assume "ls \<noteq> []"
  then have "unlines ls = py_join [CHR 0x0A] ls @ [CHR 0x0A]" by (simp add: py_join_unlines)
  then show ?thesis by (simp add: py_endswith_def)
qed

lemma py_join_eq_Nil: "py_join [c] ls = [] \<longleftrightarrow> ls = [] \<or> ls = [[]]"
proof (cases ls)
  case (Cons l ls')
  then show ?thesis by (cases "ls' = []") (simp_all add: py_join_Cons)
qed simp

lemma patch_lines_unlines:
  assumes "\<forall>l\<in>set ls. plain_line l" and "\<forall>l\<in>set ins. plain_line l" and "ls \<noteq> []" and "1 \<le> start" "0 \<le> n"
    and "r = take (nat start - 1) ls @ ins @ drop (nat start - 1 + nat n) ls" and "r \<noteq> []" "r \<noteq> [[]]"
  shows "patch_lines (unlines ls) start n (unlines ins) = unlines r"
proof -
  have ins: "(if unlines ins = [] then [] else py_splitlines (unlines ins)) = ins"
    using py_splitlines_unlines [OF assms(2)] by (cases ins) simp_all
  obtain m where start: "start = int m + 1" using assms(4) by (metis zle_iff_zadd add.commute)
  obtain k where n: "n = int k" using assms(5) by (metis nonneg_int_cases)
  have m: "nat start - 1 = m" using start by simp
  have before: "take (nat (min (max (start - 1) 0) (int (length ls)))) ls = take (nat start - 1) ls"
    unfolding m by (simp add: start min_def)
  have after: "py_drop (min (max (start - 1) 0 + n) (int (length ls))) ls = drop (nat start - 1 + nat n) ls"
    unfolding m by (simp add: start n py_drop_def min_def flip: of_nat_add)
  have "patch_lines (unlines ls) start n (unlines ins) =
      (if py_join [CHR 0x0A] r \<noteq> [] then py_join [CHR 0x0A] r @ [CHR 0x0A] else py_join [CHR 0x0A] r)"
    unfolding patch_lines_def Let_def py_splitlines_unlines [OF assms(1)] ins before after
    using assms(6) unlines_endswith [OF assms(3)] by simp
  then show ?thesis using assms(7,8) by (simp add: py_join_eq_Nil py_join_unlines)
qed

section \<open>Properties\<close>

lemma compute_hunks_rebuilds:
  assumes "byte_len baseline \<le> MAX_DIFF_FILE_SIZE" and "byte_len current \<le> MAX_DIFF_FILE_SIZE"
  shows "rebuilds (splitlines_keep baseline) (splitlines_keep current) 0 0
      (compute_hunks stamps path baseline current source) \<or> baseline = current"
proof -
  let ?old = "splitlines_keep baseline" and ?new = "splitlines_keep current"
  have "builder_at ?old ?new 0 0 0 0 None" by (simp add: builder_at_def)
  from walk_rebuilds [OF difflib.tiles [where autojunk = False] this, where stamps = stamps and path = path and source = source and hunks = "[]"]
  have "rebuilds ?old ?new 0 0 (walk_opcodes stamps path source ?old ?new (get_opcodes False ?old ?new) None [])"
    by auto
  with assms show ?thesis by (simp add: compute_hunks_def Let_def)
qed

text \<open>
  C12: The hunks of a comparison rebuild the current text from the lines of the baseline, and each
  hunk tells which lines of the baseline it replaces by which lines of the current text.
\<close>

theorem compute_hunks_rebuild:
  assumes "byte_len baseline \<le> MAX_DIFF_FILE_SIZE" and "byte_len current \<le> MAX_DIFF_FILE_SIZE"
  shows "apply_hunks 0 (splitlines_keep baseline) (compute_hunks stamps path baseline current source) = current \<and>
    (\<forall>h\<in>set (compute_hunks stamps path baseline current source).
       hunk_at (splitlines_keep baseline) (splitlines_keep current) h)"
proof (cases "baseline = current")
  case True
  then show ?thesis by (simp add: compute_hunks_def)
next
  case False
  with compute_hunks_rebuilds [OF assms] show ?thesis by (auto simp: rebuilds_def)
qed

text \<open>
  Undoing a review decision on the text works line by line: when two texts of newline-terminated
  lines differ in one hunk, patching the lines of the hunk into the baseline gives the current text,
  unless one of the texts is empty or the result is a single empty line.
\<close>

theorem patch_lines_applies_hunk:
  assumes "baseline = unlines xs" "current = unlines ys" "\<forall>l\<in>set xs \<union> set ys. plain_line l"
    and "xs \<noteq> []" "ys \<noteq> []" "ys \<noteq> [[]]"
    and "byte_len baseline \<le> MAX_DIFF_FILE_SIZE" "byte_len current \<le> MAX_DIFF_FILE_SIZE"
    and "compute_hunks stamps path baseline current source = [h]"
  shows "patch_lines baseline (old_start (h_line_info h)) (old_count (h_line_info h)) (h_new_text h) = current"
proof -
  let ?nl = "\<lambda>l. l @ [CHR 0x0A]"
  have keep: "splitlines_keep baseline = map ?nl xs" "splitlines_keep current = map ?nl ys"
    using assms(1-3) by (simp_all add: splitlines_keep_unlines)
  from compute_hunks_rebuild [OF assms(7,8), of stamps path source]
  have rebuild: "apply_hunks 0 (map ?nl xs) [h] = current" and at: "hunk_at (map ?nl xs) (map ?nl ys) h"
    by (simp_all only: assms(9) keep) simp_all
  from at obtain p i q j where
    info: "h_line_info h = \<lparr>old_start = int p + 1, old_count = int i, new_start = int q + 1, new_count = int j\<rparr>"
    and new: "h_new_text h = concat (slice (map ?nl ys) q (q + j))"
    unfolding hunk_at_def by blast
  have new': "h_new_text h = unlines (slice ys q (q + j))"
    by (simp add: new slice_def unlines_def take_map drop_map)
  let ?r = "take p xs @ slice ys q (q + j) @ drop (p + i) xs"
  have "current = unlines ?r"
    using rebuild by (simp add: info new' slice_def unlines_def take_map drop_map)
  moreover have plain: "\<forall>l\<in>set ?r. plain_line l"
    using assms(3) by (auto simp: slice_def dest: in_set_takeD in_set_dropD)
  ultimately have r: "ys = ?r" using assms(2,3) py_splitlines_unlines by (metis UnCI)
  have "patch_lines (unlines xs) (int p + 1) (int i) (unlines (slice ys q (q + j))) = unlines ?r"
  proof (rule patch_lines_unlines)
    show "\<forall>l\<in>set xs. plain_line l" using assms(3) by blast
    show "\<forall>l\<in>set (slice ys q (q + j)). plain_line l" using plain by auto
    have "nat (int p + 1) - 1 = p" by simp
    then show "?r = take (nat (int p + 1) - 1) xs @ slice ys q (q + j) @
        drop (nat (int p + 1) - 1 + nat (int i)) xs" by (simp only: nat_int)
    show "?r \<noteq> []" "?r \<noteq> [[]]" using assms(5,6) r by simp_all
  qed (use assms(4) in simp_all)
  then show ?thesis using r assms(1,2) by (simp add: info new')
qed

text \<open>
  Two hunks with non-negative counts overlap exactly when they are of the same file and their
  closed ranges of baseline lines meet; the special cases for insertions are instances of that.
\<close>

theorem hunks_overlap_iff:
  assumes "0 \<le> old_count (h_line_info a)" and "0 \<le> old_count (h_line_info b)"
  shows "hunks_overlap a b \<longleftrightarrow> h_path a = h_path b \<and>
    max (old_start (h_line_info a)) (old_start (h_line_info b)) \<le>
    min (old_start (h_line_info a) + old_count (h_line_info a)) (old_start (h_line_info b) + old_count (h_line_info b))"
  using assms by (auto simp: hunks_overlap_def Let_def)

lemma first_min_None [simp]: "first_min f xs = None \<longleftrightarrow> xs = []"
  by (cases xs) (simp_all split: option.splits)

lemma first_min_Some: "first_min f xs = Some y \<Longrightarrow> y \<in> set xs \<and> (\<forall>x\<in>set xs. f y \<le> f x)"
proof (induction xs arbitrary: y)
  case (Cons x xs)
  show ?case
  proof (cases "first_min f xs")
    case None
    with Cons(2) show ?thesis by simp
  next
    case (Some z)
    with Cons(2) Cons(1) [OF Some] show ?thesis by (cases "f x \<le> f z") auto
  qed
qed simp

text \<open>
  The match of a hunk among older ones is the nearest of those with the same content; only when
  there is none is it the one with the largest overlap, and nothing only when none overlaps.
\<close>

theorem matching_hunk_is_best:
  "case find_matching_old_hunk h hs of
     None \<Rightarrow> (\<forall>o'\<in>set hs. \<not> hunks_match_content o' h \<and> \<not> hunks_overlap o' h)
   | Some best \<Rightarrow> best \<in> set hs \<and>
       (if \<exists>o'\<in>set hs. hunks_match_content o' h
        then hunks_match_content best h \<and> (\<forall>o'\<in>set hs. hunks_match_content o' h \<longrightarrow>
          \<bar>new_start (h_line_info best) - new_start (h_line_info h)\<bar> \<le>
          \<bar>new_start (h_line_info o') - new_start (h_line_info h)\<bar>)
        else hunks_overlap best h \<and> (\<forall>o'\<in>set hs. hunks_overlap o' h \<longrightarrow>
          calculate_overlap_size (h_line_info o') (h_line_info h) \<le>
          calculate_overlap_size (h_line_info best) (h_line_info h)))"
proof (cases "find_matching_old_hunk h hs")
  case None
  then show ?thesis
    by (auto simp: find_matching_old_hunk_def filter_empty_conv Let_def split: if_splits)
next
  case (Some best)
  show ?thesis
  proof (cases "\<exists>o'\<in>set hs. hunks_match_content o' h")
    case True
    then have "filter (\<lambda>o'. hunks_match_content o' h) hs \<noteq> []" by (simp add: filter_empty_conv)
    with Some have "first_min (\<lambda>o'. \<bar>new_start (h_line_info o') - new_start (h_line_info h)\<bar>)
        (filter (\<lambda>o'. hunks_match_content o' h) hs) = Some best"
      by (simp add: find_matching_old_hunk_def)
    from first_min_Some [OF this] True Some show ?thesis by auto
  next
    case False
    then have "filter (\<lambda>o'. hunks_match_content o' h) hs = []" by (simp add: filter_empty_conv)
    with Some have "first_min (\<lambda>o'. - calculate_overlap_size (h_line_info o') (h_line_info h))
        (filter (\<lambda>o'. hunks_overlap o' h) hs) = Some best"
      by (simp add: find_matching_old_hunk_def)
    from first_min_Some [OF this] False Some show ?thesis by auto
  qed
qed

section \<open>Examples\<close>

definition ex_stamps :: hunk_stamps where "ex_stamps n = (py_str_nat n, int n)"

definition ex_before :: string where "ex_before = unlines [''a'', ''b'', ''c'']"

definition ex_after :: string where "ex_after = unlines [''a'', ''x'', ''y'', ''c'']"

lemma ex_sizes: "byte_len ex_before \<le> MAX_DIFF_FILE_SIZE" "byte_len ex_after \<le> MAX_DIFF_FILE_SIZE"
  by (simp_all add: byte_len_def MAX_DIFF_FILE_SIZE_def ex_before_def ex_after_def)

definition ex_hunk :: hunk where
  "ex_hunk =
     \<lparr>h_id = ''0'', h_path = ''f'',
      h_line_info = \<lparr>old_start = 2, old_count = 1, new_start = 2, new_count = 2\<rparr>,
      h_source = AgentEdit 3, h_old_text = Some (unlines [''b'']), h_new_text = unlines [''x'', ''y''],
      h_patch = None, h_created_at = 0, h_selected = False\<rparr>"

lemma ex_hunks: "compute_hunks ex_stamps ''f'' ex_before ex_after (AgentEdit 3) = [ex_hunk]"
proof -
  have "walk_opcodes ex_stamps ''f'' (AgentEdit 3) (splitlines_keep ex_before) (splitlines_keep ex_after)
      (get_opcodes False (splitlines_keep ex_before) (splitlines_keep ex_after)) None [] = [ex_hunk]"
    by code_simp
  moreover have "ex_before \<noteq> ex_after" by code_simp
  ultimately show ?thesis using ex_sizes by (simp add: compute_hunks_def Let_def)
qed

theorem compute_hunks_rebuild_witness:
  "apply_hunks 0 (splitlines_keep ex_before) [ex_hunk] = ex_after"
  using compute_hunks_rebuild [OF ex_sizes, of ex_stamps "''f''" "AgentEdit 3"] by (simp add: ex_hunks)

theorem patch_lines_applies_hunk_witness:
  "patch_lines ex_before (old_start (h_line_info ex_hunk)) (old_count (h_line_info ex_hunk))
     (h_new_text ex_hunk) = ex_after"
proof (rule patch_lines_applies_hunk [OF ex_before_def ex_after_def _ _ _ _ ex_sizes ex_hunks])
  show "\<forall>l\<in>set [''a'', ''b'', ''c''] \<union> set [''a'', ''x'', ''y'', ''c'']. plain_line l" by code_simp
qed simp_all

text \<open>Without the exceptions it fails: a result of one empty line is lost.\<close>

lemma patch_lines_loses_empty_line: "patch_lines (unlines [[], ''a'']) 2 1 [] = []"
  by code_simp

theorem hunks_overlap_iff_witness: "hunks_overlap ex_hunk ex_hunk"
proof -
  have "0 \<le> old_count (h_line_info ex_hunk)" by code_simp
  from hunks_overlap_iff [OF this this] this show ?thesis by simp
qed

theorem matching_hunk_is_best_witness:
  "find_matching_old_hunk ex_hunk [ex_hunk] = Some ex_hunk"
  using matching_hunk_is_best [where h = ex_hunk and hs = "[ex_hunk]"]
  by (cases "find_matching_old_hunk ex_hunk [ex_hunk]") (auto simp: hunks_match_content_def)

text \<open>
  The header that \<open>generate_hunk_patch\<close> writes gives the start in the current file as the start in
  the baseline: after a hunk that shifted the lines it is wrong. Here the current text has two
  more lines before the change at line 4, so the hunk with its line of context starts at line 3.
\<close>

definition ex_shifted :: "string \<times> string" where
  "ex_shifted = (unlines [''a'', ''b''], unlines [''x'', ''y'', ''a'', ''c''])"

lemma hunk_patch_header_misplaced:
  "map (\<lambda>h. (new_start (h_line_info h),
       takeWhile (\<lambda>c. c \<noteq> CHR 0x0A) (generate_hunk_patch (fst ex_shifted) (snd ex_shifted) h)))
     (compute_hunks ex_stamps ''f'' (fst ex_shifted) (snd ex_shifted) External) =
   [(1, ''@@ -1,2 +1,4 @@''), (4, ''@@ -1,2 +1,2 @@'')]"
proof -
  have "map (\<lambda>h. (new_start (h_line_info h),
       takeWhile (\<lambda>c. c \<noteq> CHR 0x0A) (generate_hunk_patch (fst ex_shifted) (snd ex_shifted) h)))
     (walk_opcodes ex_stamps ''f'' External (splitlines_keep (fst ex_shifted)) (splitlines_keep (snd ex_shifted))
      (get_opcodes False (splitlines_keep (fst ex_shifted)) (splitlines_keep (snd ex_shifted))) None []) =
   [(1, ''@@ -1,2 +1,4 @@''), (4, ''@@ -1,2 +1,2 @@'')]" by code_simp
  moreover have "byte_len (fst ex_shifted) \<le> MAX_DIFF_FILE_SIZE" "byte_len (snd ex_shifted) \<le> MAX_DIFF_FILE_SIZE"
    by (simp_all add: byte_len_def MAX_DIFF_FILE_SIZE_def ex_shifted_def)
  moreover have "fst ex_shifted \<noteq> snd ex_shifted" by code_simp
  ultimately show ?thesis by (simp add: compute_hunks_def Let_def)
qed

text \<open>
  A change of the final newline alone is a hunk, but the patch of the whole file leaves it out: the
  lines are compared without their ends.
\<close>

lemma newline_change_has_no_patch:
  "generate_unified_patch ''f'' ''a'' (unlines [''a'']) = None \<and>
   map h_new_text (compute_hunks ex_stamps ''f'' ''a'' (unlines [''a'']) External) = [unlines [''a'']]"
proof
  have "unified_diff (py_splitlines ''a'') (py_splitlines (unlines [''a''])) ''a/f'' ''b/f'' (nat CONTEXT_LINES) = []"
    by code_simp
  then show "generate_unified_patch ''f'' ''a'' (unlines [''a'']) = None"
    by (simp add: generate_unified_patch_def Let_def)
  have "map h_new_text (walk_opcodes ex_stamps ''f'' External (splitlines_keep ''a'') (splitlines_keep (unlines [''a'']))
      (get_opcodes False (splitlines_keep ''a'') (splitlines_keep (unlines [''a'']))) None []) = [unlines [''a'']]"
    by code_simp
  then show "map h_new_text (compute_hunks ex_stamps ''f'' ''a'' (unlines [''a'']) External) = [unlines [''a'']]"
    by (simp add: compute_hunks_def byte_len_def MAX_DIFF_FILE_SIZE_def Let_def)
qed

lemma unified_diff_example:
  "unified_diff [''a'', ''b'', ''c''] [''a'', ''x'', ''y'', ''c''] ''a/f'' ''b/f'' 3 =
    [''--- a/f'', ''+++ b/f'', ''@@ -1,3 +1,4 @@'', '' a'', ''-b'', ''+x'', ''+y'', '' c'']"
  by code_simp

end
