(* ===== verification/Admission.thy ===== *)
theory Admission
  imports Py_Strings
begin

text \<open>
  The admission of tool calls at three scopes (\<open>computer_hub_sdk/admission.py\<close>): closeable counting
  semaphores, acquired in the order session, connection, process, against one deadline. The
  coroutines are cut at their awaits: a call that waits holds a future, and the events below are
  the segments between awaits in any interleaving. Semaphores and futures are objects, named by
  numbers. \<open>Expire\<close> is the timer of \<open>asyncio.wait_for\<close>, \<open>Cancel\<close> a cancellation of the task from
  outside; both raise inside the awaited future and take effect in one step.
\<close>

section \<open>The closeable semaphore\<close>

record semaphore =
  s_value :: int
  s_waiters :: "nat list"
  s_closed :: bool

definition new_semaphore :: "int \<Rightarrow> semaphore" where
  "new_semaphore n = \<lparr>s_value = n, s_waiters = [], s_closed = False\<rparr>"

text \<open>\<open>close\<close> and \<open>release\<close> also complete futures: the list holds the completed ones.\<close>

definition sem_close :: "semaphore \<Rightarrow> nat list \<Rightarrow> semaphore \<times> nat list" where
  "sem_close s completed = (s\<lparr>s_closed := True, s_waiters := []\<rparr>, completed @ s_waiters s)"

definition sem_release :: "semaphore \<Rightarrow> nat list \<Rightarrow> semaphore \<times> nat list" where
  "sem_release s completed =
     (if s_closed s then (s, completed)
      else case dropWhile (\<lambda>f. f \<in> set completed) (s_waiters s) of
             [] \<Rightarrow> (s\<lparr>s_value := s_value s + 1, s_waiters := []\<rparr>, completed)
           | f # fs \<Rightarrow> (s\<lparr>s_value := s_value s + 1, s_waiters := fs\<rparr>, completed @ [f]))"

section \<open>Calls, connections and the process\<close>

datatype overload_reason = TIMEOUT | SHUTDOWN

text \<open>
  A call has the semaphores it holds and those it has still to acquire, and waits for a future of
  the first of them; or it has been admitted, refused, released, or cancelled while it waited.
\<close>

datatype call_state =
    Acquiring "nat list" "nat list" rat nat
  | Admitted "nat list"
  | Refused overload_reason
  | Released
  | Cancelled "nat list"

record admission =
  ad_session_sems :: "(string, nat) dict"
  ad_session_max :: int
  ad_conn_sem :: nat
  ad_wait_timeout :: rat

record world =
  w_sems :: "nat \<Rightarrow> semaphore"
  w_next_sem :: nat
  w_completed :: "nat list"
  w_next_future :: nat
  w_admissions :: "(string, admission) dict"
  w_calls :: "(nat, call_state) dict"

definition GLOBAL_SEM :: nat where "GLOBAL_SEM = 0"

definition set_call :: "nat \<Rightarrow> call_state \<Rightarrow> world \<Rightarrow> world" where
  "set_call c s w = w\<lparr>w_calls := dict_set c s (w_calls w)\<rparr>"

definition set_sem :: "nat \<Rightarrow> semaphore \<Rightarrow> world \<Rightarrow> world" where
  "set_sem r s w = w\<lparr>w_sems := (w_sems w)(r := s)\<rparr>"

definition create_sem :: "int \<Rightarrow> world \<Rightarrow> nat \<times> world" where
  "create_sem n w =
     (w_next_sem w, (set_sem (w_next_sem w) (new_semaphore n) w)\<lparr>w_next_sem := w_next_sem w + 1\<rparr>)"

definition release_ref :: "nat \<Rightarrow> world \<Rightarrow> world" where
  "release_ref r w =
     (case sem_release (w_sems w r) (w_completed w) of
        (s, completed) \<Rightarrow> (set_sem r s w)\<lparr>w_completed := completed\<rparr>)"

definition release_all :: "nat list \<Rightarrow> world \<Rightarrow> world" where
  "release_all rs w = foldl (\<lambda>w r. release_ref r w) w rs"

text \<open>A failed scope gives back the permits of the scopes before it.\<close>

definition refuse :: "nat \<Rightarrow> nat list \<Rightarrow> overload_reason \<Rightarrow> world \<Rightarrow> world" where
  "refuse c held reason w = set_call c (Refused reason) (release_all held w)"

definition wait_for_permit :: "nat \<Rightarrow> nat list \<Rightarrow> nat \<Rightarrow> nat list \<Rightarrow> rat \<Rightarrow> world \<Rightarrow> world" where
  "wait_for_permit c held r rs deadline w =
     (let f = w_next_future w; s = w_sems w r
      in set_call c (Acquiring held (r # rs) deadline f)
           (set_sem r (s\<lparr>s_waiters := s_waiters s @ [f]\<rparr>) w)\<lparr>w_next_future := f + 1\<rparr>)"

text \<open>
  One segment of \<open>admit\<close>: it takes permits until one is missing. The clock is read before each
  scope that is entered, but not when a waiting scope is tried again.
\<close>

fun acquire_from ::
  "bool \<Rightarrow> nat \<Rightarrow> nat list \<Rightarrow> nat list \<Rightarrow> rat \<Rightarrow> (nat \<Rightarrow> rat) \<Rightarrow> world \<Rightarrow> world" where
  "acquire_from entered c held [] deadline clock w = set_call c (Admitted held) w"
| "acquire_from entered c held (r # rs) deadline clock w =
     (if \<not> entered \<and> deadline - clock (length held) \<le> 0 then refuse c held TIMEOUT w
      else
        let s = w_sems w r
        in if s_closed s then refuse c held SHUTDOWN w
           else if 0 < s_value s
           then acquire_from False c (held @ [r]) rs deadline clock (set_sem r (s\<lparr>s_value := s_value s - 1\<rparr>) w)
           else wait_for_permit c held r rs deadline w)"

section \<open>The events\<close>

definition open_connection :: "string \<Rightarrow> int \<Rightarrow> int \<Rightarrow> rat \<Rightarrow> world \<Rightarrow> world" where
  "open_connection conn session_max conn_max timeout w =
     (let (r, w) = create_sem conn_max w
      in w\<lparr>w_admissions := dict_set conn
            \<lparr>ad_session_sems = [], ad_session_max = session_max, ad_conn_sem = r, ad_wait_timeout = timeout\<rparr>
            (w_admissions w)\<rparr>)"

definition ensure_session :: "string \<Rightarrow> admission \<Rightarrow> string \<Rightarrow> world \<Rightarrow> world" where
  "ensure_session conn a session w =
     (if dict_has (ad_session_sems a) session then w
      else let (r, w) = create_sem (ad_session_max a) w
           in w\<lparr>w_admissions := dict_set conn
                 (a\<lparr>ad_session_sems := dict_set session r (ad_session_sems a)\<rparr>) (w_admissions w)\<rparr>)"

definition remove_session :: "string \<Rightarrow> admission \<Rightarrow> string \<Rightarrow> world \<Rightarrow> world" where
  "remove_session conn a session w =
     w\<lparr>w_admissions := dict_set conn
        (a\<lparr>ad_session_sems := dict_pop session (ad_session_sems a)\<rparr>) (w_admissions w)\<rparr>"

text \<open>A call of a session that has been removed gets a semaphore of its own.\<close>

definition admit :: "admission \<Rightarrow> string \<Rightarrow> nat \<Rightarrow> rat \<Rightarrow> (nat \<Rightarrow> rat) \<Rightarrow> world \<Rightarrow> world" where
  "admit a session c start clock w =
     (let (r, w) = (case dict_get (ad_session_sems a) session of
                      Some r \<Rightarrow> (r, w) | None \<Rightarrow> create_sem (ad_session_max a) w)
      in acquire_from False c [] [r, ad_conn_sem a, GLOBAL_SEM] (start + ad_wait_timeout a) clock w)"

text \<open>Leaving the wait removes the future from the queue if it is still there.\<close>

definition leave_queue :: "nat \<Rightarrow> nat \<Rightarrow> world \<Rightarrow> world" where
  "leave_queue r f w =
     set_sem r ((w_sems w r)\<lparr>s_waiters := removeAll f (s_waiters (w_sems w r))\<rparr>) w"

definition wake :: "nat \<Rightarrow> nat list \<Rightarrow> nat \<Rightarrow> nat list \<Rightarrow> rat \<Rightarrow> nat \<Rightarrow> (nat \<Rightarrow> rat) \<Rightarrow> world \<Rightarrow> world" where
  "wake c held r rs deadline f clock w =
     acquire_from True c held (r # rs) deadline clock (leave_queue r f w)"

definition expire :: "nat \<Rightarrow> nat list \<Rightarrow> nat \<Rightarrow> nat \<Rightarrow> world \<Rightarrow> world" where
  "expire c held r f w = refuse c held TIMEOUT (leave_queue r f w)"

definition cancel :: "nat \<Rightarrow> nat list \<Rightarrow> nat \<Rightarrow> nat \<Rightarrow> world \<Rightarrow> world" where
  "cancel c held r f w = set_call c (Cancelled held) (leave_queue r f w)"

definition guard_release :: "nat \<Rightarrow> nat list \<Rightarrow> world \<Rightarrow> world" where
  "guard_release c held w = set_call c Released (release_all (rev held) w)"

definition close_ref :: "nat \<Rightarrow> world \<Rightarrow> world" where
  "close_ref r w =
     (case sem_close (w_sems w r) (w_completed w) of
        (s, completed) \<Rightarrow> (set_sem r s w)\<lparr>w_completed := completed\<rparr>)"

text \<open>The process at its start: the process-wide semaphore and no connection.\<close>

definition start_world :: "int \<Rightarrow> world" where
  "start_world global_max =
     \<lparr>w_sems = (\<lambda>_. new_semaphore 0)(GLOBAL_SEM := new_semaphore global_max), w_next_sem = 1,
      w_completed = [], w_next_future = 0, w_admissions = [], w_calls = []\<rparr>"

inductive admission_step :: "world \<Rightarrow> world \<Rightarrow> bool" where
  open_conn: "\<not> dict_has (w_admissions w) conn \<Longrightarrow> 0 \<le> cm \<Longrightarrow> 0 \<le> sm \<Longrightarrow>
     admission_step w (open_connection conn sm cm timeout w)"
| ensure: "dict_get (w_admissions w) conn = Some a \<Longrightarrow> admission_step w (ensure_session conn a session w)"
| remove: "dict_get (w_admissions w) conn = Some a \<Longrightarrow> admission_step w (remove_session conn a session w)"
| admit: "dict_get (w_admissions w) conn = Some a \<Longrightarrow> \<not> dict_has (w_calls w) c \<Longrightarrow>
     admission_step w (admit a session c start clock w)"
| wake: "dict_get (w_calls w) c = Some (Acquiring held (r # rs) deadline f) \<Longrightarrow> f \<in> set (w_completed w) \<Longrightarrow>
     admission_step w (wake c held r rs deadline f clock w)"
| expire: "dict_get (w_calls w) c = Some (Acquiring held (r # rs) deadline f) \<Longrightarrow> deadline \<le> t \<Longrightarrow>
     admission_step w (expire c held r f w)"
| cancel: "dict_get (w_calls w) c = Some (Acquiring held (r # rs) deadline f) \<Longrightarrow>
     admission_step w (cancel c held r f w)"
| release: "dict_get (w_calls w) c = Some (Admitted held) \<Longrightarrow> admission_step w (guard_release c held w)"
| close: "admission_step w (close_ref r w)"

inductive_cases admission_stepE: "admission_step w w'"

abbreviation admission_steps :: "world \<Rightarrow> world \<Rightarrow> bool" where
  "admission_steps \<equiv> admission_step\<^sup>*\<^sup>*"

section \<open>The process-wide cap\<close>

text \<open>\<^term>\<open>None\<close> is the \<open>ValueError\<close> of \<open>int\<close>.\<close>

definition resolve_global_cap :: "string option \<Rightarrow> int \<Rightarrow> int option" where
  "resolve_global_cap raw default_cap =
     (case raw of
        None \<Rightarrow> Some default_cap
      | Some s \<Rightarrow>
          if s = [] \<or> \<not> list_all is_digit s then Some default_cap
          else case py_int s of
                 None \<Rightarrow> None | Some n \<Rightarrow> Some (if 0 < n then n else default_cap))"

text \<open>The process-wide semaphore is made at the first call; later defaults are ignored.\<close>

definition global_semaphore ::
  "string option \<Rightarrow> int \<Rightarrow> semaphore option \<Rightarrow> (semaphore \<times> semaphore option) option" where
  "global_semaphore env default_cap current =
     (case current of
        Some s \<Rightarrow> Some (s, current)
      | None \<Rightarrow>
          (case resolve_global_cap env default_cap of
             None \<Rightarrow> None | Some n \<Rightarrow> Some (new_semaphore n, Some (new_semaphore n))))"

section \<open>Permits are conserved\<close>

fun permits :: "call_state \<Rightarrow> nat list" where
  "permits (Acquiring held todo deadline f) = held"
| "permits (Admitted held) = held"
| "permits (Refused reason) = []"
| "permits Released = []"
| "permits (Cancelled held) = held"

definition permits_of :: "world \<Rightarrow> nat \<Rightarrow> nat list" where
  "permits_of w c = (case dict_get (w_calls w) c of None \<Rightarrow> [] | Some s \<Rightarrow> permits s)"

definition held_of :: "world \<Rightarrow> nat \<Rightarrow> int" where
  "held_of w r = (\<Sum>c\<in>set (dict_keys (w_calls w)). int (count_list (permits_of w c) r))"

abbreviation free :: "world \<Rightarrow> nat \<Rightarrow> int" where
  "free w r \<equiv> s_value (w_sems w r)"

abbreviation closed :: "world \<Rightarrow> nat \<Rightarrow> bool" where
  "closed w r \<equiv> s_closed (w_sems w r)"

lemma permits_of_set_call [simp]:
  "permits_of (set_call c s w) d = (if d = c then permits s else permits_of w d)"
  by (simp add: permits_of_def set_call_def dict_simps)

lemma held_of_set_call:
  "held_of (set_call c s w) r = held_of w r - int (count_list (permits_of w c) r) + int (count_list (permits s) r)"
proof -
  let ?K = "set (dict_keys (w_calls w))"
  let ?f = "\<lambda>c. int (count_list (permits_of w c) r)"
  have absent: "?f c = 0" if "c \<notin> ?K"
    using that by (simp add: permits_of_def dict_has_iff [symmetric] not_dict_has del: set_map)
  have "held_of (set_call c s w) r =
      (\<Sum>d\<in>insert c ?K. int (count_list (permits_of (set_call c s w) d) r))"
    by (simp add: held_of_def set_call_def del: set_map)
  also have "\<dots> = int (count_list (permits s) r) + (\<Sum>d\<in>?K - {c}. ?f d)"
    by (subst sum.insert_remove) (auto intro!: sum.cong)
  also have "(\<Sum>d\<in>?K - {c}. ?f d) = held_of w r - ?f c"
    using absent by (cases "c \<in> ?K") (simp_all add: held_of_def sum_diff1)
  finally show ?thesis by simp
qed

lemma held_of_cong: "w_calls w' = w_calls w \<Longrightarrow> held_of w' r = held_of w r"
  by (simp add: held_of_def permits_of_def)

lemma world_sets [simp]:
  "w_calls (set_sem r s w) = w_calls w" "w_next_sem (set_sem r s w) = w_next_sem w"
  "w_admissions (set_sem r s w) = w_admissions w"
  "w_sems (set_sem r s w) = (w_sems w)(r := s)" "w_completed (set_sem r s w) = w_completed w"
  "w_sems (set_call c x w) = w_sems w" "w_next_sem (set_call c x w) = w_next_sem w"
  "w_admissions (set_call c x w) = w_admissions w" "w_completed (set_call c x w) = w_completed w"
  "w_calls (set_call c x w) = dict_set c x (w_calls w)"
  by (simp_all add: set_sem_def set_call_def)

lemma release_ref_fields [simp]:
  "w_calls (release_ref r w) = w_calls w" "w_next_sem (release_ref r w) = w_next_sem w"
  "w_admissions (release_ref r w) = w_admissions w"
  "closed (release_ref r w) q = closed w q"
  "free (release_ref r w) q = free w q + (if q = r \<and> \<not> closed w r then 1 else 0)"
  by (auto simp: release_ref_def sem_release_def split: list.splits)

lemma release_all_fields [simp]:
  "w_calls (release_all rs w) = w_calls w" "w_next_sem (release_all rs w) = w_next_sem w"
  "w_admissions (release_all rs w) = w_admissions w"
  "closed (release_all rs w) q = closed w q"
  by (induction rs arbitrary: w) (simp_all add: release_all_def)

lemma release_all_free:
  "free (release_all rs w) q = free w q + (if closed w q then 0 else int (count_list rs q))"
  by (induction rs arbitrary: w) (simp_all add: release_all_def)

text \<open>
  From \<open>w\<close> to \<open>w'\<close> the permits of semaphore \<open>r\<close> are conserved, counted with \<open>k\<close> more held at \<open>w\<close>:
  none appear, and while it is open none get lost.
\<close>

definition conserved_at :: "int \<Rightarrow> world \<Rightarrow> world \<Rightarrow> nat \<Rightarrow> bool" where
  "conserved_at k w w' r =
     ((closed w r \<longrightarrow> closed w' r) \<and> (0 \<le> free w r \<longrightarrow> 0 \<le> free w' r) \<and>
      free w' r + held_of w' r \<le> free w r + held_of w r + k \<and>
      (\<not> closed w' r \<longrightarrow> free w' r + held_of w' r = free w r + held_of w r + k))"

lemma conserved_refl [simp]: "conserved_at 0 w w r"
  by (simp add: conserved_at_def)

lemma conserved_trans: "conserved_at k w w' r \<Longrightarrow> conserved_at l w' w'' r \<Longrightarrow> conserved_at (k + l) w w'' r"
  unfolding conserved_at_def by linarith

text \<open>What a call of the segment may still owe: the permits it took since it was last recorded.\<close>

definition owed :: "world \<Rightarrow> nat \<Rightarrow> nat list \<Rightarrow> nat \<Rightarrow> int" where
  "owed w c held r = int (count_list held r) - int (count_list (permits_of w c) r)"

lemma conserved_set_call:
  "conserved_at (owed w c (permits s) r) w (set_call c s w) r"
  by (simp add: conserved_at_def owed_def held_of_set_call)

lemma conserved_refuse: "conserved_at (owed w c held r) w (refuse c held reason w) r"
proof -
  have "held_of (release_all held w) r = held_of w r" by (rule held_of_cong) simp
  moreover have "permits_of (release_all held w) c = permits_of w c" by (simp add: permits_of_def)
  ultimately show ?thesis
    by (simp add: refuse_def conserved_at_def owed_def held_of_set_call release_all_free)
qed

lemma conserved_wait: "conserved_at (owed w c held r) w (wait_for_permit c held q rs deadline w) r"
proof -
  let ?w = "set_sem q ((w_sems w q)\<lparr>s_waiters := s_waiters (w_sems w q) @ [w_next_future w]\<rparr>) w"
  have "held_of ?w r = held_of w r" by (rule held_of_cong) simp
  moreover have "permits_of ?w c = permits_of w c" by (simp add: permits_of_def)
  moreover have "held_of (v\<lparr>w_next_future := n\<rparr>) r = held_of v r" for v n by (rule held_of_cong) simp
  ultimately show ?thesis
    by (simp add: wait_for_permit_def conserved_at_def owed_def held_of_set_call Let_def)
qed

lemma conserved_acquire: "conserved_at (owed w c held r) w (acquire_from e c held todo deadline clock w) r"
proof (induction todo arbitrary: e held w)
  case Nil
  show ?case using conserved_set_call [of w c "Admitted held" r] by simp
next
  case (Cons q rs)
  consider (late) "\<not> e \<and> deadline - clock (length held) \<le> 0"
    | (closed) "\<not> (\<not> e \<and> deadline - clock (length held) \<le> 0)" "closed w q"
    | (free) "\<not> (\<not> e \<and> deadline - clock (length held) \<le> 0)" "\<not> closed w q" "0 < free w q"
    | (full) "\<not> (\<not> e \<and> deadline - clock (length held) \<le> 0)" "\<not> closed w q" "\<not> 0 < free w q"
    by blast
  then show ?case
  proof cases
    case free
    let ?w = "set_sem q ((w_sems w q)\<lparr>s_value := free w q - 1\<rparr>) w"
    have "held_of ?w r = held_of w r" by (rule held_of_cong) simp
    then have "conserved_at (if r = q then - 1 else 0) w ?w r" using free by (simp add: conserved_at_def)
    from conserved_trans [OF this Cons [of ?w "held @ [q]" False]]
    have "conserved_at ((if r = q then - 1 else 0) + owed ?w c (held @ [q]) r) w
        (acquire_from False c (held @ [q]) rs deadline clock ?w) r" .
    moreover have "(if r = q then - 1 else 0) + owed ?w c (held @ [q]) r = owed w c held r"
      by (simp add: owed_def permits_of_def)
    ultimately show ?thesis using free by (auto simp: Let_def)
  qed (simp_all add: Let_def conserved_refuse conserved_wait)
qed

lemma acquire_next_sem [simp]: "w_next_sem (acquire_from e c held todo deadline clock w) = w_next_sem w"
  by (induction todo arbitrary: e held w) (simp_all add: refuse_def wait_for_permit_def Let_def)

declare acquire_from.simps [simp del]

lemma leave_queue_fields [simp]:
  "w_calls (leave_queue q f w) = w_calls w" "w_next_sem (leave_queue q f w) = w_next_sem w"
  "free (leave_queue q f w) r = free w r" "closed (leave_queue q f w) r = closed w r"
  "held_of (leave_queue q f w) r = held_of w r" "permits_of (leave_queue q f w) c = permits_of w c"
  by (simp_all add: leave_queue_def permits_of_def held_of_def)

lemma conserved_same:
  "w_calls w' = w_calls w \<Longrightarrow> w_sems w' r = w_sems w r \<Longrightarrow> conserved_at 0 w w' r"
  using held_of_cong [of w' w r] by (simp add: conserved_at_def)

lemma conserved_leave: "conserved_at 0 w (leave_queue q f w) r"
  by (simp add: conserved_at_def)

lemma create_sem_fields:
  "create_sem n w = (q, w') \<Longrightarrow> q = w_next_sem w \<and> w_next_sem w' = w_next_sem w + 1 \<and>
     w_calls w' = w_calls w \<and> w_sems w' = (w_sems w)(q := new_semaphore n) \<and>
     w_admissions w' = w_admissions w"
  by (auto simp: create_sem_def)

lemma conserved_step:
  assumes "admission_step w w'" and r: "r < w_next_sem w"
  shows "conserved_at 0 w w' r \<and> w_next_sem w \<le> w_next_sem w'"
  using assms(1)
proof cases
  case (open_conn conn cm sm timeout)
  with r show ?thesis
    by (auto simp: open_connection_def Let_def split: prod.splits dest!: create_sem_fields intro!: conserved_same)
next
  case (ensure conn a session)
  with r show ?thesis
    by (auto simp: ensure_session_def Let_def split: prod.splits dest!: create_sem_fields intro!: conserved_same)
next
  case (remove conn a session)
  then show ?thesis by (auto simp: remove_session_def intro!: conserved_same)
next
  case (admit conn a c session start clock)
  obtain q w1 where q: "(case dict_get (ad_session_sems a) session of
      Some r \<Rightarrow> (r, w) | None \<Rightarrow> create_sem (ad_session_max a) w) = (q, w1)" by (rule prod.exhaust)
  then have w1: "w_calls w1 = w_calls w" "w_sems w1 r = w_sems w r" "w_next_sem w \<le> w_next_sem w1"
    using r by (auto split: option.splits dest!: create_sem_fields)
  have "owed w1 c [] r = 0" using admit(3) by (simp add: owed_def permits_of_def w1 not_dict_has)
  with conserved_trans [OF conserved_same [OF w1(1,2)] conserved_acquire [of w1 c "[]" r]] w1(3) q
  show ?thesis by (simp add: admit(1) admit_def)
next
  case (wake c held q rs deadline f clock)
  have "owed (leave_queue q f w) c held r = 0" using wake(2) by (simp add: owed_def permits_of_def)
  with conserved_trans [OF conserved_leave conserved_acquire [of "leave_queue q f w" c held r]]
  show ?thesis by (simp add: wake(1) wake_def)
next
  case (expire c held q rs deadline f t)
  have "owed (leave_queue q f w) c held r = 0" using expire(2) by (simp add: owed_def permits_of_def)
  with conserved_trans [OF conserved_leave conserved_refuse [of "leave_queue q f w" c held r TIMEOUT]]
  show ?thesis by (simp add: expire(1) expire_def refuse_def)
next
  case (cancel c held q rs deadline f)
  have "owed (leave_queue q f w) c (permits (Cancelled held)) r = 0"
    using cancel(2) by (simp add: owed_def permits_of_def)
  with conserved_trans [OF conserved_leave conserved_set_call [of "leave_queue q f w" c "Cancelled held" r]]
  show ?thesis by (simp add: cancel(1) cancel_def)
next
  case (release c held)
  have "count_list (rev held) r = count_list held r" by simp
  moreover have "held_of (release_all (rev held) w) r = held_of w r" by (rule held_of_cong) simp
  moreover have "permits_of (release_all (rev held) w) c = held" using release(2) by (simp add: permits_of_def)
  ultimately show ?thesis
    by (simp add: release(1) guard_release_def conserved_at_def held_of_set_call release_all_free)
next
  case (close q)
  then show ?thesis
    by (auto simp: close_ref_def sem_close_def conserved_at_def held_of_def permits_of_def)
qed

section \<open>What calls refer to\<close>

fun refs :: "call_state \<Rightarrow> nat list" where
  "refs (Acquiring held todo deadline f) = held @ todo"
| "refs (Admitted held) = held"
| "refs (Refused reason) = []"
| "refs Released = []"
| "refs (Cancelled held) = held"

fun in_order :: "call_state \<Rightarrow> bool" where
  "in_order (Acquiring held todo deadline f) = (last (held @ todo) = GLOBAL_SEM \<and> held @ todo \<noteq> [])"
| "in_order (Admitted held) = (last held = GLOBAL_SEM \<and> held \<noteq> [])"
| "in_order s = True"

definition refs_ok :: "world \<Rightarrow> bool" where
  "refs_ok w =
     (GLOBAL_SEM < w_next_sem w \<and>
      (\<forall>c s. dict_get (w_calls w) c = Some s \<longrightarrow> in_order s \<and> (\<forall>r\<in>set (refs s). r < w_next_sem w)) \<and>
      (\<forall>conn a. dict_get (w_admissions w) conn = Some a \<longrightarrow>
         ad_conn_sem a < w_next_sem w \<and>
         (\<forall>session r. dict_get (ad_session_sems a) session = Some r \<longrightarrow> r < w_next_sem w)))"

lemma refs_ok_set_call:
  "refs_ok w \<Longrightarrow> in_order s \<Longrightarrow> \<forall>r\<in>set (refs s). r < w_next_sem w \<Longrightarrow> refs_ok (set_call c s w)"
  by (simp add: refs_ok_def dict_simps)

lemma refs_ok_frame:
  "refs_ok w \<Longrightarrow> w_calls w' = w_calls w \<Longrightarrow> w_admissions w' = w_admissions w \<Longrightarrow>
   w_next_sem w \<le> w_next_sem w' \<Longrightarrow> refs_ok w'"
  by (fastforce simp: refs_ok_def intro: less_le_trans)

lemma refs_ok_refuse: "refs_ok w \<Longrightarrow> refs_ok (refuse c held reason w)"
  unfolding refuse_def by (rule refs_ok_set_call) (auto elim: refs_ok_frame)

lemma refs_ok_acquire:
  "refs_ok w \<Longrightarrow> \<forall>r\<in>set (held @ todo). r < w_next_sem w \<Longrightarrow> last (held @ todo) = GLOBAL_SEM \<Longrightarrow>
   held @ todo \<noteq> [] \<Longrightarrow> refs_ok (acquire_from e c held todo deadline clock w)"
proof (induction todo arbitrary: e held w)
  case Nil
  then show ?case by (simp add: acquire_from.simps refs_ok_set_call)
next
  case (Cons q rs)
  let ?w = "set_sem q ((w_sems w q)\<lparr>s_value := free w q - 1\<rparr>) w"
  have "refs_ok ?w" using Cons(2) by (auto elim: refs_ok_frame)
  from Cons(1) [OF this, of "held @ [q]" False] Cons(3-5)
  have "refs_ok (acquire_from False c (held @ [q]) rs deadline clock ?w)" by simp
  moreover have "refs_ok (wait_for_permit c held q rs deadline w)"
  proof -
    let ?v = "set_sem q ((w_sems w q)\<lparr>s_waiters := s_waiters (w_sems w q) @ [w_next_future w]\<rparr>) w"
    have "refs_ok ?v" using Cons(2) by (auto elim: refs_ok_frame)
    from refs_ok_set_call [OF this, of "Acquiring held (q # rs) deadline (w_next_future w)" c] Cons(3-5)
    have "refs_ok (set_call c (Acquiring held (q # rs) deadline (w_next_future w)) ?v)" by simp
    then show ?thesis unfolding wait_for_permit_def Let_def by (rule refs_ok_frame) simp_all
  qed
  ultimately show ?case using refs_ok_refuse [OF Cons(2)] by (simp add: acquire_from.simps Let_def)
qed

lemma refs_ok_admission:
  assumes "refs_ok w" and "ad_conn_sem a < w_next_sem w"
    and "\<forall>session r. dict_get (ad_session_sems a) session = Some r \<longrightarrow> r < w_next_sem w"
  shows "refs_ok (w\<lparr>w_admissions := dict_set conn a (w_admissions w)\<rparr>)"
  using assms by (simp add: refs_ok_def dict_simps)

lemma refs_ok_create:
  assumes "refs_ok w" and "create_sem n w = (q, w')"
  shows "refs_ok w' \<and> q < w_next_sem w'"
  using create_sem_fields [OF assms(2)] refs_ok_frame [OF assms(1)] by simp

lemma refs_ok_leave [simp]: "refs_ok (leave_queue r f w) = refs_ok w"
  by (simp add: refs_ok_def leave_queue_def)

lemma refs_ok_step: "admission_step w w' \<Longrightarrow> refs_ok w \<Longrightarrow> refs_ok w'"
proof (induction rule: admission_step.induct)
  case (open_conn w conn cm sm timeout)
  obtain q w1 where q: "create_sem cm w = (q, w1)" by (rule prod.exhaust)
  with refs_ok_create [OF open_conn(4) q] show ?case by (simp add: open_connection_def refs_ok_admission)
next
  case (ensure w conn a session)
  obtain q w1 where q: "create_sem (ad_session_max a) w = (q, w1)" by (rule prod.exhaust)
  have a: "ad_conn_sem a < w_next_sem w" "\<forall>s r. dict_get (ad_session_sems a) s = Some r \<longrightarrow> r < w_next_sem w"
    using ensure by (auto simp: refs_ok_def)
  from refs_ok_create [OF ensure(2) q] create_sem_fields [OF q] a
  have "refs_ok (w1\<lparr>w_admissions := dict_set conn (a\<lparr>ad_session_sems := dict_set session q (ad_session_sems a)\<rparr>)
      (w_admissions w1)\<rparr>)"
    by (intro refs_ok_admission) (auto simp: dict_simps less_Suc_eq)
  with ensure(2) show ?case by (simp add: ensure_session_def q)
next
  case (remove w conn a session)
  have a: "ad_conn_sem a < w_next_sem w" "\<forall>s r. dict_get (ad_session_sems a) s = Some r \<longrightarrow> r < w_next_sem w"
    using remove by (auto simp: refs_ok_def)
  with remove(2) show ?case
    unfolding remove_session_def by (intro refs_ok_admission) (auto simp: dict_simps)
next
  case (admit w conn a c session start clock)
  obtain q w1 where q: "(case dict_get (ad_session_sems a) session of
      Some r \<Rightarrow> (r, w) | None \<Rightarrow> create_sem (ad_session_max a) w) = (q, w1)" by (rule prod.exhaust)
  have a: "ad_conn_sem a < w_next_sem w" "GLOBAL_SEM < w_next_sem w"
    and s: "\<forall>s r. dict_get (ad_session_sems a) s = Some r \<longrightarrow> r < w_next_sem w"
    using admit by (auto simp: refs_ok_def)
  have "refs_ok w1 \<and> q < w_next_sem w1 \<and> w_next_sem w \<le> w_next_sem w1"
  proof (cases "dict_get (ad_session_sems a) session")
    case None
    then have "create_sem (ad_session_max a) w = (q, w1)" using q by simp
    from refs_ok_create [OF admit(3) this] create_sem_fields [OF this] show ?thesis by simp
  next
    case (Some r)
    with q s admit(3) show ?thesis by auto
  qed
  with a have "refs_ok (acquire_from False c [] [q, ad_conn_sem a, GLOBAL_SEM] (start + ad_wait_timeout a) clock w1)"
    by (intro refs_ok_acquire) auto
  then show ?case by (simp add: admit_def q)
next
  case (wake w c held r rs deadline f clock)
  then have "in_order (Acquiring held (r # rs) deadline f)"
    "\<forall>q\<in>set (refs (Acquiring held (r # rs) deadline f)). q < w_next_sem w"
    unfolding refs_ok_def by blast+
  with wake(3) show ?case unfolding wake_def by (intro refs_ok_acquire) auto
next
  case (expire w c held r rs deadline f t)
  then show ?case unfolding expire_def by (intro refs_ok_refuse) simp
next
  case (cancel w c held r rs deadline f)
  then have "\<forall>q\<in>set (refs (Acquiring held (r # rs) deadline f)). q < w_next_sem w"
    unfolding refs_ok_def by blast
  with cancel(2) show ?case unfolding cancel_def by (intro refs_ok_set_call) auto
next
  case (release w c held)
  then show ?case unfolding guard_release_def by (intro refs_ok_set_call) (auto elim: refs_ok_frame)
next
  case (close w r)
  then show ?case by (auto simp: close_ref_def sem_close_def elim: refs_ok_frame)
qed

lemma refs_ok_start: "refs_ok (start_world n)"
  by (simp add: refs_ok_def start_world_def GLOBAL_SEM_def)

lemma steps_conserve:
  assumes "admission_steps w w'" and "refs_ok w"
  shows "refs_ok w' \<and> w_next_sem w \<le> w_next_sem w' \<and> (\<forall>r<w_next_sem w. conserved_at 0 w w' r)"
  using assms
proof (induction rule: rtranclp_induct)
  case (step w1 w2)
  then have IH: "refs_ok w1" "w_next_sem w \<le> w_next_sem w1" "\<And>r. r < w_next_sem w \<Longrightarrow> conserved_at 0 w w1 r"
    by simp_all
  have "conserved_at 0 w w2 r" if "r < w_next_sem w" for r
    using conserved_trans [OF IH(3) [OF that]] conserved_step [OF step(2), of r] that IH(2) by force
  moreover have "w_next_sem w1 \<le> w_next_sem w2"
    using conserved_step [OF step(2), of GLOBAL_SEM] IH(1) by (simp add: refs_ok_def)
  ultimately show ?case using refs_ok_step [OF step(2) IH(1)] IH(2) by simp
qed simp

section \<open>Properties\<close>

text \<open>The admitted calls that hold a permit of a semaphore.\<close>

definition holders :: "world \<Rightarrow> nat \<Rightarrow> nat set" where
  "holders w r = {c. \<exists>held. dict_get (w_calls w) c = Some (Admitted held) \<and> r \<in> set held}"

lemma finite_holders: "finite (holders w r)"
  by (rule finite_subset [of _ "set (dict_keys (w_calls w))"])
     (auto simp: holders_def dict_has_iff [symmetric] dict_hasI simp del: set_map)

lemma sum_held_ge:
  assumes "C \<subseteq> {c. r \<in> set (permits_of w c)}"
  shows "int (card C) \<le> held_of w r"
proof -
  have "dict_has (w_calls w) c" if "c \<in> C" for c
  proof -
    have "permits_of w c \<noteq> []" using assms that by auto
    then show ?thesis by (auto simp: permits_of_def dict_has_def split: option.splits)
  qed
  then have sub: "C \<subseteq> set (dict_keys (w_calls w))" by (auto simp: dict_has_iff simp del: set_map)
  have "int (card C) = (\<Sum>c\<in>C. 1)" by simp
  also have "\<dots> \<le> (\<Sum>c\<in>C. int (count_list (permits_of w c) r))"
    by (rule sum_mono) (use assms in \<open>auto simp: Suc_le_eq count_list_0_iff simp flip: neq0_conv\<close>)
  also have "\<dots> \<le> held_of w r" unfolding held_of_def by (rule sum_mono2) (use sub in auto)
  finally show ?thesis .
qed

lemma card_holders: "int (card (holders w r)) \<le> held_of w r"
  by (rule sum_held_ge) (auto simp: holders_def permits_of_def)

lemma held_of_unused: "refs_ok w \<Longrightarrow> w_next_sem w \<le> r \<Longrightarrow> held_of w r = 0"
proof -
  assume w: "refs_ok w" "w_next_sem w \<le> r"
  have "r \<notin> set (permits_of w c)" for c
  proof (cases "dict_get (w_calls w) c")
    case (Some s)
    moreover have "set (permits s) \<subseteq> set (refs s)" by (cases s) auto
    ultimately show ?thesis using w by (force simp: refs_ok_def permits_of_def)
  qed (simp add: permits_of_def)
  then show ?thesis by (simp add: held_of_def count_list_0_iff)
qed

lemma conn_sem_step:
  assumes "admission_step w w'" and "dict_get (w_admissions w) conn = Some a"
  shows "\<exists>a'. dict_get (w_admissions w') conn = Some a' \<and> ad_conn_sem a' = ad_conn_sem a"
proof -
  have same: "w_admissions (acquire_from e c held todo deadline clock v) = w_admissions v" for e c held todo deadline clock v
    by (induction todo arbitrary: e held v)
       (simp_all add: acquire_from.simps refuse_def wait_for_permit_def Let_def)
  from assms(1) show ?thesis
  proof cases
    case (open_conn d cm sm timeout)
    with assms(2) show ?thesis
      by (auto simp: open_connection_def create_sem_def dict_simps dict_has_def Let_def)
  next
    case (ensure d b session)
    with assms(2) show ?thesis by (auto simp: ensure_session_def create_sem_def dict_simps Let_def)
  next
    case (remove d b session)
    with assms(2) show ?thesis by (auto simp: remove_session_def dict_simps)
  next
    case (admit d b c session start clock)
    with assms(2) show ?thesis
      by (auto simp: admit_def create_sem_def same Let_def split: option.splits prod.splits)
  qed (use assms(2) in \<open>auto simp: wake_def expire_def cancel_def guard_release_def close_ref_def sem_close_def
        refuse_def leave_queue_def same\<close>)
qed

lemma conn_sem_steps:
  "admission_steps w w' \<Longrightarrow> dict_get (w_admissions w) conn = Some a \<Longrightarrow>
   \<exists>a'. dict_get (w_admissions w') conn = Some a' \<and> ad_conn_sem a' = ad_conn_sem a"
proof (induction rule: rtranclp_induct)
  case (step w1 w2)
  then obtain a1 where "dict_get (w_admissions w1) conn = Some a1" "ad_conn_sem a1 = ad_conn_sem a" by blast
  with conn_sem_step [OF step(2)] show ?case by force
qed simp

lemma all_hold_global:
  "refs_ok w \<Longrightarrow> {c. \<exists>held. dict_get (w_calls w) c = Some (Admitted held)} = holders w GLOBAL_SEM"
proof -
  assume w: "refs_ok w"
  have "GLOBAL_SEM \<in> set held" if "dict_get (w_calls w) c = Some (Admitted held)" for c held
  proof -
    have "in_order (Admitted held)" using w that unfolding refs_ok_def by blast
    then show ?thesis by (metis in_order.simps(2) last_in_set)
  qed
  then show ?thesis by (auto simp: holders_def)
qed

text \<open>
  C13: However calls, timeouts, cancellations, releases and shutdowns interleave, at no time are more
  calls admitted than the process-wide limit allows, nor more on a connection than its limit.
\<close>

theorem admitted_within_caps:
  assumes "0 \<le> n" "0 \<le> cm" "0 \<le> sm" and "admission_steps (start_world n) w0"
    and "\<not> dict_has (w_admissions w0) conn"
    and "admission_steps (open_connection conn sm cm timeout w0) w"
    and "dict_get (w_admissions w) conn = Some a"
  shows "int (card {c. \<exists>held. dict_get (w_calls w) c = Some (Admitted held)}) \<le> n \<and>
    int (card (holders w (ad_conn_sem a))) \<le> cm"
proof -
  let ?w1 = "open_connection conn sm cm timeout w0"
  have s: "GLOBAL_SEM < w_next_sem (start_world n)" "free (start_world n) GLOBAL_SEM = n"
    "held_of (start_world n) GLOBAL_SEM = 0"
    by (simp_all add: start_world_def GLOBAL_SEM_def new_semaphore_def held_of_def)
  have w0: "refs_ok w0" using steps_conserve [OF assms(4) refs_ok_start] by simp
  have step: "admission_step w0 ?w1" by (rule admission_step.open_conn) (use assms in auto)
  have w1: "refs_ok ?w1" using refs_ok_step [OF step w0] .
  have new: "free ?w1 (w_next_sem w0) = cm" "w_calls ?w1 = w_calls w0" "w_next_sem w0 < w_next_sem ?w1"
    "dict_get (w_admissions ?w1) conn = Some \<lparr>ad_session_sems = [], ad_session_max = sm,
       ad_conn_sem = w_next_sem w0, ad_wait_timeout = timeout\<rparr>"
    by (simp_all add: open_connection_def create_sem_def new_semaphore_def dict_simps)
  have "held_of ?w1 (w_next_sem w0) = 0"
    using held_of_unused [OF w0, of "w_next_sem w0"] held_of_cong [OF new(2)] by simp
  moreover have "conserved_at 0 ?w1 w (w_next_sem w0)" using steps_conserve [OF assms(6) w1] new(3) by blast
  ultimately have conn: "held_of w (w_next_sem w0) \<le> cm" using new(1) assms(2) by (simp add: conserved_at_def)
  have sem: "ad_conn_sem a = w_next_sem w0" using conn_sem_steps [OF assms(6) new(4)] assms(7) by simp
  have all: "admission_steps (start_world n) w" using assms(4,6) step by simp
  then have "conserved_at 0 (start_world n) w GLOBAL_SEM" and w: "refs_ok w"
    using steps_conserve [OF all refs_ok_start] s(1) by blast+
  then have "held_of w GLOBAL_SEM \<le> n" using s assms(1) by (simp add: conserved_at_def)
  with conn card_holders [of w GLOBAL_SEM] card_holders [of w "w_next_sem w0"] show ?thesis
    by (simp add: all_hold_global [OF w] sem)
qed

lemma cancelled_stays:
  assumes "admission_step w w'" and "dict_get (w_calls w) c = Some (Cancelled held)"
  shows "dict_get (w_calls w') c = Some (Cancelled held)"
proof -
  have other: "dict_get (w_calls (acquire_from e d hs todo deadline clock v)) c = dict_get (w_calls v) c"
    if "d \<noteq> c" for e d hs todo deadline clock v
    using that by (induction todo arbitrary: e hs v)
      (simp_all add: acquire_from.simps refuse_def wait_for_permit_def dict_simps Let_def)
  from assms(1) show ?thesis
  proof cases
    case (open_conn d cm sm timeout)
    with assms(2) show ?thesis by (simp add: open_connection_def create_sem_def)
  next
    case (ensure d b session)
    with assms(2) show ?thesis by (simp add: ensure_session_def create_sem_def)
  next
    case (remove d b session)
    with assms(2) show ?thesis by (simp add: remove_session_def)
  next
    case (admit d b e session start clock)
    moreover have "e \<noteq> c" using admit(3) assms(2) by (auto simp: dict_has_def)
    ultimately show ?thesis
      using assms(2) by (auto simp: admit_def create_sem_def other split: option.splits prod.splits)
  next
    case (wake e hs r rs deadline f clock)
    moreover have "e \<noteq> c" using wake(2) assms(2) by auto
    ultimately show ?thesis using assms(2) by (simp add: wake_def other)
  next
    case (expire e hs r rs deadline f t)
    moreover have "e \<noteq> c" using expire(2) assms(2) by auto
    ultimately show ?thesis using assms(2) by (simp add: expire_def refuse_def dict_simps)
  next
    case (cancel e hs r rs deadline f)
    moreover have "e \<noteq> c" using cancel(2) assms(2) by auto
    ultimately show ?thesis using assms(2) by (simp add: cancel_def dict_simps)
  next
    case (release e hs)
    moreover have "e \<noteq> c" using release(2) assms(2) by auto
    ultimately show ?thesis using assms(2) by (simp add: guard_release_def dict_simps)
  next
    case (close r)
    with assms(2) show ?thesis by (simp add: close_ref_def sem_close_def)
  qed
qed

lemma cancelled_stays_steps:
  "admission_steps w w' \<Longrightarrow> dict_get (w_calls w) c = Some (Cancelled held) \<Longrightarrow>
   dict_get (w_calls w') c = Some (Cancelled held)"
  by (induction rule: rtranclp_induct) (auto dest: cancelled_stays)

text \<open>
  C39: A call that is cancelled from outside while it waits at a later scope keeps the permits of the
  earlier scopes for ever: whatever happens afterwards, one permit fewer is left for others.
\<close>

theorem cancelled_permit_is_lost:
  assumes "admission_steps (start_world n) w"
    and "dict_get (w_calls w) c = Some (Acquiring held (r # rs) deadline f)" and "q \<in> set held"
    and "admission_steps (cancel c held r f w) w'"
  shows "free w' q + int (card (holders w' q)) < free w q + held_of w q"
proof -
  have w: "refs_ok w" using steps_conserve [OF assms(1) refs_ok_start] by simp
  have step: "admission_step w (cancel c held r f w)" by (rule admission_step.cancel) (rule assms(2))
  have "dict_get (w_calls (cancel c held r f w)) c = Some (Cancelled held)"
    by (simp add: cancel_def dict_simps)
  from cancelled_stays_steps [OF assms(4) this]
  have kept: "dict_get (w_calls w') c = Some (Cancelled held)" .
  then have "insert c (holders w' q) \<subseteq> {c. q \<in> set (permits_of w' c)}" "c \<notin> holders w' q"
    using assms(3) by (auto simp: holders_def permits_of_def)
  from sum_held_ge [OF this(1)] this(2)
  have held: "int (card (holders w' q)) + 1 \<le> held_of w' q" by (simp add: finite_holders)
  have "q < w_next_sem w" using w assms(2,3) by (fastforce simp: refs_ok_def)
  moreover have "admission_steps w w'" using step assms(4) by simp
  ultimately have "conserved_at 0 w w' q" using steps_conserve [OF _ w] by blast
  with held show ?thesis by (simp add: conserved_at_def)
qed

text \<open>
  A waiter sleeps beside a free permit: the semaphore is open and has one, a call waits for it,
  and no future of a call that waits for it is completed.
\<close>

definition waits_for :: "world \<Rightarrow> nat \<Rightarrow> call_state \<Rightarrow> bool" where
  "waits_for w r s =
     (case s of Acquiring held todo deadline f \<Rightarrow> todo \<noteq> [] \<and> hd todo = r | _ \<Rightarrow> False)"

definition woken :: "world \<Rightarrow> call_state \<Rightarrow> bool" where
  "woken w s = (case s of Acquiring held todo deadline f \<Rightarrow> f \<in> set (w_completed w) | _ \<Rightarrow> False)"

definition stalled :: "world \<Rightarrow> nat \<Rightarrow> bool" where
  "stalled w r =
     (\<not> closed w r \<and> 0 < free w r \<and> list_ex (waits_for w r) (dict_values (w_calls w)) \<and>
      list_all (\<lambda>s. waits_for w r s \<longrightarrow> \<not> woken w s) (dict_values (w_calls w)))"

text \<open>A connection for one call at a time, one call admitted and two behind it.\<close>

definition ex_admission :: admission where
  "ex_admission =
     \<lparr>ad_session_sems = [(''s'', 2)], ad_session_max = 3, ad_conn_sem = 1, ad_wait_timeout = 3\<rparr>"

definition ex_open :: world where "ex_open = open_connection ''c'' 3 1 3 (start_world 8)"

definition ex_ready :: world where
  "ex_ready = ensure_session ''c'' (ex_admission\<lparr>ad_session_sems := []\<rparr>) ''s'' ex_open"

definition ex_one :: world where "ex_one = admit ex_admission ''s'' 1 0 (\<lambda>_. 0) ex_ready"

definition ex_two :: world where "ex_two = admit ex_admission ''s'' 2 0 (\<lambda>_. 0) ex_one"

definition ex_three :: world where "ex_three = admit ex_admission ''s'' 3 0 (\<lambda>_. 0) ex_two"

definition ex_released :: world where "ex_released = guard_release 1 [2, 1, GLOBAL_SEM] ex_three"

definition ex_stalled :: world where "ex_stalled = expire 2 [2] 1 0 ex_released"

lemma ex_open_step: "admission_step (start_world 8) ex_open"
  unfolding ex_open_def by (rule admission_step.open_conn) (simp_all add: start_world_def)

lemma ex_steps:
  "admission_steps ex_open ex_three" "admission_steps ex_three ex_released"
  "admission_step ex_released ex_stalled"
proof -
  have "dict_get (w_admissions ex_open) ''c'' = Some (ex_admission\<lparr>ad_session_sems := []\<rparr>)" by code_simp
  then have 1: "admission_step ex_open ex_ready" unfolding ex_ready_def by (rule admission_step.ensure)
  have "dict_get (w_admissions ex_ready) ''c'' = Some ex_admission \<and> \<not> dict_has (w_calls ex_ready) 1" by code_simp
  then have 2: "admission_step ex_ready ex_one" unfolding ex_one_def by (blast intro: admission_step.admit)
  have "dict_get (w_admissions ex_one) ''c'' = Some ex_admission \<and> \<not> dict_has (w_calls ex_one) 2" by code_simp
  then have 3: "admission_step ex_one ex_two" unfolding ex_two_def by (blast intro: admission_step.admit)
  have "dict_get (w_admissions ex_two) ''c'' = Some ex_admission \<and> \<not> dict_has (w_calls ex_two) 3" by code_simp
  then have 4: "admission_step ex_two ex_three" unfolding ex_three_def by (blast intro: admission_step.admit)
  from 1 2 3 4 show "admission_steps ex_open ex_three" by (meson converse_rtranclp_into_rtranclp rtranclp.rtrancl_refl)
  have "dict_get (w_calls ex_three) 1 = Some (Admitted [2, 1, GLOBAL_SEM])" by code_simp
  then show "admission_steps ex_three ex_released"
    unfolding ex_released_def by (blast intro: admission_step.release)
  have "dict_get (w_calls ex_released) 2 = Some (Acquiring [2] [1, GLOBAL_SEM] 3 0)" by code_simp
  then show "admission_step ex_released ex_stalled"
    unfolding ex_stalled_def by (rule admission_step.expire) (rule order_refl)
qed


theorem admitted_within_caps_witness:
  "int (card {c. \<exists>held. dict_get (w_calls ex_three) c = Some (Admitted held)}) \<le> 8 \<and>
   int (card (holders ex_three 1)) \<le> 1 \<and> dict_get (w_calls ex_three) 1 = Some (Admitted [2, 1, GLOBAL_SEM])"
proof -
  have get: "dict_get (w_admissions ex_three) ''c'' = Some ex_admission" by code_simp
  have "\<not> dict_has (w_admissions (start_world 8)) ''c''" by (simp add: start_world_def)
  from admitted_within_caps [OF _ _ _ rtranclp.rtrancl_refl this ex_steps(1) [unfolded ex_open_def] get]
  have "int (card {c. \<exists>held. dict_get (w_calls ex_three) c = Some (Admitted held)}) \<le> 8 \<and>
      int (card (holders ex_three (ad_conn_sem ex_admission))) \<le> 1" by simp
  moreover have "dict_get (w_calls ex_three) 1 = Some (Admitted [2, 1, GLOBAL_SEM])" by code_simp
  ultimately show ?thesis by (simp add: ex_admission_def)
qed

theorem cancelled_permit_is_lost_witness:
  "free (cancel 2 [2] 1 0 ex_three) 2 + int (card (holders (cancel 2 [2] 1 0 ex_three) 2)) <
   free ex_three 2 + held_of ex_three 2"
proof (rule cancelled_permit_is_lost [OF _ _ _ rtranclp.rtrancl_refl])
  show "admission_steps (start_world 8) ex_three"
    using ex_open_step ex_steps(1) by (rule converse_rtranclp_into_rtranclp)
  show "dict_get (w_calls ex_three) 2 = Some (Acquiring [2] [1, GLOBAL_SEM] 3 0)" by code_simp
qed simp

text \<open>
  Parsing the limit from the environment: a positive number for a positive default, except that a
  number of more than 4300 digits raises.
\<close>

lemma resolve_global_cap_raises:
  assumes "0 < d"
  shows "case resolve_global_cap raw d of
      None \<Rightarrow> (\<exists>s. raw = Some s \<and> list_all is_digit s \<and> 4300 < length s) | Some n \<Rightarrow> 0 < n"
proof (cases "\<exists>s. raw = Some s \<and> s \<noteq> [] \<and> list_all is_digit s")
  case True
  then obtain s where s: "raw = Some s" "s \<noteq> []" "list_all is_digit s" by blast
  obtain c r where cr: "s = c # r" using s(2) by (cases s) auto
  have nb: "\<not> int_blank s c" if "c \<in> set s" for c
    using s(3) that digit_not_sign by (auto simp: list_all_iff)
  then have "dropWhile (int_blank s) s = s" "dropWhile (int_blank s) (rev s) = rev s"
    by (auto simp: dropWhile_eq_self_iff hd_rev s(2) dest: hd_in_set last_in_set)
  moreover have "c \<noteq> CHR ''+'' \<and> c \<noteq> CHR ''-''" using s(3) cr digit_not_sign by (simp add: list_all_iff)
  moreover have "filter is_digit s = s" using s(3) by (simp add: list_all_iff filter_id_conv)
  moreover obtain n where "py_digits False 0 s = Some n"
    using py_digits_all [of s] s(2,3) by (auto simp: list_all_iff)
  ultimately have "py_int s = (if 4300 < length s then None else Some (int n))"
    by (simp add: py_int_def cr Let_def)
  then show ?thesis using assms s by (auto simp: resolve_global_cap_def)
next
  case False
  with assms show ?thesis by (auto simp: resolve_global_cap_def split: option.splits)
qed

end
