(* ===== verification/Wire.thy ===== *)
theory Wire
  imports Py_Strings
begin

text \<open>
  The values that travel on the wire of the tool hub, and what Python does with them. A message is
  a tree of the values that JSON gives; a converter reads one and returns an object or raises. The
  locale \<open>wire_codec\<close> is the contract of a pair of converters, \<open>wire_type\<close> that of a pair whose reader
  also checks what it returns, \<open>wire_field\<close> that of a pair for the fields of a message. Conversions
  between floats and text are outside the model: they give \<open>Unmodelled\<close>.
\<close>

section \<open>Values and errors\<close>

datatype json =
    JNull
  | JBool bool
  | JInt int
  | JFloat rat
  | JStr string
  | JList "json list"
  | JDict "(string \<times> json) list"

datatype py_error =
    KeyError string
  | TypeError
  | ValueError
  | AttributeError
  | AssertionError
  | IdError
  | EmptyIdError
  | InvalidFormatIdError string
  | ReservedPrefixIdError string
  | JsonRpcVersionError json
  | KnownVariantCollision string
  | Unmodelled

type_synonym 'a outcome_of = "py_error + 'a"

section \<open>Reading\<close>

text \<open>\<open>data[key]\<close>, \<open>data.get(key)\<close> and \<open>key in data\<close>.\<close>

fun item :: "string \<Rightarrow> json \<Rightarrow> json outcome_of" where
  "item k (JDict d) = (case map_of d k of None \<Rightarrow> Inl (KeyError k) | Some v \<Rightarrow> Inr v)"
| "item k _ = Inl TypeError"

fun get_item :: "string \<Rightarrow> json \<Rightarrow> json option outcome_of" where
  "get_item k (JDict d) = Inr (map_of d k)"
| "get_item k _ = Inl AttributeError"

fun has_item :: "string \<Rightarrow> json \<Rightarrow> bool outcome_of" where
  "has_item k (JDict d) = Inr (map_of d k \<noteq> None)"
| "has_item k (JList xs) = Inr (JStr k \<in> set xs)"
| "has_item k (JStr s) = Inr (py_in k s)"
| "has_item k _ = Inl TypeError"

lemma traverse_cong [fundef_cong]:
  "xs = ys \<Longrightarrow> (\<And>x. x \<in> set ys \<Longrightarrow> f x = g x) \<Longrightarrow> traverse f xs = traverse g ys"
  by (induction ys arbitrary: xs) auto

text \<open>\<open>repr(v)\<close>. The text of a float is outside the model.\<close>

definition hex_digit :: "nat \<Rightarrow> char" where
  "hex_digit n = (if n < 10 then char_of (48 + n) else char_of (87 + n))"

definition repr_char :: "char \<Rightarrow> char \<Rightarrow> string" where
  "repr_char quote c =
     (let n = code_point c in
      if c = quote \<or> n = 92 then [char_of (92::nat), c]
      else if n = 10 then [char_of (92::nat), CHR ''n'']
      else if n = 13 then [char_of (92::nat), CHR ''r'']
      else if n = 9 then [char_of (92::nat), CHR ''t'']
      else if n < 32 \<or> (127 \<le> n \<and> n \<le> 160) \<or> n = 173
        then [char_of (92::nat), CHR ''x'', hex_digit (n div 16), hex_digit (n mod 16)]
      else [c])"

definition repr_str :: "string \<Rightarrow> string" where
  "repr_str s =
     (let quote = (if char_of (39::nat) \<in> set s \<and> char_of (34::nat) \<notin> set s then char_of (34::nat) else char_of (39::nat))
      in [quote] @ concat (map (repr_char quote) s) @ [quote])"

fun py_repr :: "json \<Rightarrow> string outcome_of" where
  "py_repr JNull = Inr ''None''"
| "py_repr (JBool b) = Inr (if b then ''True'' else ''False'')"
| "py_repr (JInt i) = Inr (py_str_int i)"
| "py_repr (JFloat r) = Inl Unmodelled"
| "py_repr (JStr s) = Inr (repr_str s)"
| "py_repr (JList xs) = and_then (traverse py_repr xs) (\<lambda>ss. Inr (''['' @ py_join '', '' ss @ '']''))"
| "py_repr (JDict d) =
     and_then (traverse (\<lambda>p. and_then (py_repr (snd p)) (\<lambda>s. Inr (repr_str (fst p) @ '': '' @ s))) d)
       (\<lambda>ss. Inr (''{'' @ py_join '', '' ss @ ''}''))"

text \<open>\<open>str(v)\<close>, \<open>int(v)\<close>, \<open>float(v)\<close> and \<open>bool(v)\<close>.\<close>

fun to_str :: "json \<Rightarrow> string outcome_of" where
  "to_str (JStr s) = Inr s"
| "to_str (JInt i) = Inr (py_str_int i)"
| "to_str (JBool b) = Inr (if b then ''True'' else ''False'')"
| "to_str JNull = Inr ''None''"
| "to_str v = py_repr v"

fun to_int :: "json \<Rightarrow> int outcome_of" where
  "to_int (JInt i) = Inr i"
| "to_int (JBool b) = Inr (if b then 1 else 0)"
| "to_int (JFloat r) = Inr (if r < 0 then - \<lfloor>- r\<rfloor> else \<lfloor>r\<rfloor>)"
| "to_int (JStr s) = (case py_int s of None \<Rightarrow> Inl ValueError | Some i \<Rightarrow> Inr i)"
| "to_int _ = Inl TypeError"

fun to_float :: "json \<Rightarrow> rat outcome_of" where
  "to_float (JFloat r) = Inr r"
| "to_float (JInt i) = Inr (of_int i)"
| "to_float (JBool b) = Inr (if b then 1 else 0)"
| "to_float (JStr s) = Inl Unmodelled"
| "to_float _ = Inl TypeError"

fun truthy :: "json \<Rightarrow> bool" where
  "truthy JNull = False"
| "truthy (JBool b) = b"
| "truthy (JInt i) = (i \<noteq> 0)"
| "truthy (JFloat r) = (r \<noteq> 0)"
| "truthy (JStr s) = (s \<noteq> [])"
| "truthy (JList xs) = (xs \<noteq> [])"
| "truthy (JDict d) = (d \<noteq> [])"

definition to_bool :: "json \<Rightarrow> bool outcome_of" where
  "to_bool v = Inr (truthy v)"

text \<open>\<open>for x in v\<close> and \<open>list(v)\<close>.\<close>

fun elements :: "json \<Rightarrow> json list outcome_of" where
  "elements (JList xs) = Inr xs"
| "elements (JStr s) = Inr (map (\<lambda>c. JStr [c]) s)"
| "elements (JDict d) = Inr (map (\<lambda>(k, v). JStr k) d)"
| "elements _ = Inl TypeError"

definition keep :: "json \<Rightarrow> json outcome_of" where
  "keep v = Inr v"

definition to_list :: "(json \<Rightarrow> 'a outcome_of) \<Rightarrow> json \<Rightarrow> 'a list outcome_of" where
  "to_list conv v = and_then (elements v) (traverse conv)"

text \<open>
  The ways a field is read. \<open>req\<close>: \<open>conv(data[k])\<close>; \<open>opt\<close>: \<open>conv(raw)\<close> for \<open>raw = data.get(k)\<close> unless
  it is None; \<open>dflt\<close>: \<open>conv(data.get(k, d))\<close>; \<open>opt_in\<close> and \<open>in_or\<close>: \<open>conv(data[k])\<close> if \<open>k in data\<close>;
  \<open>opt_present\<close>: the same unless \<open>data[k]\<close> is None; \<open>get_value\<close>: \<open>data.get(k)\<close> itself.
\<close>

definition req :: "string \<Rightarrow> (json \<Rightarrow> 'a outcome_of) \<Rightarrow> json \<Rightarrow> 'a outcome_of" where
  "req k conv data = and_then (item k data) conv"

fun opt_val :: "(json \<Rightarrow> 'a outcome_of) \<Rightarrow> json option \<Rightarrow> 'a option outcome_of" where
  "opt_val conv None = Inr None"
| "opt_val conv (Some v) = (if v = JNull then Inr None else and_then (conv v) (\<lambda>x. Inr (Some x)))"

definition opt :: "string \<Rightarrow> (json \<Rightarrow> 'a outcome_of) \<Rightarrow> json \<Rightarrow> 'a option outcome_of" where
  "opt k conv data = and_then (get_item k data) (opt_val conv)"

definition dflt :: "string \<Rightarrow> json \<Rightarrow> (json \<Rightarrow> 'a outcome_of) \<Rightarrow> json \<Rightarrow> 'a outcome_of" where
  "dflt k d conv data =
     and_then (get_item k data) (\<lambda>v. conv (case v of None \<Rightarrow> d | Some w \<Rightarrow> w))"

definition in_or :: "string \<Rightarrow> (json \<Rightarrow> 'a outcome_of) \<Rightarrow> 'a \<Rightarrow> json \<Rightarrow> 'a outcome_of" where
  "in_or k conv d data = and_then (has_item k data) (\<lambda>b. if b then req k conv data else Inr d)"

definition opt_in :: "string \<Rightarrow> (json \<Rightarrow> 'a outcome_of) \<Rightarrow> json \<Rightarrow> 'a option outcome_of" where
  "opt_in k conv data =
     and_then (has_item k data) (\<lambda>b. if b then and_then (req k conv data) (\<lambda>x. Inr (Some x)) else Inr None)"

definition opt_present :: "string \<Rightarrow> (json \<Rightarrow> 'a outcome_of) \<Rightarrow> json \<Rightarrow> 'a option outcome_of" where
  "opt_present k conv data =
     and_then (has_item k data) (\<lambda>b.
     if b then and_then (item k data) (\<lambda>v. opt_val conv (Some v)) else Inr None)"

definition raw_value :: "json option \<Rightarrow> json" where
  "raw_value v = (case v of None \<Rightarrow> JNull | Some w \<Rightarrow> w)"

definition get_value :: "string \<Rightarrow> json \<Rightarrow> json outcome_of" where
  "get_value k data = and_then (get_item k data) (\<lambda>v. Inr (raw_value v))"

text \<open>\<open>f(str(v))\<close>.\<close>

definition str_then :: "(string \<Rightarrow> 'a outcome_of) \<Rightarrow> json \<Rightarrow> 'a outcome_of" where
  "str_then f v = and_then (to_str v) f"

text \<open>
  The member of a string enumeration with a given value: \<open>member_of\<close> raises when there is none,
  \<open>member_or\<close> falls back. \<open>hashed\<close> applies it to a value that need not be a string.
\<close>

definition member_of :: "('a \<Rightarrow> string) \<Rightarrow> 'a list \<Rightarrow> string \<Rightarrow> 'a outcome_of" where
  "member_of value members s = (case find (\<lambda>m. value m = s) members of None \<Rightarrow> Inl ValueError | Some m \<Rightarrow> Inr m)"

definition member_or :: "'a \<Rightarrow> ('a \<Rightarrow> string) \<Rightarrow> 'a list \<Rightarrow> string \<Rightarrow> 'a outcome_of" where
  "member_or d value members s = (case find (\<lambda>m. value m = s) members of None \<Rightarrow> Inr d | Some m \<Rightarrow> Inr m)"

fun hashed :: "(string \<Rightarrow> 'a outcome_of) \<Rightarrow> json \<Rightarrow> 'a outcome_of" where
  "hashed f (JStr s) = f s"
| "hashed f (JList xs) = Inl TypeError"
| "hashed f (JDict d) = Inl TypeError"
| "hashed f _ = Inl ValueError"

text \<open>\<open>[conv(x) for x in raw] if raw else []\<close> and \<open>dict(raw) if raw else {}\<close>.\<close>

fun truthy_or_empty :: "(json \<Rightarrow> 'a list outcome_of) \<Rightarrow> json option \<Rightarrow> 'a list outcome_of" where
  "truthy_or_empty conv None = Inr []"
| "truthy_or_empty conv (Some v) = (if truthy v then conv v else Inr [])"

fun truthy_dict :: "json option \<Rightarrow> (string \<times> json) list outcome_of" where
  "truthy_dict None = Inr []"
| "truthy_dict (Some (JDict d)) = Inr d"
| "truthy_dict (Some (JList xs)) = (if xs = [] then Inr [] else Inl Unmodelled)"
| "truthy_dict (Some (JStr s)) = (if s = [] then Inr [] else Inl ValueError)"
| "truthy_dict (Some v) = (if truthy v then Inl TypeError else Inr [])"

section \<open>Writing\<close>

text \<open>A pair that is written unless the field is None, respectively unless it is falsy.\<close>

definition opt_pair :: "string \<Rightarrow> ('a \<Rightarrow> json) \<Rightarrow> 'a option \<Rightarrow> (string \<times> json) list" where
  "opt_pair k enc x = (case x of None \<Rightarrow> [] | Some v \<Rightarrow> [(k, enc v)])"

definition value_pair :: "string \<Rightarrow> json \<Rightarrow> (string \<times> json) list" where
  "value_pair k v = (if v = JNull then [] else [(k, v)])"

definition list_pair :: "string \<Rightarrow> ('a \<Rightarrow> json) \<Rightarrow> 'a list \<Rightarrow> (string \<times> json) list" where
  "list_pair k enc xs = (if xs = [] then [] else [(k, JList (map enc xs))])"

definition str_pair :: "string \<Rightarrow> string \<Rightarrow> (string \<times> json) list" where
  "str_pair k s = (if s = [] then [] else [(k, JStr s)])"

definition dict_pair :: "string \<Rightarrow> (string \<times> json) list \<Rightarrow> (string \<times> json) list" where
  "dict_pair k d = (if d = [] then [] else [(k, JDict d)])"

section \<open>What a written field reads back as\<close>

fun or_else :: "'a option \<Rightarrow> 'a option \<Rightarrow> 'a option" where
  "or_else None y = y"
| "or_else (Some x) y = Some x"

lemma or_else_None [simp]: "or_else x None = x"
  by (cases x) simp_all

definition list_opt :: "('a \<Rightarrow> json) \<Rightarrow> 'a list \<Rightarrow> json option" where
  "list_opt enc xs = (if xs = [] then None else Some (JList (map enc xs)))"

definition value_opt :: "json \<Rightarrow> json option" where
  "value_opt v = (if v = JNull then None else Some v)"

definition str_opt :: "string \<Rightarrow> json option" where
  "str_opt s = (if s = [] then None else Some (JStr s))"

definition dict_opt :: "(string \<times> json) list \<Rightarrow> json option" where
  "dict_opt d = (if d = [] then None else Some (JDict d))"

declare map_of_append [simp del]

lemma map_of_pairs [simp]:
  "map_of (opt_pair k enc x @ ps) j = (if j = k then or_else (map_option enc x) (map_of ps j) else map_of ps j)"
  "map_of (opt_pair k enc x) j = (if j = k then map_option enc x else None)"
  "map_of (value_pair k v @ ps) j = (if j = k then or_else (value_opt v) (map_of ps j) else map_of ps j)"
  "map_of (value_pair k v) j = (if j = k then value_opt v else None)"
  "map_of (list_pair k enc' xs @ ps) j = (if j = k then or_else (list_opt enc' xs) (map_of ps j) else map_of ps j)"
  "map_of (list_pair k enc' xs) j = (if j = k then list_opt enc' xs else None)"
  "map_of (str_pair k s @ ps) j = (if j = k then or_else (str_opt s) (map_of ps j) else map_of ps j)"
  "map_of (str_pair k s) j = (if j = k then str_opt s else None)"
  "map_of (dict_pair k d @ ps) j = (if j = k then or_else (dict_opt d) (map_of ps j) else map_of ps j)"
  "map_of (dict_pair k d) j = (if j = k then dict_opt d else None)"
  by (auto simp: opt_pair_def value_pair_def list_pair_def str_pair_def dict_pair_def
      value_opt_def list_opt_def str_opt_def dict_opt_def split: option.splits)

fun req_val :: "string \<Rightarrow> (json \<Rightarrow> 'a outcome_of) \<Rightarrow> json option \<Rightarrow> 'a outcome_of" where
  "req_val k conv None = Inl (KeyError k)"
| "req_val k conv (Some v) = conv v"

definition dflt_val :: "json \<Rightarrow> (json \<Rightarrow> 'a outcome_of) \<Rightarrow> json option \<Rightarrow> 'a outcome_of" where
  "dflt_val d conv v = conv (case v of None \<Rightarrow> d | Some w \<Rightarrow> w)"

fun in_val :: "(json \<Rightarrow> 'a outcome_of) \<Rightarrow> json option \<Rightarrow> 'a option outcome_of" where
  "in_val conv None = Inr None"
| "in_val conv (Some v) = and_then (conv v) (\<lambda>x. Inr (Some x))"

fun in_or_val :: "(json \<Rightarrow> 'a outcome_of) \<Rightarrow> 'a \<Rightarrow> json option \<Rightarrow> 'a outcome_of" where
  "in_or_val conv d None = Inr d"
| "in_or_val conv d (Some v) = conv v"

lemma dict_reads [simp]:
  "req k conv (JDict ps) = req_val k conv (map_of ps k)"
  "opt k conv (JDict ps) = opt_val conv (map_of ps k)"
  "dflt k d conv (JDict ps) = dflt_val d conv (map_of ps k)"
  "in_or k conv e (JDict ps) = in_or_val conv e (map_of ps k)"
  "opt_in k conv (JDict ps) = in_val conv (map_of ps k)"
  "opt_present k conv (JDict ps) = opt_val conv (map_of ps k)"
  "get_value k (JDict ps) = Inr (raw_value (map_of ps k))"
  "get_item k (JDict ps) = Inr (map_of ps k)"
  by (cases "map_of ps k"; simp add: opt_present_def req_def opt_def dflt_def in_or_def opt_in_def get_value_def dflt_val_def)+

lemma read_back [simp]:
  "raw_value (value_opt v) = v" "raw_value None = JNull" "raw_value (Some v) = v"
  "in_or_val keep JNull (value_opt v) = Inr v"
  "in_or_val to_str [] (str_opt s) = Inr s"
  "dflt_val d conv (Some w) = conv w"
  "truthy_dict (dict_opt ps) = Inr ps"
  by (auto simp: raw_value_def value_opt_def str_opt_def dflt_val_def keep_def dict_opt_def)

lemma req_Inr: "req k conv data = Inr x \<Longrightarrow> \<exists>v. conv v = Inr x"
  by (auto simp: req_def)

lemma opt_Inr: "opt k conv data = Inr (Some x) \<Longrightarrow> \<exists>v. conv v = Inr x"
  by (auto simp: opt_def elim!: opt_val.elims split: if_splits)

lemma opt_val_Inr: "opt_val conv r = Inr (Some x) \<Longrightarrow> \<exists>v. conv v = Inr x"
  by (auto elim!: opt_val.elims split: if_splits)

lemma opt_present_Inr: "opt_present k conv data = Inr (Some x) \<Longrightarrow> \<exists>v. conv v = Inr x"
  by (auto simp: opt_present_def split: if_splits)

lemma dflt_Inr: "dflt k d conv data = Inr x \<Longrightarrow> \<exists>v. conv v = Inr x"
  by (auto simp: dflt_def)

lemma in_or_Inr: "in_or k conv d data = Inr x \<Longrightarrow> x = d \<or> (\<exists>v. conv v = Inr x)"
  by (auto simp: in_or_def dest: req_Inr split: if_splits)

lemma truthy_or_empty_Inr: "truthy_or_empty conv r = Inr xs \<Longrightarrow> xs = [] \<or> (\<exists>v. conv v = Inr xs)"
  by (cases r) (auto split: if_splits)

lemma opt_in_Inr: "opt_in k conv data = Inr (Some x) \<Longrightarrow> \<exists>v. conv v = Inr x"
  by (auto simp: opt_in_def dest: req_Inr split: if_splits)

section \<open>The contract of a pair of converters\<close>

locale wire_codec =
  fixes enc :: "'a \<Rightarrow> json" and dec :: "json \<Rightarrow> 'a outcome_of" and ok :: "'a \<Rightarrow> bool"
  assumes dec_enc [simp]: "ok x \<Longrightarrow> dec (enc x) = Inr x"
begin

lemma enc_inject: "ok x \<Longrightarrow> ok y \<Longrightarrow> enc x = enc y \<longleftrightarrow> x = y"
  using dec_enc by (metis Inr_inject)

lemma traverse_enc: "list_all ok xs \<Longrightarrow> traverse dec (map enc xs) = Inr xs"
  by (induction xs) simp_all

lemma list_enc [simp]: "list_all ok xs \<Longrightarrow> to_list dec (JList (map enc xs)) = Inr xs"
  by (simp add: to_list_def traverse_enc)

lemma list_back [simp]:
  "list_all ok xs \<Longrightarrow> dflt_val (JList []) (to_list dec) (list_opt enc xs) = Inr xs"
  "list_all ok xs \<Longrightarrow> in_or_val (to_list dec) [] (list_opt enc xs) = Inr xs"
  "list_all ok xs \<Longrightarrow> truthy_or_empty (to_list dec) (list_opt enc xs) = Inr xs"
  using list_enc [of xs] by (auto simp: dflt_val_def list_opt_def to_list_def)

lemma list_opt_back [simp]:
  "pred_option (list_all ok) y \<Longrightarrow> in_val (to_list dec) (map_option (\<lambda>xs. JList (map enc xs)) y) = Inr y"
  "pred_option (list_all ok) y \<Longrightarrow> opt_val (to_list dec) (map_option (\<lambda>xs. JList (map enc xs)) y) = Inr y"
  by (cases y; simp)+

lemma in_back [simp]: "pred_option ok y \<Longrightarrow> in_val dec (map_option enc y) = Inr y"
  by (cases y) simp_all

end

text \<open>A codec that never writes null can be used for an optional field.\<close>

locale wire_object = wire_codec +
  assumes enc_not_null [simp]: "enc x \<noteq> JNull"
begin

lemma opt_back [simp]: "pred_option ok y \<Longrightarrow> opt_val dec (map_option enc y) = Inr y"
  by (cases y) simp_all

end

text \<open>The reader returns nothing but well-formed objects: what one peer accepted and sends on, the next one reads as the same.\<close>

named_theorems decoded

locale wire_type = wire_codec +
  assumes dec_ok: "dec v = Inr x \<Longrightarrow> ok x"
begin

lemma list_ok: "to_list dec v = Inr xs \<Longrightarrow> list_all ok xs"
  using traverse_Inr dec_ok by (fastforce simp: to_list_def list_all_iff)

lemma fields_ok [decoded]:
  "req k dec v = Inr x \<Longrightarrow> ok x"
  "req k (to_list dec) v = Inr xs \<Longrightarrow> list_all ok xs"
  "opt k dec v = Inr y \<Longrightarrow> pred_option ok y"
  "opt_val dec r = Inr y \<Longrightarrow> pred_option ok y"
  "opt_in k dec v = Inr y \<Longrightarrow> pred_option ok y"
  "opt_present k dec v = Inr y \<Longrightarrow> pred_option ok y"
  "opt_in k (to_list dec) v = Inr ys \<Longrightarrow> pred_option (list_all ok) ys"
  "dflt k (JList []) (to_list dec) v = Inr xs \<Longrightarrow> list_all ok xs"
  "in_or k (to_list dec) [] v = Inr xs \<Longrightarrow> list_all ok xs"
  "truthy_or_empty (to_list dec) r = Inr xs \<Longrightarrow> list_all ok xs"
  using dec_ok list_ok
  by (auto simp: option.pred_set dest!: req_Inr opt_Inr opt_val_Inr opt_in_Inr opt_present_Inr dflt_Inr in_or_Inr truthy_or_empty_Inr)

lemma ok_iff: "ok x \<longleftrightarrow> (\<exists>v. dec v = Inr x)"
  using dec_enc dec_ok by blast

lemma forwarded: "dec v = Inr x \<Longrightarrow> dec (enc x) = Inr x"
  using dec_enc dec_ok by blast

end

text \<open>Both: what a field of an accepted message satisfies.\<close>

locale wire_field = wire_object enc dec ok + wire_type enc dec ok
  for enc :: "'a \<Rightarrow> json" and dec :: "json \<Rightarrow> 'a outcome_of" and ok :: "'a \<Rightarrow> bool"

lemma wire_field_back:
  assumes "wire_field enc dec ok"
  shows "ok x \<Longrightarrow> dec (enc x) = Inr x"
    and "list_all ok xs \<Longrightarrow> to_list dec (JList (map enc xs)) = Inr xs"
    and "list_all ok xs \<Longrightarrow> dflt_val (JList []) (to_list dec) (list_opt enc xs) = Inr xs"
    and "list_all ok xs \<Longrightarrow> traverse dec (map enc xs) = Inr xs"
  using assms wire_field.axioms(1) wire_object.axioms(1)
  by (metis wire_codec.dec_enc, metis wire_codec.list_enc, metis wire_codec.list_back(1), metis wire_codec.traverse_enc)

lemma wire_field_fields:
  assumes "wire_field enc dec ok"
  shows "req k dec v = Inr x \<Longrightarrow> ok x"
    and "req k (to_list dec) v = Inr xs \<Longrightarrow> list_all ok xs"
    and "dflt k (JList []) (to_list dec) v = Inr xs \<Longrightarrow> list_all ok xs"
  using assms wire_field.axioms(2) wire_type.fields_ok by metis+

declare list.pred_True [simp] option.pred_True [simp]

interpretation wire_str: wire_object JStr to_str "\<lambda>_. True"
  by unfold_locales simp_all

interpretation wire_int: wire_object JInt to_int "\<lambda>_. True"
  by unfold_locales simp_all

interpretation wire_float: wire_object JFloat to_float "\<lambda>_. True"
  by unfold_locales simp_all

interpretation wire_bool: wire_object JBool to_bool "\<lambda>_. True"
  by unfold_locales (simp_all add: to_bool_def)

interpretation wire_value: wire_codec "\<lambda>v. v" keep "\<lambda>_. True"
  by unfold_locales (simp_all add: keep_def)

lemma to_list_keep [simp]: "to_list keep (JList xs) = Inr xs"
  using wire_value.list_enc [of xs] by simp

text \<open>String enumerations.\<close>

lemma member_of_Inr: "member_of value members s = Inr m \<Longrightarrow> m \<in> set members \<and> value m = s"
  by (auto simp: member_of_def find_Some_iff split: option.splits)

lemma member_of_value: "distinct (map value members) \<Longrightarrow> m \<in> set members \<Longrightarrow> member_of value members (value m) = Inr m"
  by (auto simp: member_of_def find_None_iff find_Some_iff distinct_map inj_on_def nth_mem split: option.splits)

end
