(* ===== verification/Tool_Ids.thy ===== *)
theory Tool_Ids
  imports Wire
begin

text \<open>
  The identifiers of the tool protocol (\<open>tool_protocol/ids.py\<close>). An identifier is a string that
  passed the checks of its class; the class constructors are the functions below, which return the
  string or the exception. \<open>FrameSeq\<close> is an integer that passed its check.
\<close>

section \<open>Checks\<close>

definition is_ascii_alnum :: "char \<Rightarrow> bool" where
  "is_ascii_alnum c =
     (let n = code_point c in (48 \<le> n \<and> n \<le> 57) \<or> (65 \<le> n \<and> n \<le> 90) \<or> (97 \<le> n \<and> n \<le> 122))"

definition is_id_char :: "char \<Rightarrow> bool" where
  "is_id_char c = (is_ascii_alnum c \<or> c = CHR ''_'' \<or> c = CHR ''-'')"

definition is_valid_segment :: "string \<Rightarrow> bool" where
  "is_valid_segment s = (s \<noteq> [] \<and> list_all is_id_char s)"

text \<open>\<open>s.split(c, n)\<close>.\<close>

fun py_splitn :: "char \<Rightarrow> nat \<Rightarrow> string \<Rightarrow> string list" where
  "py_splitn c 0 s = [s]"
| "py_splitn c (Suc n) s =
     (case py_split1 c s of (w, None) \<Rightarrow> [w] | (w, Some rest) \<Rightarrow> w # py_splitn c n rest)"

definition is_well_formed_tool_id :: "string \<Rightarrow> bool" where
  "is_well_formed_tool_id s =
     (case py_splitn (CHR '':'') 2 s of
        [a] \<Rightarrow> is_valid_segment a
      | [a, b] \<Rightarrow> is_valid_segment a \<and> is_valid_segment b
      | _ \<Rightarrow> False)"

definition validate_tool_id :: "string \<Rightarrow> unit outcome_of" where
  "validate_tool_id s = (if is_well_formed_tool_id s then Inr () else Inl (InvalidFormatIdError s))"

definition SERVER_ID_RESERVED_PREFIX :: string where
  "SERVER_ID_RESERVED_PREFIX = ''auto:''"

definition validate_server_id :: "string \<Rightarrow> unit outcome_of" where
  "validate_server_id s =
     (if py_startswith s SERVER_ID_RESERVED_PREFIX then Inl (ReservedPrefixIdError s) else Inr ())"

definition ensure_non_empty :: "string \<Rightarrow> unit outcome_of" where
  "ensure_non_empty s = (if s = [] then Inl EmptyIdError else Inr ())"

section \<open>Constructors\<close>

definition opaque_id :: "(string \<Rightarrow> unit outcome_of) option \<Rightarrow> string \<Rightarrow> string outcome_of" where
  "opaque_id validator s =
     and_then (ensure_non_empty s) (\<lambda>_.
     case validator of None \<Rightarrow> Inr s | Some f \<Rightarrow> and_then (f s) (\<lambda>_. Inr s))"

text \<open>The constructor applied to a value that need not be a string.\<close>

fun checked_str :: "(string \<Rightarrow> 'a outcome_of) \<Rightarrow> json \<Rightarrow> 'a outcome_of" where
  "checked_str f (JStr s) = f s"
| "checked_str f _ = Inl IdError"

definition SessionId :: "string \<Rightarrow> string outcome_of" where "SessionId = opaque_id None"

definition UserId :: "string \<Rightarrow> string outcome_of" where "UserId = opaque_id None"

definition ConnectionId :: "string \<Rightarrow> string outcome_of" where "ConnectionId = opaque_id None"

definition RequestId :: "string \<Rightarrow> string outcome_of" where "RequestId = opaque_id None"

definition ToolCallId :: "string \<Rightarrow> string outcome_of" where "ToolCallId = opaque_id None"

definition ServerId :: "string \<Rightarrow> string outcome_of" where "ServerId = opaque_id (Some validate_server_id)"

definition ToolId :: "string \<Rightarrow> string outcome_of" where "ToolId = opaque_id (Some validate_tool_id)"

text \<open>The synthesized server identifier skips the checks.\<close>

definition synthesize_for_tool :: "string \<Rightarrow> string \<Rightarrow> string" where
  "synthesize_for_tool connection_id tool_id = SERVER_ID_RESERVED_PREFIX @ ''tool:'' @ tool_id"

definition FrameSeq :: "int \<Rightarrow> int outcome_of" where
  "FrameSeq value = (if value < 0 then Inl ValueError else Inr value)"

fun FrameSeq_from_wire :: "json \<Rightarrow> int outcome_of" where
  "FrameSeq_from_wire (JInt i) = FrameSeq i"
| "FrameSeq_from_wire _ = Inl ValueError"

section \<open>Facts\<close>

definition valid_tool_id :: "string \<Rightarrow> bool" where
  "valid_tool_id s \<longleftrightarrow> is_valid_segment s \<or> (\<exists>a b. s = a @ CHR '':'' # b \<and> is_valid_segment a \<and> is_valid_segment b)"

definition valid_server_id :: "string \<Rightarrow> bool" where
  "valid_server_id s \<longleftrightarrow> s \<noteq> [] \<and> \<not> py_startswith s SERVER_ID_RESERVED_PREFIX"

definition nonempty :: "string \<Rightarrow> bool" where
  "nonempty s \<longleftrightarrow> s \<noteq> []"

definition natural :: "int \<Rightarrow> bool" where
  "natural i \<longleftrightarrow> 0 \<le> i"

lemma colon_not_id_char: "is_valid_segment s \<Longrightarrow> CHR '':'' \<notin> set s"
  by (auto simp: is_valid_segment_def is_id_char_def is_ascii_alnum_def code_point_def list_all_iff Let_def)

lemma py_split1_no_sep: "c \<notin> set s \<Longrightarrow> py_split1 c s = (s, None)"
  by (induction s) (auto simp: py_split1_def)

lemma py_split1_sep: "c \<notin> set a \<Longrightarrow> py_split1 c (a @ c # b) = (a, Some b)"
  by (induction a) (auto simp: py_split1_def)

lemma py_split1_None: "py_split1 c s = (w, None) \<Longrightarrow> w = s \<and> c \<notin> set s"
  by (auto simp: py_split1_def dropWhile_eq_Nil_conv takeWhile_eq_all_conv split: list.splits)

lemma py_split1_Some: "py_split1 c s = (w, Some r) \<Longrightarrow> s = w @ c # r"
  by (induction s arbitrary: w) (auto simp: py_split1_def split: if_splits)

lemma well_formed_iff: "is_well_formed_tool_id s \<longleftrightarrow> valid_tool_id s"
proof
  assume *: "is_well_formed_tool_id s"
  obtain w r where 1: "py_split1 (CHR '':'') s = (w, r)" by (cases "py_split1 (CHR '':'') s")
  show "valid_tool_id s"
  proof (cases r)
    case None
    with * 1 show ?thesis
      by (auto simp: is_well_formed_tool_id_def valid_tool_id_def numeral_2_eq_2 dest: py_split1_None)
  next
    case (Some t)
    obtain w' r' where 2: "py_split1 (CHR '':'') t = (w', r')" by (cases "py_split1 (CHR '':'') t")
    with * 1 Some have "r' = None" "is_valid_segment w" "is_valid_segment w'"
      by (auto simp: is_well_formed_tool_id_def numeral_2_eq_2 split: option.splits)
    with 1 2 Some show ?thesis
      by (auto simp: valid_tool_id_def dest!: py_split1_None py_split1_Some)
  qed
next
  assume "valid_tool_id s"
  then show "is_well_formed_tool_id s"
    by (auto simp: valid_tool_id_def is_well_formed_tool_id_def numeral_2_eq_2 colon_not_id_char
        py_split1_no_sep py_split1_sep)
qed

lemma valid_tool_id_not_empty: "valid_tool_id s \<Longrightarrow> s \<noteq> []"
  by (auto simp: valid_tool_id_def is_valid_segment_def)

lemmas id_defs = SessionId_def UserId_def ConnectionId_def RequestId_def ToolCallId_def ServerId_def ToolId_def
  opaque_id_def ensure_non_empty_def validate_server_id_def validate_tool_id_def

lemma id_Inr:
  "SessionId s = Inr t \<longleftrightarrow> t = s \<and> nonempty s"
  "UserId s = Inr t \<longleftrightarrow> t = s \<and> nonempty s"
  "ConnectionId s = Inr t \<longleftrightarrow> t = s \<and> nonempty s"
  "RequestId s = Inr t \<longleftrightarrow> t = s \<and> nonempty s"
  "ToolCallId s = Inr t \<longleftrightarrow> t = s \<and> nonempty s"
  "ServerId s = Inr t \<longleftrightarrow> t = s \<and> valid_server_id s"
  "ToolId s = Inr t \<longleftrightarrow> t = s \<and> valid_tool_id s"
  using valid_tool_id_not_empty [of s]
  by (auto simp: id_defs nonempty_def valid_server_id_def well_formed_iff split: if_splits)


section \<open>Identifiers as fields\<close>

text \<open>An identifier is written as its string and read back through \<open>str\<close>, or checked as it is.\<close>

lemma str_then_JStr: "str_then f (JStr s) = f s"
  by (simp add: str_then_def)

lemma str_then_Inr: "str_then f v = Inr x \<longleftrightarrow> (\<exists>s. to_str v = Inr s \<and> f s = Inr x)"
  by (simp add: str_then_def)

lemma checked_str_Inr: "checked_str f v = Inr x \<longleftrightarrow> (\<exists>s. v = JStr s \<and> f s = Inr x)"
  by (cases v) simp_all

interpretation SessionId: wire_field JStr "str_then SessionId" nonempty
  by unfold_locales (auto simp: str_then_JStr str_then_Inr id_Inr)

interpretation UserId: wire_field JStr "str_then UserId" nonempty
  by unfold_locales (auto simp: str_then_JStr str_then_Inr id_Inr)

interpretation ConnectionId: wire_field JStr "str_then ConnectionId" nonempty
  by unfold_locales (auto simp: str_then_JStr str_then_Inr id_Inr)

interpretation ToolCallId: wire_field JStr "str_then ToolCallId" nonempty
  by unfold_locales (auto simp: str_then_JStr str_then_Inr id_Inr)

interpretation ServerId: wire_field JStr "str_then ServerId" valid_server_id
  by unfold_locales (auto simp: str_then_JStr str_then_Inr id_Inr)

interpretation ToolId: wire_field JStr "str_then ToolId" valid_tool_id
  by unfold_locales (auto simp: str_then_JStr str_then_Inr id_Inr)

interpretation checked_ServerId: wire_field JStr "checked_str ServerId" valid_server_id
  by unfold_locales (auto simp: checked_str_Inr id_Inr)

interpretation checked_ConnectionId: wire_field JStr "checked_str ConnectionId" nonempty
  by unfold_locales (auto simp: checked_str_Inr id_Inr)

interpretation checked_UserId: wire_field JStr "checked_str UserId" nonempty
  by unfold_locales (auto simp: checked_str_Inr id_Inr)

interpretation FrameSeq: wire_field JInt FrameSeq_from_wire natural
  by unfold_locales (auto simp: FrameSeq_def natural_def elim!: FrameSeq_from_wire.elims split: if_splits)

lemma FrameSeq_natural [simp]: "natural i \<Longrightarrow> FrameSeq i = Inr i"
  by (simp add: FrameSeq_def natural_def)

text \<open>The class is documented as a 64-bit unsigned number; larger values are accepted.\<close>

lemma frame_seq_beyond_u64: "FrameSeq (2 ^ 64) = Inr (2 ^ 64)"
  by (simp add: FrameSeq_def)

end
