(* ===== verification/Tool_Registration.thy ===== *)
theory Tool_Registration
  imports Tool_Ids
begin

text \<open>
  What a tool server tells the hub about its tools: capabilities and notification schemas
  (\<open>tool_protocol/capabilities.py\<close>), the connection kinds and the definition mode
  (\<open>connection.py\<close>), registrations and their outcomes (\<open>registration.py\<close>). For every dataclass there
  is a record with the fields of the class, a \<open>to_wire\<close> and a \<open>from_wire\<close> function that read and
  write the keys in the order of the code, and an interpretation of the contract of converters.

  A field that the class reads without a conversion, or that is declared \<open>Any\<close>, is a JSON value,
  with null for None. \<open>ToolDescription\<close> is a pydantic model: writing it (\<open>model_dump\<close>) and validating
  it (\<open>model_validate\<close>) are the parameters \<open>dump\<close> and \<open>validate\<close>; that validation accepts what was
  dumped is the hypothesis \<open>wire_field dump validate okd\<close>.
\<close>

section \<open>Connections\<close>

datatype connection_kind = Harness | ToolServer

fun connection_kind_value :: "connection_kind \<Rightarrow> string" where
  "connection_kind_value Harness = ''harness''"
| "connection_kind_value ToolServer = ''tool_server''"

definition ConnectionKind_from_wire :: "string \<Rightarrow> connection_kind outcome_of" where
  "ConnectionKind_from_wire = member_of connection_kind_value
     [Harness, ToolServer]"

interpretation ConnectionKind: wire_field "\<lambda>x. JStr (connection_kind_value x)" "str_then ConnectionKind_from_wire" "\<lambda>_. True"
proof unfold_locales
  fix x :: connection_kind
  show "str_then ConnectionKind_from_wire (JStr (connection_kind_value x)) = Inr x" by (cases x) (simp_all add: str_then_JStr ConnectionKind_from_wire_def member_of_def)
qed simp_all

text \<open>
  \<open>ToolDefinitionMode\<close> carries its tag as a string; the writer fails on a tag it does not know and on
  a concise mode without its two tools.
\<close>

record tool_definition_mode =
  mode :: string
  meta_search :: "string option"
  meta_call :: "string option"

definition full_mode :: tool_definition_mode where
  "full_mode = \<lparr>mode = ''full'', meta_search = None, meta_call = None\<rparr>"

definition concise_mode :: "string \<Rightarrow> string \<Rightarrow> tool_definition_mode" where
  "concise_mode ms mc = \<lparr>mode = ''concise'', meta_search = Some ms, meta_call = Some mc\<rparr>"

definition tool_definition_mode_to_wire :: "tool_definition_mode \<Rightarrow> json outcome_of" where
  "tool_definition_mode_to_wire m =
     (if mode m = ''full'' then Inr (JDict [(''mode'', JStr ''full'')])
      else if mode m = ''concise'' then
        (case (meta_search m, meta_call m) of
           (Some s, Some c) \<Rightarrow>
             Inr (JDict [(''mode'', JStr ''concise''), (''meta_search'', JStr s), (''meta_call'', JStr c)])
         | _ \<Rightarrow> Inl AssertionError)
      else Inl ValueError)"

definition ToolDefinitionMode_from_wire :: "json \<Rightarrow> tool_definition_mode outcome_of" where
  "ToolDefinitionMode_from_wire data =
     and_then (item ''mode'' data) (\<lambda>mode.
     if mode = JStr ''full'' then Inr full_mode
     else if mode = JStr ''concise'' then
       and_then (req ''meta_search'' (str_then ToolId) data) (\<lambda>ms.
       and_then (req ''meta_call'' (str_then ToolId) data) (\<lambda>mc.
       Inr (concise_mode ms mc)))
     else Inl ValueError)"

definition tool_definition_mode_ok :: "tool_definition_mode \<Rightarrow> bool" where
  "tool_definition_mode_ok m \<longleftrightarrow>
     m = full_mode \<or> (\<exists>s c. m = concise_mode s c \<and> valid_tool_id s \<and> valid_tool_id c)"

lemma mode_roundtrip:
  "tool_definition_mode_ok m \<Longrightarrow>
     and_then (tool_definition_mode_to_wire m) ToolDefinitionMode_from_wire = Inr m"
  by (auto simp: tool_definition_mode_ok_def tool_definition_mode_to_wire_def full_mode_def concise_mode_def
      ToolDefinitionMode_from_wire_def id_Inr)

lemma mode_decoded: "ToolDefinitionMode_from_wire v = Inr m \<Longrightarrow> tool_definition_mode_ok m"
  by (auto simp: ToolDefinitionMode_from_wire_def tool_definition_mode_ok_def split: if_splits dest: decoded)

section \<open>Capabilities\<close>

datatype hook_kind = OnSessionOpen | OnSessionClose | OnToolCallStart | OnToolCallResult | OnCancel | OnNotification

fun hook_kind_value :: "hook_kind \<Rightarrow> string" where
  "hook_kind_value OnSessionOpen = ''on_session_open''"
| "hook_kind_value OnSessionClose = ''on_session_close''"
| "hook_kind_value OnToolCallStart = ''on_tool_call_start''"
| "hook_kind_value OnToolCallResult = ''on_tool_call_result''"
| "hook_kind_value OnCancel = ''on_cancel''"
| "hook_kind_value OnNotification = ''on_notification''"

definition HookKind_from_wire :: "string \<Rightarrow> hook_kind outcome_of" where
  "HookKind_from_wire = member_of hook_kind_value
     [OnSessionOpen, OnSessionClose, OnToolCallStart, OnToolCallResult, OnCancel, OnNotification]"

interpretation HookKind: wire_field "\<lambda>x. JStr (hook_kind_value x)" "str_then HookKind_from_wire" "\<lambda>_. True"
proof unfold_locales
  fix x :: hook_kind
  show "str_then HookKind_from_wire (JStr (hook_kind_value x)) = Inr x" by (cases x) (simp_all add: str_then_JStr HookKind_from_wire_def member_of_def)
qed simp_all

interpretation HookKind_raw: wire_field "\<lambda>x. JStr (hook_kind_value x)" "hashed HookKind_from_wire" "\<lambda>_. True"
  by unfold_locales (use HookKind.dec_enc in \<open>simp_all add: str_then_JStr\<close>)

datatype tool_scope = Read | Write

fun tool_scope_value :: "tool_scope \<Rightarrow> string" where
  "tool_scope_value Read = ''read''"
| "tool_scope_value Write = ''write''"

definition ToolScope_from_wire :: "string \<Rightarrow> tool_scope outcome_of" where
  "ToolScope_from_wire = member_of tool_scope_value
     [Read, Write]"

interpretation ToolScope: wire_field "\<lambda>x. JStr (tool_scope_value x)" "str_then ToolScope_from_wire" "\<lambda>_. True"
proof unfold_locales
  fix x :: tool_scope
  show "str_then ToolScope_from_wire (JStr (tool_scope_value x)) = Inr x" by (cases x) (simp_all add: str_then_JStr ToolScope_from_wire_def member_of_def)
qed simp_all

record streaming_spec =
  subkind :: string
  max_delta_bytes :: "int option"

definition streaming_spec_to_wire :: "streaming_spec \<Rightarrow> json" where
  "streaming_spec_to_wire x =
     JDict ([(''subkind'', JStr (subkind x))] @
     opt_pair ''max_delta_bytes'' JInt (max_delta_bytes x))"

definition StreamingSpec_from_wire :: "json \<Rightarrow> streaming_spec outcome_of" where
  "StreamingSpec_from_wire data =
     and_then (req ''subkind'' to_str data) (\<lambda>subkind.
     and_then (opt_in ''max_delta_bytes'' to_int data) (\<lambda>max_delta_bytes.
     Inr \<lparr>subkind = subkind, max_delta_bytes = max_delta_bytes\<rparr>))"

interpretation StreamingSpec: wire_field streaming_spec_to_wire StreamingSpec_from_wire "\<lambda>_. True"
proof unfold_locales
  fix x v
  show "streaming_spec_to_wire x \<noteq> JNull" by (simp add: streaming_spec_to_wire_def)
  show "StreamingSpec_from_wire (streaming_spec_to_wire x) = Inr x"
    by (cases x) (simp add: streaming_spec_to_wire_def StreamingSpec_from_wire_def)
qed simp_all

record tool_capabilities =
  streaming :: "streaming_spec option"
  supports_cancel :: bool
  max_concurrency :: "int option"
  is_read_only :: bool
  hooks :: "hook_kind list"
  behavior_version :: "string option"
  max_frame_bytes :: "int option"
  timeout_ms :: "int option"
  tool_scope :: "tool_scope option"

definition tool_capabilities_to_wire :: "tool_capabilities \<Rightarrow> json" where
  "tool_capabilities_to_wire x =
     JDict ([(''supports_cancel'', JBool (supports_cancel x)),
      (''is_read_only'', JBool (is_read_only x))] @
     opt_pair ''streaming'' streaming_spec_to_wire (streaming x) @
     opt_pair ''max_concurrency'' JInt (max_concurrency x) @
     list_pair ''hooks'' (\<lambda>x. JStr (hook_kind_value x)) (hooks x) @
     opt_pair ''behavior_version'' JStr (behavior_version x) @
     opt_pair ''max_frame_bytes'' JInt (max_frame_bytes x) @
     opt_pair ''timeout_ms'' JInt (timeout_ms x) @
     opt_pair ''tool_scope'' (\<lambda>x. JStr (tool_scope_value x)) (tool_scope x))"

definition ToolCapabilities_from_wire :: "json \<Rightarrow> tool_capabilities outcome_of" where
  "ToolCapabilities_from_wire data =
     and_then (get_item ''streaming'' data) (\<lambda>streaming_raw.
     and_then (get_item ''hooks'' data) (\<lambda>hooks_raw.
     and_then (opt_val StreamingSpec_from_wire streaming_raw) (\<lambda>streaming.
     and_then (dflt ''supports_cancel'' (JBool False) to_bool data) (\<lambda>supports_cancel.
     and_then (opt_in ''max_concurrency'' to_int data) (\<lambda>max_concurrency.
     and_then (dflt ''is_read_only'' (JBool False) to_bool data) (\<lambda>is_read_only.
     and_then (truthy_or_empty (to_list (hashed HookKind_from_wire)) hooks_raw) (\<lambda>hooks.
     and_then (opt_in ''behavior_version'' to_str data) (\<lambda>behavior_version.
     and_then (opt_in ''max_frame_bytes'' to_int data) (\<lambda>max_frame_bytes.
     and_then (opt_in ''timeout_ms'' to_int data) (\<lambda>timeout_ms.
     and_then (opt_in ''tool_scope'' (str_then ToolScope_from_wire) data) (\<lambda>tool_scope.
     Inr \<lparr>streaming = streaming, supports_cancel = supports_cancel, max_concurrency = max_concurrency, 
        is_read_only = is_read_only, hooks = hooks, behavior_version = behavior_version, 
        max_frame_bytes = max_frame_bytes, timeout_ms = timeout_ms, tool_scope = tool_scope\<rparr>)))))))))))"

interpretation ToolCapabilities: wire_field tool_capabilities_to_wire ToolCapabilities_from_wire "\<lambda>_. True"
proof unfold_locales
  fix x v
  show "tool_capabilities_to_wire x \<noteq> JNull" by (simp add: tool_capabilities_to_wire_def)
  show "ToolCapabilities_from_wire (tool_capabilities_to_wire x) = Inr x"
    by (cases x) (simp add: tool_capabilities_to_wire_def ToolCapabilities_from_wire_def)
qed simp_all

record notification_schemas =
  outbound :: "(string \<times> json) list"
  inbound :: "(string \<times> json) list"

definition notification_schemas_to_wire :: "notification_schemas \<Rightarrow> json" where
  "notification_schemas_to_wire x =
     JDict (dict_pair ''outbound'' (outbound x) @
     dict_pair ''inbound'' (inbound x))"

definition NotificationSchemas_from_wire :: "json \<Rightarrow> notification_schemas outcome_of" where
  "NotificationSchemas_from_wire data =
     and_then (get_item ''outbound'' data) (\<lambda>outbound_raw.
     and_then (get_item ''inbound'' data) (\<lambda>inbound_raw.
     and_then (truthy_dict outbound_raw) (\<lambda>outbound.
     and_then (truthy_dict inbound_raw) (\<lambda>inbound.
     Inr \<lparr>outbound = outbound, inbound = inbound\<rparr>))))"

interpretation NotificationSchemas: wire_field notification_schemas_to_wire NotificationSchemas_from_wire "\<lambda>_. True"
proof unfold_locales
  fix x v
  show "notification_schemas_to_wire x \<noteq> JNull" by (simp add: notification_schemas_to_wire_def)
  show "NotificationSchemas_from_wire (notification_schemas_to_wire x) = Inr x"
    by (cases x) (simp add: notification_schemas_to_wire_def NotificationSchemas_from_wire_def)
qed simp_all

section \<open>Registrations\<close>

record tool_description =
  tool_name :: string
  namespace :: "string option"
  title :: "string option"
  tool_text :: string
  arguments_schema :: json
  tool_kind :: "string option"

definition derive_id :: "tool_description \<Rightarrow> string outcome_of" where
  "derive_id d =
     (case namespace d of
        Some ns \<Rightarrow> ToolId (ns @ '':'' @ tool_name d)
      | None \<Rightarrow> ToolId (tool_name d))"

datatype transport_kind = Local | Remote

fun transport_kind_value :: "transport_kind \<Rightarrow> string" where
  "transport_kind_value Local = ''local''"
| "transport_kind_value Remote = ''remote''"

definition TransportKind_from_wire :: "string \<Rightarrow> transport_kind outcome_of" where
  "TransportKind_from_wire = member_of transport_kind_value
     [Local, Remote]"

interpretation TransportKind: wire_field "\<lambda>x. JStr (transport_kind_value x)" "str_then TransportKind_from_wire" "\<lambda>_. True"
proof unfold_locales
  fix x :: transport_kind
  show "str_then TransportKind_from_wire (JStr (transport_kind_value x)) = Inr x" by (cases x) (simp_all add: str_then_JStr TransportKind_from_wire_def member_of_def)
qed simp_all

record tool_description_with_schema =
  description :: tool_description
  input_schema :: json
  capabilities :: "tool_capabilities option"
  notification_schemas :: "notification_schemas option"

definition tool_description_with_schema_to_wire :: "(tool_description \<Rightarrow> json) \<Rightarrow> tool_description_with_schema \<Rightarrow> json" where
  "tool_description_with_schema_to_wire dump x =
     JDict ([(''description'', dump (description x))] @
     value_pair ''input_schema'' (input_schema x) @
     opt_pair ''capabilities'' tool_capabilities_to_wire (capabilities x) @
     opt_pair ''notification_schemas'' notification_schemas_to_wire (notification_schemas x))"

definition tool_description_with_schema_ok :: "(tool_description \<Rightarrow> bool) \<Rightarrow> tool_description_with_schema \<Rightarrow> bool" where
  "tool_description_with_schema_ok okd x \<longleftrightarrow> okd (description x)"

definition ToolDescriptionWithSchema_from_wire :: "(json \<Rightarrow> tool_description outcome_of) \<Rightarrow> json \<Rightarrow> tool_description_with_schema outcome_of" where
  "ToolDescriptionWithSchema_from_wire validate data =
     and_then (req ''description'' validate data) (\<lambda>description.
     and_then (in_or ''input_schema'' keep JNull data) (\<lambda>input_schema.
     and_then (opt_in ''capabilities'' ToolCapabilities_from_wire data) (\<lambda>capabilities.
     and_then (opt_in ''notification_schemas'' NotificationSchemas_from_wire data) (\<lambda>notification_schemas.
     Inr \<lparr>description = description, input_schema = input_schema, capabilities = capabilities, 
        notification_schemas = notification_schemas\<rparr>))))"

lemma tool_description_with_schema_wire:
  assumes "wire_field dump validate okd"
  shows "wire_field (tool_description_with_schema_to_wire dump) (ToolDescriptionWithSchema_from_wire validate) (tool_description_with_schema_ok okd)"
proof unfold_locales
  note facts = wire_field_back [OF assms] wire_field_fields [OF assms]
  fix x v
  show "tool_description_with_schema_to_wire dump x \<noteq> JNull" by (simp add: tool_description_with_schema_to_wire_def)
  show "ToolDescriptionWithSchema_from_wire validate (tool_description_with_schema_to_wire dump x) = Inr x" if "tool_description_with_schema_ok okd x"
    using that by (cases x) (simp add: tool_description_with_schema_to_wire_def ToolDescriptionWithSchema_from_wire_def tool_description_with_schema_ok_def facts)
  show "tool_description_with_schema_ok okd x" if "ToolDescriptionWithSchema_from_wire validate v = Inr x"
    using that by (auto simp: ToolDescriptionWithSchema_from_wire_def tool_description_with_schema_ok_def dest: decoded facts)
qed

definition schema_derive_tool_id :: "tool_description_with_schema \<Rightarrow> string outcome_of" where
  "schema_derive_tool_id x = derive_id (description x)"

record tool_registration =
  tool_id :: string
  user_id :: string
  description :: tool_description
  transport_kind :: transport_kind
  sessions :: "string list option"
  server_id :: "string option"
  input_schema :: json
  capabilities :: "tool_capabilities option"
  notification_schemas :: "notification_schemas option"
  if_match_generation :: "int option"
  metadata :: json

definition tool_registration_to_wire :: "(tool_description \<Rightarrow> json) \<Rightarrow> tool_registration \<Rightarrow> json" where
  "tool_registration_to_wire dump x =
     JDict ([(''tool_id'', JStr (tool_id x))] @
     opt_pair ''sessions'' (\<lambda>xs. JList (map JStr xs)) (sessions x) @
     [(''user_id'', JStr (user_id x))] @
     opt_pair ''server_id'' JStr (server_id x) @
     [(''description'', dump (description x))] @
     value_pair ''input_schema'' (input_schema x) @
     opt_pair ''capabilities'' tool_capabilities_to_wire (capabilities x) @
     opt_pair ''notification_schemas'' notification_schemas_to_wire (notification_schemas x) @
     [(''transport_kind'', JStr (transport_kind_value (transport_kind x)))] @
     opt_pair ''if_match_generation'' JInt (if_match_generation x) @
     value_pair ''metadata'' (metadata x))"

definition tool_registration_ok :: "(tool_description \<Rightarrow> bool) \<Rightarrow> tool_registration \<Rightarrow> bool" where
  "tool_registration_ok okd x \<longleftrightarrow> valid_tool_id (tool_id x) \<and> nonempty (user_id x) \<and> okd (description x) \<and> pred_option (list_all nonempty) (sessions x) \<and> pred_option valid_server_id (server_id x)"

definition ToolRegistration_from_wire :: "(json \<Rightarrow> tool_description outcome_of) \<Rightarrow> json \<Rightarrow> tool_registration outcome_of" where
  "ToolRegistration_from_wire validate data =
     and_then (req ''tool_id'' (str_then ToolId) data) (\<lambda>tool_id.
     and_then (req ''user_id'' (str_then UserId) data) (\<lambda>user_id.
     and_then (req ''description'' validate data) (\<lambda>description.
     and_then (req ''transport_kind'' (str_then TransportKind_from_wire) data) (\<lambda>transport_kind.
     and_then (opt_in ''sessions'' (to_list (str_then SessionId)) data) (\<lambda>sessions.
     and_then (opt_in ''server_id'' (str_then ServerId) data) (\<lambda>server_id.
     and_then (in_or ''input_schema'' keep JNull data) (\<lambda>input_schema.
     and_then (opt_in ''capabilities'' ToolCapabilities_from_wire data) (\<lambda>capabilities.
     and_then (opt_in ''notification_schemas'' NotificationSchemas_from_wire data) (\<lambda>notification_schemas.
     and_then (opt_in ''if_match_generation'' to_int data) (\<lambda>if_match_generation.
     and_then (in_or ''metadata'' keep JNull data) (\<lambda>metadata.
     Inr \<lparr>tool_id = tool_id, user_id = user_id, description = description, 
        transport_kind = transport_kind, sessions = sessions, server_id = server_id, 
        input_schema = input_schema, capabilities = capabilities, notification_schemas = notification_schemas, 
        if_match_generation = if_match_generation, metadata = metadata\<rparr>)))))))))))"

lemma tool_registration_wire:
  assumes "wire_field dump validate okd"
  shows "wire_field (tool_registration_to_wire dump) (ToolRegistration_from_wire validate) (tool_registration_ok okd)"
proof unfold_locales
  note facts = wire_field_back [OF assms] wire_field_fields [OF assms]
  fix x v
  show "tool_registration_to_wire dump x \<noteq> JNull" by (simp add: tool_registration_to_wire_def)
  show "ToolRegistration_from_wire validate (tool_registration_to_wire dump x) = Inr x" if "tool_registration_ok okd x"
    using that by (cases x) (simp add: tool_registration_to_wire_def ToolRegistration_from_wire_def tool_registration_ok_def facts)
  show "tool_registration_ok okd x" if "ToolRegistration_from_wire validate v = Inr x"
    using that by (auto simp: ToolRegistration_from_wire_def tool_registration_ok_def dest: decoded facts)
qed

definition registration_derive_tool_id :: "tool_registration \<Rightarrow> string outcome_of" where
  "registration_derive_tool_id x = derive_id (description x)"

record tool_server_registration =
  server_id :: string
  user_id :: string
  tools :: "tool_description_with_schema list"
  sessions :: "string list option"
  title :: "string option"
  description :: string
  hooks :: "hook_kind list"
  if_match_generation :: "int option"
  metadata :: json

definition tool_server_registration_to_wire :: "(tool_description \<Rightarrow> json) \<Rightarrow> tool_server_registration \<Rightarrow> json" where
  "tool_server_registration_to_wire dump x =
     JDict ([(''server_id'', JStr (server_id x))] @
     opt_pair ''sessions'' (\<lambda>xs. JList (map JStr xs)) (sessions x) @
     [(''user_id'', JStr (user_id x))] @
     opt_pair ''title'' JStr (title x) @
     str_pair ''description'' (description x) @
     [(''tools'', JList (map (tool_description_with_schema_to_wire dump) (tools x)))] @
     list_pair ''hooks'' (\<lambda>x. JStr (hook_kind_value x)) (hooks x) @
     opt_pair ''if_match_generation'' JInt (if_match_generation x) @
     value_pair ''metadata'' (metadata x))"

definition tool_server_registration_ok :: "(tool_description \<Rightarrow> bool) \<Rightarrow> tool_server_registration \<Rightarrow> bool" where
  "tool_server_registration_ok okd x \<longleftrightarrow> valid_server_id (server_id x) \<and> nonempty (user_id x) \<and> list_all (tool_description_with_schema_ok okd) (tools x) \<and> pred_option (list_all nonempty) (sessions x)"

definition ToolServerRegistration_from_wire :: "(json \<Rightarrow> tool_description outcome_of) \<Rightarrow> json \<Rightarrow> tool_server_registration outcome_of" where
  "ToolServerRegistration_from_wire validate data =
     and_then (req ''server_id'' (str_then ServerId) data) (\<lambda>server_id.
     and_then (req ''user_id'' (str_then UserId) data) (\<lambda>user_id.
     and_then (req ''tools'' (to_list (ToolDescriptionWithSchema_from_wire validate)) data) (\<lambda>tools.
     and_then (opt_in ''sessions'' (to_list (str_then SessionId)) data) (\<lambda>sessions.
     and_then (opt_in ''title'' to_str data) (\<lambda>title.
     and_then (in_or ''description'' to_str '''' data) (\<lambda>description.
     and_then (in_or ''hooks'' (to_list (hashed HookKind_from_wire)) [] data) (\<lambda>hooks.
     and_then (opt_in ''if_match_generation'' to_int data) (\<lambda>if_match_generation.
     and_then (in_or ''metadata'' keep JNull data) (\<lambda>metadata.
     Inr \<lparr>server_id = server_id, user_id = user_id, tools = tools, sessions = sessions, 
        title = title, description = description, hooks = hooks, if_match_generation = if_match_generation, 
        metadata = metadata\<rparr>)))))))))"

lemma tool_server_registration_wire:
  assumes "wire_field dump validate okd"
  shows "wire_field (tool_server_registration_to_wire dump) (ToolServerRegistration_from_wire validate) (tool_server_registration_ok okd)"
proof unfold_locales
  note facts = wire_field_back [OF tool_description_with_schema_wire [OF assms]] wire_field_fields [OF tool_description_with_schema_wire [OF assms]]
  fix x v
  show "tool_server_registration_to_wire dump x \<noteq> JNull" by (simp add: tool_server_registration_to_wire_def)
  show "ToolServerRegistration_from_wire validate (tool_server_registration_to_wire dump x) = Inr x" if "tool_server_registration_ok okd x"
    using that by (cases x) (simp add: tool_server_registration_to_wire_def ToolServerRegistration_from_wire_def tool_server_registration_ok_def facts)
  show "tool_server_registration_ok okd x" if "ToolServerRegistration_from_wire validate v = Inr x"
    using that by (auto simp: ToolServerRegistration_from_wire_def tool_server_registration_ok_def dest: decoded facts)
qed

section \<open>Registration outcomes\<close>

datatype registration_outcome =
    Registered string int
  | Updated string int
  | Shadowed string string
  | Rejected string string string

fun registration_outcome_to_wire :: "registration_outcome \<Rightarrow> json" where
  "registration_outcome_to_wire (Registered t g) =
     JDict [(''outcome'', JStr ''registered''), (''tool_id'', JStr t), (''generation'', JInt g)]"
| "registration_outcome_to_wire (Updated t g) =
     JDict [(''outcome'', JStr ''updated''), (''tool_id'', JStr t), (''generation'', JInt g)]"
| "registration_outcome_to_wire (Shadowed t r) =
     JDict [(''outcome'', JStr ''shadowed''), (''tool_id'', JStr t), (''reason'', JStr r)]"
| "registration_outcome_to_wire (Rejected t c m) =
     JDict [(''outcome'', JStr ''rejected''), (''tool_id'', JStr t), (''code'', JStr c),
            (''message'', JStr m)]"

definition registration_outcome_from_wire :: "json \<Rightarrow> registration_outcome outcome_of" where
  "registration_outcome_from_wire data =
     and_then (req ''outcome'' to_str data) (\<lambda>tag.
     if tag \<notin> set [''registered'', ''updated'', ''shadowed'', ''rejected''] then Inl ValueError
     else
       and_then (req ''tool_id'' (str_then ToolId) data) (\<lambda>tool_id.
       if tag = ''registered'' then
         and_then (req ''generation'' to_int data) (\<lambda>g. Inr (Registered tool_id g))
       else if tag = ''updated'' then
         and_then (req ''generation'' to_int data) (\<lambda>g. Inr (Updated tool_id g))
       else if tag = ''shadowed'' then
         and_then (req ''reason'' to_str data) (\<lambda>r. Inr (Shadowed tool_id r))
       else
         and_then (req ''code'' to_str data) (\<lambda>c.
         and_then (req ''message'' to_str data) (\<lambda>m. Inr (Rejected tool_id c m)))))"

fun outcome_tool_id :: "registration_outcome \<Rightarrow> string" where
  "outcome_tool_id (Registered t g) = t"
| "outcome_tool_id (Updated t g) = t"
| "outcome_tool_id (Shadowed t r) = t"
| "outcome_tool_id (Rejected t c m) = t"

definition registration_outcome_ok :: "registration_outcome \<Rightarrow> bool" where
  "registration_outcome_ok x \<longleftrightarrow> valid_tool_id (outcome_tool_id x)"

interpretation RegistrationOutcome: wire_field registration_outcome_to_wire registration_outcome_from_wire registration_outcome_ok
proof unfold_locales
  fix x v
  show "registration_outcome_to_wire x \<noteq> JNull" by (cases x) simp_all
  show "registration_outcome_from_wire (registration_outcome_to_wire x) = Inr x" if "registration_outcome_ok x"
    using that by (cases x) (simp_all add: registration_outcome_from_wire_def registration_outcome_ok_def id_Inr)
  show "registration_outcome_ok x" if *: "registration_outcome_from_wire v = Inr x"
  proof -
    from * obtain t where "req ''tool_id'' (str_then ToolId) v = Inr t" and "outcome_tool_id x = t"
      unfolding registration_outcome_from_wire_def
      by (clarsimp split del: if_split simp del: list.set) (auto split: if_split_asm)
    then show ?thesis by (simp add: registration_outcome_ok_def ToolId.fields_ok(1))
  qed
qed

end
