(* ===== verification/Tool_Frames.thy ===== *)
theory Tool_Frames
  imports Tool_Registration
begin

text \<open>
  The payloads of the tool protocol: method names (\<open>tool_protocol/methods.py\<close>), hook events
  (\<open>hook.py\<close>), tool notifications (\<open>notification_wire.py\<close>), tool output (\<open>output_wire.py\<close>) and the frames
  of \<open>frames.py\<close>, in the order of the files. As in \<open>Tool_Registration\<close>, each dataclass is a record with
  its writer, its reader and the interpretation of the contract of converters.
\<close>

section \<open>Methods\<close>

datatype hub_method =
    SessionOpenMethod
  | SessionCloseMethod
  | SessionBindServerMethod
  | SessionUnbindServerMethod
  | SessionAttachServerMethod
  | ToolsListMethod
  | ToolsSearchMethod
  | ToolCallMethod
  | ToolCancelMethod
  | ToolNotifyMethod
  | SystemNotifyMethod
  | SubscribeNotificationsMethod
  | UnsubscribeNotificationsMethod
  | HookMethod
  | HelloMethod
  | HelloAckMethod
  | PingMethod
  | PongMethod
  | ToolCallProgressMethod
  | ToolNotificationMethod
  | HookReplyMethod
  | TracesDonateMethod
  | LogsDonateMethod
  | MetricsDonateMethod
  | ToolCallRequestMethod
  | ToolsChangedMethod
  | SubscribeAckMethod
  | UnsubscribeAckMethod
  | ServersListMethod
  | ToolServerStatusMethod
  | ToolServerGetStatusMethod
  | ToolServerEvictMethod
  | ServeMethod
  | SessionBindMethod
  | SessionUnbindMethod

fun as_wire_str :: "hub_method \<Rightarrow> string" where
  "as_wire_str SessionOpenMethod = ''session_open''"
| "as_wire_str SessionCloseMethod = ''session_close''"
| "as_wire_str SessionBindServerMethod = ''session_bind_server''"
| "as_wire_str SessionUnbindServerMethod = ''session_unbind_server''"
| "as_wire_str SessionAttachServerMethod = ''session_attach_server''"
| "as_wire_str ToolsListMethod = ''tools.list''"
| "as_wire_str ToolsSearchMethod = ''tools.search''"
| "as_wire_str ToolCallMethod = ''tool.call''"
| "as_wire_str ToolCancelMethod = ''tool.cancel''"
| "as_wire_str ToolNotifyMethod = ''tool.notify''"
| "as_wire_str SystemNotifyMethod = ''system.notify''"
| "as_wire_str SubscribeNotificationsMethod = ''subscribe_notifications''"
| "as_wire_str UnsubscribeNotificationsMethod = ''unsubscribe_notifications''"
| "as_wire_str HookMethod = ''hook''"
| "as_wire_str HelloMethod = ''hello''"
| "as_wire_str HelloAckMethod = ''hello_ack''"
| "as_wire_str PingMethod = ''ping''"
| "as_wire_str PongMethod = ''pong''"
| "as_wire_str ToolCallProgressMethod = ''tool_call_progress''"
| "as_wire_str ToolNotificationMethod = ''tool.notification''"
| "as_wire_str HookReplyMethod = ''hook_reply''"
| "as_wire_str TracesDonateMethod = ''traces.donate''"
| "as_wire_str LogsDonateMethod = ''logs.donate''"
| "as_wire_str MetricsDonateMethod = ''metrics.donate''"
| "as_wire_str ToolCallRequestMethod = ''tool_call_request''"
| "as_wire_str ToolsChangedMethod = ''tools_changed''"
| "as_wire_str SubscribeAckMethod = ''subscribe_ack''"
| "as_wire_str UnsubscribeAckMethod = ''unsubscribe_ack''"
| "as_wire_str ServersListMethod = ''servers.list''"
| "as_wire_str ToolServerStatusMethod = ''tool_server.status''"
| "as_wire_str ToolServerGetStatusMethod = ''tool_server.get_status''"
| "as_wire_str ToolServerEvictMethod = ''tool_server.evict''"
| "as_wire_str ServeMethod = ''serve''"
| "as_wire_str SessionBindMethod = ''session.bind''"
| "as_wire_str SessionUnbindMethod = ''session.unbind''"

definition all_methods :: "hub_method list" where
  "all_methods =
   [SessionOpenMethod, SessionCloseMethod, SessionBindServerMethod, SessionUnbindServerMethod, 
    SessionAttachServerMethod, ToolsListMethod, ToolsSearchMethod, ToolCallMethod, 
    ToolCancelMethod, ToolNotifyMethod, SystemNotifyMethod, SubscribeNotificationsMethod, 
    UnsubscribeNotificationsMethod, HookMethod, HelloMethod, HelloAckMethod, 
    PingMethod, PongMethod, ToolCallProgressMethod, ToolNotificationMethod, 
    HookReplyMethod, TracesDonateMethod, LogsDonateMethod, MetricsDonateMethod, 
    ToolCallRequestMethod, ToolsChangedMethod, SubscribeAckMethod, UnsubscribeAckMethod, 
    ServersListMethod, ToolServerStatusMethod, ToolServerGetStatusMethod, ToolServerEvictMethod, 
    ServeMethod, SessionBindMethod, SessionUnbindMethod]"

definition from_wire_str :: "string \<Rightarrow> hub_method option" where
  "from_wire_str s = find (\<lambda>m. as_wire_str m = s) all_methods"

lemma all_methods_complete: "m \<in> set all_methods"
  by (cases m) (simp_all add: all_methods_def)

lemma methods_distinct: "distinct (map as_wire_str all_methods)"
  by code_simp

lemma from_wire_str_Some: "from_wire_str s = Some m \<longleftrightarrow> as_wire_str m = s"
proof
  assume "as_wire_str m = s"
  then show "from_wire_str s = Some m"
    using member_of_value [OF methods_distinct all_methods_complete [of m]]
    by (auto simp: from_wire_str_def member_of_def split: option.splits)
next
  assume "from_wire_str s = Some m"
  then show "as_wire_str m = s" by (auto simp: from_wire_str_def find_Some_iff)
qed

section \<open>Hook events\<close>

datatype hook_event = Cancel | Pause | Resume | SessionEnded | Custom string json

fun hook_event_to_wire :: "hook_event \<Rightarrow> json" where
  "hook_event_to_wire Cancel = JDict [(''type'', JStr ''Cancel'')]"
| "hook_event_to_wire Pause = JDict [(''type'', JStr ''Pause'')]"
| "hook_event_to_wire Resume = JDict [(''type'', JStr ''Resume'')]"
| "hook_event_to_wire SessionEnded = JDict [(''type'', JStr ''SessionEnded'')]"
| "hook_event_to_wire (Custom k v) = JDict [(''type'', JStr ''Custom''), (''kind'', JStr k), (''payload'', v)]"

definition hook_event_from_wire :: "json \<Rightarrow> hook_event outcome_of" where
  "hook_event_from_wire data =
     and_then (req ''type'' to_str data) (\<lambda>tag.
     if tag = ''Cancel'' then Inr Cancel
     else if tag = ''Pause'' then Inr Pause
     else if tag = ''Resume'' then Inr Resume
     else if tag = ''SessionEnded'' then Inr SessionEnded
     else if tag = ''Custom'' then
       and_then (req ''kind'' to_str data) (\<lambda>k. and_then (req ''payload'' keep data) (\<lambda>v. Inr (Custom k v)))
     else Inl ValueError)"

interpretation HookEvent: wire_field hook_event_to_wire hook_event_from_wire "\<lambda>_. True"
proof unfold_locales
  fix x
  show "hook_event_from_wire (hook_event_to_wire x) = Inr x" by (cases x) (simp_all add: hook_event_from_wire_def)
  show "hook_event_to_wire x \<noteq> JNull" by (cases x) simp_all
qed simp

section \<open>Tool notifications\<close>

record wire_custom_notification =
  kind :: string
  payload :: json

definition wire_custom_notification_to_wire :: "wire_custom_notification \<Rightarrow> json" where
  "wire_custom_notification_to_wire x =
     JDict [(''kind'', JStr (kind x)),
      (''payload'', payload x)]"

definition WireCustomNotification_from_wire :: "json \<Rightarrow> wire_custom_notification outcome_of" where
  "WireCustomNotification_from_wire data =
     and_then (req ''kind'' to_str data) (\<lambda>kind.
     and_then (req ''payload'' keep data) (\<lambda>payload.
     Inr \<lparr>kind = kind, payload = payload\<rparr>))"

interpretation WireCustomNotification: wire_field wire_custom_notification_to_wire WireCustomNotification_from_wire "\<lambda>_. True"
proof unfold_locales
  fix x v
  show "wire_custom_notification_to_wire x \<noteq> JNull" by (simp add: wire_custom_notification_to_wire_def)
  show "WireCustomNotification_from_wire (wire_custom_notification_to_wire x) = Inr x"
    by (cases x) (simp add: wire_custom_notification_to_wire_def WireCustomNotification_from_wire_def)
qed simp_all

datatype wire_tool_notification =
    KnownNotification json
  | CustomNotification wire_custom_notification

fun wire_tool_notification_to_wire :: "wire_tool_notification \<Rightarrow> json" where
  "wire_tool_notification_to_wire (KnownNotification v) = JDict [(''shape'', JStr ''known''), (''value'', v)]"
| "wire_tool_notification_to_wire (CustomNotification n) =
     JDict [(''shape'', JStr ''custom''), (''value'', wire_custom_notification_to_wire n)]"

definition notification_from_wire :: "json \<Rightarrow> wire_tool_notification outcome_of" where
  "notification_from_wire data =
     and_then (item ''shape'' data) (\<lambda>shape.
     and_then (item ''value'' data) (\<lambda>v.
     if shape = JStr ''known'' then Inr (KnownNotification v)
     else if shape = JStr ''custom'' then
       and_then (WireCustomNotification_from_wire v) (\<lambda>n. Inr (CustomNotification n))
     else Inl ValueError))"

interpretation WireToolNotification: wire_field wire_tool_notification_to_wire notification_from_wire "\<lambda>_. True"
proof unfold_locales
  fix x
  show "notification_from_wire (wire_tool_notification_to_wire x) = Inr x"
    by (cases x) (simp_all add: notification_from_wire_def)
  show "wire_tool_notification_to_wire x \<noteq> JNull" by (cases x) simp_all
qed simp

definition KNOWN_NOTIFICATION_KINDS :: "string list" where
  "KNOWN_NOTIFICATION_KINDS =
   [''BashOutputChunk'', ''BashExecutionComplete'', ''BashExecutionTimeout'', 
    ''BashExecutionBackgrounded'', ''BashExecutionFailed'', ''FileWritten'', 
    ''TaskCompleted'', ''PlanModeEntered'', ''PlanModeExited'', ''UserQuestionAsked'', 
    ''LspServerStarting'', ''LspServerReady'', ''LspServerCrashed'', ''LspServerRetrying'', 
    ''LspServerFailed'', ''ScheduledTaskFired'', ''ScheduledTaskRemoved'', ''ScheduledTaskCreated'', 
    ''MonitorEvent'']"

definition check_custom_kind :: "string \<Rightarrow> unit outcome_of" where
  "check_custom_kind k = (if k \<in> set KNOWN_NOTIFICATION_KINDS then Inl (KnownVariantCollision k) else Inr ())"

section \<open>Tool output\<close>

text \<open>\<open>ResourceBlock\<close> keeps the values of \<open>mime_type\<close> and \<open>text\<close> as they come.\<close>

datatype mcp_block =
    TextBlock string
  | ImageBlock string string
  | ResourceBlock string json json

fun mcp_block_to_wire :: "mcp_block \<Rightarrow> json" where
  "mcp_block_to_wire (TextBlock s) = JDict [(''type'', JStr ''text''), (''text'', JStr s)]"
| "mcp_block_to_wire (ImageBlock m b) =
     JDict [(''type'', JStr ''image''), (''mime_type'', JStr m), (''data'', JStr b)]"
| "mcp_block_to_wire (ResourceBlock u m s) =
     JDict ([(''type'', JStr ''resource''), (''uri'', JStr u)] @ value_pair ''mime_type'' m @ value_pair ''text'' s)"

definition mcp_block_from_wire :: "json \<Rightarrow> mcp_block outcome_of" where
  "mcp_block_from_wire data =
     and_then (item ''type'' data) (\<lambda>type.
     if type = JStr ''text'' then and_then (req ''text'' to_str data) (\<lambda>s. Inr (TextBlock s))
     else if type = JStr ''image'' then
       and_then (req ''mime_type'' to_str data) (\<lambda>m. and_then (req ''data'' to_str data) (\<lambda>b. Inr (ImageBlock m b)))
     else if type = JStr ''resource'' then
       and_then (req ''uri'' to_str data) (\<lambda>u.
       and_then (get_value ''mime_type'' data) (\<lambda>m.
       and_then (get_value ''text'' data) (\<lambda>s. Inr (ResourceBlock u m s))))
     else Inl ValueError)"

interpretation McpBlock: wire_field mcp_block_to_wire mcp_block_from_wire "\<lambda>_. True"
proof unfold_locales
  fix x
  show "mcp_block_from_wire (mcp_block_to_wire x) = Inr x" by (cases x) (simp_all add: mcp_block_from_wire_def)
  show "mcp_block_to_wire x \<noteq> JNull" by (cases x) simp_all
qed simp

datatype tool_output_wire =
    Text string
  | Json json
  | Mcp "mcp_block list"

fun tool_output_wire_to_wire :: "tool_output_wire \<Rightarrow> json" where
  "tool_output_wire_to_wire (Text s) = JDict [(''kind'', JStr ''text''), (''value'', JStr s)]"
| "tool_output_wire_to_wire (Json v) = JDict [(''kind'', JStr ''json''), (''value'', v)]"
| "tool_output_wire_to_wire (Mcp bs) =
     JDict [(''kind'', JStr ''mcp''), (''value'', JDict [(''blocks'', JList (map mcp_block_to_wire bs))])]"

definition tool_output_wire_from_wire :: "json \<Rightarrow> tool_output_wire outcome_of" where
  "tool_output_wire_from_wire data =
     and_then (item ''kind'' data) (\<lambda>k.
     and_then (item ''value'' data) (\<lambda>v.
     if k = JStr ''text'' then and_then (to_str v) (\<lambda>s. Inr (Text s))
     else if k = JStr ''json'' then Inr (Json v)
     else if k = JStr ''mcp'' then and_then (req ''blocks'' (to_list mcp_block_from_wire) v) (\<lambda>bs. Inr (Mcp bs))
     else Inl ValueError))"

interpretation ToolOutputWire: wire_field tool_output_wire_to_wire tool_output_wire_from_wire "\<lambda>_. True"
proof unfold_locales
  fix x
  show "tool_output_wire_from_wire (tool_output_wire_to_wire x) = Inr x"
    by (cases x) (simp_all add: tool_output_wire_from_wire_def)
  show "tool_output_wire_to_wire x \<noteq> JNull" by (cases x) simp_all
qed simp

section \<open>Frames\<close>

definition MAX_SPANS_PER_DONATION :: nat where "MAX_SPANS_PER_DONATION = 512"

definition MAX_DONATION_BYTES :: nat where "MAX_DONATION_BYTES = 1024 * 1024"

definition MAX_LOG_RECORDS_PER_DONATION :: nat where "MAX_LOG_RECORDS_PER_DONATION = 512"

definition MAX_METRICS_PER_DONATION :: nat where "MAX_METRICS_PER_DONATION = 512"

definition MAX_SYSTEM_NOTIFY_PAYLOAD_BYTES :: nat where "MAX_SYSTEM_NOTIFY_PAYLOAD_BYTES = 256 * 1024"

record tool_call_params =
  tool_call_id :: string
  tool_id :: string
  arguments :: json
  deadline_ms :: "int option"
  behavior_version :: "string option"
  cwd :: "string option"
  trace_context :: "string option"

definition tool_call_params_to_wire :: "tool_call_params \<Rightarrow> json" where
  "tool_call_params_to_wire x =
     JDict ([(''tool_call_id'', JStr (tool_call_id x)),
      (''tool_id'', JStr (tool_id x)),
      (''arguments'', arguments x)] @
     opt_pair ''deadline_ms'' JInt (deadline_ms x) @
     opt_pair ''behavior_version'' JStr (behavior_version x) @
     opt_pair ''cwd'' JStr (cwd x) @
     opt_pair ''trace_context'' JStr (trace_context x))"

definition tool_call_params_from_wire :: "json \<Rightarrow> tool_call_params outcome_of" where
  "tool_call_params_from_wire data =
     and_then (req ''tool_call_id'' to_str data) (\<lambda>tool_call_id.
     and_then (req ''tool_id'' to_str data) (\<lambda>tool_id.
     and_then (req ''arguments'' keep data) (\<lambda>arguments.
     and_then (opt ''deadline_ms'' to_int data) (\<lambda>deadline_ms.
     and_then (opt ''behavior_version'' to_str data) (\<lambda>behavior_version.
     and_then (opt ''cwd'' to_str data) (\<lambda>cwd.
     and_then (opt ''trace_context'' to_str data) (\<lambda>trace_context.
     Inr \<lparr>tool_call_id = tool_call_id, tool_id = tool_id, arguments = arguments, 
        deadline_ms = deadline_ms, behavior_version = behavior_version, cwd = cwd, 
        trace_context = trace_context\<rparr>)))))))"

interpretation ToolCallParams: wire_field tool_call_params_to_wire tool_call_params_from_wire "\<lambda>_. True"
proof unfold_locales
  fix x v
  show "tool_call_params_to_wire x \<noteq> JNull" by (simp add: tool_call_params_to_wire_def)
  show "tool_call_params_from_wire (tool_call_params_to_wire x) = Inr x"
    by (cases x) (simp add: tool_call_params_to_wire_def tool_call_params_from_wire_def)
qed simp_all

record tool_call_result =
  tool_call_id :: string
  call_output :: tool_output_wire
  follow_ups :: "json list"
  reminders :: "json list"
  chat_completion_output :: json

definition tool_call_result_to_wire :: "tool_call_result \<Rightarrow> json" where
  "tool_call_result_to_wire x =
     JDict ([(''tool_call_id'', JStr (tool_call_id x)),
      (''output'', tool_output_wire_to_wire (call_output x))] @
     list_pair ''follow_ups'' (\<lambda>v. v) (follow_ups x) @
     list_pair ''reminders'' (\<lambda>v. v) (reminders x) @
     value_pair ''chat_completion_output'' (chat_completion_output x))"

definition tool_call_result_from_wire :: "json \<Rightarrow> tool_call_result outcome_of" where
  "tool_call_result_from_wire data =
     and_then (req ''tool_call_id'' to_str data) (\<lambda>tool_call_id.
     and_then (req ''output'' tool_output_wire_from_wire data) (\<lambda>call_output.
     and_then (dflt ''follow_ups'' (JList []) (to_list keep) data) (\<lambda>follow_ups.
     and_then (dflt ''reminders'' (JList []) (to_list keep) data) (\<lambda>reminders.
     and_then (get_value ''chat_completion_output'' data) (\<lambda>chat_completion_output.
     Inr \<lparr>tool_call_id = tool_call_id, call_output = call_output, follow_ups = follow_ups, 
        reminders = reminders, chat_completion_output = chat_completion_output\<rparr>)))))"

interpretation ToolCallResult: wire_field tool_call_result_to_wire tool_call_result_from_wire "\<lambda>_. True"
proof unfold_locales
  fix x v
  show "tool_call_result_to_wire x \<noteq> JNull" by (simp add: tool_call_result_to_wire_def)
  show "tool_call_result_from_wire (tool_call_result_to_wire x) = Inr x"
    by (cases x) (simp add: tool_call_result_to_wire_def tool_call_result_from_wire_def)
qed simp_all

record tool_call_progress_frame =
  tool_call_id :: string
  kind :: string
  body :: json
  dropped_count :: "int option"

definition tool_call_progress_frame_to_wire :: "tool_call_progress_frame \<Rightarrow> json" where
  "tool_call_progress_frame_to_wire x =
     JDict ([(''tool_call_id'', JStr (tool_call_id x)),
      (''kind'', JStr (kind x)),
      (''body'', body x)] @
     opt_pair ''dropped_count'' JInt (dropped_count x))"

definition tool_call_progress_frame_from_wire :: "json \<Rightarrow> tool_call_progress_frame outcome_of" where
  "tool_call_progress_frame_from_wire data =
     and_then (req ''tool_call_id'' to_str data) (\<lambda>tool_call_id.
     and_then (req ''kind'' to_str data) (\<lambda>kind.
     and_then (req ''body'' keep data) (\<lambda>body.
     and_then (opt ''dropped_count'' to_int data) (\<lambda>dropped_count.
     Inr \<lparr>tool_call_id = tool_call_id, kind = kind, body = body, dropped_count = dropped_count\<rparr>))))"

interpretation ToolCallProgressFrame: wire_field tool_call_progress_frame_to_wire tool_call_progress_frame_from_wire "\<lambda>_. True"
proof unfold_locales
  fix x v
  show "tool_call_progress_frame_to_wire x \<noteq> JNull" by (simp add: tool_call_progress_frame_to_wire_def)
  show "tool_call_progress_frame_from_wire (tool_call_progress_frame_to_wire x) = Inr x"
    by (cases x) (simp add: tool_call_progress_frame_to_wire_def tool_call_progress_frame_from_wire_def)
qed simp_all

record traces_donate_params =
  otlp_request :: string

definition traces_donate_params_to_wire :: "traces_donate_params \<Rightarrow> json" where
  "traces_donate_params_to_wire x =
     JDict [(''otlp_request'', JStr (otlp_request x))]"

definition traces_donate_params_from_wire :: "json \<Rightarrow> traces_donate_params outcome_of" where
  "traces_donate_params_from_wire data =
     and_then (req ''otlp_request'' to_str data) (\<lambda>otlp_request.
     Inr \<lparr>otlp_request = otlp_request\<rparr>)"

interpretation TracesDonateParams: wire_field traces_donate_params_to_wire traces_donate_params_from_wire "\<lambda>_. True"
proof unfold_locales
  fix x v
  show "traces_donate_params_to_wire x \<noteq> JNull" by (simp add: traces_donate_params_to_wire_def)
  show "traces_donate_params_from_wire (traces_donate_params_to_wire x) = Inr x"
    by (cases x) (simp add: traces_donate_params_to_wire_def traces_donate_params_from_wire_def)
qed simp_all

record logs_donate_params =
  otlp_request :: string

definition logs_donate_params_to_wire :: "logs_donate_params \<Rightarrow> json" where
  "logs_donate_params_to_wire x =
     JDict [(''otlp_request'', JStr (otlp_request x))]"

definition logs_donate_params_from_wire :: "json \<Rightarrow> logs_donate_params outcome_of" where
  "logs_donate_params_from_wire data =
     and_then (req ''otlp_request'' to_str data) (\<lambda>otlp_request.
     Inr \<lparr>otlp_request = otlp_request\<rparr>)"

interpretation LogsDonateParams: wire_field logs_donate_params_to_wire logs_donate_params_from_wire "\<lambda>_. True"
proof unfold_locales
  fix x v
  show "logs_donate_params_to_wire x \<noteq> JNull" by (simp add: logs_donate_params_to_wire_def)
  show "logs_donate_params_from_wire (logs_donate_params_to_wire x) = Inr x"
    by (cases x) (simp add: logs_donate_params_to_wire_def logs_donate_params_from_wire_def)
qed simp_all

record metrics_donate_params =
  otlp_request :: string

definition metrics_donate_params_to_wire :: "metrics_donate_params \<Rightarrow> json" where
  "metrics_donate_params_to_wire x =
     JDict [(''otlp_request'', JStr (otlp_request x))]"

definition metrics_donate_params_from_wire :: "json \<Rightarrow> metrics_donate_params outcome_of" where
  "metrics_donate_params_from_wire data =
     and_then (req ''otlp_request'' to_str data) (\<lambda>otlp_request.
     Inr \<lparr>otlp_request = otlp_request\<rparr>)"

interpretation MetricsDonateParams: wire_field metrics_donate_params_to_wire metrics_donate_params_from_wire "\<lambda>_. True"
proof unfold_locales
  fix x v
  show "metrics_donate_params_to_wire x \<noteq> JNull" by (simp add: metrics_donate_params_to_wire_def)
  show "metrics_donate_params_from_wire (metrics_donate_params_to_wire x) = Inr x"
    by (cases x) (simp add: metrics_donate_params_to_wire_def metrics_donate_params_from_wire_def)
qed simp_all

record ping_frame =
  ts_ms :: int

definition ping_frame_to_wire :: "ping_frame \<Rightarrow> json" where
  "ping_frame_to_wire x = JDict [(''method'', JStr (as_wire_str PingMethod)), (''ts_ms'', JInt (ts_ms x))]"

definition check_method :: "hub_method \<Rightarrow> json \<Rightarrow> unit outcome_of" where
  "check_method expected data =
     and_then (opt ''method'' to_str data) (\<lambda>method.
     if method \<noteq> None \<and> method \<noteq> Some (as_wire_str expected) then Inl ValueError else Inr ())"

definition ping_frame_from_wire :: "json \<Rightarrow> ping_frame outcome_of" where
  "ping_frame_from_wire data =
     and_then (check_method PingMethod data) (\<lambda>_.
     and_then (req ''ts_ms'' to_int data) (\<lambda>ts. Inr \<lparr>ts_ms = ts\<rparr>))"

interpretation PingFrame: wire_field ping_frame_to_wire ping_frame_from_wire "\<lambda>_. True"
proof unfold_locales
  fix x
  show "ping_frame_from_wire (ping_frame_to_wire x) = Inr x"
    by (cases x) (simp add: ping_frame_from_wire_def ping_frame_to_wire_def check_method_def)
qed (simp_all add: ping_frame_to_wire_def)

record pong_frame =
  ts_ms :: int

definition pong_frame_to_wire :: "pong_frame \<Rightarrow> json" where
  "pong_frame_to_wire x = JDict [(''method'', JStr (as_wire_str PongMethod)), (''ts_ms'', JInt (ts_ms x))]"

definition pong_frame_from_wire :: "json \<Rightarrow> pong_frame outcome_of" where
  "pong_frame_from_wire data =
     and_then (check_method PongMethod data) (\<lambda>_.
     and_then (req ''ts_ms'' to_int data) (\<lambda>ts. Inr \<lparr>ts_ms = ts\<rparr>))"

interpretation PongFrame: wire_field pong_frame_to_wire pong_frame_from_wire "\<lambda>_. True"
proof unfold_locales
  fix x
  show "pong_frame_from_wire (pong_frame_to_wire x) = Inr x"
    by (cases x) (simp add: pong_frame_from_wire_def pong_frame_to_wire_def check_method_def)
qed (simp_all add: pong_frame_to_wire_def)

record register_tool_params =
  tool :: tool_registration

definition register_tool_params_to_wire :: "(tool_description \<Rightarrow> json) \<Rightarrow> register_tool_params \<Rightarrow> json" where
  "register_tool_params_to_wire dump x =
     JDict [(''tool'', tool_registration_to_wire dump (tool x))]"

definition register_tool_params_ok :: "(tool_description \<Rightarrow> bool) \<Rightarrow> register_tool_params \<Rightarrow> bool" where
  "register_tool_params_ok okd x \<longleftrightarrow> tool_registration_ok okd (tool x)"

definition register_tool_params_from_wire :: "(json \<Rightarrow> tool_description outcome_of) \<Rightarrow> json \<Rightarrow> register_tool_params outcome_of" where
  "register_tool_params_from_wire validate data =
     and_then (req ''tool'' (ToolRegistration_from_wire validate) data) (\<lambda>tool.
     Inr \<lparr>tool = tool\<rparr>)"

lemma register_tool_params_wire:
  assumes "wire_field dump validate okd"
  shows "wire_field (register_tool_params_to_wire dump) (register_tool_params_from_wire validate) (register_tool_params_ok okd)"
proof unfold_locales
  note facts = wire_field_back [OF tool_registration_wire [OF assms]] wire_field_fields [OF tool_registration_wire [OF assms]]
  fix x v
  show "register_tool_params_to_wire dump x \<noteq> JNull" by (simp add: register_tool_params_to_wire_def)
  show "register_tool_params_from_wire validate (register_tool_params_to_wire dump x) = Inr x" if "register_tool_params_ok okd x"
    using that by (cases x) (simp add: register_tool_params_to_wire_def register_tool_params_from_wire_def register_tool_params_ok_def facts)
  show "register_tool_params_ok okd x" if "register_tool_params_from_wire validate v = Inr x"
    using that by (auto simp: register_tool_params_from_wire_def register_tool_params_ok_def dest: decoded facts)
qed

record register_server_params =
  server :: tool_server_registration

definition register_server_params_to_wire :: "(tool_description \<Rightarrow> json) \<Rightarrow> register_server_params \<Rightarrow> json" where
  "register_server_params_to_wire dump x =
     JDict [(''server'', tool_server_registration_to_wire dump (server x))]"

definition register_server_params_ok :: "(tool_description \<Rightarrow> bool) \<Rightarrow> register_server_params \<Rightarrow> bool" where
  "register_server_params_ok okd x \<longleftrightarrow> tool_server_registration_ok okd (server x)"

definition register_server_params_from_wire :: "(json \<Rightarrow> tool_description outcome_of) \<Rightarrow> json \<Rightarrow> register_server_params outcome_of" where
  "register_server_params_from_wire validate data =
     and_then (req ''server'' (ToolServerRegistration_from_wire validate) data) (\<lambda>server.
     Inr \<lparr>server = server\<rparr>)"

lemma register_server_params_wire:
  assumes "wire_field dump validate okd"
  shows "wire_field (register_server_params_to_wire dump) (register_server_params_from_wire validate) (register_server_params_ok okd)"
proof unfold_locales
  note facts = wire_field_back [OF tool_server_registration_wire [OF assms]] wire_field_fields [OF tool_server_registration_wire [OF assms]]
  fix x v
  show "register_server_params_to_wire dump x \<noteq> JNull" by (simp add: register_server_params_to_wire_def)
  show "register_server_params_from_wire validate (register_server_params_to_wire dump x) = Inr x" if "register_server_params_ok okd x"
    using that by (cases x) (simp add: register_server_params_to_wire_def register_server_params_from_wire_def register_server_params_ok_def facts)
  show "register_server_params_ok okd x" if "register_server_params_from_wire validate v = Inr x"
    using that by (auto simp: register_server_params_from_wire_def register_server_params_ok_def dest: decoded facts)
qed

record unregister_tool_params =
  tool_id :: string

definition unregister_tool_params_to_wire :: "unregister_tool_params \<Rightarrow> json" where
  "unregister_tool_params_to_wire x =
     JDict [(''tool_id'', JStr (tool_id x))]"

definition unregister_tool_params_ok :: "unregister_tool_params \<Rightarrow> bool" where
  "unregister_tool_params_ok x \<longleftrightarrow> valid_tool_id (tool_id x)"

definition unregister_tool_params_from_wire :: "json \<Rightarrow> unregister_tool_params outcome_of" where
  "unregister_tool_params_from_wire data =
     and_then (req ''tool_id'' (str_then ToolId) data) (\<lambda>tool_id.
     Inr \<lparr>tool_id = tool_id\<rparr>)"

interpretation UnregisterToolParams: wire_field unregister_tool_params_to_wire unregister_tool_params_from_wire unregister_tool_params_ok
proof unfold_locales
  fix x v
  show "unregister_tool_params_to_wire x \<noteq> JNull" by (simp add: unregister_tool_params_to_wire_def)
  show "unregister_tool_params_from_wire (unregister_tool_params_to_wire x) = Inr x" if "unregister_tool_params_ok x"
    using that by (cases x) (simp add: unregister_tool_params_to_wire_def unregister_tool_params_from_wire_def unregister_tool_params_ok_def)
  show "unregister_tool_params_ok x" if "unregister_tool_params_from_wire v = Inr x"
    using that by (auto simp: unregister_tool_params_from_wire_def unregister_tool_params_ok_def dest: decoded)
qed

record unregister_server_params =
  server_id :: string

definition unregister_server_params_to_wire :: "unregister_server_params \<Rightarrow> json" where
  "unregister_server_params_to_wire x =
     JDict [(''server_id'', JStr (server_id x))]"

definition unregister_server_params_ok :: "unregister_server_params \<Rightarrow> bool" where
  "unregister_server_params_ok x \<longleftrightarrow> valid_server_id (server_id x)"

definition unregister_server_params_from_wire :: "json \<Rightarrow> unregister_server_params outcome_of" where
  "unregister_server_params_from_wire data =
     and_then (req ''server_id'' (str_then ServerId) data) (\<lambda>server_id.
     Inr \<lparr>server_id = server_id\<rparr>)"

interpretation UnregisterServerParams: wire_field unregister_server_params_to_wire unregister_server_params_from_wire unregister_server_params_ok
proof unfold_locales
  fix x v
  show "unregister_server_params_to_wire x \<noteq> JNull" by (simp add: unregister_server_params_to_wire_def)
  show "unregister_server_params_from_wire (unregister_server_params_to_wire x) = Inr x" if "unregister_server_params_ok x"
    using that by (cases x) (simp add: unregister_server_params_to_wire_def unregister_server_params_from_wire_def unregister_server_params_ok_def)
  show "unregister_server_params_ok x" if "unregister_server_params_from_wire v = Inr x"
    using that by (auto simp: unregister_server_params_from_wire_def unregister_server_params_ok_def dest: decoded)
qed

datatype tool_session_bind_outcome = Bound | AlreadyBound | UnknownTool | SessionNotBound

fun tool_session_bind_outcome_value :: "tool_session_bind_outcome \<Rightarrow> string" where
  "tool_session_bind_outcome_value Bound = ''bound''"
| "tool_session_bind_outcome_value AlreadyBound = ''already_bound''"
| "tool_session_bind_outcome_value UnknownTool = ''unknown_tool''"
| "tool_session_bind_outcome_value SessionNotBound = ''session_not_bound''"

definition ToolSessionBindOutcome_from_wire :: "string \<Rightarrow> tool_session_bind_outcome outcome_of" where
  "ToolSessionBindOutcome_from_wire = member_of tool_session_bind_outcome_value
     [Bound, AlreadyBound, UnknownTool, SessionNotBound]"

interpretation ToolSessionBindOutcome: wire_field "\<lambda>x. JStr (tool_session_bind_outcome_value x)" "str_then ToolSessionBindOutcome_from_wire" "\<lambda>_. True"
proof unfold_locales
  fix x :: tool_session_bind_outcome
  show "str_then ToolSessionBindOutcome_from_wire (JStr (tool_session_bind_outcome_value x)) = Inr x" by (cases x) (simp_all add: str_then_JStr ToolSessionBindOutcome_from_wire_def member_of_def)
qed simp_all

datatype tool_session_unbind_outcome = Unbound | NotBound | UnknownTool

fun tool_session_unbind_outcome_value :: "tool_session_unbind_outcome \<Rightarrow> string" where
  "tool_session_unbind_outcome_value Unbound = ''unbound''"
| "tool_session_unbind_outcome_value NotBound = ''not_bound''"
| "tool_session_unbind_outcome_value UnknownTool = ''unknown_tool''"

definition ToolSessionUnbindOutcome_from_wire :: "string \<Rightarrow> tool_session_unbind_outcome outcome_of" where
  "ToolSessionUnbindOutcome_from_wire = member_of tool_session_unbind_outcome_value
     [Unbound, NotBound, UnknownTool]"

interpretation ToolSessionUnbindOutcome: wire_field "\<lambda>x. JStr (tool_session_unbind_outcome_value x)" "str_then ToolSessionUnbindOutcome_from_wire" "\<lambda>_. True"
proof unfold_locales
  fix x :: tool_session_unbind_outcome
  show "str_then ToolSessionUnbindOutcome_from_wire (JStr (tool_session_unbind_outcome_value x)) = Inr x" by (cases x) (simp_all add: str_then_JStr ToolSessionUnbindOutcome_from_wire_def member_of_def)
qed simp_all

record bind_tool_session_params =
  tool_id :: string
  session_id :: string

definition bind_tool_session_params_to_wire :: "bind_tool_session_params \<Rightarrow> json" where
  "bind_tool_session_params_to_wire x =
     JDict [(''tool_id'', JStr (tool_id x)),
      (''session_id'', JStr (session_id x))]"

definition bind_tool_session_params_ok :: "bind_tool_session_params \<Rightarrow> bool" where
  "bind_tool_session_params_ok x \<longleftrightarrow> valid_tool_id (tool_id x) \<and> nonempty (session_id x)"

definition bind_tool_session_params_from_wire :: "json \<Rightarrow> bind_tool_session_params outcome_of" where
  "bind_tool_session_params_from_wire data =
     and_then (req ''tool_id'' (str_then ToolId) data) (\<lambda>tool_id.
     and_then (req ''session_id'' (str_then SessionId) data) (\<lambda>session_id.
     Inr \<lparr>tool_id = tool_id, session_id = session_id\<rparr>))"

interpretation BindToolSessionParams: wire_field bind_tool_session_params_to_wire bind_tool_session_params_from_wire bind_tool_session_params_ok
proof unfold_locales
  fix x v
  show "bind_tool_session_params_to_wire x \<noteq> JNull" by (simp add: bind_tool_session_params_to_wire_def)
  show "bind_tool_session_params_from_wire (bind_tool_session_params_to_wire x) = Inr x" if "bind_tool_session_params_ok x"
    using that by (cases x) (simp add: bind_tool_session_params_to_wire_def bind_tool_session_params_from_wire_def bind_tool_session_params_ok_def)
  show "bind_tool_session_params_ok x" if "bind_tool_session_params_from_wire v = Inr x"
    using that by (auto simp: bind_tool_session_params_from_wire_def bind_tool_session_params_ok_def dest: decoded)
qed

record unbind_tool_session_params =
  tool_id :: string
  session_id :: string

definition unbind_tool_session_params_to_wire :: "unbind_tool_session_params \<Rightarrow> json" where
  "unbind_tool_session_params_to_wire x =
     JDict [(''tool_id'', JStr (tool_id x)),
      (''session_id'', JStr (session_id x))]"

definition unbind_tool_session_params_ok :: "unbind_tool_session_params \<Rightarrow> bool" where
  "unbind_tool_session_params_ok x \<longleftrightarrow> valid_tool_id (tool_id x) \<and> nonempty (session_id x)"

definition unbind_tool_session_params_from_wire :: "json \<Rightarrow> unbind_tool_session_params outcome_of" where
  "unbind_tool_session_params_from_wire data =
     and_then (req ''tool_id'' (str_then ToolId) data) (\<lambda>tool_id.
     and_then (req ''session_id'' (str_then SessionId) data) (\<lambda>session_id.
     Inr \<lparr>tool_id = tool_id, session_id = session_id\<rparr>))"

interpretation UnbindToolSessionParams: wire_field unbind_tool_session_params_to_wire unbind_tool_session_params_from_wire unbind_tool_session_params_ok
proof unfold_locales
  fix x v
  show "unbind_tool_session_params_to_wire x \<noteq> JNull" by (simp add: unbind_tool_session_params_to_wire_def)
  show "unbind_tool_session_params_from_wire (unbind_tool_session_params_to_wire x) = Inr x" if "unbind_tool_session_params_ok x"
    using that by (cases x) (simp add: unbind_tool_session_params_to_wire_def unbind_tool_session_params_from_wire_def unbind_tool_session_params_ok_def)
  show "unbind_tool_session_params_ok x" if "unbind_tool_session_params_from_wire v = Inr x"
    using that by (auto simp: unbind_tool_session_params_from_wire_def unbind_tool_session_params_ok_def dest: decoded)
qed

record bind_tool_session_ack =
  outcome :: tool_session_bind_outcome

definition bind_tool_session_ack_to_wire :: "bind_tool_session_ack \<Rightarrow> json" where
  "bind_tool_session_ack_to_wire x =
     JDict [(''outcome'', JStr (tool_session_bind_outcome_value (outcome x)))]"

definition bind_tool_session_ack_from_wire :: "json \<Rightarrow> bind_tool_session_ack outcome_of" where
  "bind_tool_session_ack_from_wire data =
     and_then (req ''outcome'' (str_then ToolSessionBindOutcome_from_wire) data) (\<lambda>outcome.
     Inr \<lparr>outcome = outcome\<rparr>)"

interpretation BindToolSessionAck: wire_field bind_tool_session_ack_to_wire bind_tool_session_ack_from_wire "\<lambda>_. True"
proof unfold_locales
  fix x v
  show "bind_tool_session_ack_to_wire x \<noteq> JNull" by (simp add: bind_tool_session_ack_to_wire_def)
  show "bind_tool_session_ack_from_wire (bind_tool_session_ack_to_wire x) = Inr x"
    by (cases x) (simp add: bind_tool_session_ack_to_wire_def bind_tool_session_ack_from_wire_def)
qed simp_all

record unbind_tool_session_ack =
  outcome :: tool_session_unbind_outcome

definition unbind_tool_session_ack_to_wire :: "unbind_tool_session_ack \<Rightarrow> json" where
  "unbind_tool_session_ack_to_wire x =
     JDict [(''outcome'', JStr (tool_session_unbind_outcome_value (outcome x)))]"

definition unbind_tool_session_ack_from_wire :: "json \<Rightarrow> unbind_tool_session_ack outcome_of" where
  "unbind_tool_session_ack_from_wire data =
     and_then (req ''outcome'' (str_then ToolSessionUnbindOutcome_from_wire) data) (\<lambda>outcome.
     Inr \<lparr>outcome = outcome\<rparr>)"

interpretation UnbindToolSessionAck: wire_field unbind_tool_session_ack_to_wire unbind_tool_session_ack_from_wire "\<lambda>_. True"
proof unfold_locales
  fix x v
  show "unbind_tool_session_ack_to_wire x \<noteq> JNull" by (simp add: unbind_tool_session_ack_to_wire_def)
  show "unbind_tool_session_ack_from_wire (unbind_tool_session_ack_to_wire x) = Inr x"
    by (cases x) (simp add: unbind_tool_session_ack_to_wire_def unbind_tool_session_ack_from_wire_def)
qed simp_all

record tools_list_params =
  session_id :: string
  list_mode :: tool_definition_mode

definition tools_list_params_to_wire :: "tools_list_params \<Rightarrow> json outcome_of" where
  "tools_list_params_to_wire x =
     and_then (tool_definition_mode_to_wire (list_mode x)) (\<lambda>m.
     Inr (JDict [(''session_id'', JStr (session_id x)), (''mode'', m)]))"

definition tools_list_params_from_wire :: "json \<Rightarrow> tools_list_params outcome_of" where
  "tools_list_params_from_wire data =
     and_then (req ''session_id'' (str_then SessionId) data) (\<lambda>session_id.
     and_then (req ''mode'' ToolDefinitionMode_from_wire data) (\<lambda>mode.
     Inr \<lparr>session_id = session_id, list_mode = mode\<rparr>))"

lemma tools_list_params_roundtrip:
  assumes "nonempty (session_id x)" and "tool_definition_mode_ok (list_mode x)"
  shows "and_then (tools_list_params_to_wire x) tools_list_params_from_wire = Inr x"
  using mode_roundtrip [OF assms(2)] assms(1)
  by (cases x) (auto simp: tools_list_params_to_wire_def tools_list_params_from_wire_def)

record tools_list_result =
  tools :: "tool_description list"

definition tools_list_result_to_wire :: "(tool_description \<Rightarrow> json) \<Rightarrow> tools_list_result \<Rightarrow> json" where
  "tools_list_result_to_wire dump x =
     JDict [(''tools'', JList (map dump (tools x)))]"

definition tools_list_result_ok :: "(tool_description \<Rightarrow> bool) \<Rightarrow> tools_list_result \<Rightarrow> bool" where
  "tools_list_result_ok okd x \<longleftrightarrow> list_all okd (tools x)"

definition tools_list_result_from_wire :: "(json \<Rightarrow> tool_description outcome_of) \<Rightarrow> json \<Rightarrow> tools_list_result outcome_of" where
  "tools_list_result_from_wire validate data =
     and_then (req ''tools'' (to_list validate) data) (\<lambda>tools.
     Inr \<lparr>tools = tools\<rparr>)"

lemma tools_list_result_wire:
  assumes "wire_field dump validate okd"
  shows "wire_field (tools_list_result_to_wire dump) (tools_list_result_from_wire validate) (tools_list_result_ok okd)"
proof unfold_locales
  note facts = wire_field_back [OF assms] wire_field_fields [OF assms]
  fix x v
  show "tools_list_result_to_wire dump x \<noteq> JNull" by (simp add: tools_list_result_to_wire_def)
  show "tools_list_result_from_wire validate (tools_list_result_to_wire dump x) = Inr x" if "tools_list_result_ok okd x"
    using that by (cases x) (simp add: tools_list_result_to_wire_def tools_list_result_from_wire_def tools_list_result_ok_def facts)
  show "tools_list_result_ok okd x" if "tools_list_result_from_wire validate v = Inr x"
    using that by (auto simp: tools_list_result_from_wire_def tools_list_result_ok_def dest: decoded facts)
qed

record tools_search_params =
  session_id :: string
  query :: string
  limit :: int

definition tools_search_params_to_wire :: "tools_search_params \<Rightarrow> json" where
  "tools_search_params_to_wire x =
     JDict [(''session_id'', JStr (session_id x)),
      (''query'', JStr (query x)),
      (''limit'', JInt (limit x))]"

definition tools_search_params_ok :: "tools_search_params \<Rightarrow> bool" where
  "tools_search_params_ok x \<longleftrightarrow> nonempty (session_id x)"

definition tools_search_params_from_wire :: "json \<Rightarrow> tools_search_params outcome_of" where
  "tools_search_params_from_wire data =
     and_then (req ''session_id'' (str_then SessionId) data) (\<lambda>session_id.
     and_then (req ''query'' to_str data) (\<lambda>query.
     and_then (req ''limit'' to_int data) (\<lambda>limit.
     Inr \<lparr>session_id = session_id, query = query, limit = limit\<rparr>)))"

interpretation ToolsSearchParams: wire_field tools_search_params_to_wire tools_search_params_from_wire tools_search_params_ok
proof unfold_locales
  fix x v
  show "tools_search_params_to_wire x \<noteq> JNull" by (simp add: tools_search_params_to_wire_def)
  show "tools_search_params_from_wire (tools_search_params_to_wire x) = Inr x" if "tools_search_params_ok x"
    using that by (cases x) (simp add: tools_search_params_to_wire_def tools_search_params_from_wire_def tools_search_params_ok_def)
  show "tools_search_params_ok x" if "tools_search_params_from_wire v = Inr x"
    using that by (auto simp: tools_search_params_from_wire_def tools_search_params_ok_def dest: decoded)
qed

record tool_search_result =
  tool_name :: string
  server_name :: string
  description :: string
  score :: rat
  parameters :: "string list"
  input_schema :: json

definition tool_search_result_to_wire :: "tool_search_result \<Rightarrow> json" where
  "tool_search_result_to_wire x =
     JDict [(''tool_name'', JStr (tool_name x)),
      (''server_name'', JStr (server_name x)),
      (''description'', JStr (description x)),
      (''score'', JFloat (score x)),
      (''parameters'', JList (map JStr (parameters x))),
      (''input_schema'', input_schema x)]"

definition tool_search_result_from_wire :: "json \<Rightarrow> tool_search_result outcome_of" where
  "tool_search_result_from_wire data =
     and_then (req ''tool_name'' to_str data) (\<lambda>tool_name.
     and_then (req ''server_name'' to_str data) (\<lambda>server_name.
     and_then (req ''description'' to_str data) (\<lambda>description.
     and_then (req ''score'' to_float data) (\<lambda>score.
     and_then (req ''parameters'' (to_list to_str) data) (\<lambda>parameters.
     and_then (req ''input_schema'' keep data) (\<lambda>input_schema.
     Inr \<lparr>tool_name = tool_name, server_name = server_name, description = description, 
        score = score, parameters = parameters, input_schema = input_schema\<rparr>))))))"

interpretation ToolSearchResult: wire_field tool_search_result_to_wire tool_search_result_from_wire "\<lambda>_. True"
proof unfold_locales
  fix x v
  show "tool_search_result_to_wire x \<noteq> JNull" by (simp add: tool_search_result_to_wire_def)
  show "tool_search_result_from_wire (tool_search_result_to_wire x) = Inr x"
    by (cases x) (simp add: tool_search_result_to_wire_def tool_search_result_from_wire_def)
qed simp_all

record tools_search_result_body =
  results :: "tool_search_result list"
  total_hidden_tools :: int
  is_ready :: bool

definition tools_search_result_body_to_wire :: "tools_search_result_body \<Rightarrow> json" where
  "tools_search_result_body_to_wire x =
     JDict [(''results'', JList (map tool_search_result_to_wire (results x))),
      (''total_hidden_tools'', JInt (total_hidden_tools x)),
      (''is_ready'', JBool (is_ready x))]"

definition tools_search_result_body_from_wire :: "json \<Rightarrow> tools_search_result_body outcome_of" where
  "tools_search_result_body_from_wire data =
     and_then (req ''results'' (to_list tool_search_result_from_wire) data) (\<lambda>results.
     and_then (req ''total_hidden_tools'' to_int data) (\<lambda>total_hidden_tools.
     and_then (req ''is_ready'' to_bool data) (\<lambda>is_ready.
     Inr \<lparr>results = results, total_hidden_tools = total_hidden_tools, is_ready = is_ready\<rparr>)))"

interpretation ToolsSearchResultBody: wire_field tools_search_result_body_to_wire tools_search_result_body_from_wire "\<lambda>_. True"
proof unfold_locales
  fix x v
  show "tools_search_result_body_to_wire x \<noteq> JNull" by (simp add: tools_search_result_body_to_wire_def)
  show "tools_search_result_body_from_wire (tools_search_result_body_to_wire x) = Inr x"
    by (cases x) (simp add: tools_search_result_body_to_wire_def tools_search_result_body_from_wire_def)
qed simp_all

datatype subscribe_outcome = Subscribed | AlreadySubscribed | NotAuthorized

fun subscribe_outcome_value :: "subscribe_outcome \<Rightarrow> string" where
  "subscribe_outcome_value Subscribed = ''subscribed''"
| "subscribe_outcome_value AlreadySubscribed = ''already_subscribed''"
| "subscribe_outcome_value NotAuthorized = ''not_authorized''"

definition SubscribeOutcome_from_wire :: "string \<Rightarrow> subscribe_outcome outcome_of" where
  "SubscribeOutcome_from_wire = member_of subscribe_outcome_value
     [Subscribed, AlreadySubscribed, NotAuthorized]"

interpretation SubscribeOutcome: wire_field "\<lambda>x. JStr (subscribe_outcome_value x)" "str_then SubscribeOutcome_from_wire" "\<lambda>_. True"
proof unfold_locales
  fix x :: subscribe_outcome
  show "str_then SubscribeOutcome_from_wire (JStr (subscribe_outcome_value x)) = Inr x" by (cases x) (simp_all add: str_then_JStr SubscribeOutcome_from_wire_def member_of_def)
qed simp_all

datatype unsubscribe_outcome = Unsubscribed | NotSubscribed | Evicted

fun unsubscribe_outcome_value :: "unsubscribe_outcome \<Rightarrow> string" where
  "unsubscribe_outcome_value Unsubscribed = ''unsubscribed''"
| "unsubscribe_outcome_value NotSubscribed = ''not_subscribed''"
| "unsubscribe_outcome_value Evicted = ''evicted''"

definition UnsubscribeOutcome_from_wire :: "string \<Rightarrow> unsubscribe_outcome outcome_of" where
  "UnsubscribeOutcome_from_wire = member_of unsubscribe_outcome_value
     [Unsubscribed, NotSubscribed, Evicted]"

interpretation UnsubscribeOutcome: wire_field "\<lambda>x. JStr (unsubscribe_outcome_value x)" "str_then UnsubscribeOutcome_from_wire" "\<lambda>_. True"
proof unfold_locales
  fix x :: unsubscribe_outcome
  show "str_then UnsubscribeOutcome_from_wire (JStr (unsubscribe_outcome_value x)) = Inr x" by (cases x) (simp_all add: str_then_JStr UnsubscribeOutcome_from_wire_def member_of_def)
qed simp_all

record notification_filter =
  tool_id :: "string option"
  kinds :: "string list option"

definition notification_filter_to_wire :: "notification_filter \<Rightarrow> json" where
  "notification_filter_to_wire x =
     JDict (opt_pair ''tool_id'' JStr (tool_id x) @
     opt_pair ''kinds'' (\<lambda>xs. JList (map JStr xs)) (kinds x))"

definition notification_filter_ok :: "notification_filter \<Rightarrow> bool" where
  "notification_filter_ok x \<longleftrightarrow> pred_option valid_tool_id (tool_id x)"

definition notification_filter_from_wire :: "json \<Rightarrow> notification_filter outcome_of" where
  "notification_filter_from_wire data =
     and_then (get_item ''tool_id'' data) (\<lambda>tool_id_raw.
     and_then (get_item ''kinds'' data) (\<lambda>kinds_raw.
     and_then (opt_val (str_then ToolId) tool_id_raw) (\<lambda>tool_id.
     and_then (opt_val (to_list to_str) kinds_raw) (\<lambda>kinds.
     Inr \<lparr>tool_id = tool_id, kinds = kinds\<rparr>))))"

interpretation NotificationFilter: wire_field notification_filter_to_wire notification_filter_from_wire notification_filter_ok
proof unfold_locales
  fix x v
  show "notification_filter_to_wire x \<noteq> JNull" by (simp add: notification_filter_to_wire_def)
  show "notification_filter_from_wire (notification_filter_to_wire x) = Inr x" if "notification_filter_ok x"
    using that by (cases x) (simp add: notification_filter_to_wire_def notification_filter_from_wire_def notification_filter_ok_def)
  show "notification_filter_ok x" if "notification_filter_from_wire v = Inr x"
    using that by (auto simp: notification_filter_from_wire_def notification_filter_ok_def dest: decoded)
qed

record subscribe_notifications_params =
  session_id :: string
  filter_by :: "notification_filter option"

definition subscribe_notifications_params_to_wire :: "subscribe_notifications_params \<Rightarrow> json" where
  "subscribe_notifications_params_to_wire x =
     JDict ([(''session_id'', JStr (session_id x))] @
     opt_pair ''filter'' notification_filter_to_wire (filter_by x))"

definition subscribe_notifications_params_ok :: "subscribe_notifications_params \<Rightarrow> bool" where
  "subscribe_notifications_params_ok x \<longleftrightarrow> nonempty (session_id x) \<and> pred_option notification_filter_ok (filter_by x)"

definition subscribe_notifications_params_from_wire :: "json \<Rightarrow> subscribe_notifications_params outcome_of" where
  "subscribe_notifications_params_from_wire data =
     and_then (get_item ''filter'' data) (\<lambda>filter_raw.
     and_then (req ''session_id'' (str_then SessionId) data) (\<lambda>session_id.
     and_then (opt_val notification_filter_from_wire filter_raw) (\<lambda>filter_by.
     Inr \<lparr>session_id = session_id, filter_by = filter_by\<rparr>)))"

interpretation SubscribeNotificationsParams: wire_field subscribe_notifications_params_to_wire subscribe_notifications_params_from_wire subscribe_notifications_params_ok
proof unfold_locales
  fix x v
  show "subscribe_notifications_params_to_wire x \<noteq> JNull" by (simp add: subscribe_notifications_params_to_wire_def)
  show "subscribe_notifications_params_from_wire (subscribe_notifications_params_to_wire x) = Inr x" if "subscribe_notifications_params_ok x"
    using that by (cases x) (simp add: subscribe_notifications_params_to_wire_def subscribe_notifications_params_from_wire_def subscribe_notifications_params_ok_def)
  show "subscribe_notifications_params_ok x" if "subscribe_notifications_params_from_wire v = Inr x"
    using that by (auto simp: subscribe_notifications_params_from_wire_def subscribe_notifications_params_ok_def dest: decoded)
qed

record subscribe_ack =
  outcome :: subscribe_outcome
  subscription_id :: string

definition subscribe_ack_to_wire :: "subscribe_ack \<Rightarrow> json" where
  "subscribe_ack_to_wire x =
     JDict [(''outcome'', JStr (subscribe_outcome_value (outcome x))),
      (''subscription_id'', JStr (subscription_id x))]"

definition subscribe_ack_from_wire :: "json \<Rightarrow> subscribe_ack outcome_of" where
  "subscribe_ack_from_wire data =
     and_then (req ''outcome'' (str_then SubscribeOutcome_from_wire) data) (\<lambda>outcome.
     and_then (req ''subscription_id'' to_str data) (\<lambda>subscription_id.
     Inr \<lparr>outcome = outcome, subscription_id = subscription_id\<rparr>))"

interpretation SubscribeAck: wire_field subscribe_ack_to_wire subscribe_ack_from_wire "\<lambda>_. True"
proof unfold_locales
  fix x v
  show "subscribe_ack_to_wire x \<noteq> JNull" by (simp add: subscribe_ack_to_wire_def)
  show "subscribe_ack_from_wire (subscribe_ack_to_wire x) = Inr x"
    by (cases x) (simp add: subscribe_ack_to_wire_def subscribe_ack_from_wire_def)
qed simp_all

record unsubscribe_notifications_params =
  session_id :: string
  subscription_id :: string

definition unsubscribe_notifications_params_to_wire :: "unsubscribe_notifications_params \<Rightarrow> json" where
  "unsubscribe_notifications_params_to_wire x =
     JDict [(''session_id'', JStr (session_id x)),
      (''subscription_id'', JStr (subscription_id x))]"

definition unsubscribe_notifications_params_ok :: "unsubscribe_notifications_params \<Rightarrow> bool" where
  "unsubscribe_notifications_params_ok x \<longleftrightarrow> nonempty (session_id x)"

definition unsubscribe_notifications_params_from_wire :: "json \<Rightarrow> unsubscribe_notifications_params outcome_of" where
  "unsubscribe_notifications_params_from_wire data =
     and_then (req ''session_id'' (str_then SessionId) data) (\<lambda>session_id.
     and_then (req ''subscription_id'' to_str data) (\<lambda>subscription_id.
     Inr \<lparr>session_id = session_id, subscription_id = subscription_id\<rparr>))"

interpretation UnsubscribeNotificationsParams: wire_field unsubscribe_notifications_params_to_wire unsubscribe_notifications_params_from_wire unsubscribe_notifications_params_ok
proof unfold_locales
  fix x v
  show "unsubscribe_notifications_params_to_wire x \<noteq> JNull" by (simp add: unsubscribe_notifications_params_to_wire_def)
  show "unsubscribe_notifications_params_from_wire (unsubscribe_notifications_params_to_wire x) = Inr x" if "unsubscribe_notifications_params_ok x"
    using that by (cases x) (simp add: unsubscribe_notifications_params_to_wire_def unsubscribe_notifications_params_from_wire_def unsubscribe_notifications_params_ok_def)
  show "unsubscribe_notifications_params_ok x" if "unsubscribe_notifications_params_from_wire v = Inr x"
    using that by (auto simp: unsubscribe_notifications_params_from_wire_def unsubscribe_notifications_params_ok_def dest: decoded)
qed

record unsubscribe_ack =
  outcome :: unsubscribe_outcome
  subscription_id :: string

definition unsubscribe_ack_to_wire :: "unsubscribe_ack \<Rightarrow> json" where
  "unsubscribe_ack_to_wire x =
     JDict [(''outcome'', JStr (unsubscribe_outcome_value (outcome x))),
      (''subscription_id'', JStr (subscription_id x))]"

definition unsubscribe_ack_from_wire :: "json \<Rightarrow> unsubscribe_ack outcome_of" where
  "unsubscribe_ack_from_wire data =
     and_then (req ''outcome'' (str_then UnsubscribeOutcome_from_wire) data) (\<lambda>outcome.
     and_then (req ''subscription_id'' to_str data) (\<lambda>subscription_id.
     Inr \<lparr>outcome = outcome, subscription_id = subscription_id\<rparr>))"

interpretation UnsubscribeAck: wire_field unsubscribe_ack_to_wire unsubscribe_ack_from_wire "\<lambda>_. True"
proof unfold_locales
  fix x v
  show "unsubscribe_ack_to_wire x \<noteq> JNull" by (simp add: unsubscribe_ack_to_wire_def)
  show "unsubscribe_ack_from_wire (unsubscribe_ack_to_wire x) = Inr x"
    by (cases x) (simp add: unsubscribe_ack_to_wire_def unsubscribe_ack_from_wire_def)
qed simp_all

datatype tool_server_lifecycle_status = Starting | Ready | Busy | Draining | ShuttingDown | Disconnected

fun tool_server_lifecycle_status_value :: "tool_server_lifecycle_status \<Rightarrow> string" where
  "tool_server_lifecycle_status_value Starting = ''starting''"
| "tool_server_lifecycle_status_value Ready = ''ready''"
| "tool_server_lifecycle_status_value Busy = ''busy''"
| "tool_server_lifecycle_status_value Draining = ''draining''"
| "tool_server_lifecycle_status_value ShuttingDown = ''shutting_down''"
| "tool_server_lifecycle_status_value Disconnected = ''disconnected''"

definition ToolServerLifecycleStatus_from_wire :: "string \<Rightarrow> tool_server_lifecycle_status outcome_of" where
  "ToolServerLifecycleStatus_from_wire = member_of tool_server_lifecycle_status_value
     [Starting, Ready, Busy, Draining, ShuttingDown, Disconnected]"

interpretation ToolServerLifecycleStatus: wire_field "\<lambda>x. JStr (tool_server_lifecycle_status_value x)" "str_then ToolServerLifecycleStatus_from_wire" "\<lambda>_. True"
proof unfold_locales
  fix x :: tool_server_lifecycle_status
  show "str_then ToolServerLifecycleStatus_from_wire (JStr (tool_server_lifecycle_status_value x)) = Inr x" by (cases x) (simp_all add: str_then_JStr ToolServerLifecycleStatus_from_wire_def member_of_def)
qed simp_all

datatype tool_server_disconnect_reason = NormalClose | IdleTimeout | ForceEvicted | ConnectionLost

fun tool_server_disconnect_reason_value :: "tool_server_disconnect_reason \<Rightarrow> string" where
  "tool_server_disconnect_reason_value NormalClose = ''normal_close''"
| "tool_server_disconnect_reason_value IdleTimeout = ''idle_timeout''"
| "tool_server_disconnect_reason_value ForceEvicted = ''force_evicted''"
| "tool_server_disconnect_reason_value ConnectionLost = ''connection_lost''"

definition ToolServerDisconnectReason_from_wire :: "string \<Rightarrow> tool_server_disconnect_reason outcome_of" where
  "ToolServerDisconnectReason_from_wire = member_of tool_server_disconnect_reason_value
     [NormalClose, IdleTimeout, ForceEvicted, ConnectionLost]"

interpretation ToolServerDisconnectReason: wire_field "\<lambda>x. JStr (tool_server_disconnect_reason_value x)" "str_then ToolServerDisconnectReason_from_wire" "\<lambda>_. True"
proof unfold_locales
  fix x :: tool_server_disconnect_reason
  show "str_then ToolServerDisconnectReason_from_wire (JStr (tool_server_disconnect_reason_value x)) = Inr x" by (cases x) (simp_all add: str_then_JStr ToolServerDisconnectReason_from_wire_def member_of_def)
qed simp_all

record tool_server_status_payload =
  status :: tool_server_lifecycle_status
  active_tool_calls :: int
  background_tasks :: int
  pending_tool_calls :: int
  last_tool_call_started_ms :: int
  last_tool_call_completed_ms :: int
  uptime_ms :: int
  session_id :: "string option"
  connection_id :: "string option"
  idle_since_ms :: "int option"
  drain_started_ms :: "int option"
  active_tool_names :: "string list"
  background_task_ids :: "string list"
  upload_queue_pending :: int
  upload_queue_pending_bytes :: int
  upload_queue_inflight :: int
  upload_queue_circuit_breaker_tripped :: bool
  artifact_producers_inflight :: int
  turn_active :: bool
  idle_ignores_background :: bool

definition tool_server_status_payload_to_wire :: "tool_server_status_payload \<Rightarrow> json" where
  "tool_server_status_payload_to_wire x =
     JDict ([(''status'', JStr (tool_server_lifecycle_status_value (status x))),
      (''active_tool_calls'', JInt (active_tool_calls x)),
      (''background_tasks'', JInt (background_tasks x)),
      (''pending_tool_calls'', JInt (pending_tool_calls x)),
      (''last_tool_call_started_ms'', JInt (last_tool_call_started_ms x)),
      (''last_tool_call_completed_ms'', JInt (last_tool_call_completed_ms x)),
      (''uptime_ms'', JInt (uptime_ms x)),
      (''upload_queue_pending'', JInt (upload_queue_pending x)),
      (''upload_queue_pending_bytes'', JInt (upload_queue_pending_bytes x)),
      (''upload_queue_inflight'', JInt (upload_queue_inflight x)),
      (''upload_queue_circuit_breaker_tripped'', JBool (upload_queue_circuit_breaker_tripped x)),
      (''artifact_producers_inflight'', JInt (artifact_producers_inflight x)),
      (''turn_active'', JBool (turn_active x)),
      (''idle_ignores_background'', JBool (idle_ignores_background x))] @
     opt_pair ''session_id'' JStr (session_id x) @
     opt_pair ''connection_id'' JStr (connection_id x) @
     opt_pair ''idle_since_ms'' JInt (idle_since_ms x) @
     opt_pair ''drain_started_ms'' JInt (drain_started_ms x) @
     list_pair ''active_tool_names'' JStr (active_tool_names x) @
     list_pair ''background_task_ids'' JStr (background_task_ids x))"

definition tool_server_status_payload_ok :: "tool_server_status_payload \<Rightarrow> bool" where
  "tool_server_status_payload_ok x \<longleftrightarrow> pred_option nonempty (session_id x)"

definition tool_server_status_payload_from_wire :: "json \<Rightarrow> tool_server_status_payload outcome_of" where
  "tool_server_status_payload_from_wire data =
     and_then (get_item ''session_id'' data) (\<lambda>session_id_raw.
     and_then (get_item ''connection_id'' data) (\<lambda>connection_id_raw.
     and_then (get_item ''idle_since_ms'' data) (\<lambda>idle_raw.
     and_then (get_item ''drain_started_ms'' data) (\<lambda>drain_raw.
     and_then (req ''status'' (str_then ToolServerLifecycleStatus_from_wire) data) (\<lambda>status.
     and_then (req ''active_tool_calls'' to_int data) (\<lambda>active_tool_calls.
     and_then (req ''background_tasks'' to_int data) (\<lambda>background_tasks.
     and_then (req ''pending_tool_calls'' to_int data) (\<lambda>pending_tool_calls.
     and_then (req ''last_tool_call_started_ms'' to_int data) (\<lambda>last_tool_call_started_ms.
     and_then (req ''last_tool_call_completed_ms'' to_int data) (\<lambda>last_tool_call_completed_ms.
     and_then (req ''uptime_ms'' to_int data) (\<lambda>uptime_ms.
     and_then (opt_val (str_then SessionId) session_id_raw) (\<lambda>session_id.
     and_then (opt_val to_str connection_id_raw) (\<lambda>connection_id.
     and_then (dflt ''active_tool_names'' (JList []) (to_list to_str) data) (\<lambda>active_tool_names.
     and_then (dflt ''background_task_ids'' (JList []) (to_list to_str) data) (\<lambda>background_task_ids.
     and_then (opt_val to_int idle_raw) (\<lambda>idle_since_ms.
     and_then (dflt ''upload_queue_pending'' (JInt 0) to_int data) (\<lambda>upload_queue_pending.
     and_then (dflt ''upload_queue_pending_bytes'' (JInt 0) to_int data) (\<lambda>upload_queue_pending_bytes.
     and_then (dflt ''upload_queue_inflight'' (JInt 0) to_int data) (\<lambda>upload_queue_inflight.
     and_then (dflt ''upload_queue_circuit_breaker_tripped'' (JBool False) to_bool data) (\<lambda>upload_queue_circuit_breaker_tripped.
     and_then (dflt ''artifact_producers_inflight'' (JInt 0) to_int data) (\<lambda>artifact_producers_inflight.
     and_then (opt_val to_int drain_raw) (\<lambda>drain_started_ms.
     and_then (dflt ''turn_active'' (JBool False) to_bool data) (\<lambda>turn_active.
     and_then (dflt ''idle_ignores_background'' (JBool False) to_bool data) (\<lambda>idle_ignores_background.
     Inr \<lparr>status = status, active_tool_calls = active_tool_calls, background_tasks = background_tasks, 
        pending_tool_calls = pending_tool_calls, last_tool_call_started_ms = last_tool_call_started_ms, 
        last_tool_call_completed_ms = last_tool_call_completed_ms, uptime_ms = uptime_ms, 
        session_id = session_id, connection_id = connection_id, idle_since_ms = idle_since_ms, 
        drain_started_ms = drain_started_ms, active_tool_names = active_tool_names, 
        background_task_ids = background_task_ids, upload_queue_pending = upload_queue_pending, 
        upload_queue_pending_bytes = upload_queue_pending_bytes, upload_queue_inflight = upload_queue_inflight, 
        upload_queue_circuit_breaker_tripped = upload_queue_circuit_breaker_tripped, 
        artifact_producers_inflight = artifact_producers_inflight, turn_active = turn_active, 
        idle_ignores_background = idle_ignores_background\<rparr>))))))))))))))))))))))))"

interpretation ToolServerStatusPayload: wire_field tool_server_status_payload_to_wire tool_server_status_payload_from_wire tool_server_status_payload_ok
proof unfold_locales
  fix x v
  show "tool_server_status_payload_to_wire x \<noteq> JNull" by (simp add: tool_server_status_payload_to_wire_def)
  show "tool_server_status_payload_from_wire (tool_server_status_payload_to_wire x) = Inr x" if "tool_server_status_payload_ok x"
    using that by (cases x) (simp add: tool_server_status_payload_to_wire_def tool_server_status_payload_from_wire_def tool_server_status_payload_ok_def)
  show "tool_server_status_payload_ok x" if "tool_server_status_payload_from_wire v = Inr x"
    using that by (auto simp: tool_server_status_payload_from_wire_def tool_server_status_payload_ok_def dest: decoded)
qed

definition terminal_status :: "tool_server_lifecycle_status \<Rightarrow> tool_server_status_payload" where
  "terminal_status s =
     \<lparr>status = s, active_tool_calls = 0, background_tasks = 0, pending_tool_calls = 0, last_tool_call_started_ms = 0,
      last_tool_call_completed_ms = 0, uptime_ms = 0, session_id = None, connection_id = None, idle_since_ms = None,
      drain_started_ms = None, active_tool_names = [], background_task_ids = [], upload_queue_pending = 0,
      upload_queue_pending_bytes = 0, upload_queue_inflight = 0, upload_queue_circuit_breaker_tripped = False,
      artifact_producers_inflight = 0, turn_active = False, idle_ignores_background = False\<rparr>"

record tool_server_evict_params =
  session_id :: string
  reason :: string
  grace_period_ms :: int

definition tool_server_evict_params_to_wire :: "tool_server_evict_params \<Rightarrow> json" where
  "tool_server_evict_params_to_wire x =
     JDict [(''session_id'', JStr (session_id x)),
      (''reason'', JStr (reason x)),
      (''grace_period_ms'', JInt (grace_period_ms x))]"

definition tool_server_evict_params_ok :: "tool_server_evict_params \<Rightarrow> bool" where
  "tool_server_evict_params_ok x \<longleftrightarrow> nonempty (session_id x)"

definition tool_server_evict_params_from_wire :: "json \<Rightarrow> tool_server_evict_params outcome_of" where
  "tool_server_evict_params_from_wire data =
     and_then (req ''session_id'' (str_then SessionId) data) (\<lambda>session_id.
     and_then (req ''reason'' to_str data) (\<lambda>reason.
     and_then (req ''grace_period_ms'' to_int data) (\<lambda>grace_period_ms.
     Inr \<lparr>session_id = session_id, reason = reason, grace_period_ms = grace_period_ms\<rparr>)))"

interpretation ToolServerEvictParams: wire_field tool_server_evict_params_to_wire tool_server_evict_params_from_wire tool_server_evict_params_ok
proof unfold_locales
  fix x v
  show "tool_server_evict_params_to_wire x \<noteq> JNull" by (simp add: tool_server_evict_params_to_wire_def)
  show "tool_server_evict_params_from_wire (tool_server_evict_params_to_wire x) = Inr x" if "tool_server_evict_params_ok x"
    using that by (cases x) (simp add: tool_server_evict_params_to_wire_def tool_server_evict_params_from_wire_def tool_server_evict_params_ok_def)
  show "tool_server_evict_params_ok x" if "tool_server_evict_params_from_wire v = Inr x"
    using that by (auto simp: tool_server_evict_params_from_wire_def tool_server_evict_params_ok_def dest: decoded)
qed

record tool_server_get_status_params =
  session_id :: string

definition tool_server_get_status_params_to_wire :: "tool_server_get_status_params \<Rightarrow> json" where
  "tool_server_get_status_params_to_wire x =
     JDict [(''session_id'', JStr (session_id x))]"

definition tool_server_get_status_params_ok :: "tool_server_get_status_params \<Rightarrow> bool" where
  "tool_server_get_status_params_ok x \<longleftrightarrow> nonempty (session_id x)"

definition tool_server_get_status_params_from_wire :: "json \<Rightarrow> tool_server_get_status_params outcome_of" where
  "tool_server_get_status_params_from_wire data =
     and_then (req ''session_id'' (str_then SessionId) data) (\<lambda>session_id.
     Inr \<lparr>session_id = session_id\<rparr>)"

interpretation ToolServerGetStatusParams: wire_field tool_server_get_status_params_to_wire tool_server_get_status_params_from_wire tool_server_get_status_params_ok
proof unfold_locales
  fix x v
  show "tool_server_get_status_params_to_wire x \<noteq> JNull" by (simp add: tool_server_get_status_params_to_wire_def)
  show "tool_server_get_status_params_from_wire (tool_server_get_status_params_to_wire x) = Inr x" if "tool_server_get_status_params_ok x"
    using that by (cases x) (simp add: tool_server_get_status_params_to_wire_def tool_server_get_status_params_from_wire_def tool_server_get_status_params_ok_def)
  show "tool_server_get_status_params_ok x" if "tool_server_get_status_params_from_wire v = Inr x"
    using that by (auto simp: tool_server_get_status_params_from_wire_def tool_server_get_status_params_ok_def dest: decoded)
qed

record tool_server_connection_status =
  connection_id :: string
  status :: tool_server_status_payload

definition tool_server_connection_status_to_wire :: "tool_server_connection_status \<Rightarrow> json" where
  "tool_server_connection_status_to_wire x =
     JDict [(''connection_id'', JStr (connection_id x)),
      (''status'', tool_server_status_payload_to_wire (status x))]"

definition tool_server_connection_status_ok :: "tool_server_connection_status \<Rightarrow> bool" where
  "tool_server_connection_status_ok x \<longleftrightarrow> tool_server_status_payload_ok (status x)"

definition tool_server_connection_status_from_wire :: "json \<Rightarrow> tool_server_connection_status outcome_of" where
  "tool_server_connection_status_from_wire data =
     and_then (req ''connection_id'' to_str data) (\<lambda>connection_id.
     and_then (req ''status'' tool_server_status_payload_from_wire data) (\<lambda>status.
     Inr \<lparr>connection_id = connection_id, status = status\<rparr>))"

interpretation ToolServerConnectionStatus: wire_field tool_server_connection_status_to_wire tool_server_connection_status_from_wire tool_server_connection_status_ok
proof unfold_locales
  fix x v
  show "tool_server_connection_status_to_wire x \<noteq> JNull" by (simp add: tool_server_connection_status_to_wire_def)
  show "tool_server_connection_status_from_wire (tool_server_connection_status_to_wire x) = Inr x" if "tool_server_connection_status_ok x"
    using that by (cases x) (simp add: tool_server_connection_status_to_wire_def tool_server_connection_status_from_wire_def tool_server_connection_status_ok_def)
  show "tool_server_connection_status_ok x" if "tool_server_connection_status_from_wire v = Inr x"
    using that by (auto simp: tool_server_connection_status_from_wire_def tool_server_connection_status_ok_def dest: decoded)
qed

record tool_server_get_status_result =
  tool_servers :: "tool_server_connection_status list"

definition tool_server_get_status_result_to_wire :: "tool_server_get_status_result \<Rightarrow> json" where
  "tool_server_get_status_result_to_wire x =
     JDict [(''tool_servers'', JList (map tool_server_connection_status_to_wire (tool_servers x)))]"

definition tool_server_get_status_result_ok :: "tool_server_get_status_result \<Rightarrow> bool" where
  "tool_server_get_status_result_ok x \<longleftrightarrow> list_all tool_server_connection_status_ok (tool_servers x)"

definition tool_server_get_status_result_from_wire :: "json \<Rightarrow> tool_server_get_status_result outcome_of" where
  "tool_server_get_status_result_from_wire data =
     and_then (req ''tool_servers'' (to_list tool_server_connection_status_from_wire) data) (\<lambda>tool_servers.
     Inr \<lparr>tool_servers = tool_servers\<rparr>)"

interpretation ToolServerGetStatusResult: wire_field tool_server_get_status_result_to_wire tool_server_get_status_result_from_wire tool_server_get_status_result_ok
proof unfold_locales
  fix x v
  show "tool_server_get_status_result_to_wire x \<noteq> JNull" by (simp add: tool_server_get_status_result_to_wire_def)
  show "tool_server_get_status_result_from_wire (tool_server_get_status_result_to_wire x) = Inr x" if "tool_server_get_status_result_ok x"
    using that by (cases x) (simp add: tool_server_get_status_result_to_wire_def tool_server_get_status_result_from_wire_def tool_server_get_status_result_ok_def)
  show "tool_server_get_status_result_ok x" if "tool_server_get_status_result_from_wire v = Inr x"
    using that by (auto simp: tool_server_get_status_result_from_wire_def tool_server_get_status_result_ok_def dest: decoded)
qed

datatype servers_list_params = ServersListParams

definition servers_list_params_to_wire :: "servers_list_params \<Rightarrow> json" where
  "servers_list_params_to_wire x =
     JDict []"

definition ServersListParams_from_wire :: "json \<Rightarrow> servers_list_params outcome_of" where
  "ServersListParams_from_wire data =
     Inr ServersListParams"

interpretation ServersListParams: wire_field servers_list_params_to_wire ServersListParams_from_wire "\<lambda>_. True"
proof unfold_locales
  fix x
  show "ServersListParams_from_wire (servers_list_params_to_wire x) = Inr x" by (cases x) (simp add: ServersListParams_from_wire_def)
qed (simp_all add: servers_list_params_to_wire_def)

record server_info =
  server_id :: string
  status :: tool_server_lifecycle_status
  session_id :: "string option"
  description :: string
  metadata :: json
  connected_since :: string

definition server_info_to_wire :: "server_info \<Rightarrow> json" where
  "server_info_to_wire x =
     JDict ([(''server_id'', JStr (server_id x)),
      (''status'', JStr (tool_server_lifecycle_status_value (status x))),
      (''description'', JStr (description x)),
      (''metadata'', metadata x),
      (''connected_since'', JStr (connected_since x))] @
     opt_pair ''session_id'' JStr (session_id x))"

definition server_info_ok :: "server_info \<Rightarrow> bool" where
  "server_info_ok x \<longleftrightarrow> valid_server_id (server_id x) \<and> pred_option nonempty (session_id x)"

definition server_info_from_wire :: "json \<Rightarrow> server_info outcome_of" where
  "server_info_from_wire data =
     and_then (get_item ''session_id'' data) (\<lambda>session_id_raw.
     and_then (req ''server_id'' (str_then ServerId) data) (\<lambda>server_id.
     and_then (req ''status'' (str_then ToolServerLifecycleStatus_from_wire) data) (\<lambda>status.
     and_then (opt_val (str_then SessionId) session_id_raw) (\<lambda>session_id.
     and_then (dflt ''description'' (JStr '''') to_str data) (\<lambda>description.
     and_then (get_value ''metadata'' data) (\<lambda>metadata.
     and_then (dflt ''connected_since'' (JStr '''') to_str data) (\<lambda>connected_since.
     Inr \<lparr>server_id = server_id, status = status, session_id = session_id, 
        description = description, metadata = metadata, connected_since = connected_since\<rparr>)))))))"

interpretation ServerInfo: wire_field server_info_to_wire server_info_from_wire server_info_ok
proof unfold_locales
  fix x v
  show "server_info_to_wire x \<noteq> JNull" by (simp add: server_info_to_wire_def)
  show "server_info_from_wire (server_info_to_wire x) = Inr x" if "server_info_ok x"
    using that by (cases x) (simp add: server_info_to_wire_def server_info_from_wire_def server_info_ok_def)
  show "server_info_ok x" if "server_info_from_wire v = Inr x"
    using that by (auto simp: server_info_from_wire_def server_info_ok_def dest: decoded)
qed

record servers_list_result =
  servers :: "server_info list"

definition servers_list_result_to_wire :: "servers_list_result \<Rightarrow> json" where
  "servers_list_result_to_wire x =
     JDict [(''servers'', JList (map server_info_to_wire (servers x)))]"

definition servers_list_result_ok :: "servers_list_result \<Rightarrow> bool" where
  "servers_list_result_ok x \<longleftrightarrow> list_all server_info_ok (servers x)"

definition servers_list_result_from_wire :: "json \<Rightarrow> servers_list_result outcome_of" where
  "servers_list_result_from_wire data =
     and_then (req ''servers'' (to_list server_info_from_wire) data) (\<lambda>servers.
     Inr \<lparr>servers = servers\<rparr>)"

interpretation ServersListResult: wire_field servers_list_result_to_wire servers_list_result_from_wire servers_list_result_ok
proof unfold_locales
  fix x v
  show "servers_list_result_to_wire x \<noteq> JNull" by (simp add: servers_list_result_to_wire_def)
  show "servers_list_result_from_wire (servers_list_result_to_wire x) = Inr x" if "servers_list_result_ok x"
    using that by (cases x) (simp add: servers_list_result_to_wire_def servers_list_result_from_wire_def servers_list_result_ok_def)
  show "servers_list_result_ok x" if "servers_list_result_from_wire v = Inr x"
    using that by (auto simp: servers_list_result_from_wire_def servers_list_result_ok_def dest: decoded)
qed

record server_bind_params =
  server_id :: string
  session_id :: string

definition server_bind_params_to_wire :: "server_bind_params \<Rightarrow> json" where
  "server_bind_params_to_wire x =
     JDict [(''server_id'', JStr (server_id x)),
      (''session_id'', JStr (session_id x))]"

definition server_bind_params_ok :: "server_bind_params \<Rightarrow> bool" where
  "server_bind_params_ok x \<longleftrightarrow> valid_server_id (server_id x) \<and> nonempty (session_id x)"

definition server_bind_params_from_wire :: "json \<Rightarrow> server_bind_params outcome_of" where
  "server_bind_params_from_wire data =
     and_then (req ''server_id'' (str_then ServerId) data) (\<lambda>server_id.
     and_then (req ''session_id'' (str_then SessionId) data) (\<lambda>session_id.
     Inr \<lparr>server_id = server_id, session_id = session_id\<rparr>))"

interpretation ServerBindParams: wire_field server_bind_params_to_wire server_bind_params_from_wire server_bind_params_ok
proof unfold_locales
  fix x v
  show "server_bind_params_to_wire x \<noteq> JNull" by (simp add: server_bind_params_to_wire_def)
  show "server_bind_params_from_wire (server_bind_params_to_wire x) = Inr x" if "server_bind_params_ok x"
    using that by (cases x) (simp add: server_bind_params_to_wire_def server_bind_params_from_wire_def server_bind_params_ok_def)
  show "server_bind_params_ok x" if "server_bind_params_from_wire v = Inr x"
    using that by (auto simp: server_bind_params_from_wire_def server_bind_params_ok_def dest: decoded)
qed

datatype server_bind_outcome = Bound | AlreadyBound | ServerNotFound | Unavailable

fun server_bind_outcome_value :: "server_bind_outcome \<Rightarrow> string" where
  "server_bind_outcome_value Bound = ''bound''"
| "server_bind_outcome_value AlreadyBound = ''already_bound''"
| "server_bind_outcome_value ServerNotFound = ''server_not_found''"
| "server_bind_outcome_value Unavailable = ''unavailable''"

definition ServerBindOutcome_from_wire :: "string \<Rightarrow> server_bind_outcome outcome_of" where
  "ServerBindOutcome_from_wire = member_of server_bind_outcome_value
     [Bound, AlreadyBound, ServerNotFound, Unavailable]"

interpretation ServerBindOutcome: wire_field "\<lambda>x. JStr (server_bind_outcome_value x)" "str_then ServerBindOutcome_from_wire" "\<lambda>_. True"
proof unfold_locales
  fix x :: server_bind_outcome
  show "str_then ServerBindOutcome_from_wire (JStr (server_bind_outcome_value x)) = Inr x" by (cases x) (simp_all add: str_then_JStr ServerBindOutcome_from_wire_def member_of_def)
qed simp_all

record server_bind_ack =
  outcome :: server_bind_outcome

definition server_bind_ack_to_wire :: "server_bind_ack \<Rightarrow> json" where
  "server_bind_ack_to_wire x =
     JDict [(''outcome'', JStr (server_bind_outcome_value (outcome x)))]"

definition server_bind_ack_from_wire :: "json \<Rightarrow> server_bind_ack outcome_of" where
  "server_bind_ack_from_wire data =
     and_then (req ''outcome'' (str_then ServerBindOutcome_from_wire) data) (\<lambda>outcome.
     Inr \<lparr>outcome = outcome\<rparr>)"

interpretation ServerBindAck: wire_field server_bind_ack_to_wire server_bind_ack_from_wire "\<lambda>_. True"
proof unfold_locales
  fix x v
  show "server_bind_ack_to_wire x \<noteq> JNull" by (simp add: server_bind_ack_to_wire_def)
  show "server_bind_ack_from_wire (server_bind_ack_to_wire x) = Inr x"
    by (cases x) (simp add: server_bind_ack_to_wire_def server_bind_ack_from_wire_def)
qed simp_all

record server_unbind_params =
  server_id :: string
  session_id :: string

definition server_unbind_params_to_wire :: "server_unbind_params \<Rightarrow> json" where
  "server_unbind_params_to_wire x =
     JDict [(''server_id'', JStr (server_id x)),
      (''session_id'', JStr (session_id x))]"

definition server_unbind_params_ok :: "server_unbind_params \<Rightarrow> bool" where
  "server_unbind_params_ok x \<longleftrightarrow> valid_server_id (server_id x) \<and> nonempty (session_id x)"

definition server_unbind_params_from_wire :: "json \<Rightarrow> server_unbind_params outcome_of" where
  "server_unbind_params_from_wire data =
     and_then (req ''server_id'' (str_then ServerId) data) (\<lambda>server_id.
     and_then (req ''session_id'' (str_then SessionId) data) (\<lambda>session_id.
     Inr \<lparr>server_id = server_id, session_id = session_id\<rparr>))"

interpretation ServerUnbindParams: wire_field server_unbind_params_to_wire server_unbind_params_from_wire server_unbind_params_ok
proof unfold_locales
  fix x v
  show "server_unbind_params_to_wire x \<noteq> JNull" by (simp add: server_unbind_params_to_wire_def)
  show "server_unbind_params_from_wire (server_unbind_params_to_wire x) = Inr x" if "server_unbind_params_ok x"
    using that by (cases x) (simp add: server_unbind_params_to_wire_def server_unbind_params_from_wire_def server_unbind_params_ok_def)
  show "server_unbind_params_ok x" if "server_unbind_params_from_wire v = Inr x"
    using that by (auto simp: server_unbind_params_from_wire_def server_unbind_params_ok_def dest: decoded)
qed

datatype server_unbind_outcome = Unbound | ServerNotFound

fun server_unbind_outcome_value :: "server_unbind_outcome \<Rightarrow> string" where
  "server_unbind_outcome_value Unbound = ''unbound''"
| "server_unbind_outcome_value ServerNotFound = ''server_not_found''"

definition ServerUnbindOutcome_from_wire :: "string \<Rightarrow> server_unbind_outcome outcome_of" where
  "ServerUnbindOutcome_from_wire = member_of server_unbind_outcome_value
     [Unbound, ServerNotFound]"

interpretation ServerUnbindOutcome: wire_field "\<lambda>x. JStr (server_unbind_outcome_value x)" "str_then ServerUnbindOutcome_from_wire" "\<lambda>_. True"
proof unfold_locales
  fix x :: server_unbind_outcome
  show "str_then ServerUnbindOutcome_from_wire (JStr (server_unbind_outcome_value x)) = Inr x" by (cases x) (simp_all add: str_then_JStr ServerUnbindOutcome_from_wire_def member_of_def)
qed simp_all

record server_unbind_ack =
  outcome :: server_unbind_outcome

definition server_unbind_ack_to_wire :: "server_unbind_ack \<Rightarrow> json" where
  "server_unbind_ack_to_wire x =
     JDict [(''outcome'', JStr (server_unbind_outcome_value (outcome x)))]"

definition server_unbind_ack_from_wire :: "json \<Rightarrow> server_unbind_ack outcome_of" where
  "server_unbind_ack_from_wire data =
     and_then (req ''outcome'' (str_then ServerUnbindOutcome_from_wire) data) (\<lambda>outcome.
     Inr \<lparr>outcome = outcome\<rparr>)"

interpretation ServerUnbindAck: wire_field server_unbind_ack_to_wire server_unbind_ack_from_wire "\<lambda>_. True"
proof unfold_locales
  fix x v
  show "server_unbind_ack_to_wire x \<noteq> JNull" by (simp add: server_unbind_ack_to_wire_def)
  show "server_unbind_ack_from_wire (server_unbind_ack_to_wire x) = Inr x"
    by (cases x) (simp add: server_unbind_ack_to_wire_def server_unbind_ack_from_wire_def)
qed simp_all

record tool_notification_frame =
  notification :: wire_tool_notification
  tool_call_id :: "string option"
  tool_id :: "string option"

definition tool_notification_frame_to_wire :: "tool_notification_frame \<Rightarrow> json" where
  "tool_notification_frame_to_wire x =
     JDict (opt_pair ''tool_call_id'' JStr (tool_call_id x) @
     opt_pair ''tool_id'' JStr (tool_id x) @
     [(''notification'', wire_tool_notification_to_wire (notification x))])"

definition tool_notification_frame_ok :: "tool_notification_frame \<Rightarrow> bool" where
  "tool_notification_frame_ok x \<longleftrightarrow> pred_option nonempty (tool_call_id x) \<and> pred_option valid_tool_id (tool_id x)"

definition tool_notification_frame_from_wire :: "json \<Rightarrow> tool_notification_frame outcome_of" where
  "tool_notification_frame_from_wire data =
     and_then (get_item ''tool_call_id'' data) (\<lambda>tool_call_id_raw.
     and_then (get_item ''tool_id'' data) (\<lambda>tool_id_raw.
     and_then (req ''notification'' notification_from_wire data) (\<lambda>notification.
     and_then (opt_val (str_then ToolCallId) tool_call_id_raw) (\<lambda>tool_call_id.
     and_then (opt_val (str_then ToolId) tool_id_raw) (\<lambda>tool_id.
     Inr \<lparr>notification = notification, tool_call_id = tool_call_id, tool_id = tool_id\<rparr>)))))"

interpretation ToolNotificationFrame: wire_field tool_notification_frame_to_wire tool_notification_frame_from_wire tool_notification_frame_ok
proof unfold_locales
  fix x v
  show "tool_notification_frame_to_wire x \<noteq> JNull" by (simp add: tool_notification_frame_to_wire_def)
  show "tool_notification_frame_from_wire (tool_notification_frame_to_wire x) = Inr x" if "tool_notification_frame_ok x"
    using that by (cases x) (simp add: tool_notification_frame_to_wire_def tool_notification_frame_from_wire_def tool_notification_frame_ok_def)
  show "tool_notification_frame_ok x" if "tool_notification_frame_from_wire v = Inr x"
    using that by (auto simp: tool_notification_frame_from_wire_def tool_notification_frame_ok_def dest: decoded)
qed

definition custom_notification_frame :: "string \<Rightarrow> string \<Rightarrow> json \<Rightarrow> tool_notification_frame" where
  "custom_notification_frame t k v =
     \<lparr>notification = CustomNotification \<lparr>wire_custom_notification.kind = k, payload = v\<rparr>, tool_call_id = None, tool_id = Some t\<rparr>"

definition known_notification_frame :: "string \<Rightarrow> json \<Rightarrow> tool_notification_frame" where
  "known_notification_frame t v = \<lparr>notification = KnownNotification v, tool_call_id = None, tool_id = Some t\<rparr>"

record system_notify_params =
  payload :: json
  conversation_id_override :: "string option"
  echo_to_subscribers :: bool
  request_id :: "string option"

definition system_notify_params_to_wire :: "system_notify_params \<Rightarrow> json" where
  "system_notify_params_to_wire x =
     JDict ([(''payload'', payload x)] @
     opt_pair ''conversation_id_override'' JStr (conversation_id_override x) @
     [(''echo_to_subscribers'', JBool (echo_to_subscribers x))] @
     opt_pair ''request_id'' JStr (request_id x))"

definition system_notify_params_from_wire :: "json \<Rightarrow> system_notify_params outcome_of" where
  "system_notify_params_from_wire data =
     and_then (get_item ''conversation_id_override'' data) (\<lambda>conversation_id_override_raw.
     and_then (get_item ''request_id'' data) (\<lambda>request_id_raw.
     and_then (req ''payload'' keep data) (\<lambda>payload.
     and_then (opt_val to_str conversation_id_override_raw) (\<lambda>conversation_id_override.
     and_then (dflt ''echo_to_subscribers'' (JBool False) to_bool data) (\<lambda>echo_to_subscribers.
     and_then (opt_val to_str request_id_raw) (\<lambda>request_id.
     Inr \<lparr>payload = payload, conversation_id_override = conversation_id_override, 
        echo_to_subscribers = echo_to_subscribers, request_id = request_id\<rparr>))))))"

interpretation SystemNotifyParams: wire_field system_notify_params_to_wire system_notify_params_from_wire "\<lambda>_. True"
proof unfold_locales
  fix x v
  show "system_notify_params_to_wire x \<noteq> JNull" by (simp add: system_notify_params_to_wire_def)
  show "system_notify_params_from_wire (system_notify_params_to_wire x) = Inr x"
    by (cases x) (simp add: system_notify_params_to_wire_def system_notify_params_from_wire_def)
qed simp_all

record last_seq =
  connection_id :: string
  seq :: int

definition last_seq_to_wire :: "last_seq \<Rightarrow> json" where
  "last_seq_to_wire x =
     JDict [(''connection_id'', JStr (connection_id x)),
      (''seq'', JInt (seq x))]"

definition last_seq_ok :: "last_seq \<Rightarrow> bool" where
  "last_seq_ok x \<longleftrightarrow> nonempty (connection_id x) \<and> natural (seq x)"

definition last_seq_from_wire :: "json \<Rightarrow> last_seq outcome_of" where
  "last_seq_from_wire data =
     and_then (req ''connection_id'' (str_then ConnectionId) data) (\<lambda>connection_id.
     and_then (req ''seq'' FrameSeq_from_wire data) (\<lambda>seq.
     Inr \<lparr>connection_id = connection_id, seq = seq\<rparr>))"

interpretation LastSeq: wire_field last_seq_to_wire last_seq_from_wire last_seq_ok
proof unfold_locales
  fix x v
  show "last_seq_to_wire x \<noteq> JNull" by (simp add: last_seq_to_wire_def)
  show "last_seq_from_wire (last_seq_to_wire x) = Inr x" if "last_seq_ok x"
    using that by (cases x) (simp add: last_seq_to_wire_def last_seq_from_wire_def last_seq_ok_def)
  show "last_seq_ok x" if "last_seq_from_wire v = Inr x"
    using that by (auto simp: last_seq_from_wire_def last_seq_ok_def dest: decoded)
qed

record session_open_params =
  resume :: bool
  last_seq :: "last_seq option"

definition session_open_params_to_wire :: "session_open_params \<Rightarrow> json" where
  "session_open_params_to_wire x =
     JDict ([(''resume'', JBool (resume x))] @
     opt_pair ''last_seq'' last_seq_to_wire (last_seq x))"

definition session_open_params_ok :: "session_open_params \<Rightarrow> bool" where
  "session_open_params_ok x \<longleftrightarrow> pred_option last_seq_ok (last_seq x)"

definition session_open_params_from_wire :: "json \<Rightarrow> session_open_params outcome_of" where
  "session_open_params_from_wire data =
     and_then (get_item ''last_seq'' data) (\<lambda>last_seq_raw.
     and_then (dflt ''resume'' (JBool False) to_bool data) (\<lambda>resume.
     and_then (opt_val last_seq_from_wire last_seq_raw) (\<lambda>last_seq.
     Inr \<lparr>resume = resume, last_seq = last_seq\<rparr>)))"

interpretation SessionOpenParams: wire_field session_open_params_to_wire session_open_params_from_wire session_open_params_ok
proof unfold_locales
  fix x v
  show "session_open_params_to_wire x \<noteq> JNull" by (simp add: session_open_params_to_wire_def)
  show "session_open_params_from_wire (session_open_params_to_wire x) = Inr x" if "session_open_params_ok x"
    using that by (cases x) (simp add: session_open_params_to_wire_def session_open_params_from_wire_def session_open_params_ok_def)
  show "session_open_params_ok x" if "session_open_params_from_wire v = Inr x"
    using that by (auto simp: session_open_params_from_wire_def session_open_params_ok_def dest: decoded)
qed

record session_close_params =
  reason :: "string option"

definition session_close_params_to_wire :: "session_close_params \<Rightarrow> json" where
  "session_close_params_to_wire x =
     JDict (opt_pair ''reason'' JStr (reason x))"

definition session_close_params_from_wire :: "json \<Rightarrow> session_close_params outcome_of" where
  "session_close_params_from_wire data =
     and_then (get_item ''reason'' data) (\<lambda>reason_raw.
     and_then (opt_val to_str reason_raw) (\<lambda>reason.
     Inr \<lparr>reason = reason\<rparr>))"

interpretation SessionCloseParams: wire_field session_close_params_to_wire session_close_params_from_wire "\<lambda>_. True"
proof unfold_locales
  fix x v
  show "session_close_params_to_wire x \<noteq> JNull" by (simp add: session_close_params_to_wire_def)
  show "session_close_params_from_wire (session_close_params_to_wire x) = Inr x"
    by (cases x) (simp add: session_close_params_to_wire_def session_close_params_from_wire_def)
qed simp_all

datatype session_open_result = SessionOpenResult

definition session_open_result_to_wire :: "session_open_result \<Rightarrow> json" where
  "session_open_result_to_wire x =
     JDict []"

definition session_open_result_from_wire :: "json \<Rightarrow> session_open_result outcome_of" where
  "session_open_result_from_wire data =
     Inr SessionOpenResult"

interpretation SessionOpenResult: wire_field session_open_result_to_wire session_open_result_from_wire "\<lambda>_. True"
proof unfold_locales
  fix x
  show "session_open_result_from_wire (session_open_result_to_wire x) = Inr x" by (cases x) (simp add: session_open_result_from_wire_def)
qed (simp_all add: session_open_result_to_wire_def)

datatype attach_route = LOCAL | REMOTE | UNKNOWN

fun attach_route_value :: "attach_route \<Rightarrow> string" where
  "attach_route_value LOCAL = ''local''"
| "attach_route_value REMOTE = ''remote''"
| "attach_route_value UNKNOWN = ''unknown''"

definition AttachRoute_from_wire :: "string \<Rightarrow> attach_route outcome_of" where
  "AttachRoute_from_wire = member_or UNKNOWN attach_route_value [LOCAL, REMOTE, UNKNOWN]"

interpretation AttachRoute: wire_field "\<lambda>x. JStr (attach_route_value x)" "str_then AttachRoute_from_wire" "\<lambda>_. True"
proof unfold_locales
  fix x :: attach_route
  show "str_then AttachRoute_from_wire (JStr (attach_route_value x)) = Inr x" by (cases x) (simp_all add: str_then_JStr AttachRoute_from_wire_def member_or_def)
qed simp_all

record session_bind_server_params =
  server_id :: string
  cwd :: "string option"
  metadata :: json

definition session_bind_server_params_to_wire :: "session_bind_server_params \<Rightarrow> json" where
  "session_bind_server_params_to_wire x =
     JDict ([(''server_id'', JStr (server_id x))] @
     opt_pair ''cwd'' JStr (cwd x) @
     value_pair ''metadata'' (metadata x))"

definition session_bind_server_params_ok :: "session_bind_server_params \<Rightarrow> bool" where
  "session_bind_server_params_ok x \<longleftrightarrow> valid_server_id (server_id x)"

definition session_bind_server_params_from_wire :: "json \<Rightarrow> session_bind_server_params outcome_of" where
  "session_bind_server_params_from_wire data =
     and_then (get_item ''cwd'' data) (\<lambda>cwd_raw.
     and_then (get_item ''metadata'' data) (\<lambda>metadata_raw.
     and_then (req ''server_id'' (str_then ServerId) data) (\<lambda>server_id.
     and_then (opt_val to_str cwd_raw) (\<lambda>cwd.
     Inr \<lparr>server_id = server_id, cwd = cwd, metadata = raw_value metadata_raw\<rparr>))))"

interpretation SessionBindServerParams: wire_field session_bind_server_params_to_wire session_bind_server_params_from_wire session_bind_server_params_ok
proof unfold_locales
  fix x v
  show "session_bind_server_params_to_wire x \<noteq> JNull" by (simp add: session_bind_server_params_to_wire_def)
  show "session_bind_server_params_from_wire (session_bind_server_params_to_wire x) = Inr x" if "session_bind_server_params_ok x"
    using that by (cases x) (simp add: session_bind_server_params_to_wire_def session_bind_server_params_from_wire_def session_bind_server_params_ok_def)
  show "session_bind_server_params_ok x" if "session_bind_server_params_from_wire v = Inr x"
    using that by (auto simp: session_bind_server_params_from_wire_def session_bind_server_params_ok_def dest: decoded)
qed

record session_bind_server_result =
  tools :: "tool_description list"
  binary_version :: "string option"
  unserved_tool_ids :: "json list"
  resolve_error :: "string option"

definition session_bind_server_result_to_wire :: "(tool_description \<Rightarrow> json) \<Rightarrow> session_bind_server_result \<Rightarrow> json" where
  "session_bind_server_result_to_wire dump x =
     JDict (list_pair ''tools'' dump (tools x) @
     opt_pair ''binary_version'' JStr (binary_version x) @
     list_pair ''unserved_tool_ids'' (\<lambda>v. v) (unserved_tool_ids x) @
     opt_pair ''resolve_error'' JStr (resolve_error x))"

definition session_bind_server_result_ok :: "(tool_description \<Rightarrow> bool) \<Rightarrow> session_bind_server_result \<Rightarrow> bool" where
  "session_bind_server_result_ok okd x \<longleftrightarrow> list_all okd (tools x)"

definition session_bind_server_result_from_wire :: "(json \<Rightarrow> tool_description outcome_of) \<Rightarrow> json \<Rightarrow> session_bind_server_result outcome_of" where
  "session_bind_server_result_from_wire validate data =
     and_then (get_item ''binary_version'' data) (\<lambda>binary_raw.
     and_then (get_item ''resolve_error'' data) (\<lambda>resolve_raw.
     and_then (dflt ''tools'' (JList []) (to_list validate) data) (\<lambda>tools.
     and_then (opt_val to_str binary_raw) (\<lambda>binary_version.
     and_then (dflt ''unserved_tool_ids'' (JList []) (to_list keep) data) (\<lambda>unserved_tool_ids.
     and_then (opt_val to_str resolve_raw) (\<lambda>resolve_error.
     Inr \<lparr>tools = tools, binary_version = binary_version, unserved_tool_ids = unserved_tool_ids, 
        resolve_error = resolve_error\<rparr>))))))"

lemma session_bind_server_result_wire:
  assumes "wire_field dump validate okd"
  shows "wire_field (session_bind_server_result_to_wire dump) (session_bind_server_result_from_wire validate) (session_bind_server_result_ok okd)"
proof unfold_locales
  note facts = wire_field_back [OF assms] wire_field_fields [OF assms]
  fix x v
  show "session_bind_server_result_to_wire dump x \<noteq> JNull" by (simp add: session_bind_server_result_to_wire_def)
  show "session_bind_server_result_from_wire validate (session_bind_server_result_to_wire dump x) = Inr x" if "session_bind_server_result_ok okd x"
    using that by (cases x) (simp add: session_bind_server_result_to_wire_def session_bind_server_result_from_wire_def session_bind_server_result_ok_def facts)
  show "session_bind_server_result_ok okd x" if "session_bind_server_result_from_wire validate v = Inr x"
    using that by (auto simp: session_bind_server_result_from_wire_def session_bind_server_result_ok_def dest: decoded facts)
qed

record session_unbind_server_params =
  server_id :: string

definition session_unbind_server_params_to_wire :: "session_unbind_server_params \<Rightarrow> json" where
  "session_unbind_server_params_to_wire x =
     JDict [(''server_id'', JStr (server_id x))]"

definition session_unbind_server_params_ok :: "session_unbind_server_params \<Rightarrow> bool" where
  "session_unbind_server_params_ok x \<longleftrightarrow> valid_server_id (server_id x)"

definition session_unbind_server_params_from_wire :: "json \<Rightarrow> session_unbind_server_params outcome_of" where
  "session_unbind_server_params_from_wire data =
     and_then (req ''server_id'' (str_then ServerId) data) (\<lambda>server_id.
     Inr \<lparr>server_id = server_id\<rparr>)"

interpretation SessionUnbindServerParams: wire_field session_unbind_server_params_to_wire session_unbind_server_params_from_wire session_unbind_server_params_ok
proof unfold_locales
  fix x v
  show "session_unbind_server_params_to_wire x \<noteq> JNull" by (simp add: session_unbind_server_params_to_wire_def)
  show "session_unbind_server_params_from_wire (session_unbind_server_params_to_wire x) = Inr x" if "session_unbind_server_params_ok x"
    using that by (cases x) (simp add: session_unbind_server_params_to_wire_def session_unbind_server_params_from_wire_def session_unbind_server_params_ok_def)
  show "session_unbind_server_params_ok x" if "session_unbind_server_params_from_wire v = Inr x"
    using that by (auto simp: session_unbind_server_params_from_wire_def session_unbind_server_params_ok_def dest: decoded)
qed

record session_attach_server_params =
  server_id :: "string option"
  caller :: "string option"

definition session_attach_server_params_to_wire :: "session_attach_server_params \<Rightarrow> json" where
  "session_attach_server_params_to_wire x =
     JDict (opt_pair ''server_id'' JStr (server_id x) @
     opt_pair ''caller'' JStr (caller x))"

definition session_attach_server_params_ok :: "session_attach_server_params \<Rightarrow> bool" where
  "session_attach_server_params_ok x \<longleftrightarrow> pred_option valid_server_id (server_id x)"

definition session_attach_server_params_from_wire :: "json \<Rightarrow> session_attach_server_params outcome_of" where
  "session_attach_server_params_from_wire data =
     and_then (get_item ''server_id'' data) (\<lambda>server_raw.
     and_then (get_item ''caller'' data) (\<lambda>caller_raw.
     and_then (opt_val (str_then ServerId) server_raw) (\<lambda>server_id.
     and_then (opt_val to_str caller_raw) (\<lambda>caller.
     Inr \<lparr>server_id = server_id, caller = caller\<rparr>))))"

interpretation SessionAttachServerParams: wire_field session_attach_server_params_to_wire session_attach_server_params_from_wire session_attach_server_params_ok
proof unfold_locales
  fix x v
  show "session_attach_server_params_to_wire x \<noteq> JNull" by (simp add: session_attach_server_params_to_wire_def)
  show "session_attach_server_params_from_wire (session_attach_server_params_to_wire x) = Inr x" if "session_attach_server_params_ok x"
    using that by (cases x) (simp add: session_attach_server_params_to_wire_def session_attach_server_params_from_wire_def session_attach_server_params_ok_def)
  show "session_attach_server_params_ok x" if "session_attach_server_params_from_wire v = Inr x"
    using that by (auto simp: session_attach_server_params_from_wire_def session_attach_server_params_ok_def dest: decoded)
qed

record session_attach_server_result =
  tools :: "tool_description list"
  route :: "attach_route option"

definition session_attach_server_result_to_wire :: "(tool_description \<Rightarrow> json) \<Rightarrow> session_attach_server_result \<Rightarrow> json" where
  "session_attach_server_result_to_wire dump x =
     JDict (list_pair ''tools'' dump (tools x) @
     opt_pair ''route'' (\<lambda>x. JStr (attach_route_value x)) (route x))"

definition session_attach_server_result_ok :: "(tool_description \<Rightarrow> bool) \<Rightarrow> session_attach_server_result \<Rightarrow> bool" where
  "session_attach_server_result_ok okd x \<longleftrightarrow> list_all okd (tools x)"

definition session_attach_server_result_from_wire :: "(json \<Rightarrow> tool_description outcome_of) \<Rightarrow> json \<Rightarrow> session_attach_server_result outcome_of" where
  "session_attach_server_result_from_wire validate data =
     and_then (dflt ''tools'' (JList []) (to_list validate) data) (\<lambda>tools.
     and_then (opt ''route'' (str_then AttachRoute_from_wire) data) (\<lambda>route.
     Inr \<lparr>tools = tools, route = route\<rparr>))"

lemma session_attach_server_result_wire:
  assumes "wire_field dump validate okd"
  shows "wire_field (session_attach_server_result_to_wire dump) (session_attach_server_result_from_wire validate) (session_attach_server_result_ok okd)"
proof unfold_locales
  note facts = wire_field_back [OF assms] wire_field_fields [OF assms]
  fix x v
  show "session_attach_server_result_to_wire dump x \<noteq> JNull" by (simp add: session_attach_server_result_to_wire_def)
  show "session_attach_server_result_from_wire validate (session_attach_server_result_to_wire dump x) = Inr x" if "session_attach_server_result_ok okd x"
    using that by (cases x) (simp add: session_attach_server_result_to_wire_def session_attach_server_result_from_wire_def session_attach_server_result_ok_def facts)
  show "session_attach_server_result_ok okd x" if "session_attach_server_result_from_wire validate v = Inr x"
    using that by (auto simp: session_attach_server_result_from_wire_def session_attach_server_result_ok_def dest: decoded facts)
qed

record serve_params =
  tools :: "tool_description_with_schema list"

definition serve_params_to_wire :: "(tool_description \<Rightarrow> json) \<Rightarrow> serve_params \<Rightarrow> json" where
  "serve_params_to_wire dump x =
     JDict [(''tools'', JList (map (tool_description_with_schema_to_wire dump) (tools x)))]"

definition serve_params_ok :: "(tool_description \<Rightarrow> bool) \<Rightarrow> serve_params \<Rightarrow> bool" where
  "serve_params_ok okd x \<longleftrightarrow> list_all (tool_description_with_schema_ok okd) (tools x)"

definition serve_params_from_wire :: "(json \<Rightarrow> tool_description outcome_of) \<Rightarrow> json \<Rightarrow> serve_params outcome_of" where
  "serve_params_from_wire validate data =
     and_then (req ''tools'' (to_list (ToolDescriptionWithSchema_from_wire validate)) data) (\<lambda>tools.
     Inr \<lparr>tools = tools\<rparr>)"

lemma serve_params_wire:
  assumes "wire_field dump validate okd"
  shows "wire_field (serve_params_to_wire dump) (serve_params_from_wire validate) (serve_params_ok okd)"
proof unfold_locales
  note facts = wire_field_back [OF tool_description_with_schema_wire [OF assms]] wire_field_fields [OF tool_description_with_schema_wire [OF assms]]
  fix x v
  show "serve_params_to_wire dump x \<noteq> JNull" by (simp add: serve_params_to_wire_def)
  show "serve_params_from_wire validate (serve_params_to_wire dump x) = Inr x" if "serve_params_ok okd x"
    using that by (cases x) (simp add: serve_params_to_wire_def serve_params_from_wire_def serve_params_ok_def facts)
  show "serve_params_ok okd x" if "serve_params_from_wire validate v = Inr x"
    using that by (auto simp: serve_params_from_wire_def serve_params_ok_def dest: decoded facts)
qed

record serve_result =
  accepted :: int
  added :: "string list"
  removed :: "string list"

definition serve_result_to_wire :: "serve_result \<Rightarrow> json" where
  "serve_result_to_wire x =
     JDict ([(''accepted'', JInt (accepted x))] @
     list_pair ''added'' JStr (added x) @
     list_pair ''removed'' JStr (removed x))"

definition serve_result_ok :: "serve_result \<Rightarrow> bool" where
  "serve_result_ok x \<longleftrightarrow> list_all valid_tool_id (added x) \<and> list_all valid_tool_id (removed x)"

definition serve_result_from_wire :: "json \<Rightarrow> serve_result outcome_of" where
  "serve_result_from_wire data =
     and_then (dflt ''accepted'' (JInt 0) to_int data) (\<lambda>accepted.
     and_then (dflt ''added'' (JList []) (to_list (str_then ToolId)) data) (\<lambda>added.
     and_then (dflt ''removed'' (JList []) (to_list (str_then ToolId)) data) (\<lambda>removed.
     Inr \<lparr>accepted = accepted, added = added, removed = removed\<rparr>)))"

interpretation ServeResult: wire_field serve_result_to_wire serve_result_from_wire serve_result_ok
proof unfold_locales
  fix x v
  show "serve_result_to_wire x \<noteq> JNull" by (simp add: serve_result_to_wire_def)
  show "serve_result_from_wire (serve_result_to_wire x) = Inr x" if "serve_result_ok x"
    using that by (cases x) (simp add: serve_result_to_wire_def serve_result_from_wire_def serve_result_ok_def)
  show "serve_result_ok x" if "serve_result_from_wire v = Inr x"
    using that by (auto simp: serve_result_from_wire_def serve_result_ok_def dest: decoded)
qed

datatype session_bind_params = SessionBindParams

definition session_bind_params_to_wire :: "session_bind_params \<Rightarrow> json" where
  "session_bind_params_to_wire x =
     JDict []"

definition session_bind_params_from_wire :: "json \<Rightarrow> session_bind_params outcome_of" where
  "session_bind_params_from_wire data =
     Inr SessionBindParams"

interpretation SessionBindParams: wire_field session_bind_params_to_wire session_bind_params_from_wire "\<lambda>_. True"
proof unfold_locales
  fix x
  show "session_bind_params_from_wire (session_bind_params_to_wire x) = Inr x" by (cases x) (simp add: session_bind_params_from_wire_def)
qed (simp_all add: session_bind_params_to_wire_def)

record session_bind_result =
  tools :: "tool_description list"
  binary_version :: json
  unserved_tool_ids :: "json list"
  resolve_error :: json

definition session_bind_result_to_wire :: "(tool_description \<Rightarrow> json) \<Rightarrow> session_bind_result \<Rightarrow> json" where
  "session_bind_result_to_wire dump x =
     JDict ([(''tools'', JList (map dump (tools x)))] @
     value_pair ''binary_version'' (binary_version x) @
     list_pair ''unserved_tool_ids'' (\<lambda>v. v) (unserved_tool_ids x) @
     value_pair ''resolve_error'' (resolve_error x))"

definition session_bind_result_ok :: "(tool_description \<Rightarrow> bool) \<Rightarrow> session_bind_result \<Rightarrow> bool" where
  "session_bind_result_ok okd x \<longleftrightarrow> list_all okd (tools x)"

definition session_bind_result_from_wire :: "(json \<Rightarrow> tool_description outcome_of) \<Rightarrow> json \<Rightarrow> session_bind_result outcome_of" where
  "session_bind_result_from_wire validate data =
     and_then (dflt ''tools'' (JList []) (to_list validate) data) (\<lambda>tools.
     and_then (get_value ''binary_version'' data) (\<lambda>binary_version.
     and_then (dflt ''unserved_tool_ids'' (JList []) (to_list keep) data) (\<lambda>unserved_tool_ids.
     and_then (get_value ''resolve_error'' data) (\<lambda>resolve_error.
     Inr \<lparr>tools = tools, binary_version = binary_version, unserved_tool_ids = unserved_tool_ids, 
        resolve_error = resolve_error\<rparr>))))"

lemma session_bind_result_wire:
  assumes "wire_field dump validate okd"
  shows "wire_field (session_bind_result_to_wire dump) (session_bind_result_from_wire validate) (session_bind_result_ok okd)"
proof unfold_locales
  note facts = wire_field_back [OF assms] wire_field_fields [OF assms]
  fix x v
  show "session_bind_result_to_wire dump x \<noteq> JNull" by (simp add: session_bind_result_to_wire_def)
  show "session_bind_result_from_wire validate (session_bind_result_to_wire dump x) = Inr x" if "session_bind_result_ok okd x"
    using that by (cases x) (simp add: session_bind_result_to_wire_def session_bind_result_from_wire_def session_bind_result_ok_def facts)
  show "session_bind_result_ok okd x" if "session_bind_result_from_wire validate v = Inr x"
    using that by (auto simp: session_bind_result_from_wire_def session_bind_result_ok_def dest: decoded facts)
qed

datatype session_unbind_params = SessionUnbindParams

definition session_unbind_params_to_wire :: "session_unbind_params \<Rightarrow> json" where
  "session_unbind_params_to_wire x =
     JDict []"

definition session_unbind_params_from_wire :: "json \<Rightarrow> session_unbind_params outcome_of" where
  "session_unbind_params_from_wire data =
     Inr SessionUnbindParams"

interpretation SessionUnbindParams: wire_field session_unbind_params_to_wire session_unbind_params_from_wire "\<lambda>_. True"
proof unfold_locales
  fix x
  show "session_unbind_params_from_wire (session_unbind_params_to_wire x) = Inr x" by (cases x) (simp add: session_unbind_params_from_wire_def)
qed (simp_all add: session_unbind_params_to_wire_def)

record hook_frame =
  session_id :: string
  event :: hook_event
  tool_id :: "string option"
  call_id :: "string option"
  hook_id :: "string option"
  trace_context :: "string option"

definition hook_frame_to_wire :: "hook_frame \<Rightarrow> json" where
  "hook_frame_to_wire x =
     JDict ([(''session_id'', JStr (session_id x)),
      (''event'', hook_event_to_wire (event x))] @
     opt_pair ''tool_id'' JStr (tool_id x) @
     opt_pair ''call_id'' JStr (call_id x) @
     opt_pair ''hook_id'' JStr (hook_id x) @
     opt_pair ''trace_context'' JStr (trace_context x))"

definition hook_frame_ok :: "hook_frame \<Rightarrow> bool" where
  "hook_frame_ok x \<longleftrightarrow> nonempty (session_id x) \<and> pred_option valid_tool_id (tool_id x) \<and> pred_option nonempty (call_id x)"

definition hook_frame_from_wire :: "json \<Rightarrow> hook_frame outcome_of" where
  "hook_frame_from_wire data =
     and_then (req ''session_id'' (str_then SessionId) data) (\<lambda>session_id.
     and_then (req ''event'' hook_event_from_wire data) (\<lambda>event.
     and_then (opt_in ''tool_id'' (str_then ToolId) data) (\<lambda>tool_id.
     and_then (opt_in ''call_id'' (str_then ToolCallId) data) (\<lambda>call_id.
     and_then (opt_in ''hook_id'' to_str data) (\<lambda>hook_id.
     and_then (opt_in ''trace_context'' to_str data) (\<lambda>trace_context.
     Inr \<lparr>session_id = session_id, event = event, tool_id = tool_id, call_id = call_id, 
        hook_id = hook_id, trace_context = trace_context\<rparr>))))))"

interpretation HookFrame: wire_field hook_frame_to_wire hook_frame_from_wire hook_frame_ok
proof unfold_locales
  fix x v
  show "hook_frame_to_wire x \<noteq> JNull" by (simp add: hook_frame_to_wire_def)
  show "hook_frame_from_wire (hook_frame_to_wire x) = Inr x" if "hook_frame_ok x"
    using that by (cases x) (simp add: hook_frame_to_wire_def hook_frame_from_wire_def hook_frame_ok_def)
  show "hook_frame_ok x" if "hook_frame_from_wire v = Inr x"
    using that by (auto simp: hook_frame_from_wire_def hook_frame_ok_def dest: decoded)
qed

record hook_reply_frame =
  session_id :: string
  hook_id :: string
  result :: json

definition hook_reply_frame_to_wire :: "hook_reply_frame \<Rightarrow> json" where
  "hook_reply_frame_to_wire x =
     JDict [(''session_id'', JStr (session_id x)),
      (''hook_id'', JStr (hook_id x)),
      (''result'', result x)]"

definition hook_reply_frame_ok :: "hook_reply_frame \<Rightarrow> bool" where
  "hook_reply_frame_ok x \<longleftrightarrow> nonempty (session_id x)"

definition hook_reply_frame_from_wire :: "json \<Rightarrow> hook_reply_frame outcome_of" where
  "hook_reply_frame_from_wire data =
     and_then (req ''session_id'' (str_then SessionId) data) (\<lambda>session_id.
     and_then (req ''hook_id'' to_str data) (\<lambda>hook_id.
     and_then (req ''result'' keep data) (\<lambda>result.
     Inr \<lparr>session_id = session_id, hook_id = hook_id, result = result\<rparr>)))"

interpretation HookReplyFrame: wire_field hook_reply_frame_to_wire hook_reply_frame_from_wire hook_reply_frame_ok
proof unfold_locales
  fix x v
  show "hook_reply_frame_to_wire x \<noteq> JNull" by (simp add: hook_reply_frame_to_wire_def)
  show "hook_reply_frame_from_wire (hook_reply_frame_to_wire x) = Inr x" if "hook_reply_frame_ok x"
    using that by (cases x) (simp add: hook_reply_frame_to_wire_def hook_reply_frame_from_wire_def hook_reply_frame_ok_def)
  show "hook_reply_frame_ok x" if "hook_reply_frame_from_wire v = Inr x"
    using that by (auto simp: hook_reply_frame_from_wire_def hook_reply_frame_ok_def dest: decoded)
qed

record tools_changed =
  session_id :: string
  added :: "string list"
  removed :: "string list"
  updated :: "string list"

definition tools_changed_to_wire :: "tools_changed \<Rightarrow> json" where
  "tools_changed_to_wire x =
     JDict ([(''session_id'', JStr (session_id x))] @
     list_pair ''added'' JStr (added x) @
     list_pair ''removed'' JStr (removed x) @
     list_pair ''updated'' JStr (updated x))"

definition tools_changed_ok :: "tools_changed \<Rightarrow> bool" where
  "tools_changed_ok x \<longleftrightarrow> nonempty (session_id x) \<and> list_all valid_tool_id (added x) \<and> list_all valid_tool_id (removed x) \<and> list_all valid_tool_id (updated x)"

definition tools_changed_from_wire :: "json \<Rightarrow> tools_changed outcome_of" where
  "tools_changed_from_wire data =
     and_then (req ''session_id'' (str_then SessionId) data) (\<lambda>session_id.
     and_then (in_or ''added'' (to_list (str_then ToolId)) [] data) (\<lambda>added.
     and_then (in_or ''removed'' (to_list (str_then ToolId)) [] data) (\<lambda>removed.
     and_then (in_or ''updated'' (to_list (str_then ToolId)) [] data) (\<lambda>updated.
     Inr \<lparr>session_id = session_id, added = added, removed = removed, updated = updated\<rparr>))))"

interpretation ToolsChanged: wire_field tools_changed_to_wire tools_changed_from_wire tools_changed_ok
proof unfold_locales
  fix x v
  show "tools_changed_to_wire x \<noteq> JNull" by (simp add: tools_changed_to_wire_def)
  show "tools_changed_from_wire (tools_changed_to_wire x) = Inr x" if "tools_changed_ok x"
    using that by (cases x) (simp add: tools_changed_to_wire_def tools_changed_from_wire_def tools_changed_ok_def)
  show "tools_changed_ok x" if "tools_changed_from_wire v = Inr x"
    using that by (auto simp: tools_changed_from_wire_def tools_changed_ok_def dest: decoded)
qed

end
