(* ===== verification/Turn_Hooks.thy ===== *)
theory Turn_Hooks
  imports Tool_Registration
begin

text \<open>
  The handshake of a connection (\<open>tool_protocol/handshake.py\<close>), the payloads and replies of the turn
  hook (\<open>turn_hook.py\<close>) and the session events (\<open>session_event.py\<close>). The readers of a hook injection
  and of a hook reply refuse unknown keys; an unknown event type and an unknown phase or outcome of a
  call read as the unknown member.
\<close>

section \<open>Handshake\<close>

definition PROTOCOL_VERSION :: string where
  "PROTOCOL_VERSION = ''1.0.0''"

text \<open>
  The readers check the identifiers and the kind; the other fields are kept as they come. The kind
  is the value of a string enumeration, whatever JSON value is looked up.
\<close>

fun enum_call :: "(string \<Rightarrow> 'a outcome_of) \<Rightarrow> json \<Rightarrow> 'a outcome_of" where
  "enum_call f (JStr s) = f s"
| "enum_call f _ = Inl ValueError"

record hello_msg =
  protocol_version :: json
  kind :: connection_kind
  server_id :: "string option"
  description :: json
  metadata :: json

definition hello_msg_to_wire :: "hello_msg \<Rightarrow> json" where
  "hello_msg_to_wire x =
     JDict ([(''protocol_version'', protocol_version x), (''kind'', JStr (connection_kind_value (kind x)))] @
     opt_pair ''server_id'' JStr (server_id x) @
     value_pair ''description'' (description x) @
     value_pair ''metadata'' (metadata x))"

definition HelloMsg_from_wire :: "json \<Rightarrow> hello_msg outcome_of" where
  "HelloMsg_from_wire data =
     and_then (get_item ''server_id'' data) (\<lambda>raw_server.
     and_then (req ''protocol_version'' keep data) (\<lambda>protocol_version.
     and_then (req ''kind'' (enum_call ConnectionKind_from_wire) data) (\<lambda>kind.
     and_then (opt_val (checked_str ServerId) raw_server) (\<lambda>server_id.
     and_then (get_value ''description'' data) (\<lambda>description.
     and_then (get_value ''metadata'' data) (\<lambda>metadata.
     Inr \<lparr>protocol_version = protocol_version, kind = kind, server_id = server_id,
        description = description, metadata = metadata\<rparr>))))))"

definition hello_msg_ok :: "hello_msg \<Rightarrow> bool" where
  "hello_msg_ok x \<longleftrightarrow> pred_option valid_server_id (server_id x)"

interpretation HelloMsg: wire_field hello_msg_to_wire HelloMsg_from_wire hello_msg_ok
proof unfold_locales
  fix x v
  show "HelloMsg_from_wire (hello_msg_to_wire x) = Inr x" if "hello_msg_ok x"
    using that ConnectionKind.dec_enc [of "kind x"]
    by (cases x) (simp add: hello_msg_to_wire_def HelloMsg_from_wire_def hello_msg_ok_def str_then_JStr)
  show "hello_msg_ok x" if "HelloMsg_from_wire v = Inr x"
    using that by (auto simp: HelloMsg_from_wire_def hello_msg_ok_def dest: decoded)
qed (simp add: hello_msg_to_wire_def)

record hello_ack_msg =
  connection_id :: string
  user_id :: string
  computer_hub_version :: json
  supported_protocol_versions :: "json list"
  ack_capabilities :: "json list option"

definition hello_ack_msg_to_wire :: "hello_ack_msg \<Rightarrow> json" where
  "hello_ack_msg_to_wire x =
     JDict ([(''connection_id'', JStr (connection_id x)), (''user_id'', JStr (user_id x)),
      (''computer_hub_version'', computer_hub_version x),
      (''supported_protocol_versions'', JList (supported_protocol_versions x))] @
     (case ack_capabilities x of
        None \<Rightarrow> []
      | Some cs \<Rightarrow> list_pair ''capabilities'' (\<lambda>v. v) cs))"

definition HelloAckMsg_from_wire :: "json \<Rightarrow> hello_ack_msg outcome_of" where
  "HelloAckMsg_from_wire data =
     and_then (req ''connection_id'' (checked_str ConnectionId) data) (\<lambda>connection_id.
     and_then (req ''user_id'' (checked_str UserId) data) (\<lambda>user_id.
     and_then (req ''computer_hub_version'' keep data) (\<lambda>computer_hub_version.
     and_then (req ''supported_protocol_versions'' (to_list keep) data) (\<lambda>supported.
     and_then (opt_in ''capabilities'' (to_list keep) data) (\<lambda>capabilities.
     Inr \<lparr>connection_id = connection_id, user_id = user_id, computer_hub_version = computer_hub_version,
        supported_protocol_versions = supported, ack_capabilities = capabilities\<rparr>)))))"

definition hello_ack_msg_ok :: "hello_ack_msg \<Rightarrow> bool" where
  "hello_ack_msg_ok x \<longleftrightarrow> nonempty (connection_id x) \<and> nonempty (user_id x)"

text \<open>An empty list of capabilities is not written, so it reads back as absent.\<close>

lemma hello_ack_roundtrip:
  assumes "hello_ack_msg_ok x"
  shows "HelloAckMsg_from_wire (hello_ack_msg_to_wire x) =
     Inr (if ack_capabilities x = Some [] then x\<lparr>ack_capabilities := None\<rparr> else x)"
  using assms
  by (cases x) (auto simp: hello_ack_msg_to_wire_def HelloAckMsg_from_wire_def hello_ack_msg_ok_def
      list_opt_def id_Inr split: option.splits)

section \<open>Turn hook\<close>

definition TURN_HOOK_KIND :: string where "TURN_HOOK_KIND = ''turn_hook''"

definition BEFORE_TURN_KIND :: string where "BEFORE_TURN_KIND = ''before_turn''"

definition AFTER_TURN_KIND :: string where "AFTER_TURN_KIND = ''after_turn''"

definition DEFAULT_SESSION_RELATIONSHIP :: string where "DEFAULT_SESSION_RELATIONSHIP = ''primary''"

definition DEFAULT_SCHEMA_VERSION :: string where "DEFAULT_SCHEMA_VERSION = ''1.0''"

definition default_session_relationship :: string where "default_session_relationship = DEFAULT_SESSION_RELATIONSHIP"

definition default_schema_version :: string where "default_schema_version = DEFAULT_SCHEMA_VERSION"

datatype turn_hook_outcome = COMPLETED | CANCELLED | ERROR

fun turn_hook_outcome_value :: "turn_hook_outcome \<Rightarrow> string" where
  "turn_hook_outcome_value COMPLETED = ''completed''"
| "turn_hook_outcome_value CANCELLED = ''cancelled''"
| "turn_hook_outcome_value ERROR = ''error''"

definition TurnHookOutcome_from_wire :: "string \<Rightarrow> turn_hook_outcome outcome_of" where
  "TurnHookOutcome_from_wire = member_of turn_hook_outcome_value
     [COMPLETED, CANCELLED, ERROR]"

interpretation TurnHookOutcome: wire_field "\<lambda>x. JStr (turn_hook_outcome_value x)" "str_then TurnHookOutcome_from_wire" "\<lambda>_. True"
proof unfold_locales
  fix x :: turn_hook_outcome
  show "str_then TurnHookOutcome_from_wire (JStr (turn_hook_outcome_value x)) = Inr x" by (cases x) (simp_all add: str_then_JStr TurnHookOutcome_from_wire_def member_of_def)
qed simp_all

datatype injection_role = SYSTEM | DEVELOPER | USER

fun injection_role_value :: "injection_role \<Rightarrow> string" where
  "injection_role_value SYSTEM = ''system''"
| "injection_role_value DEVELOPER = ''developer''"
| "injection_role_value USER = ''user''"

definition InjectionRole_from_wire :: "string \<Rightarrow> injection_role outcome_of" where
  "InjectionRole_from_wire = member_of injection_role_value
     [SYSTEM, DEVELOPER, USER]"

interpretation InjectionRole: wire_field "\<lambda>x. JStr (injection_role_value x)" "str_then InjectionRole_from_wire" "\<lambda>_. True"
proof unfold_locales
  fix x :: injection_role
  show "str_then InjectionRole_from_wire (JStr (injection_role_value x)) = Inr x" by (cases x) (simp_all add: str_then_JStr InjectionRole_from_wire_def member_of_def)
qed simp_all

datatype turn_control = AUTO | FORCE_CONTINUE | FORCE_STOP

fun turn_control_value :: "turn_control \<Rightarrow> string" where
  "turn_control_value AUTO = ''auto''"
| "turn_control_value FORCE_CONTINUE = ''force_continue''"
| "turn_control_value FORCE_STOP = ''force_stop''"

definition TurnControl_from_wire :: "string \<Rightarrow> turn_control outcome_of" where
  "TurnControl_from_wire = member_of turn_control_value
     [AUTO, FORCE_CONTINUE, FORCE_STOP]"

interpretation TurnControl: wire_field "\<lambda>x. JStr (turn_control_value x)" "str_then TurnControl_from_wire" "\<lambda>_. True"
proof unfold_locales
  fix x :: turn_control
  show "str_then TurnControl_from_wire (JStr (turn_control_value x)) = Inr x" by (cases x) (simp_all add: str_then_JStr TurnControl_from_wire_def member_of_def)
qed simp_all

datatype after_turn_ack_status = ENQUEUED | FAILED | SKIPPED

fun after_turn_ack_status_value :: "after_turn_ack_status \<Rightarrow> string" where
  "after_turn_ack_status_value ENQUEUED = ''enqueued''"
| "after_turn_ack_status_value FAILED = ''failed''"
| "after_turn_ack_status_value SKIPPED = ''skipped''"

definition AfterTurnAckStatus_from_wire :: "string \<Rightarrow> after_turn_ack_status outcome_of" where
  "AfterTurnAckStatus_from_wire = member_of after_turn_ack_status_value
     [ENQUEUED, FAILED, SKIPPED]"

interpretation AfterTurnAckStatus: wire_field "\<lambda>x. JStr (after_turn_ack_status_value x)" "str_then AfterTurnAckStatus_from_wire" "\<lambda>_. True"
proof unfold_locales
  fix x :: after_turn_ack_status
  show "str_then AfterTurnAckStatus_from_wire (JStr (after_turn_ack_status_value x)) = Inr x" by (cases x) (simp_all add: str_then_JStr AfterTurnAckStatus_from_wire_def member_of_def)
qed simp_all

record before_turn_payload =
  turn_number :: int
  model_id :: string
  yolo_mode :: bool
  conversation_message_count :: int
  session_relationship :: string
  schema_version :: string

definition before_turn_payload_to_wire :: "before_turn_payload \<Rightarrow> json" where
  "before_turn_payload_to_wire x =
     JDict [(''turn_number'', JInt (turn_number x)),
      (''model_id'', JStr (model_id x)),
      (''yolo_mode'', JBool (yolo_mode x)),
      (''conversation_message_count'', JInt (conversation_message_count x)),
      (''session_relationship'', JStr (session_relationship x)),
      (''schema_version'', JStr (schema_version x))]"

definition before_turn_payload_from_wire :: "json \<Rightarrow> before_turn_payload outcome_of" where
  "before_turn_payload_from_wire data =
     and_then (req ''turn_number'' to_int data) (\<lambda>turn_number.
     and_then (req ''model_id'' to_str data) (\<lambda>model_id.
     and_then (dflt ''yolo_mode'' (JBool False) to_bool data) (\<lambda>yolo_mode.
     and_then (dflt ''conversation_message_count'' (JInt 0) to_int data) (\<lambda>conversation_message_count.
     and_then (dflt ''session_relationship'' (JStr default_session_relationship) to_str data) (\<lambda>session_relationship.
     and_then (dflt ''schema_version'' (JStr default_schema_version) to_str data) (\<lambda>schema_version.
     Inr \<lparr>turn_number = turn_number, model_id = model_id, yolo_mode = yolo_mode, 
        conversation_message_count = conversation_message_count, session_relationship = session_relationship, 
        schema_version = schema_version\<rparr>))))))"

interpretation BeforeTurnPayload: wire_field before_turn_payload_to_wire before_turn_payload_from_wire "\<lambda>_. True"
proof unfold_locales
  fix x v
  show "before_turn_payload_to_wire x \<noteq> JNull" by (simp add: before_turn_payload_to_wire_def)
  show "before_turn_payload_from_wire (before_turn_payload_to_wire x) = Inr x"
    by (cases x) (simp add: before_turn_payload_to_wire_def before_turn_payload_from_wire_def)
qed simp_all

record after_turn_payload =
  turn_number :: int
  outcome :: turn_hook_outcome
  duration_ms :: int
  tool_call_count :: int
  model_id :: string
  written_repo_paths :: "string list"
  cancellation_category :: "string option"
  cancellation_context :: json

definition after_turn_payload_to_wire :: "after_turn_payload \<Rightarrow> json" where
  "after_turn_payload_to_wire x =
     JDict ([(''turn_number'', JInt (turn_number x)),
      (''outcome'', JStr (turn_hook_outcome_value (outcome x))),
      (''duration_ms'', JInt (duration_ms x)),
      (''tool_call_count'', JInt (tool_call_count x)),
      (''model_id'', JStr (model_id x)),
      (''written_repo_paths'', JList (map JStr (written_repo_paths x)))] @
     opt_pair ''cancellation_category'' JStr (cancellation_category x) @
     value_pair ''cancellation_context'' (cancellation_context x))"

definition after_turn_payload_from_wire :: "json \<Rightarrow> after_turn_payload outcome_of" where
  "after_turn_payload_from_wire data =
     and_then (get_item ''cancellation_category'' data) (\<lambda>cancellation_category_raw.
     and_then (req ''turn_number'' to_int data) (\<lambda>turn_number.
     and_then (req ''outcome'' (str_then TurnHookOutcome_from_wire) data) (\<lambda>outcome.
     and_then (req ''duration_ms'' to_int data) (\<lambda>duration_ms.
     and_then (req ''tool_call_count'' to_int data) (\<lambda>tool_call_count.
     and_then (req ''model_id'' to_str data) (\<lambda>model_id.
     and_then (dflt ''written_repo_paths'' (JList []) (to_list to_str) data) (\<lambda>written_repo_paths.
     and_then (opt_val to_str cancellation_category_raw) (\<lambda>cancellation_category.
     and_then (get_value ''cancellation_context'' data) (\<lambda>cancellation_context.
     Inr \<lparr>turn_number = turn_number, outcome = outcome, duration_ms = duration_ms, 
        tool_call_count = tool_call_count, model_id = model_id, written_repo_paths = written_repo_paths, 
        cancellation_category = cancellation_category, cancellation_context = cancellation_context\<rparr>)))))))))"

interpretation AfterTurnPayload: wire_field after_turn_payload_to_wire after_turn_payload_from_wire "\<lambda>_. True"
proof unfold_locales
  fix x v
  show "after_turn_payload_to_wire x \<noteq> JNull" by (simp add: after_turn_payload_to_wire_def)
  show "after_turn_payload_from_wire (after_turn_payload_to_wire x) = Inr x"
    by (cases x) (simp add: after_turn_payload_to_wire_def after_turn_payload_from_wire_def)
qed simp_all

text \<open>\<open>set(data) - allowed\<close> is refused when it is not empty.\<close>

fun only_fields :: "string list \<Rightarrow> json \<Rightarrow> unit outcome_of" where
  "only_fields allowed (JDict d) = (if list_all (\<lambda>(k, v). k \<in> set allowed) d then Inr () else Inl ValueError)"
| "only_fields allowed (JStr s) = (if list_all (\<lambda>c. [c] \<in> set allowed) s then Inr () else Inl ValueError)"
| "only_fields allowed (JList xs) = Inl Unmodelled"
| "only_fields allowed _ = Inl TypeError"

record hook_injection =
  role :: injection_role
  content :: string

definition hook_injection_to_wire :: "hook_injection \<Rightarrow> json" where
  "hook_injection_to_wire x =
     JDict [(''role'', JStr (injection_role_value (role x))), (''content'', JStr (content x))]"

definition HOOK_INJECTION_FIELDS :: "string list" where
  "HOOK_INJECTION_FIELDS = [''role'', ''content'']"

definition hook_injection_from_wire :: "json \<Rightarrow> hook_injection outcome_of" where
  "hook_injection_from_wire data =
     and_then (only_fields HOOK_INJECTION_FIELDS data) (\<lambda>_.
     and_then (req ''role'' (str_then InjectionRole_from_wire) data) (\<lambda>role.
     and_then (req ''content'' to_str data) (\<lambda>content.
     Inr \<lparr>role = role, content = content\<rparr>)))"

interpretation HookInjection: wire_field hook_injection_to_wire hook_injection_from_wire "\<lambda>_. True"
proof unfold_locales
  fix x
  show "hook_injection_from_wire (hook_injection_to_wire x) = Inr x"
    by (cases x) (simp add: hook_injection_from_wire_def hook_injection_to_wire_def HOOK_INJECTION_FIELDS_def)
qed (simp_all add: hook_injection_to_wire_def)

record after_turn_ack_payload =
  turn_number :: int
  status :: after_turn_ack_status
  error_message :: "string option"
  artifact_count :: int

definition after_turn_ack_payload_to_wire :: "after_turn_ack_payload \<Rightarrow> json" where
  "after_turn_ack_payload_to_wire x =
     JDict ([(''turn_number'', JInt (turn_number x)),
      (''status'', JStr (after_turn_ack_status_value (status x))),
      (''artifact_count'', JInt (artifact_count x))] @
     opt_pair ''error_message'' JStr (error_message x))"

definition after_turn_ack_payload_from_wire :: "json \<Rightarrow> after_turn_ack_payload outcome_of" where
  "after_turn_ack_payload_from_wire data =
     and_then (get_item ''error_message'' data) (\<lambda>error_message_raw.
     and_then (req ''turn_number'' to_int data) (\<lambda>turn_number.
     and_then (req ''status'' (str_then AfterTurnAckStatus_from_wire) data) (\<lambda>status.
     and_then (opt_val to_str error_message_raw) (\<lambda>error_message.
     and_then (dflt ''artifact_count'' (JInt 0) to_int data) (\<lambda>artifact_count.
     Inr \<lparr>turn_number = turn_number, status = status, error_message = error_message, 
        artifact_count = artifact_count\<rparr>)))))"

interpretation AfterTurnAckPayload: wire_field after_turn_ack_payload_to_wire after_turn_ack_payload_from_wire "\<lambda>_. True"
proof unfold_locales
  fix x v
  show "after_turn_ack_payload_to_wire x \<noteq> JNull" by (simp add: after_turn_ack_payload_to_wire_def)
  show "after_turn_ack_payload_from_wire (after_turn_ack_payload_to_wire x) = Inr x"
    by (cases x) (simp add: after_turn_ack_payload_to_wire_def after_turn_ack_payload_from_wire_def)
qed simp_all

record hook_reply =
  injections :: "hook_injection list"
  control :: turn_control
  after_turn_ack :: "after_turn_ack_payload option"

definition hook_reply_to_wire :: "hook_reply \<Rightarrow> json" where
  "hook_reply_to_wire x =
     JDict ([(''injections'', JList (map hook_injection_to_wire (injections x))),
      (''control'', JStr (turn_control_value (control x)))] @
     opt_pair ''after_turn_ack'' after_turn_ack_payload_to_wire (after_turn_ack x))"

definition HOOK_REPLY_FIELDS :: "string list" where
  "HOOK_REPLY_FIELDS = [''injections'', ''control'', ''after_turn_ack'']"

definition hook_reply_from_wire :: "json \<Rightarrow> hook_reply outcome_of" where
  "hook_reply_from_wire data =
     and_then (only_fields HOOK_REPLY_FIELDS data) (\<lambda>_.
     and_then (dflt ''injections'' (JList []) (to_list hook_injection_from_wire) data) (\<lambda>injections.
     and_then (in_or ''control'' (str_then TurnControl_from_wire) AUTO data) (\<lambda>control.
     and_then (opt ''after_turn_ack'' after_turn_ack_payload_from_wire data) (\<lambda>ack.
     Inr \<lparr>injections = injections, control = control, after_turn_ack = ack\<rparr>))))"

interpretation HookReply: wire_field hook_reply_to_wire hook_reply_from_wire "\<lambda>_. True"
proof unfold_locales
  fix x
  show "hook_reply_from_wire (hook_reply_to_wire x) = Inr x"
    by (cases x) (simp add: hook_reply_from_wire_def hook_reply_to_wire_def HOOK_REPLY_FIELDS_def opt_pair_def
        split: option.split)
qed (simp_all add: hook_reply_to_wire_def)

datatype turn_hook_request =
    TurnHookRequestBefore before_turn_payload
  | TurnHookRequestAfter after_turn_payload

text \<open>\<open>out = self.payload.to_wire(); out["phase"] = phase\<close>.\<close>

fun with_phase :: "string \<Rightarrow> json \<Rightarrow> json" where
  "with_phase ph (JDict d) = JDict (d @ [(''phase'', JStr ph)])"
| "with_phase ph v = v"

fun turn_hook_request_to_wire :: "turn_hook_request \<Rightarrow> json" where
  "turn_hook_request_to_wire (TurnHookRequestBefore p) = with_phase ''before'' (before_turn_payload_to_wire p)"
| "turn_hook_request_to_wire (TurnHookRequestAfter p) = with_phase ''after'' (after_turn_payload_to_wire p)"

definition turn_hook_request_from_wire :: "json \<Rightarrow> turn_hook_request outcome_of" where
  "turn_hook_request_from_wire data =
     and_then (req ''phase'' to_str data) (\<lambda>phase.
     if phase = ''before'' then and_then (before_turn_payload_from_wire data) (\<lambda>p. Inr (TurnHookRequestBefore p))
     else if phase = ''after'' then and_then (after_turn_payload_from_wire data) (\<lambda>p. Inr (TurnHookRequestAfter p))
     else Inl ValueError)"

interpretation TurnHookRequest: wire_field turn_hook_request_to_wire turn_hook_request_from_wire "\<lambda>_. True"
proof unfold_locales
  fix x
  show "turn_hook_request_from_wire (turn_hook_request_to_wire x) = Inr x"
  proof (cases x)
    case (TurnHookRequestBefore p)
    then show ?thesis
      by (cases p) (simp add: turn_hook_request_from_wire_def before_turn_payload_to_wire_def before_turn_payload_from_wire_def)
  next
    case (TurnHookRequestAfter p)
    then show ?thesis
      by (cases p) (simp add: turn_hook_request_from_wire_def after_turn_payload_to_wire_def after_turn_payload_from_wire_def)
  qed
  show "turn_hook_request_to_wire x \<noteq> JNull"
    by (cases x) (simp_all add: before_turn_payload_to_wire_def after_turn_payload_to_wire_def)
qed simp

section \<open>Session events\<close>

datatype tool_call_outcome = SUCCESS | ERROR | CANCELLED | UNKNOWN

fun tool_call_outcome_value :: "tool_call_outcome \<Rightarrow> string" where
  "tool_call_outcome_value SUCCESS = ''success''"
| "tool_call_outcome_value ERROR = ''error''"
| "tool_call_outcome_value CANCELLED = ''cancelled''"
| "tool_call_outcome_value UNKNOWN = ''unknown''"

definition ToolCallOutcome_from_wire :: "string \<Rightarrow> tool_call_outcome outcome_of" where
  "ToolCallOutcome_from_wire = member_or UNKNOWN tool_call_outcome_value [SUCCESS, ERROR, CANCELLED, UNKNOWN]"

interpretation ToolCallOutcome: wire_field "\<lambda>x. JStr (tool_call_outcome_value x)" "str_then ToolCallOutcome_from_wire" "\<lambda>_. True"
proof unfold_locales
  fix x :: tool_call_outcome
  show "str_then ToolCallOutcome_from_wire (JStr (tool_call_outcome_value x)) = Inr x" by (cases x) (simp_all add: str_then_JStr ToolCallOutcome_from_wire_def member_or_def)
qed simp_all

datatype session_phase = IDLE | SAMPLING | TOOL_EXECUTION | PERMISSION_PROMPT | UNKNOWN

fun session_phase_value :: "session_phase \<Rightarrow> string" where
  "session_phase_value IDLE = ''idle''"
| "session_phase_value SAMPLING = ''sampling''"
| "session_phase_value TOOL_EXECUTION = ''tool_execution''"
| "session_phase_value PERMISSION_PROMPT = ''permission_prompt''"
| "session_phase_value UNKNOWN = ''unknown''"

definition SessionPhase_from_wire :: "string \<Rightarrow> session_phase outcome_of" where
  "SessionPhase_from_wire = member_or UNKNOWN session_phase_value [IDLE, SAMPLING, TOOL_EXECUTION, PERMISSION_PROMPT, UNKNOWN]"

interpretation SessionPhase: wire_field "\<lambda>x. JStr (session_phase_value x)" "str_then SessionPhase_from_wire" "\<lambda>_. True"
proof unfold_locales
  fix x :: session_phase
  show "str_then SessionPhase_from_wire (JStr (session_phase_value x)) = Inr x" by (cases x) (simp_all add: str_then_JStr SessionPhase_from_wire_def member_or_def)
qed simp_all

datatype session_event =
    TurnStarted int string bool
  | TurnEnded int turn_hook_outcome int int string
  | ToolCallStarted string string int
  | ToolCallCompleted string string int tool_call_outcome
  | PhaseChanged session_phase
  | Unknown

fun session_event_to_wire :: "session_event \<Rightarrow> json" where
  "session_event_to_wire (TurnStarted n m y) =
     JDict [(''event_type'', JStr ''turn_started''), (''turn_number'', JInt n), (''model_id'', JStr m),
            (''yolo_mode'', JBool y)]"
| "session_event_to_wire (TurnEnded n r d c m) =
     JDict [(''event_type'', JStr ''turn_ended''), (''turn_number'', JInt n),
            (''outcome'', JStr (turn_hook_outcome_value r)), (''duration_ms'', JInt d),
            (''tool_call_count'', JInt c), (''model_id'', JStr m)]"
| "session_event_to_wire (ToolCallStarted i t n) =
     JDict [(''event_type'', JStr ''tool_call_started''), (''tool_call_id'', JStr i), (''tool_name'', JStr t),
            (''turn_number'', JInt n)]"
| "session_event_to_wire (ToolCallCompleted i t d r) =
     JDict [(''event_type'', JStr ''tool_call_completed''), (''tool_call_id'', JStr i), (''tool_name'', JStr t),
            (''duration_ms'', JInt d), (''outcome'', JStr (tool_call_outcome_value r))]"
| "session_event_to_wire (PhaseChanged ph) =
     JDict [(''event_type'', JStr ''phase_changed''), (''phase'', JStr (session_phase_value ph))]"
| "session_event_to_wire Unknown = JDict [(''event_type'', JStr ''unknown'')]"

definition turn_started_from_wire :: "json \<Rightarrow> session_event outcome_of" where
  "turn_started_from_wire data =
     and_then (req ''turn_number'' to_int data) (\<lambda>n.
     and_then (req ''model_id'' to_str data) (\<lambda>m.
     and_then (dflt ''yolo_mode'' (JBool False) to_bool data) (\<lambda>y. Inr (TurnStarted n m y))))"

definition turn_ended_from_wire :: "json \<Rightarrow> session_event outcome_of" where
  "turn_ended_from_wire data =
     and_then (req ''turn_number'' to_int data) (\<lambda>n.
     and_then (req ''outcome'' (str_then TurnHookOutcome_from_wire) data) (\<lambda>r.
     and_then (req ''duration_ms'' to_int data) (\<lambda>d.
     and_then (req ''tool_call_count'' to_int data) (\<lambda>c.
     and_then (req ''model_id'' to_str data) (\<lambda>m. Inr (TurnEnded n r d c m))))))"

definition tool_call_started_from_wire :: "json \<Rightarrow> session_event outcome_of" where
  "tool_call_started_from_wire data =
     and_then (req ''tool_call_id'' to_str data) (\<lambda>i.
     and_then (req ''tool_name'' to_str data) (\<lambda>t.
     and_then (req ''turn_number'' to_int data) (\<lambda>n. Inr (ToolCallStarted i t n))))"

definition tool_call_completed_from_wire :: "json \<Rightarrow> session_event outcome_of" where
  "tool_call_completed_from_wire data =
     and_then (req ''tool_call_id'' to_str data) (\<lambda>i.
     and_then (req ''tool_name'' to_str data) (\<lambda>t.
     and_then (req ''duration_ms'' to_int data) (\<lambda>d.
     and_then (req ''outcome'' (str_then ToolCallOutcome_from_wire) data) (\<lambda>r. Inr (ToolCallCompleted i t d r)))))"

definition phase_changed_from_wire :: "json \<Rightarrow> session_event outcome_of" where
  "phase_changed_from_wire data =
     and_then (req ''phase'' (str_then SessionPhase_from_wire) data) (\<lambda>ph. Inr (PhaseChanged ph))"

definition session_event_from_wire :: "json \<Rightarrow> session_event outcome_of" where
  "session_event_from_wire data =
     and_then (req ''event_type'' to_str data) (\<lambda>tag.
     if tag = ''turn_started'' then turn_started_from_wire data
     else if tag = ''turn_ended'' then turn_ended_from_wire data
     else if tag = ''tool_call_started'' then tool_call_started_from_wire data
     else if tag = ''tool_call_completed'' then tool_call_completed_from_wire data
     else if tag = ''phase_changed'' then phase_changed_from_wire data
     else Inr Unknown)"

lemmas event_readers = turn_started_from_wire_def turn_ended_from_wire_def tool_call_started_from_wire_def
  tool_call_completed_from_wire_def phase_changed_from_wire_def

interpretation SessionEvent: wire_field session_event_to_wire session_event_from_wire "\<lambda>_. True"
proof unfold_locales
  fix x
  show "session_event_from_wire (session_event_to_wire x) = Inr x"
    by (cases x) (simp_all add: session_event_from_wire_def event_readers)
  show "session_event_to_wire x \<noteq> JNull" by (cases x) simp_all
qed simp

end
