(* ===== verification/Envelope.thy ===== *)
theory Envelope
  imports Tool_Ids
begin

text \<open>
  The JSON-RPC envelopes (\<open>tool_protocol/envelope.py\<close>) and the overload response of the SDK
  (\<open>computer_hub_sdk/admission.py\<close>). The payload type of an envelope is a parameter; \<open>enc\<close> is
  \<open>_payload_to_wire\<close> for it. A read envelope holds the JSON payload.
\<close>

section \<open>Version and identifier\<close>

datatype json_rpc_version = JsonRpcVersion

definition VERSION :: string where "VERSION = ''2.0''"

definition json_rpc_version_to_wire :: "json_rpc_version \<Rightarrow> json" where
  "json_rpc_version_to_wire v = JStr VERSION"

definition JsonRpcVersion_from_wire :: "json \<Rightarrow> json_rpc_version outcome_of" where
  "JsonRpcVersion_from_wire data = (if data = JStr VERSION then Inr JsonRpcVersion else Inl (JsonRpcVersionError data))"

datatype json_rpc_id =
    JsonRpcIdString string
  | JsonRpcIdNumber int

definition I64_MIN :: int where "I64_MIN = - (2 ^ 63)"

definition I64_MAX :: int where "I64_MAX = 2 ^ 63 - 1"

definition new_id_number :: "int \<Rightarrow> json_rpc_id outcome_of" where
  "new_id_number i = (if i < I64_MIN \<or> I64_MAX < i then Inl ValueError else Inr (JsonRpcIdNumber i))"

definition from_request_id :: "string \<Rightarrow> json_rpc_id" where
  "from_request_id r = JsonRpcIdString r"

fun as_request_id :: "json_rpc_id \<Rightarrow> string outcome_of" where
  "as_request_id (JsonRpcIdString s) = RequestId s"
| "as_request_id (JsonRpcIdNumber i) = RequestId (py_str_int i)"

fun json_rpc_id_to_wire :: "json_rpc_id \<Rightarrow> json" where
  "json_rpc_id_to_wire (JsonRpcIdString s) = JStr s"
| "json_rpc_id_to_wire (JsonRpcIdNumber i) = JInt i"

fun jsonrpc_id_from_wire :: "json \<Rightarrow> json_rpc_id outcome_of" where
  "jsonrpc_id_from_wire (JStr s) = Inr (JsonRpcIdString s)"
| "jsonrpc_id_from_wire (JInt i) = new_id_number i"
| "jsonrpc_id_from_wire _ = Inl ValueError"

fun json_rpc_id_ok :: "json_rpc_id \<Rightarrow> bool" where
  "json_rpc_id_ok (JsonRpcIdString s) = True"
| "json_rpc_id_ok (JsonRpcIdNumber i) = (I64_MIN \<le> i \<and> i \<le> I64_MAX)"

interpretation JsonRpcVersion: wire_field json_rpc_version_to_wire JsonRpcVersion_from_wire "\<lambda>_. True"
proof unfold_locales
  fix x
  show "JsonRpcVersion_from_wire (json_rpc_version_to_wire x) = Inr x"
    by (cases x) (simp add: JsonRpcVersion_from_wire_def json_rpc_version_to_wire_def)
qed (simp_all add: json_rpc_version_to_wire_def)

interpretation JsonRpcId: wire_field json_rpc_id_to_wire jsonrpc_id_from_wire json_rpc_id_ok
proof unfold_locales
  fix x v
  show "jsonrpc_id_from_wire (json_rpc_id_to_wire x) = Inr x" if "json_rpc_id_ok x"
    using that by (cases x) (auto simp: new_id_number_def)
  show "json_rpc_id_to_wire x \<noteq> JNull" by (cases x) simp_all
  show "json_rpc_id_ok x" if "jsonrpc_id_from_wire v = Inr x"
    using that by (cases v) (auto simp: new_id_number_def split: if_splits)
qed

section \<open>Requests and notifications\<close>

record 'p json_rpc_request =
  id_value :: json_rpc_id
  method_name :: string
  params :: 'p
  session_id :: "string option"

definition json_rpc_request_to_wire :: "('p \<Rightarrow> json) \<Rightarrow> 'p json_rpc_request \<Rightarrow> json" where
  "json_rpc_request_to_wire enc x =
     JDict ([(''jsonrpc'', json_rpc_version_to_wire JsonRpcVersion), (''id'', json_rpc_id_to_wire (id_value x))] @
       opt_pair ''session_id'' JStr (session_id x) @
       [(''method'', JStr (method_name x)), (''params'', enc (params x))])"

definition JsonRpcRequest_from_wire :: "json \<Rightarrow> json json_rpc_request outcome_of" where
  "JsonRpcRequest_from_wire data =
     and_then (req ''jsonrpc'' JsonRpcVersion_from_wire data) (\<lambda>jsonrpc.
     and_then (req ''id'' jsonrpc_id_from_wire data) (\<lambda>i.
     and_then (req ''method'' to_str data) (\<lambda>m.
     and_then (req ''params'' keep data) (\<lambda>ps.
     and_then (opt_present ''session_id'' (str_then SessionId) data) (\<lambda>s.
     Inr \<lparr>id_value = i, method_name = m, params = ps, session_id = s\<rparr>)))))"

definition json_rpc_request_ok :: "'p json_rpc_request \<Rightarrow> bool" where
  "json_rpc_request_ok x \<longleftrightarrow> json_rpc_id_ok (id_value x) \<and> pred_option nonempty (session_id x)"

text \<open>The request as its reader sees it: the payload is its JSON form.\<close>

definition received_request :: "('p \<Rightarrow> json) \<Rightarrow> 'p json_rpc_request \<Rightarrow> json json_rpc_request" where
  "received_request enc x =
     \<lparr>id_value = id_value x, method_name = method_name x, params = enc (params x), session_id = session_id x\<rparr>"

lemma request_back:
  "json_rpc_request_ok x \<Longrightarrow>
     JsonRpcRequest_from_wire (json_rpc_request_to_wire enc x) = Inr (received_request enc x)"
  by (simp add: received_request_def JsonRpcRequest_from_wire_def json_rpc_request_to_wire_def json_rpc_request_ok_def)

interpretation JsonRpcRequest: wire_field "json_rpc_request_to_wire (\<lambda>v. v)" JsonRpcRequest_from_wire json_rpc_request_ok
proof unfold_locales
  fix x :: "json json_rpc_request" and v
  show "JsonRpcRequest_from_wire (json_rpc_request_to_wire (\<lambda>v. v) x) = Inr x" if "json_rpc_request_ok x"
    using that by (simp add: request_back received_request_def)
  show "json_rpc_request_ok x" if "JsonRpcRequest_from_wire v = Inr x"
    using that by (auto simp: JsonRpcRequest_from_wire_def json_rpc_request_ok_def dest: decoded)
qed (simp add: json_rpc_request_to_wire_def)

record 'p json_rpc_notification =
  method_name :: string
  params :: 'p
  session_id :: "string option"
  seq :: "int option"

definition json_rpc_notification_to_wire :: "('p \<Rightarrow> json) \<Rightarrow> 'p json_rpc_notification \<Rightarrow> json" where
  "json_rpc_notification_to_wire enc x =
     JDict ([(''jsonrpc'', json_rpc_version_to_wire JsonRpcVersion)] @
       opt_pair ''session_id'' JStr (session_id x) @
       opt_pair ''seq'' JInt (seq x) @
       [(''method'', JStr (method_name x)), (''params'', enc (params x))])"

definition JsonRpcNotification_from_wire :: "json \<Rightarrow> json json_rpc_notification outcome_of" where
  "JsonRpcNotification_from_wire data =
     and_then (req ''jsonrpc'' JsonRpcVersion_from_wire data) (\<lambda>jsonrpc.
     and_then (req ''method'' to_str data) (\<lambda>m.
     and_then (req ''params'' keep data) (\<lambda>ps.
     and_then (opt_present ''session_id'' (str_then SessionId) data) (\<lambda>s.
     and_then (opt_present ''seq'' FrameSeq_from_wire data) (\<lambda>n.
     Inr \<lparr>method_name = m, params = ps, session_id = s, seq = n\<rparr>)))))"

definition json_rpc_notification_ok :: "'p json_rpc_notification \<Rightarrow> bool" where
  "json_rpc_notification_ok x \<longleftrightarrow> pred_option nonempty (session_id x) \<and> pred_option natural (seq x)"

definition received_notification :: "('p \<Rightarrow> json) \<Rightarrow> 'p json_rpc_notification \<Rightarrow> json json_rpc_notification" where
  "received_notification enc x =
     \<lparr>method_name = method_name x, params = enc (params x), session_id = session_id x, seq = seq x\<rparr>"

lemma notification_back:
  "json_rpc_notification_ok x \<Longrightarrow>
     JsonRpcNotification_from_wire (json_rpc_notification_to_wire enc x) = Inr (received_notification enc x)"
  by (simp add: received_notification_def JsonRpcNotification_from_wire_def json_rpc_notification_to_wire_def json_rpc_notification_ok_def)

interpretation JsonRpcNotification:
  wire_field "json_rpc_notification_to_wire (\<lambda>v. v)" JsonRpcNotification_from_wire json_rpc_notification_ok
proof unfold_locales
  fix x :: "json json_rpc_notification" and v
  show "JsonRpcNotification_from_wire (json_rpc_notification_to_wire (\<lambda>v. v) x) = Inr x" if "json_rpc_notification_ok x"
    using that by (simp add: notification_back received_notification_def)
  show "json_rpc_notification_ok x" if "JsonRpcNotification_from_wire v = Inr x"
    using that by (auto simp: JsonRpcNotification_from_wire_def json_rpc_notification_ok_def dest: decoded)
qed (simp add: json_rpc_notification_to_wire_def)

section \<open>Responses\<close>

record json_rpc_error =
  code :: int
  message :: string
  error_data :: json

definition json_rpc_error_to_wire :: "json_rpc_error \<Rightarrow> json" where
  "json_rpc_error_to_wire x =
     JDict ([(''code'', JInt (code x)), (''message'', JStr (message x))] @ value_pair ''data'' (error_data x))"

definition JsonRpcError_from_wire :: "json \<Rightarrow> json_rpc_error outcome_of" where
  "JsonRpcError_from_wire v =
     and_then (req ''code'' to_int v) (\<lambda>c.
     and_then (req ''message'' to_str v) (\<lambda>m.
     and_then (get_value ''data'' v) (\<lambda>d. Inr \<lparr>code = c, message = m, error_data = d\<rparr>)))"

interpretation JsonRpcError: wire_field json_rpc_error_to_wire JsonRpcError_from_wire "\<lambda>_. True"
proof unfold_locales
  fix x
  show "JsonRpcError_from_wire (json_rpc_error_to_wire x) = Inr x"
    by (cases x) (simp add: JsonRpcError_from_wire_def json_rpc_error_to_wire_def)
qed (simp_all add: json_rpc_error_to_wire_def)

datatype 'r response_outcome =
    ResponseResult 'r
  | ResponseError json_rpc_error

record 'r json_rpc_response =
  id_value :: json_rpc_id
  outcome :: "'r response_outcome"
  session_id :: "string option"

definition ok_response :: "json_rpc_id \<Rightarrow> 'r \<Rightarrow> string option \<Rightarrow> 'r json_rpc_response" where
  "ok_response i r s = \<lparr>id_value = i, outcome = ResponseResult r, session_id = s\<rparr>"

definition err_response :: "json_rpc_id \<Rightarrow> json_rpc_error \<Rightarrow> string option \<Rightarrow> 'r json_rpc_response" where
  "err_response i e s = \<lparr>id_value = i, outcome = ResponseError e, session_id = s\<rparr>"

definition with_session :: "string \<Rightarrow> 'r json_rpc_response \<Rightarrow> 'r json_rpc_response" where
  "with_session s x = x\<lparr>session_id := Some s\<rparr>"

definition json_rpc_response_to_wire :: "('r \<Rightarrow> json) \<Rightarrow> 'r json_rpc_response \<Rightarrow> json" where
  "json_rpc_response_to_wire enc x =
     JDict ([(''jsonrpc'', json_rpc_version_to_wire JsonRpcVersion), (''id'', json_rpc_id_to_wire (id_value x))] @
       opt_pair ''session_id'' JStr (session_id x) @
       (case outcome x of
          ResponseResult r \<Rightarrow> [(''result'', enc r)]
        | ResponseError e \<Rightarrow> [(''error'', json_rpc_error_to_wire e)]))"

definition JsonRpcResponse_from_wire :: "json \<Rightarrow> json json_rpc_response outcome_of" where
  "JsonRpcResponse_from_wire v =
     and_then (req ''jsonrpc'' JsonRpcVersion_from_wire v) (\<lambda>jsonrpc.
     and_then (req ''id'' jsonrpc_id_from_wire v) (\<lambda>i.
     and_then (get_value ''result'' v) (\<lambda>result.
     and_then (get_value ''error'' v) (\<lambda>error.
     if result \<noteq> JNull \<and> error \<noteq> JNull then Inl ValueError
     else if result = JNull \<and> error = JNull then Inl ValueError
     else
       and_then (if result \<noteq> JNull then Inr (ResponseResult result)
                 else and_then (JsonRpcError_from_wire error) (\<lambda>e. Inr (ResponseError e))) (\<lambda>out.
       and_then (opt_present ''session_id'' (str_then SessionId) v) (\<lambda>s.
       Inr \<lparr>id_value = i, outcome = out, session_id = s\<rparr>))))))"

definition json_rpc_response_ok :: "'r json_rpc_response \<Rightarrow> bool" where
  "json_rpc_response_ok x \<longleftrightarrow> json_rpc_id_ok (id_value x) \<and> pred_option nonempty (session_id x)"

fun sent_outcome :: "('r \<Rightarrow> json) \<Rightarrow> 'r response_outcome \<Rightarrow> json response_outcome" where
  "sent_outcome enc (ResponseResult r) = ResponseResult (enc r)"
| "sent_outcome enc (ResponseError e) = ResponseError e"

lemma response_back:
  assumes "json_rpc_response_ok x"
  shows "JsonRpcResponse_from_wire (json_rpc_response_to_wire enc x) =
     (if sent_outcome enc (outcome x) = ResponseResult JNull then Inl ValueError
      else Inr \<lparr>id_value = id_value x, outcome = sent_outcome enc (outcome x), session_id = session_id x\<rparr>)"
  using assms
  by (cases "outcome x") (auto simp: JsonRpcResponse_from_wire_def json_rpc_response_to_wire_def json_rpc_response_ok_def)

section \<open>Properties\<close>

text \<open>
  C21: Whatever its payload, a request, a notification and a response whose number identifier is a
  64-bit integer and whose session and sequence number are well-formed read back as they were sent,
  the payload as its JSON form. The one exception is a successful response with a null result: it is
  written with \<open>result: null\<close>, and the reader refuses it as a response with neither result nor error.
\<close>

theorem envelopes_roundtrip:
  assumes "json_rpc_request_ok r" and "json_rpc_notification_ok n" and "json_rpc_response_ok x"
  shows "JsonRpcRequest_from_wire (json_rpc_request_to_wire enc r) =
           Inr (received_request enc r)
       \<and> JsonRpcNotification_from_wire (json_rpc_notification_to_wire enc n) =
           Inr (received_notification enc n)
       \<and> JsonRpcResponse_from_wire (json_rpc_response_to_wire enc x) =
           (if sent_outcome enc (outcome x) = ResponseResult JNull then Inl ValueError
            else Inr \<lparr>id_value = id_value x, outcome = sent_outcome enc (outcome x), session_id = session_id x\<rparr>)"
  using request_back [OF assms(1)] notification_back [OF assms(2)] response_back [OF assms(3)] by blast

text \<open>The call with identifier 7 succeeds without a value: its response cannot be read.\<close>

theorem envelopes_roundtrip_witness:
  "JsonRpcResponse_from_wire (json_rpc_response_to_wire (\<lambda>v. v) (ok_response (JsonRpcIdNumber 7) JNull (Some ''s1'')))
     = Inl ValueError
   \<and> JsonRpcResponse_from_wire (json_rpc_response_to_wire (\<lambda>v. v) (ok_response (JsonRpcIdNumber 7) (JBool False) None))
     = Inr (ok_response (JsonRpcIdNumber 7) (JBool False) None)"
proof -
  define r :: "json json_rpc_request" where "r = json_rpc_request.make (JsonRpcIdNumber 7) ''ping'' JNull None"
  define n :: "json json_rpc_notification" where "n = json_rpc_notification.make ''hook'' JNull None (Some 0)"
  have ok: "json_rpc_request_ok r" "json_rpc_notification_ok n"
    by (simp_all add: r_def n_def json_rpc_request.defs json_rpc_notification.defs json_rpc_request_ok_def json_rpc_notification_ok_def natural_def I64_MIN_def I64_MAX_def)
  have "json_rpc_response_ok (ok_response (JsonRpcIdNumber 7) JNull (Some ''s1''))"
    and "json_rpc_response_ok (ok_response (JsonRpcIdNumber 7) (JBool False) None)"
    by (simp_all add: json_rpc_response_ok_def ok_response_def nonempty_def I64_MIN_def I64_MAX_def)
  from envelopes_roundtrip [OF ok this(1), of "\<lambda>v. v"] envelopes_roundtrip [OF ok this(2), of "\<lambda>v. v"] show ?thesis
    by (simp add: ok_response_def)
qed

section \<open>Overload response\<close>

definition TOOL_BUSY_CODE :: int where "TOOL_BUSY_CODE = -32016"

definition TOOL_BUSY_MESSAGE :: string where "TOOL_BUSY_MESSAGE = ''tool server busy; tool call rejected''"

definition overloaded_response :: "json_rpc_id \<Rightarrow> string \<Rightarrow> json json_rpc_response" where
  "overloaded_response i s =
     \<lparr>id_value = i,
      outcome = ResponseError \<lparr>code = TOOL_BUSY_CODE, message = TOOL_BUSY_MESSAGE,
        error_data = JDict [(''code'', JStr ''tool_busy''), (''retryable'', JBool True)]\<rparr>,
      session_id = Some s\<rparr>"

lemma overloaded_response_read:
  "json_rpc_id_ok i \<Longrightarrow> s \<noteq> [] \<Longrightarrow>
     JsonRpcResponse_from_wire (json_rpc_response_to_wire (\<lambda>v. v) (overloaded_response i s)) = Inr (overloaded_response i s)"
  by (simp add: response_back json_rpc_response_ok_def overloaded_response_def nonempty_def)

end
