(* ===== verification/Tool_Errors.thy ===== *)
theory Tool_Errors
  imports Envelope
begin

text \<open>
  The errors of tool calls on their way through the hub: the wire form of a tool error
  (\<open>tool_protocol/error_wire.py\<close>), the numeric codes and the workspace-gone details
  (\<open>error_codes.py\<close>), registry errors (\<open>registry_error.py\<close>), the runtime error of a tool
  (\<open>tool_runtime/error.py\<close>) and its reconstruction by the client
  (\<open>computer_hub_core/remote.py\<close>). The reader of a wire error keeps the fields as JSON values and
  checks identifiers only when they are strings, so the fields of the model are JSON values. A
  chained exception (\<open>source\<close>) is not modelled.
\<close>

section \<open>Wire errors\<close>

datatype tool_error_wire =
    ToolNotFoundWire json
  | SessionMismatchWire
  | PermissionDeniedWire json
  | TransportClosedWire json
  | TimeoutWire json json
  | CancelledWire json
  | InvalidArgumentsWire json json
  | ExecutionWire json json
  | UnsupportedProtocolVersionWire json
  | PayloadTooLargeWire json json
  | BehaviorVersionUnsupportedWire json json
  | RenderLimitedWire json json json
  | TerminalErrorWire json json
  | InternalWire json json
  | CustomWire json json json

text \<open>The class attribute \<open>code\<close> and the fields in the order of the dataclass.\<close>

fun wire_code :: "tool_error_wire \<Rightarrow> string" where
  "wire_code (ToolNotFoundWire a) = ''tool_not_found''"
| "wire_code SessionMismatchWire = ''session_mismatch''"
| "wire_code (PermissionDeniedWire a) = ''forbidden''"
| "wire_code (TransportClosedWire a) = ''connection_lost''"
| "wire_code (TimeoutWire a b) = ''timeout''"
| "wire_code (CancelledWire a) = ''cancelled''"
| "wire_code (InvalidArgumentsWire a b) = ''invalid_params''"
| "wire_code (ExecutionWire a b) = ''execution''"
| "wire_code (UnsupportedProtocolVersionWire a) = ''unsupported_protocol_version''"
| "wire_code (PayloadTooLargeWire a b) = ''frame_too_large''"
| "wire_code (BehaviorVersionUnsupportedWire a b) = ''behavior_version_unsupported''"
| "wire_code (RenderLimitedWire a b c) = ''render_limited''"
| "wire_code (TerminalErrorWire a b) = ''terminal_error''"
| "wire_code (InternalWire a b) = ''internal_error''"
| "wire_code (CustomWire a b c) = ''custom''"

fun wire_fields :: "tool_error_wire \<Rightarrow> (string \<times> json) list" where
  "wire_fields (ToolNotFoundWire a) = [(''tool_id'', a)]"
| "wire_fields SessionMismatchWire = []"
| "wire_fields (PermissionDeniedWire a) = [(''reason'', a)]"
| "wire_fields (TransportClosedWire a) = [(''tool_id'', a)]"
| "wire_fields (TimeoutWire a b) = [(''tool_id'', a), (''elapsed_ms'', b)]"
| "wire_fields (CancelledWire a) = [(''tool_id'', a)]"
| "wire_fields (InvalidArgumentsWire a b) = [(''message'', a), (''details'', b)]"
| "wire_fields (ExecutionWire a b) = [(''tool_id'', a), (''message'', b)]"
| "wire_fields (UnsupportedProtocolVersionWire a) = [(''supported'', a)]"
| "wire_fields (PayloadTooLargeWire a b) = [(''bytes'', a), (''limit'', b)]"
| "wire_fields (BehaviorVersionUnsupportedWire a b) = [(''tool_id'', a), (''requested'', b)]"
| "wire_fields (RenderLimitedWire a b c) = [(''tool_id'', a), (''reason'', b), (''card_id'', c)]"
| "wire_fields (TerminalErrorWire a b) = [(''tool_id'', a), (''message'', b)]"
| "wire_fields (InternalWire a b) = [(''request_id'', a), (''detail'', b)]"
| "wire_fields (CustomWire a b c) = [(''subcode'', a), (''message'', b), (''details'', c)]"

definition tool_error_wire_to_wire :: "tool_error_wire \<Rightarrow> json" where
  "tool_error_wire_to_wire e =
     JDict ((''code'', JStr (wire_code e)) # concat (map (\<lambda>p. value_pair (fst p) (snd p)) (wire_fields e)))"

text \<open>\<open>_coerce_field\<close>: a string in an identifier field is checked, everything else is kept.\<close>

fun coerce_field :: "(string \<Rightarrow> string outcome_of) option \<Rightarrow> json \<Rightarrow> json outcome_of" where
  "coerce_field (Some f) (JStr s) = and_then (f s) (\<lambda>t. Inr (JStr t))"
| "coerce_field _ v = Inr v"

fun field_val :: "(string \<Rightarrow> string outcome_of) option \<Rightarrow> json option \<Rightarrow> json option outcome_of" where
  "field_val f None = Inr None"
| "field_val f (Some v) = and_then (coerce_field f v) (\<lambda>w. Inr (Some w))"

definition field :: "(string \<Rightarrow> string outcome_of) option \<Rightarrow> string \<Rightarrow> json \<Rightarrow> json option outcome_of" where
  "field f k data =
     and_then (has_item k data) (\<lambda>b.
     if b then and_then (item k data) (\<lambda>v. field_val f (Some v)) else Inr None)"

text \<open>A missing argument of the constructor.\<close>

definition given :: "json option \<Rightarrow> json outcome_of" where
  "given v = (case v of None \<Rightarrow> Inl TypeError | Some w \<Rightarrow> Inr w)"

definition error_wire_from_wire :: "json \<Rightarrow> tool_error_wire outcome_of" where
  "error_wire_from_wire data =
     and_then (req ''code'' to_str data) (\<lambda>code.
     if code = ''tool_not_found'' then
       and_then (field (Some ToolId) ''tool_id'' data) (\<lambda>a.
       and_then (given a) (\<lambda>a.
       Inr (ToolNotFoundWire a)))
     else if code = ''session_mismatch'' then
       Inr SessionMismatchWire
     else if code = ''forbidden'' then
       and_then (field None ''reason'' data) (\<lambda>a.
       and_then (given a) (\<lambda>a.
       Inr (PermissionDeniedWire a)))
     else if code = ''connection_lost'' then
       and_then (field (Some ToolId) ''tool_id'' data) (\<lambda>a.
       and_then (given a) (\<lambda>a.
       Inr (TransportClosedWire a)))
     else if code = ''timeout'' then
       and_then (field (Some ToolId) ''tool_id'' data) (\<lambda>a.
       and_then (field None ''elapsed_ms'' data) (\<lambda>b.
       and_then (given a) (\<lambda>a.
       and_then (given b) (\<lambda>b.
       Inr (TimeoutWire a b)))))
     else if code = ''cancelled'' then
       and_then (field (Some ToolId) ''tool_id'' data) (\<lambda>a.
       and_then (given a) (\<lambda>a.
       Inr (CancelledWire a)))
     else if code = ''invalid_params'' then
       and_then (field None ''message'' data) (\<lambda>a.
       and_then (field None ''details'' data) (\<lambda>b.
       and_then (given a) (\<lambda>a.
       Inr (InvalidArgumentsWire a (raw_value b)))))
     else if code = ''execution'' then
       and_then (field (Some ToolId) ''tool_id'' data) (\<lambda>a.
       and_then (field None ''message'' data) (\<lambda>b.
       and_then (given a) (\<lambda>a.
       and_then (given b) (\<lambda>b.
       Inr (ExecutionWire a b)))))
     else if code = ''unsupported_protocol_version'' then
       and_then (field None ''supported'' data) (\<lambda>a.
       and_then (given a) (\<lambda>a.
       Inr (UnsupportedProtocolVersionWire a)))
     else if code = ''frame_too_large'' then
       and_then (field None ''bytes'' data) (\<lambda>a.
       and_then (field None ''limit'' data) (\<lambda>b.
       and_then (given a) (\<lambda>a.
       and_then (given b) (\<lambda>b.
       Inr (PayloadTooLargeWire a b)))))
     else if code = ''behavior_version_unsupported'' then
       and_then (field (Some ToolId) ''tool_id'' data) (\<lambda>a.
       and_then (field None ''requested'' data) (\<lambda>b.
       and_then (given a) (\<lambda>a.
       and_then (given b) (\<lambda>b.
       Inr (BehaviorVersionUnsupportedWire a b)))))
     else if code = ''render_limited'' then
       and_then (field (Some ToolId) ''tool_id'' data) (\<lambda>a.
       and_then (field None ''reason'' data) (\<lambda>b.
       and_then (field None ''card_id'' data) (\<lambda>c.
       and_then (given a) (\<lambda>a.
       and_then (given b) (\<lambda>b.
       Inr (RenderLimitedWire a b (raw_value c)))))))
     else if code = ''terminal_error'' then
       and_then (field (Some ToolId) ''tool_id'' data) (\<lambda>a.
       and_then (field None ''message'' data) (\<lambda>b.
       and_then (given a) (\<lambda>a.
       and_then (given b) (\<lambda>b.
       Inr (TerminalErrorWire a b)))))
     else if code = ''internal_error'' then
       and_then (field (Some RequestId) ''request_id'' data) (\<lambda>a.
       and_then (field None ''detail'' data) (\<lambda>b.
       Inr (InternalWire (raw_value a) (raw_value b))))
     else if code = ''custom'' then
       and_then (field None ''subcode'' data) (\<lambda>a.
       and_then (field None ''message'' data) (\<lambda>b.
       and_then (field None ''details'' data) (\<lambda>c.
       and_then (given a) (\<lambda>a.
       and_then (given b) (\<lambda>b.
       Inr (CustomWire a b (raw_value c)))))))
     else Inl ValueError)"

text \<open>Well-formed wire errors: string identifiers are valid, and no required field is None.\<close>

fun id_value_ok :: "(string \<Rightarrow> bool) \<Rightarrow> json \<Rightarrow> bool" where
  "id_value_ok ok (JStr s) = ok s"
| "id_value_ok ok v = True"

fun tool_error_wire_ok :: "tool_error_wire \<Rightarrow> bool" where
  "tool_error_wire_ok (ToolNotFoundWire a) = (id_value_ok valid_tool_id a \<and> a \<noteq> JNull)"
| "tool_error_wire_ok SessionMismatchWire = True"
| "tool_error_wire_ok (PermissionDeniedWire a) = (a \<noteq> JNull)"
| "tool_error_wire_ok (TransportClosedWire a) = (id_value_ok valid_tool_id a \<and> a \<noteq> JNull)"
| "tool_error_wire_ok (TimeoutWire a b) = (id_value_ok valid_tool_id a \<and> a \<noteq> JNull \<and> b \<noteq> JNull)"
| "tool_error_wire_ok (CancelledWire a) = (id_value_ok valid_tool_id a \<and> a \<noteq> JNull)"
| "tool_error_wire_ok (InvalidArgumentsWire a b) = (a \<noteq> JNull)"
| "tool_error_wire_ok (ExecutionWire a b) = (id_value_ok valid_tool_id a \<and> a \<noteq> JNull \<and> b \<noteq> JNull)"
| "tool_error_wire_ok (UnsupportedProtocolVersionWire a) = (a \<noteq> JNull)"
| "tool_error_wire_ok (PayloadTooLargeWire a b) = (a \<noteq> JNull \<and> b \<noteq> JNull)"
| "tool_error_wire_ok (BehaviorVersionUnsupportedWire a b) = (id_value_ok valid_tool_id a \<and> a \<noteq> JNull \<and> b \<noteq> JNull)"
| "tool_error_wire_ok (RenderLimitedWire a b c) = (id_value_ok valid_tool_id a \<and> a \<noteq> JNull \<and> b \<noteq> JNull)"
| "tool_error_wire_ok (TerminalErrorWire a b) = (id_value_ok valid_tool_id a \<and> a \<noteq> JNull \<and> b \<noteq> JNull)"
| "tool_error_wire_ok (InternalWire a b) = (id_value_ok nonempty a)"
| "tool_error_wire_ok (CustomWire a b c) = (a \<noteq> JNull \<and> b \<noteq> JNull)"

lemma field_JDict [simp]: "field f k (JDict ps) = field_val f (map_of ps k)"
  by (cases "map_of ps k") (simp_all add: field_def)

lemma field_val_written [simp]: "coerce_field f v = Inr v \<Longrightarrow> field_val f (value_opt v) = Inr (value_opt v)"
  by (simp add: value_opt_def)

lemma given_written [simp]: "v \<noteq> JNull \<Longrightarrow> given (value_opt v) = Inr v"
  by (simp add: given_def value_opt_def)

lemma coerce_None [simp]: "coerce_field None v = Inr v"
  by (cases v) simp_all

lemma coerce_ok [simp]:
  "id_value_ok valid_tool_id v \<Longrightarrow> coerce_field (Some ToolId) v = Inr v"
  "id_value_ok nonempty v \<Longrightarrow> coerce_field (Some RequestId) v = Inr v"
  by (cases v; simp add: id_Inr)+

lemma error_wire_back:
  "tool_error_wire_ok e \<Longrightarrow> error_wire_from_wire (tool_error_wire_to_wire e) = Inr e"
  by (cases e) (simp_all add: tool_error_wire_to_wire_def error_wire_from_wire_def)

section \<open>Numeric codes\<close>

definition ERROR_CODES :: "(int \<times> string) list" where
  "ERROR_CODES =
   [(- 32700, ''parse_error''),
    (- 32600, ''invalid_request''),
    (- 32601, ''method_not_found''),
    (- 32602, ''invalid_params''),
    (- 32603, ''internal_error''),
    (- 32605, ''unsupported_protocol_version''),
    (- 32001, ''timeout''),
    (- 32002, ''unauthorized''),
    (- 32003, ''forbidden''),
    (- 32004, ''connection_lost''),
    (- 32005, ''tool_server_gone''),
    (- 32006, ''session_not_found''),
    (- 32008, ''session_draining''),
    (- 32011, ''tool_not_found''),
    (- 32012, ''tool_already_registered''),
    (- 32013, ''tool_unavailable''),
    (- 32014, ''stale_generation''),
    (- 32015, ''duplicate_client_name''),
    (- 32016, ''tool_busy''),
    (- 32017, ''notification_schema_violation''),
    (- 32018, ''frame_too_large''),
    (- 32019, ''schema_unknown_kind''),
    (- 32020, ''behavior_version_unsupported''),
    (- 32021, ''server_id_in_use''),
    (- 32022, ''invalid_description''),
    (- 32023, ''render_limited''),
    (- 32024, ''terminal_error''),
    (- 32099, ''rate_limited'')]"

fun first_numeric :: "(int \<times> string) list \<Rightarrow> string \<Rightarrow> int option" where
  "first_numeric [] s = None"
| "first_numeric ((n, t) # ps) s = (if t = s then Some n else first_numeric ps s)"

definition numeric_for :: "string \<Rightarrow> int option" where
  "numeric_for s = first_numeric ERROR_CODES s"

fun first_string :: "(int \<times> string) list \<Rightarrow> int \<Rightarrow> string option" where
  "first_string [] n = None"
| "first_string ((m, t) # ps) n = (if m = n then Some t else first_string ps n)"

definition string_for :: "int \<Rightarrow> string option" where
  "string_for n = first_string ERROR_CODES n"

definition VARIANT_CODE_TO_NUMERIC :: "(string \<times> int) list" where
  "VARIANT_CODE_TO_NUMERIC =
   [(''tool_not_found'', - 32011),
    (''session_mismatch'', - 32600),
    (''forbidden'', - 32003),
    (''connection_lost'', - 32004),
    (''timeout'', - 32001),
    (''cancelled'', - 32603),
    (''invalid_params'', - 32602),
    (''execution'', - 32603),
    (''unsupported_protocol_version'', - 32605),
    (''frame_too_large'', - 32018),
    (''behavior_version_unsupported'', - 32020),
    (''internal_error'', - 32603),
    (''render_limited'', - 32023),
    (''terminal_error'', - 32024),
    (''custom'', - 32603)]"

definition from_tool_error_wire :: "tool_error_wire \<Rightarrow> int outcome_of" where
  "from_tool_error_wire e =
     (case map_of VARIANT_CODE_TO_NUMERIC (wire_code e) of None \<Rightarrow> Inl (KeyError (wire_code e)) | Some n \<Rightarrow> Inr n)"

section \<open>Workspace gone\<close>

definition WORKSPACE_UNAVAILABLE_SUBCODE :: string where
  "WORKSPACE_UNAVAILABLE_SUBCODE = ''workspace_unavailable''"

definition WORKSPACE_UNAVAILABLE_MESSAGE :: string where
  "WORKSPACE_UNAVAILABLE_MESSAGE = ''workspace server gone; re-provision and retry''"

definition WORKSPACE_UNAVAILABLE_JSONRPC_CODE :: int where
  "WORKSPACE_UNAVAILABLE_JSONRPC_CODE = - 32005"

datatype workspace_gone_reason = IdleTimeout | Disconnect | Shutdown | NotBound | InstanceGone | Unknown

fun workspace_gone_reason_value :: "workspace_gone_reason \<Rightarrow> string" where
  "workspace_gone_reason_value IdleTimeout = ''idle_timeout''"
| "workspace_gone_reason_value Disconnect = ''disconnect''"
| "workspace_gone_reason_value Shutdown = ''shutdown''"
| "workspace_gone_reason_value NotBound = ''not_bound''"
| "workspace_gone_reason_value InstanceGone = ''instance_gone''"
| "workspace_gone_reason_value Unknown = ''unknown''"

definition WorkspaceGoneReason_from_wire :: "string \<Rightarrow> workspace_gone_reason outcome_of" where
  "WorkspaceGoneReason_from_wire = member_or Unknown workspace_gone_reason_value [IdleTimeout, Disconnect, Shutdown, NotBound, InstanceGone, Unknown]"

interpretation WorkspaceGoneReason: wire_field "\<lambda>x. JStr (workspace_gone_reason_value x)" "str_then WorkspaceGoneReason_from_wire" "\<lambda>_. True"
proof unfold_locales
  fix x :: workspace_gone_reason
  show "str_then WorkspaceGoneReason_from_wire (JStr (workspace_gone_reason_value x)) = Inr x" by (cases x) (simp_all add: str_then_JStr WorkspaceGoneReason_from_wire_def member_or_def)
qed simp_all

datatype workspace_gone_phase = InFlightCancelled | RouteMissing | Attach | Unknown

fun workspace_gone_phase_value :: "workspace_gone_phase \<Rightarrow> string" where
  "workspace_gone_phase_value InFlightCancelled = ''in_flight_cancelled''"
| "workspace_gone_phase_value RouteMissing = ''route_missing''"
| "workspace_gone_phase_value Attach = ''attach''"
| "workspace_gone_phase_value Unknown = ''unknown''"

definition WorkspaceGonePhase_from_wire :: "string \<Rightarrow> workspace_gone_phase outcome_of" where
  "WorkspaceGonePhase_from_wire = member_or Unknown workspace_gone_phase_value [InFlightCancelled, RouteMissing, Attach, Unknown]"

interpretation WorkspaceGonePhase: wire_field "\<lambda>x. JStr (workspace_gone_phase_value x)" "str_then WorkspaceGonePhase_from_wire" "\<lambda>_. True"
proof unfold_locales
  fix x :: workspace_gone_phase
  show "str_then WorkspaceGonePhase_from_wire (JStr (workspace_gone_phase_value x)) = Inr x" by (cases x) (simp_all add: str_then_JStr WorkspaceGonePhase_from_wire_def member_or_def)
qed simp_all

record workspace_unavailable_details =
  sub_code :: string
  reason :: workspace_gone_reason
  phase :: workspace_gone_phase
  retryable :: bool

definition workspace_unavailable_details_to_wire :: "workspace_unavailable_details \<Rightarrow> json" where
  "workspace_unavailable_details_to_wire x =
     JDict [(''code'', JStr (sub_code x)), (''reason'', JStr (workspace_gone_reason_value (reason x))),
      (''phase'', JStr (workspace_gone_phase_value (phase x))), (''retryable'', JBool (retryable x))]"

definition WorkspaceUnavailableDetails_from_wire :: "json \<Rightarrow> workspace_unavailable_details outcome_of" where
  "WorkspaceUnavailableDetails_from_wire data =
     and_then (req ''code'' to_str data) (\<lambda>c.
     and_then (req ''reason'' (str_then WorkspaceGoneReason_from_wire) data) (\<lambda>r.
     and_then (req ''phase'' (str_then WorkspaceGonePhase_from_wire) data) (\<lambda>p.
     and_then (req ''retryable'' to_bool data) (\<lambda>b.
     Inr \<lparr>sub_code = c, reason = r, phase = p, retryable = b\<rparr>))))"

interpretation WorkspaceUnavailableDetails:
  wire_field workspace_unavailable_details_to_wire WorkspaceUnavailableDetails_from_wire "\<lambda>_. True"
proof unfold_locales
  fix x
  show "WorkspaceUnavailableDetails_from_wire (workspace_unavailable_details_to_wire x) = Inr x"
    by (cases x) (simp add: WorkspaceUnavailableDetails_from_wire_def workspace_unavailable_details_to_wire_def)
qed (simp_all add: workspace_unavailable_details_to_wire_def)

definition workspace_unavailable_wire :: "workspace_gone_reason \<Rightarrow> workspace_gone_phase \<Rightarrow> tool_error_wire" where
  "workspace_unavailable_wire r p =
     CustomWire (JStr WORKSPACE_UNAVAILABLE_SUBCODE) (JStr WORKSPACE_UNAVAILABLE_MESSAGE)
       (workspace_unavailable_details_to_wire
         \<lparr>sub_code = WORKSPACE_UNAVAILABLE_SUBCODE, reason = r, phase = p, retryable = True\<rparr>)"

section \<open>Registry errors\<close>

datatype registry_error =
    AlreadyRegistered string
  | RegistrySessionMismatch string string
  | ServerIdCollision string
  | ServerIdInUse string
  | InvalidDescription string
  | StaleGeneration int int

fun registry_error_to_wire :: "registry_error \<Rightarrow> json" where
  "registry_error_to_wire (AlreadyRegistered t) =
     JDict [(''code'', JStr ''tool_already_registered''), (''tool_id'', JStr t)]"
| "registry_error_to_wire (RegistrySessionMismatch s r) =
     JDict [(''code'', JStr ''session_mismatch''), (''token_session'', JStr s), (''reg_session'', JStr r)]"
| "registry_error_to_wire (ServerIdCollision s) =
     JDict [(''code'', JStr ''server_id_collision''), (''server_id'', JStr s)]"
| "registry_error_to_wire (ServerIdInUse s) = JDict [(''code'', JStr ''server_id_in_use''), (''server_id'', JStr s)]"
| "registry_error_to_wire (InvalidDescription m) =
     JDict [(''code'', JStr ''invalid_description''), (''message'', JStr m)]"
| "registry_error_to_wire (StaleGeneration x a) =
     JDict [(''code'', JStr ''stale_generation''), (''expected'', JInt x), (''actual'', JInt a)]"

definition registry_error_from_wire :: "json \<Rightarrow> registry_error outcome_of" where
  "registry_error_from_wire data =
     and_then (req ''code'' to_str data) (\<lambda>tag.
     if tag = ''tool_already_registered'' then
       and_then (req ''tool_id'' (str_then ToolId) data) (\<lambda>t. Inr (AlreadyRegistered t))
     else if tag = ''session_mismatch'' then
       and_then (req ''token_session'' (str_then SessionId) data) (\<lambda>s.
       and_then (req ''reg_session'' (str_then SessionId) data) (\<lambda>r. Inr (RegistrySessionMismatch s r)))
     else if tag = ''server_id_collision'' then
       and_then (req ''server_id'' (str_then ServerId) data) (\<lambda>s. Inr (ServerIdCollision s))
     else if tag = ''server_id_in_use'' then
       and_then (req ''server_id'' (str_then ServerId) data) (\<lambda>s. Inr (ServerIdInUse s))
     else if tag = ''invalid_description'' then
       and_then (req ''message'' to_str data) (\<lambda>m. Inr (InvalidDescription m))
     else if tag = ''stale_generation'' then
       and_then (req ''expected'' to_int data) (\<lambda>x.
       and_then (req ''actual'' to_int data) (\<lambda>a. Inr (StaleGeneration x a)))
     else Inl ValueError)"

fun registry_error_ok :: "registry_error \<Rightarrow> bool" where
  "registry_error_ok (AlreadyRegistered t) = valid_tool_id t"
| "registry_error_ok (RegistrySessionMismatch s r) = (nonempty s \<and> nonempty r)"
| "registry_error_ok (ServerIdCollision s) = valid_server_id s"
| "registry_error_ok (ServerIdInUse s) = valid_server_id s"
| "registry_error_ok (InvalidDescription m) = True"
| "registry_error_ok (StaleGeneration x a) = True"

interpretation RegistryError: wire_object registry_error_to_wire registry_error_from_wire registry_error_ok
proof unfold_locales
  fix x
  show "registry_error_from_wire (registry_error_to_wire x) = Inr x" if "registry_error_ok x"
    using that by (cases x) (simp_all add: registry_error_from_wire_def)
  show "registry_error_to_wire x \<noteq> JNull" by (cases x) simp_all
qed

section \<open>Runtime errors\<close>

datatype tool_error_kind =
    NOT_IMPLEMENTED
  | INVALID_ARGUMENTS
  | NOT_FOUND
  | PERMISSION_DENIED
  | UNAUTHORIZED
  | TIMEOUT
  | CANCELLED
  | RATE_LIMITED
  | USAGE_POOL_EXHAUSTED
  | USAGE_LIMIT_REACHED
  | GLOBAL_RATE_LIMIT
  | CONCURRENCY_LIMIT
  | SERVICE_UNAVAILABLE
  | NETWORK_ERROR
  | EXECUTION
  | BEHAVIOR_VERSION_UNSUPPORTED
  | RENDER_LIMITED
  | TERMINAL_ERROR
  | CUSTOM

fun kind_value :: "tool_error_kind \<Rightarrow> string" where
  "kind_value NOT_IMPLEMENTED = ''not_implemented''"
| "kind_value INVALID_ARGUMENTS = ''invalid_arguments''"
| "kind_value NOT_FOUND = ''not_found''"
| "kind_value PERMISSION_DENIED = ''permission_denied''"
| "kind_value UNAUTHORIZED = ''unauthorized''"
| "kind_value TIMEOUT = ''timeout''"
| "kind_value CANCELLED = ''cancelled''"
| "kind_value RATE_LIMITED = ''rate_limited''"
| "kind_value USAGE_POOL_EXHAUSTED = ''usage_pool_exhausted''"
| "kind_value USAGE_LIMIT_REACHED = ''usage_limit_reached''"
| "kind_value GLOBAL_RATE_LIMIT = ''global_rate_limit''"
| "kind_value CONCURRENCY_LIMIT = ''concurrency_limit''"
| "kind_value SERVICE_UNAVAILABLE = ''service_unavailable''"
| "kind_value NETWORK_ERROR = ''network_error''"
| "kind_value EXECUTION = ''execution''"
| "kind_value BEHAVIOR_VERSION_UNSUPPORTED = ''behavior_version_unsupported''"
| "kind_value RENDER_LIMITED = ''render_limited''"
| "kind_value TERMINAL_ERROR = ''terminal_error''"
| "kind_value CUSTOM = ''custom''"

record tool_error =
  kind :: tool_error_kind
  detail :: json
  details :: json

definition detail_get :: "json \<Rightarrow> string \<Rightarrow> json" where
  "detail_get ds k = (case ds of JDict d \<Rightarrow> raw_value (map_of d k) | _ \<Rightarrow> JNull)"

definition tool_id_from_details :: "json \<Rightarrow> string" where
  "tool_id_from_details ds =
     (case detail_get ds ''tool_id'' of
        JStr s \<Rightarrow> (case ToolId s of Inr t \<Rightarrow> t | Inl e \<Rightarrow> ''unknown'')
      | _ \<Rightarrow> ''unknown'')"

definition int_from_details :: "json \<Rightarrow> string \<Rightarrow> int \<Rightarrow> int" where
  "int_from_details ds k d = (case detail_get ds k of JInt i \<Rightarrow> i | _ \<Rightarrow> d)"

definition str_from_details :: "json \<Rightarrow> string \<Rightarrow> string \<Rightarrow> string" where
  "str_from_details ds k d = (case detail_get ds k of JStr s \<Rightarrow> s | _ \<Rightarrow> d)"

definition optional_str_from_details :: "json \<Rightarrow> string \<Rightarrow> json" where
  "optional_str_from_details ds k = (case detail_get ds k of JStr s \<Rightarrow> JStr s | _ \<Rightarrow> JNull)"

definition custom_details_with_code :: "json \<Rightarrow> string \<Rightarrow> json" where
  "custom_details_with_code ds c =
     (case ds of
        JDict d \<Rightarrow> JDict (if map_of d ''code'' = None then d @ [(''code'', JStr c)] else d)
      | _ \<Rightarrow> ds)"

definition new_error :: "tool_error_kind \<Rightarrow> json \<Rightarrow> tool_error" where
  "new_error k d = \<lparr>kind = k, detail = d, details = JNull\<rparr>"

definition with_details :: "json \<Rightarrow> tool_error \<Rightarrow> tool_error" where
  "with_details ds e = e\<lparr>details := ds\<rparr>"

text \<open>An error of a tool: its details hold the text of the tool's identifier.\<close>

definition for_tool :: "tool_error_kind \<Rightarrow> json \<Rightarrow> json \<Rightarrow> tool_error outcome_of" where
  "for_tool k tool_id d =
     and_then (to_str tool_id) (\<lambda>t. Inr (with_details (JDict [(''tool_id'', JStr t)]) (new_error k d)))"

definition custom_error :: "json \<Rightarrow> json \<Rightarrow> tool_error" where
  "custom_error c d = with_details (JDict [(''code'', c)]) (new_error CUSTOM d)"

definition custom_wire :: "string \<Rightarrow> tool_error \<Rightarrow> tool_error_wire" where
  "custom_wire c e = CustomWire (JStr c) (detail e) (custom_details_with_code (details e) c)"

definition tool_error_to_wire :: "tool_error \<Rightarrow> tool_error_wire" where
  "tool_error_to_wire e =
     (let t = JStr (tool_id_from_details (details e)) in
      case kind e of
        NOT_IMPLEMENTED \<Rightarrow> custom_wire ''not_implemented'' e
      | INVALID_ARGUMENTS \<Rightarrow> InvalidArgumentsWire (detail e) (details e)
      | NOT_FOUND \<Rightarrow> ToolNotFoundWire t
      | PERMISSION_DENIED \<Rightarrow> PermissionDeniedWire (detail e)
      | UNAUTHORIZED \<Rightarrow> custom_wire ''unauthorized'' e
      | TIMEOUT \<Rightarrow> TimeoutWire t (JInt (int_from_details (details e) ''elapsed_ms'' 0))
      | CANCELLED \<Rightarrow> CancelledWire t
      | RATE_LIMITED \<Rightarrow> custom_wire ''rate_limited'' e
      | USAGE_POOL_EXHAUSTED \<Rightarrow> custom_wire ''usage_pool_exhausted'' e
      | USAGE_LIMIT_REACHED \<Rightarrow> custom_wire ''usage_limit_reached'' e
      | GLOBAL_RATE_LIMIT \<Rightarrow> custom_wire ''global_rate_limit'' e
      | CONCURRENCY_LIMIT \<Rightarrow> custom_wire ''concurrency_limit'' e
      | SERVICE_UNAVAILABLE \<Rightarrow> custom_wire ''service_unavailable'' e
      | NETWORK_ERROR \<Rightarrow> custom_wire ''network_error'' e
      | EXECUTION \<Rightarrow> ExecutionWire t (detail e)
      | BEHAVIOR_VERSION_UNSUPPORTED \<Rightarrow>
          BehaviorVersionUnsupportedWire t (JStr (str_from_details (details e) ''requested'' ''unknown''))
      | RENDER_LIMITED \<Rightarrow> RenderLimitedWire t (detail e) (optional_str_from_details (details e) ''card_id'')
      | TERMINAL_ERROR \<Rightarrow> TerminalErrorWire t (detail e)
      | CUSTOM \<Rightarrow> CustomWire (JStr (str_from_details (details e) ''code'' ''custom'')) (detail e) (details e))"

section \<open>Reconstruction by the client\<close>

text \<open>An f-string with one value in it.\<close>

definition fstring :: "string \<Rightarrow> json \<Rightarrow> string \<Rightarrow> json outcome_of" where
  "fstring before v after = and_then (to_str v) (\<lambda>s. Inr (JStr (before @ s @ after)))"

definition with_optional_details :: "json \<Rightarrow> tool_error \<Rightarrow> tool_error" where
  "with_optional_details ds e = (if ds = JNull then e else with_details ds e)"

fun tool_error_from_wire :: "tool_error_wire \<Rightarrow> tool_error outcome_of" where
  "tool_error_from_wire (InvalidArgumentsWire m ds) =
     Inr (with_optional_details ds (new_error INVALID_ARGUMENTS m))"
| "tool_error_from_wire (ToolNotFoundWire t) =
     and_then (fstring ''tool not found: '' t []) (for_tool NOT_FOUND t)"
| "tool_error_from_wire (PermissionDeniedWire r) = Inr (new_error PERMISSION_DENIED r)"
| "tool_error_from_wire (TimeoutWire t ms) =
     and_then (fstring ''timed out after '' ms ''ms'') (\<lambda>d.
     and_then (to_str t) (\<lambda>s.
     Inr (with_details (JDict [(''tool_id'', JStr s), (''elapsed_ms'', ms)]) (new_error TIMEOUT d))))"
| "tool_error_from_wire (CancelledWire t) = for_tool CANCELLED t (JStr ''cancelled'')"
| "tool_error_from_wire (ExecutionWire t m) = for_tool EXECUTION t m"
| "tool_error_from_wire (BehaviorVersionUnsupportedWire t r) =
     and_then (fstring ''behavior version '' r '' not supported'') (\<lambda>d.
     and_then (to_str t) (\<lambda>s.
     Inr (with_details (JDict [(''tool_id'', JStr s), (''requested'', r)]) (new_error BEHAVIOR_VERSION_UNSUPPORTED d))))"
| "tool_error_from_wire (RenderLimitedWire t r c) =
     and_then (to_str t) (\<lambda>s.
     Inr (with_details (JDict [(''tool_id'', JStr s), (''card_id'', c)]) (new_error RENDER_LIMITED r)))"
| "tool_error_from_wire (TerminalErrorWire t m) = for_tool TERMINAL_ERROR t m"
| "tool_error_from_wire (CustomWire c m ds) = Inr (with_optional_details ds (custom_error c m))"
| "tool_error_from_wire SessionMismatchWire =
     Inr (custom_error (JStr ''session_mismatch'') (JStr ''session mismatch''))"
| "tool_error_from_wire (TransportClosedWire t) =
     and_then (fstring ''transport closed for '' t []) (\<lambda>d. Inr (new_error NETWORK_ERROR d))"
| "tool_error_from_wire (UnsupportedProtocolVersionWire vs) =
     and_then (py_repr vs) (\<lambda>s.
     Inr (custom_error (JStr ''unsupported_protocol_version'') (JStr (''supported versions: '' @ s))))"
| "tool_error_from_wire (PayloadTooLargeWire n l) =
     and_then (to_str n) (\<lambda>s. and_then (to_str l) (\<lambda>t.
     Inr (custom_error (JStr ''payload_too_large'') (JStr (''payload '' @ s @ '' bytes exceeds limit '' @ t)))))"
| "tool_error_from_wire (InternalWire r d) =
     (let e = custom_error (JStr ''internal_error'') (if d \<noteq> JNull then d else JStr ''internal router error'') in
      if r = JNull then Inr e
      else and_then (to_str r) (\<lambda>s.
        Inr (with_details (JDict [(''code'', JStr ''internal_error''), (''request_id'', JStr s)]) e)))"

definition error_from_envelope :: "json_rpc_error \<Rightarrow> tool_error outcome_of" where
  "error_from_envelope err =
     (let e = custom_error (JStr (''jsonrpc_'' @ py_str_int (code err))) (JStr (message err));
          fallback = Inr (with_optional_details (error_data err) e)
      in case error_data err of
           JDict d \<Rightarrow>
             (case error_wire_from_wire (JDict d) of Inr wire \<Rightarrow> tool_error_from_wire wire | Inl _ \<Rightarrow> fallback)
         | _ \<Rightarrow> fallback)"

definition is_workspace_unavailable :: "tool_error \<Rightarrow> bool" where
  "is_workspace_unavailable err =
     (kind err = CUSTOM \<and>
      (case details err of
         JDict d \<Rightarrow> map_of d ''code'' = Some (JStr WORKSPACE_UNAVAILABLE_SUBCODE)
       | _ \<Rightarrow> False))"

section \<open>The server's side\<close>

text \<open>\<open>str(err)\<close>, which must be a string.\<close>

fun err_text :: "json \<Rightarrow> string outcome_of" where
  "err_text (JStr s) = Inr s"
| "err_text _ = Inl TypeError"

definition build_error_response :: "json_rpc_id \<Rightarrow> string \<Rightarrow> tool_error \<Rightarrow> json json_rpc_response outcome_of" where
  "build_error_response i s err =
     and_then (err_text (detail err)) (\<lambda>m.
     let wire = tool_error_to_wire err in
     and_then (from_tool_error_wire wire) (\<lambda>n.
     Inr (err_response i \<lparr>code = n, message = m, error_data = tool_error_wire_to_wire wire\<rparr> (Some s))))"

definition parse_tool_call_id :: "json \<Rightarrow> string option" where
  "parse_tool_call_id v =
     (case detail_get v ''params'' of
        JDict d \<Rightarrow>
          (case map_of d ''tool_call_id'' of
             Some (JStr s) \<Rightarrow> (case ToolCallId s of Inr t \<Rightarrow> Some t | Inl e \<Rightarrow> None)
           | _ \<Rightarrow> None)
      | _ \<Rightarrow> None)"

section \<open>Facts\<close>

lemma first_numeric_iff:
  "distinct (map snd ps) \<Longrightarrow> first_numeric ps s = Some n \<longleftrightarrow> (n, s) \<in> set ps"
  by (induction ps s rule: first_numeric.induct) force+

lemma first_string_iff:
  "distinct (map fst ps) \<Longrightarrow> first_string ps n = Some s \<longleftrightarrow> (n, s) \<in> set ps"
  by (induction ps n rule: first_string.induct) force+

lemma codes_distinct: "distinct (map fst ERROR_CODES)" "distinct (map snd ERROR_CODES)"
  by code_simp+

lemma variant_codes:
  "from_tool_error_wire e =
     Inr (case numeric_for (wire_code e) of
            Some n \<Rightarrow> n
          | None \<Rightarrow> if e = SessionMismatchWire then - 32600 else - 32603)"
  by (cases e) (simp_all add: from_tool_error_wire_def VARIANT_CODE_TO_NUMERIC_def numeric_for_def ERROR_CODES_def)

text \<open>
  The table of error codes is a bijection: a name has a code exactly when the code has that name.
  Every wire error gets a code, the one of its name in the table if it is there; the names that are
  not in the table get the code of an internal error, and a session mismatch that of an invalid
  request.
\<close>

theorem error_codes_bijective:
  "(numeric_for s = Some n \<longleftrightarrow> string_for n = Some s)
   \<and> from_tool_error_wire e =
       Inr (case numeric_for (wire_code e) of
              Some m \<Rightarrow> m
            | None \<Rightarrow> if e = SessionMismatchWire then - 32600 else - 32603)"
  using first_numeric_iff [OF codes_distinct(2)] first_string_iff [OF codes_distinct(1)] variant_codes
  by (simp add: numeric_for_def string_for_def)

section \<open>The way of an error\<close>

lemma unknown_valid: "valid_tool_id ''unknown''"
  unfolding well_formed_iff [symmetric] by code_simp

lemma tool_id_from_details_valid: "valid_tool_id (tool_id_from_details ds)"
  by (auto simp: tool_id_from_details_def id_Inr unknown_valid split: json.splits sum.splits)

lemma tool_id_kept [simp]:
  assumes "valid_tool_id t"
  shows "tool_id_from_details (JDict ((''tool_id'', JStr t) # ps)) = t"
proof -
  have "ToolId t = Inr t" using assms by (simp add: id_Inr)
  then show ?thesis by (simp add: tool_id_from_details_def detail_get_def raw_value_def)
qed

definition string_detail :: "tool_error \<Rightarrow> bool" where
  "string_detail err \<longleftrightarrow> (\<exists>m. detail err = JStr m)"

lemma to_wire_ok: "string_detail err \<Longrightarrow> tool_error_wire_ok (tool_error_to_wire err)"
  by (cases "kind err")
    (auto simp: tool_error_to_wire_def custom_wire_def tool_id_from_details_valid string_detail_def)

text \<open>What the client reconstructs: the wire error of the server, read and turned back.\<close>

definition crossing :: "tool_error \<Rightarrow> tool_error outcome_of" where
  "crossing err = tool_error_from_wire (tool_error_to_wire err)"

lemma envelope_carries:
  assumes "string_detail err" and "json_rpc_id_ok i" and "s \<noteq> []"
  obtains r e where "build_error_response i s err = Inr r"
    and "JsonRpcResponse_from_wire (json_rpc_response_to_wire (\<lambda>v. v) r) = Inr r"
    and "outcome r = ResponseError e" and "error_from_envelope e = crossing err"
proof -
  obtain m where m: "detail err = JStr m" using assms(1) by (auto simp: string_detail_def)
  obtain n where n: "from_tool_error_wire (tool_error_to_wire err) = Inr n" using variant_codes by blast
  define e where "e = \<lparr>code = n, message = m, error_data = tool_error_wire_to_wire (tool_error_to_wire err)\<rparr>"
  define r :: "json json_rpc_response" where "r = err_response i e (Some s)"
  have "build_error_response i s err = Inr r"
    by (simp add: build_error_response_def m n e_def r_def Let_def)
  moreover have "JsonRpcResponse_from_wire (json_rpc_response_to_wire (\<lambda>v. v) r) = Inr r"
    using assms(2,3) by (simp add: response_back json_rpc_response_ok_def r_def err_response_def nonempty_def)
  moreover have "error_from_envelope e = crossing err"
    using error_wire_back [OF to_wire_ok [OF assms(1)]]
    by (simp add: error_from_envelope_def e_def crossing_def Let_def tool_error_wire_to_wire_def)
  ultimately show thesis using that [of r e] by (simp add: r_def err_response_def)
qed

text \<open>The kinds that have a wire error of their own.\<close>

definition wire_kind :: "tool_error_kind \<Rightarrow> bool" where
  "wire_kind k \<longleftrightarrow>
     k \<in> {INVALID_ARGUMENTS, NOT_FOUND, PERMISSION_DENIED, TIMEOUT, CANCELLED, EXECUTION,
           BEHAVIOR_VERSION_UNSUPPORTED, RENDER_LIMITED, TERMINAL_ERROR, CUSTOM}"

lemmas crossing_defs = crossing_def tool_error_to_wire_def custom_wire_def for_tool_def with_details_def new_error_def
  with_optional_details_def custom_error_def fstring_def

lemma crossing_kind: "\<exists>e. crossing err = Inr e \<and> kind e = (if wire_kind (kind err) then kind err else CUSTOM)"
  by (cases "kind err") (simp_all add: crossing_defs wire_kind_def)

lemma crossing_settles: "crossing err = Inr e \<Longrightarrow> crossing e = Inr e"
  by (cases "kind err")
    (auto simp: crossing_defs tool_id_from_details_valid int_from_details_def str_from_details_def
      optional_str_from_details_def detail_get_def raw_value_def custom_details_with_code_def
      split: json.splits option.splits if_splits)

text \<open>The kinds whose message the client words itself.\<close>

definition reworded :: "tool_error_kind \<Rightarrow> bool" where
  "reworded k \<longleftrightarrow> k \<in> {NOT_FOUND, TIMEOUT, CANCELLED, BEHAVIOR_VERSION_UNSUPPORTED}"

lemma crossing_detail: "crossing err = Inr e \<Longrightarrow> \<not> reworded (kind err) \<Longrightarrow> detail e = detail err"
  by (cases "kind err") (auto simp: crossing_defs reworded_def)

text \<open>
  C11: The error of a failed tool call, answered with \<open>build_error_response\<close>, sent as a response and
  decoded by the client, arrives with its kind if the wire has an error of that kind, and as a custom
  error otherwise, which holds for not-implemented, unauthorized, all rate and usage limits, service
  and network errors. The message survives unless the client words it itself. What has arrived once
  would not change on a second way.
\<close>

theorem error_reaches_client:
  assumes "string_detail err" and "json_rpc_id_ok i" and "s \<noteq> []"
  shows "\<exists>r e e'. build_error_response i s err = Inr r
     \<and> JsonRpcResponse_from_wire (json_rpc_response_to_wire (\<lambda>v. v) r) = Inr r
     \<and> outcome r = ResponseError e
     \<and> error_from_envelope e = Inr e'
     \<and> kind e' = (if wire_kind (kind err) then kind err else CUSTOM)
     \<and> (\<not> reworded (kind err) \<longrightarrow> detail e' = detail err)
     \<and> tool_error_from_wire (tool_error_to_wire e') = Inr e'"
proof -
  obtain r e where 1: "build_error_response i s err = Inr r"
    "JsonRpcResponse_from_wire (json_rpc_response_to_wire (\<lambda>v. v) r) = Inr r"
    "outcome r = ResponseError e" "error_from_envelope e = crossing err"
    using envelope_carries [OF assms] .
  obtain e' where 2: "crossing err = Inr e'" "kind e' = (if wire_kind (kind err) then kind err else CUSTOM)"
    using crossing_kind by blast
  show ?thesis
    using 1 2 crossing_settles [OF 2(1)] crossing_detail [OF 2(1)] by (auto simp: crossing_def)
qed

text \<open>A rate limit arrives as a custom error.\<close>

theorem error_reaches_client_witness:
  "\<exists>r e e'. build_error_response (JsonRpcIdNumber 1) ''s1'' (new_error RATE_LIMITED (JStr ''slow down'')) = Inr r
     \<and> outcome r = ResponseError e \<and> error_from_envelope e = Inr e' \<and> kind e' = CUSTOM
     \<and> detail e' = JStr ''slow down''"
  using error_reaches_client [of "new_error RATE_LIMITED (JStr ''slow down'')" "JsonRpcIdNumber 1" "''s1''"]
  by (auto simp: string_detail_def new_error_def wire_kind_def reworded_def I64_MIN_def I64_MAX_def)

text \<open>
  A client that gets the hub's workspace-gone error recognises it as such, whatever the code and
  message of the envelope, and can read the reason and the phase from its details.
\<close>

theorem workspace_gone_recognised:
  "\<exists>e. error_from_envelope \<lparr>code = c, message = m, error_data = tool_error_wire_to_wire (workspace_unavailable_wire r p)\<rparr>
         = Inr e
     \<and> is_workspace_unavailable e
     \<and> WorkspaceUnavailableDetails_from_wire (details e) =
         Inr \<lparr>sub_code = WORKSPACE_UNAVAILABLE_SUBCODE, reason = r, phase = p, retryable = True\<rparr>"
proof -
  define d where "d = workspace_unavailable_details_to_wire
    \<lparr>sub_code = WORKSPACE_UNAVAILABLE_SUBCODE, reason = r, phase = p, retryable = True\<rparr>"
  have d: "d \<noteq> JNull" by (simp add: d_def)
  have "tool_error_wire_ok (workspace_unavailable_wire r p)" by (simp add: workspace_unavailable_wire_def)
  from error_wire_back [OF this]
  have "error_from_envelope \<lparr>code = c, message = m, error_data = tool_error_wire_to_wire (workspace_unavailable_wire r p)\<rparr>
      = Inr \<lparr>kind = CUSTOM, detail = JStr WORKSPACE_UNAVAILABLE_MESSAGE, details = d\<rparr>"
    using d by (simp add: error_from_envelope_def Let_def tool_error_wire_to_wire_def workspace_unavailable_wire_def
        with_optional_details_def custom_error_def with_details_def new_error_def d_def)
  moreover have "is_workspace_unavailable \<lparr>kind = CUSTOM, detail = x, details = d\<rparr>" for x
    by (simp add: is_workspace_unavailable_def d_def workspace_unavailable_details_to_wire_def)
  moreover have "WorkspaceUnavailableDetails_from_wire d =
      Inr \<lparr>sub_code = WORKSPACE_UNAVAILABLE_SUBCODE, reason = r, phase = p, retryable = True\<rparr>"
    by (simp add: d_def)
  ultimately show ?thesis by simp
qed

end
