(* ===== verification/Tool_Protocol.thy ===== *)
theory Tool_Protocol
  imports Tool_Frames Turn_Hooks Tool_Errors
begin

text \<open>
  What the messages of the tool protocol have in common: registrations and frames survive the wire,
  a decoded message is well-formed and would be decoded the same by the next peer, and the readers
  differ in how they treat an explicit null.
\<close>

declare map_of_append [simp del]

section \<open>Registrations\<close>

text \<open>A pair of functions that behaves as documented for writing and validating a tool description.\<close>

definition plain_dump :: "tool_description \<Rightarrow> json" where
  "plain_dump d =
     JDict ([(''name'', JStr (tool_description.tool_name d))] @ opt_pair ''namespace'' JStr (tool_description.namespace d) @
       opt_pair ''title'' JStr (tool_description.title d) @ [(''description'', JStr (tool_description.tool_text d))] @
       value_pair ''arguments_schema'' (tool_description.arguments_schema d) @ opt_pair ''kind'' JStr (tool_description.tool_kind d))"

definition plain_validate :: "json \<Rightarrow> tool_description outcome_of" where
  "plain_validate v =
     and_then (req ''name'' to_str v) (\<lambda>n. and_then (opt ''namespace'' to_str v) (\<lambda>ns.
     and_then (opt ''title'' to_str v) (\<lambda>t. and_then (req ''description'' to_str v) (\<lambda>x.
     and_then (get_value ''arguments_schema'' v) (\<lambda>a. and_then (opt ''kind'' to_str v) (\<lambda>k.
     Inr (tool_description.make n ns t x a k)))))))"

lemma plain_description: "wire_field plain_dump plain_validate (\<lambda>_. True)"
proof unfold_locales
  fix x
  show "plain_validate (plain_dump x) = Inr x"
    by (cases x) (simp add: plain_validate_def plain_dump_def tool_description.defs)
qed (simp_all add: plain_dump_def)

text \<open>
  C29: If validation accepts every dumped tool description and returns nothing else, then a
  well-formed tool registration and a well-formed server registration read back as they were
  written, and every registration that is read has a well-formed tool identifier, non-empty user and
  session identifiers, and a server identifier outside the reserved prefix.
\<close>

theorem registrations_roundtrip:
  assumes "wire_field dump validate okd"
  shows "(tool_registration_ok okd r \<longrightarrow>
           ToolRegistration_from_wire validate (tool_registration_to_wire dump r) = Inr r)
       \<and> (tool_server_registration_ok okd s \<longrightarrow>
           ToolServerRegistration_from_wire validate (tool_server_registration_to_wire dump s) = Inr s)
       \<and> (ToolRegistration_from_wire validate v = Inr r \<longrightarrow> tool_registration_ok okd r)
       \<and> (ToolServerRegistration_from_wire validate v = Inr s \<longrightarrow> tool_server_registration_ok okd s)"
proof -
  note tool = tool_registration_wire [OF assms] and server = tool_server_registration_wire [OF assms]
  show ?thesis
    using wire_field_back(1) [OF tool] wire_field_back(1) [OF server]
      wire_type.dec_ok [OF wire_field.axioms(2) [OF tool]] wire_type.dec_ok [OF wire_field.axioms(2) [OF server]]
    by blast
qed

definition sample_registration :: tool_registration where
  "sample_registration =
     tool_registration.make ''fs:read_file'' ''u1''
       (tool_description.make ''read_file'' (Some ''fs'') None ''Reads a file'' JNull None)
       Remote (Some [''s1'', ''s2'']) (Some ''disk'') JNull None None (Some 3) JNull"

text \<open>A registration with two sessions and a generation.\<close>

theorem registrations_roundtrip_witness:
  "ToolRegistration_from_wire plain_validate (tool_registration_to_wire plain_dump sample_registration) =
     Inr sample_registration"
proof -
  have "valid_tool_id ''fs:read_file''" unfolding well_formed_iff [symmetric] by code_simp
  then have "tool_registration_ok (\<lambda>_. True) sample_registration"
    by (simp add: sample_registration_def tool_registration_ok_def tool_registration.defs nonempty_def
        valid_server_id_def py_startswith_def SERVER_ID_RESERVED_PREFIX_def)
  with registrations_roundtrip [OF plain_description, of sample_registration] show ?thesis by blast
qed

section \<open>Frames\<close>

text \<open>
  Tool call requests, results and progress frames read back as they were written, whatever they
  hold; hook frames, notification frames and the status of a tool server do when their identifiers
  are well-formed.
\<close>

theorem call_frames_roundtrip:
  assumes "hook_frame_ok h" and "tool_notification_frame_ok n" and "tool_server_status_payload_ok s"
  shows "tool_call_params_from_wire (tool_call_params_to_wire p) = Inr p
       \<and> tool_call_result_from_wire (tool_call_result_to_wire r) = Inr r
       \<and> tool_call_progress_frame_from_wire (tool_call_progress_frame_to_wire q) = Inr q
       \<and> hook_frame_from_wire (hook_frame_to_wire h) = Inr h
       \<and> tool_notification_frame_from_wire (tool_notification_frame_to_wire n) = Inr n
       \<and> tool_server_status_payload_from_wire (tool_server_status_payload_to_wire s) = Inr s"
  using assms by simp

definition sample_hook :: hook_frame where
  "sample_hook = hook_frame.make ''s1'' (Custom ''turn_hook'' JNull) (Some ''fs:read_file'') None (Some ''h1'') None"

theorem call_frames_roundtrip_witness:
  "hook_frame_from_wire (hook_frame_to_wire sample_hook) = Inr sample_hook
   \<and> tool_notification_frame_from_wire (tool_notification_frame_to_wire (custom_notification_frame ''ls'' ''k'' JNull)) =
       Inr (custom_notification_frame ''ls'' ''k'' JNull)
   \<and> tool_server_status_payload_from_wire (tool_server_status_payload_to_wire (terminal_status Disconnected)) =
       Inr (terminal_status Disconnected)"
proof -
  have *: "valid_tool_id ''fs:read_file''" "valid_tool_id ''ls''" unfolding well_formed_iff [symmetric] by code_simp+
  have "hook_frame_ok sample_hook"
    using * by (simp add: sample_hook_def hook_frame_ok_def hook_frame.defs nonempty_def)
  moreover have "tool_notification_frame_ok (custom_notification_frame ''ls'' ''k'' JNull)"
    using * by (simp add: tool_notification_frame_ok_def custom_notification_frame_def)
  moreover have "tool_server_status_payload_ok (terminal_status Disconnected)"
    by (simp add: tool_server_status_payload_ok_def terminal_status_def)
  ultimately show ?thesis using call_frames_roundtrip by blast
qed

text \<open>
  C31: A status report, a hook frame or a notification frame that one peer has read, written again, is
  read the same by the next peer, whatever was in the first message.
\<close>

theorem read_frames_settle:
  "(tool_server_get_status_result_from_wire v = Inr g \<longrightarrow>
      tool_server_get_status_result_from_wire (tool_server_get_status_result_to_wire g) = Inr g)
   \<and> (hook_frame_from_wire v = Inr h \<longrightarrow> hook_frame_from_wire (hook_frame_to_wire h) = Inr h)
   \<and> (tool_notification_frame_from_wire v = Inr n \<longrightarrow>
      tool_notification_frame_from_wire (tool_notification_frame_to_wire n) = Inr n)"
  using ToolServerGetStatusResult.forwarded HookFrame.forwarded ToolNotificationFrame.forwarded by blast

text \<open>A status report whose counters are texts and whose names are numbers settles.\<close>

theorem read_frames_settle_witness:
  "\<exists>h. hook_frame_from_wire
         (JDict [(''session_id'', JInt 5), (''event'', JDict [(''type'', JStr ''Pause'')]), (''hook_id'', JBool True)]) = Inr h
     \<and> hook_frame_from_wire (hook_frame_to_wire h) = Inr h \<and> hook_frame.hook_id h = Some ''True''"
proof -
  have "hook_frame_from_wire
      (JDict [(''session_id'', JInt 5), (''event'', JDict [(''type'', JStr ''Pause'')]), (''hook_id'', JBool True)])
      = Inr (hook_frame.make ''5'' Pause None None (Some ''True'') None)"
    by code_simp
  with read_frames_settle show ?thesis by (auto simp: hook_frame.defs)
qed

section \<open>Null\<close>

definition add_null :: "string \<Rightarrow> json \<Rightarrow> json" where
  "add_null k v = (case v of JDict d \<Rightarrow> JDict (d @ [(k, JNull)]) | _ \<Rightarrow> v)"

lemma null_tool_id: "str_then ToolId JNull = Inr ''None''"
  by code_simp

text \<open>
  An explicit null for the tool of a notification frame is read as no tool, as elsewhere in the
  protocol; in a hook frame it is read as the tool with the name \<open>None\<close>, so a hook for the whole
  session becomes one for a tool that does not exist.
\<close>

theorem hook_frame_null_tool:
  assumes "hook_frame_ok h" and "hook_frame.tool_id h = None"
    and "tool_notification_frame_ok n" and "tool_notification_frame.tool_id n = None"
  shows "hook_frame_from_wire (add_null ''tool_id'' (hook_frame_to_wire h)) =
           Inr (h\<lparr>hook_frame.tool_id := Some ''None''\<rparr>)
       \<and> tool_notification_frame_from_wire (add_null ''tool_id'' (tool_notification_frame_to_wire n)) = Inr n"
  using assms null_tool_id
  by (cases h; cases n)
    (simp add: hook_frame_to_wire_def hook_frame_from_wire_def hook_frame_ok_def add_null_def
      tool_notification_frame_to_wire_def tool_notification_frame_from_wire_def tool_notification_frame_ok_def id_Inr)

theorem hook_frame_null_tool_witness:
  "hook_frame_from_wire
     (JDict [(''session_id'', JStr ''s1''), (''event'', JDict [(''type'', JStr ''Cancel'')]), (''tool_id'', JNull)])
   = Inr (hook_frame.make ''s1'' Cancel (Some ''None'') None None None)"
proof -
  define h where "h = hook_frame.make ''s1'' Cancel None None None None"
  define n where "n = \<lparr>notification = KnownNotification JNull, tool_call_id = None, tool_id = None\<rparr>"
  have "hook_frame_ok h" "hook_frame.tool_id h = None"
    "tool_notification_frame_ok n" "tool_notification_frame.tool_id n = None"
    by (simp_all add: h_def n_def hook_frame.defs hook_frame_ok_def nonempty_def tool_notification_frame_ok_def)
  from hook_frame_null_tool [OF this] show ?thesis
    by (simp add: h_def hook_frame.defs hook_frame_to_wire_def add_null_def opt_pair_def)
qed

section \<open>Keepalive\<close>

text \<open>
  Ping and pong frames read back as written, and neither is ever read as the other; a frame
  without a method is read as either.
\<close>

theorem keepalive_frames:
  "ping_frame_from_wire (ping_frame_to_wire p) = Inr p
   \<and> pong_frame_from_wire (pong_frame_to_wire q) = Inr q
   \<and> ping_frame_from_wire (pong_frame_to_wire q) = Inl ValueError
   \<and> pong_frame_from_wire (ping_frame_to_wire p) = Inl ValueError
   \<and> ping_frame_from_wire (JDict [(''ts_ms'', JInt t)]) = Inr \<lparr>ping_frame.ts_ms = t\<rparr>"
  by (simp add: ping_frame_from_wire_def pong_frame_from_wire_def ping_frame_to_wire_def pong_frame_to_wire_def
      check_method_def)

text \<open>The parameters of a tool call are not checked: an identifier that a registration would refuse passes.\<close>

lemma tool_call_params_unchecked:
  "tool_call_params_from_wire
     (JDict [(''tool_call_id'', JStr ''''), (''tool_id'', JStr ''a:b:c''), (''arguments'', JNull)])
   = Inr (tool_call_params.make '''' ''a:b:c'' JNull None None None None)
   \<and> unregister_tool_params_from_wire (JDict [(''tool_id'', JStr ''a:b:c'')]) = Inl (InvalidFormatIdError ''a:b:c'')"
  by code_simp

end
