(* ===== verification/Client_Errors.thy ===== *)
theory Client_Errors
  imports Tool_Errors
begin

text \<open>
  The errors of the tool hub's client (\<open>computer_hub_sdk/error.py\<close>): one constructor for each subclass
  of \<open>ClientError\<close> with the value it is built from, the classification of an error envelope, and the
  two recognisers of a failed bind. A message that is not text is the JSON value itself; the
  documents that are formatted into one go through \<open>str\<close> and \<open>repr\<close> of \<open>Wire\<close>.
\<close>

section \<open>The classes\<close>

datatype client_error =
    NetworkError json
  | ProtocolError json
  | AuthError json
  | HandshakeAuthFailed int
  | RegistrationConflict json
  | BackpressureError json
  | SerdeError json
  | InvalidConfig json
  | WireError tool_error_wire
  | Closed json
  | InsecureScheme string
  | CallIdInUse string

text \<open>\<open>str(error)\<close>; that of a wrapped error is the text of the wire class, which the argument gives.\<close>

fun client_error_str :: "(tool_error_wire \<Rightarrow> string) \<Rightarrow> client_error \<Rightarrow> string outcome_of" where
  "client_error_str wt (NetworkError m) = and_then (to_str m) (\<lambda>s. Inr (''network error: '' @ s))"
| "client_error_str wt (ProtocolError m) = and_then (to_str m) (\<lambda>s. Inr (''protocol error: '' @ s))"
| "client_error_str wt (AuthError m) = and_then (to_str m) (\<lambda>s. Inr (''auth error: '' @ s))"
| "client_error_str wt (HandshakeAuthFailed n) = Inr (''handshake auth failed: HTTP '' @ py_str_int n)"
| "client_error_str wt (RegistrationConflict m) = and_then (to_str m) (\<lambda>s. Inr (''registration conflict: '' @ s))"
| "client_error_str wt (BackpressureError m) = and_then (to_str m) (\<lambda>s. Inr (''backpressure: '' @ s))"
| "client_error_str wt (SerdeError m) = and_then (to_str m) (\<lambda>s. Inr (''serde error: '' @ s))"
| "client_error_str wt (InvalidConfig m) = and_then (to_str m) (\<lambda>s. Inr (''invalid configuration: '' @ s))"
| "client_error_str wt (WireError w) = Inr (wt w)"
| "client_error_str wt (Closed m) = and_then (to_str m) (\<lambda>s. Inr (''server closed connection: '' @ s))"
| "client_error_str wt (InsecureScheme url) =
     Inr (''insecure scheme: refusing to send credentials over plaintext ws:// to non-loopback host '' @ url)"
| "client_error_str wt (CallIdInUse c) = Inr (''call_id '' @ c @ '' already in flight on this connection'')"

section \<open>Classification\<close>

definition AUTH_CODES :: "int set" where
  "AUTH_CODES = {-32002, -32003}"

definition NETWORK_CODE :: int where
  "NETWORK_CODE = -32004"

definition in_protocol_range :: "int \<Rightarrow> bool" where
  "in_protocol_range c \<longleftrightarrow> -32600 \<le> c \<and> c \<le> -32500"

fun try_decode_wire :: "json \<Rightarrow> tool_error_wire option" where
  "try_decode_wire (JDict d) =
     (case error_wire_from_wire (JDict d) of Inl e \<Rightarrow> None | Inr w \<Rightarrow> Some w)"
| "try_decode_wire _ = None"

fun from_wire :: "tool_error_wire \<Rightarrow> client_error outcome_of" where
  "from_wire (PermissionDeniedWire r) = Inr (AuthError r)"
| "from_wire (TransportClosedWire t) =
     and_then (fstring ''transport closed for '' t []) (\<lambda>m. Inr (NetworkError m))"
| "from_wire (UnsupportedProtocolVersionWire vs) =
     and_then (py_repr vs) (\<lambda>s. Inr (ProtocolError (JStr (''unsupported protocol; supported: '' @ s))))"
| "from_wire w = Inr (WireError w)"

definition jsonrpc_subcode :: "int \<Rightarrow> string" where
  "jsonrpc_subcode c = ''jsonrpc_'' @ py_str_int c"

definition from_code :: "int \<Rightarrow> string \<Rightarrow> client_error" where
  "from_code c m =
     (if c \<in> AUTH_CODES then AuthError (JStr m)
      else if c = NETWORK_CODE then NetworkError (JStr m)
      else if in_protocol_range c then ProtocolError (JStr m)
      else WireError (CustomWire (JStr (jsonrpc_subcode c)) (JStr m) JNull))"

definition from_jsonrpc_error :: "json_rpc_error \<Rightarrow> client_error outcome_of" where
  "from_jsonrpc_error err =
     (case try_decode_wire (error_data err) of
        Some w \<Rightarrow> from_wire w
      | None \<Rightarrow> Inr (from_code (code err) (message err)))"

text \<open>The status of a failed upgrade, when the exception has one, and the exception's text.\<close>

definition from_handshake_error :: "int option \<Rightarrow> string \<Rightarrow> client_error" where
  "from_handshake_error status text_of =
     (case status of
        Some n \<Rightarrow> if n = 401 \<or> n = 403 then HandshakeAuthFailed n else NetworkError (JStr text_of)
      | None \<Rightarrow> NetworkError (JStr text_of))"

section \<open>Bind recognisers\<close>

fun has_collapsed_jsonrpc_subcode :: "client_error \<Rightarrow> string \<Rightarrow> bool" where
  "has_collapsed_jsonrpc_subcode (WireError (CustomWire c m ds)) subcode = (c = JStr subcode)"
| "has_collapsed_jsonrpc_subcode _ subcode = False"

definition is_server_not_found :: "client_error \<Rightarrow> bool" where
  "is_server_not_found e = has_collapsed_jsonrpc_subcode e ''jsonrpc_-32601''"

definition is_tool_unavailable :: "client_error \<Rightarrow> bool" where
  "is_tool_unavailable e = has_collapsed_jsonrpc_subcode e ''jsonrpc_-32013''"

section \<open>What the recognisers accept\<close>

lemma subcode_inject [simp]: "jsonrpc_subcode c = jsonrpc_subcode c' \<longleftrightarrow> c = c'"
  by (simp add: jsonrpc_subcode_def)

lemma subcodes:
  "''jsonrpc_-32601'' = jsonrpc_subcode (-32601)" "''jsonrpc_-32013'' = jsonrpc_subcode (-32013)"
  by (simp_all add: jsonrpc_subcode_def py_str_int_def py_str_nat.simps) code_simp+

text \<open>A tool may name its own error like a code of the envelope.\<close>

definition borrowed_subcode :: "int \<Rightarrow> json \<Rightarrow> bool" where
  "borrowed_subcode c d = (\<exists>m ds. try_decode_wire d = Some (CustomWire (JStr (jsonrpc_subcode c)) m ds))"

lemma recognised_iff:
  assumes "from_jsonrpc_error err = Inr e" and "c \<notin> AUTH_CODES" and "c \<noteq> NETWORK_CODE" and "\<not> in_protocol_range c"
  shows "has_collapsed_jsonrpc_subcode e (jsonrpc_subcode c) \<longleftrightarrow>
     (try_decode_wire (error_data err) = None \<and> code err = c) \<or> borrowed_subcode c (error_data err)"
proof (cases "try_decode_wire (error_data err)")
  case None
  then have "e = from_code (code err) (message err)" using assms(1) by (simp add: from_jsonrpc_error_def)
  then show ?thesis using assms(2-4) None by (auto simp: from_code_def borrowed_subcode_def)
next
  case (Some w)
  then have "from_wire w = Inr e" using assms(1) by (simp add: from_jsonrpc_error_def)
  then have "has_collapsed_jsonrpc_subcode e (jsonrpc_subcode c) \<longleftrightarrow> (\<exists>m ds. w = CustomWire (JStr (jsonrpc_subcode c)) m ds)"
    by (cases w rule: from_wire.cases) (auto simp: and_then_Inr)
  then show ?thesis using Some by (simp add: borrowed_subcode_def)
qed

text \<open>
  An envelope whose data carry no wire error is taken for "server not found" exactly when its code
  is -32601 and for "tool unavailable" exactly when it is -32013; an envelope that carries one is
  taken for either only when the tool chose that very name for its own error. No error is both.
\<close>

theorem bind_outcomes_recognised:
  assumes "from_jsonrpc_error err = Inr e"
  shows "(is_server_not_found e \<longleftrightarrow>
       (try_decode_wire (error_data err) = None \<and> code err = -32601) \<or> borrowed_subcode (-32601) (error_data err))
     \<and> (is_tool_unavailable e \<longleftrightarrow>
       (try_decode_wire (error_data err) = None \<and> code err = -32013) \<or> borrowed_subcode (-32013) (error_data err))
     \<and> \<not> (is_server_not_found e \<and> is_tool_unavailable e)"
proof -
  have "\<not> (is_server_not_found e \<and> is_tool_unavailable e)"
    unfolding is_server_not_found_def is_tool_unavailable_def
    by (cases "(e, ''jsonrpc_-32601'')" rule: has_collapsed_jsonrpc_subcode.cases) auto
  moreover have "-32601 \<notin> AUTH_CODES" "-32013 \<notin> AUTH_CODES" "-32601 \<noteq> NETWORK_CODE" "-32013 \<noteq> NETWORK_CODE"
    "\<not> in_protocol_range (-32601)" "\<not> in_protocol_range (-32013)"
    by code_simp+
  note recognised_iff [OF assms this(1,3,5)] recognised_iff [OF assms this(2,4,6)]
  ultimately show ?thesis
    unfolding is_server_not_found_def is_tool_unavailable_def subcodes by blast
qed

text \<open>A tool's own error named \<open>jsonrpc_-32601\<close> is taken for a missing server.\<close>

theorem bind_outcomes_recognised_witness:
  "is_server_not_found (WireError (CustomWire (JStr ''jsonrpc_-32601'') (JStr ''m'') JNull))
   \<and> is_tool_unavailable (from_code (-32013) ''gone'')"
proof -
  define d where "d = JDict [(''code'', JStr ''custom''), (''subcode'', JStr ''jsonrpc_-32601''), (''message'', JStr ''m'')]"
  have "from_jsonrpc_error (json_rpc_error.make 7 ''x'' d) =
      Inr (WireError (CustomWire (JStr ''jsonrpc_-32601'') (JStr ''m'') JNull))"
    "try_decode_wire d = Some (CustomWire (JStr (jsonrpc_subcode (-32601))) (JStr ''m'') JNull)"
    unfolding d_def subcodes(1) [symmetric] by code_simp+
  with bind_outcomes_recognised [OF this(1)]
  have "is_server_not_found (WireError (CustomWire (JStr ''jsonrpc_-32601'') (JStr ''m'') JNull))"
    by (auto simp: borrowed_subcode_def json_rpc_error.defs)
  moreover have "from_jsonrpc_error (json_rpc_error.make (-32013) ''gone'' JNull) = Inr (from_code (-32013) ''gone'')"
    by (simp add: from_jsonrpc_error_def json_rpc_error.defs)
  from bind_outcomes_recognised [OF this] have "is_tool_unavailable (from_code (-32013) ''gone'')"
    by (simp add: json_rpc_error.defs)
  ultimately show ?thesis by blast
qed

end
