(* ===== verification/Demux.thy ===== *)
theory Demux
  imports Tool_Frames Client_Errors
begin

text \<open>
  The router of inbound frames of the tool hub's SDK (\<open>computer_hub_sdk/demux.py\<close>). Channels and
  futures are shared objects: the record \<open>heap\<close> maps their references to their contents, and
  \<open>demux\<close> extends it by the fields of the router, which hold references. A sent text is kept as the
  JSON value it was made from. The text that Python gives a float is the parameter \<open>ft\<close>. Metrics and
  log lines are not modelled.
\<close>

declare map_of_append [simp del]

section \<open>Channels\<close>

text \<open>\<open>asyncio.Queue(maxsize)\<close>, unbounded when \<open>maxsize\<close> is not positive, and the flag \<open>closed\<close>.\<close>

record 'a channel =
  buffer :: "'a list"
  capacity :: int
  closed :: bool

definition mpsc_channel :: "int \<Rightarrow> 'a channel" where
  "mpsc_channel n = \<lparr>buffer = [], capacity = n, closed = False\<rparr>"

definition full :: "'a channel \<Rightarrow> bool" where
  "full c = (0 < capacity c \<and> capacity c \<le> int (length (buffer c)))"

datatype send_error = MpscClosed | QueueFull

definition put_nowait :: "'a \<Rightarrow> 'a channel \<Rightarrow> send_error + 'a channel" where
  "put_nowait x c = (if full c then Inl QueueFull else Inr (c\<lparr>buffer := buffer c @ [x]\<rparr>))"

definition try_send :: "'a \<Rightarrow> 'a channel \<Rightarrow> send_error + 'a channel" where
  "try_send x c = (if closed c then Inl MpscClosed else put_nowait x c)"

definition close_channel :: "'a channel \<Rightarrow> 'a channel" where
  "close_channel c = c\<lparr>closed := True\<rparr>"

text \<open>
  \<open>recv\<close> has one test before its await; a receiver that waits in \<open>buffer.get()\<close> goes on when there is
  an item, and tests nothing else.
\<close>

datatype 'a received = Item 'a | EndOfStream | Waiting

definition get_item_from :: "'a channel \<Rightarrow> 'a received \<times> 'a channel" where
  "get_item_from c = (case buffer c of [] \<Rightarrow> (Waiting, c) | x # xs \<Rightarrow> (Item x, c\<lparr>buffer := xs\<rparr>))"

definition recv :: "'a channel \<Rightarrow> 'a received \<times> 'a channel" where
  "recv c = (if closed c \<and> buffer c = [] then (EndOfStream, c) else get_item_from c)"

definition resume_recv :: "'a channel \<Rightarrow> 'a received \<times> 'a channel" where
  "resume_recv c = get_item_from c"

definition try_recv :: "'a channel \<Rightarrow> 'a option \<times> 'a channel" where
  "try_recv c = (case buffer c of [] \<Rightarrow> (None, c) | x # xs \<Rightarrow> (Some x, c\<lparr>buffer := xs\<rparr>))"

section \<open>State\<close>

record inbound_frame =
  is_request :: bool
  frame_value :: "(string \<times> json) list"

datatype route_outcome =
    Response | Session | Progress | UnknownSession | UnknownProgress | Notification | Unrouted
  | InboxFull | SessionDropped | ProgressFull | ProgressDropped

text \<open>
  What a waiter gets: a response, a \<open>SerdeError\<close> with the text of the exception that parsing it
  raised (the text is not modelled), or another error of the client.
\<close>

datatype answer = Answered "json json_rpc_response" | Unreadable py_error | Failed client_error

datatype future = Pending | Done answer | Cancelled

record heap =
  inboxes :: "nat \<Rightarrow> inbound_frame channel"
  streams :: "nat \<Rightarrow> tool_call_progress_frame channel"
  outboxes :: "nat \<Rightarrow> json channel"
  queues :: "nat \<Rightarrow> (string \<times> json) list channel"
  futures :: "nat \<Rightarrow> future"

record demux = heap +
  sessions :: "(string, nat) dict"
  waiters :: "(string, nat) dict"
  call_sessions :: "(string, string) dict"
  progress :: "(string, nat) dict"
  subscribers :: "nat list"
  outbound :: "nat option"

definition NOTIFICATION_CAPACITY :: int where
  "NOTIFICATION_CAPACITY = 64"

definition fulfill :: "nat \<Rightarrow> answer \<Rightarrow> demux \<Rightarrow> bool \<times> demux" where
  "fulfill f a s =
     (if futures s f \<noteq> Pending then (False, s) else (True, s\<lparr>futures := (futures s)(f := Done a)\<rparr>))"

section \<open>Registration\<close>

definition new_demux :: "heap \<Rightarrow> demux" where
  "new_demux h = heap.extend h
     \<lparr>sessions = [], waiters = [], call_sessions = [], progress = [], subscribers = [], outbound = None\<rparr>"

definition with_outbound :: "nat \<Rightarrow> demux \<Rightarrow> demux" where
  "with_outbound out s = s\<lparr>outbound := Some out\<rparr>"

text \<open>The queue of a subscriber is allocated at a reference \<open>q\<close> that the caller chooses.\<close>

definition subscribe_notifications :: "nat \<Rightarrow> demux \<Rightarrow> demux" where
  "subscribe_notifications q s =
     s\<lparr>queues := (queues s)(q := mpsc_channel NOTIFICATION_CAPACITY), subscribers := subscribers s @ [q]\<rparr>"

definition register_session_inbox :: "string \<Rightarrow> nat \<Rightarrow> demux \<Rightarrow> nat option \<times> demux" where
  "register_session_inbox sid inbox s =
     (dict_get (sessions s) sid, s\<lparr>sessions := dict_set sid inbox (sessions s)\<rparr>)"

definition unregister_session_inbox :: "string \<Rightarrow> demux \<Rightarrow> nat option \<times> demux" where
  "unregister_session_inbox sid s =
     (dict_get (sessions s) sid, s\<lparr>sessions := dict_pop sid (sessions s)\<rparr>)"

definition register_response_waiter :: "string \<Rightarrow> nat \<Rightarrow> demux \<Rightarrow> demux" where
  "register_response_waiter rid f s = s\<lparr>waiters := dict_set rid f (waiters s)\<rparr>"

definition register_call_response_waiter :: "string \<Rightarrow> string \<Rightarrow> nat \<Rightarrow> demux \<Rightarrow> demux" where
  "register_call_response_waiter rid sid f s =
     s\<lparr>call_sessions := dict_set rid sid (call_sessions s), waiters := dict_set rid f (waiters s)\<rparr>"

definition take_response_waiter :: "string \<Rightarrow> demux \<Rightarrow> nat option \<times> demux" where
  "take_response_waiter rid s =
     (dict_get (waiters s) rid,
      s\<lparr>call_sessions := dict_pop rid (call_sessions s), waiters := dict_pop rid (waiters s)\<rparr>)"

fun fail_calls :: "string list \<Rightarrow> client_error \<Rightarrow> demux \<Rightarrow> nat \<times> demux" where
  "fail_calls [] e s = (0, s)"
| "fail_calls (rid # rids) e s =
     (case take_response_waiter rid s of
        (None, s) \<Rightarrow> fail_calls rids e s
      | (Some f, s) \<Rightarrow>
          (case fulfill f (Failed e) s of
             (b, s) \<Rightarrow> (case fail_calls rids e s of (n, s) \<Rightarrow> ((if b then Suc n else n), s))))"

definition fail_calls_for_session :: "string \<Rightarrow> client_error \<Rightarrow> demux \<Rightarrow> nat \<times> demux" where
  "fail_calls_for_session sid e s =
     fail_calls (map fst (filter (\<lambda>(rid, t). t = sid) (call_sessions s))) e s"

fun drain_waiters :: "string list \<Rightarrow> client_error \<Rightarrow> demux \<Rightarrow> demux" where
  "drain_waiters [] e s = s"
| "drain_waiters (k # ks) e s =
     (case dict_get (waiters s) k of
        None \<Rightarrow> drain_waiters ks e s
      | Some f \<Rightarrow>
          drain_waiters ks e
            (snd (fulfill f (Failed e)
              (s\<lparr>waiters := dict_pop k (waiters s), call_sessions := dict_pop k (call_sessions s)\<rparr>))))"

definition drain_waiters_with :: "client_error \<Rightarrow> demux \<Rightarrow> demux" where
  "drain_waiters_with e s = drain_waiters (dict_keys (waiters s)) e s"

text \<open>The first result says whether the stream was registered; otherwise it is handed back.\<close>

definition try_register_progress_waiter :: "string \<Rightarrow> nat \<Rightarrow> demux \<Rightarrow> (bool \<times> nat option) \<times> demux" where
  "try_register_progress_waiter cid p s =
     (if dict_has (progress s) cid then ((False, Some p), s)
      else ((True, None), s\<lparr>progress := dict_set cid p (progress s)\<rparr>))"

definition unregister_progress_waiter :: "string \<Rightarrow> demux \<Rightarrow> nat option \<times> demux" where
  "unregister_progress_waiter cid s = (dict_get (progress s) cid, s\<lparr>progress := dict_pop cid (progress s)\<rparr>)"

fun drain_streams :: "string list \<Rightarrow> demux \<Rightarrow> demux" where
  "drain_streams [] s = s"
| "drain_streams (k # ks) s =
     (case dict_get (progress s) k of
        None \<Rightarrow> drain_streams ks s
      | Some p \<Rightarrow>
          drain_streams ks
            (s\<lparr>progress := dict_pop k (progress s), streams := (streams s)(p := close_channel (streams s p))\<rparr>))"

definition drain_progress :: "demux \<Rightarrow> demux" where
  "drain_progress s = drain_streams (dict_keys (progress s)) s"

section \<open>Routing\<close>

definition METHOD_TOOL_CALL_PROGRESS :: string where
  "METHOD_TOOL_CALL_PROGRESS = ''tool_call_progress''"

definition checked :: "'a outcome_of \<Rightarrow> 'a option" where
  "checked r = (case r of Inl e \<Rightarrow> None | Inr x \<Rightarrow> Some x)"

fun match_request_id :: "(rat \<Rightarrow> string) \<Rightarrow> json \<Rightarrow> string option" where
  "match_request_id ft (JBool b) = None"
| "match_request_id ft (JStr s) = checked (RequestId s)"
| "match_request_id ft (JInt i) = checked (RequestId (py_str_int i))"
| "match_request_id ft (JFloat r) = checked (RequestId (ft r))"
| "match_request_id ft _ = None"

definition parsed_response :: "(string \<times> json) list \<Rightarrow> answer" where
  "parsed_response d =
     (case JsonRpcResponse_from_wire (JDict d) of Inr r \<Rightarrow> Answered r | Inl e \<Rightarrow> Unreadable e)"

definition route_response :: "(rat \<Rightarrow> string) \<Rightarrow> (string \<times> json) list \<Rightarrow> demux \<Rightarrow> route_outcome \<times> demux" where
  "route_response ft d s =
     (case dict_get d ''id'' of
        None \<Rightarrow> (Unrouted, s)
      | Some i \<Rightarrow>
          (case match_request_id ft i of
             None \<Rightarrow> (Unrouted, s)
           | Some rid \<Rightarrow>
               (case take_response_waiter rid s of
                  (None, s) \<Rightarrow> (Unrouted, s)
                | (Some f, s) \<Rightarrow> (Response, snd (fulfill f (parsed_response d) s)))))"

text \<open>The parameters and the checked call identifier of a progress frame.\<close>

definition progress_call :: "(string \<times> json) list \<Rightarrow> ((string \<times> json) list \<times> string) option" where
  "progress_call d =
     (case dict_get d ''params'' of
        Some (JDict ps) \<Rightarrow>
          (case dict_get ps ''tool_call_id'' of
             Some (JStr t) \<Rightarrow> map_option (\<lambda>cid. (ps, cid)) (checked (ToolCallId t))
           | _ \<Rightarrow> None)
      | _ \<Rightarrow> None)"

definition route_progress :: "(string \<times> json) list \<Rightarrow> demux \<Rightarrow> route_outcome \<times> demux" where
  "route_progress d s =
     (case progress_call d of
        None \<Rightarrow> (Unrouted, s)
      | Some (ps, cid) \<Rightarrow>
          (case dict_get (progress s) cid of
             None \<Rightarrow> (UnknownProgress, s)
           | Some p \<Rightarrow>
               (case tool_call_progress_frame_from_wire (JDict ps) of
                  Inl e \<Rightarrow> (Unrouted, s)
                | Inr fr \<Rightarrow>
                    (case try_send fr (streams s p) of
                       Inl QueueFull \<Rightarrow> (ProgressFull, s)
                     | Inl MpscClosed \<Rightarrow> (ProgressDropped, s\<lparr>progress := dict_pop cid (progress s)\<rparr>)
                     | Inr c \<Rightarrow> (Progress, s\<lparr>streams := (streams s)(p := c)\<rparr>)))))"

text \<open>\<open>json.dumps(v, separators=(",", ":"))\<close>.\<close>

definition json_char :: "char \<Rightarrow> string" where
  "json_char c =
     (let n = code_point c; esc = char_of (92::nat) in
      if n = 34 \<or> n = 92 then [esc, c]
      else if n = 10 then [esc, CHR ''n''] else if n = 13 then [esc, CHR ''r'']
      else if n = 9 then [esc, CHR ''t''] else if n = 8 then [esc, CHR ''b'']
      else if n = 12 then [esc, CHR ''f'']
      else if n < 32 \<or> 127 < n then [esc, CHR ''u'', CHR ''0'', CHR ''0'', hex_digit (n div 16), hex_digit (n mod 16)]
      else [c])"

definition json_string :: "string \<Rightarrow> string" where
  "json_string s = [char_of (34::nat)] @ concat (map json_char s) @ [char_of (34::nat)]"

fun json_text :: "(rat \<Rightarrow> string) \<Rightarrow> json \<Rightarrow> string" where
  "json_text ft JNull = ''null''"
| "json_text ft (JBool b) = (if b then ''true'' else ''false'')"
| "json_text ft (JInt i) = py_str_int i"
| "json_text ft (JFloat r) = ft r"
| "json_text ft (JStr s) = json_string s"
| "json_text ft (JList xs) = ''['' @ py_join '','' (map (json_text ft) xs) @ '']''"
| "json_text ft (JDict d) =
     ''{'' @ py_join '','' (map (\<lambda>p. json_string (fst p) @ '':'' @ json_text ft (snd p)) d) @ ''}''"

definition echo_id :: "(rat \<Rightarrow> string) \<Rightarrow> (string \<times> json) list \<Rightarrow> json_rpc_id" where
  "echo_id ft d =
     (let raw = raw_value (dict_get d ''id'') in
      case jsonrpc_id_from_wire raw of
        Inr i \<Rightarrow> i
      | Inl e \<Rightarrow> JsonRpcIdString (if dict_has d ''id'' then json_text ft raw else []))"

definition reject_inbox_full :: "(rat \<Rightarrow> string) \<Rightarrow> string \<Rightarrow> inbound_frame \<Rightarrow> demux \<Rightarrow> demux" where
  "reject_inbox_full ft sid fr s =
     (if \<not> is_request fr then s
      else
        (case outbound s of
           None \<Rightarrow> s
         | Some out \<Rightarrow>
             (case try_send (json_rpc_response_to_wire (\<lambda>v. v) (overloaded_response (echo_id ft (frame_value fr)) sid))
                     (outboxes s out) of
                Inl e \<Rightarrow> s
              | Inr c \<Rightarrow> s\<lparr>outboxes := (outboxes s)(out := c)\<rparr>)))"

text \<open>The checked session of a frame.\<close>

definition frame_session :: "(string \<times> json) list \<Rightarrow> string option" where
  "frame_session d = (case dict_get d ''session_id'' of Some (JStr t) \<Rightarrow> checked (SessionId t) | _ \<Rightarrow> None)"

definition to_inbound :: "(string \<times> json) list \<Rightarrow> inbound_frame" where
  "to_inbound d = \<lparr>is_request = dict_has d ''id'', frame_value = d\<rparr>"

definition route_session :: "(rat \<Rightarrow> string) \<Rightarrow> (string \<times> json) list \<Rightarrow> demux \<Rightarrow> route_outcome \<times> demux" where
  "route_session ft d s =
     (case frame_session d of
        None \<Rightarrow> (Unrouted, s)
      | Some sid \<Rightarrow>
          (case dict_get (sessions s) sid of
             None \<Rightarrow> (UnknownSession, s)
           | Some b \<Rightarrow>
               (case try_send (to_inbound d) (inboxes s b) of
                  Inl QueueFull \<Rightarrow> (InboxFull, reject_inbox_full ft sid (to_inbound d) s)
                | Inl MpscClosed \<Rightarrow> (SessionDropped, s\<lparr>sessions := dict_pop sid (sessions s)\<rparr>)
                | Inr c \<Rightarrow> (Session, s\<lparr>inboxes := (inboxes s)(b := c)\<rparr>))))"

fun notify_all :: "nat list \<Rightarrow> (string \<times> json) list \<Rightarrow> demux \<Rightarrow> demux" where
  "notify_all [] d s = s"
| "notify_all (q # qs) d s =
     notify_all qs d
       (case put_nowait d (queues s q) of Inl e \<Rightarrow> s | Inr c \<Rightarrow> s\<lparr>queues := (queues s)(q := c)\<rparr>)"

definition route :: "(rat \<Rightarrow> string) \<Rightarrow> (string \<times> json) list \<Rightarrow> demux \<Rightarrow> route_outcome \<times> demux" where
  "route ft d s =
     (if dict_has d ''result'' \<or> dict_has d ''error'' then route_response ft d s
      else if dict_get d ''method'' = Some (JStr METHOD_TOOL_CALL_PROGRESS) then route_progress d s
      else if dict_has d ''session_id'' then route_session ft d s
      else if dict_has d ''method'' then (Notification, notify_all (subscribers s) d s)
      else (Unrouted, s))"

lemma try_send_Inr: "try_send x ch = Inr c \<Longrightarrow> c = ch\<lparr>buffer := buffer ch @ [x]\<rparr> \<and> \<not> full ch \<and> \<not> closed ch"
  by (auto simp: try_send_def put_nowait_def split: if_splits)

section \<open>What each operation leaves alone\<close>

definition same_heap_channels :: "demux \<Rightarrow> demux \<Rightarrow> bool" where
  "same_heap_channels s t \<longleftrightarrow>
     inboxes t = inboxes s \<and> streams t = streams s \<and> outboxes t = outboxes s \<and> queues t = queues s
     \<and> sessions t = sessions s \<and> progress t = progress s \<and> subscribers t = subscribers s \<and> outbound t = outbound s"

lemma fulfill_simps [simp]:
  "fst (fulfill f a s) = (futures s f = Pending)"
  "futures (snd (fulfill f a s)) g = (if g = f \<and> futures s f = Pending then Done a else futures s g)"
  "waiters (snd (fulfill f a s)) = waiters s" "call_sessions (snd (fulfill f a s)) = call_sessions s"
  "sessions (snd (fulfill f a s)) = sessions s" "progress (snd (fulfill f a s)) = progress s"
  "inboxes (snd (fulfill f a s)) = inboxes s" "streams (snd (fulfill f a s)) = streams s"
  "outboxes (snd (fulfill f a s)) = outboxes s" "queues (snd (fulfill f a s)) = queues s"
  "subscribers (snd (fulfill f a s)) = subscribers s" "outbound (snd (fulfill f a s)) = outbound s"
  by (auto simp: fulfill_def)

lemma fail_calls_step:
  "fail_calls (rid # rids) e s =
     (case dict_get (waiters s) rid of
        None \<Rightarrow> fail_calls rids e (snd (take_response_waiter rid s))
      | Some f \<Rightarrow>
          (let r = fulfill f (Failed e) (snd (take_response_waiter rid s));
               q = fail_calls rids e (snd r)
           in (if fst r then Suc (fst q) else fst q, snd q)))"
  by (simp add: take_response_waiter_def Let_def split_beta split: option.split)

declare fail_calls.simps(2) [simp del]

lemma take_simps [simp]:
  "waiters (snd (take_response_waiter rid s)) = dict_pop rid (waiters s)"
  "call_sessions (snd (take_response_waiter rid s)) = dict_pop rid (call_sessions s)"
  "futures (snd (take_response_waiter rid s)) = futures s"
  "same_heap_channels s (snd (take_response_waiter rid s))"
  by (simp_all add: take_response_waiter_def same_heap_channels_def)

definition failing :: "string list \<Rightarrow> demux \<Rightarrow> nat set" where
  "failing rids s = {f. (\<exists>r\<in>set rids. dict_get (waiters s) r = Some f) \<and> futures s f = Pending}"

lemma finite_failing [simp]: "finite (failing rids s)"
proof (rule finite_subset)
  show "failing rids s \<subseteq> (\<lambda>r. the (dict_get (waiters s) r)) ` set rids"
    by (force simp: failing_def)
qed simp

lemma failing_fulfilled: "failing rids (snd (fulfill f a s)) = failing rids s - {f}"
  by (auto simp: failing_def split: if_splits)

lemma fail_calls_spec:
  assumes "distinct rids"
  shows "dict_get (waiters (snd (fail_calls rids e s))) r = (if r \<in> set rids then None else dict_get (waiters s) r)
       \<and> dict_get (call_sessions (snd (fail_calls rids e s))) r = (if r \<in> set rids then None else dict_get (call_sessions s) r)
       \<and> futures (snd (fail_calls rids e s)) = (\<lambda>f. if f \<in> failing rids s then Done (Failed e) else futures s f)
       \<and> fst (fail_calls rids e s) = card (failing rids s)
       \<and> same_heap_channels s (snd (fail_calls rids e s))"
  using assms
proof (induction rids arbitrary: s)
  case Nil
  then show ?case by (simp add: failing_def same_heap_channels_def)
next
  case (Cons rid rids)
  define t where "t = snd (take_response_waiter rid s)"
  have t: "waiters t = dict_pop rid (waiters s)" "call_sessions t = dict_pop rid (call_sessions s)"
    "futures t = futures s" "same_heap_channels s t" by (simp_all add: t_def)
  have rest: "failing rids t = {f. (\<exists>r\<in>set rids. dict_get (waiters s) r = Some f) \<and> futures s f = Pending}"
    using Cons.prems t by (auto simp: failing_def dict_simps)
  show ?case
  proof (cases "dict_get (waiters s) rid")
    case None
    then have "fail_calls (rid # rids) e s = fail_calls rids e t" by (simp add: fail_calls_step t_def)
    moreover have "failing rids t = failing (rid # rids) s" using None rest by (auto simp: failing_def)
    ultimately show ?thesis
      using Cons.IH [of t] Cons.prems t by (auto simp: dict_simps same_heap_channels_def)
  next
    case (Some f)
    define u where "u = snd (fulfill f (Failed e) t)"
    have u: "waiters u = dict_pop rid (waiters s)" "call_sessions u = dict_pop rid (call_sessions s)"
      "same_heap_channels s u"
      "futures u = (\<lambda>g. if g = f \<and> futures s f = Pending then Done (Failed e) else futures s g)"
      using t by (auto simp: u_def same_heap_channels_def fun_eq_iff)
    have fc: "fail_calls (rid # rids) e s =
        (if futures s f = Pending then Suc (fst (fail_calls rids e u)) else fst (fail_calls rids e u), snd (fail_calls rids e u))"
      using Some t by (simp add: fail_calls_step t_def [symmetric] u_def Let_def)
    have fu: "failing rids u = failing rids t - {f}" by (simp add: u_def failing_fulfilled)
    have all: "failing (rid # rids) s = (if futures s f = Pending then insert f (failing rids u) else failing rids u)"
      using Some rest unfolding fu by (auto simp: failing_def)
    have "f \<notin> failing rids u" by (simp add: fu)
    then have "card (failing (rid # rids) s) = (if futures s f = Pending then Suc (card (failing rids u)) else card (failing rids u))"
      by (simp add: all)
    moreover have "(\<lambda>g. if g \<in> failing rids u then Done (Failed e) else futures u g) =
        (\<lambda>g. if g \<in> failing (rid # rids) s then Done (Failed e) else futures s g)"
      by (auto simp: all u(4) fun_eq_iff)
    ultimately show ?thesis
      using Cons.IH [of u] Cons.prems u fc by (auto simp: dict_simps same_heap_channels_def)
  qed
qed

lemma drain_waiters_spec:
  "distinct ks \<Longrightarrow>
   dict_get (waiters (drain_waiters ks e s)) r = (if r \<in> set ks then None else dict_get (waiters s) r)
   \<and> dict_get (call_sessions (drain_waiters ks e s)) r =
       (if r \<in> set ks \<and> dict_has (waiters s) r then None else dict_get (call_sessions s) r)
   \<and> futures (drain_waiters ks e s) = (\<lambda>f. if f \<in> failing ks s then Done (Failed e) else futures s f)
   \<and> same_heap_channels s (drain_waiters ks e s)"
proof (induction ks arbitrary: s)
  case Nil
  then show ?case by (simp add: failing_def same_heap_channels_def)
next
  case (Cons k ks)
  show ?case
  proof (cases "dict_get (waiters s) k")
    case None
    then have "failing (k # ks) s = failing ks s" by (auto simp: failing_def)
    with None Cons show ?thesis by (auto simp: dict_has_def)
  next
    case (Some f)
    define t where "t = s\<lparr>waiters := dict_pop k (waiters s), call_sessions := dict_pop k (call_sessions s)\<rparr>"
    define u where "u = snd (fulfill f (Failed e) t)"
    have u: "waiters u = dict_pop k (waiters s)" "call_sessions u = dict_pop k (call_sessions s)"
      "same_heap_channels s u"
      "futures u = (\<lambda>g. if g = f \<and> futures s f = Pending then Done (Failed e) else futures s g)"
      by (auto simp: u_def t_def same_heap_channels_def fun_eq_iff)
    have step: "drain_waiters (k # ks) e s = drain_waiters ks e u" using Some by (simp add: u_def t_def)
    have "failing ks u = failing ks s - {f}"
      using Cons.prems u by (auto simp: failing_def dict_simps)
    then have all: "failing (k # ks) s = (if futures s f = Pending then insert f (failing ks u) else failing ks u)"
      using Some by (auto simp: failing_def)
    have "(\<lambda>g. if g \<in> failing ks u then Done (Failed e) else futures u g) =
        (\<lambda>g. if g \<in> failing (k # ks) s then Done (Failed e) else futures s g)"
      by (auto simp: all u(4) fun_eq_iff)
    then show ?thesis
      using Cons.IH [of u] Cons.prems u Some unfolding step
      by (auto simp: dict_simps same_heap_channels_def dict_has_def)
  qed
qed

lemma drain_streams_spec:
  "waiters (drain_streams ks s) = waiters s \<and> call_sessions (drain_streams ks s) = call_sessions s
   \<and> sessions (drain_streams ks s) = sessions s \<and> inboxes (drain_streams ks s) = inboxes s
   \<and> outboxes (drain_streams ks s) = outboxes s \<and> outbound (drain_streams ks s) = outbound s
   \<and> queues (drain_streams ks s) = queues s \<and> futures (drain_streams ks s) = futures s"
  by (induction ks s rule: drain_streams.induct) (simp_all split: option.split)

lemma drain_streams_progress:
  "distinct ks \<Longrightarrow>
   dict_get (progress (drain_streams ks s)) k = (if k \<in> set ks then None else dict_get (progress s) k)
   \<and> streams (drain_streams ks s) p =
       (if \<exists>k\<in>set ks. dict_get (progress s) k = Some p then close_channel (streams s p) else streams s p)"
proof (induction ks arbitrary: s)
  case (Cons j ks)
  show ?case
  proof (cases "dict_get (progress s) j")
    case None
    then show ?thesis using Cons by auto
  next
    case (Some q)
    define u where "u = s\<lparr>progress := dict_pop j (progress s), streams := (streams s)(q := close_channel (streams s q))\<rparr>"
    have u: "dict_get (progress u) k = (if k = j then None else dict_get (progress s) k)"
      "streams u p = (if p = q then close_channel (streams s p) else streams s p)" for k p
      by (auto simp: u_def dict_simps)
    have "close_channel (close_channel c) = close_channel c" for c :: "'x channel" by (simp add: close_channel_def)
    moreover have "drain_streams (j # ks) s = drain_streams ks u" using Some by (simp add: u_def)
    ultimately show ?thesis using Cons.IH [of u] Cons.prems Some by (auto simp: u)
  qed
qed simp

lemma notify_all_same:
  "inboxes (notify_all qs d s) = inboxes s \<and> streams (notify_all qs d s) = streams s
   \<and> outboxes (notify_all qs d s) = outboxes s \<and> futures (notify_all qs d s) = futures s
   \<and> sessions (notify_all qs d s) = sessions s \<and> waiters (notify_all qs d s) = waiters s
   \<and> call_sessions (notify_all qs d s) = call_sessions s \<and> progress (notify_all qs d s) = progress s
   \<and> outbound (notify_all qs d s) = outbound s"
  by (induction qs d s rule: notify_all.induct) (simp_all split: sum.split)

lemma reject_same:
  "inboxes (reject_inbox_full ft i fr s) = inboxes s \<and> streams (reject_inbox_full ft i fr s) = streams s
   \<and> futures (reject_inbox_full ft i fr s) = futures s \<and> sessions (reject_inbox_full ft i fr s) = sessions s
   \<and> waiters (reject_inbox_full ft i fr s) = waiters s \<and> call_sessions (reject_inbox_full ft i fr s) = call_sessions s
   \<and> progress (reject_inbox_full ft i fr s) = progress s"
  by (simp add: reject_inbox_full_def split: option.split sum.split)

lemma route_response_cases:
  obtains "route_response ft d s = (Unrouted, s)"
    | rid where "route_response ft d s = (Unrouted, snd (take_response_waiter rid s))" "dict_get (waiters s) rid = None"
    | rid f where "route_response ft d s = (Response, snd (fulfill f (parsed_response d) (snd (take_response_waiter rid s))))"
        "dict_get (waiters s) rid = Some f"
proof (cases "dict_get d ''id''")
  case None
  then show thesis using that(1) by (simp add: route_response_def)
next
  case (Some i)
  show thesis
  proof (cases "match_request_id ft i")
    case None
    then show thesis using that(1) Some by (simp add: route_response_def)
  next
    case rid: (Some rid)
    have r: "route_response ft d s =
        (case take_response_waiter rid s of
           (None, s) \<Rightarrow> (Unrouted, s) | (Some f, s) \<Rightarrow> (Response, snd (fulfill f (parsed_response d) s)))"
      by (simp add: route_response_def Some rid)
    show thesis
    proof (cases "dict_get (waiters s) rid")
      case None
      then show thesis using that(2) [of rid] r by (simp add: take_response_waiter_def)
    next
      case (Some f)
      then show thesis using that(3) [where rid = rid and f = f] r by (simp add: take_response_waiter_def)
    qed
  qed
qed

lemma route_progress_cases:
  obtains out where "route_progress d s = (out, s)"
    | cid where "route_progress d s = (ProgressDropped, s\<lparr>progress := dict_pop cid (progress s)\<rparr>)"
    | cid p x c where "route_progress d s = (Progress, s\<lparr>streams := (streams s)(p := c)\<rparr>)"
        "dict_get (progress s) cid = Some p" "try_send x (streams s p) = Inr c"
proof (cases "progress_call d")
  case None
  then show thesis using that(1) by (simp add: route_progress_def)
next
  case (Some q)
  obtain ps cid where q: "q = (ps, cid)" by (cases q)
  show thesis
  proof (cases "dict_get (progress s) cid")
    case None
    then show thesis using that(1) Some q by (simp add: route_progress_def)
  next
    case p: (Some p)
    show thesis
    proof (cases "tool_call_progress_frame_from_wire (JDict ps)")
      case (Inl e)
      then show thesis using that(1) Some q p by (simp add: route_progress_def)
    next
      case (Inr fr)
      show thesis
      proof (cases "try_send fr (streams s p)")
        case (Inl e)
        then show thesis using that(1,2) Some q p Inr by (cases e) (simp_all add: route_progress_def)
      next
        case c: (Inr c)
        with Some q p Inr show thesis by (auto simp: route_progress_def intro: that(3))
      qed
    qed
  qed
qed

lemma route_session_cases:
  obtains out where "route_session ft d s = (out, s)" "frame_session d = None \<or> dict_get (sessions s) (the (frame_session d)) = None"
    | sid b where "route_session ft d s = (InboxFull, reject_inbox_full ft sid (to_inbound d) s)"
        "frame_session d = Some sid" "dict_get (sessions s) sid = Some b" "try_send (to_inbound d) (inboxes s b) = Inl QueueFull"
    | sid b where "route_session ft d s = (SessionDropped, s\<lparr>sessions := dict_pop sid (sessions s)\<rparr>)"
        "frame_session d = Some sid" "dict_get (sessions s) sid = Some b" "try_send (to_inbound d) (inboxes s b) = Inl MpscClosed"
    | sid b c where "route_session ft d s = (Session, s\<lparr>inboxes := (inboxes s)(b := c)\<rparr>)"
        "frame_session d = Some sid" "dict_get (sessions s) sid = Some b" "try_send (to_inbound d) (inboxes s b) = Inr c"
proof (cases "frame_session d")
  case None
  then show thesis using that(1) by (simp add: route_session_def)
next
  case (Some sid)
  show thesis
  proof (cases "dict_get (sessions s) sid")
    case None
    then show thesis using that(1) Some by (simp add: route_session_def)
  next
    case b: (Some b)
    show thesis
    proof (cases "try_send (to_inbound d) (inboxes s b)")
      case (Inl e)
      with Some b show thesis by (cases e) (auto simp: route_session_def intro: that(2,3))
    next
      case (Inr c)
      with Some b show thesis by (auto simp: route_session_def intro: that(4))
    qed
  qed
qed

section \<open>The tables stay in step\<close>

definition demux_ok :: "demux \<Rightarrow> bool" where
  "demux_ok s \<longleftrightarrow>
     dict_ok (waiters s) \<and> dict_ok (call_sessions s) \<and> dict_ok (sessions s) \<and> dict_ok (progress s)
     \<and> set (dict_keys (call_sessions s)) \<subseteq> set (dict_keys (waiters s))"

text \<open>
  The histories of a router: every operation of the class in any order, and anything the other
  holders of its channels and futures may do to them.
\<close>

inductive demux_reachable :: "(rat \<Rightarrow> string) \<Rightarrow> demux \<Rightarrow> bool" for ft where
  start: "demux_reachable ft (new_demux h)"
| out: "demux_reachable ft s \<Longrightarrow> demux_reachable ft (with_outbound b s)"
| subscribe: "demux_reachable ft s \<Longrightarrow> demux_reachable ft (subscribe_notifications q s)"
| open_session: "demux_reachable ft s \<Longrightarrow> demux_reachable ft (snd (register_session_inbox sid b s))"
| close_session: "demux_reachable ft s \<Longrightarrow> demux_reachable ft (snd (unregister_session_inbox sid s))"
| wait: "demux_reachable ft s \<Longrightarrow> demux_reachable ft (register_response_waiter rid f s)"
| call: "demux_reachable ft s \<Longrightarrow> demux_reachable ft (register_call_response_waiter rid sid f s)"
| take: "demux_reachable ft s \<Longrightarrow> demux_reachable ft (snd (take_response_waiter rid s))"
| fail: "demux_reachable ft s \<Longrightarrow> demux_reachable ft (snd (fail_calls_for_session sid e s))"
| drain: "demux_reachable ft s \<Longrightarrow> demux_reachable ft (drain_waiters_with e s)"
| stream: "demux_reachable ft s \<Longrightarrow> demux_reachable ft (snd (try_register_progress_waiter cid p s))"
| unstream: "demux_reachable ft s \<Longrightarrow> demux_reachable ft (snd (unregister_progress_waiter cid s))"
| end_streams: "demux_reachable ft s \<Longrightarrow> demux_reachable ft (drain_progress s)"
| frame: "demux_reachable ft s \<Longrightarrow> demux_reachable ft (snd (route ft d s))"
| others: "demux_reachable ft s \<Longrightarrow>
    demux_reachable ft (s\<lparr>inboxes := i, streams := p, outboxes := o', queues := q, futures := f\<rparr>)"

lemma demux_ok_cong:
  "demux_ok s \<Longrightarrow> waiters t = waiters s \<Longrightarrow> call_sessions t = call_sessions s \<Longrightarrow>
   sessions t = sessions s \<Longrightarrow> progress t = progress s \<Longrightarrow> demux_ok t"
  by (simp add: demux_ok_def)

lemma take_ok: "demux_ok s \<Longrightarrow> demux_ok (snd (take_response_waiter rid s))"
  unfolding demux_ok_def take_response_waiter_def by (auto simp: dict_keys_pop simp del: set_map)

lemma fulfill_ok: "demux_ok s \<Longrightarrow> demux_ok (snd (fulfill f a s))"
  by (erule demux_ok_cong) simp_all

lemma fail_calls_ok: "demux_ok s \<Longrightarrow> demux_ok (snd (fail_calls rids e s))"
proof (induction rids arbitrary: s)
  case (Cons rid rids)
  have "demux_ok (snd (fail_calls rids e (snd (take_response_waiter rid s))))"
    and "demux_ok (snd (fail_calls rids e (snd (fulfill f (Failed e) (snd (take_response_waiter rid s))))))" for f
    by (intro Cons.IH fulfill_ok take_ok Cons.prems)+
  then show ?case by (auto simp: fail_calls_step Let_def split: option.split)
qed simp

lemma drain_ok: "demux_ok s \<Longrightarrow> demux_ok (drain_waiters ks e s)"
proof (induction ks arbitrary: s)
  case (Cons k ks)
  have "demux_ok (s\<lparr>waiters := dict_pop k (waiters s), call_sessions := dict_pop k (call_sessions s)\<rparr>)"
    using Cons.prems unfolding demux_ok_def by (auto simp: dict_keys_pop simp del: set_map)
  then have "demux_ok (drain_waiters ks e (snd (fulfill f (Failed e)
      (s\<lparr>waiters := dict_pop k (waiters s), call_sessions := dict_pop k (call_sessions s)\<rparr>))))" for f
    by (intro Cons.IH fulfill_ok)
  with Cons show ?case by (simp split: option.split)
qed simp

lemma pop_ok:
  "demux_ok s \<Longrightarrow> demux_ok (s\<lparr>sessions := dict_pop k (sessions s)\<rparr>)"
  "demux_ok s \<Longrightarrow> demux_ok (s\<lparr>progress := dict_pop k (progress s)\<rparr>)"
  "demux_ok s \<Longrightarrow> demux_ok (s\<lparr>inboxes := i\<rparr>)"
  "demux_ok s \<Longrightarrow> demux_ok (s\<lparr>streams := p\<rparr>)"
  by (simp_all add: demux_ok_def)

lemma drain_streams_ok: "demux_ok s \<Longrightarrow> demux_ok (drain_streams ks s)"
proof (induction ks arbitrary: s)
  case (Cons k ks)
  have "demux_ok (s\<lparr>progress := dict_pop k (progress s), streams := p\<rparr>)" for p
    using Cons.prems by (simp add: demux_ok_def)
  with Cons show ?case by (simp split: option.split)
qed simp

lemma route_ok:
  assumes "demux_ok s"
  shows "demux_ok (snd (route ft d s))"
proof -
  have "demux_ok (snd (route_response ft d s))"
    by (rule route_response_cases [of ft d s]) (use assms in \<open>simp_all add: take_ok fulfill_ok\<close>)
  moreover have "demux_ok (snd (route_progress d s))"
    by (rule route_progress_cases [of d s]) (use assms in \<open>simp_all add: pop_ok\<close>)
  moreover have "demux_ok (snd (route_session ft d s))"
    by (rule route_session_cases [of ft d s])
      (use assms in \<open>simp_all add: pop_ok demux_ok_cong [OF assms] reject_same\<close>)
  moreover have "demux_ok (notify_all (subscribers s) d s)"
    by (rule demux_ok_cong [OF assms]) (simp_all add: notify_all_same)
  ultimately show ?thesis using assms by (simp add: route_def)
qed

lemma reachable_ok: "demux_reachable ft s \<Longrightarrow> demux_ok s"
proof (induction rule: demux_reachable.induct)
  case (call s rid sid f)
  then show ?case unfolding demux_ok_def register_call_response_waiter_def by (auto simp del: set_map)
next
  case (wait s rid f)
  then show ?case unfolding demux_ok_def register_response_waiter_def by (auto simp del: set_map)
qed (simp_all add: route_ok take_ok fail_calls_ok drain_ok drain_streams_ok fail_calls_for_session_def
    drain_waiters_with_def drain_progress_def,
  simp_all add: demux_ok_def new_demux_def heap.defs with_outbound_def subscribe_notifications_def
    register_session_inbox_def unregister_session_inbox_def try_register_progress_waiter_def
    unregister_progress_waiter_def)

lemma dict_empty_iff: "d = [] \<longleftrightarrow> (\<forall>k. dict_get d k = None)"
  by (metis map_of_eq_empty_iff ext)

text \<open>
  C14: Whatever happened before, when the connection is lost every call still waiting for its response
  is failed with the given error, no table of waiters or calls keeps an entry, and futures that were
  already resolved or cancelled, inboxes and streams are left alone.
\<close>

theorem drain_resolves_all:
  assumes "demux_reachable ft s"
  shows "waiters (drain_waiters_with e s) = [] \<and> call_sessions (drain_waiters_with e s) = []
     \<and> futures (drain_waiters_with e s) =
         (\<lambda>f. if f \<in> set (dict_values (waiters s)) \<and> futures s f = Pending then Done (Failed e) else futures s f)
     \<and> same_heap_channels s (drain_waiters_with e s)"
proof -
  have ok: "demux_ok s" using reachable_ok [OF assms] .
  then have "distinct (dict_keys (waiters s))" by (simp add: demux_ok_def)
  note spec = drain_waiters_spec [OF this, where e = e and s = s]
  have "dict_get (waiters (drain_waiters_with e s)) r = None" for r
    using spec [where r = r] dict_has_iff [of "waiters s" r] not_dict_has [of "waiters s" r]
    by (auto simp: drain_waiters_with_def)
  moreover have "dict_get (call_sessions (drain_waiters_with e s)) r = None" for r
    using spec [where r = r] ok dict_has_iff [of "waiters s" r] not_dict_has [of "call_sessions s" r] dict_has_iff [of "call_sessions s" r]
    unfolding demux_ok_def drain_waiters_with_def by auto
  moreover have "f \<in> failing (dict_keys (waiters s)) s \<longleftrightarrow> f \<in> set (dict_values (waiters s)) \<and> futures s f = Pending" for f
  proof -
    have "(\<exists>r\<in>set (dict_keys (waiters s)). dict_get (waiters s) r = Some f) \<longleftrightarrow> f \<in> set (dict_values (waiters s))"
      using dict_values_iff [of "waiters s" f] ok dict_hasI dict_has_iff [of "waiters s"]
      by (metis demux_ok_def)
    then show ?thesis by (simp add: failing_def)
  qed
  ultimately show ?thesis
    using spec by (auto simp: drain_waiters_with_def dict_empty_iff)
qed

text \<open>Two calls and one hook acknowledgement wait; one of the calls was cancelled by its caller.\<close>

definition sample_heap :: heap where
  "sample_heap =
     \<lparr>inboxes = (\<lambda>_. mpsc_channel 1), streams = (\<lambda>_. mpsc_channel 4), outboxes = (\<lambda>_. mpsc_channel 4),
      queues = (\<lambda>_. mpsc_channel 4), futures = (\<lambda>n. if n = 2 then Cancelled else Pending)\<rparr>"

definition sample_demux :: demux where
  "sample_demux =
     register_response_waiter ''h'' 3
       (register_call_response_waiter ''2'' ''s2'' 2 (register_call_response_waiter ''1'' ''s1'' 1 (new_demux sample_heap)))"

lemma sample_reachable: "demux_reachable ft sample_demux"
  unfolding sample_demux_def by (intro demux_reachable.intros)

theorem drain_resolves_all_witness:
  "waiters (drain_waiters_with (NetworkError (JStr ''lost'')) sample_demux) = []
   \<and> map (futures (drain_waiters_with (NetworkError (JStr ''lost'')) sample_demux)) [1, 2, 3, 4]
       = [Done (Failed (NetworkError (JStr ''lost''))), Cancelled, Done (Failed (NetworkError (JStr ''lost''))), Pending]"
  using drain_resolves_all [OF sample_reachable, where e = "NetworkError (JStr ''lost'')"]
  by (simp add: sample_demux_def sample_heap_def register_response_waiter_def register_call_response_waiter_def
      new_demux_def heap.defs)

definition pending_calls :: "string \<Rightarrow> demux \<Rightarrow> nat set" where
  "pending_calls sid s =
     {f. (\<exists>r. dict_get (call_sessions s) r = Some sid \<and> dict_get (waiters s) r = Some f) \<and> futures s f = Pending}"

text \<open>
  Failing the calls of a session resolves exactly its pending calls, counts them, and removes its
  calls from the tables; the waiters of other sessions and of hook acknowledgements stay.
\<close>

theorem fail_calls_for_session_exact:
  assumes "demux_reachable ft s"
  shows "(\<forall>r. dict_get (waiters (snd (fail_calls_for_session sid e s))) r =
              (if dict_get (call_sessions s) r = Some sid then None else dict_get (waiters s) r))
     \<and> futures (snd (fail_calls_for_session sid e s)) =
         (\<lambda>f. if f \<in> pending_calls sid s then Done (Failed e) else futures s f)
     \<and> fst (fail_calls_for_session sid e s) =
         card (pending_calls sid s)"
proof -
  define rids where "rids = map fst (filter (\<lambda>(rid, t). t = sid) (call_sessions s))"
  have ok: "dict_ok (call_sessions s)" using reachable_ok [OF assms] by (simp add: demux_ok_def)
  then have "distinct rids" unfolding rids_def by (induction "call_sessions s") (auto simp: distinct_map_filter)
  moreover have "r \<in> set rids \<longleftrightarrow> dict_get (call_sessions s) r = Some sid" for r
    using dict_get_iff [OF ok] by (force simp: rids_def)
  moreover from this have "failing rids s = pending_calls sid s" by (auto simp: failing_def pending_calls_def)
  ultimately show ?thesis
    using fail_calls_spec [of rids, where e = e and s = s] by (simp add: fail_calls_for_session_def rids_def [symmetric])
qed

theorem fail_calls_for_session_exact_witness:
  "fst (fail_calls_for_session ''s1'' (NetworkError (JStr ''gone'')) sample_demux) = 1
   \<and> futures (snd (fail_calls_for_session ''s1'' (NetworkError (JStr ''gone'')) sample_demux)) 3 = Pending"
proof -
  have w: "dict_get (call_sessions sample_demux) r = Some ''s1'' \<longleftrightarrow> r = ''1''"
    "dict_get (waiters sample_demux) ''1'' = Some 1" "futures sample_demux 1 = Pending" "futures sample_demux 3 = Pending" for r
    by (auto simp: sample_demux_def sample_heap_def register_response_waiter_def register_call_response_waiter_def
      new_demux_def heap.defs)
  then have "pending_calls ''s1'' sample_demux = {1}" by (auto simp: pending_calls_def)
  with fail_calls_for_session_exact [OF sample_reachable, where sid = "''s1''" and e = "NetworkError (JStr ''gone'')"] w
  show ?thesis by auto
qed

section \<open>Responses\<close>

definition response_frame :: "(string \<times> json) list \<Rightarrow> bool" where
  "response_frame d \<longleftrightarrow> dict_has d ''result'' \<or> dict_has d ''error''"

definition response_id :: "(rat \<Rightarrow> string) \<Rightarrow> (string \<times> json) list \<Rightarrow> string option" where
  "response_id ft d = (case dict_get d ''id'' of None \<Rightarrow> None | Some i \<Rightarrow> match_request_id ft i)"

lemma route_response_waiting:
  assumes "response_frame d" and "response_id ft d = Some rid" and "dict_get (waiters s) rid = Some f"
  shows "route ft d s = (Response, snd (fulfill f (parsed_response d) (snd (take_response_waiter rid s))))"
  using assms
  by (auto simp: route_def response_frame_def response_id_def route_response_def take_response_waiter_def
      split: option.splits)

lemma route_response_not_waiting:
  assumes "response_frame d" and "response_id ft d = Some rid" and "dict_get (waiters s) rid = None"
  shows "route ft d s = (Unrouted, snd (take_response_waiter rid s))"
  using assms
  by (auto simp: route_def response_frame_def response_id_def route_response_def take_response_waiter_def
      split: option.splits)

text \<open>
  C22: A response whose identifier is waited for resolves that future, and no other, with the parsed
  response or the error of parsing it; the waiter is gone afterwards, so the same response a second
  time finds nobody and changes nothing.
\<close>

theorem response_resolves_once:
  assumes "response_frame d" and "response_id ft d = Some rid"
    and "dict_get (waiters s) rid = Some f" and "futures s f = Pending" and "route ft d s = (out, t)"
  shows "out = Response
     \<and> futures t = (futures s)(f := Done (parsed_response d))
     \<and> dict_get (waiters t) = (dict_get (waiters s))(rid := None)
     \<and> same_heap_channels s t
     \<and> fst (route ft d t) = Unrouted \<and> futures (snd (route ft d t)) = futures t"
proof -
  have r: "out = Response" "t = snd (fulfill f (parsed_response d) (snd (take_response_waiter rid s)))"
    using route_response_waiting [OF assms(1-3)] assms(5) by simp_all
  have gone: "dict_get (waiters t) rid = None" by (simp add: r dict_simps)
  show ?thesis
    using route_response_not_waiting [OF assms(1,2) gone] assms(4)
    by (auto simp: r dict_simps fun_eq_iff same_heap_channels_def take_response_waiter_def)
qed

lemma sample_waits: "dict_get (waiters sample_demux) ''1'' = Some 1" "futures sample_demux 1 = Pending"
  by (simp_all add: sample_demux_def sample_heap_def register_response_waiter_def register_call_response_waiter_def
      new_demux_def heap.defs)

theorem response_resolves_once_witness:
  "futures (snd (route (\<lambda>_. []) [(''jsonrpc'', JStr ''2.0''), (''id'', JInt 1), (''result'', JBool True)] sample_demux)) 1 =
     Done (Answered (ok_response (JsonRpcIdNumber 1) (JBool True) None))"
proof -
  define d where "d = [(''jsonrpc'', JStr ''2.0''), (''id'', JInt 1), (''result'', JBool True)]"
  have d: "response_frame d" "response_id (\<lambda>_. []) d = Some ''1''"
    unfolding d_def by code_simp+
  from response_resolves_once [OF d sample_waits prod.collapse [symmetric]]
  have "futures (snd (route (\<lambda>_. []) d sample_demux)) 1 = Done (parsed_response d)" by simp
  moreover have "parsed_response d = Answered (ok_response (JsonRpcIdNumber 1) (JBool True) None)"
    unfolding d_def by code_simp
  ultimately show ?thesis by (simp add: d_def)
qed

lemma response_to_wire_pairs:
  obtains ps where "json_rpc_response_to_wire enc r = JDict ps"
    and "dict_get ps ''id'' = Some (json_rpc_id_to_wire (json_rpc_response.id_value r))"
    and "response_frame ps"
  by (cases "outcome r")
    (auto simp: json_rpc_response_to_wire_def response_frame_def dict_has_def intro!: that)

definition wire_pairs :: "json \<Rightarrow> (string \<times> json) list" where
  "wire_pairs v = (case v of JDict d \<Rightarrow> d | _ \<Rightarrow> [])"

text \<open>
  The response a peer writes for a waiting call reaches the call: as the response it was, except
  that a success without a value (a null result) fails the call with a parse error.
\<close>

theorem written_response_reaches_call:
  assumes "json_rpc_response_ok r" and "d = wire_pairs (json_rpc_response_to_wire enc r)"
    and "match_request_id ft (json_rpc_id_to_wire (json_rpc_response.id_value r)) = Some rid"
    and "dict_get (waiters s) rid = Some f" and "futures s f = Pending"
  shows "futures (snd (route ft d s)) f =
     Done (if sent_outcome enc (outcome r) = ResponseResult JNull then Unreadable ValueError
           else Answered \<lparr>id_value = json_rpc_response.id_value r, outcome = sent_outcome enc (outcome r),
             session_id = json_rpc_response.session_id r\<rparr>)"
proof -
  obtain ps where ps: "json_rpc_response_to_wire enc r = JDict ps"
    "dict_get ps ''id'' = Some (json_rpc_id_to_wire (json_rpc_response.id_value r))" "response_frame ps"
    using response_to_wire_pairs [of enc r] .
  then have d: "d = ps" using assms(2) by (simp add: wire_pairs_def)
  have i: "response_id ft d = Some rid" using ps assms(3) by (simp add: d response_id_def)
  have "futures (snd (route ft d s)) f = Done (parsed_response d)"
    using response_resolves_once [OF _ i assms(4,5) prod.collapse [symmetric]] ps(3) by (simp add: d)
  then show ?thesis
    using response_back [OF assms(1), of enc] ps(1) by (simp add: parsed_response_def d)
qed

text \<open>The call with identifier 1 succeeds without a value and is failed.\<close>

theorem written_response_reaches_call_witness:
  "futures (snd (route (\<lambda>_. [])
       (wire_pairs (json_rpc_response_to_wire (\<lambda>v. v) (ok_response (JsonRpcIdNumber 1) JNull None))) sample_demux)) 1
   = Done (Unreadable ValueError)"
proof -
  define r :: "json json_rpc_response" where "r = ok_response (JsonRpcIdNumber 1) JNull None"
  have "json_rpc_response_ok r"
    by (simp add: r_def json_rpc_response_ok_def ok_response_def I64_MIN_def I64_MAX_def)
  moreover have "match_request_id (\<lambda>_. []) (json_rpc_id_to_wire (json_rpc_response.id_value r)) = Some ''1''"
    unfolding r_def by code_simp
  ultimately have "futures (snd (route (\<lambda>_. []) (wire_pairs (json_rpc_response_to_wire (\<lambda>v. v) r)) sample_demux)) 1 =
      Done (if sent_outcome (\<lambda>v. v) (outcome r) = ResponseResult JNull then Unreadable ValueError
           else Answered \<lparr>id_value = json_rpc_response.id_value r, outcome = sent_outcome (\<lambda>v. v) (outcome r),
             session_id = json_rpc_response.session_id r\<rparr>)"
    using written_response_reaches_call [OF _ refl _ sample_waits] by blast
  then show ?thesis by (simp add: r_def ok_response_def)
qed

section \<open>Sessions\<close>

text \<open>The frames of a session: neither a response nor progress, and carrying its identifier.\<close>

definition for_session :: "string \<Rightarrow> (string \<times> json) list \<Rightarrow> bool" where
  "for_session sid d \<longleftrightarrow>
     \<not> response_frame d \<and> dict_get d ''method'' \<noteq> Some (JStr METHOD_TOOL_CALL_PROGRESS)
     \<and> frame_session d = Some sid"

lemma frame_session_has: "frame_session d = Some sid \<Longrightarrow> dict_has d ''session_id''"
  by (auto simp: frame_session_def dict_has_def split: option.splits)

text \<open>An inbox that belongs to one session only and has a receiver.\<close>

definition own_inbox :: "string \<Rightarrow> nat \<Rightarrow> demux \<Rightarrow> bool" where
  "own_inbox sid b s \<longleftrightarrow>
     dict_get (sessions s) sid = Some b \<and> (\<forall>i. dict_get (sessions s) i = Some b \<longrightarrow> i = sid)
     \<and> \<not> closed (inboxes s b)"

lemma route_to_inbox:
  assumes "own_inbox sid b s"
  shows "own_inbox sid b (snd (route ft d s))
     \<and> capacity (inboxes (snd (route ft d s)) b) = capacity (inboxes s b)
     \<and> buffer (inboxes (snd (route ft d s)) b) =
         (if for_session sid d \<and> \<not> full (inboxes s b) then buffer (inboxes s b) @ [to_inbound d] else buffer (inboxes s b))"
proof -
  have same: ?thesis if "inboxes (snd (route ft d s)) = inboxes s" "sessions (snd (route ft d s)) = sessions s"
    "\<not> for_session sid d \<or> full (inboxes s b)"
    using that assms by (auto simp: own_inbox_def)
  show ?thesis
  proof (cases "response_frame d")
    case True
    then have "route ft d s = route_response ft d s" by (simp add: route_def response_frame_def)
    moreover have "\<not> for_session sid d" using True by (simp add: for_session_def)
    ultimately show ?thesis
      using take_simps(4) same
      by (cases rule: route_response_cases [of ft d s]) (simp_all add: same_heap_channels_def)
  next
    case not_resp: False
    show ?thesis
    proof (cases "dict_get d ''method'' = Some (JStr METHOD_TOOL_CALL_PROGRESS)")
      case True
      then have "route ft d s = route_progress d s" using not_resp by (simp add: route_def response_frame_def)
      moreover have "\<not> for_session sid d" using True by (simp add: for_session_def)
      ultimately show ?thesis using same by (cases rule: route_progress_cases [of d s]) simp_all
    next
      case not_prog: False
      show ?thesis
      proof (cases "dict_has d ''session_id''")
        case True
        then have r: "route ft d s = route_session ft d s"
          using not_resp not_prog by (simp add: route_def response_frame_def)
        have fs: "for_session sid d \<longleftrightarrow> frame_session d = Some sid"
          using not_resp not_prog by (simp add: for_session_def)
        show ?thesis
        proof (cases rule: route_session_cases [of ft d s])
          case (1 out)
          have "dict_get (sessions s) sid = Some b" using assms by (simp add: own_inbox_def)
          with 1(2) have "frame_session d \<noteq> Some sid" by force
          then show ?thesis using same r fs 1 by simp
        next
          case (2 sid' b')
          have b: "dict_get (sessions s) sid = Some b" using assms by (simp add: own_inbox_def)
          have "full (inboxes s b')" using 2(4) by (simp add: try_send_def put_nowait_def split: if_splits)
          moreover have "b' = b" if "for_session sid d" using that fs 2(2,3) b by simp
          ultimately have "\<not> for_session sid d \<or> full (inboxes s b)" by blast
          then show ?thesis by (intro same) (simp_all add: r 2(1) reject_same)
        next
          case (3 sid' b')
          have b: "dict_get (sessions s) sid = Some b" "\<not> closed (inboxes s b)" using assms by (simp_all add: own_inbox_def)
          have "closed (inboxes s b')" using 3(4) by (simp add: try_send_def put_nowait_def split: if_splits)
          with b 3(3) have "sid' \<noteq> sid" by auto
          moreover have "\<not> for_session sid d" using fs 3(2) \<open>sid' \<noteq> sid\<close> by simp
          ultimately show ?thesis using assms by (simp add: r 3(1) own_inbox_def dict_simps)
        next
          case (4 sid' b' c)
          have c: "c = (inboxes s b')\<lparr>buffer := buffer (inboxes s b') @ [to_inbound d]\<rparr>" "\<not> full (inboxes s b')"
            using try_send_Inr [OF 4(4)] by simp_all
          have b: "dict_get (sessions s) sid = Some b" using assms by (simp add: own_inbox_def)
          have sessions: "sessions (snd (route ft d s)) = sessions s" by (simp add: r 4(1))
          show ?thesis
          proof (cases "sid' = sid")
            case True
            have "b' = b" "for_session sid d" using 4(2,3) b fs True by simp_all
            moreover from this have "\<not> closed (inboxes (snd (route ft d s)) b)"
              using assms c(1) by (simp add: r 4(1) own_inbox_def)
            ultimately show ?thesis using assms c sessions by (auto simp: r 4(1) own_inbox_def)
          next
            case False
            then have "b' \<noteq> b" using 4(3) assms unfolding own_inbox_def by blast
            moreover have "\<not> for_session sid d" using False 4(2) fs by simp
            ultimately show ?thesis using assms by (simp add: r 4(1) own_inbox_def)
          qed
        qed
      next
        case False
        then have "\<not> for_session sid d" using frame_session_has by (auto simp: for_session_def)
        then show ?thesis
          using same False not_resp not_prog by (simp add: route_def response_frame_def notify_all_same)
      qed
    qed
  qed
qed

definition route_all :: "(rat \<Rightarrow> string) \<Rightarrow> (string \<times> json) list list \<Rightarrow> demux \<Rightarrow> demux" where
  "route_all ft ds s = fold (\<lambda>d s. snd (route ft d s)) ds s"

text \<open>What fits into a channel.\<close>

definition accepted :: "'a channel \<Rightarrow> 'a list \<Rightarrow> 'a list" where
  "accepted c xs = (if capacity c \<le> 0 then xs else take (nat (capacity c) - length (buffer c)) xs)"

lemma accepted_Cons:
  "accepted c (x # xs) =
     (if full c then [] else x # accepted (c\<lparr>buffer := buffer c @ [x]\<rparr>) xs)"
proof (cases "capacity c \<le> 0 \<or> full c")
  case True
  then show ?thesis by (auto simp: accepted_def full_def)
next
  case False
  define n where "n = nat (capacity c) - length (buffer c @ [x])"
  have "nat (capacity c) - length (buffer c) = Suc n"
    using False by (auto simp: n_def full_def not_le Suc_diff_Suc)
  then have "accepted c (x # xs) = x # take n xs" using False by (simp add: accepted_def)
  moreover have "accepted (c\<lparr>buffer := buffer c @ [x]\<rparr>) xs = take n xs" using False by (simp add: accepted_def n_def)
  ultimately show ?thesis using False by simp
qed

lemma accepted_full: "full c \<Longrightarrow> accepted c xs = []"
  by (auto simp: accepted_def full_def)

text \<open>
  C15: Whatever frames arrive in whatever order, an inbox that one session owns gets the frames of
  that session, in their order and marked as requests or notifications, as many as it has room for,
  and nothing else.
\<close>

theorem session_inbox_fifo:
  assumes "own_inbox sid b s"
  shows "buffer (inboxes (route_all ft ds s) b) =
     buffer (inboxes s b) @ accepted (inboxes s b) (map to_inbound (filter (for_session sid) ds))"
  using assms
proof (induction ds arbitrary: s)
  case Nil
  then show ?case by (simp add: route_all_def accepted_def)
next
  case (Cons d ds)
  define t where "t = snd (route ft d s)"
  have t: "own_inbox sid b t" "capacity (inboxes t b) = capacity (inboxes s b)"
    "buffer (inboxes t b) =
       (if for_session sid d \<and> \<not> full (inboxes s b) then buffer (inboxes s b) @ [to_inbound d] else buffer (inboxes s b))"
    using route_to_inbox [OF Cons.prems, of ft d] by (simp_all add: t_def)
  have step: "route_all ft (d # ds) s = route_all ft ds t" by (simp add: route_all_def t_def)
  have "accepted (inboxes t b) xs =
      accepted (if for_session sid d \<and> \<not> full (inboxes s b)
                then (inboxes s b)\<lparr>buffer := buffer (inboxes s b) @ [to_inbound d]\<rparr> else inboxes s b) xs" for xs
    using t by (auto simp: accepted_def)
  then show ?case
    using Cons.IH [OF t(1)] t(3) by (auto simp: step accepted_Cons accepted_full)
qed

text \<open>An inbox of one place: the second request of the session finds it full, the frame of another session is not for it.\<close>

definition inbox_demux :: demux where
  "inbox_demux = with_outbound 9 (snd (register_session_inbox ''s1'' 5 sample_demux))"

definition ping :: "string \<Rightarrow> int \<Rightarrow> (string \<times> json) list" where
  "ping sid i = [(''method'', JStr ''ping''), (''id'', JInt i), (''session_id'', JStr sid)]"

lemma inbox_own: "own_inbox ''s1'' 5 inbox_demux"
  by (simp add: own_inbox_def inbox_demux_def with_outbound_def register_session_inbox_def sample_demux_def
      sample_heap_def register_response_waiter_def register_call_response_waiter_def new_demux_def heap.defs mpsc_channel_def)

theorem session_inbox_fifo_witness:
  "buffer (inboxes (route_all (\<lambda>_. []) [ping ''s2'' 1, ping ''s1'' 2, ping ''s1'' 3] inbox_demux) 5) = [to_inbound (ping ''s1'' 2)]"
proof -
  have "map (for_session ''s1'') [ping ''s2'' 1, ping ''s1'' 2, ping ''s1'' 3] = [False, True, True]"
    by code_simp
  moreover have "inboxes inbox_demux 5 = mpsc_channel 1"
    by (simp add: inbox_demux_def with_outbound_def register_session_inbox_def sample_demux_def
      sample_heap_def register_response_waiter_def register_call_response_waiter_def new_demux_def heap.defs)
  ultimately show ?thesis
    using session_inbox_fifo [OF inbox_own, where ft = "\<lambda>_. []" and ds = "[ping ''s2'' 1, ping ''s1'' 2, ping ''s1'' 3]"]
    by (simp add: mpsc_channel_def accepted_def)
qed

section \<open>A full inbox\<close>

text \<open>
  A request that finds the inbox of its session full is not dropped in silence: the outbound
  channel gets, at its end, one frame that reads back as the overload answer with the request's own
  identifier, and nothing else changes.
\<close>

theorem overload_answered:
  assumes "for_session sid d" and "dict_get (sessions s) sid = Some b"
    and "full (inboxes s b)" and "\<not> closed (inboxes s b)"
    and "dict_get d ''id'' = Some v" and "jsonrpc_id_from_wire v = Inr i"
    and "outbound s = Some out" and "\<not> full (outboxes s out)" and "\<not> closed (outboxes s out)"
  shows "\<exists>w. route ft d s = (InboxFull, s\<lparr>outboxes := (outboxes s)
              (out := (outboxes s out)\<lparr>buffer := buffer (outboxes s out) @ [w]\<rparr>)\<rparr>)
     \<and> JsonRpcResponse_from_wire w = Inr (overloaded_response i sid)"
proof -
  define w where "w = json_rpc_response_to_wire (\<lambda>v. v) (overloaded_response i sid)"
  have sid: "frame_session d = Some sid" using assms(1) by (simp add: for_session_def)
  then have "sid \<noteq> []"
    by (auto simp: frame_session_def checked_def SessionId_def opaque_id_def ensure_non_empty_def split: option.splits json.splits sum.splits if_splits)
  moreover have "json_rpc_id_ok i" using assms(6) by (rule JsonRpcId.dec_ok)
  ultimately have "JsonRpcResponse_from_wire w = Inr (overloaded_response i sid)"
    unfolding w_def by (intro overloaded_response_read)
  moreover have "echo_id ft d = i" using assms(5,6) by (simp add: echo_id_def raw_value_def)
  then have "route ft d s = (InboxFull, s\<lparr>outboxes := (outboxes s)
      (out := (outboxes s out)\<lparr>buffer := buffer (outboxes s out) @ [w]\<rparr>)\<rparr>)"
    using assms sid frame_session_has [OF sid]
    by (simp add: route_def for_session_def response_frame_def route_session_def try_send_def put_nowait_def
        reject_inbox_full_def to_inbound_def dict_has_def w_def)
  ultimately show ?thesis by blast
qed

text \<open>A request waits in the inbox of one place.\<close>

definition full_demux :: demux where
  "full_demux = inbox_demux\<lparr>inboxes := (inboxes inbox_demux)(5 := (mpsc_channel 1)\<lparr>buffer := [to_inbound (ping ''s1'' 2)]\<rparr>)\<rparr>"

theorem overload_answered_witness:
  "\<exists>w. route (\<lambda>_. []) (ping ''s1'' 3) full_demux =
        (InboxFull, full_demux\<lparr>outboxes := (outboxes full_demux)(9 := (mpsc_channel 4)\<lparr>buffer := [w]\<rparr>)\<rparr>)
     \<and> JsonRpcResponse_from_wire w = Inr (overloaded_response (JsonRpcIdNumber 3) ''s1'')"
proof -
  have f: "for_session ''s1'' (ping ''s1'' 3)" "dict_get (ping ''s1'' 3) ''id'' = Some (JInt 3)"
    "jsonrpc_id_from_wire (JInt 3) = Inr (JsonRpcIdNumber 3)"
    by code_simp+
  have s: "dict_get (sessions full_demux) ''s1'' = Some 5" "full (inboxes full_demux 5)" "\<not> closed (inboxes full_demux 5)"
    "outbound full_demux = Some 9" "outboxes full_demux 9 = mpsc_channel 4"
    by (simp_all add: full_demux_def inbox_demux_def with_outbound_def register_session_inbox_def sample_demux_def
      sample_heap_def register_response_waiter_def register_call_response_waiter_def new_demux_def heap.defs
      mpsc_channel_def full_def)
  show ?thesis
    using overload_answered [OF f(1) s(1-3) f(2,3) s(4), where ft = "\<lambda>_. []"] s(5)
    by (simp add: full_def mpsc_channel_def)
qed

section \<open>Closing progress streams\<close>

lemma closed_stream_stays:
  assumes "closed (streams s p)"
  shows "streams (snd (route ft d s)) p = streams s p"
proof -
  have "streams (snd (route_response ft d s)) p = streams s p"
    by (cases rule: route_response_cases [of ft d s]) (simp_all add: take_response_waiter_def)
  moreover have "streams (snd (route_progress d s)) p = streams s p"
  proof (cases rule: route_progress_cases [of d s])
    case (3 cid q x c)
    then have "q \<noteq> p" using assms try_send_Inr [OF 3(3)] by auto
    then show ?thesis by (simp add: 3(1))
  qed simp_all
  moreover have "streams (snd (route_session ft d s)) p = streams s p"
    by (cases rule: route_session_cases [of ft d s]) (simp_all add: reject_same)
  ultimately show ?thesis by (simp add: route_def notify_all_same)
qed

lemma closed_stream_stays_all: "closed (streams s p) \<Longrightarrow> streams (route_all ft ds s) p = streams s p"
  unfolding route_all_def by (induction ds arbitrary: s) (simp_all add: closed_stream_stays)

text \<open>
  Closing the progress streams of a lost connection ends a call's stream for a receiver that comes
  afterwards, but a receiver that already waits for the next frame goes on waiting, whatever arrives
  later.
\<close>

theorem parked_receiver_sleeps:
  assumes "demux_reachable ft s" and "dict_get (progress s) cid = Some p"
    and "fst (recv (streams s p)) = Waiting"
  shows "fst (recv (streams (route_all ft ds (drain_progress s)) p)) = EndOfStream
     \<and> fst (resume_recv (streams (route_all ft ds (drain_progress s)) p)) = Waiting"
proof -
  have ok: "dict_ok (progress s)" using reachable_ok [OF assms(1)] by (simp add: demux_ok_def)
  moreover have "cid \<in> set (dict_keys (progress s))" using assms(2) dict_get_iff [OF ok] by force
  ultimately have c: "streams (drain_progress s) p = close_channel (streams s p)"
    using drain_streams_progress [of "dict_keys (progress s)" s _ p] assms(2) by (auto simp: drain_progress_def)
  have "buffer (streams s p) = []"
    using assms(3) by (simp add: recv_def get_item_from_def split: if_splits list.splits)
  then show ?thesis
    using closed_stream_stays_all [of "drain_progress s" p ft ds]
    by (simp add: c close_channel_def recv_def resume_recv_def get_item_from_def)
qed

text \<open>A call waits for its first progress frame when the connection is lost.\<close>

definition progress_demux :: demux where
  "progress_demux = snd (try_register_progress_waiter ''c1'' 7 sample_demux)"

theorem parked_receiver_sleeps_witness:
  "fst (resume_recv (streams (drain_progress progress_demux) 7)) = Waiting"
proof -
  have "demux_reachable ft progress_demux" for ft
    unfolding progress_demux_def by (intro demux_reachable.intros sample_reachable)
  moreover have "dict_get (progress progress_demux) ''c1'' = Some 7" "fst (recv (streams progress_demux 7)) = Waiting"
    by (simp_all add: progress_demux_def try_register_progress_waiter_def sample_demux_def sample_heap_def
      register_response_waiter_def register_call_response_waiter_def new_demux_def heap.defs
      mpsc_channel_def recv_def get_item_from_def)
  ultimately show ?thesis
    using parked_receiver_sleeps [where ft = "\<lambda>_. []" and ds = "[]"] by (simp add: route_all_def)
qed

end
