(* ===== verification/Hub_Auth.thy ===== *)
theory Hub_Auth
  imports Py_Strings "HOL-Library.Multiset" "HOL-Library.Product_Lexorder"
begin

text \<open>
  The credentials of the tool hub's SDK (\<open>computer_hub_sdk/auth.py\<close>) and the fingerprint under which
  the connection pool files them. A regular expression is a predicate on strings: \<open>$\<close> of Python's
  \<open>re\<close> also matches before a newline at the end. A provider is the credential itself; other
  providers are outside this file. The redacted representations are not modelled.
\<close>

section \<open>Credentials\<close>

record auth_identity =
  user_id :: string
  principal_type :: "string option"
  principal_id :: "string option"

datatype auth_credential =
    BearerCredential string
  | HeadersCredential "(string \<times> string) list"

datatype auth_error = InvalidHeaderName string

definition newline :: char where
  "newline = char_of (10 :: nat)"

text \<open>\<open>[!#$%&'*+\-.^_`|~0-9A-Za-z]\<close>.\<close>

definition token_char :: "char \<Rightarrow> bool" where
  "token_char c =
     (let n = code_point c in
      n \<in> {33, 35, 36, 37, 38, 39, 42, 43, 45, 46, 94, 95, 96, 124, 126}
      \<or> (48 \<le> n \<and> n \<le> 57) \<or> (65 \<le> n \<and> n \<le> 90) \<or> (97 \<le> n \<and> n \<le> 122))"

definition token_name :: "string \<Rightarrow> bool" where
  "token_name s = (s \<noteq> [] \<and> list_all token_char s)"

definition header_token_match :: "string \<Rightarrow> bool" where
  "header_token_match s = (token_name s \<or> (s \<noteq> [] \<and> last s = newline \<and> token_name (butlast s)))"

definition bearer :: "string \<Rightarrow> auth_credential" where
  "bearer token = BearerCredential token"

fun canonical_headers :: "(string \<times> string) list \<Rightarrow> auth_error + (string \<times> string) list" where
  "canonical_headers [] = Inr []"
| "canonical_headers ((raw_name, raw_value) # items) =
     (let name = py_lower raw_name in
      if \<not> header_token_match name then Inl (InvalidHeaderName name)
      else (case canonical_headers items of
              Inl e \<Rightarrow> Inl e
            | Inr canonical \<Rightarrow> Inr ((name, raw_value) # canonical)))"

definition headers :: "(string \<times> string) list \<Rightarrow> auth_error + auth_credential" where
  "headers items =
     (case canonical_headers items of
        Inl e \<Rightarrow> Inl e
      | Inr canonical \<Rightarrow> Inr (HeadersCredential (sort canonical)))"

fun credential_kind :: "auth_credential \<Rightarrow> string" where
  "credential_kind (BearerCredential token) = ''bearer''"
| "credential_kind (HeadersCredential hs) = ''headers''"

definition header_line :: "string \<times> string \<Rightarrow> string" where
  "header_line h = fst h @ ''='' @ snd h @ [newline]"

fun principal_key :: "auth_credential \<Rightarrow> string" where
  "principal_key (BearerCredential token) = ''bearer:'' @ token"
| "principal_key (HeadersCredential hs) = ''headers:'' @ concat (map header_line hs)"

fun upgrade_headers :: "auth_credential \<Rightarrow> (string \<times> string) list" where
  "upgrade_headers (BearerCredential token) = [(''authorization'', ''Bearer '' @ token)]"
| "upgrade_headers (HeadersCredential hs) = hs"

definition current_credential :: "auth_credential \<Rightarrow> auth_credential" where
  "current_credential c = c"

definition credential_identity :: "auth_credential \<Rightarrow> auth_identity option" where
  "credential_identity c = None"

section \<open>Building a bundle\<close>

definition canonical_header :: "string \<times> string \<Rightarrow> string \<times> string" where
  "canonical_header h = (py_lower (fst h), snd h)"

lemma canonical_headers_Inr:
  "canonical_headers items = Inr hs \<longleftrightarrow>
     hs = map canonical_header items \<and> list_all (\<lambda>h. header_token_match (py_lower (fst h))) items"
proof (induction items arbitrary: hs)
  case (Cons h items)
  then show ?case by (cases h; cases "canonical_headers items") (auto simp: Let_def canonical_header_def)
qed auto

lemma headers_Inr:
  "headers items = Inr c \<longleftrightarrow>
     c = HeadersCredential (sort (map canonical_header items))
     \<and> list_all (\<lambda>h. header_token_match (py_lower (fst h))) items"
proof (cases "canonical_headers items")
  case (Inl e)
  then have "\<not> list_all (\<lambda>h. header_token_match (py_lower (fst h))) items"
    using canonical_headers_Inr [of items "map canonical_header items"] by simp
  then show ?thesis by (simp add: headers_def Inl)
next
  case (Inr hs)
  then show ?thesis using canonical_headers_Inr [of items hs] by (auto simp: headers_def)
qed

text \<open>The order in which the headers are given does not matter.\<close>

lemma headers_permuted:
  assumes "mset items = mset items'" and "headers items = Inr c"
  shows "headers items' = Inr c"
proof -
  have "sort (map canonical_header items) = sort (map canonical_header items')"
    using assms(1) by (intro properties_for_sort) simp_all
  moreover have "set items = set items'" using assms(1) by (metis set_mset_mset)
  ultimately show ?thesis using assms(2) by (simp add: headers_Inr list_all_iff)
qed

text \<open>A name that ends in a newline is accepted, although the check is there to refuse it.\<close>

lemma header_name_newline: "headers [(''x'' @ [newline], v)] = Inr (HeadersCredential [(''x'' @ [newline], v)])"
proof -
  have "header_token_match (''x'' @ [newline])" "py_lower (''x'' @ [newline]) = ''x'' @ [newline]" by code_simp+
  then show ?thesis by (simp add: headers_def Let_def)
qed

section \<open>What a fingerprint separates\<close>

text \<open>Headers without newlines; the names are tokens.\<close>

definition plain_header :: "string \<times> string \<Rightarrow> bool" where
  "plain_header h = (token_name (fst h) \<and> newline \<notin> set (snd h))"

fun plain_credential :: "auth_credential \<Rightarrow> bool" where
  "plain_credential (BearerCredential token) = True"
| "plain_credential (HeadersCredential hs) = list_all plain_header hs"

lemma token_chars:
  assumes "token_name s"
  shows "CHR ''='' \<notin> set s" and "newline \<notin> set s"
proof -
  have "\<not> token_char (CHR ''='')" "\<not> token_char newline" by code_simp+
  then show "CHR ''='' \<notin> set s" "newline \<notin> set s" using assms by (auto simp: token_name_def list_all_iff)
qed

lemma split_at_marker:
  assumes "x @ c # s = y @ c # t" and "c \<notin> set x" and "c \<notin> set y"
  shows "x = y \<and> s = t"
proof -
  have "takeWhile (\<lambda>d. d \<noteq> c) (z @ c # u) = z" if "c \<notin> set z" for z u
    using that by (induction z) auto
  from this [OF assms(2), of s] this [OF assms(3), of t] have "x = y" by (simp add: assms(1))
  then show ?thesis using assms(1) by simp
qed

lemma header_line_inject:
  assumes "plain_header h" and "plain_header h'" and "header_line h @ s = header_line h' @ t"
  shows "h = h' \<and> s = t"
proof -
  note h = assms(1,2) [unfolded plain_header_def]
  have "fst h @ CHR ''='' # (snd h @ newline # s) = fst h' @ CHR ''='' # (snd h' @ newline # t)"
    using assms(3) by (simp add: header_line_def)
  from split_at_marker [OF this token_chars(1) token_chars(1)] h
  have name: "fst h = fst h'" "snd h @ newline # s = snd h' @ newline # t" by simp_all
  from split_at_marker [OF name(2)] h have "snd h = snd h'" "s = t" by simp_all
  with name(1) show ?thesis by (simp add: prod_eq_iff)
qed

lemma header_lines_inject:
  "list_all plain_header hs \<Longrightarrow> list_all plain_header hs' \<Longrightarrow>
   concat (map header_line hs) = concat (map header_line hs') \<Longrightarrow> hs = hs'"
proof (induction hs arbitrary: hs')
  case Nil
  then show ?case by (cases hs') (simp_all add: header_line_def)
next
  case (Cons h hs)
  show ?case
  proof (cases hs')
    case Nil
    with Cons.prems show ?thesis by (simp add: header_line_def)
  next
    case (Cons h' rest)
    then show ?thesis using Cons.IH [of rest] Cons.prems header_line_inject [of h h'] by auto
  qed
qed

text \<open>
  Two credentials without newlines in them are filed under the same fingerprint only when they
  are the same credential.
\<close>

theorem fingerprint_separates:
  assumes "plain_credential c" and "plain_credential c'" and "principal_key c = principal_key c'"
  shows "c = c'"
  using assms header_lines_inject by (cases c; cases c') auto

theorem fingerprint_separates_witness:
  "principal_key (HeadersCredential [(''a'', ''1''), (''b'', ''2'')]) \<noteq> principal_key (HeadersCredential [(''a'', ''12'')])"
proof -
  have "plain_credential (HeadersCredential [(''a'', ''1''), (''b'', ''2'')])"
    "plain_credential (HeadersCredential [(''a'', ''12'')])"
    by code_simp+
  then show ?thesis using fingerprint_separates by blast
qed

text \<open>
  C18: The value of a header is not checked, so a bundle can be built whose fingerprint is that of
  another bundle, with one header more: a value that contains a newline takes in the next header.
\<close>

theorem fingerprints_collide:
  assumes "token_name n" and "token_name m" and "py_lower n = n" and "py_lower m = m" and "n < m"
  shows "\<exists>c c'. headers [(n, v @ [newline] @ m @ ''='' @ w)] = Inr c \<and> headers [(n, v), (m, w)] = Inr c'
     \<and> upgrade_headers c \<noteq> upgrade_headers c' \<and> principal_key c = principal_key c'"
proof -
  have "headers [(n, v @ [newline] @ m @ ''='' @ w)] = Inr (HeadersCredential [(n, v @ [newline] @ m @ ''='' @ w)])"
    "headers [(n, v), (m, w)] = Inr (HeadersCredential [(n, v), (m, w)])"
    using assms by (simp_all add: headers_Inr canonical_header_def header_token_match_def less_prod_def)
  then show ?thesis by (auto simp: header_line_def)
qed

theorem fingerprints_collide_witness:
  "\<exists>c c'. headers [(''a'', ''1'' @ [newline] @ ''b'' @ ''='' @ ''2'')] = Inr c \<and> headers [(''a'', ''1''), (''b'', ''2'')] = Inr c'
     \<and> upgrade_headers c \<noteq> upgrade_headers c' \<and> principal_key c = principal_key c'"
proof (rule fingerprints_collide)
  show "token_name ''a''" "token_name ''b''" "py_lower ''a'' = ''a''" "py_lower ''b'' = ''b''" by code_simp+
  show "''a'' < ''b''" by (simp add: less_char_def)
qed

end
