(* ===== verification/Pool.thy ===== *)
theory Pool
  imports Hub_Auth Client_Errors Tool_Registration
begin

text \<open>
  The process-wide pool of connections of the tool hub's SDK (\<open>computer_hub_sdk/pool.py\<close>) and the
  borrow of one connection (\<open>connection_borrow.py\<close>). Connections are references; \<open>kind_of\<close>, the
  answer of their \<open>kind()\<close>, is given. \<open>get_or_connect\<close> is cut at its await: an acquirer that found
  no entry waits for the opener, whose connection it brings when it goes on. Handles are numbered in
  the order they are handed out. The validation of a bracketed address (module \<open>ipaddress\<close>) is the
  parameter \<open>bracket_ok\<close>. Metrics, which are stubs in the code, are not modelled.
\<close>

declare map_of_eq_Some_iff [simp del] Some_eq_map_of_iff [simp del] map_of_append [simp del]

section \<open>The plaintext guard\<close>

text \<open>\<open>str.partition\<close> at a character: the part before it, whether it occurs, the part after it.\<close>

definition py_partition :: "char \<Rightarrow> string \<Rightarrow> string \<times> bool \<times> string" where
  "py_partition c s = (takeWhile (\<lambda>d. d \<noteq> c) s, c \<in> set s, tl (dropWhile (\<lambda>d. d \<noteq> c) s))"

text \<open>The part after the last occurrence, the whole string when there is none.\<close>

definition after_last :: "char \<Rightarrow> string \<Rightarrow> string" where
  "after_last c s = rev (takeWhile (\<lambda>d. d \<noteq> c) (rev s))"

definition url_cleaned :: "string \<Rightarrow> string" where
  "url_cleaned url =
     filter (\<lambda>c. code_point c \<notin> {9, 10, 13}) (dropWhile (\<lambda>c. code_point c \<le> 32) url)"

definition ascii_letter :: "char \<Rightarrow> bool" where
  "ascii_letter c = (let n = code_point c in (65 \<le> n \<and> n \<le> 90) \<or> (97 \<le> n \<and> n \<le> 122))"

definition scheme_char :: "char \<Rightarrow> bool" where
  "scheme_char c = (ascii_letter c \<or> is_digit c \<or> c \<in> {CHR ''+'', CHR ''-'', CHR ''.''})"

text \<open>\<open>urlsplit\<close>: the scheme in lower case and what follows its colon.\<close>

definition split_scheme :: "string \<Rightarrow> string \<times> string" where
  "split_scheme url =
     (let (before, found, rest) = py_partition (CHR '':'') url in
      if found \<and> before \<noteq> [] \<and> ascii_letter (hd before) \<and> list_all scheme_char before
      then (py_lower before, rest) else ([], url))"

definition url_netloc :: "string \<Rightarrow> string" where
  "url_netloc rest =
     (if py_startswith rest ''//''
      then takeWhile (\<lambda>c. c \<notin> {CHR ''/'', CHR ''?'', CHR ''#''}) (drop 2 rest) else [])"

text \<open>\<open>ValueError\<close> is the left side; the host is in lower case up to a zone.\<close>

definition netloc_host :: "string \<Rightarrow> string option" where
  "netloc_host netloc =
     (let hostinfo = after_last (CHR ''@'') netloc;
          (_, bracketed, rest) = py_partition (CHR ''['') hostinfo;
          host = (if bracketed then fst (py_partition (CHR '']'') rest) else fst (py_partition (CHR '':'') hostinfo));
          (name, zoned, zone) = py_partition (CHR ''%'') host
      in if host = [] then None else Some (py_lower name @ (if zoned then CHR ''%'' # zone else [])))"

definition urlparse :: "(string \<Rightarrow> bool) \<Rightarrow> string \<Rightarrow> py_error + (string \<times> string option)" where
  "urlparse bracket_ok url =
     (let (scheme, rest) = split_scheme (url_cleaned url); netloc = url_netloc rest;
          opens = CHR ''['' \<in> set netloc; closes = CHR '']'' \<in> set netloc
      in if opens \<noteq> closes \<or> (opens \<and> \<not> bracket_ok netloc) then Inl ValueError
         else Inr (scheme, netloc_host netloc))"

definition LOOPBACK_HOSTS :: "string set" where
  "LOOPBACK_HOSTS = {''127.0.0.1'', ''::1'', ''localhost''}"

definition host_is_loopback :: "string option \<Rightarrow> bool" where
  "host_is_loopback host = (case host of None \<Rightarrow> False | Some h \<Rightarrow> py_lower h \<in> LOOPBACK_HOSTS)"

section \<open>State\<close>

definition DEFAULT_POOL_IDLE_TTL :: secs where "DEFAULT_POOL_IDLE_TTL = 300"

definition DEFAULT_POOL_SWEEP_INTERVAL :: secs where "DEFAULT_POOL_SWEEP_INTERVAL = 60"

record conn_key =
  key_url :: string
  key_principal :: string

record pooled =
  p_conn :: nat
  last_handout :: secs
  in_use :: int

record pooled_connection =
  lease_conn :: nat
  lease_key :: conn_key
  released :: bool

text \<open>The table of the pool, the handles given out so far, and the acquirers that wait for the opener.\<close>

record pool =
  connections :: "(conn_key, pooled) dict"
  leases :: "pooled_connection list"
  awaiting :: "(conn_key \<times> connection_kind) list"
  has_opener :: bool

datatype pool_error = BadUrl | Insecure string | InvalidConfiguration

definition new_pool :: "bool \<Rightarrow> pool" where
  "new_pool b = \<lparr>connections = [], leases = [], awaiting = [], has_opener = b\<rparr>"

section \<open>Operations\<close>

definition hand_out :: "conn_key \<Rightarrow> pooled \<Rightarrow> pool \<Rightarrow> pool" where
  "hand_out k p w =
     w\<lparr>connections := dict_set k p (connections w),
       leases := leases w @ [\<lparr>lease_conn = p_conn p, lease_key = k, released = False\<rparr>]\<rparr>"

text \<open>
  An entry for the key: its time is refreshed before the kinds are compared. The result is the
  number of the handle.
\<close>

definition adopt ::
  "(nat \<Rightarrow> connection_kind) \<Rightarrow> conn_key \<Rightarrow> connection_kind \<Rightarrow> secs \<Rightarrow> pooled \<Rightarrow> pool \<Rightarrow> (pool_error + nat) \<times> pool" where
  "adopt kind_of k kd now p w =
     (if kind_of (p_conn p) \<noteq> kd
      then (Inl InvalidConfiguration, w\<lparr>connections := dict_set k (p\<lparr>last_handout := now\<rparr>) (connections w)\<rparr>)
      else (Inr (length (leases w)), hand_out k (p\<lparr>last_handout := now, in_use := in_use p + 1\<rparr>) w))"

text \<open>Up to the await: the error or the handle, or nothing yet when the acquirer waits for the opener.\<close>

definition get_or_connect ::
  "(string \<Rightarrow> bool) \<Rightarrow> (nat \<Rightarrow> connection_kind) \<Rightarrow> string \<Rightarrow> auth_credential \<Rightarrow> connection_kind \<Rightarrow> bool \<Rightarrow> secs \<Rightarrow>
   pool \<Rightarrow> (pool_error + nat) option \<times> pool" where
  "get_or_connect bracket_ok kind_of url credential kd allow_insecure now w =
     (case urlparse bracket_ok url of
        Inl e \<Rightarrow> (Some (Inl BadUrl), w)
      | Inr (scheme, host) \<Rightarrow>
          if scheme \<noteq> ''wss'' \<and> \<not> host_is_loopback host \<and> \<not> allow_insecure then (Some (Inl (Insecure url)), w)
          else
            (let k = \<lparr>key_url = url, key_principal = principal_key credential\<rparr> in
             case dict_get (connections w) k of
               Some p \<Rightarrow> (case adopt kind_of k kd now p w of (r, w) \<Rightarrow> (Some r, w))
             | None \<Rightarrow>
                 if \<not> has_opener w then (Some (Inl InvalidConfiguration), w)
                 else (None, w\<lparr>awaiting := awaiting w @ [(k, kd)]\<rparr>)))"

definition drop_nth :: "nat \<Rightarrow> 'a list \<Rightarrow> 'a list" where
  "drop_nth i xs = take i xs @ drop (Suc i) xs"

text \<open>The opener brings the connection \<open>c\<close> to the waiting acquirer \<open>i\<close>, or raises.\<close>

definition connected ::
  "(nat \<Rightarrow> connection_kind) \<Rightarrow> nat \<Rightarrow> nat \<Rightarrow> secs \<Rightarrow> pool \<Rightarrow> (pool_error + nat) \<times> pool" where
  "connected kind_of i c now w =
     (let (k, kd) = awaiting w ! i; w = w\<lparr>awaiting := drop_nth i (awaiting w)\<rparr> in
      case dict_get (connections w) k of
        Some p \<Rightarrow> adopt kind_of k kd now p w
      | None \<Rightarrow> (Inr (length (leases w)), hand_out k \<lparr>p_conn = c, last_handout = now, in_use = 1\<rparr> w))"

definition open_failed :: "nat \<Rightarrow> pool \<Rightarrow> pool" where
  "open_failed i w = w\<lparr>awaiting := drop_nth i (awaiting w)\<rparr>"

definition release_key :: "conn_key \<Rightarrow> pool \<Rightarrow> pool" where
  "release_key k w =
     (case dict_get (connections w) k of
        None \<Rightarrow> w
      | Some p \<Rightarrow>
          if 0 < in_use p then w\<lparr>connections := dict_set k (p\<lparr>in_use := in_use p - 1\<rparr>) (connections w)\<rparr> else w)"

definition release :: "nat \<Rightarrow> pool \<Rightarrow> pool" where
  "release h w =
     (let l = leases w ! h in
      if released l then w
      else release_key (lease_key l) (w\<lparr>leases := (leases w)[h := l\<lparr>released := True\<rparr>]\<rparr>))"

definition pool_size :: "pool \<Rightarrow> nat" where "pool_size w = length (connections w)"

definition pool_is_empty :: "pool \<Rightarrow> bool" where "pool_is_empty w = (length (connections w) = 0)"

definition forget_conn :: "conn_key \<Rightarrow> pool \<Rightarrow> pool" where
  "forget_conn k w = w\<lparr>connections := dict_pop k (connections w)\<rparr>"

definition forget_if :: "conn_key \<Rightarrow> (nat \<Rightarrow> bool) \<Rightarrow> pool \<Rightarrow> bool \<times> pool" where
  "forget_if k accepts w =
     (case dict_get (connections w) k of
        Some p \<Rightarrow> if accepts (p_conn p) then (True, forget_conn k w) else (False, w)
      | None \<Rightarrow> (False, w))"

definition evictable :: "secs \<Rightarrow> secs \<Rightarrow> pooled \<Rightarrow> bool" where
  "evictable now idle_ttl p = (in_use p = 0 \<and> idle_ttl \<le> now - last_handout p)"

definition sweep_idle :: "secs \<Rightarrow> secs \<Rightarrow> pool \<Rightarrow> nat \<times> pool" where
  "sweep_idle now idle_ttl w =
     (let evicted = map fst (filter (\<lambda>(k, p). evictable now idle_ttl p) (connections w))
      in (length evicted, w\<lparr>connections := fold dict_pop evicted (connections w)\<rparr>))"

section \<open>The borrow of a connection\<close>

record connection_borrow =
  connection :: nat
  shutdown :: bool
  torn_down :: bool

definition from_connection :: "nat \<Rightarrow> connection_borrow" where
  "from_connection c = \<lparr>connection = c, shutdown = False, torn_down = False\<rparr>"

definition begin_teardown :: "connection_borrow \<Rightarrow> bool \<times> connection_borrow" where
  "begin_teardown b = (if torn_down b then (False, b) else (True, b\<lparr>torn_down := True\<rparr>))"

definition request_shutdown :: "connection_borrow \<Rightarrow> bool \<times> connection_borrow" where
  "request_shutdown b =
     (case begin_teardown b of
        (True, b) \<Rightarrow> (True, b\<lparr>shutdown := True\<rparr>)
      | (False, b) \<Rightarrow> (False, b))"

section \<open>Histories\<close>

text \<open>
  The callers of a pool in any order and at any times. The flag says whether somebody forgets
  connections, as the owner of a dying connection does.
\<close>

inductive pool_reachable :: "(string \<Rightarrow> bool) \<Rightarrow> (nat \<Rightarrow> connection_kind) \<Rightarrow> bool \<Rightarrow> pool \<Rightarrow> bool"
  for bracket_ok kind_of forgets where
  start: "pool_reachable bracket_ok kind_of forgets (new_pool b)"
| acquire: "pool_reachable bracket_ok kind_of forgets w \<Longrightarrow>
    pool_reachable bracket_ok kind_of forgets (snd (get_or_connect bracket_ok kind_of url cred kd allow now w))"
| connected: "pool_reachable bracket_ok kind_of forgets w \<Longrightarrow> i < length (awaiting w) \<Longrightarrow>
    pool_reachable bracket_ok kind_of forgets (snd (connected kind_of i c now w))"
| open_failed: "pool_reachable bracket_ok kind_of forgets w \<Longrightarrow> i < length (awaiting w) \<Longrightarrow>
    pool_reachable bracket_ok kind_of forgets (open_failed i w)"
| release: "pool_reachable bracket_ok kind_of forgets w \<Longrightarrow> h < length (leases w) \<Longrightarrow>
    pool_reachable bracket_ok kind_of forgets (release h w)"
| sweep: "pool_reachable bracket_ok kind_of forgets w \<Longrightarrow>
    pool_reachable bracket_ok kind_of forgets (snd (sweep_idle now ttl w))"
| forget: "pool_reachable bracket_ok kind_of forgets w \<Longrightarrow> forgets \<Longrightarrow>
    pool_reachable bracket_ok kind_of forgets (forget_conn k w)"
| forget_if: "pool_reachable bracket_ok kind_of forgets w \<Longrightarrow> forgets \<Longrightarrow>
    pool_reachable bracket_ok kind_of forgets (snd (forget_if k accepts w))"

text \<open>The handles for a key that are not released.\<close>

definition live_leases :: "conn_key \<Rightarrow> pooled_connection list \<Rightarrow> pooled_connection list" where
  "live_leases k ls = filter (\<lambda>l. lease_key l = k \<and> \<not> released l) ls"

text \<open>An entry counts the handles of its key, which all have its connection.\<close>

definition entry_ok :: "pooled_connection list \<Rightarrow> pooled option \<Rightarrow> bool" where
  "entry_ok live p =
     (case p of
        None \<Rightarrow> live = []
      | Some p \<Rightarrow> in_use p = int (length live) \<and> (\<forall>l\<in>set live. lease_conn l = p_conn p))"

definition pool_ok :: "pool \<Rightarrow> bool" where
  "pool_ok w \<longleftrightarrow>
     dict_ok (connections w) \<and> (\<forall>k. entry_ok (live_leases k (leases w)) (dict_get (connections w) k))"

lemma entry_ok_simps [simp]:
  "entry_ok live None \<longleftrightarrow> live = []"
  "entry_ok live (Some p) \<longleftrightarrow> in_use p = int (length live) \<and> (\<forall>l\<in>set live. lease_conn l = p_conn p)"
  by (simp_all add: entry_ok_def)

lemma pool_okD: "pool_ok w \<Longrightarrow> entry_ok (live_leases k (leases w)) (dict_get (connections w) k)"
  by (simp add: pool_ok_def)

lemma live_leases_simps [simp]:
  "live_leases k [] = []"
  "live_leases k (ls @ [l]) = live_leases k ls @ (if lease_key l = k \<and> \<not> released l then [l] else [])"
  by (simp_all add: live_leases_def)

lemma hand_out_ok:
  assumes "pool_ok w"
    and "in_use p = int (length (live_leases k (leases w))) + 1" "\<forall>l\<in>set (live_leases k (leases w)). lease_conn l = p_conn p"
  shows "pool_ok (hand_out k p w)"
  using assms by (simp add: pool_ok_def hand_out_def dict_simps)

lemma pool_ok_awaiting [simp]: "pool_ok (w\<lparr>awaiting := xs\<rparr>) = pool_ok w"
  by (simp add: pool_ok_def)

lemma adopt_ok:
  assumes "adopt kind_of k kd now p w = (r, w')" and "pool_ok w" and "dict_get (connections w) k = Some p"
  shows "pool_ok w'"
proof (cases "kind_of (p_conn p) = kd")
  case True
  then show ?thesis
    using pool_okD [OF assms(2), of k] assms by (auto simp: adopt_def hand_out_ok)
next
  case False
  then show ?thesis
    using pool_okD [OF assms(2), of k] assms by (auto simp: adopt_def pool_ok_def dict_simps)
qed

lemma get_or_connect_ok: "pool_ok w \<Longrightarrow> pool_ok (snd (get_or_connect bracket_ok kind_of url cred kd allow now w))"
  by (auto simp: get_or_connect_def Let_def split: sum.split option.split prod.split intro: adopt_ok)

lemma connected_ok:
  assumes "pool_ok w"
  shows "pool_ok (snd (connected kind_of i c now w))"
proof -
  obtain k kd where k: "awaiting w ! i = (k, kd)" by (cases "awaiting w ! i")
  define u where "u = w\<lparr>awaiting := drop_nth i (awaiting w)\<rparr>"
  have u: "pool_ok u" using assms by (simp add: u_def)
  show ?thesis
  proof (cases "dict_get (connections w) k")
    case None
    then show ?thesis using pool_okD [OF u, of k] u by (simp add: connected_def k u_def [symmetric] hand_out_ok) (simp add: u_def hand_out_ok)
  next
    case (Some p)
    then have "dict_get (connections u) k = Some p" by (simp add: u_def)
    then have "pool_ok (snd (adopt kind_of k kd now p u))" using adopt_ok [OF prod.collapse [symmetric] u] by simp
    then show ?thesis using Some by (simp add: connected_def k u_def)
  qed
qed

text \<open>Releasing a handle takes it out of the live handles of its key, and out of no others.\<close>

lemma live_leases_release:
  assumes "h < length ls" and "\<not> released (ls ! h)"
  shows "k \<noteq> lease_key (ls ! h) \<Longrightarrow> live_leases k (ls[h := (ls ! h)\<lparr>released := True\<rparr>]) = live_leases k ls"
    and "length (live_leases (lease_key (ls ! h)) ls) = Suc (length (live_leases (lease_key (ls ! h)) (ls[h := (ls ! h)\<lparr>released := True\<rparr>])))"
    and "set (live_leases k (ls[h := (ls ! h)\<lparr>released := True\<rparr>])) \<subseteq> set (live_leases k ls)"
proof -
  have ls: "ls = take h ls @ (ls ! h) # drop (Suc h) ls" using assms(1) by (rule id_take_nth_drop)
  have new: "ls[h := x] = take h ls @ x # drop (Suc h) ls" for x using assms(1) by (rule upd_conv_take_nth_drop)
  have split: "live_leases k ls = live_leases k (take h ls) @ live_leases k [ls ! h] @ live_leases k (drop (Suc h) ls)" for k
    by (subst ls) (simp add: live_leases_def)
  have split': "live_leases k (ls[h := x]) = live_leases k (take h ls) @ live_leases k [x] @ live_leases k (drop (Suc h) ls)" for k x
    by (simp add: new live_leases_def)
  show "k \<noteq> lease_key (ls ! h) \<Longrightarrow> live_leases k (ls[h := (ls ! h)\<lparr>released := True\<rparr>]) = live_leases k ls"
    "length (live_leases (lease_key (ls ! h)) ls) = Suc (length (live_leases (lease_key (ls ! h)) (ls[h := (ls ! h)\<lparr>released := True\<rparr>])))"
    "set (live_leases k (ls[h := (ls ! h)\<lparr>released := True\<rparr>])) \<subseteq> set (live_leases k ls)"
    unfolding split' split using assms(2) by (auto simp: live_leases_def)
qed

lemma release_ok:
  assumes ok: "pool_ok w" and h: "h < length (leases w)"
  shows "pool_ok (release h w)"
proof (cases "released (leases w ! h)")
  case True
  then show ?thesis using ok by (simp add: release_def Let_def)
next
  case False
  define j where "j = lease_key (leases w ! h)"
  note live = live_leases_release [OF h False]
  have j: "entry_ok (live_leases j (leases w)) (dict_get (connections w) j)" by (rule pool_okD [OF ok])
  then obtain p where p: "dict_get (connections w) j = Some p"
    using live(2) by (cases "dict_get (connections w) j") (auto simp: j_def)
  have pos: "in_use p = 1 + int (length (live_leases j ((leases w)[h := (leases w ! h)\<lparr>released := True\<rparr>])))"
    using j p live(2) by (simp add: j_def)
  have r: "release h w = w\<lparr>leases := (leases w)[h := (leases w ! h)\<lparr>released := True\<rparr>],
      connections := dict_set j (p\<lparr>in_use := in_use p - 1\<rparr>) (connections w)\<rparr>"
    using False p pos by (simp add: release_def release_key_def Let_def j_def)
  have "entry_ok (live_leases k (leases (release h w))) (dict_get (connections (release h w)) k)" for k
  proof (cases "k = j")
    case True
    then show ?thesis using pos j p live(3) [of j] by (auto simp: r dict_simps)
  next
    case False
    then show ?thesis using pool_okD [OF ok, of k] live(1) [of k] by (simp add: r dict_simps j_def)
  qed
  then show ?thesis using ok by (simp add: pool_ok_def) (simp add: r)
qed

lemma dict_get_pops: "dict_get (fold dict_pop ks d) k = (if k \<in> set ks then None else dict_get d k)"
  by (induction ks arbitrary: d) (simp_all add: dict_simps)

lemma dict_ok_pops: "dict_ok d \<Longrightarrow> dict_ok (fold dict_pop ks d)"
  by (induction ks arbitrary: d) simp_all

lemma sweep_get:
  assumes "dict_ok (connections w)"
  shows "dict_get (connections (snd (sweep_idle now ttl w))) k =
     (case dict_get (connections w) k of None \<Rightarrow> None | Some p \<Rightarrow> if evictable now ttl p then None else Some p)"
proof -
  have "k \<in> set (map fst (filter (\<lambda>(k, p). evictable now ttl p) (connections w))) \<longleftrightarrow>
      (\<exists>p. dict_get (connections w) k = Some p \<and> evictable now ttl p)"
    using dict_get_iff [OF assms] by force
  then show ?thesis by (auto simp: sweep_idle_def dict_get_pops split: option.split)
qed

lemma sweep_ok:
  assumes "pool_ok w"
  shows "pool_ok (snd (sweep_idle now ttl w))"
proof -
  have ok: "dict_ok (connections w)" using assms by (simp add: pool_ok_def)
  have l: "leases (snd (sweep_idle now ttl w)) = leases w" by (simp add: sweep_idle_def)
  have "entry_ok (live_leases k (leases w)) (dict_get (connections (snd (sweep_idle now ttl w))) k)" for k
    using pool_okD [OF assms, of k] by (auto simp: sweep_get [OF ok] evictable_def split: option.split)
  moreover have "dict_ok (connections (snd (sweep_idle now ttl w)))" using ok by (simp add: sweep_idle_def dict_ok_pops)
  ultimately show ?thesis by (simp add: pool_ok_def l)
qed

lemma reachable_pool_ok:
  assumes "pool_reachable bracket_ok kind_of forgets w" and "\<not> forgets"
  shows "pool_ok w"
  using assms
proof (induction rule: pool_reachable.induct)
  case (start b)
  show ?case by (simp add: new_pool_def pool_ok_def)
qed (auto simp: get_or_connect_ok connected_ok release_ok sweep_ok open_failed_def)

text \<open>
  C16: While nobody forgets connections, a connection is kept for as long as one of its handles is not
  released: every handle that is not released has the connection that the table has for its key, so
  two handles for the same key share it, and no sweep takes the entry away.
\<close>

theorem borrowed_connection_kept:
  assumes "pool_reachable bracket_ok kind_of False w" and "l \<in> set (leases w)" and "\<not> released l"
  shows "\<exists>p. dict_get (connections w) (lease_key l) = Some p \<and> p_conn p = lease_conn l
     \<and> dict_get (connections (snd (sweep_idle now ttl w))) (lease_key l) = Some p"
proof -
  have ok: "pool_ok w" using reachable_pool_ok [OF assms(1)] by simp
  then have "dict_ok (connections w)" by (simp add: pool_ok_def)
  note sweep = sweep_get [OF this]
  have live: "l \<in> set (live_leases (lease_key l) (leases w))" using assms(2,3) by (simp add: live_leases_def)
  then obtain p where p: "dict_get (connections w) (lease_key l) = Some p"
    using pool_okD [OF ok, of "lease_key l"] by (cases "dict_get (connections w) (lease_key l)") auto
  with pool_okD [OF ok, of "lease_key l"] live
  have "in_use p = int (length (live_leases (lease_key l) (leases w)))" "p_conn p = lease_conn l" by auto
  moreover from this(1) live have "in_use p \<noteq> 0" by auto
  ultimately show ?thesis using p by (simp add: sweep evictable_def)
qed

text \<open>A table with one entry, whose only handle is number 0.\<close>

definition one_lease :: pool where
  "one_lease = snd (connected (\<lambda>_. ToolServer) 0 7 10
     (snd (get_or_connect (\<lambda>_. False) (\<lambda>_. ToolServer) ''wss://hub'' (bearer ''t'') ToolServer False 5 (new_pool True))))"

definition hub_key :: conn_key where
  "hub_key = \<lparr>key_url = ''wss://hub'', key_principal = ''bearer:t''\<rparr>"

lemma one_lease_simp:
  "one_lease = \<lparr>connections = [(hub_key, \<lparr>p_conn = 7, last_handout = 10, in_use = 1\<rparr>)],
     leases = [\<lparr>lease_conn = 7, lease_key = hub_key, released = False\<rparr>], awaiting = [], has_opener = True\<rparr>"
proof -
  have "urlparse (\<lambda>_. False) ''wss://hub'' = Inr (''wss'', Some ''hub'')" by code_simp
  then show ?thesis
    by (simp add: one_lease_def get_or_connect_def new_pool_def connected_def drop_nth_def hand_out_def hub_key_def bearer_def)
qed

lemma one_lease_reachable: "pool_reachable (\<lambda>_. False) (\<lambda>_. ToolServer) forgets one_lease"
  unfolding one_lease_def
proof (intro pool_reachable.intros)
  have "urlparse (\<lambda>_. False) ''wss://hub'' = Inr (''wss'', Some ''hub'')" by code_simp
  then show "0 < length (awaiting (snd (get_or_connect (\<lambda>_. False) (\<lambda>_. ToolServer) ''wss://hub'' (bearer ''t'') ToolServer False 5 (new_pool True))))"
    by (simp add: get_or_connect_def new_pool_def)
qed

theorem borrowed_connection_kept_witness:
  "dict_get (connections (snd (sweep_idle 1000 300 one_lease))) hub_key = Some \<lparr>p_conn = 7, last_handout = 10, in_use = 1\<rparr>"
  using borrowed_connection_kept [OF one_lease_reachable, of "\<lparr>lease_conn = 7, lease_key = hub_key, released = False\<rparr>" 1000 300]
  by (simp add: one_lease_simp)

text \<open>
  C17: When a connection is forgotten while a handle to it is out, and the key is opened again, the
  release of the old handle gives back the new connection: the next sweep after the idle time evicts
  the new connection although its handle is not released.
\<close>

theorem stale_release_evicts:
  assumes "h < length (leases w)" and "\<not> released (leases w ! h)" and "lease_key (leases w ! h) = k"
    and "dict_get (connections w) k = None" and "dict_ok (connections w)"
    and "i < length (awaiting w)" and "awaiting w ! i = (k, kd)" and "ttl \<le> later - now"
    and "connected kind_of i c now w = (r, w')"
  shows "r = Inr (length (leases w))
     \<and> leases (snd (sweep_idle later ttl (release h w'))) ! length (leases w) = \<lparr>lease_conn = c, lease_key = k, released = False\<rparr>
     \<and> dict_get (connections (snd (sweep_idle later ttl (release h w')))) k = None"
proof -
  define l where "l = \<lparr>lease_conn = c, lease_key = k, released = False\<rparr>"
  have r: "r = Inr (length (leases w))" and
    w': "w' = hand_out k \<lparr>p_conn = c, last_handout = now, in_use = 1\<rparr> (w\<lparr>awaiting := drop_nth i (awaiting w)\<rparr>)"
    using assms(4,7,9) by (simp_all add: connected_def)
  have out: "leases w' = leases w @ [l]" "dict_get (connections w') k = Some \<lparr>p_conn = c, last_handout = now, in_use = 1\<rparr>"
    "dict_ok (connections w')"
    using assms(5) by (simp_all add: w' hand_out_def l_def dict_simps)
  then have h: "leases w' ! h = leases w ! h" using assms(1) by (simp add: nth_append)
  define u where "u = release h w'"
  have u: "leases u = (leases w @ [l])[h := (leases w ! h)\<lparr>released := True\<rparr>]"
    "dict_get (connections u) k = Some \<lparr>p_conn = c, last_handout = now, in_use = 0\<rparr>" "dict_ok (connections u)"
    using out assms(2,3) h by (simp_all add: u_def release_def release_key_def dict_simps)
  have "leases (snd (sweep_idle later ttl u)) = leases u" by (simp add: sweep_idle_def)
  moreover have "leases u ! length (leases w) = l" using assms(1) by (simp add: u(1) nth_append)
  moreover have "dict_get (connections (snd (sweep_idle later ttl u))) k = None"
    using assms(8) by (simp add: sweep_get [OF u(3)] u(2) evictable_def)
  ultimately show ?thesis by (simp add: r u_def l_def)
qed

text \<open>The connection 7 is forgotten and 8 opened; the release of the first handle lets the sweep take 8.\<close>

theorem stale_release_evicts_witness:
  "dict_get (connections (snd (sweep_idle 400 300 (release 0 (snd (connected (\<lambda>_. ToolServer) 0 8 20
       ((forget_conn hub_key one_lease)\<lparr>awaiting := [(hub_key, ToolServer)]\<rparr>))))))) hub_key = None"
proof -
  define w where "w = (forget_conn hub_key one_lease)\<lparr>awaiting := [(hub_key, ToolServer)]\<rparr>"
  have w: "0 < length (leases w)" "\<not> released (leases w ! 0)" "lease_key (leases w ! 0) = hub_key"
    "dict_get (connections w) hub_key = None" "dict_ok (connections w)" "0 < length (awaiting w)" "awaiting w ! 0 = (hub_key, ToolServer)"
    by (simp_all add: w_def forget_conn_def one_lease_simp)
  show ?thesis
    using stale_release_evicts [OF w _ prod.collapse [symmetric], of 300 400 20 "\<lambda>_. ToolServer" 8] by (simp add: w_def)
qed

text \<open>While nobody forgets, a sweep takes exactly the idle entries without live handles.\<close>

lemma sweep_exact:
  assumes "pool_reachable bracket_ok kind_of False w" and "dict_get (connections w) k = Some p"
  shows "dict_get (connections (snd (sweep_idle now ttl w))) k = None \<longleftrightarrow>
     ttl \<le> now - last_handout p \<and> (\<forall>l\<in>set (leases w). lease_key l = k \<longrightarrow> released l)"
proof -
  have ok: "pool_ok w" using reachable_pool_ok [OF assms(1)] by simp
  then have d: "dict_ok (connections w)" by (simp add: pool_ok_def)
  have "in_use p = 0 \<longleftrightarrow> (\<forall>l\<in>set (leases w). lease_key l = k \<longrightarrow> released l)"
    using pool_okD [OF ok, of k] assms(2) by (auto simp: live_leases_def filter_empty_conv)
  then show ?thesis by (auto simp: sweep_get [OF d] assms(2) evictable_def)
qed

section \<open>Plaintext\<close>

lemma takeWhile_free: "set s \<inter> C = {} \<Longrightarrow> takeWhile (\<lambda>c. c \<notin> C) (s @ t) = s @ takeWhile (\<lambda>c. c \<notin> C) t"
  by (induction s) auto

lemma takeWhile_free1: "c \<notin> set s \<Longrightarrow> takeWhile (\<lambda>d. d \<noteq> c) (s @ t) = s @ takeWhile (\<lambda>d. d \<noteq> c) t"
  using takeWhile_free [of s "{c}"] by simp

text \<open>
  What stands before an @ in the address cannot pass for the host: a plaintext address whose host
  is not the loopback is refused without the caller's consent, and nothing changes.
\<close>

theorem plaintext_refused:
  assumes "url = ''ws://'' @ u @ ''@'' @ h @ ''/'' @ path" and "list_all (\<lambda>c. 32 < code_point c) url"
    and "set (u @ h) \<inter> {CHR ''/'', CHR ''?'', CHR ''#'', CHR ''['', CHR '']''} = {}"
    and "set h \<inter> {CHR ''@'', CHR '':'', CHR ''%''} = {}" and "py_lower (py_lower h) \<notin> LOOPBACK_HOSTS"
  shows "get_or_connect bracket_ok kind_of url cred kd False now w = (Some (Inl (Insecure url)), w)"
proof -
  have clean: "url_cleaned url = url"
    using assms(2) by (cases url) (auto simp: url_cleaned_def filter_id_conv list_all_iff)
  have ws: "py_partition (CHR '':'') (''ws'' @ '':'' @ t) = (''ws'', True, t)" for t by (simp add: py_partition_def)
  have split: "split_scheme url = (''ws'', ''//'' @ u @ ''@'' @ h @ ''/'' @ path)"
  proof -
    have "url = ''ws'' @ '':'' @ ''//'' @ u @ ''@'' @ h @ ''/'' @ path" using assms(1) by simp
    moreover have "ascii_letter (CHR ''w'')" "list_all scheme_char ''ws''" "py_lower ''ws'' = ''ws''" by code_simp+
    ultimately show ?thesis using ws [of "''//'' @ u @ ''@'' @ h @ ''/'' @ path"] by (simp add: split_scheme_def)
  qed
  have "takeWhile (\<lambda>c. c \<notin> {CHR ''/'', CHR ''?'', CHR ''#''}) ((u @ ''@'' @ h) @ ''/'' @ path) = u @ ''@'' @ h"
    using assms(3) by (subst takeWhile_free) auto
  then have netloc: "url_netloc (''//'' @ u @ ''@'' @ h @ ''/'' @ path) = u @ ''@'' @ h"
    by (simp add: url_netloc_def py_startswith_def)
  have "takeWhile (\<lambda>d. d \<noteq> CHR ''@'') (rev h @ ''@'' @ rev u) = rev h"
    using assms(4) by (subst takeWhile_free1) auto
  then have info: "after_last (CHR ''@'') (u @ ''@'' @ h) = h" by (simp add: after_last_def)
  have whole: "takeWhile (\<lambda>d. d \<noteq> c) h = h" if "c \<notin> set h" for c using that by (auto simp: takeWhile_eq_all_conv)
  have "netloc_host (u @ ''@'' @ h) = (if h = [] then None else Some (py_lower h))"
    unfolding netloc_host_def info using assms(3,4) by (simp add: py_partition_def whole)
  moreover have "CHR ''['' \<notin> set (u @ ''@'' @ h)" "CHR '']'' \<notin> set (u @ ''@'' @ h)" using assms(3) by auto
  ultimately have "urlparse bracket_ok url = Inr (''ws'', if h = [] then None else Some (py_lower h))"
    unfolding urlparse_def clean split by (simp only: Let_def prod.case netloc) simp
  moreover have "\<not> host_is_loopback (if h = [] then None else Some (py_lower h))"
    using assms(5) by (simp add: host_is_loopback_def)
  ultimately show ?thesis by (simp add: get_or_connect_def)
qed

theorem plaintext_refused_witness:
  "fst (get_or_connect (\<lambda>_. False) (\<lambda>_. ToolServer) ''ws://localhost@evil.com/ws'' (bearer ''t'') ToolServer False 5 (new_pool True))
     = Some (Inl (Insecure ''ws://localhost@evil.com/ws''))"
proof -
  have "list_all (\<lambda>c. 32 < code_point c) ''ws://localhost@evil.com/ws''" by code_simp
  moreover have "py_lower (py_lower ''evil.com'') \<notin> LOOPBACK_HOSTS" by code_simp
  ultimately show ?thesis
    using plaintext_refused [of "''ws://localhost@evil.com/ws''" "''localhost''" "''evil.com''" "''ws''" "\<lambda>_. False" "\<lambda>_. ToolServer"]
    by simp
qed

section \<open>Teardown\<close>

text \<open>However often and in whatever way a borrow is torn down, one caller wins.\<close>

fun teardowns :: "bool list \<Rightarrow> connection_borrow \<Rightarrow> nat \<times> connection_borrow" where
  "teardowns [] b = (0, b)"
| "teardowns (s # ss) b =
     (case (if s then request_shutdown b else begin_teardown b) of
        (won, b) \<Rightarrow> (case teardowns ss b of (n, b) \<Rightarrow> ((if won then Suc n else n), b)))"

lemma teardown_once:
  "fst (teardowns ss b) = (if torn_down b \<or> ss = [] then 0 else 1)"
  by (induction ss arbitrary: b) (auto simp: request_shutdown_def begin_teardown_def case_prod_beta)

end
