(* ===== verification/Breaker_Gate.thy ===== *)
theory Breaker_Gate
  imports Prelude
begin

text \<open>
  What the two circuit breakers of the repository (\<open>resilience/\<close> and
  \<open>agent/reliability/circuit_breaker.py\<close>) share: the enumerations and the configuration record
  that both modules declare, the events sent to an observer, and the contract of a gate that
  sheds calls until a deadline. An observer that raises is swallowed by both breakers, so an
  observer only receives events here.
\<close>

datatype breaker_state = CLOSED | OPEN | HALF_OPEN

datatype outcome = SUCCESS | FAILURE

record breaker_config =
  window_duration :: secs
  min_samples :: int
  error_rate_threshold :: rat
  open_duration :: secs
  half_open_max_probes :: int
  failure_codes :: "int set"
  enabled :: bool

definition DEFAULT_FAILURE_CODES :: "int set" where
  "DEFAULT_FAILURE_CODES = {429, 500, 502, 503, 504}"

datatype breaker_event =
    StateChange breaker_state breaker_state string
  | OutcomeSeen outcome

text \<open>
  A gate answers a call at some clock readings; \<open>shed_until s\<close> is the deadline while the gate
  sheds. The \<open>run_gate\<close> of a list of readings asks the gate once for each.
\<close>

fun run_gate :: "('s \<Rightarrow> 'r \<Rightarrow> ('e + unit) \<times> 's) \<Rightarrow> 's \<Rightarrow> 'r list \<Rightarrow> ('e + unit) list \<times> 's" where
  "run_gate gate s [] = ([], s)"
| "run_gate gate s (r # rs) =
     (let (a, s') = gate s r; (answers, s'') = run_gate gate s' rs in (a # answers, s''))"

definition admitted :: "('e + unit) list \<Rightarrow> nat" where
  "admitted as = length (filter (\<lambda>a. a = Inr ()) as)"

lemma admitted_simps [simp]:
  "admitted [] = 0" "admitted (Inl e # as) = admitted as" "admitted (Inr () # as) = Suc (admitted as)"
  by (simp_all add: admitted_def)

locale breaker_gate =
  fixes gate :: "'s \<Rightarrow> 'r \<Rightarrow> ('e + unit) \<times> 's"
    and reading :: "'r \<Rightarrow> secs"
    and shed_until :: "'s \<Rightarrow> secs option"
  assumes shedding: "shed_until s = Some d \<Longrightarrow> reading r < d \<Longrightarrow> \<exists>e. gate s r = (Inl e, s)"
    and cooled: "shed_until s = Some d \<Longrightarrow> d \<le> reading r \<Longrightarrow> shed_until (snd (gate s r)) = None"
begin

lemma all_shed:
  assumes "shed_until s = Some d" and "\<forall>r\<in>set rs. reading r < d"
  shows "admitted (fst (run_gate gate s rs)) = 0 \<and> snd (run_gate gate s rs) = s"
  using assms(2)
proof (induction rs)
  case (Cons r rs)
  then obtain e where "gate s r = (Inl e, s)" using shedding [OF assms(1), of r] by auto
  with Cons show ?case by (cases "run_gate gate s rs") simp
qed simp

lemma reopened_after:
  assumes "shed_until s = Some d" and "\<forall>r\<in>set rs. reading r < d" and "d \<le> reading r"
  shows "shed_until (snd (gate (snd (run_gate gate s rs)) r)) = None"
  using all_shed [OF assms(1,2)] cooled [OF assms(1,3)] by simp

end

end
