(* ===== verification/Resilience.thy ===== *)
theory Resilience
  imports Breaker_Gate Ordered_Map Py_Strings
begin

text \<open>
  The package \<open>resilience\<close>: the bounded sliding window with its incremental failure counter,
  the three-state circuit breaker with probe leases, the per-key registry, the configuration
  and the status-code policy. A method that reads the clock more than once takes one argument
  per reading.
\<close>

section \<open>The sliding window\<close>

definition MAX_WINDOW_ENTRIES :: nat where
  "MAX_WINDOW_ENTRIES = 10000"

record sliding_window =
  entries :: "(secs \<times> bool) list"
  failures :: int

definition new_window :: sliding_window where
  "new_window = \<lparr>entries = [], failures = 0\<rparr>"

definition window_push :: "sliding_window \<Rightarrow> bool \<Rightarrow> secs \<Rightarrow> sliding_window" where
  "window_push w is_failure stamp =
     (let w = (if MAX_WINDOW_ENTRIES \<le> length (entries w)
               then (case entries w of
                       [] \<Rightarrow> w
                     | (_, was_failure) # rest \<Rightarrow>
                         w\<lparr>entries := rest,
                           failures := (if was_failure then failures w - 1 else failures w)\<rparr>)
               else w);
          w = w\<lparr>entries := entries w @ [(stamp, is_failure)]\<rparr>
      in if is_failure then w\<lparr>failures := failures w + 1\<rparr> else w)"

fun evict_loop :: "secs \<Rightarrow> (secs \<times> bool) list \<Rightarrow> int \<Rightarrow> (secs \<times> bool) list \<times> int" where
  "evict_loop cutoff [] n = ([], n)"
| "evict_loop cutoff ((t, was_failure) # es) n =
     (if t < cutoff then evict_loop cutoff es (if was_failure then n - 1 else n)
      else ((t, was_failure) # es, n))"

definition window_evict :: "sliding_window \<Rightarrow> secs \<Rightarrow> secs \<Rightarrow> sliding_window" where
  "window_evict w window now =
     (let (es, n) = evict_loop (now - window) (entries w) (failures w)
      in w\<lparr>entries := es, failures := n\<rparr>)"

definition window_error_rate :: "sliding_window \<Rightarrow> rat" where
  "window_error_rate w =
     (if entries w = [] then 0 else of_int (failures w) / of_nat (length (entries w)))"

definition window_sample_count :: "sliding_window \<Rightarrow> int" where
  "window_sample_count w = int (length (entries w))"

definition window_clear :: "sliding_window \<Rightarrow> sliding_window" where
  "window_clear w = w\<lparr>entries := [], failures := 0\<rparr>"

section \<open>The configuration\<close>

definition server_config :: breaker_config where
  "server_config = \<lparr>window_duration = 60, min_samples = 10, error_rate_threshold = 1 / 2,
     open_duration = 10, half_open_max_probes = 1, failure_codes = DEFAULT_FAILURE_CODES,
     enabled = True\<rparr>"

definition client_config :: breaker_config where
  "client_config = server_config\<lparr>min_samples := 5, open_duration := 60, failure_codes := {401}\<rparr>"

definition is_failure_status :: "breaker_config \<Rightarrow> int \<Rightarrow> bool" where
  "is_failure_status c status = (status \<in> failure_codes c)"

definition with_half_open_floor :: "breaker_config \<Rightarrow> breaker_config" where
  "with_half_open_floor c = (if 1 \<le> half_open_max_probes c then c else c\<lparr>half_open_max_probes := 1\<rparr>)"

definition parse_bool :: "string \<Rightarrow> bool" where
  "parse_bool raw = (py_lower (py_strip raw) \<in> {''1'', ''true'', ''yes'', ''on''})"

definition parse_failure_codes :: "string \<Rightarrow> int set" where
  "parse_failure_codes s =
     set (List.map_filter (\<lambda>chunk. if py_strip chunk = [] then None else py_int (py_strip chunk))
       (py_split (CHR '','') s))"

section \<open>The breaker\<close>

text \<open>\<open>BreakerOpen\<close> with its \<open>retry_after\<close>; the observer is \<^term>\<open>None\<close> for \<open>NoopObserver\<close>.\<close>

datatype breaker_open = BreakerOpen secs

record 'o breaker =
  br_name :: string
  br_config :: breaker_config
  br_observer :: "'o option"
  br_state :: breaker_state
  br_window :: sliding_window
  opened_until :: secs
  half_open_probes :: int
  probe_claimed_at :: secs
  br_events :: "('o option \<times> breaker_event) list"

definition new_breaker :: "string \<Rightarrow> breaker_config option \<Rightarrow> 'o option \<Rightarrow> 'o breaker" where
  "new_breaker name config observer =
     \<lparr>br_name = name,
      br_config = (case config of Some c \<Rightarrow> c | None \<Rightarrow> server_config),
      br_observer = observer, br_state = CLOSED, br_window = new_window, opened_until = 0,
      half_open_probes = 0, probe_claimed_at = 0, br_events = []\<rparr>"

definition notify :: "'o breaker \<Rightarrow> breaker_event \<Rightarrow> 'o breaker" where
  "notify br ev = br\<lparr>br_events := br_events br @ [(br_observer br, ev)]\<rparr>"

definition attach_observer :: "'o breaker \<Rightarrow> 'o \<Rightarrow> 'o breaker" where
  "attach_observer br observer = br\<lparr>br_observer := Some observer\<rparr>"

definition set_state :: "'o breaker \<Rightarrow> breaker_state \<Rightarrow> string \<Rightarrow> 'o breaker" where
  "set_state br new reason =
     (if br_state br = new then br
      else notify (br\<lparr>br_state := new\<rparr>) (StateChange (br_state br) new reason))"

definition trip :: "'o breaker \<Rightarrow> string \<Rightarrow> secs \<Rightarrow> 'o breaker" where
  "trip br reason now =
     set_state (br\<lparr>opened_until := now + open_duration (br_config br), half_open_probes := 0\<rparr>)
       OPEN reason"

definition close_breaker :: "'o breaker \<Rightarrow> string \<Rightarrow> 'o breaker" where
  "close_breaker br reason =
     set_state (br\<lparr>br_window := window_clear (br_window br), half_open_probes := 0\<rparr>) CLOSED reason"

definition check_open :: "'o breaker \<Rightarrow> secs \<Rightarrow> 'o breaker" where
  "check_open br t =
     (if br_state br \<noteq> OPEN then br
      else if opened_until br \<le> t
      then set_state (br\<lparr>half_open_probes := 0\<rparr>) HALF_OPEN ''cool-down elapsed''
      else br)"

text \<open>Reading the property \<open>state\<close> may move the breaker from OPEN to HALF_OPEN.\<close>

definition read_state :: "'o breaker \<Rightarrow> secs \<Rightarrow> breaker_state \<times> 'o breaker" where
  "read_state br t =
     (let br = (if br_state br = OPEN then check_open br t else br) in (br_state br, br))"

definition try_half_open_probe :: "'o breaker \<Rightarrow> secs \<Rightarrow> (breaker_open + unit) \<times> 'o breaker" where
  "try_half_open_probe br now =
     (let lease = open_duration (br_config br);
          cap = half_open_max_probes (br_config br);
          br = (if cap \<le> half_open_probes br \<and> probe_claimed_at br + lease \<le> now
                then br\<lparr>half_open_probes := 0\<rparr> else br)
      in if cap \<le> half_open_probes br
         then (Inl (BreakerOpen (max 0 (probe_claimed_at br + lease - now))), br)
         else (Inr (), br\<lparr>half_open_probes := half_open_probes br + 1, probe_claimed_at := now\<rparr>))"

definition check :: "'o breaker \<Rightarrow> secs \<times> secs \<Rightarrow> (breaker_open + unit) \<times> 'o breaker" where
  "check br ts =
     (if \<not> enabled (br_config br) then (Inr (), br)
      else (case read_state br (fst ts) of
              (OPEN, br) \<Rightarrow> (Inl (BreakerOpen (max 0 (opened_until br - snd ts))), br)
            | (HALF_OPEN, br) \<Rightarrow> try_half_open_probe br (snd ts)
            | (CLOSED, br) \<Rightarrow> (Inr (), br)))"

definition record_outcome :: "'o breaker \<Rightarrow> outcome \<Rightarrow> secs \<times> secs \<Rightarrow> 'o breaker" where
  "record_outcome br outc ts =
     (if \<not> enabled (br_config br) then br
      else
        (let now = fst ts;
             br = notify br (OutcomeSeen outc);
             br = br\<lparr>br_window := window_evict (br_window br) (window_duration (br_config br)) now\<rparr>
         in case read_state br (snd ts) of
              (OPEN, br) \<Rightarrow> br
            | (HALF_OPEN, br) \<Rightarrow>
                (if outc = SUCCESS then close_breaker br ''half-open probe succeeded''
                 else trip br ''half-open probe failed'' now)
            | (CLOSED, br) \<Rightarrow>
                (let br = br\<lparr>br_window := window_push (br_window br) (outc = FAILURE) now\<rparr>
                 in if min_samples (br_config br) \<le> window_sample_count (br_window br) \<and>
                       error_rate_threshold (br_config br) \<le> window_error_rate (br_window br)
                    then trip br ''error-rate threshold breached'' now
                    else br)))"

text \<open>
  \<open>guard\<close>: the body is the code inside the \<open>with\<close> block. It may use the breaker itself; a
  \<open>BreakerOpen\<close> it raises leaves \<open>outcome\<close> at SUCCESS. The answer is \<^term>\<open>Inl\<close> when the
  pre-check sheds the call, which then records nothing.
\<close>

datatype body_result = Completed | RaisedBreakerOpen | RaisedOther

definition guard ::
  "'o breaker \<Rightarrow> secs \<times> secs \<Rightarrow> ('o breaker \<Rightarrow> body_result \<times> 'o breaker) \<Rightarrow> secs \<times> secs \<Rightarrow>
   (breaker_open + body_result) \<times> 'o breaker" where
  "guard br ts body ts' =
     (case check br ts of
        (Inl e, br) \<Rightarrow> (Inl e, br)
      | (Inr _, br) \<Rightarrow>
          (let (result, br) = body br
           in (Inr result,
               record_outcome br (if result = RaisedOther then FAILURE else SUCCESS) ts')))"

section \<open>The registry\<close>

record 'o registry =
  reg_config :: breaker_config
  reg_breakers :: "(string, 'o breaker) dict"
  reg_factory :: "(string \<Rightarrow> 'o option) option"

definition new_registry :: "breaker_config option \<Rightarrow> 'o registry" where
  "new_registry config =
     \<lparr>reg_config = (case config of Some c \<Rightarrow> c | None \<Rightarrow> server_config),
      reg_breakers = [], reg_factory = None\<rparr>"

definition attach_observer_factory :: "'o registry \<Rightarrow> (string \<Rightarrow> 'o option) option \<Rightarrow> 'o registry" where
  "attach_observer_factory reg factory =
     (let reg = reg\<lparr>reg_factory := factory\<rparr>
      in case factory of
           None \<Rightarrow> reg
         | Some f \<Rightarrow>
             reg\<lparr>reg_breakers :=
               map (\<lambda>(key, br). (key, case f key of None \<Rightarrow> br | Some ob \<Rightarrow> attach_observer br ob))
                 (reg_breakers reg)\<rparr>)"

definition registry_get :: "'o registry \<Rightarrow> string \<Rightarrow> 'o breaker option \<times> 'o registry" where
  "registry_get reg key =
     (if \<not> enabled (reg_config reg) then (None, reg)
      else (case dict_get (reg_breakers reg) key of
              Some br \<Rightarrow> (Some br, reg)
            | None \<Rightarrow>
                (let ob = (case reg_factory reg of None \<Rightarrow> None | Some f \<Rightarrow> f key);
                     br = new_breaker key (Some (reg_config reg)) ob
                 in (Some br, reg\<lparr>reg_breakers := dict_set key br (reg_breakers reg)\<rparr>))))"

definition registry_known_keys :: "'o registry \<Rightarrow> string list" where
  "registry_known_keys reg = dict_keys (reg_breakers reg)"

definition registry_clear :: "'o registry \<Rightarrow> 'o registry" where
  "registry_clear reg = reg\<lparr>reg_breakers := []\<rparr>"

section \<open>The status-code policy\<close>

datatype disposition = RETRYABLE | AUTH_REFRESH | TERMINAL

record retry_policy =
  rp_retryable :: "int set"
  rp_auth_refresh :: "int set"
  rp_terminal :: "int set"
  rp_default :: disposition

definition server_policy :: retry_policy where
  "server_policy = \<lparr>rp_retryable = {429}, rp_auth_refresh = {}, rp_terminal = {}, rp_default = TERMINAL\<rparr>"

definition client_storage_policy :: retry_policy where
  "client_storage_policy = \<lparr>rp_retryable = {}, rp_auth_refresh = {401},
     rp_terminal = {400, 403, 404}, rp_default = RETRYABLE\<rparr>"

definition classify_status :: "retry_policy \<Rightarrow> int \<Rightarrow> disposition option" where
  "classify_status p status =
     (if 200 \<le> status \<and> status < 300 then None
      else if status \<in> rp_auth_refresh p then Some AUTH_REFRESH
      else if status \<in> rp_terminal p then Some TERMINAL
      else if status \<in> rp_retryable p \<or> (500 \<le> status \<and> status < 600) then Some RETRYABLE
      else Some (rp_default p))"

definition should_retry_status :: "retry_policy \<Rightarrow> int \<Rightarrow> bool" where
  "should_retry_status p status = (classify_status p status = Some RETRYABLE)"

section \<open>Invariants\<close>

definition window_ok :: "sliding_window \<Rightarrow> bool" where
  "window_ok w =
     (failures w = int (length (filter snd (entries w))) \<and> length (entries w) \<le> MAX_WINDOW_ENTRIES)"

lemma window_ok_new [inv_intros]: "window_ok new_window"
  by (simp add: window_ok_def new_window_def)

lemma window_ok_clear [inv_intros]: "window_ok (window_clear w)"
  by (simp add: window_ok_def window_clear_def)

lemma evict_loop_spec:
  "evict_loop cutoff es n =
   (dropWhile (\<lambda>e. fst e < cutoff) es,
    n - int (length (filter snd (takeWhile (\<lambda>e. fst e < cutoff) es))))"
  by (induction cutoff es n rule: evict_loop.induct) auto

lemma count_split:
  "length (filter P es) = length (filter P (takeWhile Q es)) + length (filter P (dropWhile Q es))"
  by (metis filter_append length_append takeWhile_dropWhile_id)

lemma window_evict_entries:
  "entries (window_evict w window now) = dropWhile (\<lambda>e. fst e < now - window) (entries w)"
  by (simp add: window_evict_def evict_loop_spec)

lemma window_ok_evict [inv_intros]: "window_ok w \<Longrightarrow> window_ok (window_evict w window now)"
  using count_split [of snd "entries w" "\<lambda>e. fst e < now - window"]
    length_dropWhile_le [of "\<lambda>e. fst e < now - window" "entries w"]
  by (auto simp: window_ok_def window_evict_def evict_loop_spec)

lemma window_push_entries:
  "entries (window_push w b t) =
   (if MAX_WINDOW_ENTRIES \<le> length (entries w) then drop 1 (entries w) else entries w) @ [(t, b)]"
  by (cases "entries w") (auto simp: window_push_def Let_def)

lemma window_ok_push [inv_intros]:
  assumes "window_ok w"
  shows "window_ok (window_push w b t)"
proof -
  have "length (entries (window_push w b t)) \<le> MAX_WINDOW_ENTRIES"
    using assms by (auto simp: window_push_entries window_ok_def MAX_WINDOW_ENTRIES_def)
  moreover have "failures (window_push w b t) = int (length (filter snd (entries (window_push w b t))))"
    using assms by (cases "entries w") (auto simp: window_push_def Let_def window_ok_def)
  ultimately show ?thesis by (simp add: window_ok_def)
qed

lemma error_rate_counts:
  assumes "window_ok w"
  shows "window_error_rate w =
    (if entries w = [] then 0
     else of_nat (length (filter snd (entries w))) / of_nat (length (entries w)))"
  using assms by (simp add: window_error_rate_def window_ok_def)

definition breaker_ok :: "'o breaker \<Rightarrow> bool" where
  "breaker_ok br =
     (window_ok (br_window br) \<and>
      0 \<le> half_open_probes br \<and> half_open_probes br \<le> max 0 (half_open_max_probes (br_config br)) \<and>
      (br_state br \<noteq> HALF_OPEN \<longrightarrow> half_open_probes br = 0))"

lemma breaker_ok_new [inv_intros]: "breaker_ok (new_breaker name c ob)"
  by (simp add: breaker_ok_def new_breaker_def inv_intros)

lemma set_state_frame [simp]:
  "br_state (set_state br new reason) = new"
  "br_window (set_state br new reason) = br_window br"
  "br_config (set_state br new reason) = br_config br"
  "opened_until (set_state br new reason) = opened_until br"
  "half_open_probes (set_state br new reason) = half_open_probes br"
  "probe_claimed_at (set_state br new reason) = probe_claimed_at br"
  by (simp_all add: set_state_def notify_def)

lemma trip_frame [simp]:
  "br_state (trip br reason now) = OPEN" "br_window (trip br reason now) = br_window br"
  "br_config (trip br reason now) = br_config br"
  "opened_until (trip br reason now) = now + open_duration (br_config br)"
  "half_open_probes (trip br reason now) = 0"
  by (simp_all add: trip_def)

lemma close_frame [simp]:
  "br_state (close_breaker br reason) = CLOSED"
  "br_window (close_breaker br reason) = window_clear (br_window br)"
  "br_config (close_breaker br reason) = br_config br"
  "half_open_probes (close_breaker br reason) = 0"
  by (simp_all add: close_breaker_def)

lemma read_state_simps:
  "read_state br t =
   (if br_state br = OPEN \<and> opened_until br \<le> t
    then (HALF_OPEN, set_state (br\<lparr>half_open_probes := 0\<rparr>) HALF_OPEN ''cool-down elapsed'')
    else (br_state br, br))"
  by (simp add: read_state_def check_open_def)

lemma read_state_frame [simp]:
  "br_window (snd (read_state br t)) = br_window br"
  "br_config (snd (read_state br t)) = br_config br"
  "fst (read_state br t) = br_state (snd (read_state br t))"
  by (simp_all add: read_state_simps)

lemma breaker_ok_read [inv_intros]: "breaker_ok br \<Longrightarrow> breaker_ok (snd (read_state br t))"
  by (simp add: breaker_ok_def read_state_simps)

lemma breaker_ok_probe:
  "breaker_ok br \<Longrightarrow> br_state br = HALF_OPEN \<Longrightarrow> breaker_ok (snd (try_half_open_probe br now))"
  by (auto simp: breaker_ok_def try_half_open_probe_def Let_def)

lemma breaker_ok_check [inv_intros]: "breaker_ok br \<Longrightarrow> breaker_ok (snd (check br ts))"
  using breaker_ok_read [of br "fst ts"] read_state_frame(3) [of br "fst ts"]
  by (cases "read_state br (fst ts)") (auto simp: check_def intro: breaker_ok_probe split: breaker_state.splits)

lemma breaker_ok_window:
  "breaker_ok br \<Longrightarrow> window_ok w \<Longrightarrow> breaker_ok (br\<lparr>br_window := w\<rparr>)"
  by (simp add: breaker_ok_def)

lemma breaker_ok_trip [inv_intros]: "breaker_ok br \<Longrightarrow> breaker_ok (trip br reason now)"
  by (simp add: breaker_ok_def)

lemma breaker_ok_close [inv_intros]: "breaker_ok (close_breaker br reason)"
  by (simp add: breaker_ok_def inv_intros)

lemma breaker_ok_record [inv_intros]:
  assumes "breaker_ok br"
  shows "breaker_ok (record_outcome br outc ts)"
proof (cases "enabled (br_config br)")
  case True
  define br1 where "br1 = (notify br (OutcomeSeen outc))
    \<lparr>br_window := window_evict (br_window br) (window_duration (br_config br)) (fst ts)\<rparr>"
  have ok1: "breaker_ok br1"
    using assms by (simp add: br1_def breaker_ok_def notify_def inv_intros)
  obtain st br2 where rd: "read_state br1 (snd ts) = (st, br2)" by fastforce
  then have ok2: "breaker_ok br2" using breaker_ok_read [OF ok1, of "snd ts"] by simp
  then have push: "breaker_ok (br2\<lparr>br_window := window_push (br_window br2) b t\<rparr>)" for b t
    by (intro breaker_ok_window inv_intros) (simp_all add: breaker_ok_def)
  have unfold: "record_outcome br outc ts = (case read_state br1 (snd ts) of
              (OPEN, br) \<Rightarrow> br
            | (HALF_OPEN, br) \<Rightarrow>
                (if outc = SUCCESS then close_breaker br ''half-open probe succeeded''
                 else trip br ''half-open probe failed'' (fst ts))
            | (CLOSED, br) \<Rightarrow>
                (let br = br\<lparr>br_window := window_push (br_window br) (outc = FAILURE) (fst ts)\<rparr>
                 in if min_samples (br_config br) \<le> window_sample_count (br_window br) \<and>
                       error_rate_threshold (br_config br) \<le> window_error_rate (br_window br)
                    then trip br ''error-rate threshold breached'' (fst ts)
                    else br))"
    using True by (simp add: record_outcome_def br1_def notify_def Let_def)
  show ?thesis
    unfolding unfold rd using ok2 push by (cases st) (simp_all add: Let_def inv_intros)
next
  case False
  with assms show ?thesis by (simp add: record_outcome_def)
qed

section \<open>The breaker as a shedding gate\<close>

definition br_shed_until :: "'o breaker \<Rightarrow> secs option" where
  "br_shed_until br =
     (if enabled (br_config br) \<and> br_state br = OPEN then Some (opened_until br) else None)"

lemma probe_frame [simp]:
  "br_state (snd (try_half_open_probe br now)) = br_state br"
  "br_config (snd (try_half_open_probe br now)) = br_config br"
  by (simp_all add: try_half_open_probe_def Let_def)

interpretation resilience_gate: breaker_gate check fst br_shed_until
proof
  fix br :: "'a breaker" and d and ts :: "secs \<times> secs"
  assume "br_shed_until br = Some d"
  then have br: "enabled (br_config br)" "br_state br = OPEN" "opened_until br = d"
    by (simp_all add: br_shed_until_def split: if_splits)
  show "\<exists>e. check br ts = (Inl e, br)" if "fst ts < d"
    using br that by (simp add: check_def read_state_simps)
  show "br_shed_until (snd (check br ts)) = None" if "d \<le> fst ts"
    using br that by (simp add: check_def read_state_simps br_shed_until_def)
qed

text \<open>A probe is admitted whenever a slot is free or the last lease has run out.\<close>

lemma probe_admitted:
  assumes "1 \<le> half_open_max_probes (br_config br)"
    and "half_open_probes br < half_open_max_probes (br_config br) \<or>
         probe_claimed_at br + open_duration (br_config br) \<le> now"
  shows "fst (try_half_open_probe br now) = Inr ()"
  using assms by (auto simp: try_half_open_probe_def Let_def)

datatype breaker_op = DoCheck "secs \<times> secs" | DoRecord outcome "secs \<times> secs" | DoRead secs

fun breaker_step :: "breaker_op \<Rightarrow> 'o breaker \<Rightarrow> 'o breaker" where
  "breaker_step (DoCheck ts) br = snd (check br ts)"
| "breaker_step (DoRecord outc ts) br = record_outcome br outc ts"
| "breaker_step (DoRead t) br = snd (read_state br t)"

lemma breaker_ok_steps: "breaker_ok br \<Longrightarrow> breaker_ok (fold breaker_step ops br)"
proof (induction ops arbitrary: br)
  case (Cons op ops)
  have "breaker_ok (breaker_step op br)"
    using Cons.prems by (cases op) (simp_all add: inv_intros)
  with Cons.IH show ?case by simp
qed simp

section \<open>Properties\<close>

text \<open>
  C33: Whatever sequence of checks, records and state reads a breaker goes through, its failure
  counter is the number of failing samples in the window, the window never holds more than
  10000 samples, and the probe slots in use stay within the configured bound and are released
  outside HALF_OPEN.
\<close>

theorem breaker_counters_in_step:
  "let br = fold breaker_step ops (new_breaker name config ob); w = br_window br
   in failures w = int (length (filter snd (entries w))) \<and> length (entries w) \<le> 10000 \<and>
      0 \<le> half_open_probes br \<and> half_open_probes br \<le> max 0 (half_open_max_probes (br_config br)) \<and>
      (if br_state br = HALF_OPEN then True else half_open_probes br = 0)"
proof -
  have "breaker_ok (fold breaker_step ops (new_breaker name config ob))"
    by (intro breaker_ok_steps inv_intros)
  then show ?thesis by (auto simp: breaker_ok_def window_ok_def MAX_WINDOW_ENTRIES_def Let_def)
qed

text \<open>
  C32: A closed breaker trips exactly when the samples of the window, the new one included, are
  at least \<open>min_samples\<close> and the share of failures among them reaches the threshold; it then
  sheds until \<open>open_duration\<close> after the record.
\<close>

theorem record_trips_at_threshold:
  assumes ok: "breaker_ok br" and on: "enabled (br_config br)" and closed: "br_state br = CLOSED"
  shows "let c = br_config br; now = fst ts;
             live = dropWhile (\<lambda>e. fst e < now - window_duration c) (entries (br_window br));
             es = (if length live < 10000 then live else drop 1 live) @ [(now, outc = FAILURE)];
             rate = of_nat (length (filter snd es)) / of_nat (length es);
             br' = record_outcome br outc ts
         in entries (br_window br') = es \<and>
            (if min_samples c \<le> int (length es) \<and> error_rate_threshold c \<le> rate
             then br_state br' = OPEN \<and> opened_until br' = now + open_duration c
             else br_state br' = CLOSED)"
proof -
  define c where "c = br_config br"
  define now where "now = fst ts"
  define w where "w = window_push (window_evict (br_window br) (window_duration c) now) (outc = FAILURE) now"
  define live where "live = dropWhile (\<lambda>e. fst e < now - window_duration c) (entries (br_window br))"
  define es where "es = (if length live < 10000 then live else drop 1 live) @ [(now, outc = FAILURE)]"
  have w_ok: "window_ok w" using ok unfolding w_def breaker_ok_def by (intro inv_intros) simp
  have es: "entries w = es"
    by (auto simp: w_def es_def live_def window_push_entries window_evict_entries MAX_WINDOW_ENTRIES_def)
  then have "es \<noteq> []" by (simp add: es_def)
  then have rate: "window_error_rate w = of_nat (length (filter snd es)) / of_nat (length es)"
    using error_rate_counts [OF w_ok] by (simp add: es)
  define br1 where "br1 = (notify br (OutcomeSeen outc))\<lparr>br_window := w\<rparr>"
  have "record_outcome br outc ts =
      (if min_samples c \<le> int (length es) \<and>
          error_rate_threshold c \<le> of_nat (length (filter snd es)) / of_nat (length es)
       then trip br1 ''error-rate threshold breached'' now else br1)"
    using on closed rate es
    by (simp add: record_outcome_def br1_def w_def notify_def read_state_simps c_def now_def
        window_sample_count_def Let_def)
  moreover have "br_state br1 = CLOSED" "br_window br1 = w" "br_config br1 = c"
    using closed by (simp_all add: br1_def notify_def c_def)
  ultimately show ?thesis
    unfolding Let_def
    by (fold c_def now_def, fold live_def, fold es_def) (simp add: es)
qed

text \<open>
  C34: While an enabled breaker is OPEN, every check before its deadline is refused and changes
  nothing, however many there are, and the first check at or after the deadline stops the
  shedding; with a probe slot configured that check is admitted.
\<close>

theorem open_breaker_sheds_until_deadline:
  assumes "enabled (br_config br)" and "br_state br = OPEN"
    and "\<forall>r\<in>set rs. fst r < opened_until br" and "opened_until br \<le> fst r"
    and "1 \<le> half_open_max_probes (br_config br)"
  shows "admitted (fst (run_gate check br rs)) = 0 \<and> snd (run_gate check br rs) = br \<and>
    fst (check br r) = Inr () \<and> br_state (snd (check br r)) = HALF_OPEN"
proof -
  have until: "br_shed_until br = Some (opened_until br)" using assms(1,2) by (simp add: br_shed_until_def)
  have "fst (check br r) = Inr () \<and> br_state (snd (check br r)) = HALF_OPEN"
    using assms by (simp add: check_def read_state_simps probe_admitted)
  with resilience_gate.all_shed [OF until assms(3)] show ?thesis by simp
qed

text \<open>
  C35: The breaker never wedges: a check is admitted, in whatever state, as soon as the cool-down
  is over and the last probe lease has run out, even when no probe ever reports back.
\<close>

theorem check_admits_after_lease:
  assumes "1 \<le> half_open_max_probes (br_config br)"
    and "opened_until br \<le> fst ts" and "probe_claimed_at br + open_duration (br_config br) \<le> snd ts"
  shows "fst (check br ts) = Inr ()"
  using assms by (auto simp: check_def read_state_simps probe_admitted split: breaker_state.splits)

text \<open>
  Within one lease of a half-open breaker no more checks are admitted than there are free
  probe slots.
\<close>

theorem probes_bounded_within_lease:
  assumes "enabled (br_config br)" and "br_state br = HALF_OPEN"
    and "\<forall>(t1, t2)\<in>set rs. c \<le> t2 \<and> t2 < c + open_duration (br_config br)"
    and "c \<le> probe_claimed_at br"
  shows "int (admitted (fst (run_gate check br rs))) \<le>
    max 0 (half_open_max_probes (br_config br) - half_open_probes br)"
  using assms
proof (induction rs arbitrary: br)
  case (Cons r rs)
  obtain t1 t2 where r: "r = (t1, t2)" by fastforce
  have t2: "c \<le> t2" "t2 < c + open_duration (br_config br)" using Cons.prems(3) by (auto simp: r)
  have ck: "check br r = try_half_open_probe br t2"
    using Cons.prems(1,2) by (simp add: check_def read_state_simps r)
  have held: "\<not> probe_claimed_at br + open_duration (br_config br) \<le> t2"
    using t2(2) Cons.prems(4) by linarith
  show ?case
  proof (cases "half_open_max_probes (br_config br) \<le> half_open_probes br")
    case True
    then obtain e where "check br r = (Inl e, br)"
      using ck held by (auto simp: try_half_open_probe_def Let_def)
    with Cons.IH [OF Cons.prems(1,2) _ Cons.prems(4)] Cons.prems(3) show ?thesis
      by (cases "run_gate check br rs") simp
  next
    case False
    define br' where "br' = br\<lparr>half_open_probes := half_open_probes br + 1, probe_claimed_at := t2\<rparr>"
    have step: "check br r = (Inr (), br')"
      using ck False by (simp add: try_half_open_probe_def Let_def br'_def)
    have "int (admitted (fst (run_gate check br' rs))) \<le>
        max 0 (half_open_max_probes (br_config br') - half_open_probes br')"
      by (rule Cons.IH) (use Cons.prems t2 in \<open>auto simp: br'_def\<close>)
    with step False show ?thesis by (cases "run_gate check br' rs") (simp add: br'_def)
  qed
qed simp

text \<open>
  A \<open>BreakerOpen\<close> that comes out of the guarded block, not out of the pre-check, is recorded as
  a success: it closes a half-open breaker.
\<close>

lemma guard_counts_inner_shed_as_success:
  assumes "enabled (br_config br)" and "br_state br = HALF_OPEN" and "half_open_probes br = 0"
    and "1 \<le> half_open_max_probes (br_config br)"
  shows "br_state (snd (guard br ts (\<lambda>b. (RaisedBreakerOpen, b)) ts')) = CLOSED"
  using assms
  by (simp add: guard_def check_def read_state_simps try_half_open_probe_def record_outcome_def
      notify_def Let_def)

text \<open>The registry gives the same breaker for a key until it is cleared.\<close>

lemma registry_get_stable:
  assumes "registry_get reg key = (Some br, reg')"
  shows "registry_get reg' key = (Some br, reg')"
    and "k \<noteq> key \<Longrightarrow> dict_get (reg_breakers reg') k = dict_get (reg_breakers reg) k"
  using assms by (auto simp: registry_get_def dict_simps Let_def split: if_splits option.splits)

section \<open>Witnesses\<close>

definition ex_breaker :: "unit breaker" where
  "ex_breaker = new_breaker ''b'' (Some (server_config\<lparr>min_samples := 2\<rparr>)) None"

lemmas breaker_eval = record_outcome_def check_def read_state_simps try_half_open_probe_def trip_def
  set_state_def notify_def new_breaker_def new_window_def window_push_def window_evict_def
  window_sample_count_def window_error_rate_def server_config_def MAX_WINDOW_ENTRIES_def Let_def

definition ex_open :: "unit breaker" where
  "ex_open = record_outcome (record_outcome ex_breaker FAILURE (1, 1)) FAILURE (2, 2)"

theorem record_trips_at_threshold_witness:
  "br_state (record_outcome (record_outcome ex_breaker FAILURE (1, 1)) FAILURE (2, 2)) = OPEN \<and>
   breaker_ok ex_breaker"
proof -
  define b1 where "b1 = record_outcome ex_breaker FAILURE (1, 1)"
  have ok: "breaker_ok ex_breaker" "breaker_ok b1"
    unfolding b1_def ex_breaker_def by (intro inv_intros)+
  have b1: "enabled (br_config b1)" "br_state b1 = CLOSED" "br_config b1 = server_config\<lparr>min_samples := 2\<rparr>"
    "entries (br_window b1) = [(1, True)]"
    by (simp_all add: b1_def ex_breaker_def breaker_eval)
  from record_trips_at_threshold [OF ok(2) b1(1,2), of "(2, 2)" FAILURE] b1(3,4) ok(1)
  show ?thesis by (simp add: Let_def server_config_def flip: b1_def)
qed

lemma ex_open_facts:
  "br_state ex_open = OPEN" "opened_until ex_open = 12" "probe_claimed_at ex_open = 0"
  "br_config ex_open = server_config\<lparr>min_samples := 2\<rparr>"
  by (simp_all add: ex_open_def ex_breaker_def breaker_eval)

theorem open_breaker_sheds_until_deadline_witness:
  "admitted (fst (run_gate check ex_open [(3, 3), (11, 11)])) = 0 \<and> fst (check ex_open (12, 12)) = Inr ()"
proof -
  have "enabled (br_config ex_open)" "br_state ex_open = OPEN"
    "\<forall>r\<in>set [(3, 3), (11, 11)]. fst r < opened_until ex_open" "opened_until ex_open \<le> fst (12, 12)"
    "1 \<le> half_open_max_probes (br_config ex_open)"
    by (simp_all add: ex_open_facts server_config_def)
  from open_breaker_sheds_until_deadline [OF this] show ?thesis by simp
qed

theorem check_admits_after_lease_witness: "fst (check ex_open (20, 20)) = Inr ()"
  by (rule check_admits_after_lease) (simp_all add: ex_open_facts server_config_def)

theorem probes_bounded_within_lease_witness:
  "admitted (fst (run_gate check (snd (check ex_open (12, 12))) [(13, 13), (14, 14)])) = 0"
proof -
  define br where "br = snd (check ex_open (12, 12))"
  have br: "br_config br = server_config\<lparr>min_samples := 2\<rparr>" "br_state br = HALF_OPEN"
    "probe_claimed_at br = 12" "half_open_probes br = 1"
    by (simp_all add: br_def check_def read_state_simps ex_open_facts try_half_open_probe_def set_state_def
        notify_def server_config_def Let_def)
  have "int (admitted (fst (run_gate check br [(13, 13), (14, 14)]))) \<le>
      max 0 (half_open_max_probes (br_config br) - half_open_probes br)"
    by (rule probes_bounded_within_lease [of br _ 12]) (simp_all add: br server_config_def)
  then show ?thesis by (simp add: br server_config_def flip: br_def)
qed

end
