(* ===== verification/Reliability.thy ===== *)
theory Reliability
  imports Breaker_Gate
begin

text \<open>
  The package \<open>agent/reliability\<close>: the asyncio circuit breaker that guards the model call and
  the tools, its registry, and \<open>with_retry\<close>. The lock of the breaker makes each \<open>check\<close> and
  each \<open>record\<close> one step. The retried coroutine, the random numbers and the wait are given:
  \<open>coro n\<close> is what attempt \<open>n\<close> does, \<open>rnd n\<close> the number drawn after it.
\<close>

section \<open>The breaker\<close>

definition rel_default_config :: breaker_config where
  "rel_default_config = \<lparr>window_duration = 60, min_samples = 5, error_rate_threshold = 1 / 2,
     open_duration = 60, half_open_max_probes = 1, failure_codes = DEFAULT_FAILURE_CODES,
     enabled = True\<rparr>"

definition rel_server_config :: breaker_config where
  "rel_server_config = rel_default_config\<lparr>window_duration := 60, min_samples := 5,
     error_rate_threshold := 1 / 2, open_duration := 30, half_open_max_probes := 1\<rparr>"

definition rel_client_config :: breaker_config where
  "rel_client_config = rel_default_config\<lparr>window_duration := 60, min_samples := 3,
     error_rate_threshold := 1 / 2, open_duration := 60, half_open_max_probes := 1\<rparr>"

datatype rel_breaker_open = RelBreakerOpen secs breaker_state

record 'o rel_breaker =
  rb_config :: breaker_config
  rb_name :: string
  rb_state :: breaker_state
  rb_opened_at :: secs
  rb_samples :: "(secs \<times> outcome) list"
  rb_half_open_inflight :: int
  rb_observer :: "'o option"
  rb_events :: "('o option \<times> breaker_event) list"

definition new_rel_breaker :: "breaker_config option \<Rightarrow> string \<Rightarrow> 'o option \<Rightarrow> 'o rel_breaker" where
  "new_rel_breaker config name observer =
     \<lparr>rb_config = (case config of Some c \<Rightarrow> c | None \<Rightarrow> rel_server_config), rb_name = name,
      rb_state = CLOSED, rb_opened_at = 0, rb_samples = [], rb_half_open_inflight = 0,
      rb_observer = observer, rb_events = []\<rparr>"

definition rel_attach_observer :: "'o rel_breaker \<Rightarrow> 'o \<Rightarrow> 'o rel_breaker" where
  "rel_attach_observer br observer = br\<lparr>rb_observer := Some observer\<rparr>"

definition rel_notify :: "'o rel_breaker \<Rightarrow> breaker_event \<Rightarrow> 'o rel_breaker" where
  "rel_notify br ev = br\<lparr>rb_events := rb_events br @ [(rb_observer br, ev)]\<rparr>"

definition rel_error_rate :: "'o rel_breaker \<Rightarrow> rat" where
  "rel_error_rate br =
     (if rb_samples br = [] then 0
      else of_nat (length (filter (\<lambda>(_, outc). outc = FAILURE) (rb_samples br))) /
           of_nat (length (rb_samples br)))"

definition rel_prune :: "'o rel_breaker \<Rightarrow> secs \<Rightarrow> 'o rel_breaker" where
  "rel_prune br now =
     br\<lparr>rb_samples := dropWhile (\<lambda>(t, _). t < now - window_duration (rb_config br)) (rb_samples br)\<rparr>"

definition rel_check :: "'o rel_breaker \<Rightarrow> secs \<Rightarrow> (rel_breaker_open + unit) \<times> 'o rel_breaker" where
  "rel_check br now =
     (if \<not> enabled (rb_config br) then (Inr (), br)
      else
        (let elapsed = now - rb_opened_at br;
             c = rb_config br
         in if rb_state br = OPEN \<and> \<not> open_duration c \<le> elapsed
            then (Inl (RelBreakerOpen (open_duration c - elapsed) OPEN), br)
            else
              (let br = (if rb_state br = OPEN
                         then rel_notify (br\<lparr>rb_state := HALF_OPEN, rb_half_open_inflight := 0\<rparr>)
                                (StateChange OPEN HALF_OPEN ''open_elapsed'')
                         else br)
               in if rb_state br = HALF_OPEN
                  then (if half_open_max_probes c \<le> rb_half_open_inflight br
                        then (Inl (RelBreakerOpen (open_duration c) HALF_OPEN), br)
                        else (Inr (), br\<lparr>rb_half_open_inflight := rb_half_open_inflight br + 1\<rparr>))
                  else (Inr (), br))))"

definition rel_trip :: "'o rel_breaker \<Rightarrow> secs \<Rightarrow> string \<Rightarrow> 'o rel_breaker" where
  "rel_trip br now reason =
     rel_notify (br\<lparr>rb_state := OPEN, rb_opened_at := now\<rparr>) (StateChange (rb_state br) OPEN reason)"

definition coerce_outcome :: "breaker_config \<Rightarrow> outcome \<Rightarrow> int option \<Rightarrow> outcome" where
  "coerce_outcome c outc status_code =
     (case status_code of
        None \<Rightarrow> outc
      | Some code \<Rightarrow> (if outc = FAILURE \<and> code \<notin> failure_codes c then SUCCESS else outc))"

definition rel_record :: "'o rel_breaker \<Rightarrow> outcome \<Rightarrow> int option \<Rightarrow> secs \<Rightarrow> 'o rel_breaker" where
  "rel_record br outc status_code now =
     (if \<not> enabled (rb_config br) then br
      else
        (let outc = coerce_outcome (rb_config br) outc status_code;
             br = rel_prune (br\<lparr>rb_samples := rb_samples br @ [(now, outc)]\<rparr>) now;
             br = (case rb_state br of
                     HALF_OPEN \<Rightarrow>
                       (let br = br\<lparr>rb_half_open_inflight := max 0 (rb_half_open_inflight br - 1)\<rparr>
                        in if outc = FAILURE then rel_trip br now ''probe_failure''
                           else rel_notify (br\<lparr>rb_state := CLOSED, rb_samples := []\<rparr>)
                                  (StateChange HALF_OPEN CLOSED ''probe_success''))
                   | CLOSED \<Rightarrow>
                       (if min_samples (rb_config br) \<le> int (length (rb_samples br)) \<and>
                           error_rate_threshold (rb_config br) \<le> rel_error_rate br
                        then rel_trip br now ''trip'' else br)
                   | OPEN \<Rightarrow> br)
         in rel_notify br (OutcomeSeen outc)))"

section \<open>The registry\<close>

record 'o rel_registry =
  rr_default :: breaker_config
  rr_breakers :: "(string, 'o rel_breaker) dict"

definition new_rel_registry :: "breaker_config option \<Rightarrow> 'o rel_registry" where
  "new_rel_registry default_config =
     \<lparr>rr_default = (case default_config of Some c \<Rightarrow> c | None \<Rightarrow> rel_server_config), rr_breakers = []\<rparr>"

definition get_or_create ::
  "'o rel_registry \<Rightarrow> string \<Rightarrow> breaker_config option \<Rightarrow> 'o rel_breaker \<times> 'o rel_registry" where
  "get_or_create reg key config =
     (case dict_get (rr_breakers reg) key of
        Some br \<Rightarrow> (br, reg)
      | None \<Rightarrow>
          (let br = new_rel_breaker
                      (Some (case config of Some c \<Rightarrow> c | None \<Rightarrow> rr_default reg)) key None
           in (br, reg\<lparr>rr_breakers := dict_set key br (rr_breakers reg)\<rparr>)))"

definition rel_get :: "'o rel_registry \<Rightarrow> string \<Rightarrow> 'o rel_breaker option" where
  "rel_get reg key = dict_get (rr_breakers reg) key"

definition all_states :: "'o rel_registry \<Rightarrow> (string, breaker_state) dict" where
  "all_states reg = map (\<lambda>(k, b). (k, rb_state b)) (rr_breakers reg)"

section \<open>Retrying\<close>

text \<open>
  The exceptions the classification tells apart: \<open>LLMStreamTimeout\<close>, the builtin timeout and
  connection errors, \<open>LLMError\<close> with its two attributes, any other \<open>Exception\<close>, and those that
  are not an \<open>Exception\<close> (a cancellation), which \<open>with_retry\<close> does not catch.
\<close>

datatype exc =
    LLMStreamTimeout
  | TimeoutError
  | ConnectionError
  | LLMError (breaker_open: bool) (status_code: "int option")
  | OtherException
  | NotAnException

datatype retry_disposition = RETRYABLE | TERMINAL

definition RETRYABLE_STATUS :: "int set" where
  "RETRYABLE_STATUS = {429, 500, 502, 503, 504}"

definition TERMINAL_STATUS :: "int set" where
  "TERMINAL_STATUS = {400, 401, 403, 404, 422}"

definition classify_exception :: "exc \<Rightarrow> retry_disposition" where
  "classify_exception e =
     (case e of
        LLMStreamTimeout \<Rightarrow> RETRYABLE
      | TimeoutError \<Rightarrow> RETRYABLE
      | ConnectionError \<Rightarrow> RETRYABLE
      | LLMError shed status \<Rightarrow>
          (if shed then TERMINAL
           else (case status of
                   None \<Rightarrow> RETRYABLE
                 | Some code \<Rightarrow>
                     (if code \<in> RETRYABLE_STATUS then RETRYABLE
                      else if code \<in> TERMINAL_STATUS then TERMINAL
                      else RETRYABLE)))
      | _ \<Rightarrow> TERMINAL)"

record rel_retry_policy =
  max_attempts :: int
  base_delay :: secs
  max_delay :: secs
  backoff_factor :: rat
  jitter_factor :: rat

definition rel_default_policy :: rel_retry_policy where
  "rel_default_policy = \<lparr>max_attempts = 3, base_delay = 1, max_delay = 30, backoff_factor = 2,
     jitter_factor = 1 / 4\<rparr>"

definition llm_policy :: rel_retry_policy where
  "llm_policy = rel_default_policy\<lparr>max_attempts := 3, base_delay := 1, max_delay := 30, backoff_factor := 2\<rparr>"

definition tool_policy :: rel_retry_policy where
  "tool_policy = rel_default_policy\<lparr>max_attempts := 2, base_delay := 1 / 2, max_delay := 5, backoff_factor := 2\<rparr>"

definition delay_for :: "rel_retry_policy \<Rightarrow> nat \<Rightarrow> rat \<Rightarrow> secs" where
  "delay_for p attempt random =
     (let raw = base_delay p * backoff_factor p ^ attempt;
          capped = min raw (max_delay p);
          jitter = capped * jitter_factor p * (2 * random - 1)
      in max 0 (capped + jitter))"

text \<open>
  The loop. \<open>attempt\<close> counts the failures so far; the log keeps what \<open>on_retry\<close> is told and
  the wait that follows: the attempt, the exception and the delay.
\<close>

function with_retry_loop ::
  "(nat \<Rightarrow> exc + 'a) \<Rightarrow> rel_retry_policy \<Rightarrow> (nat \<Rightarrow> rat) \<Rightarrow> nat \<Rightarrow> (nat \<times> exc \<times> secs) list \<Rightarrow>
   (exc + 'a) \<times> (nat \<times> exc \<times> secs) list" where
  "with_retry_loop coro p rnd attempt retries =
     (case coro attempt of
        Inr x \<Rightarrow> (Inr x, retries)
      | Inl e \<Rightarrow>
          (if e = NotAnException \<or> classify_exception e = TERMINAL \<or> max_attempts p \<le> int (Suc attempt)
           then (Inl e, retries)
           else with_retry_loop coro p rnd (Suc attempt)
                  (retries @ [(Suc attempt, e, delay_for p attempt (rnd attempt))])))"
  by auto

termination
  by (relation "measure (\<lambda>(coro, p, rnd, attempt, retries). nat (max_attempts p) - attempt)") auto

declare with_retry_loop.simps [simp del]

definition with_retry ::
  "(nat \<Rightarrow> exc + 'a) \<Rightarrow> rel_retry_policy option \<Rightarrow> (nat \<Rightarrow> rat) \<Rightarrow> (exc + 'a) \<times> (nat \<times> exc \<times> secs) list" where
  "with_retry coro policy rnd =
     with_retry_loop coro (case policy of Some p \<Rightarrow> p | None \<Rightarrow> llm_policy) rnd 0 []"

section \<open>The breaker as a shedding gate\<close>

definition rb_shed_until :: "'o rel_breaker \<Rightarrow> secs option" where
  "rb_shed_until br =
     (if enabled (rb_config br) \<and> rb_state br = OPEN
      then Some (rb_opened_at br + open_duration (rb_config br)) else None)"

interpretation reliability_gate: breaker_gate rel_check "\<lambda>t. t" rb_shed_until
proof
  fix br :: "'a rel_breaker" and d now :: secs
  assume "rb_shed_until br = Some d"
  then have br: "enabled (rb_config br)" "rb_state br = OPEN"
    "rb_opened_at br + open_duration (rb_config br) = d"
    by (simp_all add: rb_shed_until_def split: if_splits)
  show "\<exists>e. rel_check br now = (Inl e, br)" if "now < d"
    using br that by (auto simp: rel_check_def Let_def)
  show "rb_shed_until (snd (rel_check br now)) = None" if "d \<le> now"
    using br that by (auto simp: rel_check_def rel_notify_def rb_shed_until_def Let_def)
qed

section \<open>Facts\<close>

lemma rel_check_stuck:
  assumes "enabled (rb_config br)" and "rb_state br = HALF_OPEN"
    and "half_open_max_probes (rb_config br) \<le> rb_half_open_inflight br"
  shows "rel_check br now = (Inl (RelBreakerOpen (open_duration (rb_config br)) HALF_OPEN), br)"
  using assms by (simp add: rel_check_def Let_def)

text \<open>What a run of the loop from attempt \<open>n\<close> does: \<open>k\<close> is the attempt that ends it.\<close>

lemma with_retry_loop_run:
  "\<exists>k\<ge>n. fst (with_retry_loop coro p rnd n retries) = coro k \<and>
     snd (with_retry_loop coro p rnd n retries) =
       retries @ map (\<lambda>i. (Suc i, projl (coro i), delay_for p i (rnd i))) [n..<k] \<and>
     (\<forall>i. n \<le> i \<and> i < k \<longrightarrow> isl (coro i) \<and> classify_exception (projl (coro i)) = RETRYABLE) \<and>
     int (Suc k) \<le> max (int (Suc n)) (max_attempts p) \<and>
     (isl (coro k) \<longrightarrow> projl (coro k) = NotAnException \<or> classify_exception (projl (coro k)) = TERMINAL \<or>
        max_attempts p \<le> int (Suc k))"
proof (induction coro p rnd n retries rule: with_retry_loop.induct)
  case (1 coro p rnd n retries)
  show ?case
  proof (cases "coro n")
    case (Inr x)
    then show ?thesis by (intro exI [of _ n]) (auto simp: with_retry_loop.simps)
  next
    case (Inl e)
    show ?thesis
    proof (cases "e = NotAnException \<or> classify_exception e = TERMINAL \<or> max_attempts p \<le> int (Suc n)")
      case True
      with Inl show ?thesis by (intro exI [of _ n]) (auto simp: with_retry_loop.simps)
    next
      case False
      let ?retries = "retries @ [(Suc n, e, delay_for p n (rnd n))]"
      have step: "with_retry_loop coro p rnd n retries = with_retry_loop coro p rnd (Suc n) ?retries"
        using Inl False by (subst with_retry_loop.simps) auto
      have retry: "classify_exception e = RETRYABLE" using False by (cases "classify_exception e") auto
      from "1.IH" [OF Inl False] obtain k where k: "Suc n \<le> k"
        "fst (with_retry_loop coro p rnd (Suc n) ?retries) = coro k"
        "snd (with_retry_loop coro p rnd (Suc n) ?retries) =
           ?retries @ map (\<lambda>i. (Suc i, projl (coro i), delay_for p i (rnd i))) [Suc n..<k]"
        "\<forall>i. Suc n \<le> i \<and> i < k \<longrightarrow> isl (coro i) \<and> classify_exception (projl (coro i)) = RETRYABLE"
        "int (Suc k) \<le> max (int (Suc (Suc n))) (max_attempts p)"
        "isl (coro k) \<longrightarrow> projl (coro k) = NotAnException \<or> classify_exception (projl (coro k)) = TERMINAL \<or>
           max_attempts p \<le> int (Suc k)"
        by blast
      have "[n..<k] = n # [Suc n..<k]" using k(1) by (simp add: upt_conv_Cons)
      moreover have "isl (coro i) \<and> classify_exception (projl (coro i)) = RETRYABLE" if "n \<le> i" "i < k" for i
        using k(4) that Inl retry by (cases "i = n") auto
      moreover have "int (Suc k) \<le> max (int (Suc n)) (max_attempts p)" using k(5) False by linarith
      ultimately show ?thesis using k Inl by (intro exI [of _ k]) (auto simp: step)
    qed
  qed
qed

lemma delay_for_bounds:
  assumes "0 \<le> base_delay p" "0 \<le> max_delay p" "0 \<le> backoff_factor p" "0 \<le> jitter_factor p"
    and "0 \<le> r" "r \<le> 1"
  shows "0 \<le> delay_for p n r \<and> delay_for p n r \<le> max_delay p * (1 + jitter_factor p)"
proof -
  define capped where "capped = min (base_delay p * backoff_factor p ^ n) (max_delay p)"
  have c: "0 \<le> capped" "capped \<le> max_delay p" using assms by (simp_all add: capped_def)
  have "capped * jitter_factor p * (2 * r - 1) \<le> capped * jitter_factor p"
    using c assms by (intro mult_left_le) simp_all
  also have "\<dots> \<le> max_delay p * jitter_factor p" using c assms by (intro mult_right_mono) simp_all
  finally have "capped + capped * jitter_factor p * (2 * r - 1) \<le> max_delay p + max_delay p * jitter_factor p"
    using c(2) by linarith
  moreover have "0 \<le> max_delay p + max_delay p * jitter_factor p" using assms by simp
  ultimately show ?thesis by (simp add: delay_for_def Let_def capped_def distrib_left)
qed

section \<open>Properties\<close>

text \<open>
  A breaker in HALF_OPEN whose probe slots are all taken by calls that never report back
  (a cancelled tool call records nothing) refuses every later check, at whatever time: it
  stays in that state for ever, there is no lease to reap.
\<close>

theorem lost_probe_wedges_breaker:
  assumes "enabled (rb_config br)" and "rb_state br = HALF_OPEN"
    and "half_open_max_probes (rb_config br) \<le> rb_half_open_inflight br"
  shows "admitted (fst (run_gate rel_check br ts)) = 0 \<and> snd (run_gate rel_check br ts) = br"
proof (induction ts)
  case (Cons t ts)
  with rel_check_stuck [OF assms, of t] show ?case by (cases "run_gate rel_check br ts") simp
qed simp

text \<open>
  An open breaker refuses every check before \<open>open_duration\<close> has elapsed and changes
  nothing; the first check after that is admitted as a probe.
\<close>

theorem rel_open_sheds_until_elapsed:
  assumes "enabled (rb_config br)" and "rb_state br = OPEN" and "1 \<le> half_open_max_probes (rb_config br)"
    and "\<forall>t\<in>set ts. t < rb_opened_at br + open_duration (rb_config br)"
    and "rb_opened_at br + open_duration (rb_config br) \<le> now"
  shows "admitted (fst (run_gate rel_check br ts)) = 0 \<and> snd (run_gate rel_check br ts) = br \<and>
    fst (rel_check br now) = Inr () \<and> rb_state (snd (rel_check br now)) = HALF_OPEN \<and>
    rb_half_open_inflight (snd (rel_check br now)) = 1"
proof -
  have "rb_shed_until br = Some (rb_opened_at br + open_duration (rb_config br))"
    using assms(1,2) by (simp add: rb_shed_until_def)
  note shed = reliability_gate.all_shed [OF this assms(4)]
  have "fst (rel_check br now) = Inr () \<and> rb_state (snd (rel_check br now)) = HALF_OPEN \<and>
      rb_half_open_inflight (snd (rel_check br now)) = 1"
    using assms(1,2,3,5) by (simp add: rel_check_def rel_notify_def Let_def)
  with shed show ?thesis by simp
qed

text \<open>
  C38: \<open>with_retry\<close> always returns. It makes at most \<open>max_attempts\<close> attempts (one at least),
  answers what its last attempt did, every earlier attempt failed with a retryable exception,
  one wait follows each of them, and it gives up only on success, on a terminal exception or
  when the attempts are used up.
\<close>

theorem with_retry_bounded:
  "\<exists>k. fst (with_retry coro (Some p) rnd) = coro k \<and> int (Suc k) \<le> max 1 (max_attempts p) \<and>
     map fst (snd (with_retry coro (Some p) rnd)) = map Suc [0..<k] \<and>
     (\<forall>i\<in>{..<k}. isl (coro i) \<and> classify_exception (projl (coro i)) = RETRYABLE) \<and>
     (if isl (coro k)
      then classify_exception (projl (coro k)) = TERMINAL \<or> int (Suc k) = max 1 (max_attempts p)
      else True)"
proof -
  from with_retry_loop_run [of 0 coro p rnd "[]"] obtain k where k:
    "fst (with_retry coro (Some p) rnd) = coro k"
    "snd (with_retry coro (Some p) rnd) = map (\<lambda>i. (Suc i, projl (coro i), delay_for p i (rnd i))) [0..<k]"
    "\<forall>i. 0 \<le> i \<and> i < k \<longrightarrow> isl (coro i) \<and> classify_exception (projl (coro i)) = RETRYABLE"
    "int (Suc k) \<le> max (int (Suc 0)) (max_attempts p)"
    "isl (coro k) \<longrightarrow> projl (coro k) = NotAnException \<or> classify_exception (projl (coro k)) = TERMINAL \<or>
        max_attempts p \<le> int (Suc k)"
    by (auto simp: with_retry_def)
  moreover have "classify_exception NotAnException = TERMINAL" by (simp add: classify_exception_def)
  ultimately show ?thesis by (intro exI [of _ k]) (auto simp: comp_def)
qed

text \<open>
  With a sensible policy every wait of \<open>with_retry\<close> is between zero and the ceiling plus
  its share of jitter.
\<close>

theorem retry_delays_bounded:
  assumes "0 \<le> base_delay p \<and> 0 \<le> max_delay p \<and> 0 \<le> backoff_factor p \<and> 0 \<le> jitter_factor p"
    and "\<forall>n. 0 \<le> rnd n \<and> rnd n < 1"
    and "(n, e, d) \<in> set (snd (with_retry coro (Some p) rnd))"
  shows "0 \<le> d \<and> d \<le> max_delay p * (1 + jitter_factor p)"
proof -
  from with_retry_loop_run [of 0 coro p rnd "[]"] obtain k where
    "snd (with_retry coro (Some p) rnd) = map (\<lambda>i. (Suc i, projl (coro i), delay_for p i (rnd i))) [0..<k]"
    by (auto simp: with_retry_def)
  with assms(3) obtain i where "d = delay_for p i (rnd i)" by auto
  with delay_for_bounds [of p "rnd i" i] assms(1,2) show ?thesis by (simp add: less_imp_le)
qed

section \<open>Witnesses\<close>

definition ex_rel :: "unit rel_breaker" where
  "ex_rel = (new_rel_breaker (Some rel_client_config) ''tool:x'' None)\<lparr>rb_state := OPEN, rb_opened_at := 5\<rparr>"

lemma ex_rel_facts:
  "enabled (rb_config ex_rel)" "rb_state ex_rel = OPEN" "rb_opened_at ex_rel = 5"
  "half_open_max_probes (rb_config ex_rel) = 1" "open_duration (rb_config ex_rel) = 60"
  by (simp_all add: ex_rel_def new_rel_breaker_def rel_client_config_def rel_default_config_def)

theorem rel_open_sheds_until_elapsed_witness:
  "admitted (fst (run_gate rel_check ex_rel [6, 64])) = 0 \<and> fst (rel_check ex_rel 65) = Inr ()"
proof -
  have "\<forall>t\<in>set [6, 64]. t < rb_opened_at ex_rel + open_duration (rb_config ex_rel)"
    "rb_opened_at ex_rel + open_duration (rb_config ex_rel) \<le> 65"
    "1 \<le> half_open_max_probes (rb_config ex_rel)"
    by (simp_all add: ex_rel_facts)
  from rel_open_sheds_until_elapsed [OF ex_rel_facts(1,2) this(3,1,2)] show ?thesis by simp
qed

theorem lost_probe_wedges_breaker_witness:
  "admitted (fst (run_gate rel_check (snd (rel_check ex_rel 65)) [66, 1000, 1000000])) = 0"
proof -
  define br where "br = snd (rel_check ex_rel 65)"
  have "enabled (rb_config br)" "rb_state br = HALF_OPEN"
    "half_open_max_probes (rb_config br) \<le> rb_half_open_inflight br"
    by (simp_all add: br_def rel_check_def rel_notify_def ex_rel_facts Let_def)
  from lost_probe_wedges_breaker [OF this, of "[66, 1000, 1000000]"] show ?thesis
    unfolding br_def [symmetric] by (rule conjunct1)
qed

theorem with_retry_bounded_witness:
  "\<exists>k. fst (with_retry (\<lambda>n. if n = 0 then Inl TimeoutError else Inl (LLMError False (Some 503)))
      (Some tool_policy) (\<lambda>_. 0)) = (Inl (if k = 0 then TimeoutError else LLMError False (Some 503)) :: exc + unit)
    \<and> int (Suc k) = 2"
proof -
  define coro where
    "coro = (\<lambda>n::nat. (if n = 0 then Inl TimeoutError else Inl (LLMError False (Some 503))) :: exc + unit)"
  have coro: "isl (coro n)" "classify_exception (projl (coro n)) = RETRYABLE" for n
    by (simp_all add: coro_def classify_exception_def RETRYABLE_STATUS_def)
  from with_retry_bounded [of coro tool_policy "\<lambda>_. 0"] obtain k where
    "fst (with_retry coro (Some tool_policy) (\<lambda>_. 0)) = coro k" "int (Suc k) = max 1 (max_attempts tool_policy)"
    by (auto simp: coro)
  then show ?thesis
    unfolding coro_def by (intro exI [of _ k]) (simp add: tool_policy_def rel_default_policy_def)
qed

theorem retry_delays_bounded_witness:
  "\<exists>d. (1, TimeoutError, d) \<in> set (snd (with_retry (\<lambda>n. if n = 0 then Inl TimeoutError else Inr ())
     (Some llm_policy) (\<lambda>_. 0))) \<and> 0 \<le> d \<and> d \<le> 30 * (1 + 1 / 4)"
proof -
  let ?coro = "\<lambda>n::nat. if n = 0 then Inl TimeoutError else Inr ()"
  have mem: "(1, TimeoutError, delay_for llm_policy 0 0) \<in>
      set (snd (with_retry ?coro (Some llm_policy) (\<lambda>_. 0)))"
    by (simp add: with_retry_def with_retry_loop.simps classify_exception_def llm_policy_def
        rel_default_policy_def)
  have "0 \<le> delay_for llm_policy 0 0 \<and>
      delay_for llm_policy 0 0 \<le> max_delay llm_policy * (1 + jitter_factor llm_policy)"
    by (rule retry_delays_bounded [OF _ _ mem]) (simp_all add: llm_policy_def rel_default_policy_def)
  with mem show ?thesis by (auto simp: llm_policy_def rel_default_policy_def)
qed

end
