(* ===== verification/Sampler_Retry.thy ===== *)
theory Sampler_Retry
  imports Py_Strings
begin

text \<open>
  The retry decision layer of the sampler: the error union with its predicates
  (\<open>sampler/types.py\<close>), and budget, back-off, classification and formatting
  (\<open>sampler/retry.py\<close>). A wait is a number of milliseconds; \<open>jitter_unit\<close> is the given
  entropy.
\<close>

section \<open>Errors\<close>

definition SERIALIZATION_DISPLAY_PREFIX :: string where
  "SERIALIZATION_DISPLAY_PREFIX = ''serialization error: ''"

datatype empty_reason = REASONING_ONLY | NO_VISIBLE_CONTENT

record response_model_metadata =
  context_window :: "int option"
  max_completion_tokens :: "int option"
  models_etag :: "string option"

record empty_response_context =
  ec_reason :: empty_reason
  had_reasoning :: bool
  content_len :: int
  tool_call_count :: int
  finish_reason :: "string option"
  completion_tokens :: "int option"
  reasoning_tokens :: "int option"
  prompt_tokens :: "int option"
  ec_model :: string
  first_choice_seen :: bool

definition finish_reason_str :: "empty_response_context \<Rightarrow> string" where
  "finish_reason_str c = (case finish_reason c of Some r \<Rightarrow> r | None \<Rightarrow> ''none'')"

datatype sampling_error =
    Auth string
  | InvalidConfiguration string
  | Http string
  | Serialization string
  | Api (api_status: int) (api_message: string) "response_model_metadata option" "int option" "bool option"
  | EventStreamError string
  | StreamError string string
  | IdleTimeout int
  | EmptyResponse empty_response_context
  | MaxTokensTruncation
  | DoomLoopDetected "string list" "int option"

definition context_length_message :: "string \<Rightarrow> bool" where
  "context_length_message message =
     (let lowered = py_lower message
      in py_in ''too long for this model'' lowered \<or> py_in ''prompt is too long'' lowered \<or>
         py_in ''maximum prompt length'' lowered \<or> py_in ''maximum context length'' lowered \<or>
         py_in ''context_length_exceeded'' lowered)"

definition is_auth_error :: "sampling_error \<Rightarrow> bool" where
  "is_auth_error e = (case e of Auth _ \<Rightarrow> True | Api status _ _ _ _ \<Rightarrow> status = 401 | _ \<Rightarrow> False)"

definition is_rate_limited :: "sampling_error \<Rightarrow> bool" where
  "is_rate_limited e = (case e of Api status _ _ _ _ \<Rightarrow> status = 429 | _ \<Rightarrow> False)"

definition is_payload_too_large :: "sampling_error \<Rightarrow> bool" where
  "is_payload_too_large e = (case e of Api status _ _ _ _ \<Rightarrow> status = 413 | _ \<Rightarrow> False)"

definition is_encrypted_content_error :: "sampling_error \<Rightarrow> bool" where
  "is_encrypted_content_error e =
     (case e of Api status message _ _ _ \<Rightarrow> status = 400 \<and> py_in ''encrypted_content'' message
      | _ \<Rightarrow> False)"

definition is_image_processing_error :: "sampling_error \<Rightarrow> bool" where
  "is_image_processing_error e =
     (case e of Api status message _ _ _ \<Rightarrow>
        status \<in> {400, 500} \<and> py_in ''Could not process image'' message
      | _ \<Rightarrow> False)"

definition is_context_length_error :: "sampling_error \<Rightarrow> bool" where
  "is_context_length_error e =
     (case e of Api _ message _ _ _ \<Rightarrow> context_length_message message
      | StreamError _ message \<Rightarrow> context_length_message message | _ \<Rightarrow> False)"

definition is_retryable :: "sampling_error \<Rightarrow> bool" where
  "is_retryable e =
     (case e of
        Auth _ \<Rightarrow> False | InvalidConfiguration _ \<Rightarrow> False | Serialization _ \<Rightarrow> False
      | IdleTimeout _ \<Rightarrow> False | MaxTokensTruncation \<Rightarrow> False
      | Http _ \<Rightarrow> True
      | Api status _ _ _ _ \<Rightarrow> status \<in> {429, 500, 502, 503, 504, 520}
      | _ \<Rightarrow> True)"

definition retry_after :: "sampling_error \<Rightarrow> int option" where
  "retry_after e = (case e of Api _ _ _ after _ \<Rightarrow> after | _ \<Rightarrow> None)"

definition should_retry_header :: "sampling_error \<Rightarrow> bool option" where
  "should_retry_header e = (case e of Api _ _ _ _ header \<Rightarrow> header | _ \<Rightarrow> None)"

definition serialization_display :: "string \<Rightarrow> string" where
  "serialization_display message = SERIALIZATION_DISPLAY_PREFIX @ message"

definition serialization_from_rendered :: "string \<Rightarrow> sampling_error" where
  "serialization_from_rendered rendered =
     Serialization (py_removeprefix rendered SERIALIZATION_DISPLAY_PREFIX)"

definition clone_error :: "sampling_error \<Rightarrow> sampling_error" where
  "clone_error e =
     (case e of
        Auth m \<Rightarrow> Auth m | InvalidConfiguration m \<Rightarrow> InvalidConfiguration m | Http m \<Rightarrow> Http m
      | Serialization m \<Rightarrow> Serialization m | EventStreamError m \<Rightarrow> EventStreamError m
      | Api status message meta after header \<Rightarrow> Api status message meta after header
      | StreamError t m \<Rightarrow> StreamError t m
      | IdleTimeout n \<Rightarrow> IdleTimeout n
      | EmptyResponse c \<Rightarrow> EmptyResponse c
      | MaxTokensTruncation \<Rightarrow> MaxTokensTruncation
      | DoomLoopDetected triggers chunk \<Rightarrow> DoomLoopDetected triggers chunk)"

section \<open>Budget and back-off\<close>

definition DEFAULT_MAX_RETRIES :: int where "DEFAULT_MAX_RETRIES = 15"
definition RATE_LIMIT_RETRY_THRESHOLD :: int where "RATE_LIMIT_RETRY_THRESHOLD = 2"
definition BACKOFF_BASE_MS :: int where "BACKOFF_BASE_MS = 2000"
definition BACKOFF_CAP_MS :: int where "BACKOFF_CAP_MS = 30000"
definition DOOM_LOOP_BOUND_MS :: int where "DOOM_LOOP_BOUND_MS = 250"

definition resolve_max_retries_with_env :: "string option \<Rightarrow> int option \<Rightarrow> int" where
  "resolve_max_retries_with_env env_override model_max_retries =
     (let fallback = (case model_max_retries of Some n \<Rightarrow> n | None \<Rightarrow> DEFAULT_MAX_RETRIES)
      in case env_override of
           None \<Rightarrow> fallback
         | Some raw \<Rightarrow>
             (case py_int raw of
                None \<Rightarrow> fallback
              | Some parsed \<Rightarrow> (if 0 \<le> parsed then parsed else fallback)))"

definition backoff_base_ms :: "int \<Rightarrow> int" where
  "backoff_base_ms retry_count =
     (let shift = max (retry_count - 1) 0
      in if 4 \<le> shift then BACKOFF_CAP_MS
         else min (BACKOFF_BASE_MS * 2 ^ nat shift) BACKOFF_CAP_MS)"

definition retry_backoff_with_jitter :: "int \<Rightarrow> rat \<Rightarrow> int" where
  "retry_backoff_with_jitter retry_count jitter_unit =
     (let base = backoff_base_ms retry_count;
          jitter_range = base div 5;
          jitter = py_round (jitter_unit * of_int (2 * jitter_range))
      in base - jitter_range + jitter)"

definition doom_loop_backoff :: "rat \<Rightarrow> int" where
  "doom_loop_backoff jitter_unit = py_round (jitter_unit * of_int DOOM_LOOP_BOUND_MS)"

section \<open>Decisions\<close>

datatype retry_decision =
    Retry int
  | RetryWithBackoff int bool
  | RetryWithImageStrip
  | RetryWithClientRebuild int
  | EmitToSession sampling_error
  | Fatal sampling_error

definition backoff_or_retry_after :: "sampling_error \<Rightarrow> int \<Rightarrow> rat \<Rightarrow> int" where
  "backoff_or_retry_after e next_attempt jitter_unit =
     (case retry_after e of
        Some secs \<Rightarrow> 1000 * secs
      | None \<Rightarrow> retry_backoff_with_jitter next_attempt jitter_unit)"

definition is_doom_loop :: "sampling_error \<Rightarrow> bool" where
  "is_doom_loop e = (case e of DoomLoopDetected _ _ \<Rightarrow> True | _ \<Rightarrow> False)"

definition classify_error ::
  "sampling_error \<Rightarrow> int \<Rightarrow> int \<Rightarrow> int \<Rightarrow> rat \<Rightarrow> retry_decision" where
  "classify_error e retry_count max_retries rate_limit_threshold jitter_unit =
     (if is_auth_error e then EmitToSession (clone_error e)
      else if is_encrypted_content_error e then EmitToSession (clone_error e)
      else if is_payload_too_large e then RetryWithImageStrip
      else if is_image_processing_error e then RetryWithImageStrip
      else if should_retry_header e = Some False then Fatal (clone_error e)
      else if is_context_length_error e then Fatal (clone_error e)
      else if is_doom_loop e then Retry (doom_loop_backoff jitter_unit)
      else if is_rate_limited e then
        (let next_attempt = retry_count + 1;
             effective_cap = min max_retries rate_limit_threshold
         in if effective_cap \<le> next_attempt then Fatal (clone_error e)
            else RetryWithBackoff (backoff_or_retry_after e next_attempt jitter_unit) True)
      else if is_retryable e then
        (let next_attempt = retry_count + 1
         in if max_retries \<le> next_attempt then Fatal (clone_error e)
            else
              (let backoff = backoff_or_retry_after e next_attempt jitter_unit
               in if next_attempt = 1 then RetryWithClientRebuild backoff else Retry backoff))
      else Fatal (clone_error e))"

section \<open>Formatting\<close>

definition api_status_hint :: "int \<Rightarrow> string" where
  "api_status_hint status =
     (if status = 400 then '' (bad request - check your input)''
      else if status \<in> {401, 403} then '' (authentication issue - check your API key)''
      else if status = 404 then '' (endpoint not found - check model configuration)''
      else if status = 413 then '' (request too large - try /compact or start new session)''
      else if status = 429 then '' (rate limited - please wait and retry)''
      else if status = 500 then '' (server internal error)''
      else if status \<in> {502, 503, 504} then '' (server unavailable - please retry)''
      else [])"

definition py_str_bool :: "bool \<Rightarrow> string" where
  "py_str_bool b = (if b then ''True'' else ''False'')"

definition empty_reason_str :: "empty_reason \<Rightarrow> string" where
  "empty_reason_str r =
     (case r of REASONING_ONLY \<Rightarrow> ''reasoning_only'' | NO_VISIBLE_CONTENT \<Rightarrow> ''no_visible_content'')"

definition format_sampling_error :: "sampling_error \<Rightarrow> int option \<Rightarrow> string" where
  "format_sampling_error e retry_count =
     (let prefix = (case retry_count of
                      Some n \<Rightarrow> ''Request failed after '' @ py_str_int n @ '' retries. '' | None \<Rightarrow> [])
      in case e of
           Auth m \<Rightarrow> prefix @ ''Authentication failed: '' @ m @ ''. Please check your API key configuration.''
         | InvalidConfiguration m \<Rightarrow>
             prefix @ ''Invalid configuration: '' @ m @ ''. Please check your model settings.''
         | Http m \<Rightarrow>
             prefix @ ''HTTP request failed: '' @ m @
             ''. This may be a network issue or the API endpoint may be unavailable.''
         | Serialization m \<Rightarrow>
             prefix @ ''Failed to parse API response: '' @ m @
             ''. This indicates an unexpected response format from the server.''
         | Api status m _ _ _ \<Rightarrow>
             prefix @ ''API error (HTTP '' @ py_str_int status @ api_status_hint status @ ''): '' @ m
         | EventStreamError m \<Rightarrow>
             prefix @ ''Event stream error: '' @ m @ ''. The connection to the server was interrupted.''
         | StreamError t m \<Rightarrow>
             prefix @ ''Server stream error ('' @ t @ ''): '' @ m @
             ''. The server encountered an error while streaming the response.''
         | IdleTimeout n \<Rightarrow>
             prefix @ ''Model stopped responding after '' @ py_str_int n @
             ''s. The model may be overloaded or stuck. Try again or use a different model.''
         | EmptyResponse c \<Rightarrow>
             prefix @ ''Empty response from model ('' @ empty_reason_str (ec_reason c) @ ''): model='' @
             ec_model c @ '', had_reasoning='' @ py_str_bool (had_reasoning c) @ '', finish_reason='' @
             finish_reason_str c @ '', completion_tokens='' @
             py_str_int (case completion_tokens c of Some n \<Rightarrow> n | None \<Rightarrow> 0)
         | MaxTokensTruncation \<Rightarrow> prefix @ ''Response truncated by max_tokens.''
         | DoomLoopDetected triggers _ \<Rightarrow>
             prefix @ ''Server detected a reasoning loop ('' @ py_join '', '' triggers @
             ''); resampling the response.'')"

section \<open>Facts\<close>

lemma clone_error_id [simp]: "clone_error e = e"
  by (cases e) (simp_all add: clone_error_def)

lemma serialization_roundtrip:
  "serialization_from_rendered (serialization_display m) = Serialization m"
  by (simp add: serialization_from_rendered_def serialization_display_def)


lemma backoff_base_bounds: "2000 \<le> backoff_base_ms n \<and> backoff_base_ms n \<le> 30000"
  by (simp add: backoff_base_ms_def Let_def BACKOFF_BASE_MS_def BACKOFF_CAP_MS_def min_def)

lemma power2_nat_mono: "0 \<le> a \<Longrightarrow> a \<le> b \<Longrightarrow> (2::int) ^ nat a \<le> 2 ^ nat b"
  by (intro power_increasing) auto

lemma backoff_base_mono:
  assumes "m \<le> n"
  shows "backoff_base_ms m \<le> backoff_base_ms n"
proof -
  define a where "a = max (m - 1) 0"
  define b where "b = max (n - 1) 0"
  have ab: "0 \<le> a" "a \<le> b" using assms by (simp_all add: a_def b_def)
  have "2000 * (2::int) ^ nat a \<le> 2000 * 2 ^ nat b" using power2_nat_mono [OF ab] by linarith
  with ab show ?thesis
    unfolding backoff_base_ms_def Let_def BACKOFF_BASE_MS_def BACKOFF_CAP_MS_def
      a_def [symmetric] b_def [symmetric] min_def
    by (simp del: mult_le_cancel_left_pos power_increasing_iff mult_le_cancel_left mult_left_le_imp_le)
qed

lemma jitter_bounds:
  assumes "0 \<le> u" and "u \<le> 1" and "0 \<le> n"
  shows "0 \<le> py_round (u * of_int n) \<and> py_round (u * of_int n) \<le> n"
  by (rule py_round_mono_bounds) (use assms in \<open>auto intro: mult_left_le_one_le\<close>)

section \<open>Properties\<close>

text \<open>
  C37: Every decision of \<open>classify_error\<close> is justified by the error and the budget: what is
  emitted or fatal is the error itself; images are stripped only for the two image errors;
  a wait-and-retry is never chosen against the server's \<open>x-should-retry: false\<close>, for an
  authentication or a context-length error, or for an error that is not retryable, and (a
  reported loop apart) only while the next attempt is below the budget.
\<close>

theorem classify_error_justified:
  "case classify_error e n max_retries threshold u of
     EmitToSession e' \<Rightarrow> e' = e \<and> (is_auth_error e \<or> is_encrypted_content_error e)
   | Fatal e' \<Rightarrow> e' = e
   | RetryWithImageStrip \<Rightarrow> is_payload_too_large e \<or> is_image_processing_error e
   | RetryWithBackoff _ limited \<Rightarrow>
       limited \<and> is_rate_limited e \<and> should_retry_header e \<noteq> Some False \<and>
       \<not> is_context_length_error e \<and> n + 1 < max_retries \<and> n + 1 < threshold
   | RetryWithClientRebuild _ \<Rightarrow>
       n = 0 \<and> is_retryable e \<and> \<not> is_rate_limited e \<and> \<not> is_auth_error e \<and>
       should_retry_header e \<noteq> Some False \<and> \<not> is_context_length_error e \<and> 1 < max_retries
   | Retry _ \<Rightarrow>
       is_retryable e \<and> \<not> is_auth_error e \<and> should_retry_header e \<noteq> Some False \<and>
       \<not> is_context_length_error e \<and> (is_doom_loop e \<or> (n \<noteq> 0 \<and> n + 1 < max_retries))"
proof -
  have "is_doom_loop e \<Longrightarrow> is_retryable e"
    by (cases e) (simp_all add: is_doom_loop_def is_retryable_def)
  then show ?thesis by (auto simp: classify_error_def Let_def)
qed

text \<open>
  With the module's threshold a rate-limited request is retried once at most: the first 429
  (if the budget allows any retry) waits, the second one is fatal.
\<close>

theorem rate_limit_retries_once:
  assumes "is_rate_limited e" and "should_retry_header e \<noteq> Some False"
    and "\<not> is_context_length_error e" and "0 \<le> n" and "2 \<le> max_retries"
  shows "classify_error e n max_retries RATE_LIMIT_RETRY_THRESHOLD u =
    (if n = 0 then RetryWithBackoff (backoff_or_retry_after e 1 u) True else Fatal e)"
proof -
  obtain m meta after header where e: "e = Api 429 m meta after header"
    using assms(1) by (cases e) (auto simp: is_rate_limited_def)
  have "\<not> is_auth_error e" "\<not> is_encrypted_content_error e" "\<not> is_payload_too_large e"
    "\<not> is_image_processing_error e" "\<not> is_doom_loop e"
    by (simp_all add: e is_auth_error_def is_encrypted_content_error_def is_payload_too_large_def
        is_image_processing_error_def is_doom_loop_def)
  with assms show ?thesis
    by (simp add: classify_error_def Let_def RATE_LIMIT_RETRY_THRESHOLD_def)
qed

theorem rate_limit_retries_once_witness:
  "classify_error (Api 429 ''slow down'' None (Some 7) None) 1 15 RATE_LIMIT_RETRY_THRESHOLD 0 =
   Fatal (Api 429 ''slow down'' None (Some 7) None)"
proof -
  have "\<not> is_context_length_error (Api 429 ''slow down'' None (Some 7) None)" by code_simp
  with rate_limit_retries_once [of "Api 429 ''slow down'' None (Some 7) None" 1 15 0] show ?thesis
    by (simp add: is_rate_limited_def should_retry_header_def)
qed

text \<open>
  The waits are bounded: the base never decreases with the retry count and stays between
  2 and 30 seconds, the jittered wait stays within a fifth of it, and the wait after a
  reported loop is at most 250 ms.
\<close>

theorem backoff_within_bounds:
  assumes "0 \<le> u" and "u \<le> 1" and "m \<le> n"
  shows "backoff_base_ms m \<le> backoff_base_ms n \<and>
    2000 \<le> backoff_base_ms n \<and> backoff_base_ms n \<le> 30000 \<and>
    backoff_base_ms n - backoff_base_ms n div 5 \<le> retry_backoff_with_jitter n u \<and>
    retry_backoff_with_jitter n u \<le> backoff_base_ms n + backoff_base_ms n div 5 \<and>
    0 \<le> doom_loop_backoff u \<and> doom_loop_backoff u \<le> 250"
proof -
  have "0 \<le> 2 * (backoff_base_ms n div 5)" using backoff_base_bounds [of n] by (simp add: pos_imp_zdiv_nonneg_iff)
  from jitter_bounds [OF assms(1,2) this] jitter_bounds [OF assms(1,2), of 250]
  show ?thesis
    using backoff_base_bounds [of n] backoff_base_mono [OF assms(3)]
    by (simp add: retry_backoff_with_jitter_def doom_loop_backoff_def DOOM_LOOP_BOUND_MS_def Let_def)
qed

theorem backoff_within_bounds_witness:
  "1600 \<le> retry_backoff_with_jitter 1 (1 / 3) \<and> retry_backoff_with_jitter 1 (1 / 3) \<le> 2400"
proof -
  have "backoff_base_ms 1 = 2000" by code_simp
  with backoff_within_bounds [of "1 / 3" 1 1] show ?thesis by simp
qed

end
