(* ===== verification/Doom_Loop.thy ===== *)
theory Doom_Loop
  imports Py_Strings
begin

text \<open>
  The reading of the server's loop reports in \<open>sampler/doom_loop.py\<close>: the tolerant parser of
  a trigger label, the tightest label, the recovery policy and the peek into a payload. The
  payload is the value \<open>json.loads\<close> gives, \<^term>\<open>None\<close> where it raises \<open>ValueError\<close>.
\<close>

section \<open>Labels\<close>

definition DOOM_LOOP_CHECK_EVENT_TYPE :: string where
  "DOOM_LOOP_CHECK_EVENT_TYPE = ''response.doom_loop_check''"

definition THINKING_CHANNEL :: string where
  "THINKING_CHANNEL = ''thinking''"

definition U32_MAX :: int where
  "U32_MAX = 0xFFFFFFFF"

datatype doom_loop_kind =
    TailRepetition (tail_threshold: int)
  | LowLogprob
  | Unknown string

record doom_loop_signal =
  dl_kind :: doom_loop_kind
  dl_channel :: string
  dl_raw :: string

definition parse_signal :: "string \<Rightarrow> doom_loop_signal" where
  "parse_signal raw =
     (let (head, rest) = py_split1 (CHR ''@'') raw;
          channel = (case rest of Some c \<Rightarrow> c | None \<Rightarrow> []);
          kind = (case py_split1 (CHR '':'') head of
                    (kind_head, Some threshold) \<Rightarrow>
                      (if kind_head = ''tail_repetition''
                       then (case py_int threshold of
                               None \<Rightarrow> Unknown head
                             | Some value \<Rightarrow>
                                 (if value < 0 \<or> U32_MAX < value then Unknown head
                                  else TailRepetition value))
                       else Unknown head)
                  | (_, None) \<Rightarrow> (if head = ''low_logprob'' then LowLogprob else Unknown head))
      in \<lparr>dl_kind = kind, dl_channel = channel, dl_raw = raw\<rparr>)"

definition is_tail :: "doom_loop_kind \<Rightarrow> bool" where
  "is_tail k = (case k of TailRepetition _ \<Rightarrow> True | _ \<Rightarrow> False)"

fun tightest_loop :: "string option \<Rightarrow> (int \<times> string) option \<Rightarrow> string list \<Rightarrow> string option" where
  "tightest_loop first best [] = (case best of Some (_, raw) \<Rightarrow> Some raw | None \<Rightarrow> first)"
| "tightest_loop first best (raw # raws) =
     (let first = (case first of None \<Rightarrow> Some raw | Some _ \<Rightarrow> first);
          best = (case dl_kind (parse_signal raw) of
                    TailRepetition t \<Rightarrow>
                      (case best of
                         None \<Rightarrow> Some (t, raw)
                       | Some (b, _) \<Rightarrow> (if t < b then Some (t, raw) else best))
                  | _ \<Rightarrow> best)
      in tightest_loop first best raws)"

definition tightest :: "string list \<Rightarrow> string option" where
  "tightest raws = tightest_loop None None raws"

section \<open>The recovery policy\<close>

record recovery_policy =
  max_threshold :: int
  max_retries :: int

definition default_policy :: recovery_policy where
  "default_policy = \<lparr>max_threshold = 8, max_retries = 2\<rparr>"

definition clamp_max_threshold :: "int \<Rightarrow> int" where
  "clamp_max_threshold value = max 2 (min value 64)"

definition clamp_max_retries :: "int \<Rightarrow> int" where
  "clamp_max_retries value = max 0 (min value 5)"

definition is_confident :: "recovery_policy \<Rightarrow> doom_loop_signal \<Rightarrow> bool" where
  "is_confident p signal =
     (dl_channel signal = THINKING_CHANNEL \<and>
      (case dl_kind signal of TailRepetition t \<Rightarrow> t \<le> max_threshold p | _ \<Rightarrow> False))"

definition confident_triggers :: "recovery_policy \<Rightarrow> doom_loop_signal list \<Rightarrow> string list" where
  "confident_triggers p signals = map dl_raw (filter (is_confident p) signals)"

definition policy_from_payload :: "(string, int) dict \<Rightarrow> recovery_policy" where
  "policy_from_payload payload =
     \<lparr>max_threshold = (case dict_get payload ''max_threshold'' of Some n \<Rightarrow> n | None \<Rightarrow> 8),
      max_retries = (case dict_get payload ''max_retries'' of Some n \<Rightarrow> n | None \<Rightarrow> 2)\<rparr>"

section \<open>Peeking\<close>

datatype json =
    JNull | JBool bool | JNumber rat | JString string | JList "json list"
  | JObject "(string \<times> json) list"

datatype doom_loop_peek =
    CheckEvent "doom_loop_signal list"
  | ResponseField "doom_loop_signal list"
  | NoDoomLoop

definition parse_triggers :: "json option \<Rightarrow> doom_loop_signal list" where
  "parse_triggers triggers =
     (case triggers of
        Some (JList items) \<Rightarrow>
          List.map_filter (\<lambda>i. case i of JString s \<Rightarrow> Some (parse_signal s) | _ \<Rightarrow> None) items
      | _ \<Rightarrow> [])"

text \<open>\<open>value.get(k)\<close> on a decoded object; an absent key is Python's \<open>None\<close>.\<close>

definition json_get :: "json option \<Rightarrow> string \<Rightarrow> json option" where
  "json_get v k = (case v of Some (JObject fs) \<Rightarrow> dict_get fs k | _ \<Rightarrow> None)"

definition is_object :: "json option \<Rightarrow> bool" where
  "is_object v = (case v of Some (JObject _) \<Rightarrow> True | _ \<Rightarrow> False)"

definition peek_doom_loop :: "(string \<Rightarrow> json option) \<Rightarrow> string \<Rightarrow> doom_loop_peek" where
  "peek_doom_loop loads data =
     (if \<not> py_in ''doom_loop_check'' data then NoDoomLoop
      else
        (let v = loads data
         in if \<not> is_object v then NoDoomLoop
            else if json_get v ''type'' = Some (JString DOOM_LOOP_CHECK_EVENT_TYPE)
            then CheckEvent (parse_triggers (json_get (json_get v ''doom_loop_check'') ''triggers''))
            else
              (let check = json_get (json_get v ''response'') ''doom_loop_check''
               in if is_object (json_get v ''response'') \<and> is_object check
                  then ResponseField (parse_triggers (json_get check ''triggers''))
                  else NoDoomLoop)))"

definition is_check_event :: "(string \<Rightarrow> json option) \<Rightarrow> string \<Rightarrow> string \<Rightarrow> bool" where
  "is_check_event loads event_name data =
     (if event_name = DOOM_LOOP_CHECK_EVENT_TYPE then True
      else if \<not> py_in DOOM_LOOP_CHECK_EVENT_TYPE data then False
      else json_get (loads data) ''type'' = Some (JString DOOM_LOOP_CHECK_EVENT_TYPE))"

section \<open>Facts\<close>

lemma parse_signal_raw [simp]: "dl_raw (parse_signal raw) = raw"
  by (simp add: parse_signal_def Let_def split: prod.splits)

text \<open>The state of the loop after a prefix: the first label, and the best so far.\<close>

definition best_of :: "string list \<Rightarrow> (int \<times> string) option \<Rightarrow> bool" where
  "best_of raws best =
     (case best of
        None \<Rightarrow> (\<forall>r\<in>set raws. \<not> is_tail (dl_kind (parse_signal r)))
      | Some (t, r) \<Rightarrow>
          (\<exists>xs ys. raws = xs @ r # ys \<and> dl_kind (parse_signal r) = TailRepetition t \<and>
             (\<forall>x\<in>set xs. \<forall>t'. dl_kind (parse_signal x) = TailRepetition t' \<longrightarrow> t < t') \<and>
             (\<forall>y\<in>set ys. \<forall>t'. dl_kind (parse_signal y) = TailRepetition t' \<longrightarrow> t \<le> t')))"

lemma best_of_skip:
  assumes "best_of raws best" and "\<And>t'. dl_kind (parse_signal r) = TailRepetition t' \<Longrightarrow>
      \<exists>t r'. best = Some (t, r') \<and> t \<le> t'"
  shows "best_of (raws @ [r]) best"
proof (cases best)
  case None
  with assms show ?thesis
    by (cases "dl_kind (parse_signal r)") (auto simp: best_of_def is_tail_def)
next
  case (Some b)
  obtain t r' where b: "b = (t, r')" by fastforce
  from assms(1) obtain xs ys where "raws = xs @ r' # ys" "dl_kind (parse_signal r') = TailRepetition t"
    "\<forall>x\<in>set xs. \<forall>t'. dl_kind (parse_signal x) = TailRepetition t' \<longrightarrow> t < t'"
    "\<forall>y\<in>set ys. \<forall>t'. dl_kind (parse_signal y) = TailRepetition t' \<longrightarrow> t \<le> t'"
    by (auto simp: best_of_def Some b)
  then have "\<exists>xs ys. raws @ [r] = xs @ r' # ys \<and> dl_kind (parse_signal r') = TailRepetition t \<and>
      (\<forall>x\<in>set xs. \<forall>t'. dl_kind (parse_signal x) = TailRepetition t' \<longrightarrow> t < t') \<and>
      (\<forall>y\<in>set ys. \<forall>t'. dl_kind (parse_signal y) = TailRepetition t' \<longrightarrow> t \<le> t')"
    using assms(2) by (intro exI [of _ xs] exI [of _ "ys @ [r]"]) (auto simp: Some b)
  then show ?thesis by (simp add: best_of_def Some b)
qed

lemma best_of_take:
  assumes "best_of raws best" and r: "dl_kind (parse_signal r) = TailRepetition t"
    and less: "\<And>b r'. best = Some (b, r') \<Longrightarrow> t < b"
  shows "best_of (raws @ [r]) (Some (t, r))"
proof -
  have "t < t'" if "x \<in> set raws" "dl_kind (parse_signal x) = TailRepetition t'" for x t'
  proof (cases best)
    case None
    with assms(1) that show ?thesis by (auto simp: best_of_def is_tail_def)
  next
    case (Some b)
    with less assms(1) that show ?thesis by (cases b) (fastforce simp: best_of_def)
  qed
  with r have "\<exists>xs ys. raws @ [r] = xs @ r # ys \<and> dl_kind (parse_signal r) = TailRepetition t \<and>
      (\<forall>x\<in>set xs. \<forall>t'. dl_kind (parse_signal x) = TailRepetition t' \<longrightarrow> t < t') \<and>
      (\<forall>y\<in>set ys. \<forall>t'. dl_kind (parse_signal y) = TailRepetition t' \<longrightarrow> t \<le> t')"
    by (intro exI [of _ raws] exI [of _ "[]"]) simp
  then show ?thesis by (simp add: best_of_def)
qed

lemma tightest_loop_spec:
  assumes "best_of seen best" and "first = (case seen of [] \<Rightarrow> None | r # _ \<Rightarrow> Some r)"
  shows "\<exists>best'. best_of (seen @ raws) best' \<and>
    tightest_loop first best raws =
      (case best' of Some (_, r) \<Rightarrow> Some r | None \<Rightarrow> (case seen @ raws of [] \<Rightarrow> None | r # _ \<Rightarrow> Some r))"
  using assms
proof (induction raws arbitrary: seen first best)
  case (Cons r raws)
  define best2 where "best2 = (case dl_kind (parse_signal r) of
      TailRepetition t \<Rightarrow> (case best of None \<Rightarrow> Some (t, r)
                          | Some (b, _) \<Rightarrow> (if t < b then Some (t, r) else best))
    | _ \<Rightarrow> best)"
  have best2: "best_of (seen @ [r]) best2"
  proof (cases "dl_kind (parse_signal r)")
    case (TailRepetition t)
    show ?thesis
    proof (cases "\<exists>b r'. best = Some (b, r') \<and> b \<le> t")
      case True
      then have "best2 = best" by (auto simp: best2_def TailRepetition)
      with True Cons.prems(1) TailRepetition show ?thesis by (auto intro: best_of_skip)
    next
      case False
      then have "best2 = Some (t, r)" by (cases best) (auto simp: best2_def TailRepetition)
      with False Cons.prems(1) TailRepetition show ?thesis
        by (auto intro!: best_of_take [of _ best] simp: not_le)
    qed
  qed (use Cons.prems(1) in \<open>auto simp: best2_def intro: best_of_skip\<close>)
  have "tightest_loop first best (r # raws) =
      tightest_loop (case first of None \<Rightarrow> Some r | Some _ \<Rightarrow> first) best2 raws"
    by (simp add: best2_def Let_def)
  moreover have "(case first of None \<Rightarrow> Some r | Some _ \<Rightarrow> first) =
      (case seen @ [r] of [] \<Rightarrow> None | r # _ \<Rightarrow> Some r)"
    using Cons.prems(2) by (cases seen) auto
  moreover have "(seen @ [r]) @ raws = seen @ r # raws" by simp
  ultimately show ?case using Cons.IH [OF best2 refl] by (metis (no_types, lifting))
next
  case Nil
  then show ?case unfolding append_Nil2 by (intro exI [of _ best]) simp
qed

section \<open>Properties\<close>

text \<open>
  A tail-repetition label reads back: for every threshold of 32 bits and every channel, the
  label written from them parses to them, with the label itself kept.
\<close>

theorem tail_label_roundtrip:
  assumes "n < 2 ^ 32"
  shows "parse_signal (''tail_repetition:'' @ py_str_nat n @ ''@'' @ channel) =
    \<lparr>dl_kind = TailRepetition (int n), dl_channel = channel,
     dl_raw = ''tail_repetition:'' @ py_str_nat n @ ''@'' @ channel\<rparr>"
proof -
  have no: "CHR ''@'' \<notin> set (py_str_nat n)" using py_str_nat_digits [of "CHR ''@''" n]
    by (auto simp: is_digit_def code_point_def)
  have "py_split1 (CHR ''@'') ((''tail_repetition:'' @ py_str_nat n) @ CHR ''@'' # channel) =
      (''tail_repetition:'' @ py_str_nat n, Some channel)"
    by (rule py_split1_append) (use no in simp)
  moreover have "py_split1 (CHR '':'') (''tail_repetition'' @ CHR '':'' # py_str_nat n) =
      (''tail_repetition'', Some (py_str_nat n))"
    by (rule py_split1_append) simp
  moreover have "py_int (py_str_nat n) = Some (int n)"
    by (rule py_int_str_nat [of n 10]) (use assms in simp_all)
  ultimately show ?thesis
    using assms by (simp add: parse_signal_def U32_MAX_def Let_def)
qed

theorem tail_label_roundtrip_witness:
  "parse_signal (''tail_repetition:'' @ py_str_nat 4 @ ''@'' @ ''response'') =
    \<lparr>dl_kind = TailRepetition 4, dl_channel = ''response'',
     dl_raw = ''tail_repetition:'' @ py_str_nat 4 @ ''@'' @ ''response''\<rparr>"
  using tail_label_roundtrip [of 4 "''response''"] by simp

text \<open>
  \<open>tightest\<close> gives nothing for no labels, the first label when none is a tail repetition,
  and otherwise the first of the labels whose threshold is the smallest.
\<close>

theorem tightest_is_minimal:
  "case tightest raws of
     None \<Rightarrow> raws = []
   | Some r \<Rightarrow>
       (\<exists>xs ys. raws = xs @ r # ys \<and>
          (if \<exists>x\<in>set raws. is_tail (dl_kind (parse_signal x))
           then is_tail (dl_kind (parse_signal r)) \<and>
             (\<forall>x\<in>set (filter (\<lambda>x. is_tail (dl_kind (parse_signal x))) xs).
                tail_threshold (dl_kind (parse_signal r)) < tail_threshold (dl_kind (parse_signal x))) \<and>
             (\<forall>y\<in>set (filter (\<lambda>x. is_tail (dl_kind (parse_signal x))) ys).
                tail_threshold (dl_kind (parse_signal r)) \<le> tail_threshold (dl_kind (parse_signal y)))
           else xs = []))"
proof -
  have tail: "is_tail k \<longleftrightarrow> (\<exists>t. k = TailRepetition t)" for k
    by (cases k) (auto simp: is_tail_def)
  have "best_of [] None" by (simp add: best_of_def)
  from tightest_loop_spec [OF this, of None raws] obtain best where best: "best_of raws best"
    "tightest raws = (case best of Some (_, r) \<Rightarrow> Some r | None \<Rightarrow> (case raws of [] \<Rightarrow> None | r # _ \<Rightarrow> Some r))"
    unfolding tightest_def append_Nil by auto
  show ?thesis
  proof (cases best)
    case None
    with best show ?thesis by (cases raws) (auto simp: best_of_def)
  next
    case (Some b)
    obtain t r where b: "b = (t, r)" by fastforce
    from best(1) obtain xs ys where "raws = xs @ r # ys" "dl_kind (parse_signal r) = TailRepetition t"
      "\<forall>x\<in>set xs. \<forall>t'. dl_kind (parse_signal x) = TailRepetition t' \<longrightarrow> t < t'"
      "\<forall>y\<in>set ys. \<forall>t'. dl_kind (parse_signal y) = TailRepetition t' \<longrightarrow> t \<le> t'"
      by (auto simp: best_of_def Some b)
    note facts = this
    have "\<exists>x\<in>set raws. is_tail (dl_kind (parse_signal x))" using facts(1,2) by (auto simp: tail)
    with facts show ?thesis
      unfolding best(2) Some b option.case prod.case
      by (intro exI [of _ xs] exI [of _ ys] conjI) (simp_all, auto simp: tail)
  qed
qed

theorem tightest_is_minimal_witness:
  "\<exists>xs ys. [''low_logprob@x'', ''tail_repetition:4@x'', ''tail_repetition:2@x''] =
     xs @ ''tail_repetition:2@x'' # ys \<and> is_tail (dl_kind (parse_signal ''tail_repetition:2@x''))"
proof -
  let ?raws = "[''low_logprob@x'', ''tail_repetition:4@x'', ''tail_repetition:2@x'']"
  have "tightest ?raws = Some ''tail_repetition:2@x''" by code_simp
  moreover have "is_tail (dl_kind (parse_signal ''tail_repetition:2@x''))" by code_simp
  ultimately show ?thesis using tightest_is_minimal [of ?raws] by auto
qed

end
