(* ===== verification/Plan_Mode.thy ===== *)
theory Plan_Mode
  imports Py_Strings
begin

text \<open>
  The plan-mode life cycle of \<open>plan_mode/tracker.py\<close>: the tracker with its four states and the
  buffered mid-turn activation, its snapshot, and the path predicates. A method that returns a
  flag returns it together with the new tracker. A \<open>Path\<close> is the list of its components.
\<close>

section \<open>Data\<close>

datatype plan_state = Inactive | Pending | Active | ExitPending

definition plan_state_value :: "plan_state \<Rightarrow> string" where
  "plan_state_value s =
     (case s of Inactive \<Rightarrow> ''Inactive'' | Pending \<Rightarrow> ''Pending'' | Active \<Rightarrow> ''Active''
      | ExitPending \<Rightarrow> ''ExitPending'')"

datatype prompt_mode = AGENT | ASK | PLAN

definition prompt_mode_from_meta_str :: "string \<Rightarrow> prompt_mode" where
  "prompt_mode_from_meta_str s = (if s = ''ask'' then ASK else if s = ''plan'' then PLAN else AGENT)"

definition prompt_mode_is_read_only :: "prompt_mode \<Rightarrow> bool" where
  "prompt_mode_is_read_only m = (m = ASK \<or> m = PLAN)"

type_synonym path = "string list"

record pending_activation =
  pa_text :: string
  prior_was_previously_active :: bool

record plan_snapshot =
  ps_state :: plan_state
  ps_was_previously_active :: bool
  ps_reminder_count :: int
  ps_pending_exit_reminder :: bool
  ps_awaiting_plan_approval :: bool

record plan_tracker =
  pt_state :: plan_state
  was_previously_active :: bool
  reminder_count :: int
  pending_exit_reminder :: bool
  awaiting_plan_approval :: bool
  pt_pending :: "pending_activation option"
  plan_file_path :: path

section \<open>Snapshots\<close>

text \<open>The values of the dictionary of a snapshot.\<close>

datatype pyval = PyBool bool | PyInt int | PyStr string | PyNone

definition py_bool :: "pyval \<Rightarrow> bool" where
  "py_bool v = (case v of PyBool b \<Rightarrow> b | PyInt n \<Rightarrow> n \<noteq> 0 | PyStr s \<Rightarrow> s \<noteq> [] | PyNone \<Rightarrow> False)"

definition py_int_of :: "pyval \<Rightarrow> int option" where
  "py_int_of v =
     (case v of PyBool b \<Rightarrow> Some (if b then 1 else 0) | PyInt n \<Rightarrow> Some n | PyStr s \<Rightarrow> py_int s
      | PyNone \<Rightarrow> None)"

definition snapshot_to_dict :: "plan_snapshot \<Rightarrow> (string, pyval) dict" where
  "snapshot_to_dict s =
     [(''state'', PyStr (plan_state_value (ps_state s))),
      (''was_previously_active'', PyBool (ps_was_previously_active s)),
      (''reminder_count'', PyInt (ps_reminder_count s)),
      (''pending_exit_reminder'', PyBool (ps_pending_exit_reminder s)),
      (''awaiting_plan_approval'', PyBool (ps_awaiting_plan_approval s))]"

definition plan_state_of :: "pyval \<Rightarrow> plan_state option" where
  "plan_state_of v =
     (case v of
        PyStr s \<Rightarrow> List.find (\<lambda>st. plan_state_value st = s) [Inactive, Pending, Active, ExitPending]
      | _ \<Rightarrow> None)"

text \<open>\<^term>\<open>None\<close> is the exception of \<open>int(...)\<close> on a count that is not a number.\<close>

definition snapshot_from_dict :: "(string, pyval) dict \<Rightarrow> plan_snapshot option" where
  "snapshot_from_dict data =
     (let get = (\<lambda>k dflt. case dict_get data k of Some v \<Rightarrow> v | None \<Rightarrow> dflt);
          state = (case plan_state_of (get ''state'' (PyStr ''Inactive'')) of
                     Some st \<Rightarrow> st | None \<Rightarrow> Inactive)
      in map_option
           (\<lambda>n. \<lparr>ps_state = state,
                 ps_was_previously_active = py_bool (get ''was_previously_active'' (PyBool False)),
                 ps_reminder_count = n,
                 ps_pending_exit_reminder = py_bool (get ''pending_exit_reminder'' (PyBool False)),
                 ps_awaiting_plan_approval = py_bool (get ''awaiting_plan_approval'' (PyBool False))\<rparr>)
           (py_int_of (get ''reminder_count'' (PyInt 0))))"

section \<open>The tracker\<close>

definition new_tracker :: "path \<Rightarrow> plan_tracker" where
  "new_tracker session_dir =
     \<lparr>pt_state = Inactive, was_previously_active = False, reminder_count = 0,
      pending_exit_reminder = False, awaiting_plan_approval = False, pt_pending = None,
      plan_file_path = session_dir @ [''plan.md'']\<rparr>"

definition from_snapshot :: "path \<Rightarrow> plan_snapshot \<Rightarrow> plan_tracker" where
  "from_snapshot session_dir s =
     (let (state, pending_exit) =
        (case ps_state s of
           Pending \<Rightarrow> (Inactive, ps_pending_exit_reminder s)
         | ExitPending \<Rightarrow> (Inactive, True)
         | st \<Rightarrow> (st, ps_pending_exit_reminder s))
      in \<lparr>pt_state = state, was_previously_active = ps_was_previously_active s,
          reminder_count = ps_reminder_count s, pending_exit_reminder = pending_exit,
          awaiting_plan_approval = ps_awaiting_plan_approval s, pt_pending = None,
          plan_file_path = session_dir @ [''plan.md'']\<rparr>)"

definition snapshot :: "plan_tracker \<Rightarrow> plan_snapshot" where
  "snapshot t =
     \<lparr>ps_state = pt_state t, ps_was_previously_active = was_previously_active t,
      ps_reminder_count = reminder_count t, ps_pending_exit_reminder = pending_exit_reminder t,
      ps_awaiting_plan_approval = awaiting_plan_approval t\<rparr>"

definition set_awaiting_plan_approval :: "plan_tracker \<Rightarrow> bool \<Rightarrow> plan_tracker" where
  "set_awaiting_plan_approval t awaiting = t\<lparr>awaiting_plan_approval := awaiting\<rparr>"

definition is_active :: "plan_tracker \<Rightarrow> bool" where
  "is_active t = (pt_state t = Active)"

definition is_plan_file_write :: "path \<Rightarrow> path \<Rightarrow> bool" where
  "is_plan_file_write target plan_file = (target = plan_file)"

definition should_auto_approve_edit :: "plan_tracker \<Rightarrow> path \<Rightarrow> bool" where
  "should_auto_approve_edit t edit_path = (is_active t \<and> is_plan_file_write edit_path (plan_file_path t))"

definition should_use_full_reminder :: "plan_tracker \<Rightarrow> bool" where
  "should_use_full_reminder t = (reminder_count t mod 2 = 0)"

definition has_pending_activation :: "plan_tracker \<Rightarrow> bool" where
  "has_pending_activation t = (pt_pending t \<noteq> None)"

definition is_reentry :: "plan_tracker \<Rightarrow> bool" where
  "is_reentry t = (was_previously_active t \<and> pt_state t = Pending)"

definition enter_pending :: "plan_tracker \<Rightarrow> bool \<times> plan_tracker" where
  "enter_pending t =
     (if pt_state t = Inactive then (True, t\<lparr>pt_state := Pending, pending_exit_reminder := False\<rparr>)
      else if pt_state t = ExitPending
      then (True, t\<lparr>pt_state := Active, pending_exit_reminder := False\<rparr>)
      else (False, t))"

definition activate :: "plan_tracker \<Rightarrow> bool \<times> plan_tracker" where
  "activate t =
     (if pt_state t \<noteq> Pending then (False, t)
      else (True, t\<lparr>pt_state := Active, was_previously_active := True, reminder_count := 0\<rparr>))"

definition activate_mid_turn :: "plan_tracker \<Rightarrow> string \<Rightarrow> bool \<times> plan_tracker" where
  "activate_mid_turn t rendered_reminder =
     (if pt_state t \<noteq> Pending then (False, t)
      else
        (let prior = was_previously_active t
         in (True, t\<lparr>pt_state := Active, was_previously_active := True, reminder_count := 0,
                     pt_pending := Some \<lparr>pa_text = rendered_reminder,
                                         prior_was_previously_active = prior\<rparr>\<rparr>)))"

definition take_pending_activation :: "plan_tracker \<Rightarrow> string option \<times> plan_tracker" where
  "take_pending_activation t =
     (case pt_pending t of None \<Rightarrow> (None, t) | Some p \<Rightarrow> (Some (pa_text p), t\<lparr>pt_pending := None\<rparr>))"

definition activate_from_tool :: "plan_tracker \<Rightarrow> bool \<times> plan_tracker" where
  "activate_from_tool t =
     (if pt_state t \<noteq> Inactive then (False, t)
      else (True, t\<lparr>pt_state := Active, was_previously_active := True, reminder_count := 0,
                    pending_exit_reminder := False\<rparr>))"

definition deactivate_approved :: "plan_tracker \<Rightarrow> bool \<times> plan_tracker" where
  "deactivate_approved t =
     (if pt_state t \<noteq> Active then (False, t)
      else (True, t\<lparr>pt_state := Inactive, reminder_count := 0, awaiting_plan_approval := False,
                    pt_pending := None\<rparr>))"

definition user_exit :: "plan_tracker \<Rightarrow> bool \<Rightarrow> plan_tracker" where
  "user_exit t turn_in_flight =
     (let t = t\<lparr>awaiting_plan_approval := False\<rparr>
      in case (pt_pending t, pt_state t) of
           (Some p, Active) \<Rightarrow>
             t\<lparr>pt_pending := None, pt_state := Inactive,
               was_previously_active := prior_was_previously_active p\<rparr>
         | (_, Pending) \<Rightarrow> t\<lparr>pt_state := Inactive\<rparr>
         | (_, Active) \<Rightarrow>
             (if turn_in_flight then t\<lparr>pt_state := ExitPending\<rparr>
              else t\<lparr>pt_state := Inactive, pending_exit_reminder := True\<rparr>)
         | _ \<Rightarrow> t)"

definition complete_deferred_exit :: "plan_tracker \<Rightarrow> plan_tracker" where
  "complete_deferred_exit t =
     (if pt_state t \<noteq> ExitPending then t
      else t\<lparr>pt_state := Inactive, pending_exit_reminder := True\<rparr>)"

definition queue_exit_reminder :: "plan_tracker \<Rightarrow> plan_tracker" where
  "queue_exit_reminder t = t\<lparr>pending_exit_reminder := True\<rparr>"

definition record_reminder_injected :: "plan_tracker \<Rightarrow> plan_tracker" where
  "record_reminder_injected t = t\<lparr>reminder_count := reminder_count t + 1\<rparr>"

definition clear_pending_exit_reminder :: "plan_tracker \<Rightarrow> plan_tracker" where
  "clear_pending_exit_reminder t = t\<lparr>pending_exit_reminder := False\<rparr>"

definition reset_after_compaction :: "plan_tracker \<Rightarrow> plan_tracker" where
  "reset_after_compaction t =
     (if pt_state t = Active then t\<lparr>reminder_count := 0, pt_pending := None\<rparr> else t)"

definition is_markdown_file_path :: "path \<Rightarrow> bool" where
  "is_markdown_file_path p =
     (let name = py_lower (if p = [] then [] else last p)
      in list_ex (py_endswith name) [''.md'', ''.markdown'', ''.mdown'', ''.mkd'', ''.mkdn'', ''.mdx''])"

section \<open>The life cycle as steps\<close>

datatype plan_event =
    EnterPending | Activate | ActivateMidTurn string | TakePendingActivation | ActivateFromTool
  | DeactivateApproved | UserExit bool | CompleteDeferredExit | QueueExitReminder
  | RecordReminderInjected | ClearPendingExitReminder | ResetAfterCompaction
  | SetAwaitingPlanApproval bool

fun plan_step :: "plan_event \<Rightarrow> plan_tracker \<Rightarrow> plan_tracker" where
  "plan_step EnterPending t = snd (enter_pending t)"
| "plan_step Activate t = snd (activate t)"
| "plan_step (ActivateMidTurn txt) t = snd (activate_mid_turn t txt)"
| "plan_step TakePendingActivation t = snd (take_pending_activation t)"
| "plan_step ActivateFromTool t = snd (activate_from_tool t)"
| "plan_step DeactivateApproved t = snd (deactivate_approved t)"
| "plan_step (UserExit b) t = user_exit t b"
| "plan_step CompleteDeferredExit t = complete_deferred_exit t"
| "plan_step QueueExitReminder t = queue_exit_reminder t"
| "plan_step RecordReminderInjected t = record_reminder_injected t"
| "plan_step ClearPendingExitReminder t = clear_pending_exit_reminder t"
| "plan_step ResetAfterCompaction t = reset_after_compaction t"
| "plan_step (SetAwaitingPlanApproval b) t = set_awaiting_plan_approval t b"

inductive plan_reachable :: "path \<Rightarrow> plan_tracker \<Rightarrow> bool" for dir where
  start: "plan_reachable dir (new_tracker dir)"
| step: "plan_reachable dir t \<Longrightarrow> plan_reachable dir (plan_step ev t)"
| restart: "plan_reachable dir t \<Longrightarrow> plan_reachable dir (from_snapshot dir (snapshot t))"

definition plan_ok :: "path \<Rightarrow> plan_tracker \<Rightarrow> bool" where
  "plan_ok dir t =
     ((pt_pending t \<noteq> None \<longrightarrow> pt_state t = Active) \<and>
      (pt_state t \<in> {Active, ExitPending} \<longrightarrow> was_previously_active t) \<and>
      0 \<le> reminder_count t \<and> plan_file_path t = dir @ [''plan.md''])"

lemmas plan_defs = enter_pending_def activate_def activate_mid_turn_def take_pending_activation_def
  activate_from_tool_def deactivate_approved_def user_exit_def complete_deferred_exit_def
  queue_exit_reminder_def record_reminder_injected_def clear_pending_exit_reminder_def
  reset_after_compaction_def set_awaiting_plan_approval_def

lemma plan_ok_step [inv_intros]: "plan_ok dir t \<Longrightarrow> plan_ok dir (plan_step ev t)"
  by (cases ev; cases "pt_state t"; cases "pt_pending t") (simp_all add: plan_ok_def plan_defs Let_def)

lemma plan_ok_restart [inv_intros]: "plan_ok dir t \<Longrightarrow> plan_ok dir (from_snapshot dir (snapshot t))"
  by (cases "pt_state t") (simp_all add: plan_ok_def from_snapshot_def snapshot_def)

lemma plan_ok_new [inv_intros]: "plan_ok dir (new_tracker dir)"
  by (simp add: plan_ok_def new_tracker_def)

lemma plan_reachable_ok: "plan_reachable dir t \<Longrightarrow> plan_ok dir t"
  by (induction rule: plan_reachable.induct) (auto intro: inv_intros)

lemma plan_state_roundtrip: "plan_state_of (PyStr (plan_state_value s)) = Some s"
  by (cases s) (simp_all add: plan_state_of_def plan_state_value_def)

section \<open>Properties\<close>

text \<open>
  In every state the tracker reaches, restarts included, a buffered activation exists only
  while plan mode is active, an active or exiting tracker remembers that it was active, and the
  plan file stays the one of the session.
\<close>

theorem plan_invariant:
  assumes "plan_reachable dir t"
  shows "(if has_pending_activation t then is_active t else True) \<and>
    (if pt_state t = Active \<or> pt_state t = ExitPending then was_previously_active t else True) \<and>
    0 \<le> reminder_count t \<and> plan_file_path t = dir @ [''plan.md'']"
  using plan_reachable_ok [OF assms] by (auto simp: plan_ok_def has_pending_activation_def is_active_def)

theorem plan_invariant_witness:
  "has_pending_activation (plan_step (ActivateMidTurn ''r'') (plan_step EnterPending (new_tracker [''s'']))) \<and>
   is_active (plan_step (ActivateMidTurn ''r'') (plan_step EnterPending (new_tracker [''s''])))"
proof -
  define t where "t = plan_step (ActivateMidTurn ''r'') (plan_step EnterPending (new_tracker [''s'']))"
  have "plan_reachable [''s''] t" unfolding t_def by (intro plan_reachable.intros)
  moreover have "has_pending_activation t"
    by (simp add: t_def plan_defs new_tracker_def has_pending_activation_def)
  ultimately show ?thesis using plan_invariant [of "[''s'']" t] unfolding t_def [symmetric] by simp
qed

text \<open>
  Withdrawing a mid-turn activation whose reminder was never delivered restores the tracker:
  plan mode is off again, the re-entry flag is what it was, and no exit reminder is armed.
\<close>

theorem withdrawn_activation_rolls_back:
  assumes "pt_state t = Pending"
  shows "let t' = user_exit (snd (activate_mid_turn t txt)) in_flight
    in pt_state t' = Inactive \<and> was_previously_active t' = was_previously_active t \<and>
       pending_exit_reminder t' = pending_exit_reminder t \<and> \<not> has_pending_activation t' \<and>
       fst (take_pending_activation t') = None"
  using assms by (simp add: plan_defs has_pending_activation_def Let_def)

theorem withdrawn_activation_rolls_back_witness:
  "was_previously_active (user_exit (snd (activate_mid_turn (snd (enter_pending (new_tracker []))) ''r'')) True) =
   False"
  using withdrawn_activation_rolls_back [of "snd (enter_pending (new_tracker []))" "''r''" True]
  by (simp add: enter_pending_def new_tracker_def Let_def)

text \<open>
  Leaving plan mode while a turn runs and completing the exit when it ends gives the same
  tracker as leaving at once.
\<close>

theorem deferred_exit_equals_immediate:
  assumes "pt_state t \<noteq> ExitPending"
  shows "complete_deferred_exit (user_exit t True) = user_exit t False"
  using assms by (cases "pt_state t"; cases "pt_pending t") (simp_all add: plan_defs)

theorem deferred_exit_equals_immediate_witness:
  "complete_deferred_exit (user_exit (snd (activate_from_tool (new_tracker []))) True) =
   user_exit (snd (activate_from_tool (new_tracker []))) False"
  by (rule deferred_exit_equals_immediate) (simp add: activate_from_tool_def new_tracker_def)

text \<open>
  A snapshot survives the file: the dictionary written from it reads back to it, and a
  restored tracker is stable, its own snapshot restores to it.
\<close>

theorem snapshot_roundtrip:
  "snapshot_from_dict (snapshot_to_dict s) = Some s \<and>
   from_snapshot dir (snapshot (from_snapshot dir s)) = from_snapshot dir s"
proof
  show "snapshot_from_dict (snapshot_to_dict s) = Some s"
    using plan_state_roundtrip [of "ps_state s"]
    by (simp add: snapshot_from_dict_def snapshot_to_dict_def py_int_of_def py_bool_def Let_def)
  show "from_snapshot dir (snapshot (from_snapshot dir s)) = from_snapshot dir s"
    by (cases "ps_state s") (simp_all add: from_snapshot_def snapshot_def)
qed

end
