(* ===== verification/Permissions.thy ===== *)
theory Permissions
  imports Py_Strings "HOL-Library.Product_Lexorder"
begin

text \<open>
  Tool permissions: glob matching as \<open>fnmatch.fnmatchcase\<close> does it, the rule cache of
  \<open>permissions/__init__.py\<close> with its factory default, and the table behind it
  (\<open>storage/dao/permissions.py\<close>, the DAO keyed by the pattern). Rows are listed in the order
  they were inserted; creation times are whole seconds.
\<close>

section \<open>Glob patterns\<close>

text \<open>
  A class is a list of single characters and ranges; \<open>One False [] \<close> is the class that never
  matches, \<open>One True []\<close> matches any character.
\<close>

datatype class_item = Single char | Range char char

datatype glob_token = Star | One bool "class_item list"

definition in_item :: "char \<Rightarrow> class_item \<Rightarrow> bool" where
  "in_item c i = (case i of Single d \<Rightarrow> c = d | Range lo hi \<Rightarrow> lo \<le> c \<and> c \<le> hi)"

text \<open>Cutting the inside of a bracket at its range hyphens, as \<open>fnmatch.translate\<close> does.\<close>

function class_chunks :: "nat \<Rightarrow> string \<Rightarrow> string list" where
  "class_chunks m s =
     (case dropWhile (\<lambda>c. c \<noteq> CHR ''-'') (drop m s) of
        [] \<Rightarrow> [s]
      | _ # q \<Rightarrow> (take m s @ takeWhile (\<lambda>c. c \<noteq> CHR ''-'') (drop m s)) # class_chunks 2 q)"
  by auto

termination
proof (relation "measure (\<lambda>(m, s). length s)", goal_cases)
  case (2 m s c q)
  have "length (dropWhile (\<lambda>c. c \<noteq> CHR ''-'') (drop m s)) \<le> length (drop m s)"
    by (rule length_dropWhile_le)
  then have "length (dropWhile (\<lambda>c. c \<noteq> CHR ''-'') (drop m s)) \<le> length s" by simp
  with 2 show ?case by simp
qed simp

declare class_chunks.simps [simp del]

definition close_chunks :: "string list \<Rightarrow> string list" where
  "close_chunks cs =
     (if last cs = [] \<and> 2 \<le> length cs
      then butlast (butlast cs) @ [last (butlast cs) @ ''-''] else cs)"

text \<open>Empty ranges disappear, from the right.\<close>

fun drop_empty_ranges :: "string list \<Rightarrow> string list" where
  "drop_empty_ranges (c # cs) =
     (case drop_empty_ranges cs of
        [] \<Rightarrow> [c]
      | d # ds \<Rightarrow> (if hd d < last c then (butlast c @ tl d) # ds else c # d # ds))"
| "drop_empty_ranges [] = []"

fun chunk_items :: "string list \<Rightarrow> class_item list" where
  "chunk_items [] = []"
| "chunk_items [c] = map Single c"
| "chunk_items (c # d # cs) =
     (if c = [] then Single (CHR ''-'') # chunk_items (d # cs)
      else map Single (butlast c) @ [Range (last c) (hd d)] @ chunk_items (tl d # cs))"

definition class_token :: "string \<Rightarrow> glob_token" where
  "class_token stuff =
     (let chunks = (if CHR ''-'' \<in> set stuff
                    then drop_empty_ranges
                           (close_chunks (class_chunks (if take 1 stuff = ''!'' then 2 else 1) stuff))
                    else [stuff])
      in case chunks of
           (c # rest) # cs \<Rightarrow>
             (if c = CHR ''!'' then One True (chunk_items (rest # cs)) else One False (chunk_items chunks))
         | _ \<Rightarrow> One False [])"

text \<open>
  The body of a bracket: an optional \<open>!\<close>, an optional closing bracket that counts as a
  character, then everything up to the next one; \<^term>\<open>None\<close> when there is none.
\<close>

definition bracket_body :: "string \<Rightarrow> (string \<times> string) option" where
  "bracket_body s =
     (let a = (if take 1 s = ''!'' then ''!'' else []);
          s1 = drop (length a) s;
          b = (if take 1 s1 = '']'' then '']'' else []);
          s2 = drop (length b) s1
      in case dropWhile (\<lambda>c. c \<noteq> CHR '']'') s2 of
           [] \<Rightarrow> None
         | _ # rest \<Rightarrow> Some (a @ b @ takeWhile (\<lambda>c. c \<noteq> CHR '']'') s2, rest))"

lemma bracket_body_shorter: "bracket_body s = Some (stuff, rest) \<Longrightarrow> length rest < length s"
proof -
  assume "bracket_body s = Some (stuff, rest)"
  then obtain n c where "dropWhile (\<lambda>c. c \<noteq> CHR '']'') (drop n s) = c # rest"
    by (auto simp: bracket_body_def Let_def drop_drop split: list.splits if_splits)
  moreover have "length (dropWhile (\<lambda>c. c \<noteq> CHR '']'') (drop n s)) \<le> length s"
    using length_dropWhile_le [of "\<lambda>c. c \<noteq> CHR '']''" "drop n s"] by simp
  ultimately show ?thesis by simp
qed

function glob_tokens :: "string \<Rightarrow> glob_token list" where
  "glob_tokens [] = []"
| "glob_tokens (c # s) =
     (if c = CHR ''*'' then Star # glob_tokens s
      else if c = CHR ''?'' then One True [] # glob_tokens s
      else if c = CHR ''['' then
        (case bracket_body s of
           None \<Rightarrow> One False [Single c] # glob_tokens s
         | Some (stuff, rest) \<Rightarrow> class_token stuff # glob_tokens rest)
      else One False [Single c] # glob_tokens s)"
  by pat_completeness auto

termination
  by (relation "measure length") (auto dest: bracket_body_shorter)

fun tokens_match :: "glob_token list \<Rightarrow> string \<Rightarrow> bool" where
  "tokens_match [] s = (s = [])"
| "tokens_match (Star # ts) [] = tokens_match ts []"
| "tokens_match (Star # ts) (c # s) = (tokens_match ts (c # s) \<or> tokens_match (Star # ts) s)"
| "tokens_match (One neg items # ts) [] = False"
| "tokens_match (One neg items # ts) (c # s) =
     ((list_ex (in_item c) items \<noteq> neg) \<and> tokens_match ts s)"

definition fnmatchcase :: "string \<Rightarrow> string \<Rightarrow> bool" where
  "fnmatchcase name pat = tokens_match (glob_tokens pat) name"

section \<open>Rules and the store\<close>

record perm_rule =
  pr_id :: string
  tool_pattern :: string
  pr_action :: string
  pr_scope :: string
  created_at :: nat

definition matches :: "string \<Rightarrow> string \<Rightarrow> bool" where
  "matches pattern tool_name =
     (if pattern = tool_name then True
      else if \<not> list_ex (\<lambda>c. c \<in> set pattern) ''*?['' then False
      else fnmatchcase tool_name pattern)"

definition default_exec_rule :: perm_rule where
  "default_exec_rule = \<lparr>pr_id = ''pr_default_exec'', tool_pattern = ''exec_*'', pr_action = ''ask'',
     pr_scope = ''global'', created_at = 0\<rparr>"

definition DEFAULT_RULES :: "perm_rule list" where
  "DEFAULT_RULES = [default_exec_rule]"

definition default_matching :: "string \<Rightarrow> perm_rule option" where
  "default_matching tool_name = List.find (\<lambda>r. matches (tool_pattern r) tool_name) DEFAULT_RULES"

type_synonym perm_store = "(string, perm_rule) dict"

definition load_from_db :: "perm_rule list \<Rightarrow> perm_store" where
  "load_from_db rules =
     foldl (\<lambda>d r. if tool_pattern r = [] then d else dict_set (tool_pattern r) r d) [] rules"

definition list_rules :: "perm_store \<Rightarrow> perm_rule list" where
  "list_rules st = dict_values st @ filter (\<lambda>r. \<not> dict_has st (tool_pattern r)) DEFAULT_RULES"

definition store_get :: "perm_store \<Rightarrow> string \<Rightarrow> perm_rule option" where
  "store_get st pattern =
     (case dict_get st pattern of
        Some r \<Rightarrow> Some r
      | None \<Rightarrow> List.find (\<lambda>r. tool_pattern r = pattern) DEFAULT_RULES)"

definition lookup_rule :: "perm_store \<Rightarrow> string \<Rightarrow> perm_rule option" where
  "lookup_rule st tool_name =
     (if tool_name = [] then None
      else (case List.find (\<lambda>r. matches (tool_pattern r) tool_name) (dict_values st) of
              Some r \<Rightarrow> Some r
            | None \<Rightarrow> default_matching tool_name))"

definition is_allowed :: "perm_store \<Rightarrow> string \<Rightarrow> string \<Rightarrow> bool" where
  "is_allowed st tool_name scope =
     (if tool_name = [] then True
      else (case lookup_rule st tool_name of
              None \<Rightarrow> True
            | Some r \<Rightarrow>
                (if pr_scope r \<notin> {[], scope} then True
                 else if pr_action r = ''allow'' then True
                 else if pr_action r = ''deny'' then False
                 else True)))"

definition is_denied :: "perm_store \<Rightarrow> string \<Rightarrow> string \<Rightarrow> bool" where
  "is_denied st tool_name scope =
     (if tool_name = [] then False
      else (case lookup_rule st tool_name of
              None \<Rightarrow> False
            | Some r \<Rightarrow> (if pr_scope r \<notin> {[], scope} then False else pr_action r = ''deny'')))"

section \<open>The table\<close>

datatype perm_error = BadPattern | BadAction | BadScope

definition valid_actions :: "string list" where
  "valid_actions = [''allow'', ''deny'', ''ask'']"

definition dao_list_all :: "perm_rule list \<Rightarrow> perm_rule list" where
  "dao_list_all table = sort_key (\<lambda>r. (created_at r, pr_id r)) table"

definition dao_get :: "perm_rule list \<Rightarrow> string \<Rightarrow> perm_rule option" where
  "dao_get table pattern = List.find (\<lambda>r. tool_pattern r = pattern) table"

text \<open>\<open>upsert\<close> with the new row's id and the time it reads; the row comes back with the table.\<close>

definition dao_upsert ::
  "perm_rule list \<Rightarrow> string \<Rightarrow> string \<Rightarrow> string \<Rightarrow> string \<Rightarrow> nat \<Rightarrow>
   perm_error + perm_rule option \<times> perm_rule list" where
  "dao_upsert table pattern action scope new_id now =
     (if py_strip pattern = [] then Inl BadPattern
      else if action \<notin> set valid_actions then Inl BadAction
      else
        (let scope = (if scope = [] then ''global'' else scope)
         in if py_strip scope = [] then Inl BadScope
            else
              (let table = (case dao_get table pattern of
                     None \<Rightarrow> table @ [\<lparr>pr_id = new_id, tool_pattern = pattern, pr_action = action,
                                        pr_scope = scope, created_at = now\<rparr>]
                   | Some _ \<Rightarrow> map (\<lambda>r. if tool_pattern r = pattern
                                         then r\<lparr>pr_action := action, pr_scope := scope\<rparr> else r) table)
               in Inr (dao_get table pattern, table))))"

definition dao_delete :: "perm_rule list \<Rightarrow> string \<Rightarrow> nat \<times> perm_rule list" where
  "dao_delete table pattern =
     (length (filter (\<lambda>r. tool_pattern r = pattern) table),
      filter (\<lambda>r. tool_pattern r \<noteq> pattern) table)"

section \<open>Writes through the store\<close>

definition store_upsert ::
  "perm_store \<times> perm_rule list \<Rightarrow> string \<Rightarrow> string \<Rightarrow> string \<Rightarrow> string \<Rightarrow> nat \<Rightarrow>
   perm_error + perm_rule option \<times> perm_store \<times> perm_rule list" where
  "store_upsert stt pattern action scope new_id now =
     (let (st, table) = stt
      in if pattern = [] then Inl BadPattern
         else if action \<notin> set valid_actions then Inl BadAction
         else if scope = [] then Inl BadScope
         else (case dao_upsert table pattern action scope new_id now of
                 Inl err \<Rightarrow> Inl err
               | Inr (row, table) \<Rightarrow>
                   Inr (row,
                     (case row of
                        Some r \<Rightarrow> (if tool_pattern r = [] then st else dict_set (tool_pattern r) r st)
                      | None \<Rightarrow> st),
                     table)))"

definition store_delete ::
  "perm_store \<times> perm_rule list \<Rightarrow> string \<Rightarrow> nat \<times> perm_store \<times> perm_rule list" where
  "store_delete stt pattern =
     (let (st, table) = stt; (n, table) = dao_delete table pattern
      in (n, dict_pop pattern st, table))"

text \<open>A history of writes; a write that raises leaves both sides alone.\<close>

datatype perm_write = Upsert string string string string nat | Delete string

fun perm_step :: "perm_write \<Rightarrow> perm_store \<times> perm_rule list \<Rightarrow> perm_store \<times> perm_rule list" where
  "perm_step (Upsert pattern action scope new_id now) stt =
     (case store_upsert stt pattern action scope new_id now of Inl _ \<Rightarrow> stt | Inr (_, stt') \<Rightarrow> stt')"
| "perm_step (Delete pattern) stt = snd (store_delete stt pattern)"

fun write_times :: "perm_write list \<Rightarrow> nat list" where
  "write_times [] = []"
| "write_times (Upsert _ _ _ _ now # ws) = now # write_times ws"
| "write_times (Delete _ # ws) = write_times ws"

section \<open>Facts about patterns\<close>

lemma tokens_match_Star [simp]: "tokens_match [Star] s"
  by (induction s) auto

lemma in_item_Single [simp]: "in_item c (Single d) \<longleftrightarrow> c = d"
  by (simp add: in_item_def)

abbreviation plain :: "string \<Rightarrow> bool" where
  "plain s \<equiv> set s \<inter> set ''*?['' = {}"

lemma glob_tokens_plain: "plain p \<Longrightarrow> glob_tokens (p @ s) = map (\<lambda>c. One False [Single c]) p @ glob_tokens s"
  by (induction p) auto

lemma tokens_match_plain:
  "tokens_match (map (\<lambda>c. One False [Single c]) p @ ts) s \<longleftrightarrow>
   take (length p) s = p \<and> tokens_match ts (drop (length p) s)"
proof (induction p arbitrary: s)
  case (Cons c p)
  then show ?case by (cases s) auto
qed simp

lemma matches_prefix: "plain p \<Longrightarrow> matches (p @ ''*'') name \<longleftrightarrow> py_startswith name p"
  using glob_tokens_plain [of p "''*''"] tokens_match_plain [of p "[Star]" name]
  by (auto simp: matches_def fnmatchcase_def py_startswith_def)

lemma matches_plain: "plain p \<Longrightarrow> matches p name \<longleftrightarrow> p = name"
  by (auto simp: matches_def)

lemma default_matching_exec:
  "default_matching name = (if py_startswith name ''exec_'' then Some default_exec_rule else None)"
  using matches_prefix [of "''exec_''" name]
  by (simp add: default_matching_def DEFAULT_RULES_def default_exec_rule_def)

section \<open>Cache and table\<close>

definition in_step :: "perm_store \<Rightarrow> perm_rule list \<Rightarrow> bool" where
  "in_step st table =
     (st = map (\<lambda>r. (tool_pattern r, r)) table \<and> distinct (map tool_pattern table) \<and>
      (\<forall>r\<in>set table. tool_pattern r \<noteq> []) \<and> sorted_wrt (<) (map created_at table))"

lemma load_keyed:
  "distinct (map fst st @ map tool_pattern table) \<Longrightarrow> \<forall>r\<in>set table. tool_pattern r \<noteq> [] \<Longrightarrow>
   foldl (\<lambda>d r. if tool_pattern r = [] then d else dict_set (tool_pattern r) r d) st table =
   st @ map (\<lambda>r. (tool_pattern r, r)) table"
proof (induction table arbitrary: st)
  case (Cons r table)
  then have "\<not> dict_has st (tool_pattern r)" by (auto simp: dict_has_iff simp del: set_map)
  with Cons show ?case by (simp add: dict_set_new)
qed simp

lemma list_all_sorted:
  assumes "sorted_wrt (<) (map created_at table)"
  shows "dao_list_all table = table"
proof -
  have "sorted_wrt (\<lambda>a b. created_at a < created_at b) table" using assms by (simp add: sorted_wrt_map)
  then have "sorted_wrt (\<lambda>a b. (created_at a, pr_id a) \<le> (created_at b, pr_id b)) table"
    by (rule sorted_wrt_mono_rel [rotated]) (simp add: less_eq_prod_def)
  then have "sorted (map (\<lambda>r. (created_at r, pr_id r)) table)" by (simp add: sorted_wrt_map)
  then show ?thesis unfolding dao_list_all_def by (rule sort_key_id_if_sorted)
qed

lemma in_step_reload: "in_step st table \<Longrightarrow> load_from_db (dao_list_all table) = st"
  by (simp add: in_step_def list_all_sorted load_from_db_def load_keyed)

lemma dict_pop_keyed:
  "dict_pop k (map (\<lambda>r. (tool_pattern r, r)) table) =
   map (\<lambda>r. (tool_pattern r, r)) (filter (\<lambda>r. tool_pattern r \<noteq> k) table)"
  by (induction table) (auto simp: AList.delete_eq)

lemma sorted_wrt_filter_map: "sorted_wrt R (map f xs) \<Longrightarrow> sorted_wrt R (map f (filter P xs))"
  by (induction xs) auto

lemma in_step_delete:
  assumes "in_step st table"
  shows "in_step (fst (perm_step (Delete k) (st, table))) (snd (perm_step (Delete k) (st, table)))"
  using assms
  by (auto simp: in_step_def store_delete_def dao_delete_def dict_pop_keyed distinct_map_filter
      sorted_wrt_filter_map)

lemma dict_set_keyed:
  "distinct (map tool_pattern table) \<Longrightarrow> r \<in> set table \<Longrightarrow>
   (\<And>x. tool_pattern (f x) = tool_pattern x) \<Longrightarrow> tool_pattern r = k \<Longrightarrow>
   dict_set k (f r) (map (\<lambda>r. (tool_pattern r, r)) table) =
   map (\<lambda>r. (tool_pattern r, r)) (map (\<lambda>x. if tool_pattern x = k then f x else x) table)"
proof (induction table)
  case (Cons x table)
  show ?case
  proof (cases "tool_pattern x = k")
    case True
    then have "x = r" using Cons.prems(1,2,4) by (auto simp: image_iff)
    moreover have "map (\<lambda>x. if tool_pattern x = k then f x else x) table = table"
      using Cons.prems(1) True by (intro map_idI) (auto simp: image_iff)
    ultimately show ?thesis using True Cons.prems(3) by simp
  next
    case False
    with Cons show ?thesis by auto
  qed
qed simp

lemma find_keyed:
  "distinct (map tool_pattern table) \<Longrightarrow> r \<in> set table \<Longrightarrow>
   List.find (\<lambda>x. tool_pattern x = tool_pattern r) table = Some r"
  by (induction table) (auto simp: image_iff)

lemma find_absent: "List.find (\<lambda>x. tool_pattern x = k) table = None \<longleftrightarrow> k \<notin> tool_pattern ` set table"
  by (auto simp: find_None_iff)

lemma find_append_new:
  "k \<notin> tool_pattern ` set table \<Longrightarrow>
   List.find (\<lambda>x. tool_pattern x = k) (table @ [r]) = (if tool_pattern r = k then Some r else None)"
  by (induction table) auto

lemma in_step_insert:
  assumes ok: "in_step st table" and new: "tool_pattern r \<notin> tool_pattern ` set table"
    and now: "\<forall>x\<in>set table. created_at x < created_at r" and "tool_pattern r \<noteq> []"
  shows "in_step (dict_set (tool_pattern r) r st) (table @ [r])"
proof -
  have "\<not> dict_has st (tool_pattern r)"
    using ok new by (auto simp: in_step_def dict_has_iff simp del: set_map) auto
  then have "dict_set (tool_pattern r) r st = map (\<lambda>r. (tool_pattern r, r)) (table @ [r])"
    using ok by (simp add: in_step_def dict_set_new)
  with assms show ?thesis by (auto simp: in_step_def sorted_wrt_append)
qed

lemma in_step_update:
  assumes ok: "in_step st table" and r: "r \<in> set table"
    and f: "\<And>x. tool_pattern (f x) = tool_pattern x" "\<And>x. created_at (f x) = created_at x"
  shows "in_step (dict_set (tool_pattern r) (f r) st)
    (map (\<lambda>x. if tool_pattern x = tool_pattern r then f x else x) table)"
proof -
  let ?table = "map (\<lambda>x. if tool_pattern x = tool_pattern r then f x else x) table"
  have same: "map tool_pattern ?table = map tool_pattern table"
    "map created_at ?table = map created_at table"
    using f by auto
  have "\<forall>x\<in>set ?table. tool_pattern x \<noteq> []"
    using ok f(1) by (auto simp: in_step_def)
  moreover have "dict_set (tool_pattern r) (f r) st = map (\<lambda>r. (tool_pattern r, r)) ?table"
    using ok dict_set_keyed [OF _ r f(1) refl] by (simp add: in_step_def)
  ultimately show ?thesis
    using ok unfolding in_step_def same by simp
qed

lemma in_step_upsert:
  assumes ok: "in_step st table" and now: "\<forall>x\<in>set table. created_at x < now"
    and stt': "perm_step (Upsert pattern action scope new_id now) (st, table) = (st', table')"
  shows "in_step st' table' \<and> (\<forall>x\<in>set table'. created_at x \<le> now)"
proof (cases "store_upsert (st, table) pattern action scope new_id now")
  case (Inl err)
  with stt' ok now show ?thesis by (auto intro: less_imp_le)
next
  case (Inr res)
  let ?new = "\<lparr>pr_id = new_id, tool_pattern = pattern, pr_action = action, pr_scope = scope, created_at = now\<rparr>"
  have pat: "pattern \<noteq> []" and scope: "scope \<noteq> []" and valid: "py_strip pattern \<noteq> []"
    "action \<in> set valid_actions" "py_strip scope \<noteq> []"
    using Inr by (auto simp: store_upsert_def dao_upsert_def Let_def split: if_splits)
  show ?thesis
  proof (cases "dao_get table pattern")
    case None
    then have new: "pattern \<notin> tool_pattern ` set table" by (simp add: dao_get_def find_absent)
    then have "dao_get (table @ [?new]) pattern = Some ?new"
      using find_append_new [OF new] by (simp add: dao_get_def)
    then have "st' = dict_set pattern ?new st" "table' = table @ [?new]"
      using stt' pat scope valid None by (auto simp: store_upsert_def dao_upsert_def Let_def)
    with in_step_insert [OF ok, of ?new] new now pat show ?thesis by (auto intro: less_imp_le)
  next
    case (Some r)
    then have r: "r \<in> set table" "tool_pattern r = pattern"
      by (auto simp: dao_get_def find_Some_iff)
    let ?f = "\<lambda>x. x\<lparr>pr_action := action, pr_scope := scope\<rparr>"
    let ?table = "map (\<lambda>x. if tool_pattern x = pattern then ?f x else x) table"
    have upd: "in_step (dict_set pattern (?f r) st) ?table"
      using in_step_update [OF ok r(1), of ?f] r(2) by simp
    have "?f r \<in> set ?table" using r by force
    with upd have "dao_get ?table pattern = Some (?f r)"
      using find_keyed [of ?table "?f r"] r(2) by (simp add: dao_get_def in_step_def)
    then have "st' = dict_set pattern (?f r) st" "table' = ?table"
      using stt' pat scope valid Some r(2) by (auto simp: store_upsert_def dao_upsert_def Let_def)
    with upd now show ?thesis by (auto intro: less_imp_le)
  qed
qed

lemma in_step_history:
  "in_step (fst stt) (snd stt) \<Longrightarrow> \<forall>x\<in>set (snd stt). created_at x < t \<Longrightarrow>
   sorted_wrt (<) (write_times ws) \<Longrightarrow> \<forall>n\<in>set (write_times ws). t \<le> n \<Longrightarrow>
   in_step (fst (fold perm_step ws stt)) (snd (fold perm_step ws stt))"
proof (induction ws arbitrary: stt t)
  case (Cons w ws)
  obtain st table where stt: "stt = (st, table)" by fastforce
  obtain st' table' where step: "perm_step w (st, table) = (st', table')" by fastforce
  show ?case
  proof (cases w)
    case (Upsert pattern action scope new_id now)
    have "in_step st' table' \<and> (\<forall>x\<in>set table'. created_at x \<le> now)"
      by (rule in_step_upsert [OF _ _ step [unfolded Upsert]])
         (use Cons.prems Upsert in \<open>auto simp: stt intro: less_le_trans\<close>)
    moreover have "sorted_wrt (<) (write_times ws)" "\<forall>n\<in>set (write_times ws). Suc now \<le> n"
      using Cons.prems(3) Upsert by auto
    ultimately show ?thesis
      using Cons.IH [of "(st', table')" "Suc now"] by (auto simp: stt step less_Suc_eq_le)
  next
    case (Delete k)
    have "in_step st' table'" "set table' \<subseteq> set table"
      using in_step_delete [of st table k] Cons.prems(1) step
      by (auto simp: stt Delete store_delete_def dao_delete_def)
    then show ?thesis
      using Cons.IH [of "(st', table')" t] Cons.prems step
      unfolding stt Delete fold.simps comp_apply by auto
  qed
qed simp

section \<open>Properties\<close>

text \<open>
  A lookup answers with the first user rule, in the order of the cache, whose pattern
  matches the tool; only when none does, tools whose name starts with \<open>exec_\<close> get the factory
  rule that asks, and all others nothing.
\<close>

theorem lookup_first_match:
  "lookup_rule st name =
     (if name = [] then None
      else if \<exists>r\<in>set (dict_values st). matches (tool_pattern r) name
      then Some (hd (filter (\<lambda>r. matches (tool_pattern r) name) (dict_values st)))
      else if py_startswith name ''exec_'' then Some default_exec_rule else None)"
proof -
  have "List.find P xs = (if \<exists>x\<in>set xs. P x then Some (hd (filter P xs)) else None)"
    for P and xs :: "perm_rule list"
    by (induction xs) auto
  then show ?thesis by (simp add: lookup_rule_def default_matching_exec del: set_map)
qed

text \<open>
  The patterns people write mean what the documentation says: without a wildcard character
  a pattern matches exactly itself, with a single star at its end it matches the names that
  start with the rest.
\<close>

theorem glob_patterns_as_documented:
  assumes "set p \<inter> {CHR ''*'', CHR ''?'', CHR ''[''} = {}"
  shows "matches p name = (p = name) \<and> matches (p @ ''*'') name = py_startswith name p \<and>
    matches ''*'' name"
  using matches_plain [of p name] matches_prefix [of p name] matches_prefix [of "[]" name] assms
  by (simp add: py_startswith_def)

theorem glob_patterns_as_documented_witness:
  "matches (''exec_'' @ ''*'') ''exec_shell'' \<and> \<not> matches ''exec_'' ''exec_shell''"
proof -
  have "set ''exec_'' \<inter> {CHR ''*'', CHR ''?'', CHR ''[''} = {}" by simp
  from glob_patterns_as_documented [OF this, of "''exec_shell''"] show ?thesis
    by (simp add: py_startswith_def)
qed

text \<open>
  As long as no two writes fall into the same second, the cache and the table never drift
  apart: after any history of writes, reloading the rules from the table gives the cache as it
  is, so a restart keeps every decision.
\<close>

theorem reload_keeps_rules:
  assumes "sorted_wrt (<) (write_times ws)"
  shows "(let (st, table) = fold perm_step ws ([], []) in load_from_db (dao_list_all table) = st)"
proof -
  have "in_step (fst (fold perm_step ws ([], []))) (snd (fold perm_step ws ([], [])))"
    by (rule in_step_history [of _ 0]) (use assms in \<open>simp_all add: in_step_def\<close>)
  from in_step_reload [OF this] show ?thesis by (simp add: case_prod_unfold)
qed

definition ex_writes :: "nat \<Rightarrow> perm_write list" where
  "ex_writes t = [Upsert ''exec_*'' ''allow'' ''global'' ''pr_b'' 7,
                  Upsert ''*'' ''deny'' ''global'' ''pr_a'' t]"

theorem reload_keeps_rules_witness:
  "(let (st, table) = fold perm_step (ex_writes 8) ([], []) in load_from_db (dao_list_all table) = st)"
  by (rule reload_keeps_rules) (simp add: ex_writes_def)

text \<open>Two rules written in the same second come back in the order of their random ids.\<close>

lemma same_second_reload_flips:
  "let (st, table) = fold perm_step (ex_writes 7) ([], [])
   in \<not> is_denied st ''exec_x'' ''global'' \<and>
      is_denied (load_from_db (dao_list_all table)) ''exec_x'' ''global''"
  by code_simp

end
