(* ===== verification/Consent.thy ===== *)
theory Consent
  imports Prelude
begin

text \<open>
  The consent gater of \<open>perm_consent.py\<close>. A call of \<open>request_consent\<close> is a sequence of
  steps, as the event loop may run others at each \<open>await\<close>: it registers, emits (which may
  fail), waits until its future is set or the timeout cancels it, and forgets the entry. The
  request id is given; the server's registry holds references to gaters kept in a store.
\<close>

section \<open>Futures and requests\<close>

datatype future = FPending | FResult bool | FCancelled

definition fut_done :: "future \<Rightarrow> bool" where
  "fut_done f = (f \<noteq> FPending)"

record pending_request =
  pq_tool :: string
  pq_args :: string
  pq_future :: future

type_synonym request_id = string

record consent_event =
  ev_request_id :: request_id
  ev_tool :: string
  ev_args :: string
  ev_session :: "string option"

record gater =
  g_pending :: "(request_id, pending_request) dict"
  g_emitted :: "consent_event list"

definition new_gater :: gater where
  "new_gater = \<lparr>g_pending = [], g_emitted = []\<rparr>"

definition set_future :: "gater \<Rightarrow> request_id \<Rightarrow> future \<Rightarrow> gater" where
  "set_future g rid f =
     (case dict_get (g_pending g) rid of
        None \<Rightarrow> g
      | Some p \<Rightarrow> g\<lparr>g_pending := dict_set rid (p\<lparr>pq_future := f\<rparr>) (g_pending g)\<rparr>)"

definition forget :: "gater \<Rightarrow> request_id \<Rightarrow> gater" where
  "forget g rid = g\<lparr>g_pending := dict_pop rid (g_pending g)\<rparr>"

definition begin_request :: "gater \<Rightarrow> request_id \<Rightarrow> string \<Rightarrow> string \<Rightarrow> gater" where
  "begin_request g rid tool args =
     g\<lparr>g_pending := dict_set rid \<lparr>pq_tool = tool, pq_args = args, pq_future = FPending\<rparr> (g_pending g)\<rparr>"

definition payload :: "request_id \<Rightarrow> string \<Rightarrow> string \<Rightarrow> string option \<Rightarrow> consent_event" where
  "payload rid tool args session_id =
     \<lparr>ev_request_id = rid, ev_tool = tool, ev_args = args,
      ev_session = (if session_id = Some [] then None else session_id)\<rparr>"

text \<open>Emitting: on failure the entry is forgotten and the call answers \<open>False\<close>.\<close>

definition emit_request ::
  "gater \<Rightarrow> request_id \<Rightarrow> string \<Rightarrow> string \<Rightarrow> string option \<Rightarrow> bool \<Rightarrow> bool option \<times> gater" where
  "emit_request g rid tool args session_id ok =
     (if ok then (None, g\<lparr>g_emitted := g_emitted g @ [payload rid tool args session_id]\<rparr>)
      else (Some False, forget g rid))"

text \<open>
  The wait: a set future is the answer, a timeout on a future that is not set cancels it and
  answers \<open>False\<close>; \<^term>\<open>None\<close> is a call that still waits.
\<close>

definition await_decision :: "gater \<Rightarrow> request_id \<Rightarrow> bool \<Rightarrow> bool option \<times> gater" where
  "await_decision g rid timed_out =
     (case dict_get (g_pending g) rid of
        None \<Rightarrow> (None, g)
      | Some p \<Rightarrow>
          (case pq_future p of
             FResult d \<Rightarrow> (Some d, g)
           | FPending \<Rightarrow> (if timed_out then (Some False, set_future g rid FCancelled) else (None, g))
           | FCancelled \<Rightarrow> (Some False, g)))"

definition resolve :: "gater \<Rightarrow> request_id \<Rightarrow> bool \<Rightarrow> bool \<times> gater" where
  "resolve g rid decision =
     (case dict_get (g_pending g) rid of
        None \<Rightarrow> (False, g)
      | Some p \<Rightarrow>
          (if fut_done (pq_future p) then (True, g)
           else (True, set_future g rid (FResult decision))))"

definition cancel_all :: "gater \<Rightarrow> nat \<times> gater" where
  "cancel_all g =
     (length (filter (\<lambda>p. \<not> fut_done (pq_future p)) (dict_values (g_pending g))),
      g\<lparr>g_pending := map (\<lambda>(rid, p). (rid, if fut_done (pq_future p) then p
                                            else p\<lparr>pq_future := FResult False\<rparr>)) (g_pending g)\<rparr>)"

definition has_pending :: "gater \<Rightarrow> request_id \<Rightarrow> bool" where
  "has_pending g rid = dict_has (g_pending g) rid"

definition pending_ids :: "gater \<Rightarrow> request_id list" where
  "pending_ids g = dict_keys (g_pending g)"

section \<open>The registry of the server\<close>

text \<open>\<open>gaters\<close> is the store of gater objects; registry and legacy slot hold references.\<close>

record server =
  gaters :: "(nat, gater) dict"
  permission_gaters :: "(string, nat) dict"
  permission_gater :: "nat option"

definition register_gater :: "server \<Rightarrow> string \<Rightarrow> nat \<Rightarrow> server" where
  "register_gater s session_id g =
     s\<lparr>permission_gaters := dict_set session_id g (permission_gaters s), permission_gater := Some g\<rparr>"

definition unregister_gater :: "server \<Rightarrow> string \<Rightarrow> server" where
  "unregister_gater s session_id =
     (let g = dict_get (permission_gaters s) session_id;
          s = s\<lparr>permission_gaters := dict_pop session_id (permission_gaters s)\<rparr>
      in if g \<noteq> None \<and> permission_gater s = g then s\<lparr>permission_gater := None\<rparr> else s)"

fun resolve_first :: "server \<Rightarrow> nat list \<Rightarrow> request_id \<Rightarrow> bool \<Rightarrow> bool \<times> server" where
  "resolve_first s [] rid decision = (False, s)"
| "resolve_first s (r # rs) rid decision =
     (case dict_get (gaters s) r of
        None \<Rightarrow> resolve_first s rs rid decision
      | Some g \<Rightarrow>
          (let (claimed, g') = resolve g rid decision
           in if claimed then (True, s\<lparr>gaters := dict_set r g' (gaters s)\<rparr>)
              else resolve_first s rs rid decision))"

definition resolve_any_gater :: "server \<Rightarrow> request_id \<Rightarrow> bool \<Rightarrow> bool \<times> server" where
  "resolve_any_gater s rid decision =
     resolve_first s (dict_values (permission_gaters s) @
       (case permission_gater s of None \<Rightarrow> [] | Some r \<Rightarrow> [r])) rid decision"

section \<open>Runs of one gater\<close>

datatype consent_step =
    Begin request_id string string
  | Emit request_id string string "string option" bool
  | Await request_id bool
  | Forget request_id
  | Resolve request_id bool
  | CancelAll

text \<open>Each step with the answer a call of \<open>request_consent\<close> gets from it, if any.\<close>

fun consent_run :: "consent_step list \<Rightarrow> gater \<Rightarrow> (request_id \<times> bool) list \<times> gater" where
  "consent_run [] g = ([], g)"
| "consent_run (Begin rid tool args # ss) g = consent_run ss (begin_request g rid tool args)"
| "consent_run (Emit rid tool args sid ok # ss) g =
     (let (a, g) = emit_request g rid tool args sid ok; (as, g) = consent_run ss g
      in (case a of Some d \<Rightarrow> (rid, d) # as | None \<Rightarrow> as, g))"
| "consent_run (Await rid timed_out # ss) g =
     (let (a, g) = await_decision g rid timed_out; (as, g) = consent_run ss g
      in (case a of Some d \<Rightarrow> (rid, d) # as | None \<Rightarrow> as, g))"
| "consent_run (Forget rid # ss) g = consent_run ss (forget g rid)"
| "consent_run (Resolve rid d # ss) g = consent_run ss (snd (resolve g rid d))"
| "consent_run (CancelAll # ss) g = consent_run ss (snd (cancel_all g))"

definition granted :: "gater \<Rightarrow> request_id \<Rightarrow> bool" where
  "granted g rid = (case dict_get (g_pending g) rid of Some p \<Rightarrow> pq_future p = FResult True | None \<Rightarrow> False)"

lemma granted_simps [simp]:
  "granted (begin_request g rid tool args) r \<longleftrightarrow> r \<noteq> rid \<and> granted g r"
  "granted (forget g rid) r \<longleftrightarrow> r \<noteq> rid \<and> granted g r"
  "granted (g\<lparr>g_emitted := es\<rparr>) r = granted g r"
  by (auto simp: granted_def begin_request_def forget_def dict_simps)

lemma granted_set_future:
  "granted (set_future g rid f) r \<Longrightarrow> granted g r \<or> (r = rid \<and> f = FResult True)"
  by (cases "dict_get (g_pending g) rid") (auto simp: granted_def set_future_def dict_simps split: if_splits)

lemma granted_resolve: "granted (snd (resolve g rid d)) r \<Longrightarrow> granted g r \<or> (r = rid \<and> d)"
  using granted_set_future [of g rid "FResult d" r]
  by (cases "dict_get (g_pending g) rid") (auto simp: resolve_def split: if_splits)

lemma granted_await: "granted (snd (await_decision g rid t)) r \<Longrightarrow> granted g r"
  using granted_set_future [of g rid FCancelled r]
  by (auto simp: await_decision_def split: option.splits future.splits if_splits)

lemma granted_emit: "granted (snd (emit_request g rid tool args sid ok)) r \<Longrightarrow> granted g r"
  by (auto simp: emit_request_def split: if_splits)

lemma dict_get_cancel:
  "dict_get (g_pending (snd (cancel_all g))) r =
   map_option (\<lambda>p. if fut_done (pq_future p) then p else p\<lparr>pq_future := FResult False\<rparr>)
     (dict_get (g_pending g) r)"
proof -
  have "map_of (map (\<lambda>(k, v). (k, f v)) xs) r = map_option f (map_of xs r)"
    for f :: "pending_request \<Rightarrow> pending_request" and xs :: "(request_id \<times> pending_request) list"
    by (induction xs) auto
  then show ?thesis by (simp add: cancel_all_def)
qed

lemma granted_cancel: "granted (snd (cancel_all g)) r \<Longrightarrow> granted g r"
  by (auto simp: granted_def dict_get_cancel split: option.splits if_splits)

lemma await_grants: "fst (await_decision g rid t) = Some True \<Longrightarrow> granted g rid"
  by (auto simp: await_decision_def granted_def split: option.splits future.splits if_splits)

lemma consent_run_granted:
  "(rid, True) \<in> set (fst (consent_run ss g)) \<Longrightarrow> granted g rid \<or> Resolve rid True \<in> set ss"
proof (induction ss g rule: consent_run.induct)
  case (3 r tool args sid ok ss g)
  obtain a g1 where e: "emit_request g r tool args sid ok = (a, g1)" by fastforce
  obtain as g2 where run: "consent_run ss g1 = (as, g2)" by fastforce
  have "a \<noteq> Some True" using e by (auto simp: emit_request_def split: if_splits)
  then have "(rid, True) \<in> set as"
    using 3(2) e run by (auto split: option.splits)
  with 3(1) [OF e [symmetric] refl] run granted_emit [of g r tool args sid ok rid] e show ?case by auto
next
  case (4 r t ss g)
  obtain a g1 where e: "await_decision g r t = (a, g1)" by fastforce
  obtain as g2 where run: "consent_run ss g1 = (as, g2)" by fastforce
  show ?case
  proof (cases "a = Some True \<and> r = rid")
    case True
    with await_grants [of g r t] e show ?thesis by simp
  next
    case False
    then have "(rid, True) \<in> set as" using 4(2) e run by (auto split: option.splits)
    with 4(1) [OF e [symmetric] refl] run granted_await [of g r t rid] e show ?thesis by auto
  qed
qed (auto dest: granted_resolve granted_cancel)

section \<open>Properties\<close>

text \<open>
  C36: A request is only ever granted by the user: in every interleaving of requests, timeouts,
  resolutions and shutdowns, a call of \<open>request_consent\<close> that answers \<open>True\<close> has received a
  resolution \<open>True\<close> for its own id.
\<close>

theorem consent_only_from_user:
  assumes "(rid, True) \<in> set (fst (consent_run ss new_gater))"
  shows "Resolve rid True \<in> set ss"
  using consent_run_granted [OF assms] by (simp add: granted_def new_gater_def)

theorem consent_only_from_user_witness:
  "Resolve ''p1'' True \<in>
   set [Begin ''p1'' ''exec_shell'' ''{}'', Emit ''p1'' ''exec_shell'' ''{}'' None True, Await ''p1'' False,
     Resolve ''p1'' True, Await ''p1'' False, Forget ''p1'', Resolve ''p1'' False]"
  by (rule consent_only_from_user)
     (simp add: new_gater_def begin_request_def emit_request_def await_decision_def resolve_def
       set_future_def forget_def fut_done_def)

text \<open>
  The first answer stands: once a pending request has been resolved, later resolutions are
  acknowledged and change nothing, the waiting call gets the first decision whether or not the
  timeout has passed, and after it has forgotten the request a resolution is refused.
\<close>

theorem first_decision_stands:
  assumes "dict_get (g_pending g) rid = Some p" and "pq_future p = FPending"
  shows "let g' = snd (resolve g rid d)
    in fst (resolve g rid d) \<and> resolve g' rid d' = (True, g') \<and>
       await_decision g' rid timed_out = (Some d, g') \<and> resolve (forget g' rid) rid d' = (False, forget g' rid)"
  using assms
  by (simp add: resolve_def set_future_def await_decision_def forget_def fut_done_def dict_simps Let_def)

theorem first_decision_stands_witness:
  "fst (await_decision (snd (resolve (begin_request new_gater ''p'' ''t'' ''{}'') ''p'' True)) ''p'' True) = Some True"
  using first_decision_stands [of "begin_request new_gater ''p'' ''t'' ''{}''" "''p''" _ True]
  by (simp add: begin_request_def new_gater_def Let_def)

end
