(* ===== verification/Sandbox_Profiles.thy ===== *)
theory Sandbox_Profiles
  imports Prelude
begin

text \<open>
  Sandbox profiles of \<open>sandbox/profiles.py\<close>: profile names and their text form, custom
  profile rows, and the merge of a project configuration under the global-wins policy.
\<close>

section \<open>Names and rows\<close>

datatype profile_name = Workspace | Devbox | ReadOnly | Strict | Off | Custom string

definition default_profile :: profile_name where
  "default_profile = Workspace"

definition profile_str :: "profile_name \<Rightarrow> string" where
  "profile_str p =
     (case p of Workspace \<Rightarrow> ''workspace'' | Devbox \<Rightarrow> ''devbox'' | ReadOnly \<Rightarrow> ''read-only''
      | Strict \<Rightarrow> ''strict'' | Off \<Rightarrow> ''off'' | Custom name \<Rightarrow> name)"

definition profile_from_str :: "string \<Rightarrow> profile_name" where
  "profile_from_str raw =
     (if raw = ''workspace'' then Workspace
      else if raw = ''devbox'' then Devbox
      else if raw \<in> {''read-only'', ''readonly''} then ReadOnly
      else if raw = ''strict'' then Strict
      else if raw \<in> {''off'', ''none''} then Off
      else Custom raw)"

record profile_config =
  extends :: "string option"
  restrict_network :: "bool option"
  read_only :: "string list"
  read_write :: "string list"
  deny :: "string list"

type_synonym sandbox_config = "(string, profile_config) dict"

definition restricts_network :: "profile_name \<Rightarrow> bool" where
  "restricts_network p = (p = ReadOnly \<or> p = Strict)"

definition restricts_network_resolved :: "profile_name \<Rightarrow> sandbox_config \<Rightarrow> bool" where
  "restricts_network_resolved p config =
     (case p of
        ReadOnly \<Rightarrow> True | Strict \<Rightarrow> True | Workspace \<Rightarrow> False | Devbox \<Rightarrow> False | Off \<Rightarrow> False
      | Custom name \<Rightarrow>
          (case dict_get config name of
             None \<Rightarrow> False
           | Some entry \<Rightarrow> (case restrict_network entry of None \<Rightarrow> False | Some b \<Rightarrow> b)))"

section \<open>Merging\<close>

definition is_custom :: "profile_name \<Rightarrow> bool" where
  "is_custom p = (case p of Custom _ \<Rightarrow> True | _ \<Rightarrow> False)"

definition mismatched_profile_names :: "sandbox_config \<Rightarrow> sandbox_config \<Rightarrow> string list" where
  "mismatched_profile_names global_config project =
     sort (map fst (filter (\<lambda>(name, profile).
        is_custom (profile_from_str name) \<and> dict_get global_config name \<noteq> None \<and>
        dict_get global_config name \<noteq> Some profile) project))"

definition merge_project_profiles :: "sandbox_config \<Rightarrow> sandbox_config \<Rightarrow> sandbox_config" where
  "merge_project_profiles config project =
     foldl (\<lambda>c (name, profile). if dict_has c name then c else dict_set name profile c) config project"

section \<open>Facts\<close>

lemma merge_get:
  "dict_get (merge_project_profiles config project) n =
   (case dict_get config n of Some p \<Rightarrow> Some p | None \<Rightarrow> dict_get project n)"
  unfolding merge_project_profiles_def
proof (induction project arbitrary: config)
  case (Cons e project)
  obtain name profile where e: "e = (name, profile)" by fastforce
  show ?case
  proof (cases "dict_has config name")
    case True
    then show ?thesis
      using Cons.IH [of config] by (auto simp: e dict_has_def split: option.splits)
  next
    case False
    then have "dict_get config name = None" by (simp add: not_dict_has)
    with False Cons.IH [of "dict_set name profile config"] show ?thesis
      by (auto simp: e dict_simps split: option.splits)
  qed
qed (simp split: option.splits)

lemma profile_roundtrip:
  "profile_from_str (profile_str p) = p \<longleftrightarrow>
   (case p of Custom n \<Rightarrow> n \<notin> {''workspace'', ''devbox'', ''read-only'', ''readonly'', ''strict'', ''off'', ''none''}
    | _ \<Rightarrow> True)"
  by (cases p) (auto simp: profile_from_str_def profile_str_def)

section \<open>Properties\<close>

text \<open>
  Merging a project configuration never changes a profile of the global one: every name
  present globally keeps its row, a new name gets the project's row, so no custom profile of
  the global configuration loses its network restriction, and merging again changes nothing.
\<close>

theorem merge_global_wins:
  "let merged = merge_project_profiles config project
   in dict_get merged n = (case dict_get config n of Some p \<Rightarrow> Some p | None \<Rightarrow> dict_get project n) \<and>
      (if dict_has config n
       then restricts_network_resolved (Custom n) merged = restricts_network_resolved (Custom n) config
       else True) \<and>
      dict_get (merge_project_profiles merged project) = dict_get merged"
  unfolding Let_def
  by (auto simp: merge_get restricts_network_resolved_def dict_has_def fun_eq_iff split: option.splits)

text \<open>
  The reported mismatches are, in order, exactly the custom names that both configurations
  define with different rows, that is, those whose project row the merge ignores.
\<close>

theorem mismatches_are_ignored_rows:
  assumes "dict_ok project"
  shows "sorted (mismatched_profile_names global_config project) \<and>
    set (mismatched_profile_names global_config project) =
      {n. is_custom (profile_from_str n) \<and>
          (\<exists>row. dict_get project n = Some row \<and>
             dict_get (merge_project_profiles global_config project) n \<noteq> Some row)}"
  using assms by (force simp: mismatched_profile_names_def merge_get dict_get_iff split: option.splits)

definition ex_row :: "string list \<Rightarrow> profile_config" where
  "ex_row d = \<lparr>extends = None, restrict_network = Some True, read_only = [], read_write = [], deny = d\<rparr>"

theorem mismatches_are_ignored_rows_witness:
  "set (mismatched_profile_names [(''corp'', ex_row [''secrets''])] [(''corp'', ex_row []), (''mine'', ex_row [])]) =
   {n. is_custom (profile_from_str n) \<and>
       (\<exists>row. dict_get [(''corp'', ex_row []), (''mine'', ex_row [])] n = Some row \<and>
          dict_get (merge_project_profiles [(''corp'', ex_row [''secrets''])]
             [(''corp'', ex_row []), (''mine'', ex_row [])]) n \<noteq> Some row)}"
proof -
  have "dict_ok [(''corp'', ex_row []), (''mine'', ex_row [])]" by simp
  from mismatches_are_ignored_rows [OF this] show ?thesis by blast
qed

end
