(* ===== verification/Call_Registry.thy ===== *)
theory Call_Registry
  imports Prelude
begin

text \<open>
  Two leaves of \<open>computer_hub_sdk\<close>: the cancellation registry of a session
  (\<open>cancel.py\<close>) and the borrow counts of \<open>refcount.py\<close>. The events that tokens are live in a
  store: \<open>cr_set\<close> lists the tokens that have been set. The order in which a Python set is
  iterated is not specified, so the tombstone that is evicted is chosen by a given function.
\<close>

section \<open>The cancellation registry\<close>

type_synonym call_id = string
type_synonym token = nat

definition MAX_PENDING_TOMBSTONES :: nat where
  "MAX_PENDING_TOMBSTONES = 8192"

record cancel_registry =
  cr_map :: "(call_id, token) dict"
  cr_pending :: "call_id list"
  cr_closed :: bool
  cr_set :: "token list"

definition new_cancel_registry :: cancel_registry where
  "new_cancel_registry = \<lparr>cr_map = [], cr_pending = [], cr_closed = False, cr_set = []\<rparr>"

definition set_token :: "cancel_registry \<Rightarrow> token \<Rightarrow> cancel_registry" where
  "set_token r t = r\<lparr>cr_set := t # cr_set r\<rparr>"

text \<open>Nothing runs between the insertion and the second look at \<open>closed\<close>; it is kept.\<close>

definition register_call :: "cancel_registry \<Rightarrow> call_id \<Rightarrow> token \<Rightarrow> bool \<times> cancel_registry" where
  "register_call r c t =
     (if cr_closed r then (True, set_token r t)
      else
        (let pre_cancelled = c \<in> set (cr_pending r);
             r = (if pre_cancelled
                  then set_token (r\<lparr>cr_pending := removeAll c (cr_pending r)\<rparr>) t else r);
             r = r\<lparr>cr_map := dict_set c t (cr_map r)\<rparr>
         in if cr_closed r
            then (let missed = dict_get (cr_map r) c;
                      r = r\<lparr>cr_map := dict_pop c (cr_map r)\<rparr>
                  in (True, case missed of Some t' \<Rightarrow> set_token r t' | None \<Rightarrow> r))
            else (pre_cancelled, r)))"

definition cancel_call ::
  "(call_id list \<Rightarrow> call_id) \<Rightarrow> cancel_registry \<Rightarrow> call_id \<Rightarrow> bool \<times> cancel_registry" where
  "cancel_call pick r c =
     (case dict_get (cr_map r) c of
        Some t \<Rightarrow> (True, set_token (r\<lparr>cr_map := dict_pop c (cr_map r)\<rparr>) t)
      | None \<Rightarrow>
          (let r = (if MAX_PENDING_TOMBSTONES \<le> length (cr_pending r)
                    then (if cr_pending r = [] then r
                          else r\<lparr>cr_pending := removeAll (pick (cr_pending r)) (cr_pending r)\<rparr>)
                    else r)
           in (False, r\<lparr>cr_pending := List.insert c (cr_pending r)\<rparr>)))"

definition deregister_call :: "cancel_registry \<Rightarrow> call_id \<Rightarrow> cancel_registry" where
  "deregister_call r c = r\<lparr>cr_map := dict_pop c (cr_map r)\<rparr>"

definition cancel_all_calls :: "cancel_registry \<Rightarrow> nat \<times> cancel_registry" where
  "cancel_all_calls r =
     (length (cr_map r),
      r\<lparr>cr_closed := True, cr_set := dict_values (cr_map r) @ cr_set r, cr_map := [], cr_pending := []\<rparr>)"

definition live_count :: "cancel_registry \<Rightarrow> nat" where
  "live_count r = length (cr_map r)"

definition pending_count :: "cancel_registry \<Rightarrow> nat" where
  "pending_count r = length (cr_pending r)"

datatype registry_op = Register call_id token | Cancel call_id | Deregister call_id | CancelAllCalls

fun registry_step :: "(call_id list \<Rightarrow> call_id) \<Rightarrow> registry_op \<Rightarrow> cancel_registry \<Rightarrow> cancel_registry" where
  "registry_step pick (Register c t) r = snd (register_call r c t)"
| "registry_step pick (Cancel c) r = snd (cancel_call pick r c)"
| "registry_step pick (Deregister c) r = deregister_call r c"
| "registry_step pick CancelAllCalls r = snd (cancel_all_calls r)"

fun is_cancel :: "registry_op \<Rightarrow> bool" where
  "is_cancel (Cancel _) = True"
| "is_cancel _ = False"

fun registers :: "call_id \<Rightarrow> registry_op \<Rightarrow> bool" where
  "registers c (Register d _) = (c = d)"
| "registers c _ = False"

text \<open>
  \<open>issued\<close> is every token ever handed to \<open>register\<close>; a token that has left the map without
  having been set belongs to a call that was deregistered or re-registered.
\<close>

definition registry_ok :: "cancel_registry \<Rightarrow> bool" where
  "registry_ok r =
     (dict_ok (cr_map r) \<and> distinct (cr_pending r) \<and>
      length (cr_pending r) \<le> MAX_PENDING_TOMBSTONES \<and>
      (\<forall>c\<in>set (cr_pending r). \<not> dict_has (cr_map r) c) \<and>
      (cr_closed r \<longrightarrow> cr_map r = []))"

lemma registry_ok_new [inv_intros]: "registry_ok new_cancel_registry"
  by (simp add: registry_ok_def new_cancel_registry_def)

lemma registry_ok_register [inv_intros]: "registry_ok r \<Longrightarrow> registry_ok (snd (register_call r c t))"
  by (auto simp: registry_ok_def register_call_def set_token_def Let_def removeAll_filter_not_eq
      intro: order_trans [OF length_filter_le])

lemma length_removeAll_member:
  "distinct xs \<Longrightarrow> x \<in> set xs \<Longrightarrow> Suc (length (removeAll x xs)) = length xs"
  by (induction xs) auto

lemma registry_ok_cancel [inv_intros]:
  assumes ok: "registry_ok r" and pick: "\<And>xs. xs \<noteq> [] \<Longrightarrow> pick xs \<in> set xs"
  shows "registry_ok (snd (cancel_call pick r c))"
proof (cases "dict_get (cr_map r) c")
  case (Some t)
  with ok show ?thesis by (auto simp: cancel_call_def registry_ok_def set_token_def)
next
  case None
  define ps where "ps = (if MAX_PENDING_TOMBSTONES \<le> length (cr_pending r)
    then removeAll (pick (cr_pending r)) (cr_pending r) else cr_pending r)"
  have ps: "distinct ps" "set ps \<subseteq> set (cr_pending r)" "length ps < MAX_PENDING_TOMBSTONES"
  proof -
    show "distinct ps" "set ps \<subseteq> set (cr_pending r)"
      using ok by (auto simp: ps_def registry_ok_def distinct_removeAll)
    show "length ps < MAX_PENDING_TOMBSTONES"
    proof (cases "MAX_PENDING_TOMBSTONES \<le> length (cr_pending r)")
      case True
      then have "cr_pending r \<noteq> []" by (auto simp: MAX_PENDING_TOMBSTONES_def)
      with ok pick have "Suc (length ps) = length (cr_pending r)"
        unfolding ps_def using True by (simp add: length_removeAll_member registry_ok_def)
      with ok show ?thesis by (simp add: registry_ok_def)
    qed (simp add: ps_def)
  qed
  have "length (List.insert c ps) \<le> Suc (length ps)" by (simp add: List.insert_def)
  then have "length (List.insert c ps) \<le> MAX_PENDING_TOMBSTONES" using ps(3) by simp
  moreover have "snd (cancel_call pick r c) = r\<lparr>cr_pending := List.insert c ps\<rparr>"
    using None by (auto simp: cancel_call_def ps_def Let_def)
  moreover have "\<not> dict_has (cr_map r) c" using None by (simp add: not_dict_has)
  ultimately show ?thesis using ok ps(1,2) by (auto simp: registry_ok_def distinct_insert)
qed

lemma registry_ok_step:
  assumes "registry_ok r" and "\<And>xs. xs \<noteq> [] \<Longrightarrow> pick xs \<in> set xs"
  shows "registry_ok (registry_step pick op r)"
  using assms
  by (cases op) (simp_all add: inv_intros, auto simp: registry_ok_def deregister_call_def cancel_all_calls_def)

lemma registry_ok_run:
  "registry_ok r \<Longrightarrow> (\<And>xs. xs \<noteq> [] \<Longrightarrow> pick xs \<in> set xs) \<Longrightarrow> registry_ok (fold (registry_step pick) ops r)"
  by (induction ops arbitrary: r) (simp_all add: registry_ok_step)

text \<open>A tombstone survives every step that neither registers its call nor overflows the set.\<close>

lemma tombstone_step:
  assumes "c \<in> set (cr_pending r) \<or> cr_closed r" and "\<not> registers c op"
    and "is_cancel op \<Longrightarrow> length (cr_pending r) < MAX_PENDING_TOMBSTONES"
  shows "(c \<in> set (cr_pending (registry_step pick op r)) \<or> cr_closed (registry_step pick op r)) \<and>
    length (cr_pending (registry_step pick op r)) \<le>
      length (cr_pending r) + (if is_cancel op then 1 else 0)"
proof (cases op)
  case (Register d t)
  have "length (removeAll d (cr_pending r)) \<le> length (cr_pending r)" by (rule length_removeAll_less_eq)
  with assms show ?thesis
    by (auto simp: Register register_call_def set_token_def Let_def)
next
  case (Cancel d)
  with assms show ?thesis
    by (cases "dict_get (cr_map r) d")
       (auto simp: cancel_call_def set_token_def Let_def List.insert_def)
next
  case (Deregister d)
  with assms show ?thesis by (simp add: deregister_call_def)
next
  case CancelAllCalls
  with assms show ?thesis by (simp add: cancel_all_calls_def)
qed

lemma tombstone_run:
  "c \<in> set (cr_pending r) \<or> cr_closed r \<Longrightarrow> \<forall>op\<in>set ops. \<not> registers c op \<Longrightarrow>
   length (cr_pending r) + length (filter is_cancel ops) \<le> MAX_PENDING_TOMBSTONES \<Longrightarrow>
   c \<in> set (cr_pending (fold (registry_step pick) ops r)) \<or> cr_closed (fold (registry_step pick) ops r)"
proof (induction ops arbitrary: r)
  case (Cons op ops)
  have "length (cr_pending r) < MAX_PENDING_TOMBSTONES" if "is_cancel op"
    using Cons.prems(3) that by simp
  from tombstone_step [where pick = pick, OF Cons.prems(1) _ this] Cons.prems(2)
  have step: "c \<in> set (cr_pending (registry_step pick op r)) \<or> cr_closed (registry_step pick op r)"
    "length (cr_pending (registry_step pick op r)) \<le> length (cr_pending r) + (if is_cancel op then 1 else 0)"
    by auto
  show ?case
    using Cons.IH [OF step(1)] Cons.prems(2,3) step(2) by (auto split: if_splits)
qed simp

section \<open>Borrow counts\<close>

definition U64_MAX :: int where
  "U64_MAX = 2 ^ 64 - 1"

definition rc_increment :: "('k, int) dict \<Rightarrow> 'k \<Rightarrow> (int \<times> int) \<times> ('k, int) dict" where
  "rc_increment counts k =
     (let prev = (case dict_get counts k of Some n \<Rightarrow> n | None \<Rightarrow> 0);
          new = (if prev < U64_MAX then prev + 1 else U64_MAX)
      in ((prev, new), dict_set k new counts))"

definition rc_decrement :: "('k, int) dict \<Rightarrow> 'k \<Rightarrow> int option \<times> ('k, int) dict" where
  "rc_decrement counts k =
     (case dict_get counts k of
        None \<Rightarrow> (None, counts)
      | Some prev \<Rightarrow>
          (let new = (if 0 < prev then prev - 1 else 0)
           in (Some new, if new = 0 then dict_pop k counts else dict_set k new counts)))"

definition rc_snapshot_keys :: "('k, int) dict \<Rightarrow> 'k list" where
  "rc_snapshot_keys counts = dict_keys counts"

definition rc_is_empty :: "('k, int) dict \<Rightarrow> bool" where
  "rc_is_empty counts = (counts = [])"

datatype 'k rc_op = Inc 'k | Dec 'k

text \<open>A run counts, for one key, the setups (\<open>prev = 0\<close>) and the teardowns (result 0) it fires.\<close>

fun rc_run :: "'k \<Rightarrow> 'k rc_op list \<Rightarrow> ('k, int) dict \<Rightarrow> (nat \<times> nat) \<times> ('k, int) dict" where
  "rc_run k [] counts = ((0, 0), counts)"
| "rc_run k (Inc j # ops) counts =
     (let ((prev, _), counts) = rc_increment counts j; ((s, t), counts) = rc_run k ops counts
      in ((s + (if j = k \<and> prev = 0 then 1 else 0), t), counts))"
| "rc_run k (Dec j # ops) counts =
     (let (res, counts) = rc_decrement counts j; ((s, t), counts) = rc_run k ops counts
      in ((s, t + (if j = k \<and> res = Some 0 then 1 else 0)), counts))"

definition counts_ok :: "('k, int) dict \<Rightarrow> bool" where
  "counts_ok counts = (\<forall>k n. dict_get counts k = Some n \<longrightarrow> 0 < n \<and> n \<le> U64_MAX)"

lemma counts_ok_get: "counts_ok counts \<Longrightarrow> dict_get counts k = Some n \<Longrightarrow> 0 < n \<and> n \<le> U64_MAX"
  by (simp add: counts_ok_def)

lemma rc_increment_cases:
  assumes "counts_ok counts"
  shows "counts_ok (snd (rc_increment counts k)) \<and>
    (fst (fst (rc_increment counts k)) = 0 \<longleftrightarrow> \<not> dict_has counts k) \<and>
    (\<forall>j. dict_has (snd (rc_increment counts k)) j \<longleftrightarrow> j = k \<or> dict_has counts j)"
proof (cases "dict_get counts k")
  case None
  with assms show ?thesis
    by (auto simp: rc_increment_def counts_ok_def dict_get_set dict_has_def U64_MAX_def)
next
  case (Some n)
  have n: "0 < n" "n \<le> U64_MAX" using counts_ok_get [OF assms Some] by simp_all
  define new where "new = (if n < U64_MAX then n + 1 else U64_MAX)"
  have inc: "rc_increment counts k = ((n, new), dict_set k new counts)"
    using Some by (simp add: rc_increment_def new_def Let_def)
  have "0 < new" "new \<le> U64_MAX" using n by (auto simp: new_def)
  with n Some assms show ?thesis
    by (auto simp: inc counts_ok_def dict_get_set dict_has_def)
qed

lemma rc_decrement_cases:
  assumes "counts_ok counts"
  shows "counts_ok (snd (rc_decrement counts k)) \<and>
    (\<forall>j. dict_has (snd (rc_decrement counts k)) j \<longleftrightarrow>
       dict_has counts j \<and> (j \<noteq> k \<or> fst (rc_decrement counts k) \<noteq> Some 0)) \<and>
    (fst (rc_decrement counts k) = Some 0 \<longrightarrow> dict_has counts k)"
proof (cases "dict_get counts k")
  case None
  with assms show ?thesis by (auto simp: rc_decrement_def dict_has_def)
next
  case (Some n)
  have n: "0 < n" "n \<le> U64_MAX" using counts_ok_get [OF assms Some] by simp_all
  have dec: "rc_decrement counts k =
      (Some (n - 1), if n - 1 = 0 then dict_pop k counts else dict_set k (n - 1) counts)"
    using Some n by (simp add: rc_decrement_def Let_def)
  show ?thesis
  proof (cases "n = 1")
    case True
    with Some assms show ?thesis by (auto simp: dec counts_ok_def dict_get_pop dict_has_def)
  next
    case False
    with n have "1 < n" "n - 1 \<le> U64_MAX" by simp_all
    with Some assms show ?thesis by (auto simp: dec counts_ok_def dict_get_set dict_has_def)
  qed
qed

lemma rc_run_balance:
  "counts_ok counts \<Longrightarrow> rc_run k ops counts = ((s, t), counts') \<Longrightarrow>
   counts_ok counts' \<and>
   s + (if dict_has counts k then 1 else 0) = t + (if dict_has counts' k then 1 else 0)"
proof (induction k ops counts arbitrary: s t counts' rule: rc_run.induct)
  case (2 k j ops counts)
  obtain pn counts1 where "rc_increment counts j = (pn, counts1)" by fastforce
  moreover obtain prev new where "pn = (prev, new)" by fastforce
  ultimately have inc: "rc_increment counts j = ((prev, new), counts1)" by simp
  obtain st1 c1 where "rc_run k ops counts1 = (st1, c1)" by fastforce
  moreover obtain s1 t1 where "st1 = (s1, t1)" by fastforce
  ultimately have run1: "rc_run k ops counts1 = ((s1, t1), c1)" by simp
  have st: "s = s1 + (if j = k \<and> prev = 0 then 1 else 0)" "t = t1" and "c1 = counts'"
    using 2(3) by (simp_all add: inc run1)
  then have run: "rc_run k ops counts1 = ((s1, t1), counts')" using run1 by simp
  have one: "counts_ok counts1" "prev = 0 \<longleftrightarrow> \<not> dict_has counts j"
    "dict_has counts1 k \<longleftrightarrow> k = j \<or> dict_has counts k"
    using rc_increment_cases [OF 2(2), of j] by (simp_all add: inc)
  from 2(1) [OF inc [symmetric] refl refl one(1) run] show ?case
    unfolding st by (cases "j = k"; cases "dict_has counts k") (simp_all add: one)
next
  case (3 k j ops counts)
  obtain res counts1 where dec: "rc_decrement counts j = (res, counts1)" by fastforce
  obtain st1 c1 where "rc_run k ops counts1 = (st1, c1)" by fastforce
  moreover obtain s1 t1 where "st1 = (s1, t1)" by fastforce
  ultimately have run1: "rc_run k ops counts1 = ((s1, t1), c1)" by simp
  have st: "s = s1" "t = t1 + (if j = k \<and> res = Some 0 then 1 else 0)" and "c1 = counts'"
    using 3(3) by (simp_all add: dec run1)
  then have run: "rc_run k ops counts1 = ((s1, t1), counts')" using run1 by simp
  have one: "counts_ok counts1"
    "dict_has counts1 k \<longleftrightarrow> dict_has counts k \<and> (k \<noteq> j \<or> res \<noteq> Some 0)"
    "res = Some 0 \<Longrightarrow> dict_has counts j"
    using rc_decrement_cases [OF 3(2), of j] by (simp_all add: dec)
  from 3(1) [OF dec [symmetric] refl one(1) run] show ?case
    unfolding st by (cases "j = k"; cases "res = Some 0") (use one(3) in \<open>simp_all add: one(1,2)\<close>)
qed simp

section \<open>Properties\<close>

text \<open>
  No cancellation is lost: a cancel either sets the token of the live call, or, unless the
  tombstones overflow meanwhile, whatever happens before the call is registered, the call
  starts cancelled.
\<close>

theorem cancel_before_register:
  assumes "registry_ok r" and "\<forall>op\<in>set ops. \<not> registers c op"
    and "pending_count (snd (cancel_call pick r c)) + length (filter is_cancel ops) \<le> MAX_PENDING_TOMBSTONES"
  shows "let (live, r1) = cancel_call pick r c; r2 = fold (registry_step pick) ops r1
    in if live then (\<exists>t'. dict_get (cr_map r) c = Some t' \<and> t' \<in> set (cr_set r1))
       else fst (register_call r2 c t) \<and> t \<in> set (cr_set (snd (register_call r2 c t)))"
proof (cases "dict_get (cr_map r) c")
  case (Some t')
  then show ?thesis by (simp add: cancel_call_def set_token_def)
next
  case None
  define r1 where "r1 = snd (cancel_call pick r c)"
  have r1: "cancel_call pick r c = (False, r1)" "c \<in> set (cr_pending r1)"
    using None by (simp_all add: r1_def cancel_call_def Let_def)
  have "c \<in> set (cr_pending (fold (registry_step pick) ops r1)) \<or>
      cr_closed (fold (registry_step pick) ops r1)"
    by (rule tombstone_run) (use r1 assms(2,3) in \<open>simp_all add: pending_count_def\<close>)
  then show ?thesis
    unfolding r1(1) by (auto simp: register_call_def set_token_def Let_def)
qed

theorem cancel_before_register_witness:
  "fst (register_call (registry_step hd (Cancel ''x'') (snd (cancel_call hd new_cancel_registry ''c''))) ''c'' 7)"
proof -
  have "pending_count (snd (cancel_call hd new_cancel_registry ''c'')) + length (filter is_cancel [Cancel ''x''])
      \<le> MAX_PENDING_TOMBSTONES"
    by (simp add: cancel_call_def new_cancel_registry_def pending_count_def MAX_PENDING_TOMBSTONES_def)
  moreover have "\<forall>op\<in>set [Cancel ''x'']. \<not> registers ''c'' op" by simp
  moreover have "\<not> fst (cancel_call hd new_cancel_registry ''c'')"
    by (simp add: cancel_call_def new_cancel_registry_def)
  ultimately show ?thesis
    using cancel_before_register [OF registry_ok_new, of "[Cancel ''x'']" "''c''" hd 7]
    by (simp add: case_prod_unfold Let_def)
qed

text \<open>
  In every history of a registry the tombstones stay within 8192 whichever straggler is
  evicted, an id is never both live and tombstoned, and a closed registry holds no live call.
\<close>

theorem registry_invariant:
  assumes "\<And>xs. xs \<noteq> [] \<Longrightarrow> pick xs \<in> set xs"
  shows "let r = fold (registry_step pick) ops new_cancel_registry
    in pending_count r \<le> 8192 \<and> set (cr_pending r) \<inter> set (dict_keys (cr_map r)) = {} \<and>
       (if cr_closed r then live_count r = 0 else True)"
proof -
  have "registry_ok (fold (registry_step pick) ops new_cancel_registry)"
    using assms by (intro registry_ok_run inv_intros)
  then show ?thesis
    by (auto simp: registry_ok_def pending_count_def live_count_def MAX_PENDING_TOMBSTONES_def
        dict_has_iff Let_def simp del: set_map)
qed

theorem registry_invariant_witness:
  "pending_count (fold (registry_step hd) [Cancel ''a'', Register ''a'' 1, CancelAllCalls] new_cancel_registry) \<le> 8192"
proof -
  have "hd xs \<in> set xs" if "xs \<noteq> []" for xs :: "call_id list" using that by simp
  from registry_invariant [OF this] show ?thesis by (metis (no_types, lifting))
qed

text \<open>
  Setups and teardowns of a key alternate: over any history from the empty set, the
  increments that answer \<open>prev = 0\<close> exceed the decrements that answer 0 by one while the key is
  live and by none while it is not, and every stored count is between 1 and the 64-bit maximum.
\<close>

theorem refcount_edges_balance:
  "let ((setups, teardowns), counts) = rc_run k ops []
   in setups = teardowns + (if dict_has counts k then 1 else 0) \<and>
      (case dict_get counts k of None \<Rightarrow> True | Some n \<Rightarrow> 0 < n \<and> n \<le> 2 ^ 64 - 1)"
proof -
  obtain s t counts where run: "rc_run k ops [] = ((s, t), counts)"
    by (metis surj_pair)
  have "counts_ok []" by (simp add: counts_ok_def)
  from rc_run_balance [OF this run] counts_ok_get [of counts k] show ?thesis
    by (auto simp: run U64_MAX_def split: option.splits)
qed

end
