(* ===== verification/Spec2Isabelle.thy ===== *)
theory Spec2Isabelle
  imports Graph_Properties Graph_Algo Cross_Count Acyclic Ranking Normalize Layout_Stages Order_Flat Hunks Admission Tool_Protocol Demux Pool Resilience Reliability Sampler_Retry Doom_Loop
    Plan_Mode Permissions Consent Sandbox_Profiles Call_Registry
begin

text \<open>
  A verification library for the core of \<open>minimax-code\<close>, a coding agent written in Python
  (\<open>src/agent/minimax_code\<close>; the paths below are relative to it). The agent core drives calls to
  a language model and to tools. Around it stand small deterministic components, and these are
  what is modelled here:

  \<^item> what decides whether a call is made, repeated or refused: two circuit breakers, the retry
    loop, the classification of sampler errors, the permission rules and the consent dialogue,
    the plan mode, the sandbox profiles, and the cancellation registry of the tool hub;
  \<^item> the graph library under the layered layout (\<open>dagre\<close>) with the traversals and the crossing
    count that use it;
  \<^item> what the agent says about file changes (\<open>hunks\<close>), and the messages of the tool hub with the
    admission of the calls they ask for.

  \<^bold>\<open>Graphs.\<close> \<open>Ordered_Map\<close> models \<open>data_structures/ordered_hashmap.py\<close>, a Python dict kept as an
  association list in insertion order (\<open>Prelude\<close>). \<open>Graphlib\<close> models the class \<open>Graph\<close> of
  \<open>data_structures/graphlib.py\<close>, one definition per method: the record \<open>graph\<close> has the fields of
  the object, the label factories are functions, \<open>None\<close> is an option, a mutating method returns
  the new graph. \<open>set_parent\<close> may run for ever, so it is a \<open>partial_function\<close> whose value is
  \<open>None\<close> when it does not return. \<open>Graph_Invariant\<close> holds the invariant that the adjacency tables
  mirror the edge table, \<open>Graph_Forest\<close> the compound forest and when \<open>set_parent\<close> returns,
  \<open>Graph_Properties\<close> what both give for the operations. \<open>Graph_Algo\<close> models
  \<open>data_structures/algo.py\<close>: the recursive traversals are total because each call marks a node,
  so the measure is the number of nodes still unmarked. \<open>Cross_Count\<close> models
  \<open>dagre/layout/order/cross_count.py\<close> and proves that the accumulator tree computes the weighted
  crossings, the quadratic definition.

  \<^bold>\<open>Layout passes.\<close> \<open>Dagre_Labels\<close> has the label records of \<open>dagre/lib.py\<close>; \<open>Graph_View\<close> describes
  the graph operations on the set of edge objects and their labels, which is what the passes see.
  \<open>Acyclic\<close> models \<open>dagre/layout/acyclic.py\<close>: the walk finds a feedback arc set, \<open>run\<close> reverses it
  and \<open>undo\<close> restores it. \<open>Ranking\<close> models \<open>dagre/layout/rank/util.py\<close>: the longest-path ranker keeps
  every edge at its minimal length or above. Both walks are mutual recursions that end because
  each node is entered once. \<open>Layout_Util\<close> models \<open>dagre/layout/util.py\<close>, \<open>Layout_Views\<close> has the lemmas
  on the view that the later passes share: fresh nodes, nodes without children, writes to labels.
  \<open>Normalize\<close> models \<open>dagre/layout/normalize.py\<close>: a chain is the edge, its label and its dummies; \<open>run\<close>
  builds chains, \<open>undo\<close> walks them, and both keep the predicate \<open>chained\<close>. \<open>Layout_Stages\<close> models the
  passes of \<open>dagre/layout/mod.py\<close> and \<open>dagre/layout/coordinate_system.py\<close>. The passes write to label objects; the model updates the label of
  the one node or edge, so labels shared between nodes are excluded.

  \<^bold>\<open>Order pass.\<close> These theories model \<open>dagre/layout/order\<close>. \<open>Order_Init\<close> has the first layering
  (\<open>init_order.py\<close>). \<open>Order_Sort\<close> has the floats with \<open>NaN\<close>, Python's list sort with a comparator, and the
  interleaving sorter (\<open>sort.py\<close>); \<open>Order_Resolve\<close> the topological sweep that merges entries against
  the constraints (\<open>resolve_conflicts.py\<close>): together they return every vertex of a level once.
  \<open>Order_Layers\<close> has the graph of one rank, the recursion over compound levels, the constraints for
  later ranks and the search (\<open>build_layer_graph.py\<close>, \<open>barycenter.py\<close>, \<open>sort_subgraph.py\<close>,
  \<open>add_subgraph_constraints.py\<close>, \<open>mod.py\<close>). \<open>Order_Sweep\<close> shows that the search ends, as the layerings
  are finitely many and a sweep changes only orders; \<open>Order_Levels\<close> that the graph of a rank is a
  forest, so that no recursion runs away; \<open>Order_Flat\<close> what a sweep does to a graph without compound
  nodes, and that its barycenters ignore the orders of the neighbours. The recursion over the levels has
  fuel, one more than the nodes of the graph of the rank, which is enough because a child has fewer
  nodes below it than its parent.

  \<^bold>\<open>Hunks.\<close> \<open>Difflib\<close> models the part of Python's \<open>difflib\<close> the code calls, with the contract of a
  line comparison as the locale \<open>line_diff\<close>. \<open>Hunks\<close> models \<open>hunks/types.py\<close> and \<open>hunks/diff.py\<close>: the hunks
  of a comparison, their patches and their matching; the hunks rebuild the current text.

  \<^bold>\<open>Tool hub.\<close> \<open>Admission\<close> models the three-tier admission of \<open>computer_hub_sdk/admission.py\<close> as a
  transition system whose steps are the segments between awaits. \<open>Wire\<close> has JSON values, Python's
  conversions on them and the ways the converters read and write a field, with the contracts of a
  pair of converters: \<open>wire_codec\<close> (what is written reads back), \<open>wire_object\<close> (never null) and
  \<open>wire_type\<close> (the reader returns only well-formed objects). \<open>Tool_Ids\<close>, \<open>Envelope\<close>,
  \<open>Tool_Registration\<close>, \<open>Tool_Frames\<close>, \<open>Turn_Hooks\<close> and \<open>Tool_Errors\<close> model the files of
  \<open>tool_protocol/\<close>, a record, a writer and a reader for each dataclass and an interpretation of the
  contract for each pair; \<open>Tool_Errors\<close> also follows an error of a tool (\<open>tool_runtime/error.py\<close>) through
  the response of the server (\<open>computer_hub_sdk/server.py\<close>) to the client that reconstructs it
  (\<open>computer_hub_core/remote.py\<close>). \<open>Tool_Protocol\<close> has what holds across the messages. \<open>Demux\<close>
  models \<open>computer_hub_sdk/demux.py\<close>, which hands an inbound frame to the call, session or stream that
  waits for it; queues and futures are objects of a heap that other code may change at any time. \<open>Client_Errors\<close>
  (\<open>computer_hub_sdk/error.py\<close>) classifies what comes back; \<open>Hub_Auth\<close> (\<open>computer_hub_sdk/auth.py\<close>) gives the
  fingerprint under which \<open>Pool\<close> (\<open>computer_hub_sdk/pool.py\<close>, \<open>connection_borrow.py\<close>) shares connections. A tool
  description is a pydantic model; dumping and validating it are parameters.

  \<^bold>\<open>Reliability.\<close> \<open>Breaker_Gate\<close> has the data both breakers share and the locale \<open>breaker_gate\<close>,
  the contract of an admission gate: while it sheds it admits nothing and does not change, and
  past its deadline it sheds no more. \<open>Resilience\<close> (\<open>resilience/\<close>: window, breaker, registry, retry policy) and
  \<open>Reliability\<close> (\<open>agent/reliability/\<close>: breaker, registry, exception classification, retry loop)
  interpret it on their own \<open>check\<close>. The two differ in one point the theorems show: the first
  reclaims a probe that never reports, the second keeps shedding for ever. \<open>Sampler_Retry\<close>
  (\<open>sampler/types.py\<close>, \<open>sampler/retry.py\<close>) classifies an error into a decision, and \<open>Doom_Loop\<close>
  (\<open>sampler/doom_loop.py\<close>) reads the labels of the repetition check.

  \<^bold>\<open>Consent.\<close> \<open>Permissions\<close> models the rule cache (\<open>permissions/__init__.py\<close>), the table behind it
  (\<open>storage/dao/permissions.py\<close>) and \<open>fnmatchcase\<close>; \<open>Consent\<close> models \<open>perm_consent.py\<close>, the pending
  questions to the user; \<open>Plan_Mode\<close> the tracker of \<open>plan_mode/tracker.py\<close>, whose histories are the
  inductive \<open>plan_reachable\<close>; \<open>Sandbox_Profiles\<close> the merge of profiles in \<open>sandbox/profiles.py\<close>.
  \<open>Call_Registry\<close> models \<open>computer_hub_sdk/cancel.py\<close> and \<open>computer_hub_sdk/refcount.py\<close>.

  \<^bold>\<open>Conventions.\<close> Python integers are \<open>int\<close> or, where the code keeps them non-negative, \<open>nat\<close>.
  Floating-point times, rates and weights are rationals: rounding is not modelled. Every reading
  of the clock is an argument of its own, so a function that reads the clock twice takes a pair.
  Random draws and generated identifiers are arguments. A raise is the left side of a sum or
  \<open>None\<close>. An \<open>async\<close> function without an \<open>await\<close> between its effects is one step; where it awaits,
  it is cut into steps that histories interleave. Strings are lists of characters below code
  point 256; \<open>Py_Strings\<close> has the methods of \<open>str\<close> the code calls, with \<open>lower\<close> and the space
  characters as Python has them on that range. Log lines are not modelled. Apart from
  the recursion over the levels of a rank no function has fuel: each has a measure, or returns an option.

  \<^bold>\<open>Not modelled.\<close> The \<open>from_env\<close> constructors of the breaker configurations (float parsing), the
  layout passes that position the nodes, nest compound nodes or rank by the network simplex, rendering, storage other than the rule table,
  the wire formats of the model API, the tool hub's connections, the code index and all input and output. The
  manifest lists them with reasons.
\<close>

end
